(* ===== verification/Prelude.thy ===== *)
theory Prelude
  imports Main "HOL-Library.Word"
begin

text \<open>
  What the components share: the machine integers of the Rust sources and the checked and
  saturating operations they use, the string operations of the standard library on UTF-8
  byte lists, decimal printing and parsing of \<open>u64\<close>, first-match list updates, and the
  effect type of the handlers (a result or an error together with the state left behind).
\<close>

section \<open>Machine integers\<close>

type_synonym u64 = "64 word"
type_synonym u32 = "32 word"
type_synonym u16 = "16 word"

text \<open>\<open>saturating_sub\<close>, \<open>saturating_add\<close> and \<open>checked_add\<close> of the unsigned integers.\<close>

definition sat_sub :: "'a::len word \<Rightarrow> 'a word \<Rightarrow> 'a word" where
  "sat_sub a b = (if b \<le> a then a - b else 0)"

definition sat_add :: "'a::len word \<Rightarrow> 'a word \<Rightarrow> 'a word" where
  "sat_add a b = (if a + b < a then - 1 else a + b)"

definition checked_add :: "'a::len word \<Rightarrow> 'a word \<Rightarrow> 'a word option" where
  "checked_add a b = (if a + b < a then None else Some (a + b))"

lemma unat_sat_sub: "unat (sat_sub a b) = unat a - unat b"
  by (auto simp: sat_sub_def unat_sub word_le_nat_alt)

lemma sat_sub_self [simp]: "sat_sub a a = 0"
  by (simp add: sat_sub_def)

lemma checked_add_one:
  fixes a :: "'a::len word"
  assumes "checked_add a 1 = Some b"
  shows "b = a + 1" and "a + 1 \<noteq> 0"
proof -
  have b: "b = a + 1" and le: "a \<le> a + 1"
    using assms by (auto simp: checked_add_def split: if_splits)
  show "b = a + 1" by (fact b)
  show "a + 1 \<noteq> 0"
  proof
    assume z: "a + 1 = 0"
    with le have "a = 0" by simp
    with z show False by simp
  qed
qed

lemma checked_add_unat: "checked_add a 1 = Some b \<Longrightarrow> unat b = Suc (unat a)"
  using checked_add_one [of a b] by (simp add: unatSuc add.commute)

lemma checked_add_greater: "checked_add a 1 = Some b \<Longrightarrow> a < b"
  by (simp add: checked_add_unat word_less_nat_alt)

section \<open>First-match list operations\<close>

text \<open>\<open>iter_mut().find(p)\<close> followed by a write through the reference it returns.\<close>

fun update_first :: "('a \<Rightarrow> bool) \<Rightarrow> ('a \<Rightarrow> 'a) \<Rightarrow> 'a list \<Rightarrow> 'a list" where
  "update_first p f [] = []"
| "update_first p f (x # xs) = (if p x then f x # xs else x # update_first p f xs)"

lemma length_update_first [simp]: "length (update_first p f xs) = length xs"
  by (induction xs) auto

lemma update_first_no_match: "find p xs = None \<Longrightarrow> update_first p f xs = xs"
  by (induction xs) (auto split: if_splits)

lemma find_Some_split:
  "find p xs = Some x \<Longrightarrow> \<exists>us vs. xs = us @ x # vs \<and> p x \<and> (\<forall>u\<in>set us. \<not> p u)"
proof (induction xs)
  case Nil
  then show ?case by simp
next
  case (Cons y ys)
  show ?case
  proof (cases "p y")
    case True
    with Cons.prems show ?thesis by (metis append_Nil empty_iff find.simps(2) list.set(1) option.inject)
  next
    case False
    with Cons.prems Cons.IH obtain us vs
      where "ys = us @ x # vs" "p x" "\<forall>u\<in>set us. \<not> p u" by auto
    with False have "y # ys = (y # us) @ x # vs \<and> p x \<and> (\<forall>u\<in>set (y # us). \<not> p u)" by simp
    then show ?thesis by blast
  qed
qed

lemma update_first_split:
  "\<forall>u\<in>set us. \<not> p u \<Longrightarrow> p x \<Longrightarrow> update_first p f (us @ x # vs) = us @ f x # vs"
  by (induction us) auto

text \<open>\<open>Vec::drain(..len - n)\<close> on a vector longer than \<open>n\<close>: keep the last \<open>n\<close> entries.\<close>

definition keep_last :: "nat \<Rightarrow> 'a list \<Rightarrow> 'a list" where
  "keep_last n xs = (if n < length xs then drop (length xs - n) xs else xs)"

lemma length_keep_last: "length (keep_last n xs) = min n (length xs)"
  by (auto simp: keep_last_def)

lemma keep_last_suffix: "\<exists>us. xs = us @ keep_last n xs"
  by (auto simp: keep_last_def) (metis append_take_drop_id)

lemma keep_last_snoc: "0 < n \<Longrightarrow> \<exists>us. keep_last n (xs @ [x]) = us @ [x]"
  by (auto simp: keep_last_def Suc_diff_le split: if_splits)

section \<open>Strings\<close>

text \<open>
  A Rust \<open>String\<close> is its UTF-8 bytes, one \<open>char\<close> of HOL per byte.
\<close>

definition byte :: "char \<Rightarrow> nat" where
  "byte c = of_char c"

text \<open>\<open>to_ascii_lowercase\<close>.\<close>

definition ascii_lower :: "char \<Rightarrow> char" where
  "ascii_lower c = (if 65 \<le> byte c \<and> byte c \<le> 90 then char_of (byte c + 32) else c)"

definition to_ascii_lowercase :: "string \<Rightarrow> string" where
  "to_ascii_lowercase s = map ascii_lower s"

text \<open>\<open>starts_with\<close>, \<open>strip_prefix\<close>, \<open>contains\<close>, \<open>split_once\<close> and \<open>join\<close>.\<close>

definition starts_with :: "string \<Rightarrow> string \<Rightarrow> bool" where
  "starts_with s p \<longleftrightarrow> take (length p) s = p"

definition strip_prefix :: "string \<Rightarrow> string \<Rightarrow> string option" where
  "strip_prefix s p = (if starts_with s p then Some (drop (length p) s) else None)"

fun str_contains :: "string \<Rightarrow> string \<Rightarrow> bool" where
  "str_contains [] p \<longleftrightarrow> p = []"
| "str_contains (c # s) p \<longleftrightarrow> starts_with (c # s) p \<or> str_contains s p"

fun split_once :: "string \<Rightarrow> char \<Rightarrow> (string \<times> string) option" where
  "split_once [] d = None"
| "split_once (c # s) d =
     (if c = d then Some ([], s)
      else map_option (\<lambda>(a, b). (c # a, b)) (split_once s d))"

fun join :: "string \<Rightarrow> string list \<Rightarrow> string" where
  "join sep [] = []"
| "join sep [s] = s"
| "join sep (s # ss) = s @ sep @ join sep ss"

lemma split_once_append: "d \<notin> set a \<Longrightarrow> split_once (a @ d # b) d = Some (a, b)"
  by (induction a) auto

lemma split_once_Some: "split_once s d = Some (a, b) \<Longrightarrow> s = a @ d # b \<and> d \<notin> set a"
  by (induction s arbitrary: a b) (auto split: if_splits)

text \<open>
  \<open>str::get(..n)\<close>: the first \<open>n\<close> bytes, when the string has them and the cut falls on a
  character boundary (the byte after it is not a UTF-8 continuation byte).
\<close>

definition is_continuation :: "char \<Rightarrow> bool" where
  "is_continuation c \<longleftrightarrow> 128 \<le> byte c \<and> byte c < 192"

definition get_to :: "string \<Rightarrow> nat \<Rightarrow> string option" where
  "get_to s n =
     (if n = length s then Some s
      else if n < length s \<and> \<not> is_continuation (s ! n) then Some (take n s) else None)"

section \<open>Decimal integers\<close>

definition digit_char :: "nat \<Rightarrow> char" where
  "digit_char d = char_of (48 + d)"

definition digit_value :: "char \<Rightarrow> nat option" where
  "digit_value c = (if 48 \<le> byte c \<and> byte c \<le> 57 then Some (byte c - 48) else None)"

fun show_nat :: "nat \<Rightarrow> string" where
  "show_nat n = (if n < 10 then [digit_char n] else show_nat (n div 10) @ [digit_char (n mod 10)])"

declare show_nat.simps [simp del]

fun parse_digits :: "nat \<Rightarrow> string \<Rightarrow> nat option" where
  "parse_digits acc [] = Some acc"
| "parse_digits acc (c # s) =
     (case digit_value c of None \<Rightarrow> None | Some d \<Rightarrow> parse_digits (10 * acc + d) s)"

text \<open>
  \<open>u64::from_str\<close>: an optional leading plus sign, then at least one decimal digit and
  nothing else, within range. \<open>Display\<close> prints no sign and no leading zero.
\<close>

definition parse_u64 :: "string \<Rightarrow> u64 option" where
  "parse_u64 s =
     (let digits = (case s of c # rest \<Rightarrow> if c = CHR ''+'' then rest else s | [] \<Rightarrow> s)
      in if digits = [] then None
         else case parse_digits 0 digits of
                None \<Rightarrow> None
              | Some n \<Rightarrow> if n < 2 ^ 64 then Some (of_nat n) else None)"

definition show_u64 :: "u64 \<Rightarrow> string" where
  "show_u64 w = show_nat (unat w)"

lemma byte_digit_char: "d < 10 \<Longrightarrow> byte (digit_char d) = 48 + d"
  by (simp add: byte_def digit_char_def)

lemma digit_value_digit_char [simp]: "d < 10 \<Longrightarrow> digit_value (digit_char d) = Some d"
  by (simp add: digit_value_def byte_digit_char)

lemma show_nat_digits: "c \<in> set (show_nat n) \<Longrightarrow> \<exists>d<10. c = digit_char d"
proof (induction n rule: show_nat.induct)
  case (1 n)
  show ?case
  proof (cases "n < 10")
    case True
    with "1.prems" show ?thesis by (subst (asm) show_nat.simps) auto
  next
    case False
    with "1.prems" have "c \<in> set (show_nat (n div 10)) \<or> c = digit_char (n mod 10)"
      by (subst (asm) show_nat.simps) auto
    with False "1.IH" show ?thesis by (metis mod_less_divisor zero_less_numeral)
  qed
qed

lemma show_nat_nonempty [simp]: "show_nat n \<noteq> []"
  by (subst show_nat.simps) simp

lemma char_not_in_show_nat: "byte c < 48 \<or> 57 < byte c \<Longrightarrow> c \<notin> set (show_nat n)"
  using show_nat_digits byte_digit_char by fastforce

lemma parse_digits_append:
  "parse_digits acc (s @ t) = (case parse_digits acc s of None \<Rightarrow> None | Some n \<Rightarrow> parse_digits n t)"
  by (induction s arbitrary: acc) (auto split: option.splits)

lemma parse_digits_show_nat: "parse_digits 0 (show_nat n) = Some n"
proof (induction n rule: show_nat.induct)
  case (1 n)
  show ?case
  proof (cases "n < 10")
    case True
    then show ?thesis by (subst show_nat.simps) simp
  next
    case False
    with 1 show ?thesis by (subst show_nat.simps) (simp add: parse_digits_append)
  qed
qed

lemma parse_u64_show_u64 [simp]: "parse_u64 (show_u64 w) = Some w"
proof -
  have "CHR ''+'' \<notin> set (show_nat (unat w))"
    by (rule char_not_in_show_nat) (simp add: byte_def)
  then have "(case show_nat (unat w) of c # rest \<Rightarrow> if c = CHR ''+'' then rest else show_nat (unat w)
      | [] \<Rightarrow> show_nat (unat w)) = show_nat (unat w)"
    by (auto split: list.splits)
  moreover have "unat w < 2 ^ 64"
    using unsigned_less [of w] by simp
  ultimately show ?thesis
    by (simp add: parse_u64_def show_u64_def parse_digits_show_nat)
qed

lemma hash_not_in_show_u64 [simp]: "CHR ''#'' \<notin> set (show_u64 w)"
  unfolding show_u64_def by (rule char_not_in_show_nat) (simp add: byte_def)

section \<open>Results\<close>

text \<open>The question mark operator on a plain \<open>Result\<close>, and a list of results collected.\<close>

definition bind_result :: "'e + 'a \<Rightarrow> ('a \<Rightarrow> 'e + 'b) \<Rightarrow> 'e + 'b" where
  "bind_result r f = (case r of Inl e \<Rightarrow> Inl e | Inr a \<Rightarrow> f a)"

fun collect_results :: "('e + 'a) list \<Rightarrow> 'e + 'a list" where
  "collect_results [] = Inr []"
| "collect_results (r # rs) =
     bind_result r (\<lambda>a. bind_result (collect_results rs) (\<lambda>xs. Inr (a # xs)))"

lemma bind_result_simps [simp]:
  "bind_result (Inl e) f = Inl e"
  "bind_result (Inr a) f = f a"
  by (simp_all add: bind_result_def)

lemma bind_result_Inr: "bind_result r f = Inr b \<longleftrightarrow> (\<exists>a. r = Inr a \<and> f a = Inr b)"
  by (cases r) auto

lemma collect_results_Inr: "collect_results rs = Inr xs \<longleftrightarrow> rs = map Inr xs"
proof (induction rs arbitrary: xs)
  case Nil
  then show ?case by auto
next
  case (Cons r rs)
  then show ?case by (cases xs) (auto simp: bind_result_Inr)
qed

lemma collect_results_map [simp]: "collect_results (map (\<lambda>x. Inr (f x)) xs) = Inr (map f xs)"
  by (induction xs) auto

section \<open>Handlers\<close>

text \<open>
  A step of a handler leaves a state behind whether it succeeds or fails: Restate never
  rolls back what a handler has written or sent, so the error carries no undo.
\<close>

type_synonym ('s, 'e, 'a) eff = "'s \<Rightarrow> ('e + 'a) \<times> 's"

definition ok :: "'a \<Rightarrow> ('s, 'e, 'a) eff" where
  "ok a = (\<lambda>s. (Inr a, s))"

definition fail :: "'e \<Rightarrow> ('s, 'e, 'a) eff" where
  "fail e = (\<lambda>s. (Inl e, s))"

text \<open>Sequencing with the question mark operator: an error ends the handler.\<close>

definition andthen :: "('s, 'e, 'a) eff \<Rightarrow> ('a \<Rightarrow> ('s, 'e, 'b) eff) \<Rightarrow> ('s, 'e, 'b) eff" where
  "andthen m f = (\<lambda>s. case m s of (Inl e, s') \<Rightarrow> (Inl e, s') | (Inr a, s') \<Rightarrow> f a s')"

text \<open>A write or a send that cannot fail.\<close>

definition put :: "('s \<Rightarrow> 's) \<Rightarrow> ('s, 'e, unit) eff" where
  "put f = (\<lambda>s. (Inr (), f s))"

text \<open>A pure fallible computation inside a handler.\<close>

definition lift :: "'e + 'a \<Rightarrow> ('s, 'e, 'a) eff" where
  "lift r = (\<lambda>s. (r, s))"

named_theorems eff_simps \<open>unfolding of the handler combinators\<close>

lemma ok_apply [eff_simps, simp]: "ok a s = (Inr a, s)"
  by (simp add: ok_def)

lemma fail_apply [eff_simps, simp]: "fail e s = (Inl e, s)"
  by (simp add: fail_def)

lemma put_apply [eff_simps, simp]: "put f s = (Inr (), f s)"
  by (simp add: put_def)

lemma lift_apply [eff_simps, simp]: "lift r s = (r, s)"
  by (simp add: lift_def)

lemma andthen_ok [simp]: "m s = (Inr a, s') \<Longrightarrow> andthen m f s = f a s'"
  by (simp add: andthen_def)

lemma andthen_err [simp]: "m s = (Inl e, s') \<Longrightarrow> andthen m f s = (Inl e, s')"
  by (simp add: andthen_def)

lemma andthen_Inr_iff:
  "andthen m f s = (Inr b, s'') \<longleftrightarrow> (\<exists>a s'. m s = (Inr a, s') \<and> f a s' = (Inr b, s''))"
  by (auto simp: andthen_def split: prod.splits sum.splits)

lemma andthen_Inl_iff:
  "andthen m f s = (Inl e, s'') \<longleftrightarrow>
     m s = (Inl e, s'') \<or> (\<exists>a s'. m s = (Inr a, s') \<and> f a s' = (Inl e, s''))"
  by (auto simp: andthen_def split: prod.splits sum.splits)

lemma andthen_assoc: "andthen (andthen m f) g = andthen m (\<lambda>a. andthen (f a) g)"
  by (rule ext) (auto simp: andthen_def split: prod.splits sum.splits)

text \<open>What a handler fails with: for good, or so that Restate runs it again.\<close>

datatype handler_error = Terminal string | Retryable string

type_synonym ('s, 'a) handler = "('s, handler_error, 'a) eff"

end
