(* ===== verification/Core_Types.thy ===== *)
theory Core_Types
  imports Prelude
begin

text \<open>
  The domain vocabulary of \<^verbatim>\<open>crates/core/src/lib.rs\<close>: keys, the enums whose printed forms
  are persisted tokens, the projected records, filters, pages, facets, and the kinds of
  webhook delivery. The contract of a persisted token is the locale \<open>token_codec\<close>.
\<close>

section \<open>Constants\<close>

definition DEPENDABOT_LOGIN :: string where "DEPENDABOT_LOGIN = ''dependabot[bot]''"
definition DEFAULT_PAGE_SIZE :: u32 where "DEFAULT_PAGE_SIZE = 50"
definition MAX_PAGE_SIZE :: u32 where "MAX_PAGE_SIZE = 100"
definition MAX_BATCH_TARGETS :: nat where "MAX_BATCH_TARGETS = 100"
definition MAX_RECENT_BATCHES :: u32 where "MAX_RECENT_BATCHES = 200"
definition STALE_AFTER :: u64 where "STALE_AFTER = 45 * 60"

section \<open>Printed tokens\<close>

text \<open>
  What the store and the dashboard's links rely on when they persist a value by its printed
  form: reading the form back gives the value. A strict codec also accepts no second
  spelling. A failed read carries the text it could not read.
\<close>

locale token_codec =
  fixes render :: "'a \<Rightarrow> string"
    and read :: "string \<Rightarrow> string + 'a"
  assumes read_render: "read (render a) = Inr a"
begin

lemma render_inj: "render a = render b \<longleftrightarrow> a = b"
  by (metis read_render sum.inject(2))

lemma map_read_render: "map (\<lambda>x. read (render x)) xs = map Inr xs"
  by (simp add: read_render)

lemma in_render_image: "render a \<in> render ` A \<longleftrightarrow> a \<in> A"
  by (auto simp: render_inj)

end

locale strict_token_codec = token_codec +
  assumes render_read: "read s = Inr a \<Longrightarrow> render a = s"
begin

lemma read_iff: "read s = Inr a \<longleftrightarrow> s = render a"
  using read_render render_read by blast

end

section \<open>Comparisons\<close>

text \<open>The standard library's \<open>Ordering\<close>, and \<open>cmp\<close> on what it orders itself.\<close>

datatype cmp_ordering = OrdLess | OrdEqual | OrdGreater

definition cmp_values :: "'a::linorder \<Rightarrow> 'a \<Rightarrow> cmp_ordering" where
  "cmp_values a b = (if a < b then OrdLess else if a = b then OrdEqual else OrdGreater)"

lemma cmp_values_iff [simp]:
  "cmp_values a b = OrdLess \<longleftrightarrow> a < b"
  "cmp_values a b = OrdEqual \<longleftrightarrow> a = b"
  "cmp_values a b = OrdGreater \<longleftrightarrow> b < a"
  by (auto simp: cmp_values_def)

section \<open>Pull request keys\<close>

datatype pr_key = PrKey (pk_repository: u64) (pk_number: u64)

text \<open>The derived order: the repository first, then the number.\<close>

definition cmp_pr_key :: "pr_key \<Rightarrow> pr_key \<Rightarrow> cmp_ordering" where
  "cmp_pr_key a b =
     (case cmp_values (pk_repository a) (pk_repository b) of
        OrdEqual \<Rightarrow> cmp_values (pk_number a) (pk_number b)
      | decided \<Rightarrow> decided)"

lemma cmp_pr_key_iff:
  "cmp_pr_key a b = OrdLess \<longleftrightarrow>
     pk_repository a < pk_repository b \<or> (pk_repository a = pk_repository b \<and> pk_number a < pk_number b)"
  "cmp_pr_key a b = OrdGreater \<longleftrightarrow> cmp_pr_key b a = OrdLess"
  by (auto simp: cmp_pr_key_def split: cmp_ordering.split)

instantiation pr_key :: linorder
begin

definition less_eq_pr_key :: "pr_key \<Rightarrow> pr_key \<Rightarrow> bool" where
  "less_eq_pr_key a b \<longleftrightarrow> cmp_pr_key a b \<noteq> OrdGreater"

definition less_pr_key :: "pr_key \<Rightarrow> pr_key \<Rightarrow> bool" where
  "less_pr_key a b \<longleftrightarrow> cmp_pr_key a b = OrdLess"

instance
proof
  fix x y z :: pr_key
  note order = less_eq_pr_key_def less_pr_key_def cmp_pr_key_iff
  show "x < y \<longleftrightarrow> x \<le> y \<and> \<not> y \<le> x" by (auto simp: order)
  show "x \<le> x" by (simp add: order)
  show "x \<le> y \<Longrightarrow> y \<le> z \<Longrightarrow> x \<le> z" by (auto simp: order)
  show "x \<le> y \<Longrightarrow> y \<le> x \<Longrightarrow> x = y" by (cases x; cases y) (auto simp: order)
  show "x \<le> y \<or> y \<le> x" by (auto simp: order)
qed

end

definition display_pr_key :: "pr_key \<Rightarrow> string" where
  "display_pr_key k = show_u64 (pk_repository k) @ ''#'' @ show_u64 (pk_number k)"

text \<open>\<open>FromStr\<close>: the error carries the text that could not be read.\<close>

definition parse_pr_key :: "string \<Rightarrow> string + pr_key" where
  "parse_pr_key value =
     (case split_once value (CHR ''#'') of
        None \<Rightarrow> Inl value
      | Some (repository_id, number) \<Rightarrow>
          (case parse_u64 repository_id of
             None \<Rightarrow> Inl value
           | Some r \<Rightarrow>
               (case parse_u64 number of
                  None \<Rightarrow> Inl value
                | Some n \<Rightarrow> Inr (PrKey r n))))"

lemma parse_display_pr_key: "parse_pr_key (display_pr_key k) = Inr k"
  by (cases k) (simp add: parse_pr_key_def display_pr_key_def split_once_append)

interpretation pr_key_codec: token_codec display_pr_key parse_pr_key
  by unfold_locales (rule parse_display_pr_key)

record retirement =
  rt_id :: u64
  rt_key :: pr_key
  rt_synced_before :: "u64 option"

section \<open>Enums persisted by their printed form\<close>

datatype update_type = UtMajor | UtMinor | UtPatch | UtUnknown

definition UPDATE_TYPES :: "update_type list" where
  "UPDATE_TYPES = [UtMajor, UtMinor, UtPatch, UtUnknown]"

fun update_rank :: "update_type \<Rightarrow> nat" where
  "update_rank UtUnknown = 0"
| "update_rank UtPatch = 1"
| "update_rank UtMinor = 2"
| "update_rank UtMajor = 3"

lemma update_rank_inj: "update_rank a = update_rank b \<longleftrightarrow> a = b"
  by (cases a; cases b) auto

text \<open>\<open>Ord\<close> compares the severity ranks, not the declaration order.\<close>

definition cmp_update_type :: "update_type \<Rightarrow> update_type \<Rightarrow> cmp_ordering" where
  "cmp_update_type a b = cmp_values (update_rank a) (update_rank b)"

definition partial_cmp_update_type :: "update_type \<Rightarrow> update_type \<Rightarrow> cmp_ordering option" where
  "partial_cmp_update_type a b = Some (cmp_update_type a b)"

instantiation update_type :: linorder
begin

definition less_eq_update_type :: "update_type \<Rightarrow> update_type \<Rightarrow> bool" where
  "less_eq_update_type a b \<longleftrightarrow> partial_cmp_update_type a b \<noteq> Some OrdGreater"

definition less_update_type :: "update_type \<Rightarrow> update_type \<Rightarrow> bool" where
  "less_update_type a b \<longleftrightarrow> partial_cmp_update_type a b = Some OrdLess"

instance
  by intro_classes
    (auto simp: less_eq_update_type_def less_update_type_def partial_cmp_update_type_def cmp_update_type_def
      update_rank_inj)

end

fun display_update_type :: "update_type \<Rightarrow> string" where
  "display_update_type UtMajor = ''major''"
| "display_update_type UtMinor = ''minor''"
| "display_update_type UtPatch = ''patch''"
| "display_update_type UtUnknown = ''unknown''"

definition parse_update_type :: "string \<Rightarrow> string + update_type" where
  "parse_update_type value =
     (if value = ''major'' then Inr UtMajor
      else if value = ''minor'' then Inr UtMinor
      else if value = ''patch'' then Inr UtPatch
      else if value = ''unknown'' then Inr UtUnknown
      else Inl value)"

interpretation update_type_codec: strict_token_codec display_update_type parse_update_type
proof unfold_locales
  show "parse_update_type (display_update_type a) = Inr a" for a
    by (cases a) (simp_all add: parse_update_type_def)
  show "parse_update_type s = Inr a \<Longrightarrow> display_update_type a = s" for s a
    by (auto simp: parse_update_type_def split: if_splits)
qed

datatype check_status = CkSuccess | CkFailure | CkPending | CkNone

definition CHECK_STATUSES :: "check_status list" where
  "CHECK_STATUSES = [CkSuccess, CkFailure, CkPending, CkNone]"

definition is_green :: "check_status \<Rightarrow> bool" where
  "is_green s \<longleftrightarrow> s = CkSuccess"

fun display_check_status :: "check_status \<Rightarrow> string" where
  "display_check_status CkSuccess = ''success''"
| "display_check_status CkFailure = ''failure''"
| "display_check_status CkPending = ''pending''"
| "display_check_status CkNone = ''none''"

definition parse_check_status :: "string \<Rightarrow> string + check_status" where
  "parse_check_status value =
     (if value = ''success'' then Inr CkSuccess
      else if value = ''failure'' then Inr CkFailure
      else if value = ''pending'' then Inr CkPending
      else if value = ''none'' then Inr CkNone
      else Inl value)"

interpretation check_status_codec: strict_token_codec display_check_status parse_check_status
proof unfold_locales
  show "parse_check_status (display_check_status a) = Inr a" for a
    by (cases a) (simp_all add: parse_check_status_def)
  show "parse_check_status s = Inr a \<Longrightarrow> display_check_status a = s" for s a
    by (auto simp: parse_check_status_def split: if_splits)
qed

datatype mergeable =
  MgClean | MgDirty | MgBlocked | MgBehind | MgUnstable | MgDraft | MgHasHooks | MgUnknown

definition MERGEABLES :: "mergeable list" where
  "MERGEABLES = [MgClean, MgDirty, MgBlocked, MgBehind, MgUnstable, MgDraft, MgHasHooks, MgUnknown]"

definition from_github_state :: "string \<Rightarrow> mergeable" where
  "from_github_state value =
     (if value = ''clean'' then MgClean
      else if value = ''dirty'' then MgDirty
      else if value = ''blocked'' then MgBlocked
      else if value = ''behind'' then MgBehind
      else if value = ''unstable'' then MgUnstable
      else if value = ''draft'' then MgDraft
      else if value = ''has_hooks'' then MgHasHooks
      else MgUnknown)"

definition is_conflicting :: "mergeable \<Rightarrow> bool" where
  "is_conflicting m \<longleftrightarrow> m = MgDirty"

fun display_mergeable :: "mergeable \<Rightarrow> string" where
  "display_mergeable MgClean = ''clean''"
| "display_mergeable MgDirty = ''dirty''"
| "display_mergeable MgBlocked = ''blocked''"
| "display_mergeable MgBehind = ''behind''"
| "display_mergeable MgUnstable = ''unstable''"
| "display_mergeable MgDraft = ''draft''"
| "display_mergeable MgHasHooks = ''has_hooks''"
| "display_mergeable MgUnknown = ''unknown''"

text \<open>The total reading of a stored mergeability, as a codec that never fails.\<close>

interpretation mergeable_codec:
  token_codec display_mergeable "\<lambda>s. Inr (from_github_state s)"
proof unfold_locales
  show "Inr (from_github_state (display_mergeable a)) = Inr a" for a
    by (cases a) (simp_all add: from_github_state_def)
qed

datatype merge_method = MmMerge | MmSquash | MmRebase

fun display_merge_method :: "merge_method \<Rightarrow> string" where
  "display_merge_method MmMerge = ''merge''"
| "display_merge_method MmSquash = ''squash''"
| "display_merge_method MmRebase = ''rebase''"

definition parse_merge_method :: "string \<Rightarrow> string + merge_method" where
  "parse_merge_method value =
     (if value = ''merge'' then Inr MmMerge
      else if value = ''squash'' then Inr MmSquash
      else if value = ''rebase'' then Inr MmRebase
      else Inl value)"

interpretation merge_method_codec: strict_token_codec display_merge_method parse_merge_method
proof unfold_locales
  show "parse_merge_method (display_merge_method a) = Inr a" for a
    by (cases a) (simp_all add: parse_merge_method_def)
  show "parse_merge_method s = Inr a \<Longrightarrow> display_merge_method a = s" for s a
    by (auto simp: parse_merge_method_def split: if_splits)
qed

datatype bulk_action_kind = BkMerge | BkRebase | BkUpdateBranch

fun display_bulk_action :: "bulk_action_kind \<Rightarrow> string" where
  "display_bulk_action BkMerge = ''merge''"
| "display_bulk_action BkRebase = ''rebase''"
| "display_bulk_action BkUpdateBranch = ''update branch''"

definition parse_bulk_action :: "string \<Rightarrow> string + bulk_action_kind" where
  "parse_bulk_action value =
     (if value = ''merge'' then Inr BkMerge
      else if value = ''rebase'' then Inr BkRebase
      else if value = ''update branch'' then Inr BkUpdateBranch
      else Inl value)"

interpretation bulk_action_codec: strict_token_codec display_bulk_action parse_bulk_action
proof unfold_locales
  show "parse_bulk_action (display_bulk_action a) = Inr a" for a
    by (cases a) (simp_all add: parse_bulk_action_def)
  show "parse_bulk_action s = Inr a \<Longrightarrow> display_bulk_action a = s" for s a
    by (auto simp: parse_bulk_action_def split: if_splits)
qed

text \<open>
  The one-variant command enum, always printed \<open>rebase\<close>.
\<close>

datatype dependabot_command = DcRebase

fun display_command :: "dependabot_command \<Rightarrow> string" where
  "display_command DcRebase = ''rebase''"

section \<open>Records of the read model\<close>

record dependency_update =
  du_name :: string
  du_from_version :: "string option"
  du_to_version :: "string option"
  du_update_type :: update_type

text \<open>\<open>max\<close> over the severities, \<open>Unknown\<close> for no update at all.\<close>

definition highest_update_type :: "dependency_update list \<Rightarrow> update_type" where
  "highest_update_type updates =
     (case map du_update_type updates of [] \<Rightarrow> UtUnknown | t # ts \<Rightarrow> fold max ts t)"

lemma fold_max_ge: "(x :: 'a::linorder) \<le> fold max xs x \<and> (\<forall>y\<in>set xs. y \<le> fold max xs x)"
proof (induction xs arbitrary: x)
  case Nil
  then show ?case by simp
next
  case (Cons a xs)
  from Cons.IH [of "max a x"] show ?case by auto
qed

lemma fold_max_in: "fold max xs (x :: 'a::linorder) \<in> insert x (set xs)"
proof (induction xs arbitrary: x)
  case Nil
  then show ?case by simp
next
  case (Cons a xs)
  have "fold max xs (max a x) \<in> insert (max a x) (set xs)" by (rule Cons.IH)
  moreover have "max a x = a \<or> max a x = x" by (auto simp: max_def)
  ultimately show ?case by auto
qed

lemma highest_update_type_ge: "u \<in> set updates \<Longrightarrow> du_update_type u \<le> highest_update_type updates"
  using fold_max_ge by (cases updates) (fastforce simp: highest_update_type_def)+

lemma highest_update_type_in:
  "updates \<noteq> [] \<Longrightarrow> highest_update_type updates \<in> du_update_type ` set updates"
  using fold_max_in by (cases updates) (fastforce simp: highest_update_type_def)+

record repo_record =
  rr_repository_id :: u64
  rr_installation_id :: u64
  rr_owner :: string
  rr_repo :: string
  rr_merge_method :: "merge_method option"
  rr_synced_at :: u64

record pr_record =
  pr_id :: string
  pr_repository_id :: u64
  pr_owner :: string
  pr_repo :: string
  pr_number :: u64
  pr_title :: string
  pr_html_url :: string
  pr_dependency :: "string option"
  pr_from_version :: "string option"
  pr_to_version :: "string option"
  pr_dependencies :: "dependency_update list"
  pr_update_type :: update_type
  pr_head_sha :: string
  pr_check_status :: check_status
  pr_mergeable :: mergeable
  pr_labels :: "string list"
  pr_created_at :: u64
  pr_updated_at :: u64
  pr_synced_at :: u64

definition record_key :: "pr_record \<Rightarrow> pr_key" where
  "record_key pr = PrKey (pr_repository_id pr) (pr_number pr)"

definition is_stale :: "pr_record \<Rightarrow> u64 \<Rightarrow> bool" where
  "is_stale pr now \<longleftrightarrow> STALE_AFTER < sat_sub now (pr_synced_at pr)"

section \<open>Filters, pages and facets\<close>

record pr_filter =
  pf_query :: "string option"
  pf_repos :: "string list"
  pf_update_types :: "update_type list"
  pf_check_statuses :: "check_status list"
  pf_labels :: "string list"
  pf_dependency :: "string option"
  pf_needs_attention :: bool

definition default_filter :: pr_filter where
  "default_filter = \<lparr>pf_query = None, pf_repos = [], pf_update_types = [], pf_check_statuses = [],
     pf_labels = [], pf_dependency = None, pf_needs_attention = False\<rparr>"

record page_cursor =
  pc_updated_at :: u64
  pc_id :: string

record page =
  pg_limit :: u32
  pg_after :: "string option"

definition default_page :: page where
  "default_page = \<lparr>pg_limit = DEFAULT_PAGE_SIZE, pg_after = None\<rparr>"

text \<open>\<open>clamp\<close> of the unsigned integers, for bounds in order.\<close>

definition clamp :: "'a::len word \<Rightarrow> 'a word \<Rightarrow> 'a word \<Rightarrow> 'a word" where
  "clamp lo hi x = (if x < lo then lo else if hi < x then hi else x)"

definition normalized_limit :: "page \<Rightarrow> u32" where
  "normalized_limit p = clamp 1 MAX_PAGE_SIZE (pg_limit p)"

lemma normalized_limit_bounds: "1 \<le> unat (normalized_limit p) \<and> unat (normalized_limit p) \<le> 100"
proof -
  have "normalized_limit p \<noteq> 0" and "normalized_limit p \<le> 100"
    by (auto simp: normalized_limit_def clamp_def MAX_PAGE_SIZE_def not_less word_le_nat_alt)
  then show ?thesis by (simp add: word_le_nat_alt unat_gt_0 Suc_le_eq)
qed

record label_facet =
  lf_label :: string
  lf_count :: u64

record repo_facet =
  rf_repository :: repo_record
  rf_count :: u64

record facet_counts =
  fc_checks :: "check_status \<rightharpoonup> u64"
  fc_update_types :: "update_type \<rightharpoonup> u64"
  fc_labels :: "label_facet list"
  fc_repositories :: "repo_facet list"

definition check_count :: "facet_counts \<Rightarrow> check_status \<Rightarrow> u64" where
  "check_count f s = (case fc_checks f s of None \<Rightarrow> 0 | Some n \<Rightarrow> n)"

definition update_type_count :: "facet_counts \<Rightarrow> update_type \<Rightarrow> u64" where
  "update_type_count f t = (case fc_update_types f t of None \<Rightarrow> 0 | Some n \<Rightarrow> n)"

record dashboard_page =
  dp_rows :: "pr_record list"
  dp_total :: u64
  dp_next_cursor :: "string option"

record dashboard_summary =
  ds_facets :: facet_counts
  ds_last_synced_at :: "u64 option"

record projection_revision =
  rv_projection :: u64
  rv_pull_requests :: u64

section \<open>Short commit names\<close>

definition short_sha :: "string \<Rightarrow> string" where
  "short_sha value = (case get_to value 7 of None \<Rightarrow> value | Some s \<Rightarrow> s)"

section \<open>Webhook deliveries\<close>

datatype delivery_kind =
    DkPullRequest | DkCheckSuite | DkCheckRun | DkStatus | DkInstallation
  | DkInstallationRepositories | DkOther string

fun delivery_as_str :: "delivery_kind \<Rightarrow> string" where
  "delivery_as_str DkPullRequest = ''pull_request''"
| "delivery_as_str DkCheckSuite = ''check_suite''"
| "delivery_as_str DkCheckRun = ''check_run''"
| "delivery_as_str DkStatus = ''status''"
| "delivery_as_str DkInstallation = ''installation''"
| "delivery_as_str DkInstallationRepositories = ''installation_repositories''"
| "delivery_as_str (DkOther kind) = kind"

definition delivery_routed :: "string \<Rightarrow> delivery_kind option" where
  "delivery_routed value =
     (if value = ''pull_request'' then Some DkPullRequest
      else if value = ''check_suite'' then Some DkCheckSuite
      else if value = ''check_run'' then Some DkCheckRun
      else if value = ''status'' then Some DkStatus
      else if value = ''installation'' then Some DkInstallation
      else if value = ''installation_repositories'' then Some DkInstallationRepositories
      else None)"

definition delivery_from :: "string \<Rightarrow> delivery_kind" where
  "delivery_from value = (case delivery_routed value of Some k \<Rightarrow> k | None \<Rightarrow> DkOther value)"

lemma delivery_as_str_from [simp]: "delivery_as_str (delivery_from s) = s"
  by (simp add: delivery_from_def delivery_routed_def)

record webhook_event =
  we_event :: delivery_kind
  we_action :: "string option"
  we_installation_id :: "u64 option"
  we_repository_id :: "u64 option"
  we_owner :: "string option"
  we_repo :: "string option"
  we_number :: "u64 option"
  we_sha :: "string option"
  we_pull_requests :: "u64 list"

section \<open>Properties of the wire forms\<close>

text \<open>
  The text of a pull request key, of every enumeration and of a webhook delivery reads
  back as the value it was written from, and the closed enumerations accept no other text.
\<close>

theorem wire_forms_round_trip:
  "parse_pr_key (display_pr_key k) = Inr k \<and>
   (parse_update_type s = Inr u \<longleftrightarrow> s = display_update_type u) \<and>
   (parse_check_status s = Inr c \<longleftrightarrow> s = display_check_status c) \<and>
   (parse_merge_method s = Inr m \<longleftrightarrow> s = display_merge_method m) \<and>
   (parse_bulk_action s = Inr a \<longleftrightarrow> s = display_bulk_action a) \<and>
   from_github_state (display_mergeable g) = g \<and>
   delivery_as_str (delivery_from s) = s"
  using mergeable_codec.read_render [of g]
  by (simp add: parse_display_pr_key update_type_codec.read_iff check_status_codec.read_iff
      merge_method_codec.read_iff bulk_action_codec.read_iff)

end
