(* ===== verification/Core_Batch.thy ===== *)
theory Core_Batch
  imports Core_Types
begin

text \<open>
  Bulk actions in \<^verbatim>\<open>crates/core/src/lib.rs\<close>: targets and requests, the rules a batch is held
  to, the progress of a running batch with its tally, and the record a finished batch leaves.
  The invariant \<open>tally_ok\<close> says what the tally counts; every operation on the progress keeps it.
\<close>

section \<open>Targets, requests and outcomes\<close>

record pr_target =
  tg_repository_id :: u64
  tg_owner :: string
  tg_repo :: string
  tg_number :: u64
  tg_expected_sha :: string
  tg_title :: string
  tg_html_url :: string

definition target_key :: "pr_target \<Rightarrow> pr_key" where
  "target_key t = PrKey (tg_repository_id t) (tg_number t)"

record submitted_target =
  st_repository_id :: u64
  st_number :: u64
  st_expected_sha :: string

definition submitted_key :: "submitted_target \<Rightarrow> pr_key" where
  "submitted_key t = PrKey (st_repository_id t) (st_number t)"

definition submit_target :: "pr_target \<Rightarrow> submitted_target" where
  "submit_target t = \<lparr>st_repository_id = tg_repository_id t, st_number = tg_number t,
     st_expected_sha = tg_expected_sha t\<rparr>"

lemma submitted_key_submit [simp]: "submitted_key (submit_target t) = target_key t"
  by (simp add: submitted_key_def submit_target_def target_key_def)

record batch_receipt =
  br_left_out :: "pr_key list"

record bulk_request =
  bq_action :: bulk_action_kind
  bq_targets :: "pr_target list"
  bq_user_id :: string
  bq_retried_from :: "string option"

record merge_request =
  mr_batch_id :: string
  mr_target :: pr_target

record command_request =
  cq_batch_id :: string
  cq_target :: pr_target
  cq_user_id :: string
  cq_command :: dependabot_command

record update_branch_request =
  ub_batch_id :: string
  ub_target :: pr_target

datatype reject_reason =
    StaleSha (expected_sha: string) (actual_sha: string)
  | NotMergeable | MergeMethodDisallowed | Forbidden | NotFound | NoUserToken

fun display_reject :: "reject_reason \<Rightarrow> string" where
  "display_reject (StaleSha e a) =
     ''head moved from '' @ short_sha e @ '' to '' @ short_sha a"
| "display_reject NotMergeable = ''GitHub reports this pull request is not mergeable''"
| "display_reject MergeMethodDisallowed = ''the repository disallows this merge method''"
| "display_reject Forbidden =
     ''the configured identity is not allowed to perform this action''"
| "display_reject NotFound = ''the pull request was closed or no longer exists''"
| "display_reject NoUserToken = ''no GitHub user token is configured for @dependabot commands''"

datatype action_outcome =
    Succeeded string "string option"
  | Rejected reject_reason

section \<open>The rules a batch is held to\<close>

datatype invalid_batch = BadBatchId | BadRetriedFrom | BadTargetCount | DuplicateTargets

fun display_invalid_batch :: "invalid_batch \<Rightarrow> string" where
  "display_invalid_batch BadBatchId = ''batch id must be a UUIDv7''"
| "display_invalid_batch BadRetriedFrom = ''the batch retried must be named by a UUIDv7''"
| "display_invalid_batch BadTargetCount =
     ''batch must contain between 1 and '' @ show_nat MAX_BATCH_TARGETS @ '' targets''"
| "display_invalid_batch DuplicateTargets = ''batch contains duplicate pull requests''"

text \<open>
  \<open>uuid_version\<close> stands for \<open>Uuid::parse_str\<close> followed by \<open>get_version_num\<close>: the version of
  the UUID a text spells, \<open>None\<close> for a text that spells none.
\<close>

definition valid_batch_id :: "(string \<Rightarrow> nat option) \<Rightarrow> string \<Rightarrow> bool" where
  "valid_batch_id uuid_version value = (case uuid_version value of None \<Rightarrow> False | Some v \<Rightarrow> v = 7)"

text \<open>\<open>any(|key| !seen.insert(key))\<close>: whether a key is met a second time.\<close>

fun met_twice :: "pr_key list \<Rightarrow> pr_key list \<Rightarrow> bool" where
  "met_twice seen [] = False"
| "met_twice seen (k # ks) = (if k \<in> set seen then True else met_twice (k # seen) ks)"

lemma met_twice_iff: "met_twice seen ks \<longleftrightarrow> \<not> distinct ks \<or> set seen \<inter> set ks \<noteq> {}"
  by (induction ks arbitrary: seen) auto

definition validate_batch ::
    "(string \<Rightarrow> nat option) \<Rightarrow> string \<Rightarrow> string option \<Rightarrow> pr_key list \<Rightarrow> invalid_batch + unit" where
  "validate_batch uuid_version batch_id retried_from keys =
     (if \<not> valid_batch_id uuid_version batch_id then Inl BadBatchId
      else if (case retried_from of None \<Rightarrow> False | Some r \<Rightarrow> \<not> valid_batch_id uuid_version r)
      then Inl BadRetriedFrom
      else if keys = [] \<or> MAX_BATCH_TARGETS < length keys then Inl BadTargetCount
      else if met_twice [] keys then Inl DuplicateTargets
      else Inr ())"

definition validate_request ::
    "(string \<Rightarrow> nat option) \<Rightarrow> bulk_request \<Rightarrow> string \<Rightarrow> invalid_batch + unit" where
  "validate_request uuid_version request batch_id =
     validate_batch uuid_version batch_id (bq_retried_from request)
       (map target_key (bq_targets request))"

lemma validate_batch_Inr_iff:
  "validate_batch uuid_version batch_id retried_from keys = Inr () \<longleftrightarrow>
     valid_batch_id uuid_version batch_id \<and>
     (\<forall>r. retried_from = Some r \<longrightarrow> valid_batch_id uuid_version r) \<and>
     0 < length keys \<and> length keys \<le> 100 \<and> distinct keys"
  by (auto simp: validate_batch_def met_twice_iff MAX_BATCH_TARGETS_def split: option.splits)

section \<open>Progress\<close>

datatype progress_state =
    Queued | Running
  | PSucceeded string "string option"
  | PRejected reject_reason
  | PFailed string

record target_progress =
  tp_target :: pr_target
  tp_state :: progress_state

record batch_progress =
  bp_batch_id :: string
  bp_action :: bulk_action_kind
  bp_targets :: "target_progress list"
  bp_completed :: bool
  bp_succeeded :: u64
  bp_rejected :: u64
  bp_failed :: u64

text \<open>The verdicts alone: a progress state without the two a target passes through.\<close>

datatype target_outcome =
    TSucceeded string "string option"
  | TRejected reject_reason
  | TFailed string

fun state_outcome :: "progress_state \<Rightarrow> target_outcome option" where
  "state_outcome Queued = None"
| "state_outcome Running = None"
| "state_outcome (PSucceeded d m) = Some (TSucceeded d m)"
| "state_outcome (PRejected r) = Some (TRejected r)"
| "state_outcome (PFailed d) = Some (TFailed d)"

fun state_merge_sha :: "progress_state \<Rightarrow> string option" where
  "state_merge_sha (PSucceeded d m) = m"
| "state_merge_sha _ = None"

fun state_of_outcome :: "target_outcome \<Rightarrow> progress_state" where
  "state_of_outcome (TSucceeded d m) = PSucceeded d m"
| "state_of_outcome (TRejected r) = PRejected r"
| "state_of_outcome (TFailed d) = PFailed d"

lemma state_outcome_of_outcome [simp]: "state_outcome (state_of_outcome v) = Some v"
  by (cases v) auto

lemma state_outcome_Some: "state_outcome s = Some v \<longleftrightarrow> s = state_of_outcome v"
  by (cases s; cases v) auto

definition queued :: "string \<Rightarrow> bulk_action_kind \<Rightarrow> pr_target list \<Rightarrow> batch_progress" where
  "queued batch_id action targets =
     \<lparr>bp_batch_id = batch_id, bp_action = action,
      bp_targets = map (\<lambda>t. \<lparr>tp_target = t, tp_state = Queued\<rparr>) targets,
      bp_completed = False, bp_succeeded = 0, bp_rejected = 0, bp_failed = 0\<rparr>"

text \<open>How many targets have settled; the three columns summed at their width.\<close>

definition settled :: "batch_progress \<Rightarrow> u64" where
  "settled p = bp_succeeded p + bp_rejected p + bp_failed p"

fun count_verdict :: "progress_state \<Rightarrow> batch_progress \<Rightarrow> batch_progress" where
  "count_verdict (PSucceeded _ _) p = p\<lparr>bp_succeeded := bp_succeeded p + 1\<rparr>"
| "count_verdict (PRejected _) p = p\<lparr>bp_rejected := bp_rejected p + 1\<rparr>"
| "count_verdict (PFailed _) p = p\<lparr>bp_failed := bp_failed p + 1\<rparr>"
| "count_verdict Queued p = p"
| "count_verdict Running p = p"

definition at_key :: "pr_key \<Rightarrow> target_progress \<Rightarrow> bool" where
  "at_key key t \<longleftrightarrow> target_key (tp_target t) = key"

definition set_state :: "batch_progress \<Rightarrow> pr_key \<Rightarrow> progress_state \<Rightarrow> batch_progress" where
  "set_state p key state =
     (case find (at_key key) (bp_targets p) of
        None \<Rightarrow> p
      | Some target \<Rightarrow>
          if state_outcome (tp_state target) \<noteq> None then p
          else
            let p1 = count_verdict state p;
                p2 = p1\<lparr>bp_targets :=
                       update_first (at_key key) (\<lambda>t. t\<lparr>tp_state := state\<rparr>) (bp_targets p1)\<rparr>
            in p2\<lparr>bp_completed := (settled p2 = of_nat (length (bp_targets p2)))\<rparr>)"

definition start_target :: "batch_progress \<Rightarrow> pr_key \<Rightarrow> batch_progress" where
  "start_target p key = set_state p key Running"

definition record_outcome :: "batch_progress \<Rightarrow> pr_key \<Rightarrow> action_outcome \<Rightarrow> batch_progress" where
  "record_outcome p key outcome =
     set_state p key
       (case outcome of Succeeded d m \<Rightarrow> PSucceeded d m | Rejected r \<Rightarrow> PRejected r)"

definition record_failure :: "batch_progress \<Rightarrow> pr_key \<Rightarrow> string \<Rightarrow> batch_progress" where
  "record_failure p key detail = set_state p key (PFailed detail)"

definition rejected_targets :: "batch_progress \<Rightarrow> (pr_target \<times> reject_reason) list" where
  "rejected_targets p =
     List.map_filter (\<lambda>t. case tp_state t of PRejected r \<Rightarrow> Some (tp_target t, r) | _ \<Rightarrow> None)
       (bp_targets p)"

section \<open>The record of a finished batch\<close>

record batch_target_record =
  bt_repository_id :: u64
  bt_owner :: string
  bt_repo :: string
  bt_number :: u64
  bt_title :: string
  bt_html_url :: string
  bt_head_sha :: "string option"
  bt_outcome :: target_outcome

record batch_record =
  bc_batch_id :: string
  bc_installation_id :: u64
  bc_action :: bulk_action_kind
  bc_requested_by :: string
  bc_retried_from :: "string option"
  bc_started_at :: u64
  bc_completed_at :: u64
  bc_succeeded :: u64
  bc_rejected :: u64
  bc_failed :: u64
  bc_targets :: "batch_target_record list"

record running_batch =
  rb_batch_id :: string
  rb_installation_id :: u64
  rb_action :: bulk_action_kind
  rb_requested_by :: string
  rb_retried_from :: "string option"
  rb_started_at :: u64
  rb_target_count :: u64

record batch_list =
  bl_running :: "running_batch list"
  bl_finished :: "batch_record list"

datatype projected_batch = BatchRunning running_batch | BatchFinished batch_record

text \<open>\<open>collect::<Option<Vec<_>>>\<close>: every element, or nothing.\<close>

fun collect_options :: "'a option list \<Rightarrow> 'a list option" where
  "collect_options [] = Some []"
| "collect_options (None # xs) = None"
| "collect_options (Some x # xs) = map_option (\<lambda>ys. x # ys) (collect_options xs)"

lemma collect_options_Some: "collect_options xs = Some ys \<longleftrightarrow> xs = map Some ys"
proof (induction xs arbitrary: ys)
  case Nil
  then show ?case by auto
next
  case (Cons x xs)
  then show ?case by (cases x; cases ys) auto
qed

lemma collect_options_None: "collect_options xs = None \<longleftrightarrow> None \<in> set xs"
proof (induction xs)
  case Nil
  then show ?case by simp
next
  case (Cons x xs)
  then show ?case by (cases x) auto
qed

definition target_record :: "target_progress \<Rightarrow> batch_target_record option" where
  "target_record item =
     (case state_outcome (tp_state item) of
        None \<Rightarrow> None
      | Some v \<Rightarrow> Some
          \<lparr>bt_repository_id = tg_repository_id (tp_target item),
           bt_owner = tg_owner (tp_target item), bt_repo = tg_repo (tp_target item),
           bt_number = tg_number (tp_target item), bt_title = tg_title (tp_target item),
           bt_html_url = tg_html_url (tp_target item),
           bt_head_sha = Some (tg_expected_sha (tp_target item)), bt_outcome = v\<rparr>)"

definition completed_record ::
    "batch_progress \<Rightarrow> u64 \<Rightarrow> string \<Rightarrow> string option \<Rightarrow> u64 \<Rightarrow> u64 \<Rightarrow> batch_record option" where
  "completed_record p installation_id requested_by retried_from started_at completed_at =
     map_option
       (\<lambda>targets. \<lparr>bc_batch_id = bp_batch_id p, bc_installation_id = installation_id,
          bc_action = bp_action p, bc_requested_by = requested_by,
          bc_retried_from = retried_from, bc_started_at = started_at,
          bc_completed_at = completed_at, bc_succeeded = bp_succeeded p,
          bc_rejected = bp_rejected p, bc_failed = bp_failed p, bc_targets = targets\<rparr>)
       (collect_options (map target_record (bp_targets p)))"

text \<open>The inverse: the progress a finished record was written from.\<close>

definition progress_of_target :: "batch_target_record \<Rightarrow> target_progress" where
  "progress_of_target t =
     \<lparr>tp_target =
        \<lparr>tg_repository_id = bt_repository_id t, tg_owner = bt_owner t, tg_repo = bt_repo t,
         tg_number = bt_number t,
         tg_expected_sha = (case bt_head_sha t of None \<Rightarrow> [] | Some s \<Rightarrow> s),
         tg_title = bt_title t, tg_html_url = bt_html_url t\<rparr>,
      tp_state = state_of_outcome (bt_outcome t)\<rparr>"

definition progress_of_record :: "batch_record \<Rightarrow> batch_progress" where
  "progress_of_record r =
     \<lparr>bp_batch_id = bc_batch_id r, bp_action = bc_action r,
      bp_targets = map progress_of_target (bc_targets r), bp_completed = True,
      bp_succeeded = bc_succeeded r, bp_rejected = bc_rejected r, bp_failed = bc_failed r\<rparr>"

section \<open>The tally invariant\<close>

definition verdict :: "target_progress \<Rightarrow> bool" where
  "verdict t \<longleftrightarrow> state_outcome (tp_state t) \<noteq> None"

fun is_succeeded :: "progress_state \<Rightarrow> bool" where
  "is_succeeded (PSucceeded _ _) = True" | "is_succeeded _ = False"

fun is_rejected :: "progress_state \<Rightarrow> bool" where
  "is_rejected (PRejected _) = True" | "is_rejected _ = False"

fun is_failed :: "progress_state \<Rightarrow> bool" where
  "is_failed (PFailed _) = True" | "is_failed _ = False"

definition count_state :: "(progress_state \<Rightarrow> bool) \<Rightarrow> target_progress list \<Rightarrow> nat" where
  "count_state P ts = length (filter (\<lambda>t. P (tp_state t)) ts)"

text \<open>
  Each column counts the targets in its state, the batch has at least one target and fewer
  than a machine word can count, and it is complete exactly when every target has a verdict.
\<close>

definition tally_ok :: "batch_progress \<Rightarrow> bool" where
  "tally_ok p \<longleftrightarrow>
     bp_targets p \<noteq> [] \<and> length (bp_targets p) < 2 ^ 64 \<and>
     bp_succeeded p = of_nat (count_state is_succeeded (bp_targets p)) \<and>
     bp_rejected p = of_nat (count_state is_rejected (bp_targets p)) \<and>
     bp_failed p = of_nat (count_state is_failed (bp_targets p)) \<and>
     (bp_completed p \<longleftrightarrow> (\<forall>t\<in>set (bp_targets p). verdict t))"

lemma count_state_append: "count_state P (xs @ ys) = count_state P xs + count_state P ys"
  by (simp add: count_state_def)

lemma count_state_simps [simp]:
  "count_state P [] = 0"
  "count_state P (x # xs) = (if P (tp_state x) then 1 else 0) + count_state P xs"
  by (simp_all add: count_state_def)

lemma verdict_iff: "verdict t \<longleftrightarrow> is_succeeded (tp_state t) \<or> is_rejected (tp_state t) \<or> is_failed (tp_state t)"
  by (cases "tp_state t") (auto simp: verdict_def)

lemma verdict_sum:
  "count_state is_succeeded ts + count_state is_rejected ts + count_state is_failed ts =
   length (filter verdict ts)"
proof (induction ts)
  case Nil
  then show ?case by simp
next
  case (Cons t ts)
  then show ?case by (cases "tp_state t") (auto simp: verdict_iff)
qed

lemma filter_length_all: "length (filter P xs) = length xs \<longleftrightarrow> (\<forall>x\<in>set xs. P x)"
  using filter_True [of xs P] sum_length_filter_compl [of P xs]
  by (metis filter_id_conv length_filter_less linorder_neq_iff)

lemma of_nat_u64_eq: "a < 2 ^ 64 \<Longrightarrow> b < 2 ^ 64 \<Longrightarrow> (of_nat a :: u64) = of_nat b \<longleftrightarrow> a = b"
  by (simp add: word_of_nat_eq_iff take_bit_nat_eq_self)

lemma count_verdict_simps [simp]:
  "bp_succeeded (count_verdict s p) = bp_succeeded p + of_bool (is_succeeded s)"
  "bp_rejected (count_verdict s p) = bp_rejected p + of_bool (is_rejected s)"
  "bp_failed (count_verdict s p) = bp_failed p + of_bool (is_failed s)"
  "bp_targets (count_verdict s p) = bp_targets p"
  "bp_batch_id (count_verdict s p) = bp_batch_id p"
  "bp_action (count_verdict s p) = bp_action p"
  by (cases s; simp)+

text \<open>What \<open>set_state\<close> did, as one of two shapes: nothing, or one unsettled target moved.\<close>

lemma set_state_shape:
  obtains (same) "set_state p key s = p"
      "\<nexists>t. find (at_key key) (bp_targets p) = Some t \<and> \<not> verdict t"
    | (moved) us t vs where "bp_targets p = us @ t # vs" "at_key key t"
        "\<forall>u\<in>set us. \<not> at_key key u" "\<not> verdict t"
        "set_state p key s = (count_verdict s p)\<lparr>bp_targets := us @ t\<lparr>tp_state := s\<rparr> # vs,
           bp_completed := (settled (count_verdict s p) = of_nat (length (us @ t # vs)))\<rparr>"
proof (cases "find (at_key key) (bp_targets p)")
  case None
  with same show ?thesis by (simp add: set_state_def)
next
  case (Some t)
  show ?thesis
  proof (cases "verdict t")
    case True
    with Some same show ?thesis by (simp add: set_state_def verdict_def)
  next
    case False
    from find_Some_split [OF Some] obtain us vs
      where split: "bp_targets p = us @ t # vs" "at_key key t" "\<forall>u\<in>set us. \<not> at_key key u"
      by blast
    then have "update_first (at_key key) (\<lambda>t. t\<lparr>tp_state := s\<rparr>) (bp_targets (count_verdict s p))
        = us @ t\<lparr>tp_state := s\<rparr> # vs"
      by (simp add: update_first_split)
    with False Some split show ?thesis
      by (intro moved [of us t vs]) (auto simp: set_state_def Let_def verdict_def settled_def)
  qed
qed

lemma set_state_targets_keys [simp]:
  "map (\<lambda>t. target_key (tp_target t)) (bp_targets (set_state p key s)) =
   map (\<lambda>t. target_key (tp_target t)) (bp_targets p)"
  "map tp_target (bp_targets (set_state p key s)) = map tp_target (bp_targets p)"
  "length (bp_targets (set_state p key s)) = length (bp_targets p)"
  "bp_batch_id (set_state p key s) = bp_batch_id p"
  "bp_action (set_state p key s) = bp_action p"
  by (cases rule: set_state_shape [of p key s]; simp)+

lemma tally_settled:
  assumes "tally_ok p"
  shows "settled p = of_nat (length (filter verdict (bp_targets p)))"
  using assms by (simp add: tally_ok_def settled_def flip: verdict_sum)

lemma tally_queued: "targets \<noteq> [] \<Longrightarrow> length targets < 2 ^ 64 \<Longrightarrow> tally_ok (queued b a targets)"
  by (auto simp: tally_ok_def queued_def count_state_def verdict_def)

lemma tally_set_state:
  assumes "tally_ok p"
  shows "tally_ok (set_state p key s)"
proof (cases rule: set_state_shape [of p key s])
  case same
  with assms show ?thesis by simp
next
  case (moved us t vs)
  let ?ts = "us @ t\<lparr>tp_state := s\<rparr> # vs"
  let ?q = "set_state p key s"
  have targets: "bp_targets ?q = ?ts" and len: "length ?ts < 2 ^ 64"
    using moved assms by (auto simp: tally_ok_def)
  have free: "\<not> is_succeeded (tp_state t)" "\<not> is_rejected (tp_state t)" "\<not> is_failed (tp_state t)"
    using moved(4) by (auto simp: verdict_iff)
  have column: "(of_nat (count_state P (us @ t # vs)) :: u64) + of_bool (P s) = of_nat (count_state P ?ts)"
    if "\<not> P (tp_state t)" for P
    using that by (simp add: count_state_append)
  have cols: "bp_succeeded ?q = of_nat (count_state is_succeeded ?ts)"
      "bp_rejected ?q = of_nat (count_state is_rejected ?ts)"
      "bp_failed ?q = of_nat (count_state is_failed ?ts)"
    using assms free unfolding moved(5) tally_ok_def moved(1) by (simp_all add: column)
  have "settled ?q = of_nat (length (filter verdict ?ts))"
    unfolding verdict_sum [symmetric] by (simp only: settled_def cols of_nat_add)
  moreover have "settled (count_verdict s p) = settled ?q"
    using moved(5) by (simp add: settled_def)
  moreover have "length (filter verdict ?ts) < 2 ^ 64"
    using len by (meson le_less_trans length_filter_le)
  moreover have "bp_completed ?q \<longleftrightarrow> settled (count_verdict s p) = of_nat (length ?ts)"
    unfolding moved(5) by simp
  ultimately have "bp_completed ?q \<longleftrightarrow> length (filter verdict ?ts) = length ?ts"
    using of_nat_u64_eq [OF _ len] by presburger
  then have "bp_completed ?q \<longleftrightarrow> (\<forall>x\<in>set ?ts. verdict x)"
    by (simp only: filter_length_all)
  then show ?thesis
    unfolding tally_ok_def targets using cols len by simp
qed

text \<open>A verdict once given is never changed: targets with one keep their place and state.\<close>

lemma set_state_keeps_verdicts:
  assumes "i < length (bp_targets p)" and "verdict (bp_targets p ! i)"
  shows "bp_targets (set_state p key s) ! i = bp_targets p ! i"
proof (cases rule: set_state_shape [of p key s])
  case same
  then show ?thesis by simp
next
  case (moved us t vs)
  then have "i \<noteq> length us" using assms by auto
  then show ?thesis using moved by (auto simp: nth_append nth_Cons split: nat.splits)
qed

lemma completed_record_iff:
  "tally_ok p \<Longrightarrow> (completed_record p i u f s c \<noteq> None) \<longleftrightarrow> bp_completed p"
  by (auto simp: completed_record_def collect_options_None tally_ok_def verdict_def target_record_def
      image_iff split: option.splits)

lemma progress_of_target_record: "target_record t = Some r \<Longrightarrow> progress_of_target r = t"
  by (auto simp: target_record_def progress_of_target_def state_outcome_Some split: option.splits)

lemma progress_of_completed_record:
  assumes "completed_record p i u f s c = Some r" and "bp_completed p"
  shows "progress_of_record r = p"
proof -
  obtain ts where ts: "collect_options (map target_record (bp_targets p)) = Some ts"
    and r: "progress_of_record r = p\<lparr>bp_targets := map progress_of_target ts, bp_completed := True\<rparr>"
    using assms(1) by (auto simp: completed_record_def progress_of_record_def)
  have "map target_record (bp_targets p) = map Some ts"
    using ts by (simp add: collect_options_Some)
  then have "list_all2 (\<lambda>t r. target_record t = Some r) (bp_targets p) ts"
    by (auto simp: list_all2_conv_all_nth list_eq_iff_nth_eq)
  then have "map progress_of_target ts = bp_targets p"
    by (induction rule: list_all2_induct) (auto simp: progress_of_target_record)
  with r assms(2) show ?thesis by simp
qed

section \<open>Properties of the progress of a batch\<close>

text \<open>Verdicts arrive in any order, repeatedly and for targets that are not of the batch.\<close>

datatype batch_event =
    TargetStarted pr_key | OutcomeRecorded pr_key action_outcome | FailureRecorded pr_key string

fun apply_event :: "batch_event \<Rightarrow> batch_progress \<Rightarrow> batch_progress" where
  "apply_event (TargetStarted key) p = start_target p key"
| "apply_event (OutcomeRecorded key outcome) p = record_outcome p key outcome"
| "apply_event (FailureRecorded key detail) p = record_failure p key detail"

lemma apply_event_state: "\<exists>key s. apply_event e p = set_state p key s"
  by (cases e) (auto simp: start_target_def record_outcome_def record_failure_def)

lemma tally_events: "tally_ok p \<Longrightarrow> tally_ok (fold apply_event es p)"
  by (induction es arbitrary: p) (simp, metis apply_event_state fold_simps(2) tally_set_state)

lemma events_keep_targets [simp]:
  "map tp_target (bp_targets (fold apply_event es p)) = map tp_target (bp_targets p)"
proof (induction es arbitrary: p)
  case (Cons e es)
  then show ?case using apply_event_state [of e p] by auto
qed simp

lemma events_keep_length [simp]:
  "length (bp_targets (fold apply_event es p)) = length (bp_targets p)"
  by (metis events_keep_targets length_map)

lemma events_keep_verdicts:
  assumes "i < length (bp_targets p)" and "verdict (bp_targets p ! i)"
  shows "bp_targets (fold apply_event es p) ! i = bp_targets p ! i"
  using assms
proof (induction es arbitrary: p)
  case (Cons e es)
  obtain key s where e: "apply_event e p = set_state p key s" using apply_event_state by blast
  then show ?case
    using Cons.IH [of "apply_event e p"] Cons.prems set_state_keeps_verdicts [OF Cons.prems, of key s]
    by simp
qed simp

text \<open>A batch of two pull requests, the first merged and reported a second time as failed.\<close>

definition two_targets :: "pr_target list" where
  "two_targets =
     [\<lparr>tg_repository_id = 1, tg_owner = ''acme'', tg_repo = ''api'', tg_number = 7,
        tg_expected_sha = ''abc'', tg_title = ''Bump serde'', tg_html_url = ''https://x''\<rparr>,
      \<lparr>tg_repository_id = 2, tg_owner = ''acme'', tg_repo = ''web'', tg_number = 9,
        tg_expected_sha = ''def'', tg_title = ''Bump react'', tg_html_url = ''https://y''\<rparr>]"

definition two_events :: "batch_event list" where
  "two_events = [TargetStarted (PrKey 1 7), OutcomeRecorded (PrKey 1 7) (Succeeded ''merged'' None),
     FailureRecorded (PrKey 1 7) ''late'', FailureRecorded (PrKey 2 9) ''gone'']"

text \<open>
  A bulk request passes validation exactly when its id and the id of the batch it retries
  are UUIDv7s, it names between 1 and 100 targets and no pull request twice; a request whose
  only fault is a pull request named twice is refused as that.
\<close>

theorem validate_request_accepts:
  "(validate_request uuid_version request batch_id = Inr () \<longleftrightarrow>
     uuid_version batch_id = Some 7 \<and>
     bq_retried_from request \<in> insert None (Some ` {r. uuid_version r = Some 7}) \<and>
     length (bq_targets request) \<in> {1..100} \<and> distinct (map target_key (bq_targets request))) \<and>
   (validate_request uuid_version request batch_id = Inl DuplicateTargets \<longleftrightarrow>
     uuid_version batch_id = Some 7 \<and>
     bq_retried_from request \<in> insert None (Some ` {r. uuid_version r = Some 7}) \<and>
     length (bq_targets request) \<in> {1..100} \<and> \<not> distinct (map target_key (bq_targets request)))"
  by (cases "bq_retried_from request")
    (auto simp: validate_request_def validate_batch_def valid_batch_id_def met_twice_iff
      MAX_BATCH_TARGETS_def Suc_le_eq split: option.splits)

text \<open>
  From the queued batch on, whatever events arrive and in whatever order, the batch keeps
  the targets it was given, each of the three columns is the number of targets in that state,
  and the batch is complete exactly when every target has a verdict.
\<close>

theorem progress_counts_targets:
  fixes batch_id :: string and action :: bulk_action_kind and es :: "batch_event list"
  assumes "targets \<noteq> []" and "length targets < 2 ^ 64"
  defines "p \<equiv> \<lambda>es. fold apply_event es (queued batch_id action targets)"
  shows "map tp_target (bp_targets (p es)) = targets \<and>
    bp_succeeded (p es) = of_nat (length (filter (is_succeeded \<circ> tp_state) (bp_targets (p es)))) \<and>
    bp_rejected (p es) = of_nat (length (filter (is_rejected \<circ> tp_state) (bp_targets (p es)))) \<and>
    bp_failed (p es) = of_nat (length (filter (is_failed \<circ> tp_state) (bp_targets (p es)))) \<and>
    (bp_completed (p es) \<longleftrightarrow> (\<forall>t\<in>set (bp_targets (p es)). verdict t))"
  using tally_events [OF tally_queued [OF assms(1,2)], of es batch_id action]
  by (simp add: p_def tally_ok_def count_state_def comp_def) (simp add: queued_def comp_def)

text \<open>
  A verdict is final: once a target has one, no later event changes it, nor the column it
  was counted in.
\<close>

theorem verdict_is_final:
  fixes batch_id :: string and action :: bulk_action_kind and es later :: "batch_event list"
  assumes "i < length targets"
  defines "p \<equiv> \<lambda>es. fold apply_event es (queued batch_id action targets)"
  assumes "verdict (bp_targets (p es) ! i)"
  shows "bp_targets (p (es @ later)) ! i = bp_targets (p es) ! i"
proof -
  have "i < length (bp_targets (p es))" using assms(1) by (simp add: p_def queued_def)
  from events_keep_verdicts [OF this assms(3), of later] show ?thesis by (simp add: p_def)
qed

text \<open>
  The record of a finished batch exists exactly when the batch is complete, and nothing of
  the progress is lost in it: the progress can be read back from the record.
\<close>

theorem completed_record_faithful:
  fixes batch_id :: string and action :: bulk_action_kind and es :: "batch_event list"
  assumes "targets \<noteq> []" and "length targets < 2 ^ 64"
  defines "p \<equiv> fold apply_event es (queued batch_id action targets)"
  shows "(case completed_record p inst user from started ended of
            None \<Rightarrow> \<not> bp_completed p
          | Some r \<Rightarrow> bp_completed p \<and> progress_of_record r = p \<and>
              bc_succeeded r + bc_rejected r + bc_failed r = of_nat (length targets))"
proof -
  have ok: "tally_ok p" unfolding p_def by (rule tally_events [OF tally_queued [OF assms(1,2)]])
  have len: "length (bp_targets p) = length targets" by (simp add: p_def queued_def)
  have complete: "bp_completed p \<longleftrightarrow> completed_record p inst user from started ended \<noteq> None"
    using completed_record_iff [OF ok] by blast
  show ?thesis
  proof (cases "completed_record p inst user from started ended")
    case None
    then show ?thesis using complete by simp
  next
    case (Some r)
    then have c: "bp_completed p" using complete by simp
    from progress_of_completed_record [OF Some c] have same: "progress_of_record r = p" .
    have "length (filter verdict (bp_targets p)) = length targets"
      using ok c len by (simp add: tally_ok_def filter_length_all)
    moreover have "settled (progress_of_record r) = bc_succeeded r + bc_rejected r + bc_failed r"
      by (simp add: settled_def progress_of_record_def)
    ultimately show ?thesis using Some c same tally_settled [OF ok] by simp
  qed
qed

theorem progress_counts_targets_witness:
  "(let p = fold apply_event two_events (queued ''b'' BkMerge two_targets)
    in bp_completed p \<and> bp_succeeded p = 1 \<and> bp_failed p = 1 \<and> bp_rejected p = 0)"
  using progress_counts_targets [of two_targets two_events "''b''" BkMerge]
  by (simp add: two_targets_def two_events_def queued_def start_target_def record_outcome_def
      record_failure_def set_state_def at_key_def target_key_def verdict_def settled_def Let_def)

theorem verdict_is_final_witness:
  "tp_state (bp_targets (fold apply_event two_events (queued ''b'' BkMerge two_targets)) ! 0) =
     PSucceeded ''merged'' None"
  using verdict_is_final [of 0 two_targets "take 2 two_events" "''b''" BkMerge "drop 2 two_events"]
  by (simp add: two_targets_def two_events_def queued_def start_target_def record_outcome_def
      record_failure_def set_state_def at_key_def target_key_def verdict_def settled_def Let_def)

theorem completed_record_faithful_witness:
  "(case completed_record (fold apply_event two_events (queued ''b'' BkMerge two_targets))
      1 ''u'' None 10 20 of
      None \<Rightarrow> False | Some r \<Rightarrow> bc_succeeded r + bc_rejected r + bc_failed r = 2)"
  using completed_record_faithful [of two_targets two_events "''b''" BkMerge 1 "''u''" None 10 20]
  by (simp add: two_targets_def two_events_def queued_def start_target_def record_outcome_def
      record_failure_def set_state_def at_key_def target_key_def verdict_def settled_def Let_def
      split: option.splits)

end
