(* ===== verification/Merge_Rounds.thy ===== *)
theory Merge_Rounds
  imports Core_Batch "HOL-Library.Multiset"
begin

text \<open>
  \<open>plan_merge_rounds\<close> of \<^verbatim>\<open>apps/restate-service/src/bulk_action.rs\<close>: the queues of pull requests
  per repository, the inner walk that fills a round, and the outer loop over the rounds.
\<close>

type_synonym repo_queue = "u64 \<times> pr_target list"

text \<open>One step of the loop that sorts the targets into their repositories' queues.\<close>

definition enqueue :: "repo_queue list \<Rightarrow> pr_target \<Rightarrow> repo_queue list" where
  "enqueue queues target =
     (case find (\<lambda>(r, _). r = tg_repository_id target) queues of
        Some _ \<Rightarrow>
          update_first (\<lambda>(r, _). r = tg_repository_id target) (\<lambda>(r, q). (r, q @ [target])) queues
      | None \<Rightarrow> queues @ [(tg_repository_id target, [target])])"

definition queues_of :: "pr_target list \<Rightarrow> repo_queue list" where
  "queues_of targets = foldl enqueue [] targets"

text \<open>
  The inner \<open>while\<close>: visit the queues in turn from \<open>start\<close>, popping the front of each, until
  every queue has been visited or the round is full. Returns the queues, the round, and how
  many queues were visited.
\<close>

function fill_round ::
    "nat \<Rightarrow> nat \<Rightarrow> repo_queue list \<Rightarrow> pr_target list \<Rightarrow> nat \<Rightarrow> repo_queue list \<times> pr_target list \<times> nat" where
  "fill_round max_concurrent start queues round visited =
     (if visited < length queues \<and> length round < max_concurrent then
        let index = (start + visited) mod length queues
        in case snd (queues ! index) of
             [] \<Rightarrow> fill_round max_concurrent start queues round (visited + 1)
           | target # rest \<Rightarrow>
               fill_round max_concurrent start
                 (queues[index := (fst (queues ! index), rest)]) (round @ [target]) (visited + 1)
      else (queues, round, visited))"
  by pat_completeness auto
termination
  by (relation "measure (\<lambda>(m, s, queues, r, visited). length queues - visited)") auto

declare fill_round.simps [simp del]

lemma fill_round_stop:
  "\<not> (v < length qs \<and> length r < m) \<Longrightarrow> fill_round m s qs r v = (qs, r, v)"
  by (subst fill_round.simps) auto

lemma fill_round_skip:
  "v < length qs \<Longrightarrow> length r < m \<Longrightarrow> snd (qs ! ((s + v) mod length qs)) = [] \<Longrightarrow>
     fill_round m s qs r v = fill_round m s qs r (v + 1)"
  by (subst fill_round.simps) (simp add: Let_def)

lemma fill_round_take:
  "v < length qs \<Longrightarrow> length r < m \<Longrightarrow> snd (qs ! ((s + v) mod length qs)) = t # rest \<Longrightarrow>
     fill_round m s qs r v =
     fill_round m s (qs[(s + v) mod length qs := (fst (qs ! ((s + v) mod length qs)), rest)])
       (r @ [t]) (v + 1)"
  by (subst fill_round.simps) (simp add: Let_def)

lemmas fill_round_eqs = fill_round_stop fill_round_skip fill_round_take

definition waiting :: "repo_queue list \<Rightarrow> nat" where
  "waiting queues = sum_list (map (\<lambda>q. length (snd q)) queues)"

lemma waiting_pop:
  "i < length qs \<Longrightarrow> snd (qs ! i) = t # rest \<Longrightarrow>
     Suc (waiting (qs[i := (fst (qs ! i), rest)])) = waiting qs"
proof (induction qs arbitrary: i)
  case Nil
  then show ?case by simp
next
  case (Cons q qs)
  show ?case
  proof (cases i)
    case 0
    with Cons.prems show ?thesis by (simp add: waiting_def)
  next
    case (Suc j)
    with Cons.prems Cons.IH [of j] show ?thesis by (simp add: waiting_def)
  qed
qed

text \<open>Case analysis on one visit of the inner loop, and the induction over the visits.\<close>

lemma fill_round_induct [case_names stop skip take]:
  assumes "\<And>qs r v. \<not> (v < length qs \<and> length r < m) \<Longrightarrow> P qs r v"
    and "\<And>qs r v. v < length qs \<Longrightarrow> length r < m \<Longrightarrow>
      snd (qs ! ((s + v) mod length qs)) = [] \<Longrightarrow> P qs r (v + 1) \<Longrightarrow> P qs r v"
    and "\<And>qs r v t rest. v < length qs \<Longrightarrow> length r < m \<Longrightarrow>
      snd (qs ! ((s + v) mod length qs)) = t # rest \<Longrightarrow>
      P (qs[(s + v) mod length qs := (fst (qs ! ((s + v) mod length qs)), rest)]) (r @ [t]) (v + 1) \<Longrightarrow>
      P qs r v"
  shows "P qs r v"
proof (induction "length qs - v" arbitrary: qs r v rule: less_induct)
  case less
  show ?case
  proof (cases "v < length qs \<and> length r < m")
    case False
    then show ?thesis by (rule assms(1))
  next
    case True
    then have v: "v < length qs" and r: "length r < m" by simp_all
    show ?thesis
    proof (cases "snd (qs ! ((s + v) mod length qs))")
      case Nil
      show ?thesis by (rule assms(2) [OF v r Nil], rule less) (use v in simp)
    next
      case (Cons t rest)
      show ?thesis by (rule assms(3) [OF v r Cons], rule less) (use v in simp)
    qed
  qed
qed

lemma index_bound: "(v :: nat) < n \<Longrightarrow> k mod n < n"
  by simp

lemma fill_round_waiting:
  "fill_round m s qs r v = (qs', r', v') \<Longrightarrow> waiting qs' + length r' = waiting qs + length r"
proof (induction qs r v rule: fill_round_induct [where m = m and s = s])
  case (stop qs r v)
  then show ?case by (simp add: fill_round_stop)
next
  case (skip qs r v)
  then show ?case by (simp add: fill_round_skip)
next
  case (take qs r v t rest)
  then show ?case
    using waiting_pop [OF index_bound [OF take(1)] take(3)] by (simp add: fill_round_take)
qed

text \<open>The outer \<open>loop\<close>: rounds until one comes back empty.\<close>

function plan_loop ::
    "nat \<Rightarrow> nat \<Rightarrow> repo_queue list \<Rightarrow> pr_target list list \<Rightarrow> pr_target list list" where
  "plan_loop max_concurrent start queues rounds =
     (case fill_round max_concurrent start queues [] 0 of
        (queues', round, visited) \<Rightarrow>
          if round = [] then rounds
          else plan_loop max_concurrent ((start + visited) mod length queues) queues'
                 (rounds @ [round]))"
  by pat_completeness auto
termination
proof (relation "measure (\<lambda>(m, s, queues, r). waiting queues)", goal_cases)
  case 1
  show ?case by simp
next
  case prems: (2 m s qs rounds x y round v)
  then show ?case
    using fill_round_waiting [of m s qs "[]" 0 x round v] by (cases round) auto
qed

declare plan_loop.simps [simp del]

definition plan_merge_rounds :: "pr_target list \<Rightarrow> nat \<Rightarrow> pr_target list list" where
  "plan_merge_rounds targets max_concurrent = plan_loop max_concurrent 0 (queues_of targets) []"

section \<open>What a plan keeps\<close>

text \<open>A repository's pull requests still waiting; a queue holds one repository's, once.\<close>

definition pending :: "repo_queue list \<Rightarrow> u64 \<Rightarrow> pr_target list" where
  "pending qs r = concat (map snd (filter (\<lambda>q. fst q = r) qs))"

definition queues_ok :: "repo_queue list \<Rightarrow> bool" where
  "queues_ok qs \<longleftrightarrow>
     distinct (map fst qs) \<and> (\<forall>q\<in>set qs. \<forall>t\<in>set (snd q). tg_repository_id t = fst q)"

abbreviation of_repo :: "u64 \<Rightarrow> pr_target list \<Rightarrow> pr_target list" where
  "of_repo r \<equiv> filter (\<lambda>t. tg_repository_id t = r)"

lemma pending_simps [simp]:
  "pending [] r = []"
  "pending (q # qs) r = (if fst q = r then snd q else []) @ pending qs r"
  "pending (xs @ ys) r = pending xs r @ pending ys r"
  by (simp_all add: pending_def)

lemma pending_absent: "r \<notin> fst ` set qs \<Longrightarrow> pending qs r = []"
  by (induction qs) auto

lemma pending_split:
  assumes "distinct (map fst (us @ q # vs))"
  shows "pending (us @ q # vs) (fst q) = snd q"
  using assms by (auto simp: pending_absent)

lemma pending_nth:
  assumes "distinct (map fst qs)" and "i < length qs"
  shows "pending qs (fst (qs ! i)) = snd (qs ! i)"
  using assms id_take_nth_drop [OF assms(2)] pending_split by metis

lemma pending_update:
  assumes "distinct (map fst qs)" and "i < length qs"
  shows "pending (qs[i := (fst (qs ! i), q)]) r = (if r = fst (qs ! i) then q else pending qs r)"
proof -
  let ?us = "take i qs" and ?vs = "drop (Suc i) qs"
  have qs: "qs = ?us @ qs ! i # ?vs" using assms(2) by (rule id_take_nth_drop)
  have upd: "qs[i := (fst (qs ! i), q)] = ?us @ (fst (qs ! i), q) # ?vs"
    using assms(2) by (simp add: upd_conv_take_nth_drop)
  have "fst (qs ! i) \<notin> fst ` set ?us" "fst (qs ! i) \<notin> fst ` set ?vs"
    using assms(1) qs by (metis (no_types, lifting) distinct_append distinct.simps(2) list.set_map list.simps(9)
        map_append not_distinct_conv_prefix)+
  then show ?thesis
    unfolding upd by (subst (4) qs) (auto simp: pending_absent)
qed

lemma queues_ok_pop:
  assumes "queues_ok qs" and "i < length qs" and "snd (qs ! i) = t # rest"
  shows "queues_ok (qs[i := (fst (qs ! i), rest)])"
    and "tg_repository_id t = fst (qs ! i)"
proof -
  have "map fst (qs[i := (fst (qs ! i), rest)]) = map fst qs"
    by (metis fst_conv list_update_id map_update)
  moreover have "\<forall>t'\<in>set (t # rest). tg_repository_id t' = fst (qs ! i)"
    using assms by (metis nth_mem queues_ok_def)
  ultimately show "queues_ok (qs[i := (fst (qs ! i), rest)])" "tg_repository_id t = fst (qs ! i)"
    using assms(1) set_update_subset_insert [of qs i] by (fastforce simp: queues_ok_def)+
qed

lemma enqueue_ok:
  assumes "queues_ok qs"
  shows "queues_ok (enqueue qs t) \<and> pending (enqueue qs t) r = pending qs r @ of_repo r [t]"
proof (cases "find (\<lambda>(r, _). r = tg_repository_id t) qs")
  case None
  then have "tg_repository_id t \<notin> fst ` set qs" by (auto simp: find_None_iff)
  with assms None show ?thesis by (auto simp: enqueue_def queues_ok_def pending_absent)
next
  case (Some q)
  obtain us vs where qs: "qs = us @ q # vs" and q: "fst q = tg_repository_id t"
    and us: "\<forall>u\<in>set us. fst u \<noteq> tg_repository_id t"
    using find_Some_split [OF Some] by (auto simp: case_prod_beta)
  have new: "enqueue qs t = us @ (fst q, snd q @ [t]) # vs"
    using Some q us unfolding enqueue_def qs
    by (simp add: update_first_split case_prod_beta)
  show ?thesis
    using assms q unfolding new unfolding qs
    by (auto simp: queues_ok_def pending_absent)
qed

lemma queues_of_ok: "queues_ok (queues_of ts) \<and> pending (queues_of ts) r = of_repo r ts"
proof (induction ts rule: rev_induct)
  case Nil
  show ?case by (simp add: queues_of_def queues_ok_def)
next
  case (snoc t ts)
  then show ?case using enqueue_ok [of "queues_of ts" t r] by (simp add: queues_of_def)
qed

section \<open>One round\<close>

lemma fill_round_ok:
  assumes "fill_round m s qs r v = (qs', r', v')" and "queues_ok qs"
  shows "queues_ok qs' \<and> map fst qs' = map fst qs \<and>
         (\<forall>k. of_repo k r' @ pending qs' k = of_repo k r @ pending qs k)"
  using assms
proof (induction qs r v rule: fill_round_induct [where m = m and s = s])
  case (stop qs r v)
  then show ?case by (simp add: fill_round_stop)
next
  case (skip qs r v)
  then show ?case by (simp add: fill_round_skip)
next
  case (take qs r v t rest)
  let ?i = "(s + v) mod length qs"
  have i: "?i < length qs" using take(1) by (rule index_bound)
  note pop = queues_ok_pop [OF take(6) i take(3)]
  have names: "map fst (qs[?i := (fst (qs ! ?i), rest)]) = map fst qs"
    by (metis fst_conv list_update_id map_update)
  have d: "distinct (map fst qs)" using take(6) by (simp add: queues_ok_def)
  have "of_repo k (r @ [t]) @ pending (qs[?i := (fst (qs ! ?i), rest)]) k = of_repo k r @ pending qs k" for k
    using pending_nth [OF d i] take(3) pop(2) by (simp add: pending_update [OF d i])
  with take(4) [OF _ pop(1)] take(5) names show ?case
    by (simp add: fill_round_take [OF take(1,2,3)])
qed

text \<open>The queues a round has visited, by the repositories they belong to.\<close>

definition visited_repos :: "nat \<Rightarrow> u64 list \<Rightarrow> nat \<Rightarrow> u64 set" where
  "visited_repos s names v = (\<lambda>j. names ! ((s + j) mod length names)) ` {..<v}"

lemma visited_new:
  assumes "distinct names" and "v < length names"
  shows "names ! ((s + v) mod length names) \<notin> visited_repos s names v"
proof
  assume "names ! ((s + v) mod length names) \<in> visited_repos s names v"
  then obtain j where j: "j < v"
    and eq: "names ! ((s + v) mod length names) = names ! ((s + j) mod length names)"
    by (auto simp: visited_repos_def)
  have "(s + v) mod length names = (s + j) mod length names"
    using assms eq by (metis distinct_conv_nth mod_less_divisor not_less_zero zero_less_iff_neq_zero)
  then have "length names dvd (v - j)"
    using j by (metis add_diff_cancel_left less_imp_le mod_eq_dvd_iff_nat nat_add_left_cancel_le)
  with j assms(2) show False
    by (meson dvd_imp_le less_imp_diff_less not_le zero_less_diff)
qed

lemma fill_round_distinct:
  assumes "fill_round m s qs r v = (qs', r', v')" and "queues_ok qs"
    and "distinct (map tg_repository_id r)" and "length r \<le> m"
    and "tg_repository_id ` set r \<subseteq> visited_repos s (map fst qs) v"
  shows "distinct (map tg_repository_id r') \<and> length r' \<le> m"
  using assms
proof (induction qs r v rule: fill_round_induct [where m = m and s = s])
  case (stop qs r v)
  then show ?case by (simp add: fill_round_stop)
next
  case (skip qs r v)
  have "visited_repos s (map fst qs) v \<subseteq> visited_repos s (map fst qs) (v + 1)"
    by (auto simp: visited_repos_def)
  with skip show ?case by (simp add: fill_round_skip subset_trans)
next
  case (take qs r v t rest)
  let ?i = "(s + v) mod length qs"
  have i: "?i < length qs" using take(1) by (rule index_bound)
  note pop = queues_ok_pop [OF take(6) i take(3)]
  have names: "map fst (qs[?i := (fst (qs ! ?i), rest)]) = map fst qs"
    by (metis fst_conv list_update_id map_update)
  have new: "tg_repository_id t \<notin> visited_repos s (map fst qs) v"
    using visited_new [of "map fst qs" v s] take(1,6) pop(2) i by (simp add: queues_ok_def)
  have "tg_repository_id t \<in> visited_repos s (map fst qs) (v + 1)"
    unfolding visited_repos_def using pop(2) i by (intro image_eqI [where x = v]) auto
  moreover have "visited_repos s (map fst qs) v \<subseteq> visited_repos s (map fst qs) (v + 1)"
    by (auto simp: visited_repos_def)
  ultimately have sub: "tg_repository_id ` set (r @ [t]) \<subseteq> visited_repos s (map fst qs) (v + 1)"
    using take(9) by auto
  have "distinct (map tg_repository_id (r @ [t]))" using take(7,9) new by auto
  with take(4) [OF _ pop(1)] take(2,5) names sub show ?case
    by (simp add: fill_round_take [OF take(1,2,3)])
qed

lemma rotation_covers:
  assumes "i < (n :: nat)"
  shows "\<exists>j<n. (s + j) mod n = i"
proof -
  let ?j = "(i + n - s mod n) mod n"
  have "(s + ?j) mod n = (s mod n + (i + n - s mod n)) mod n" by (simp add: mod_simps)
  also have "s mod n + (i + n - s mod n) = i + n"
    using assms mod_less_divisor [of n s] by linarith
  also have "(i + n) mod n = i" using assms by simp
  finally show ?thesis
    using index_bound [OF assms, of "i + n - s mod n"] by blast
qed

lemma fill_round_grows: "fill_round m s qs r v = (qs', r', v') \<Longrightarrow> length r \<le> length r'"
proof (induction qs r v rule: fill_round_induct [where m = m and s = s])
  case (stop qs r v)
  then show ?case by (simp add: fill_round_stop)
next
  case (skip qs r v)
  then show ?case by (simp add: fill_round_skip)
next
  case (take qs r v t rest)
  then show ?case by (simp add: fill_round_take)
qed

lemma fill_round_empty:
  assumes "fill_round m s qs r v = (qs', [], v')" and "0 < m"
    and "\<forall>j<v. snd (qs ! ((s + j) mod length qs)) = []"
  shows "\<forall>q\<in>set qs. snd q = []"
  using assms
proof (induction qs r v rule: fill_round_induct [where m = m and s = s])
  case (stop qs r v)
  then have v: "length qs \<le> v" by (auto simp: fill_round_stop)
  show ?case
  proof
    fix q assume "q \<in> set qs"
    then obtain i where "i < length qs" "q = qs ! i" by (metis in_set_conv_nth)
    with rotation_covers [of i "length qs" s] stop(4) v show "snd q = []" by force
  qed
next
  case (skip qs r v)
  have "\<forall>j<v + 1. snd (qs ! ((s + j) mod length qs)) = []"
    using skip(3,7) by (auto simp: less_Suc_eq)
  with skip show ?case by (simp add: fill_round_skip)
next
  case (take qs r v t rest)
  from take(5) have "length (r @ [t]) \<le> length ([] :: pr_target list)"
    unfolding fill_round_take [OF take(1,2,3)] by (rule fill_round_grows)
  then show ?case by simp
qed

section \<open>The plan\<close>

lemma waiting_zero: "\<forall>q\<in>set qs. snd q = [] \<Longrightarrow> pending qs k = []"
  by (induction qs) auto

lemma plan_loop_ok:
  assumes "queues_ok qs" and "0 < m"
    and "\<forall>r\<in>set rounds. r \<noteq> [] \<and> length r \<le> m \<and> distinct (map tg_repository_id r)"
  shows "(\<forall>r\<in>set (plan_loop m s qs rounds).
            r \<noteq> [] \<and> length r \<le> m \<and> distinct (map tg_repository_id r)) \<and>
         of_repo k (concat (plan_loop m s qs rounds)) = of_repo k (concat rounds) @ pending qs k"
  using assms
proof (induction m s qs rounds rule: plan_loop.induct)
  case (1 m s qs rounds)
  obtain qs' r v where fill: "fill_round m s qs [] 0 = (qs', r, v)" by (metis prod_cases3)
  note ok = fill_round_ok [OF fill "1.prems"(1)]
  have r: "distinct (map tg_repository_id r) \<and> length r \<le> m"
    using fill_round_distinct [OF fill "1.prems"(1)] by simp
  show ?case
  proof (cases "r = []")
    case True
    with fill have "\<forall>q\<in>set qs. snd q = []"
      using fill_round_empty [of m s qs "[]" 0 qs' v] "1.prems"(2) by simp
    with True fill "1.prems" show ?thesis
      by (subst (1 2) plan_loop.simps) (simp add: waiting_zero)
  next
    case False
    have rounds: "\<forall>r'\<in>set (rounds @ [r]). r' \<noteq> [] \<and> length r' \<le> m \<and> distinct (map tg_repository_id r')"
      using "1.prems"(3) r False by auto
    have "plan_loop m s qs rounds = plan_loop m ((s + v) mod length qs) qs' (rounds @ [r])"
      using fill False by (subst plan_loop.simps) simp
    moreover have "of_repo k r @ pending qs' k = pending qs k" using ok by simp
    ultimately show ?thesis
      using "1.IH" [OF fill [symmetric] refl False _ "1.prems"(2) rounds] ok by simp
  qed
qed

lemma mset_from_classes:
  assumes "\<And>k. filter (\<lambda>x. f x = k) xs = filter (\<lambda>x. f x = k) ys"
  shows "mset xs = mset ys"
proof (rule multiset_eqI)
  fix x
  have "count (mset zs) x = count (mset (filter (\<lambda>y. f y = f x) zs)) x" for zs
    by simp
  with assms [of "f x"] show "count (mset xs) x = count (mset ys) x" by metis
qed

lemma plan_rounds_shape:
  assumes "0 < m" and "r \<in> set (plan_merge_rounds ts m)"
  shows "r \<noteq> []" and "length r \<le> m" and "distinct (map tg_repository_id r)"
  using plan_loop_ok [of "queues_of ts" m "[]" 0] queues_of_ok [of ts] assms
  by (auto simp: plan_merge_rounds_def)

lemma plan_rounds_order:
  "0 < m \<Longrightarrow> of_repo k (concat (plan_merge_rounds ts m)) = of_repo k ts"
  using plan_loop_ok [of "queues_of ts" m "[]" 0 k] queues_of_ok [of ts k]
  by (simp add: plan_merge_rounds_def)

lemma plan_rounds_mset: "0 < m \<Longrightarrow> mset (concat (plan_merge_rounds ts m)) = mset ts"
  by (rule mset_from_classes [where f = tg_repository_id]) (rule plan_rounds_order)

section \<open>Properties of the schedule\<close>

lemma plan_rounds_all:
  assumes "0 < m"
  shows "\<forall>r\<in>set (plan_merge_rounds ts m). r \<noteq> [] \<and> length r \<le> m \<and> distinct (map tg_repository_id r)"
  using plan_rounds_shape [OF assms] by blast

text \<open>
  C15: The rounds schedule every target of the batch exactly once: no round is empty, none is
  longer than the parallelism allowed and none merges twice in one repository, and the targets
  of a repository go out in the order the batch names them.
\<close>

theorem merge_rounds_schedule:
  assumes "0 < parallel"
  shows "mset (concat (plan_merge_rounds targets parallel)) = mset targets \<and>
    (\<forall>round\<in>set (plan_merge_rounds targets parallel).
       round \<noteq> [] \<and> length round \<le> parallel \<and> distinct (map tg_repository_id round)) \<and>
    (\<forall>repo. filter (\<lambda>t. tg_repository_id t = repo) (concat (plan_merge_rounds targets parallel)) =
       filter (\<lambda>t. tg_repository_id t = repo) targets)"
  using plan_rounds_mset [OF assms] plan_rounds_all [OF assms] plan_rounds_order [OF assms] by blast

theorem merge_rounds_schedule_witness:
  "mset (concat (plan_merge_rounds two_targets 1)) = mset two_targets"
  using merge_rounds_schedule [of 1 two_targets] by simp

end
