(* ===== verification/Github_Errors.thy ===== *)
theory Github_Errors
  imports Core_Batch
begin

text \<open>
  What a call to GitHub can fail with (\<^verbatim>\<open>crates/github/src/error.rs\<close>) and the identities it is
  made under (\<^verbatim>\<open>crates/github/src/auth.rs\<close>). The payloads of transport and decoding errors are
  the messages the HTTP and JSON libraries print for them.
\<close>

datatype operation = OpRead | OpMerge | OpComment | OpUpdateBranch

fun display_operation :: "operation \<Rightarrow> string" where
  "display_operation OpRead = ''read''"
| "display_operation OpMerge = ''merge''"
| "display_operation OpComment = ''comment''"
| "display_operation OpUpdateBranch = ''update_branch''"

record error_response =
  er_status :: u16
  er_message :: string
  er_documentation_url :: "string option"
  er_rate_limit_remaining :: "u64 option"
  er_rate_limit_reset :: "u64 option"
  er_retry_after_seconds :: "u64 option"

definition default_error_response :: error_response where
  "default_error_response = \<lparr>er_status = 0, er_message = [], er_documentation_url = None,
     er_rate_limit_remaining = None, er_rate_limit_reset = None, er_retry_after_seconds = None\<rparr>"

datatype protocol_error =
    PeBody string | PeTimestamp string | PeTimestampBeforeEpoch | PeMissing string

datatype github_error =
    GeTransport string
  | GeHttp error_response bool
  | GeProtocol protocol_error
  | GeAmbiguous operation protocol_error
  | GeConfig string
  | GeStaleSha string string
  | GeShifted string string

fun display_protocol_error :: "protocol_error \<Rightarrow> string" where
  "display_protocol_error (PeBody e) = ''invalid GitHub response: '' @ e"
| "display_protocol_error (PeTimestamp e) = ''invalid GitHub timestamp: '' @ e"
| "display_protocol_error PeTimestampBeforeEpoch = ''GitHub returned a timestamp before 1970''"
| "display_protocol_error (PeMissing part) = ''GitHub GraphQL answer is missing its '' @ part"

fun display_github_error :: "github_error \<Rightarrow> string" where
  "display_github_error (GeTransport e) = ''GitHub transport failed: '' @ e"
| "display_github_error (GeHttp r _) =
     ''GitHub returned HTTP '' @ show_nat (unat (er_status r)) @ '': '' @ er_message r"
| "display_github_error (GeProtocol e) = ''GitHub protocol error: '' @ display_protocol_error e"
| "display_github_error (GeAmbiguous op e) =
     ''ambiguous GitHub '' @ display_operation op @ '' response: '' @ display_protocol_error e"
| "display_github_error (GeConfig m) = ''GitHub configuration error: '' @ m"
| "display_github_error (GeStaleSha e a) =
     ''pull request head changed from '' @ e @ '' to '' @ a"
| "display_github_error (GeShifted listing detail) =
     ''GitHub '' @ listing @ '' listing shifted while it was being paged: '' @ detail"

definition not_found :: "string \<Rightarrow> github_error" where
  "not_found message =
     GeHttp (default_error_response\<lparr>er_status := 404, er_message := message\<rparr>) True"

fun known_http :: "github_error \<Rightarrow> github_error" where
  "known_http (GeHttp response _) = GeHttp response True"
| "known_http error = error"

section \<open>The user identity\<close>

record static_token_provider =
  tk_user :: string
  tk_token :: "string option"

definition no_user_token :: github_error where
  "no_user_token = GeConfig
     ''no GitHub user token is configured; set GITHUB_USER_PAT to post @dependabot commands''"

definition user_token :: "static_token_provider \<Rightarrow> string \<Rightarrow> github_error + string" where
  "user_token provider user =
     (case tk_token provider of
        None \<Rightarrow> Inl no_user_token
      | Some token \<Rightarrow>
          if user = tk_user provider then Inr token
          else Inl (GeConfig (''no GitHub user token is configured for '' @ user)))"

end
