(* ===== verification/Github_Step.thy ===== *)
theory Github_Step
  imports Github_Errors
begin

text \<open>
  How a GitHub call becomes a journaled Restate step
  (\<^verbatim>\<open>apps/restate-service/src/github.rs\<close>): the classification of a failed answer, what an
  attempt journals, the durable waits for rate limits, and how a settled step is read. The
  operations a step asks of Restate are the record \<open>github_step\<close>, as the trait
  \<open>GithubStepEffects\<close> has them.
\<close>

section \<open>Messages of retried failures\<close>

datatype retryable_service_error =
    RsGithub string | RsStore string | RsStoreRefusedRecord string

fun display_retryable :: "retryable_service_error \<Rightarrow> string" where
  "display_retryable (RsGithub m) = ''transient GitHub failure: '' @ m"
| "display_retryable (RsStore m) = ''transient projection-store failure: '' @ m"
| "display_retryable (RsStoreRefusedRecord m) =
     ''batch record met a terminal-class store error; retrying regardless: '' @ m"

definition retry_later :: "retryable_service_error \<Rightarrow> handler_error" where
  "retry_later e = Retryable (display_retryable e)"

section \<open>Classification\<close>

definition MAX_RATE_LIMIT_WAITS :: nat where "MAX_RATE_LIMIT_WAITS = 3"
definition DEFAULT_RATE_LIMIT_WAIT_SECONDS :: u64 where "DEFAULT_RATE_LIMIT_WAIT_SECONDS = 60"

datatype classification =
    ClRetryable | ClRateLimited u64 | ClRejected reject_reason | ClFatal

definition is_rate_limited :: "error_response \<Rightarrow> bool" where
  "is_rate_limited response \<longleftrightarrow>
     er_rate_limit_remaining response = Some 0 \<or>
     er_retry_after_seconds response \<noteq> None \<or>
     str_contains (to_ascii_lowercase (er_message response)) ''secondary rate limit'' \<or>
     str_contains (to_ascii_lowercase (er_message response)) ''rate limit exceeded'' \<or>
     er_status response = 429"

definition rate_limit_until :: "error_response \<Rightarrow> u64 \<Rightarrow> u64" where
  "rate_limit_until response now =
     (case er_retry_after_seconds response of
        Some after \<Rightarrow> sat_add now after
      | None \<Rightarrow>
          (case er_rate_limit_reset response of
             Some reset \<Rightarrow> reset
           | None \<Rightarrow> sat_add now DEFAULT_RATE_LIMIT_WAIT_SECONDS))"

definition classify_github_error ::
    "error_response \<Rightarrow> operation \<Rightarrow> bool \<Rightarrow> u64 \<Rightarrow> classification" where
  "classify_github_error response operation known_resource now =
     (let message = to_ascii_lowercase (er_message response); status = er_status response
      in if is_rate_limited response then ClRateLimited (rate_limit_until response now)
         else if 500 \<le> status then ClRetryable
         else if operation = OpMerge \<and> status = 405 \<and>
                 str_contains message ''base branch was modified'' then ClRetryable
         else if status = 404 \<and> known_resource then ClRejected NotFound
         else if status = 404 then ClFatal
         else if status = 403 \<and> operation = OpComment then ClRejected Forbidden
         else if status = 403 \<and> (operation = OpMerge \<or> operation = OpUpdateBranch) \<and>
                 known_resource then ClRejected Forbidden
         else if status = 405 \<and> operation = OpMerge \<and> str_contains message ''merge method''
           then ClRejected MergeMethodDisallowed
         else if (status = 405 \<or> status = 409 \<or> status = 422) \<and> operation = OpMerge
           then ClRejected NotMergeable
         else if status = 422 \<and> operation = OpUpdateBranch then ClRejected NotMergeable
         else if status = 401 \<or> status = 403 then ClFatal
         else ClFatal)"

section \<open>What an attempt journals\<close>

datatype 'a settled =
    SOk 'a
  | SRejected reject_reason error_response
  | SFatal error_response
  | SStaleSha string string

datatype 'a attempt =
    AtSettled "'a settled"
  | AtRateLimited u64 error_response

definition journal_github_result ::
    "github_error + 'a \<Rightarrow> operation \<Rightarrow> bool \<Rightarrow> u64 \<Rightarrow> handler_error + 'a attempt" where
  "journal_github_result result operation known_resource now =
     (case result of
        Inr value \<Rightarrow> Inr (AtSettled (SOk value))
      | Inl (GeHttp response verified) \<Rightarrow>
          (case classify_github_error response operation (known_resource \<or> verified) now of
             ClRetryable \<Rightarrow> Inl (retry_later (RsGithub (er_message response)))
           | ClRateLimited until \<Rightarrow> Inr (AtRateLimited until response)
           | ClRejected reason \<Rightarrow> Inr (AtSettled (SRejected reason response))
           | ClFatal \<Rightarrow> Inr (AtSettled (SFatal response)))
      | Inl (GeStaleSha e a) \<Rightarrow> Inr (AtSettled (SStaleSha e a))
      | Inl (GeTransport m) \<Rightarrow>
          Inl (retry_later (RsGithub (display_github_error (GeTransport m))))
      | Inl (GeAmbiguous op e) \<Rightarrow>
          Inl (retry_later (RsGithub (display_github_error (GeAmbiguous op e))))
      | Inl (GeShifted l d) \<Rightarrow>
          Inl (retry_later (RsGithub (display_github_error (GeShifted l d))))
      | Inl (GeProtocol e) \<Rightarrow> Inl (Terminal (display_github_error (GeProtocol e)))
      | Inl (GeConfig m) \<Rightarrow> Inl (Terminal (display_github_error (GeConfig m))))"

section \<open>The journaled step\<close>

text \<open>
  \<open>GithubStepEffects\<close>: the step's name, one journaled attempt, and a durable sleep; the two
  calls fail only terminally, with the message of the failure.
\<close>

record ('w, 'a) github_step =
  gs_name :: string
  gs_attempt :: "('w, string, 'a attempt) eff"
  gs_sleep_until :: "u64 \<Rightarrow> ('w, string, unit) eff"

text \<open>\<open>?\<close> on a \<open>TerminalError\<close>.\<close>

definition or_terminal :: "('w, string, 'a) eff \<Rightarrow> ('w, 'a) handler" where
  "or_terminal m = (\<lambda>w. case m w of (Inl e, w') \<Rightarrow> (Inl (Terminal e), w') | (Inr a, w') \<Rightarrow> (Inr a, w'))"

definition rate_limit_message :: "string \<Rightarrow> u64 \<Rightarrow> string \<Rightarrow> string" where
  "rate_limit_message name until message =
     ''GitHub kept rate limiting '' @ name @ '' after '' @ show_nat MAX_RATE_LIMIT_WAITS @
     '' waits; last reset at '' @ show_u64 until @ '': '' @ message"

text \<open>The loop, by how many waits it may still make (\<open>MAX_RATE_LIMIT_WAITS - waits\<close>).\<close>

primrec github_loop :: "('w, 'a) github_step \<Rightarrow> nat \<Rightarrow> ('w, 'a settled) handler" where
  "github_loop step 0 =
     andthen (or_terminal (gs_attempt step)) (\<lambda>attempt.
       case attempt of
         AtSettled answer \<Rightarrow> ok answer
       | AtRateLimited until response \<Rightarrow>
           fail (Terminal (rate_limit_message (gs_name step) until (er_message response))))"
| "github_loop step (Suc waits_left) =
     andthen (or_terminal (gs_attempt step)) (\<lambda>attempt.
       case attempt of
         AtSettled answer \<Rightarrow> ok answer
       | AtRateLimited until response \<Rightarrow>
           andthen (or_terminal (gs_sleep_until step until)) (\<lambda>_. github_loop step waits_left))"

definition run_github_step :: "('w, 'a) github_step \<Rightarrow> ('w, 'a settled) handler" where
  "run_github_step step = github_loop step MAX_RATE_LIMIT_WAITS"

section \<open>Reading a settled step\<close>

definition http_failure :: "string \<Rightarrow> error_response \<Rightarrow> string" where
  "http_failure what response =
     ''GitHub '' @ what @ '' failed with HTTP '' @ show_nat (unat (er_status response)) @ '': '' @
     er_message response"

fun read_result :: "'a settled \<Rightarrow> handler_error + 'a" where
  "read_result (SOk value) = Inr value"
| "read_result (SRejected reason _) = Inl (Terminal (display_reject reason))"
| "read_result (SFatal response) = Inl (Terminal (http_failure ''read'' response))"
| "read_result (SStaleSha _ _) = Inl (Terminal ''unexpected stale SHA while reading GitHub'')"

text \<open>A merge that landed, as the client reports it.\<close>

record merged =
  mg_detail :: string
  mg_sha :: "string option"

fun settled_outcome :: "'a settled \<Rightarrow> ('a \<Rightarrow> action_outcome) \<Rightarrow> handler_error + action_outcome" where
  "settled_outcome (SOk done) succeeded = Inr (succeeded done)"
| "settled_outcome (SStaleSha e a) succeeded = Inr (Rejected (StaleSha e a))"
| "settled_outcome (SRejected reason _) succeeded = Inr (Rejected reason)"
| "settled_outcome (SFatal response) succeeded = Inl (Terminal (http_failure ''mutation'' response))"

definition action_result :: "string settled \<Rightarrow> handler_error + action_outcome" where
  "action_result result = settled_outcome result (\<lambda>detail. Succeeded detail None)"

definition merge_result :: "merged settled \<Rightarrow> handler_error + action_outcome" where
  "merge_result result = settled_outcome result (\<lambda>m. Succeeded (mg_detail m) (mg_sha m))"

section \<open>Properties\<close>

lemma or_terminal_simps [simp]:
  "m w = (Inl e, w') \<Longrightarrow> or_terminal m w = (Inl (Terminal e), w')"
  "m w = (Inr a, w') \<Longrightarrow> or_terminal m w = (Inr a, w')"
  by (simp_all add: or_terminal_def)

text \<open>The rate limits come first: nothing a limited answer says is acted on.\<close>

lemma classify_rate_limited:
  "is_rate_limited r \<Longrightarrow> classify_github_error r op k now = ClRateLimited (rate_limit_until r now)"
  by (simp add: classify_github_error_def)

lemma classify_retryable_iff:
  "classify_github_error r op k now = ClRetryable \<longleftrightarrow>
     \<not> is_rate_limited r \<and>
     (500 \<le> er_status r \<or>
      op = OpMerge \<and> er_status r = 405 \<and>
      str_contains (to_ascii_lowercase (er_message r)) ''base branch was modified'')"
  by (simp add: classify_github_error_def Let_def)

lemma classify_not_found_iff:
  "classify_github_error r op k now = ClRejected NotFound \<longleftrightarrow>
     \<not> is_rate_limited r \<and> er_status r = 404 \<and> k"
  by (auto simp: classify_github_error_def Let_def)

text \<open>A read is never rejected for anything but a known pull request gone.\<close>

lemma classify_read:
  "classify_github_error r OpRead k now = ClRejected reason \<Longrightarrow> reason = NotFound"
  by (auto simp: classify_github_error_def Let_def split: if_splits)

text \<open>
  A step counted in a world that keeps the script of its attempts: the world is the attempts
  still to come and the deadlines slept for.
\<close>

type_synonym 'a step_script = "(string + 'a attempt) list \<times> u64 list"

definition scripted_step :: "string \<Rightarrow> ('a step_script, 'a) github_step" where
  "scripted_step name =
     \<lparr>gs_name = name,
      gs_attempt = (\<lambda>(script, slept). case script of
         [] \<Rightarrow> (Inl ''script is over'', script, slept) | a # rest \<Rightarrow> (a, rest, slept)),
      gs_sleep_until = (\<lambda>until (script, slept). (Inr (), script, slept @ [until]))\<rparr>"

lemma journal_http:
  "journal_github_result (Inl (GeHttp response verified)) op known now =
     (case classify_github_error response op (known \<or> verified) now of
        ClRetryable \<Rightarrow> Inl (retry_later (RsGithub (er_message response)))
      | ClRateLimited until \<Rightarrow> Inr (AtRateLimited until response)
      | ClRejected reason \<Rightarrow> Inr (AtSettled (SRejected reason response))
      | ClFatal \<Rightarrow> Inr (AtSettled (SFatal response)))"
  by (simp add: journal_github_result_def)

abbreviation limited :: "u64 \<times> error_response \<Rightarrow> string + 'a attempt" where
  "limited \<equiv> (\<lambda>(until, response). Inr (AtRateLimited until response))"

lemma loop_waits:
  "github_loop (scripted_step name) (length limits + n) (map limited limits @ rest, slept) =
     github_loop (scripted_step name) n (rest, slept @ map fst limits)"
  by (induction limits arbitrary: slept)
    (auto simp: scripted_step_def andthen_def or_terminal_def)

lemma loop_answered:
  "github_loop (scripted_step name) n (Inr (AtSettled answer) # rest, slept) = (Inr answer, rest, slept)"
  by (cases n) (simp_all add: scripted_step_def andthen_def or_terminal_def ok_def)

lemma loop_failed:
  "github_loop (scripted_step name) n (Inl e # rest, slept) = (Inl (Terminal e), rest, slept)"
  by (cases n) (simp_all add: scripted_step_def andthen_def or_terminal_def)

lemma loop_exhausted:
  "github_loop (scripted_step name) 0 (limited (until, response) # rest, slept) =
     (Inl (Terminal (rate_limit_message name until (er_message response))), rest, slept)"
  by (simp add: scripted_step_def andthen_def or_terminal_def fail_def)

text \<open>
  A failed answer is journaled by what it says: a rate limit always as a wait until the
  time it names, whatever else it says; a server error or a merge that lost a race with its
  base branch never, but retried; a 404 as a pull request that is gone only where GitHub or
  the caller is known to have it; and a read is rejected for nothing else.
\<close>

theorem answers_are_journaled:
  "(journal_github_result (Inl (GeHttp r verified)) op known now =
      Inr (AtRateLimited (rate_limit_until r now) r) \<longleftrightarrow> is_rate_limited r) \<and>
   (journal_github_result (Inl (GeHttp r verified)) op known now \<in> range Inl \<longleftrightarrow>
      \<not> is_rate_limited r \<and>
      (500 \<le> er_status r \<or> op = OpMerge \<and> er_status r = 405 \<and>
         str_contains (to_ascii_lowercase (er_message r)) ''base branch was modified'')) \<and>
   (journal_github_result (Inl (GeHttp r verified)) op known now =
      Inr (AtSettled (SRejected NotFound r)) \<longleftrightarrow>
      \<not> is_rate_limited r \<and> er_status r = 404 \<and> (known \<or> verified)) \<and>
   journal_github_result (Inl (GeHttp r verified)) OpRead known now \<notin>
      (\<lambda>reason. Inr (AtSettled (SRejected reason r))) ` (UNIV - {NotFound})"
proof (intro conjI)
  let ?c = "classify_github_error r op (known \<or> verified) now"
  show "journal_github_result (Inl (GeHttp r verified)) op known now =
      Inr (AtRateLimited (rate_limit_until r now) r) \<longleftrightarrow> is_rate_limited r"
    unfolding journal_http by (auto simp: classify_github_error_def Let_def)
  show "journal_github_result (Inl (GeHttp r verified)) op known now \<in> range Inl \<longleftrightarrow>
      \<not> is_rate_limited r \<and>
      (500 \<le> er_status r \<or> op = OpMerge \<and> er_status r = 405 \<and>
         str_contains (to_ascii_lowercase (er_message r)) ''base branch was modified'')"
    unfolding journal_http
    using classify_retryable_iff [of r op "known \<or> verified" now]
    by (cases ?c) auto
  show "journal_github_result (Inl (GeHttp r verified)) op known now =
      Inr (AtSettled (SRejected NotFound r)) \<longleftrightarrow>
      \<not> is_rate_limited r \<and> er_status r = 404 \<and> (known \<or> verified)"
    unfolding journal_http
    using classify_not_found_iff [of r op "known \<or> verified" now] by (cases ?c) auto
  show "journal_github_result (Inl (GeHttp r verified)) OpRead known now \<notin>
      (\<lambda>reason. Inr (AtSettled (SRejected reason r))) ` (UNIV - {NotFound})"
    unfolding journal_http
    using classify_read [of r "known \<or> verified" now]
    by (cases "classify_github_error r OpRead (known \<or> verified) now") auto
qed

text \<open>
  A GitHub step makes at most four attempts and waits at most three times, each time until
  the deadline the answer named: after up to three rate limits the fourth attempt's answer is
  the step's, and a fourth rate limit ends the step in a terminal error instead of a wait.
\<close>

theorem rate_limit_waits_bounded:
  assumes "length limits \<le> 3"
  shows "run_github_step (scripted_step name) (map limited limits @ Inr (AtSettled answer) # rest, []) =
      (Inr answer, rest, map fst limits) \<and>
    run_github_step (scripted_step name) (map limited limits @ Inl e # rest, []) =
      (Inl (Terminal e) :: handler_error + 'a settled, rest, map fst limits) \<and>
    (length limits = 3 \<longrightarrow>
      run_github_step (scripted_step name) (map limited limits @ limited (until, response) # rest, []) =
      (Inl (Terminal (rate_limit_message name until (er_message response))) :: handler_error + 'a settled,
       rest, map fst limits))"
proof -
  obtain n where n: "MAX_RATE_LIMIT_WAITS = length limits + n"
    using assms by (auto simp: MAX_RATE_LIMIT_WAITS_def le_iff_add)
  then have "n = 0" if "length limits = 3" using that by (simp add: MAX_RATE_LIMIT_WAITS_def)
  with n show ?thesis
    unfolding run_github_step_def n loop_waits loop_answered loop_failed
    using loop_exhausted [of name until response rest "map fst limits"] by (auto simp del: github_loop.simps)
qed

theorem rate_limit_waits_bounded_witness:
  "run_github_step (scripted_step ''fetch'')
     ([Inr (AtRateLimited 60 default_error_response), Inr (AtSettled (SOk (5 :: nat)))], []) =
     (Inr (SOk 5), [], [60])"
  using rate_limit_waits_bounded [of "[(60, default_error_response)]" "''fetch''" "SOk (5 :: nat)" "[]"]
  by simp

end
