(* ===== verification/Core_Pr_State.thy ===== *)
theory Core_Pr_State
  imports Core_Types
begin

text \<open>
  The durable state of a pull request object in \<^verbatim>\<open>crates/core/src/lib.rs\<close>, its two bounded
  windows (the action trail and the acknowledged syncs), and the sync requests.
\<close>

record sync_request =
  sr_repository_id :: u64
  sr_owner :: string
  sr_repo :: string
  sr_number :: u64
  sr_bypass_debounce :: bool
  sr_completion_id :: "string option"

record manual_sync_request =
  ms_repository_id :: u64
  ms_owner :: string
  ms_repo :: string
  ms_number :: u64
  ms_completion_id :: string

record capabilities =
  cap_rebase_enabled :: bool

record sync_sha_request =
  ss_repository_id :: u64
  ss_owner :: string
  ss_repo :: string
  ss_sha :: string
  ss_pull_requests :: "u64 list"

record action_log =
  al_at :: u64
  al_action :: string
  al_detail :: string

record pr_state =
  ps_snapshot :: "pr_record option"
  ps_history :: "action_log list"
  ps_last_synced_at :: "u64 option"
  ps_sync_pending :: bool
  ps_completed_sync_ids :: "string list"

definition default_pr_state :: pr_state where
  "default_pr_state = \<lparr>ps_snapshot = None, ps_history = [], ps_last_synced_at = None,
     ps_sync_pending = False, ps_completed_sync_ids = []\<rparr>"

definition RETAINED_HISTORY :: nat where "RETAINED_HISTORY = 20"
definition RETAINED_SYNC_IDS :: nat where "RETAINED_SYNC_IDS = 20"

definition push_history :: "action_log \<Rightarrow> pr_state \<Rightarrow> pr_state" where
  "push_history entry st =
     st\<lparr>ps_history := keep_last RETAINED_HISTORY (ps_history st @ [entry])\<rparr>"

definition complete_sync :: "string \<Rightarrow> pr_state \<Rightarrow> pr_state" where
  "complete_sync cid st =
     (let ids = (if cid \<in> set (ps_completed_sync_ids st) then ps_completed_sync_ids st
                 else ps_completed_sync_ids st @ [cid])
      in st\<lparr>ps_completed_sync_ids := keep_last RETAINED_SYNC_IDS ids\<rparr>)"

text \<open>The windows are full at most and name no sync twice.\<close>

definition windows_ok :: "pr_state \<Rightarrow> bool" where
  "windows_ok st \<longleftrightarrow>
     length (ps_history st) \<le> RETAINED_HISTORY \<and>
     length (ps_completed_sync_ids st) \<le> RETAINED_SYNC_IDS \<and>
     distinct (ps_completed_sync_ids st)"

lemma windows_default [simp]: "windows_ok default_pr_state"
  by (simp add: windows_ok_def default_pr_state_def)

lemma windows_push [intro]: "windows_ok st \<Longrightarrow> windows_ok (push_history e st)"
  by (simp add: windows_ok_def push_history_def length_keep_last RETAINED_HISTORY_def)

lemma distinct_keep_last: "distinct xs \<Longrightarrow> distinct (keep_last n xs)"
  by (simp add: keep_last_def)

lemma windows_complete [intro]: "windows_ok st \<Longrightarrow> windows_ok (complete_sync c st)"
  by (auto simp: windows_ok_def complete_sync_def Let_def length_keep_last distinct_keep_last)

lemma windows_frame [simp]:
  "windows_ok (st\<lparr>ps_snapshot := s\<rparr>) = windows_ok st"
  "windows_ok (st\<lparr>ps_last_synced_at := l\<rparr>) = windows_ok st"
  "windows_ok (st\<lparr>ps_sync_pending := b\<rparr>) = windows_ok st"
  by (simp_all add: windows_ok_def)

lemma push_history_last: "ps_history (push_history e st) \<noteq> [] \<and> last (ps_history (push_history e st)) = e"
  using keep_last_snoc [of RETAINED_HISTORY "ps_history st" e]
  by (auto simp: push_history_def RETAINED_HISTORY_def)

text \<open>An acknowledged sync is in the window the moment it is acknowledged.\<close>

lemma complete_sync_member:
  assumes "windows_ok st"
  shows "c \<in> set (ps_completed_sync_ids (complete_sync c st))"
proof (cases "c \<in> set (ps_completed_sync_ids st)")
  case True
  with assms show ?thesis by (simp add: complete_sync_def keep_last_def windows_ok_def)
next
  case False
  then show ?thesis
    using keep_last_snoc [of RETAINED_SYNC_IDS "ps_completed_sync_ids st" c]
    by (auto simp: complete_sync_def RETAINED_SYNC_IDS_def)
qed

lemma push_history_frame [simp]:
  "ps_snapshot (push_history e st) = ps_snapshot st"
  "ps_last_synced_at (push_history e st) = ps_last_synced_at st"
  "ps_sync_pending (push_history e st) = ps_sync_pending st"
  "ps_completed_sync_ids (push_history e st) = ps_completed_sync_ids st"
  by (simp_all add: push_history_def)

lemma complete_sync_frame [simp]:
  "ps_snapshot (complete_sync c st) = ps_snapshot st"
  "ps_last_synced_at (complete_sync c st) = ps_last_synced_at st"
  "ps_sync_pending (complete_sync c st) = ps_sync_pending st"
  "ps_history (complete_sync c st) = ps_history st"
  by (simp_all add: complete_sync_def)

end
