(* ===== verification/Store_Rows.thy ===== *)
theory Store_Rows
  imports Core_Batch
begin

text \<open>
  The store's errors (\<^verbatim>\<open>crates/store/src/error.rs\<close>), the rows of its tables
  (\<^verbatim>\<open>migrations/*.sql\<close>), and how records are written to rows and read back
  (\<^verbatim>\<open>crates/store/src/lib.rs\<close>, \<^verbatim>\<open>batches.rs\<close>). SQLite integers are \<open>int\<close>, enum columns hold
  the printed token. A JSON column is the value it spells: \<open>serde_json\<close> reads back what it
  wrote.
\<close>

section \<open>Errors\<close>

datatype database_error =
    SqliteFailure "32 word" string
  | RemoteSqliteFailure "32 word" "32 word" string
  | ConnectionFailed string | WalConflict | HranaError string
  | OtherDatabaseError string

datatype store_error =
    StIo string | StDatabase database_error | StJson string | StCursor
  | StCorruptEnum string | StIntegerOverflow | StMissingScalar

datatype store_error_class = ScRetryable | ScTerminal

text \<open>\<open>code & 0xff\<close> is the primary result code; 787 is the foreign key constraint.\<close>

definition retryable_sqlite_code :: "32 word \<Rightarrow> bool" where
  "retryable_sqlite_code code \<longleftrightarrow> take_bit 8 code \<in> {5, 6, 10} \<or> code = 787"

fun retryable_database_error :: "database_error \<Rightarrow> bool" where
  "retryable_database_error (SqliteFailure code _) = retryable_sqlite_code code"
| "retryable_database_error (RemoteSqliteFailure code extended_code _) =
     (retryable_sqlite_code code \<or> retryable_sqlite_code extended_code)"
| "retryable_database_error (ConnectionFailed _) = True"
| "retryable_database_error WalConflict = True"
| "retryable_database_error (HranaError _) = True"
| "retryable_database_error (OtherDatabaseError _) = False"

fun store_class :: "store_error \<Rightarrow> store_error_class" where
  "store_class (StDatabase e) =
     (if retryable_database_error e then ScRetryable else ScTerminal)"
| "store_class (StIo _) = ScTerminal"
| "store_class (StJson _) = ScTerminal"
| "store_class StCursor = ScTerminal"
| "store_class (StCorruptEnum _) = ScTerminal"
| "store_class StIntegerOverflow = ScTerminal"
| "store_class StMissingScalar = ScTerminal"

fun database_message :: "database_error \<Rightarrow> string" where
  "database_message (SqliteFailure _ m) = m"
| "database_message (RemoteSqliteFailure _ _ m) = m"
| "database_message (ConnectionFailed m) = m"
| "database_message WalConflict = ''WAL conflict''"
| "database_message (HranaError m) = m"
| "database_message (OtherDatabaseError m) = m"

fun display_store_error :: "store_error \<Rightarrow> string" where
  "display_store_error (StIo e) = ''local database directory could not be created: '' @ e"
| "display_store_error (StDatabase e) = ''libSQL operation failed: '' @ database_message e"
| "display_store_error (StJson e) = ''stored JSON is invalid: '' @ e"
| "display_store_error StCursor = ''invalid page cursor''"
| "display_store_error (StCorruptEnum v) = ''stored enum value is invalid: '' @ v"
| "display_store_error StIntegerOverflow = ''database integer is out of range''"
| "display_store_error StMissingScalar = ''aggregate query did not return a row''"

section \<open>Values\<close>

definition integer :: "u64 \<Rightarrow> store_error + int" where
  "integer value = (if unat value < 2 ^ 63 then Inr (uint value) else Inl StIntegerOverflow)"

definition unsigned :: "int \<Rightarrow> store_error + u64" where
  "unsigned value = (if 0 \<le> value then Inr (of_int value) else Inl StIntegerOverflow)"

definition stored_enum :: "(string \<Rightarrow> string + 'a) \<Rightarrow> string \<Rightarrow> store_error + 'a" where
  "stored_enum parse value =
     (case parse value of Inl _ \<Rightarrow> Inl (StCorruptEnum value) | Inr a \<Rightarrow> Inr a)"

definition option_result :: "('a \<Rightarrow> 'e + 'b) \<Rightarrow> 'a option \<Rightarrow> 'e + 'b option" where
  "option_result f x = (case x of None \<Rightarrow> Inr None | Some a \<Rightarrow> bind_result (f a) (\<lambda>b. Inr (Some b)))"

lemma unsigned_uint [simp]: "unsigned (uint w) = Inr w"
  by (simp add: unsigned_def)

lemma integer_Inr: "integer w = Inr i \<longleftrightarrow> i = uint w \<and> unat w < 2 ^ 63"
  by (auto simp: integer_def)

text \<open>What fits the database's signed integers.\<close>

definition fits :: "u64 \<Rightarrow> bool" where
  "fits w \<longleftrightarrow> unat w < 2 ^ 63"

lemma integer_fits [simp]: "fits w \<Longrightarrow> integer w = Inr (uint w)"
  by (simp add: fits_def integer_def)

context strict_token_codec
begin

lemma stored_render [simp]: "stored_enum read (render a) = Inr a"
  by (simp add: stored_enum_def read_render)

lemma stored_Inr: "stored_enum read v = Inr a \<longleftrightarrow> v = render a"
proof (cases "read v")
  case (Inl e)
  then show ?thesis by (auto simp: stored_enum_def read_render)
next
  case (Inr b)
  then have "v = render b" by (simp add: read_iff)
  with Inr show ?thesis by (auto simp: stored_enum_def render_inj)
qed

end

section \<open>Pull request rows\<close>

record pr_row =
  w_id :: string
  w_repository_id :: int
  w_owner :: string
  w_repo :: string
  w_number :: int
  w_title :: string
  w_html_url :: string
  w_dependency :: "string option"
  w_from_version :: "string option"
  w_to_version :: "string option"
  w_dependencies :: "dependency_update list"
  w_update_type :: string
  w_head_sha :: string
  w_check_status :: string
  w_mergeable :: "string option"
  w_labels :: "string list"
  w_created_at :: int
  w_updated_at :: int
  w_synced_at :: int

text \<open>The parameters \<open>upsert_pr\<close> binds: the id is derived from the key, not taken from the record.\<close>

definition row_of_pr :: "pr_record \<Rightarrow> store_error + pr_row" where
  "row_of_pr pr =
     bind_result (integer (pr_repository_id pr)) (\<lambda>repository_id.
     bind_result (integer (pr_number pr)) (\<lambda>number.
     bind_result (integer (pr_created_at pr)) (\<lambda>created_at.
     bind_result (integer (pr_updated_at pr)) (\<lambda>updated_at.
     bind_result (integer (pr_synced_at pr)) (\<lambda>synced_at.
       Inr \<lparr>w_id = display_pr_key (record_key pr), w_repository_id = repository_id,
            w_owner = pr_owner pr, w_repo = pr_repo pr, w_number = number,
            w_title = pr_title pr, w_html_url = pr_html_url pr,
            w_dependency = pr_dependency pr, w_from_version = pr_from_version pr,
            w_to_version = pr_to_version pr, w_dependencies = pr_dependencies pr,
            w_update_type = display_update_type (pr_update_type pr),
            w_head_sha = pr_head_sha pr,
            w_check_status = display_check_status (pr_check_status pr),
            w_mergeable = Some (display_mergeable (pr_mergeable pr)),
            w_labels = pr_labels pr, w_created_at = created_at, w_updated_at = updated_at,
            w_synced_at = synced_at\<rparr>)))))"

definition pr_from_row :: "pr_row \<Rightarrow> store_error + pr_record" where
  "pr_from_row row =
     bind_result (unsigned (w_repository_id row)) (\<lambda>repository_id.
     bind_result (unsigned (w_number row)) (\<lambda>number.
     bind_result (stored_enum parse_update_type (w_update_type row)) (\<lambda>update_type.
     bind_result (stored_enum parse_check_status (w_check_status row)) (\<lambda>check_status.
     bind_result (unsigned (w_created_at row)) (\<lambda>created_at.
     bind_result (unsigned (w_updated_at row)) (\<lambda>updated_at.
     bind_result (unsigned (w_synced_at row)) (\<lambda>synced_at.
       Inr \<lparr>pr_id = w_id row, pr_repository_id = repository_id, pr_owner = w_owner row,
            pr_repo = w_repo row, pr_number = number, pr_title = w_title row,
            pr_html_url = w_html_url row, pr_dependency = w_dependency row,
            pr_from_version = w_from_version row, pr_to_version = w_to_version row,
            pr_dependencies = w_dependencies row, pr_update_type = update_type,
            pr_head_sha = w_head_sha row, pr_check_status = check_status,
            pr_mergeable =
              (case w_mergeable row of None \<Rightarrow> MgUnknown | Some m \<Rightarrow> from_github_state m),
            pr_labels = w_labels row, pr_created_at = created_at, pr_updated_at = updated_at,
            pr_synced_at = synced_at\<rparr>)))))))"

definition pr_fits :: "pr_record \<Rightarrow> bool" where
  "pr_fits pr \<longleftrightarrow> fits (pr_repository_id pr) \<and> fits (pr_number pr) \<and>
     fits (pr_created_at pr) \<and> fits (pr_updated_at pr) \<and> fits (pr_synced_at pr)"

definition with_derived_id :: "pr_record \<Rightarrow> pr_record" where
  "with_derived_id pr = pr\<lparr>pr_id := display_pr_key (record_key pr)\<rparr>"

lemma from_github_state_display [simp]: "from_github_state (display_mergeable m) = m"
  using mergeable_codec.read_render [of m] by simp

lemma row_of_pr_fits: "(\<exists>row. row_of_pr pr = Inr row) \<longleftrightarrow> pr_fits pr"
  by (auto simp: row_of_pr_def pr_fits_def bind_result_Inr integer_Inr fits_def)

lemma pr_from_row_of_pr: "row_of_pr pr = Inr row \<Longrightarrow> pr_from_row row = Inr (with_derived_id pr)"
  by (auto simp: row_of_pr_def pr_from_row_def bind_result_Inr integer_Inr with_derived_id_def
      update_type_codec.stored_render check_status_codec.stored_render)

lemma row_of_pr_simps:
  assumes "row_of_pr pr = Inr row"
  shows "w_id row = display_pr_key (record_key pr)"
    and "w_repository_id row = uint (pr_repository_id pr)"
    and "w_number row = uint (pr_number pr)"
    and "w_synced_at row = uint (pr_synced_at pr)"
    and "w_head_sha row = pr_head_sha pr"
  using assms by (auto simp: row_of_pr_def bind_result_Inr integer_Inr)

section \<open>Repository rows\<close>

record repo_row =
  x_repository_id :: int
  x_installation_id :: int
  x_owner :: string
  x_repo :: string
  x_merge_method :: "string option"
  x_synced_at :: int

definition row_of_repo :: "repo_record \<Rightarrow> store_error + repo_row" where
  "row_of_repo r =
     bind_result (integer (rr_repository_id r)) (\<lambda>repository_id.
     bind_result (integer (rr_installation_id r)) (\<lambda>installation_id.
     bind_result (integer (rr_synced_at r)) (\<lambda>synced_at.
       Inr \<lparr>x_repository_id = repository_id, x_installation_id = installation_id,
            x_owner = rr_owner r, x_repo = rr_repo r,
            x_merge_method = map_option display_merge_method (rr_merge_method r),
            x_synced_at = synced_at\<rparr>)))"

definition repo_from_row :: "repo_row \<Rightarrow> store_error + repo_record" where
  "repo_from_row row =
     bind_result (unsigned (x_repository_id row)) (\<lambda>repository_id.
     bind_result (unsigned (x_installation_id row)) (\<lambda>installation_id.
     bind_result (option_result (stored_enum parse_merge_method) (x_merge_method row)) (\<lambda>merge_method.
     bind_result (unsigned (x_synced_at row)) (\<lambda>synced_at.
       Inr \<lparr>rr_repository_id = repository_id, rr_installation_id = installation_id,
            rr_owner = x_owner row, rr_repo = x_repo row, rr_merge_method = merge_method,
            rr_synced_at = synced_at\<rparr>))))"

definition repo_fits :: "repo_record \<Rightarrow> bool" where
  "repo_fits r \<longleftrightarrow> fits (rr_repository_id r) \<and> fits (rr_installation_id r) \<and> fits (rr_synced_at r)"

lemma repo_from_row_of_repo: "row_of_repo r = Inr row \<Longrightarrow> repo_from_row row = Inr r"
  by (cases "rr_merge_method r")
    (auto simp: row_of_repo_def repo_from_row_def bind_result_Inr integer_Inr option_result_def
      merge_method_codec.stored_render)

lemma row_of_repo_fits: "(\<exists>row. row_of_repo r = Inr row) \<longleftrightarrow> repo_fits r"
  by (auto simp: row_of_repo_def repo_fits_def bind_result_Inr integer_Inr fits_def)

section \<open>Retirement, batch and target rows\<close>

record retirement_row =
  y_id :: int
  y_repository_id :: int
  y_number :: int
  y_synced_before :: "int option"

record batch_row =
  b_batch_id :: string
  b_installation_id :: "int option"
  b_action :: string
  b_requested_by :: string
  b_retried_from :: "string option"
  b_started_at :: int
  b_completed_at :: int
  b_succeeded :: int
  b_rejected :: int
  b_failed :: int

record target_row =
  t_batch_id :: string
  t_position :: int
  t_repository_id :: int
  t_owner :: string
  t_repo :: string
  t_number :: int
  t_title :: string
  t_html_url :: string
  t_head_sha :: "string option"
  t_outcome :: target_outcome

record running_row =
  n_batch_id :: string
  n_installation_id :: "int option"
  n_action :: string
  n_requested_by :: string
  n_retried_from :: "string option"
  n_started_at :: int
  n_target_count :: int

text \<open>A column read as not null: \<open>row.get::<i64>\<close> fails on a null.\<close>

definition not_null :: "int option \<Rightarrow> store_error + int" where
  "not_null v = (case v of Some i \<Rightarrow> Inr i | None \<Rightarrow> Inl (StDatabase (OtherDatabaseError ''null value'')))"

definition retirement_from_row :: "retirement_row \<Rightarrow> store_error + retirement" where
  "retirement_from_row row =
     bind_result (unsigned (y_id row)) (\<lambda>id.
     bind_result (unsigned (y_repository_id row)) (\<lambda>repository_id.
     bind_result (unsigned (y_number row)) (\<lambda>number.
     bind_result (option_result unsigned (y_synced_before row)) (\<lambda>synced_before.
       Inr \<lparr>rt_id = id, rt_key = PrKey repository_id number, rt_synced_before = synced_before\<rparr>))))"

definition row_of_batch :: "batch_record \<Rightarrow> store_error + batch_row" where
  "row_of_batch b =
     bind_result (integer (bc_installation_id b)) (\<lambda>installation_id.
     bind_result (integer (bc_started_at b)) (\<lambda>started_at.
     bind_result (integer (bc_completed_at b)) (\<lambda>completed_at.
     bind_result (integer (bc_succeeded b)) (\<lambda>succeeded.
     bind_result (integer (bc_rejected b)) (\<lambda>rejected.
     bind_result (integer (bc_failed b)) (\<lambda>failed.
       Inr \<lparr>b_batch_id = bc_batch_id b, b_installation_id = Some installation_id,
            b_action = display_bulk_action (bc_action b), b_requested_by = bc_requested_by b,
            b_retried_from = bc_retried_from b, b_started_at = started_at,
            b_completed_at = completed_at, b_succeeded = succeeded, b_rejected = rejected,
            b_failed = failed\<rparr>))))))"

definition batch_from_row :: "batch_row \<Rightarrow> store_error + batch_record" where
  "batch_from_row row =
     bind_result (bind_result (not_null (b_installation_id row)) unsigned) (\<lambda>installation_id.
     bind_result (stored_enum parse_bulk_action (b_action row)) (\<lambda>action.
     bind_result (unsigned (b_started_at row)) (\<lambda>started_at.
     bind_result (unsigned (b_completed_at row)) (\<lambda>completed_at.
     bind_result (unsigned (b_succeeded row)) (\<lambda>succeeded.
     bind_result (unsigned (b_rejected row)) (\<lambda>rejected.
     bind_result (unsigned (b_failed row)) (\<lambda>failed.
       Inr \<lparr>bc_batch_id = b_batch_id row, bc_installation_id = installation_id,
            bc_action = action, bc_requested_by = b_requested_by row,
            bc_retried_from = b_retried_from row, bc_started_at = started_at,
            bc_completed_at = completed_at, bc_succeeded = succeeded, bc_rejected = rejected,
            bc_failed = failed, bc_targets = []\<rparr>)))))))"

definition row_of_target :: "string \<Rightarrow> nat \<Rightarrow> batch_target_record \<Rightarrow> store_error + target_row" where
  "row_of_target batch_id position t =
     bind_result (integer (of_nat position)) (\<lambda>position.
     bind_result (integer (bt_repository_id t)) (\<lambda>repository_id.
     bind_result (integer (bt_number t)) (\<lambda>number.
       Inr \<lparr>t_batch_id = batch_id, t_position = position, t_repository_id = repository_id,
            t_owner = bt_owner t, t_repo = bt_repo t, t_number = number, t_title = bt_title t,
            t_html_url = bt_html_url t, t_head_sha = bt_head_sha t, t_outcome = bt_outcome t\<rparr>)))"

definition batch_target_from_row :: "target_row \<Rightarrow> store_error + batch_target_record" where
  "batch_target_from_row row =
     bind_result (unsigned (t_repository_id row)) (\<lambda>repository_id.
     bind_result (unsigned (t_number row)) (\<lambda>number.
       Inr \<lparr>bt_repository_id = repository_id, bt_owner = t_owner row, bt_repo = t_repo row,
            bt_number = number, bt_title = t_title row, bt_html_url = t_html_url row,
            bt_head_sha = t_head_sha row, bt_outcome = t_outcome row\<rparr>))"

definition row_of_running :: "running_batch \<Rightarrow> store_error + running_row" where
  "row_of_running b =
     bind_result (integer (rb_installation_id b)) (\<lambda>installation_id.
     bind_result (integer (rb_started_at b)) (\<lambda>started_at.
     bind_result (integer (rb_target_count b)) (\<lambda>target_count.
       Inr \<lparr>n_batch_id = rb_batch_id b, n_installation_id = Some installation_id,
            n_action = display_bulk_action (rb_action b), n_requested_by = rb_requested_by b,
            n_retried_from = rb_retried_from b, n_started_at = started_at,
            n_target_count = target_count\<rparr>)))"

definition running_batch_from_row :: "running_row \<Rightarrow> store_error + running_batch" where
  "running_batch_from_row row =
     bind_result (bind_result (not_null (n_installation_id row)) unsigned) (\<lambda>installation_id.
     bind_result (stored_enum parse_bulk_action (n_action row)) (\<lambda>action.
     bind_result (unsigned (n_started_at row)) (\<lambda>started_at.
     bind_result (unsigned (n_target_count row)) (\<lambda>target_count.
       Inr \<lparr>rb_batch_id = n_batch_id row, rb_installation_id = installation_id,
            rb_action = action, rb_requested_by = n_requested_by row,
            rb_retried_from = n_retried_from row, rb_started_at = started_at,
            rb_target_count = target_count\<rparr>))))"

lemma batch_from_row_of_batch:
  "row_of_batch b = Inr row \<Longrightarrow> batch_from_row row = Inr (b\<lparr>bc_targets := []\<rparr>)"
  by (auto simp: row_of_batch_def batch_from_row_def bind_result_Inr integer_Inr not_null_def
      bulk_action_codec.stored_render)

lemma batch_target_from_row_of_target:
  "row_of_target b i t = Inr row \<Longrightarrow> batch_target_from_row row = Inr t"
  by (auto simp: row_of_target_def batch_target_from_row_def bind_result_Inr integer_Inr)

lemma running_from_row_of_running:
  "row_of_running b = Inr row \<Longrightarrow> running_batch_from_row row = Inr b"
  by (auto simp: row_of_running_def running_batch_from_row_def bind_result_Inr integer_Inr
      not_null_def bulk_action_codec.stored_render)

end
