(* ===== verification/Store.thy ===== *)
theory Store
  imports Store_Rows
begin

text \<open>
  The projection store's write half (\<^verbatim>\<open>crates/store/src/lib.rs\<close>, \<^verbatim>\<open>reconcile.rs\<close>): its tables,
  the triggers that keep the revision, and one definition per operation of
  \<open>ProjectionWriter\<close>. A table is the list of its rows. A statement is the change it makes to
  them; a transaction leaves the database as it was when any of its statements fails.
\<close>

record db =
  db_repos :: "repo_row list"
  db_prs :: "pr_row list"
  db_retirements :: "retirement_row list"
  db_retirement_sequence :: int
  db_running :: "running_row list"
  db_batches :: "batch_row list"
  db_batch_targets :: "target_row list"
  db_revision :: int
  db_pr_revision :: int

type_synonym 'a store_op = "(db, store_error, 'a) eff"

definition empty_db :: db where
  "empty_db = \<lparr>db_repos = [], db_prs = [], db_retirements = [], db_retirement_sequence = 0,
     db_running = [], db_batches = [], db_batch_targets = [], db_revision = 0, db_pr_revision = 0\<rparr>"

definition transaction :: "'a store_op \<Rightarrow> 'a store_op" where
  "transaction m = (\<lambda>d. case m d of (Inl e, _) \<Rightarrow> (Inl e, d) | (Inr a, d') \<Rightarrow> (Inr a, d'))"

text \<open>The revision triggers, for a statement that changed \<open>n\<close> rows of the table.\<close>

definition touch_prs :: "nat \<Rightarrow> db \<Rightarrow> db" where
  "touch_prs n d = d\<lparr>db_revision := db_revision d + int n, db_pr_revision := db_pr_revision d + int n\<rparr>"

definition touch_repos :: "nat \<Rightarrow> db \<Rightarrow> db" where
  "touch_repos n d = d\<lparr>db_revision := db_revision d + int n\<rparr>"

section \<open>Pull requests\<close>

definition foreign_key_failure :: store_error where
  "foreign_key_failure = StDatabase (SqliteFailure 787 ''FOREIGN KEY constraint failed'')"

definition unique_failure :: store_error where
  "unique_failure = StDatabase (SqliteFailure 2067 ''UNIQUE constraint failed'')"

text \<open>\<open>INSERT ... ON CONFLICT(id) DO UPDATE\<close> of every column but the id.\<close>

definition insert_pr_row :: "pr_row \<Rightarrow> unit store_op" where
  "insert_pr_row row = (\<lambda>d.
     if \<not> (\<exists>r\<in>set (db_repos d). x_repository_id r = w_repository_id row)
     then (Inl foreign_key_failure, d)
     else if \<exists>r\<in>set (db_prs d). w_id r \<noteq> w_id row \<and>
               w_repository_id r = w_repository_id row \<and> w_number r = w_number row
     then (Inl unique_failure, d)
     else (Inr (), touch_prs 1 (d\<lparr>db_prs :=
       (if \<exists>r\<in>set (db_prs d). w_id r = w_id row
        then map (\<lambda>r. if w_id r = w_id row then row else r) (db_prs d)
        else db_prs d @ [row])\<rparr>)))"

definition upsert_pr :: "pr_record \<Rightarrow> unit store_op" where
  "upsert_pr pr = andthen (lift (row_of_pr pr)) insert_pr_row"

text \<open>
  \<open>select_pr_sql\<close>: the rows joined with the repository each hangs off, with its installation.
\<close>

definition joined_prs :: "db \<Rightarrow> (pr_row \<times> int) list" where
  "joined_prs d =
     concat (map (\<lambda>p. map (\<lambda>r. (p, x_installation_id r))
       (filter (\<lambda>r. x_repository_id r = w_repository_id p) (db_repos d))) (db_prs d))"

definition collect_prs :: "pr_row list \<Rightarrow> store_error + pr_record list" where
  "collect_prs rows = collect_results (map pr_from_row rows)"

definition get_pr :: "pr_key \<Rightarrow> pr_record option store_op" where
  "get_pr key = (\<lambda>d.
     ((case filter (\<lambda>(p, _). w_id p = display_pr_key key) (joined_prs d) of
         [] \<Rightarrow> Inr None
       | (p, _) # _ \<Rightarrow> bind_result (pr_from_row p) (\<lambda>r. Inr (Some r))), d))"

definition delete_pr :: "pr_key \<Rightarrow> unit store_op" where
  "delete_pr key = (\<lambda>d.
     let gone = filter (\<lambda>p. w_id p = display_pr_key key) (db_prs d)
     in (Inr (), touch_prs (length gone)
           (d\<lparr>db_prs := filter (\<lambda>p. w_id p \<noteq> display_pr_key key) (db_prs d)\<rparr>)))"

definition prs_for_sha :: "u64 \<Rightarrow> string \<Rightarrow> pr_record list store_op" where
  "prs_for_sha repository_id sha =
     andthen (lift (integer repository_id)) (\<lambda>r d.
       (collect_prs (map fst (filter (\<lambda>(p, _). w_repository_id p = r \<and> w_head_sha p = sha)
          (joined_prs d))), d))"

section \<open>Repositories\<close>

definition put_repo_row :: "repo_row \<Rightarrow> unit store_op" where
  "put_repo_row row = put (\<lambda>d. touch_repos 1 (d\<lparr>db_repos :=
       (if \<exists>r\<in>set (db_repos d). x_repository_id r = x_repository_id row
        then map (\<lambda>r. if x_repository_id r = x_repository_id row then row else r) (db_repos d)
        else db_repos d @ [row])\<rparr>))"

definition upsert_repo :: "repo_record \<Rightarrow> unit store_op" where
  "upsert_repo r = andthen (lift (row_of_repo r)) put_repo_row"

definition get_repo :: "u64 \<Rightarrow> repo_record option store_op" where
  "get_repo repository_id =
     andthen (lift (integer repository_id)) (\<lambda>r d.
       ((case filter (\<lambda>x. x_repository_id x = r) (db_repos d) of
           [] \<Rightarrow> Inr None
         | x # _ \<Rightarrow> bind_result (repo_from_row x) (\<lambda>rec. Inr (Some rec))), d))"

section \<open>The retirement outbox\<close>

text \<open>The keys a delete returned, in key order.\<close>

definition deleted_pr_keys :: "pr_row list \<Rightarrow> store_error + pr_key list" where
  "deleted_pr_keys rows =
     bind_result (collect_results (map (\<lambda>p.
         bind_result (unsigned (w_repository_id p)) (\<lambda>r.
         bind_result (unsigned (w_number p)) (\<lambda>n. Inr (PrKey r n)))) rows))
       (\<lambda>keys. Inr (sort keys))"

definition queue_retirement :: "int option \<Rightarrow> pr_key \<Rightarrow> unit store_op" where
  "queue_retirement fence key =
     andthen (lift (integer (pk_repository key))) (\<lambda>r.
     andthen (lift (integer (pk_number key))) (\<lambda>n.
       put (\<lambda>d. d\<lparr>db_retirements := db_retirements d @
             [\<lparr>y_id = db_retirement_sequence d + 1, y_repository_id = r, y_number = n,
               y_synced_before = fence\<rparr>],
           db_retirement_sequence := db_retirement_sequence d + 1\<rparr>)))"

fun each_step :: "('a \<Rightarrow> unit store_op) \<Rightarrow> 'a list \<Rightarrow> unit store_op" where
  "each_step f [] = ok ()"
| "each_step f (x # xs) = andthen (f x) (\<lambda>_. each_step f xs)"

definition queue_retirements :: "pr_key list \<Rightarrow> u64 option \<Rightarrow> unit store_op" where
  "queue_retirements keys synced_before =
     andthen (lift (option_result integer synced_before)) (\<lambda>fence.
       each_step (queue_retirement fence) keys)"

text \<open>\<open>DELETE FROM pull_requests WHERE ... RETURNING\<close>: the rows that went.\<close>

definition delete_prs_where :: "(db \<Rightarrow> pr_row \<Rightarrow> bool) \<Rightarrow> pr_row list store_op" where
  "delete_prs_where selected = (\<lambda>d.
     let gone = filter (selected d) (db_prs d)
     in (Inr gone, touch_prs (length gone)
           (d\<lparr>db_prs := filter (\<lambda>p. \<not> selected d p) (db_prs d)\<rparr>)))"

definition delete_repos_where :: "(repo_row \<Rightarrow> bool) \<Rightarrow> unit store_op" where
  "delete_repos_where selected = put (\<lambda>d.
     touch_repos (length (filter selected (db_repos d)))
       (d\<lparr>db_repos := filter (\<lambda>r. \<not> selected r) (db_repos d)\<rparr>))"

definition retain_prs_on :: "u64 \<Rightarrow> u64 list \<Rightarrow> u64 \<Rightarrow> pr_key list store_op" where
  "retain_prs_on repository_id live synced_before =
     andthen (lift (integer repository_id)) (\<lambda>r.
     andthen (lift (integer synced_before)) (\<lambda>before.
     andthen (lift (collect_results (map integer live))) (\<lambda>numbers.
     andthen (delete_prs_where (\<lambda>_ p. w_repository_id p = r \<and> w_synced_at p < before \<and>
         (numbers = [] \<or> w_number p \<notin> set numbers))) (\<lambda>rows.
     andthen (lift (deleted_pr_keys rows)) (\<lambda>pruned.
     andthen (queue_retirements pruned (Some synced_before)) (\<lambda>_. ok pruned))))))"

definition retain_prs :: "u64 \<Rightarrow> u64 list \<Rightarrow> u64 \<Rightarrow> pr_key list store_op" where
  "retain_prs repository_id live synced_before =
     transaction (retain_prs_on repository_id live synced_before)"

text \<open>Three statements over one predicate: the pull requests, then the repositories, then the queue.\<close>

definition delete_repositories_where ::
    "(repo_row \<Rightarrow> bool) \<Rightarrow> u64 option \<Rightarrow> pr_key list store_op" where
  "delete_repositories_where selected synced_before =
     andthen (delete_prs_where (\<lambda>d p.
         \<exists>r\<in>set (db_repos d). selected r \<and> x_repository_id r = w_repository_id p)) (\<lambda>rows.
     andthen (lift (deleted_pr_keys rows)) (\<lambda>cascaded.
     andthen (delete_repos_where selected) (\<lambda>_.
     andthen (queue_retirements cascaded synced_before) (\<lambda>_. ok cascaded))))"

definition retain_repos_on :: "u64 \<Rightarrow> u64 list \<Rightarrow> u64 \<Rightarrow> pr_key list store_op" where
  "retain_repos_on installation_id live synced_before =
     andthen (lift (integer installation_id)) (\<lambda>i.
     andthen (lift (integer synced_before)) (\<lambda>before.
     andthen (lift (collect_results (map integer live))) (\<lambda>ids.
       delete_repositories_where
         (\<lambda>r. x_installation_id r = i \<and> x_synced_at r < before \<and>
              (ids = [] \<or> x_repository_id r \<notin> set ids))
         (Some synced_before))))"

definition replace_installation_repos ::
    "u64 \<Rightarrow> repo_record list \<Rightarrow> u64 \<Rightarrow> pr_key list store_op" where
  "replace_installation_repos installation_id repos synced_before =
     transaction (
       andthen (each_step upsert_repo repos) (\<lambda>_.
         retain_repos_on installation_id (map rr_repository_id repos) synced_before))"

definition purge_installation :: "u64 \<Rightarrow> pr_key list store_op" where
  "purge_installation installation_id =
     transaction (
       andthen (lift (integer installation_id)) (\<lambda>i.
         delete_repositories_where (\<lambda>r. x_installation_id r = i) None))"

text \<open>\<open>ORDER BY id\<close>; the rows are kept in the order their ids were given.\<close>

definition pending_retirements :: "retirement list store_op" where
  "pending_retirements = (\<lambda>d.
     (collect_results (map retirement_from_row (sort_key y_id (db_retirements d))), d))"

definition acknowledge_retirements :: "u64 \<Rightarrow> unit store_op" where
  "acknowledge_retirements through =
     andthen (lift (integer through)) (\<lambda>i.
       put (\<lambda>d. d\<lparr>db_retirements := filter (\<lambda>y. \<not> y_id y \<le> i) (db_retirements d)\<rparr>))"

section \<open>Batches\<close>

definition start_batch :: "running_batch \<Rightarrow> unit store_op" where
  "start_batch batch =
     andthen (lift (row_of_running batch)) (\<lambda>row.
       put (\<lambda>d. if \<exists>n\<in>set (db_running d). n_batch_id n = n_batch_id row then d
                else d\<lparr>db_running := db_running d @ [row]\<rparr>))"

definition unlist_batch :: "string \<Rightarrow> unit store_op" where
  "unlist_batch batch_id =
     put (\<lambda>d. d\<lparr>db_running := filter (\<lambda>n. n_batch_id n \<noteq> batch_id) (db_running d)\<rparr>)"

definition insert_target :: "string \<Rightarrow> nat \<times> batch_target_record \<Rightarrow> unit store_op" where
  "insert_target batch_id pt =
     andthen (lift (row_of_target batch_id (fst pt) (snd pt))) (\<lambda>row.
       put (\<lambda>d. d\<lparr>db_batch_targets := db_batch_targets d @ [row]\<rparr>))"

definition record_batch :: "batch_record \<Rightarrow> unit store_op" where
  "record_batch batch =
     transaction (
       andthen (unlist_batch (bc_batch_id batch)) (\<lambda>_.
       andthen (lift (row_of_batch batch)) (\<lambda>row d.
         if \<exists>b\<in>set (db_batches d). b_batch_id b = bc_batch_id batch then (Inr (), d)
         else andthen (put (\<lambda>d. d\<lparr>db_batches := db_batches d @ [row]\<rparr>)) (\<lambda>_.
                each_step (insert_target (bc_batch_id batch))
                  (enumerate 0 (bc_targets batch))) d)))"

end
