(* ===== verification/Store_Laws.thy ===== *)
theory Store_Laws
  imports Store
begin

text \<open>
  What the store's write half keeps and does. \<open>db_ok\<close> is the invariant of the tables: every
  row was written from a record, ids are unique, a pull request hangs off a repository, and
  retirement ids only grow. \<open>pr_table\<close> is the abstract projection, a map from keys to records.
\<close>

section \<open>Operations that keep a property of the database\<close>

definition preserves :: "('s \<Rightarrow> bool) \<Rightarrow> ('s, 'e, 'a) eff \<Rightarrow> bool" where
  "preserves P m \<longleftrightarrow> (\<forall>s. P s \<longrightarrow> P (snd (m s)))"

named_theorems keeps \<open>operations that keep the database's invariant\<close>

lemma preserves_andthen:
  "preserves P m \<Longrightarrow> (\<And>a. preserves P (f a)) \<Longrightarrow> preserves P (andthen m f)"
  unfolding preserves_def andthen_def
  by (auto split: prod.splits sum.splits)

lemma preserves_lift [simp, intro]: "preserves P (lift r)"
  and preserves_ok [simp, intro]: "preserves P (ok a)"
  by (simp_all add: preserves_def)

lemma preserves_lift_andthen:
  "(\<And>a. r = Inr a \<Longrightarrow> preserves P (f a)) \<Longrightarrow> preserves P (andthen (lift r) f)"
  unfolding preserves_def andthen_def by (cases r) auto

lemma preserves_put: "(\<And>s. P s \<Longrightarrow> P (f s)) \<Longrightarrow> preserves P (put f)"
  by (simp add: preserves_def)

lemma preserves_transaction: "preserves P m \<Longrightarrow> preserves P (transaction m)"
  unfolding preserves_def transaction_def by (auto split: prod.splits sum.splits)

lemma preserves_each_step: "(\<And>x. preserves P (f x)) \<Longrightarrow> preserves P (each_step f xs)"
  by (induction xs) (auto intro: preserves_andthen)

lemma transaction_Inr: "transaction m d = (Inr a, d') \<longleftrightarrow> m d = (Inr a, d')"
  by (auto simp: transaction_def split: prod.splits sum.splits)

lemma transaction_Inl: "transaction m d = (Inl e, d') \<Longrightarrow> d' = d"
  by (auto simp: transaction_def split: prod.splits sum.splits)

lemma option_eqI: "(\<And>x. a = Some x \<longleftrightarrow> b = Some x) \<Longrightarrow> a = b"
  by (cases a; cases b) auto

section \<open>The invariant of the tables\<close>

definition written_pr :: "pr_row \<Rightarrow> bool" where
  "written_pr p \<longleftrightarrow> (\<exists>pr. row_of_pr pr = Inr p)"

definition written_repo :: "repo_row \<Rightarrow> bool" where
  "written_repo x \<longleftrightarrow> (\<exists>r. row_of_repo r = Inr x)"

definition retirement_row_ok :: "int \<Rightarrow> retirement_row \<Rightarrow> bool" where
  "retirement_row_ok n y \<longleftrightarrow> 0 < y_id y \<and> y_id y \<le> n \<and> 0 \<le> y_repository_id y \<and> 0 \<le> y_number y \<and>
     (\<forall>b. y_synced_before y = Some b \<longrightarrow> 0 \<le> b)"

definition prs_ok :: "db \<Rightarrow> bool" where
  "prs_ok d \<longleftrightarrow>
     (\<forall>p\<in>set (db_prs d). written_pr p) \<and> distinct (map w_id (db_prs d)) \<and>
     (\<forall>x\<in>set (db_repos d). written_repo x) \<and> distinct (map x_repository_id (db_repos d)) \<and>
     w_repository_id ` set (db_prs d) \<subseteq> x_repository_id ` set (db_repos d)"

definition outbox_ok :: "db \<Rightarrow> bool" where
  "outbox_ok d \<longleftrightarrow>
     0 \<le> db_retirement_sequence d \<and> sorted_wrt (<) (map y_id (db_retirements d)) \<and>
     (\<forall>y\<in>set (db_retirements d). retirement_row_ok (db_retirement_sequence d) y)"

definition written_running :: "running_row \<Rightarrow> bool" where
  "written_running n \<longleftrightarrow> (\<exists>b. row_of_running b = Inr n)"

definition written_batch :: "batch_row \<Rightarrow> bool" where
  "written_batch b \<longleftrightarrow> (\<exists>r. row_of_batch r = Inr b)"

definition batches_ok :: "db \<Rightarrow> bool" where
  "batches_ok d \<longleftrightarrow>
     (\<forall>n\<in>set (db_running d). written_running n) \<and> distinct (map n_batch_id (db_running d)) \<and>
     (\<forall>b\<in>set (db_batches d). written_batch b) \<and> distinct (map b_batch_id (db_batches d)) \<and>
     t_batch_id ` set (db_batch_targets d) \<subseteq> b_batch_id ` set (db_batches d)"

definition db_ok :: "db \<Rightarrow> bool" where
  "db_ok d \<longleftrightarrow> prs_ok d \<and> outbox_ok d \<and> batches_ok d"

lemma db_ok_empty [simp]: "db_ok empty_db"
  by (simp add: db_ok_def prs_ok_def outbox_ok_def batches_ok_def empty_db_def)


section \<open>Reading the pull requests back\<close>

lemma display_pr_key_inj [simp]: "display_pr_key a = display_pr_key b \<longleftrightarrow> a = b"
  by (rule pr_key_codec.render_inj)

lemma pr_from_row_key:
  "row_of_pr pr = Inr p \<Longrightarrow> w_id p = display_pr_key (record_key pr) \<and>
     pr_from_row p = Inr (with_derived_id pr)"
  by (simp add: row_of_pr_simps pr_from_row_of_pr)

lemma written_pr_read:
  assumes "written_pr p"
  obtains pr where "pr_from_row p = Inr pr" "w_id p = display_pr_key (record_key pr)"
    "w_repository_id p = uint (pr_repository_id pr)" "w_number p = uint (pr_number pr)"
    "w_synced_at p = uint (pr_synced_at pr)" "w_head_sha p = pr_head_sha pr"
    "with_derived_id pr = pr" "pr_fits pr"
proof -
  obtain pr where r: "row_of_pr pr = Inr p" using assms by (auto simp: written_pr_def)
  have f: "pr_fits pr" using r row_of_pr_fits by blast
  show ?thesis
    by (rule that [of "with_derived_id pr"])
      (use pr_from_row_of_pr [OF r] row_of_pr_simps [OF r] f in
        \<open>simp_all add: with_derived_id_def record_key_def pr_fits_def\<close>)
qed

lemma joined_prs_ok:
  assumes "prs_ok d"
  shows "map fst (joined_prs d) = db_prs d"
proof -
  have one: "\<exists>x. filter (\<lambda>r. x_repository_id r = i) rs = [x]"
    if "distinct (map x_repository_id rs)" "i \<in> x_repository_id ` set rs" for rs i
    using that
  proof (induction rs)
    case Nil
    then show ?case by simp
  next
    case (Cons a rs)
    show ?case
    proof (cases "x_repository_id a = i")
      case True
      with Cons.prems(1) have "filter (\<lambda>r. x_repository_id r = i) rs = []"
        by (simp add: filter_empty_conv) (metis image_eqI)
      with True show ?thesis by simp
    next
      case False
      with Cons show ?thesis by auto
    qed
  qed
  have "concat (map (\<lambda>p. map fst (map (\<lambda>r. (p, x_installation_id r))
      (filter (\<lambda>r. x_repository_id r = w_repository_id p) (db_repos d)))) ps) = ps"
    if "w_repository_id ` set ps \<subseteq> x_repository_id ` set (db_repos d)" for ps
    using that
  proof (induction ps)
    case Nil
    then show ?case by simp
  next
    case (Cons p ps)
    have "distinct (map x_repository_id (db_repos d))" using assms by (simp add: prs_ok_def)
    moreover have "w_repository_id p \<in> x_repository_id ` set (db_repos d)" using Cons.prems by simp
    ultimately obtain x where "filter (\<lambda>r. x_repository_id r = w_repository_id p) (db_repos d) = [x]"
      using one by blast
    with Cons show ?case by simp
  qed
  from this [of "db_prs d"] assms show ?thesis
    by (simp add: joined_prs_def prs_ok_def map_concat comp_def)
qed

text \<open>The projection as a map from keys to the records a lookup gives.\<close>

definition readable :: "pr_row \<Rightarrow> pr_record option" where
  "readable p = (case pr_from_row p of Inl _ \<Rightarrow> None | Inr r \<Rightarrow> Some r)"

definition pr_table :: "db \<Rightarrow> pr_key \<Rightarrow> pr_record option" where
  "pr_table d key =
     (case find (\<lambda>p. w_id p = display_pr_key key) (db_prs d) of
        None \<Rightarrow> None | Some p \<Rightarrow> readable p)"

lemma find_filter: "find P xs = (case filter P xs of [] \<Rightarrow> None | x # _ \<Rightarrow> Some x)"
  by (induction xs) auto

lemma get_pr_table:
  assumes "prs_ok d"
  shows "get_pr key d = (Inr (pr_table d key), d)"
proof -
  let ?P = "\<lambda>p. w_id p = display_pr_key key"
  have F: "map fst (filter (\<lambda>(p, _). ?P p) (joined_prs d)) = filter ?P (db_prs d)"
    unfolding joined_prs_ok [OF assms, symmetric] by (simp add: filter_map comp_def case_prod_unfold)
  show ?thesis
  proof (cases "filter (\<lambda>(p, _). ?P p) (joined_prs d)")
    case Nil
    with F have "filter ?P (db_prs d) = []" by simp
    with Nil show ?thesis by (simp add: get_pr_def pr_table_def find_filter)
  next
    case (Cons pi rest)
    obtain p i where pi: "pi = (p, i)" by (cases pi)
    with Cons F have hd: "filter ?P (db_prs d) = p # map fst rest" by simp
    then have "p \<in> set (db_prs d)" by (metis filter_eq_Cons_iff in_set_conv_decomp)
    with assms have "written_pr p" by (simp add: prs_ok_def)
    then obtain pr where "pr_from_row p = Inr pr" by (rule written_pr_read)
    with Cons hd pi show ?thesis by (simp add: get_pr_def pr_table_def find_filter readable_def)
  qed
qed

lemma pr_table_Some:
  assumes "prs_ok d"
  shows "pr_table d key = Some pr \<longleftrightarrow>
    (\<exists>p\<in>set (db_prs d). w_id p = display_pr_key key \<and> pr_from_row p = Inr pr)"
proof -
  have uniq: "p = q" if "p \<in> set (db_prs d)" "q \<in> set (db_prs d)" "w_id p = w_id q" for p q
    using assms that by (auto simp: prs_ok_def distinct_map inj_on_def)
  show ?thesis
  proof (cases "find (\<lambda>p. w_id p = display_pr_key key) (db_prs d)")
    case None
    then have "\<forall>p\<in>set (db_prs d). w_id p \<noteq> display_pr_key key" by (auto simp: find_None_iff)
    with None show ?thesis by (auto simp: pr_table_def)
  next
    case (Some p)
    then have p: "p \<in> set (db_prs d)" "w_id p = display_pr_key key"
      by (auto simp: find_Some_iff)
    have "q = p" if "q \<in> set (db_prs d)" "w_id q = display_pr_key key" for q
      by (rule uniq) (use that p in simp_all)
    then have "(\<exists>q\<in>set (db_prs d). w_id q = display_pr_key key \<and> pr_from_row q = Inr pr) \<longleftrightarrow>
        pr_from_row p = Inr pr"
      using p by blast
    with Some show ?thesis by (simp add: pr_table_def readable_def split: sum.splits)
  qed
qed

lemma pr_table_key: "prs_ok d \<Longrightarrow> pr_table d key = Some pr \<Longrightarrow> record_key pr = key \<and> with_derived_id pr = pr"
proof -
  assume ok: "prs_ok d" and "pr_table d key = Some pr"
  then obtain p where p: "p \<in> set (db_prs d)" "w_id p = display_pr_key key" "pr_from_row p = Inr pr"
    by (auto simp: pr_table_Some)
  with ok have "written_pr p" by (simp add: prs_ok_def)
  then show ?thesis by (rule written_pr_read) (use p in auto)
qed


section \<open>Writing pull requests\<close>

lemma touch_simps [simp]:
  "db_prs (touch_prs n d) = db_prs d" "db_repos (touch_prs n d) = db_repos d"
  "db_retirements (touch_prs n d) = db_retirements d"
  "db_retirement_sequence (touch_prs n d) = db_retirement_sequence d"
  "db_running (touch_prs n d) = db_running d" "db_batches (touch_prs n d) = db_batches d"
  "db_batch_targets (touch_prs n d) = db_batch_targets d"
  "db_prs (touch_repos n d) = db_prs d" "db_repos (touch_repos n d) = db_repos d"
  "db_retirements (touch_repos n d) = db_retirements d"
  "db_retirement_sequence (touch_repos n d) = db_retirement_sequence d"
  "db_running (touch_repos n d) = db_running d" "db_batches (touch_repos n d) = db_batches d"
  "db_batch_targets (touch_repos n d) = db_batch_targets d"
  by (simp_all add: touch_prs_def touch_repos_def)

lemma revision_touch [simp]:
  "db_revision (touch_prs n d) = db_revision d + int n"
  "db_pr_revision (touch_prs n d) = db_pr_revision d + int n"
  "db_revision (touch_repos n d) = db_revision d + int n"
  "db_pr_revision (touch_repos n d) = db_pr_revision d"
  by (simp_all add: touch_prs_def touch_repos_def)

text \<open>Whether a row of the pull request's repository exists, as the foreign key asks.\<close>

definition known_repo :: "db \<Rightarrow> u64 \<Rightarrow> bool" where
  "known_repo d r \<longleftrightarrow> uint r \<in> x_repository_id ` set (db_repos d)"

text \<open>The list of rows after an insert that replaces the row of the same id.\<close>

definition put_row :: "pr_row \<Rightarrow> pr_row list \<Rightarrow> pr_row list" where
  "put_row row rows =
     (if \<exists>r\<in>set rows. w_id r = w_id row
      then map (\<lambda>r. if w_id r = w_id row then row else r) rows else rows @ [row])"

lemma put_row_ids: "map w_id (put_row row rows) =
    (if w_id row \<in> w_id ` set rows then map w_id rows else map w_id rows @ [w_id row])"
  by (auto simp: put_row_def image_iff) metis

lemma set_put_row: "set (put_row row rows) = insert row {r \<in> set rows. w_id r \<noteq> w_id row}"
  by (auto simp: put_row_def)

lemma written_pr_id_iff:
  assumes "written_pr p" "written_pr q"
  shows "w_id p = w_id q \<longleftrightarrow> w_repository_id p = w_repository_id q \<and> w_number p = w_number q"
  using assms(1)
proof (rule written_pr_read)
  fix a
  assume a: "w_id p = display_pr_key (record_key a)" "w_repository_id p = uint (pr_repository_id a)"
    "w_number p = uint (pr_number a)"
  show ?thesis
    using assms(2) by (rule written_pr_read) (use a in \<open>auto simp: record_key_def word_uint_eq_iff\<close>)
qed

lemma insert_pr_row_ok:
  assumes "prs_ok d" "written_pr row" "w_repository_id row \<in> x_repository_id ` set (db_repos d)"
  shows "insert_pr_row row d = (Inr (), touch_prs 1 (d\<lparr>db_prs := put_row row (db_prs d)\<rparr>))"
proof -
  have "\<not> (\<exists>r\<in>set (db_prs d). w_id r \<noteq> w_id row \<and>
      w_repository_id r = w_repository_id row \<and> w_number r = w_number row)"
    using assms written_pr_id_iff by (auto simp: prs_ok_def)
  moreover have "\<exists>r\<in>set (db_repos d). x_repository_id r = w_repository_id row"
    using assms(3) by auto
  ultimately show ?thesis by (simp add: insert_pr_row_def put_row_def)
qed

lemma prs_ok_put_row:
  assumes "prs_ok d" "written_pr row" "w_repository_id row \<in> x_repository_id ` set (db_repos d)"
  shows "prs_ok (d\<lparr>db_prs := put_row row (db_prs d)\<rparr>)"
  using assms unfolding prs_ok_def by (auto simp: set_put_row put_row_ids)

lemma prs_ok_touch [simp]: "prs_ok (touch_prs n d) = prs_ok d" "prs_ok (touch_repos n d) = prs_ok d"
  by (simp_all add: prs_ok_def)

lemma pr_table_touch [simp]:
  "pr_table (touch_prs n d) = pr_table d" "pr_table (touch_repos n d) = pr_table d"
  by (auto simp: pr_table_def fun_eq_iff)

lemma pr_table_put_row:
  assumes "prs_ok d" "row_of_pr pr = Inr row" "known_repo d (pr_repository_id pr)"
  shows "pr_table (d\<lparr>db_prs := put_row row (db_prs d)\<rparr>) =
    (pr_table d)(record_key pr \<mapsto> with_derived_id pr)"
proof -
  let ?d = "d\<lparr>db_prs := put_row row (db_prs d)\<rparr>"
  note row = row_of_pr_simps [OF assms(2)] pr_from_row_of_pr [OF assms(2)]
  have w: "written_pr row" using assms(2) by (auto simp: written_pr_def)
  have "prs_ok ?d"
    by (rule prs_ok_put_row) (use assms w row in \<open>auto simp: known_repo_def\<close>)
  then have "pr_table ?d k = Some r \<longleftrightarrow> ((pr_table d)(record_key pr \<mapsto> with_derived_id pr)) k = Some r"
    for k r
    using assms(1) row by (auto simp: pr_table_Some set_put_row)
  then show ?thesis by (intro ext) (rule option_eqI)
qed

lemma upsert_pr_ok:
  assumes "prs_ok d" "pr_fits pr" "known_repo d (pr_repository_id pr)"
  shows "\<exists>d'. upsert_pr pr d = (Inr (), d') \<and> prs_ok d' \<and>
    pr_table d' = (pr_table d)(record_key pr \<mapsto> with_derived_id pr) \<and>
    db_repos d' = db_repos d \<and> db_pr_revision d' = db_pr_revision d + 1 \<and>
    db_revision d' = db_revision d + 1 \<and> db_retirements d' = db_retirements d"
proof -
  obtain row where r: "row_of_pr pr = Inr row" using assms(2) row_of_pr_fits by blast
  then have w: "written_pr row" by (auto simp: written_pr_def)
  have k: "w_repository_id row \<in> x_repository_id ` set (db_repos d)"
    using assms(3) row_of_pr_simps [OF r] by (simp add: known_repo_def)
  show ?thesis
    using insert_pr_row_ok [OF assms(1) w k] prs_ok_put_row [OF assms(1) w k]
      pr_table_put_row [OF assms(1) r assms(3)] r
    by (simp add: upsert_pr_def andthen_def)
qed

text \<open>A pull request of a repository the projection does not hold is refused, as a retryable error.\<close>

lemma upsert_pr_unknown_repo:
  assumes "pr_fits pr" "\<not> known_repo d (pr_repository_id pr)"
  shows "upsert_pr pr d = (Inl foreign_key_failure, d)"
proof -
  obtain row where r: "row_of_pr pr = Inr row" using assms(1) row_of_pr_fits by blast
  have "\<not> (\<exists>x\<in>set (db_repos d). x_repository_id x = w_repository_id row)"
    using assms(2) row_of_pr_simps [OF r] by (metis image_eqI known_repo_def)
  with r show ?thesis by (simp add: upsert_pr_def andthen_def insert_pr_row_def)
qed

lemma prs_ok_filter: "prs_ok d \<Longrightarrow> prs_ok (d\<lparr>db_prs := filter P (db_prs d)\<rparr>)"
  by (auto simp: prs_ok_def distinct_map_filter)

lemma pr_table_filter:
  assumes "prs_ok d"
  shows "pr_table (d\<lparr>db_prs := filter P (db_prs d)\<rparr>) k = Some r \<longleftrightarrow>
    (\<exists>p\<in>set (db_prs d). P p \<and> w_id p = display_pr_key k \<and> pr_from_row p = Inr r)"
  using pr_table_Some [OF prs_ok_filter [OF assms, of P]] by auto

lemma delete_pr_ok:
  assumes "prs_ok d"
  shows "\<exists>d'. delete_pr key d = (Inr (), d') \<and> prs_ok d' \<and> pr_table d' = (pr_table d)(key := None) \<and>
    db_repos d' = db_repos d \<and> db_retirements d' = db_retirements d"
proof -
  let ?d = "d\<lparr>db_prs := filter (\<lambda>p. w_id p \<noteq> display_pr_key key) (db_prs d)\<rparr>"
  have "pr_table ?d k = Some r \<longleftrightarrow> ((pr_table d)(key := None)) k = Some r" for k r
  proof (cases "k = key")
    case True
    then show ?thesis unfolding pr_table_filter [OF assms] by simp
  next
    case False
    then have "w_id p = display_pr_key k \<Longrightarrow> w_id p \<noteq> display_pr_key key" for p by simp
    with False show ?thesis
      unfolding pr_table_filter [OF assms] fun_upd_other [OF False] pr_table_Some [OF assms] by blast
  qed
  then have "pr_table ?d = (pr_table d)(key := None)" by (intro ext) (rule option_eqI)
  with prs_ok_filter [OF assms] show ?thesis by (simp add: delete_pr_def Let_def)
qed


section \<open>The retirement outbox\<close>

definition row_key :: "pr_row \<Rightarrow> pr_key" where
  "row_key p = PrKey (of_int (w_repository_id p)) (of_int (w_number p))"

definition key_fits :: "pr_key \<Rightarrow> bool" where
  "key_fits k \<longleftrightarrow> fits (pk_repository k) \<and> fits (pk_number k)"

lemma written_row_key:
  assumes "written_pr p"
  shows "w_id p = display_pr_key (row_key p)" and "key_fits (row_key p)"
    and "unsigned (w_repository_id p) = Inr (pk_repository (row_key p))"
    and "unsigned (w_number p) = Inr (pk_number (row_key p))"
proof -
  obtain pr where pr: "w_id p = display_pr_key (record_key pr)"
    "w_repository_id p = uint (pr_repository_id pr)" "w_number p = uint (pr_number pr)" "pr_fits pr"
    using assms by (rule written_pr_read)
  then have k: "row_key p = record_key pr" by (simp add: row_key_def record_key_def)
  show "w_id p = display_pr_key (row_key p)" "key_fits (row_key p)"
    "unsigned (w_repository_id p) = Inr (pk_repository (row_key p))"
    "unsigned (w_number p) = Inr (pk_number (row_key p))"
    using pr by (simp_all add: k record_key_def key_fits_def pr_fits_def)
qed

lemma deleted_pr_keys_ok:
  assumes "\<forall>p\<in>set rows. written_pr p"
  shows "deleted_pr_keys rows = Inr (sort (map row_key rows))"
proof -
  have "map (\<lambda>p. bind_result (unsigned (w_repository_id p)) (\<lambda>r.
      bind_result (unsigned (w_number p)) (\<lambda>n. Inr (PrKey r n)))) rows =
    map (\<lambda>p. Inr (row_key p) :: store_error + pr_key) rows"
    using assms by (auto simp: written_row_key)
  then have "collect_results (map (\<lambda>p. bind_result (unsigned (w_repository_id p)) (\<lambda>r.
      bind_result (unsigned (w_number p)) (\<lambda>n. Inr (PrKey r n)))) rows) = Inr (map row_key rows)"
    by (simp only: collect_results_map)
  then show ?thesis by (simp only: deleted_pr_keys_def bind_result_simps)
qed

text \<open>The rows a queue of keys adds to the outbox, after the id \<open>n\<close>.\<close>

primrec queued_rows :: "int option \<Rightarrow> int \<Rightarrow> pr_key list \<Rightarrow> retirement_row list" where
  "queued_rows fence n [] = []"
| "queued_rows fence n (k # ks) =
     \<lparr>y_id = n + 1, y_repository_id = uint (pk_repository k), y_number = uint (pk_number k),
      y_synced_before = fence\<rparr> # queued_rows fence (n + 1) ks"

lemma queued_rows_ids: "y \<in> set (queued_rows f n ks) \<Longrightarrow> n < y_id y \<and> y_id y \<le> n + int (length ks)"
  by (induction ks arbitrary: n) fastforce+

lemma queued_rows_ok:
  assumes "\<forall>b. f = Some b \<longrightarrow> 0 \<le> b" "0 \<le> n" "y \<in> set (queued_rows f n ks)"
  shows "retirement_row_ok (n + int (length ks)) y"
proof -
  have "0 \<le> y_repository_id y \<and> 0 \<le> y_number y \<and> y_synced_before y = f"
    using assms(3) by (induction ks arbitrary: n) auto
  with assms queued_rows_ids [OF assms(3)] show ?thesis by (simp add: retirement_row_ok_def)
qed

lemma queued_rows_sorted: "sorted_wrt (<) (map y_id (queued_rows f n ks))"
proof (induction ks arbitrary: n)
  case Nil
  then show ?case by simp
next
  case (Cons k ks)
  then show ?case using queued_rows_ids [of _ f "n + 1" ks] by fastforce
qed

lemma queued_rows_keys:
  "map (\<lambda>y. (PrKey (of_int (y_repository_id y)) (of_int (y_number y)), y_synced_before y))
     (queued_rows f n ks) = map (\<lambda>k. (k, f)) ks"
  by (induction ks arbitrary: n) simp_all

definition with_queued :: "int option \<Rightarrow> pr_key list \<Rightarrow> db \<Rightarrow> db" where
  "with_queued fence keys d = d\<lparr>
     db_retirements := db_retirements d @ queued_rows fence (db_retirement_sequence d) keys,
     db_retirement_sequence := db_retirement_sequence d + int (length keys)\<rparr>"

lemma each_step_queue:
  assumes "\<forall>k\<in>set keys. key_fits k"
  shows "each_step (queue_retirement fence) keys d = (Inr (), with_queued fence keys d)"
  using assms
proof (induction keys arbitrary: d)
  case Nil
  then show ?case by (simp add: with_queued_def)
next
  case (Cons k ks)
  then have "queue_retirement fence k d = (Inr (), with_queued fence [k] d)"
    by (simp add: queue_retirement_def with_queued_def key_fits_def andthen_def)
  with Cons show ?case by (simp add: with_queued_def algebra_simps)
qed

definition fence_of :: "u64 option \<Rightarrow> int option" where
  "fence_of f = map_option uint f"

lemma queue_retirements_ok:
  assumes "\<forall>k\<in>set keys. key_fits k" "\<forall>b. f = Some b \<longrightarrow> fits b"
  shows "queue_retirements keys f d = (Inr (), with_queued (fence_of f) keys d)"
proof -
  have "option_result integer f = Inr (fence_of f)"
    using assms(2) by (cases f) (simp_all add: option_result_def fence_of_def)
  with assms(1) show ?thesis by (simp add: queue_retirements_def andthen_def each_step_queue)
qed

lemma outbox_with_queued:
  assumes "outbox_ok d" "\<forall>b. f = Some b \<longrightarrow> 0 \<le> b"
  shows "outbox_ok (with_queued f keys d)"
proof -
  have old: "y \<in> set (db_retirements d) \<Longrightarrow> y_id y \<le> db_retirement_sequence d" for y
    using assms(1) by (auto simp: outbox_ok_def retirement_row_ok_def)
  have grow: "retirement_row_ok n y \<Longrightarrow> n \<le> m \<Longrightarrow> retirement_row_ok m y" for n m y
    by (auto simp: retirement_row_ok_def)
  have "sorted_wrt (<) (map y_id (db_retirements d @ queued_rows f (db_retirement_sequence d) keys))"
    using assms(1) queued_rows_sorted queued_rows_ids old
    by (fastforce simp: sorted_wrt_append outbox_ok_def)
  moreover have "retirement_row_ok (db_retirement_sequence d + int (length keys)) y"
    if "y \<in> set (db_retirements d @ queued_rows f (db_retirement_sequence d) keys)" for y
    using that assms queued_rows_ok [of f "db_retirement_sequence d" y keys]
      grow [of "db_retirement_sequence d" y "db_retirement_sequence d + int (length keys)"]
    by (auto simp: outbox_ok_def)
  ultimately show ?thesis using assms(1) by (simp add: outbox_ok_def with_queued_def)
qed


section \<open>Reconciliation\<close>

definition doomed_keys :: "(pr_row \<Rightarrow> bool) \<Rightarrow> db \<Rightarrow> pr_key list" where
  "doomed_keys P d = sort (map row_key (filter P (db_prs d)))"

lemma doomed_keys_ok:
  assumes "prs_ok d"
  shows "sorted (doomed_keys P d)" and "distinct (doomed_keys P d)"
    and "\<forall>k\<in>set (doomed_keys P d). key_fits k"
    and "set (doomed_keys P d) = row_key ` {p \<in> set (db_prs d). P p}"
proof -
  have "distinct (map (\<lambda>p. display_pr_key (row_key p)) (db_prs d))"
    using assms written_row_key(1) by (auto simp: prs_ok_def cong: map_cong)
  then have "distinct (map row_key (db_prs d))"
    by (simp add: distinct_map inj_on_def)
  then show "distinct (doomed_keys P d)" by (simp add: doomed_keys_def distinct_map_filter)
  show "\<forall>k\<in>set (doomed_keys P d). key_fits k"
    using assms written_row_key(2) by (auto simp: doomed_keys_def prs_ok_def)
qed (auto simp: doomed_keys_def)

lemma pr_table_rows:
  assumes "prs_ok d" "p \<in> set (db_prs d)"
  shows "\<exists>pr. pr_from_row p = Inr pr \<and> pr_table d (row_key p) = Some pr \<and> record_key pr = row_key p"
proof -
  have w: "written_pr p" using assms by (simp add: prs_ok_def)
  obtain pr where pr: "pr_from_row p = Inr pr" "w_id p = display_pr_key (record_key pr)"
    using w by (rule written_pr_read)
  have "w_id p = display_pr_key (row_key p)" by (rule written_row_key(1) [OF w])
  with pr assms show ?thesis by (auto simp: pr_table_Some)
qed

lemma pr_table_without:
  assumes "prs_ok d"
  shows "pr_table (d\<lparr>db_prs := filter (\<lambda>p. \<not> P p) (db_prs d)\<rparr>) =
    (\<lambda>k. if k \<in> set (doomed_keys P d) then None else pr_table d k)" (is "pr_table ?d = ?f")
proof -
  have keyed: "w_id p = display_pr_key k \<longleftrightarrow> row_key p = k" if "p \<in> set (db_prs d)" for p k
    using that assms written_row_key(1) by (auto simp: prs_ok_def)
  have inj: "row_key p = row_key q \<Longrightarrow> p = q" if "p \<in> set (db_prs d)" "q \<in> set (db_prs d)" for p q
  proof -
    assume "row_key p = row_key q"
    with that have "w_id p = w_id q" using keyed by metis
    with that assms show "p = q" by (auto simp: prs_ok_def distinct_map inj_on_def)
  qed
  have "pr_table ?d k = Some r \<longleftrightarrow> ?f k = Some r" for k r
  proof -
    have "pr_table ?d k = Some r \<longleftrightarrow>
        (\<exists>p\<in>set (db_prs d). \<not> P p \<and> row_key p = k \<and> pr_from_row p = Inr r)"
      unfolding pr_table_filter [OF assms] using keyed by blast
    moreover have "pr_table d k = Some r \<longleftrightarrow>
        (\<exists>p\<in>set (db_prs d). row_key p = k \<and> pr_from_row p = Inr r)"
      unfolding pr_table_Some [OF assms] using keyed by blast
    moreover have "k \<in> set (doomed_keys P d) \<longleftrightarrow> (\<exists>p\<in>set (db_prs d). P p \<and> row_key p = k)"
      unfolding doomed_keys_ok(4) [OF assms] by blast
    ultimately show ?thesis using inj by auto
  qed
  then show ?thesis by (intro ext) (rule option_eqI)
qed

lemma pr_table_with_queued [simp]: "pr_table (with_queued f ks d) = pr_table d"
  and prs_ok_with_queued [simp]: "prs_ok (with_queued f ks d) = prs_ok d"
  by (auto simp: pr_table_def with_queued_def prs_ok_def fun_eq_iff)

lemma with_queued_frame [simp]:
  "db_prs (with_queued f ks d) = db_prs d" "db_repos (with_queued f ks d) = db_repos d"
  "db_running (with_queued f ks d) = db_running d" "db_batches (with_queued f ks d) = db_batches d"
  "db_batch_targets (with_queued f ks d) = db_batch_targets d"
  "db_revision (with_queued f ks d) = db_revision d"
  "db_pr_revision (with_queued f ks d) = db_pr_revision d"
  by (simp_all add: with_queued_def)

lemma delete_prs_where_ok:
  assumes "prs_ok d"
  shows "bind_result (Inr (filter P (db_prs d))) deleted_pr_keys = Inr (doomed_keys P d)"
proof -
  have "\<forall>p\<in>set (filter P (db_prs d)). written_pr p" using assms by (auto simp: prs_ok_def)
  then show ?thesis by (simp add: deleted_pr_keys_ok doomed_keys_def)
qed

text \<open>The rows a listing that started at \<open>before\<close> and saw \<open>live\<close> takes away.\<close>

definition unlisted :: "u64 \<Rightarrow> u64 list \<Rightarrow> u64 \<Rightarrow> pr_row \<Rightarrow> bool" where
  "unlisted r live before p \<longleftrightarrow> w_repository_id p = uint r \<and> w_synced_at p < uint before \<and>
     (map uint live = [] \<or> w_number p \<notin> set (map uint live))"

lemma retain_prs_run:
  assumes ok: "prs_ok d" and fit: "fits r" "fits before" "\<forall>n\<in>set live. fits n"
  defines "P \<equiv> unlisted r live before"
  shows "retain_prs r live before d =
    (Inr (doomed_keys P d),
     with_queued (Some (uint before)) (doomed_keys P d)
       (touch_prs (length (filter P (db_prs d)))
         (d\<lparr>db_prs := filter (\<lambda>p. \<not> P p) (db_prs d)\<rparr>)))"
proof -
  have live: "collect_results (map integer live) = Inr (map uint live)"
    using fit(3) by (induction live) simp_all
  have "deleted_pr_keys (filter P (db_prs d)) = Inr (doomed_keys P d)"
    using delete_prs_where_ok [OF ok] by simp
  then have "retain_prs_on r live before d =
    (Inr (doomed_keys P d), with_queued (Some (uint before)) (doomed_keys P d)
       (touch_prs (length (filter P (db_prs d)))
         (d\<lparr>db_prs := filter (\<lambda>p. \<not> P p) (db_prs d)\<rparr>)))"
    using fit live doomed_keys_ok(3) [OF ok, of P]
    by (simp add: retain_prs_on_def andthen_def delete_prs_where_def Let_def queue_retirements_ok
        fence_of_def P_def unlisted_def [abs_def])
  then show ?thesis by (simp add: retain_prs_def transaction_Inr)
qed

lemma unlisted_doomed:
  assumes "prs_ok d"
  shows "k \<in> set (doomed_keys (unlisted r live before) d) \<longleftrightarrow>
    (\<exists>pr. pr_table d k = Some pr \<and> pk_repository k = r \<and> pr_synced_at pr < before \<and>
       pk_number k \<notin> set live)"
proof -
  have row: "unlisted r live before p \<longleftrightarrow>
      pk_repository (row_key p) = r \<and> pr_synced_at pr < before \<and> pk_number (row_key p) \<notin> set live"
    if "p \<in> set (db_prs d)" "pr_from_row p = Inr pr" for p pr
  proof -
    have "written_pr p" using that assms by (simp add: prs_ok_def)
    then obtain q where q: "pr_from_row p = Inr q" "w_repository_id p = uint (pr_repository_id q)"
        "w_number p = uint (pr_number q)" "w_synced_at p = uint (pr_synced_at q)"
      by (rule written_pr_read)
    have "uint n \<in> uint ` set live \<longleftrightarrow> n \<in> set live" for n :: u64
      by (simp add: inj_image_mem_iff inj_on_def word_uint_eq_iff)
    with q that show ?thesis
      by (auto simp: unlisted_def row_key_def word_less_def word_uint_eq_iff)
  qed
  show ?thesis
  proof
    assume "k \<in> set (doomed_keys (unlisted r live before) d)"
    then obtain p where p: "p \<in> set (db_prs d)" "unlisted r live before p" "k = row_key p"
      using doomed_keys_ok(4) [OF assms] by auto
    with pr_table_rows [OF assms p(1)] row [OF p(1)] show "\<exists>pr. pr_table d k = Some pr \<and>
        pk_repository k = r \<and> pr_synced_at pr < before \<and> pk_number k \<notin> set live" by auto
  next
    assume "\<exists>pr. pr_table d k = Some pr \<and> pk_repository k = r \<and> pr_synced_at pr < before \<and>
       pk_number k \<notin> set live"
    then obtain pr p where pr: "pk_repository k = r" "pr_synced_at pr < before"
        "pk_number k \<notin> set live" and p: "p \<in> set (db_prs d)" "w_id p = display_pr_key k"
        "pr_from_row p = Inr pr"
      unfolding pr_table_Some [OF assms] by blast
    have "written_pr p" using p assms by (simp add: prs_ok_def)
    then have "row_key p = k" using written_row_key(1) p(2) by simp
    with pr p row [OF p(1) p(3)] doomed_keys_ok(4) [OF assms]
    show "k \<in> set (doomed_keys (unlisted r live before) d)" by blast
  qed
qed


section \<open>Repositories\<close>

definition repo_table :: "db \<Rightarrow> u64 \<Rightarrow> repo_record option" where
  "repo_table d r =
     (case find (\<lambda>x. x_repository_id x = uint r) (db_repos d) of
        None \<Rightarrow> None
      | Some x \<Rightarrow> (case repo_from_row x of Inl _ \<Rightarrow> None | Inr rec \<Rightarrow> Some rec))"

lemma row_of_repo_simps:
  assumes "row_of_repo r = Inr x"
  shows "x_repository_id x = uint (rr_repository_id r)"
    and "x_installation_id x = uint (rr_installation_id r)"
    and "x_synced_at x = uint (rr_synced_at r)"
  using assms by (auto simp: row_of_repo_def bind_result_Inr integer_Inr)

lemma written_repo_read:
  assumes "written_repo x"
  obtains r where "repo_from_row x = Inr r" "x_repository_id x = uint (rr_repository_id r)"
    "x_installation_id x = uint (rr_installation_id r)" "x_synced_at x = uint (rr_synced_at r)"
    "repo_fits r"
  using assms repo_from_row_of_repo row_of_repo_simps row_of_repo_fits
  by (metis written_repo_def)

lemma repo_table_Some:
  assumes "prs_ok d"
  shows "repo_table d r = Some rec \<longleftrightarrow>
    (\<exists>x\<in>set (db_repos d). x_repository_id x = uint r \<and> repo_from_row x = Inr rec)"
proof (cases "find (\<lambda>x. x_repository_id x = uint r) (db_repos d)")
  case None
  then have "\<forall>x\<in>set (db_repos d). x_repository_id x \<noteq> uint r" by (auto simp: find_None_iff)
  with None show ?thesis by (auto simp: repo_table_def)
next
  case (Some x)
  then have x: "x \<in> set (db_repos d)" "x_repository_id x = uint r" by (auto simp: find_Some_iff)
  have "y = x" if "y \<in> set (db_repos d)" "x_repository_id y = uint r" for y
    using assms x that by (auto simp: prs_ok_def distinct_map inj_on_def)
  then have "(\<exists>y\<in>set (db_repos d). x_repository_id y = uint r \<and> repo_from_row y = Inr rec) \<longleftrightarrow>
      repo_from_row x = Inr rec"
    using x by blast
  with Some show ?thesis by (simp add: repo_table_def split: sum.splits)
qed

lemma repo_table_id: "prs_ok d \<Longrightarrow> repo_table d r = Some rec \<Longrightarrow> rr_repository_id rec = r \<and> fits r"
proof -
  assume ok: "prs_ok d" and "repo_table d r = Some rec"
  then obtain x where x: "x \<in> set (db_repos d)" "x_repository_id x = uint r" "repo_from_row x = Inr rec"
    by (auto simp: repo_table_Some)
  with ok have "written_repo x" by (simp add: prs_ok_def)
  then obtain q where q: "repo_from_row x = Inr q" "x_repository_id x = uint (rr_repository_id q)"
    "repo_fits q" by (rule written_repo_read)
  from q x have "q = rec" "uint (rr_repository_id q) = uint r" by simp_all
  then have "q = rec" "rr_repository_id rec = r" by (simp_all only: word_uint_eq_iff)
  with q(3) show ?thesis by (auto simp: repo_fits_def)
qed

lemma known_repo_table: "prs_ok d \<Longrightarrow> known_repo d r \<longleftrightarrow> repo_table d r \<noteq> None"
proof -
  assume ok: "prs_ok d"
  have "\<exists>rec. repo_from_row x = Inr rec" if "x \<in> set (db_repos d)" for x
    using that ok written_repo_read by (metis prs_ok_def)
  then have "known_repo d r \<longleftrightarrow> (\<exists>rec. repo_table d r = Some rec)"
    unfolding known_repo_def repo_table_Some [OF ok] image_iff by metis
  then show ?thesis by auto
qed

lemma get_repo_table:
  assumes "prs_ok d" "fits r"
  shows "get_repo r d = (Inr (repo_table d r), d)"
proof (cases "filter (\<lambda>x. x_repository_id x = uint r) (db_repos d)")
  case Nil
  with assms show ?thesis by (simp add: get_repo_def andthen_def repo_table_def find_filter)
next
  case (Cons x xs)
  then have "x \<in> set (db_repos d)" by (metis filter_eq_Cons_iff in_set_conv_decomp)
  with assms have "written_repo x" by (simp add: prs_ok_def)
  then obtain rec where "repo_from_row x = Inr rec" by (rule written_repo_read)
  with Cons assms show ?thesis by (simp add: get_repo_def andthen_def repo_table_def find_filter)
qed

definition put_repo :: "repo_row \<Rightarrow> repo_row list \<Rightarrow> repo_row list" where
  "put_repo row rows =
     (if \<exists>r\<in>set rows. x_repository_id r = x_repository_id row
      then map (\<lambda>r. if x_repository_id r = x_repository_id row then row else r) rows
      else rows @ [row])"

lemma put_repo_ids: "map x_repository_id (put_repo row rows) =
    (if x_repository_id row \<in> x_repository_id ` set rows then map x_repository_id rows
     else map x_repository_id rows @ [x_repository_id row])"
  by (auto simp: put_repo_def image_iff) metis

lemma set_put_repo:
  "set (put_repo row rows) = insert row {r \<in> set rows. x_repository_id r \<noteq> x_repository_id row}"
  by (auto simp: put_repo_def)

lemma upsert_repo_ok:
  assumes ok: "prs_ok d" and fit: "repo_fits r"
  shows "\<exists>d'. upsert_repo r d = (Inr (), d') \<and> prs_ok d' \<and>
    repo_table d' = (repo_table d)(rr_repository_id r \<mapsto> r) \<and> db_prs d' = db_prs d \<and>
    db_retirements d' = db_retirements d \<and>
    db_retirement_sequence d' = db_retirement_sequence d \<and> db_pr_revision d' = db_pr_revision d"
proof -
  obtain row where row: "row_of_repo r = Inr row" using fit row_of_repo_fits by blast
  let ?d = "touch_repos 1 (d\<lparr>db_repos := put_repo row (db_repos d)\<rparr>)"
  have run: "upsert_repo r d = (Inr (), ?d)"
    using row by (simp add: upsert_repo_def put_repo_row_def put_repo_def andthen_def)
  have w: "written_repo row" using row by (auto simp: written_repo_def)
  have fk: "x_repository_id ` set (db_repos d) \<subseteq> x_repository_id ` set (put_repo row (db_repos d))"
    by (auto simp: set_put_repo)
  have ok': "prs_ok ?d"
  proof -
    have "w_repository_id ` set (db_prs d) \<subseteq> x_repository_id ` set (put_repo row (db_repos d))"
      using ok fk unfolding prs_ok_def by blast
    with ok w show ?thesis unfolding prs_ok_def by (simp add: put_repo_ids) (simp add: set_put_repo)
  qed
  have "repo_table ?d k = Some rec \<longleftrightarrow> ((repo_table d)(rr_repository_id r \<mapsto> r)) k = Some rec" for k rec
    unfolding repo_table_Some [OF ok']
    using ok repo_from_row_of_repo [OF row] row_of_repo_simps [OF row]
    by (auto simp: set_put_repo repo_table_Some word_uint_eq_iff)
  then have "repo_table ?d = (repo_table d)(rr_repository_id r \<mapsto> r)"
    by (intro ext) (rule option_eqI)
  with run ok' show ?thesis by simp
qed

lemma pr_table_rows_only: "db_prs d' = db_prs d \<Longrightarrow> pr_table d' = pr_table d"
  by (auto simp: pr_table_def)

lemma upsert_repos_ok:
  assumes "prs_ok d" "\<forall>r\<in>set repos. repo_fits r"
  shows "\<exists>d'. each_step upsert_repo repos d = (Inr (), d') \<and> prs_ok d' \<and>
    repo_table d' = fold (\<lambda>r t. t(rr_repository_id r \<mapsto> r)) repos (repo_table d) \<and>
    db_prs d' = db_prs d \<and> db_retirements d' = db_retirements d \<and>
    db_retirement_sequence d' = db_retirement_sequence d \<and> db_pr_revision d' = db_pr_revision d"
  using assms
proof (induction repos arbitrary: d)
  case Nil
  then show ?case by simp
next
  case (Cons r rs)
  from upsert_repo_ok [of d r] Cons.prems obtain d1 where d1: "upsert_repo r d = (Inr (), d1)"
    "prs_ok d1" "repo_table d1 = (repo_table d)(rr_repository_id r \<mapsto> r)" "db_prs d1 = db_prs d"
    "db_retirements d1 = db_retirements d" "db_retirement_sequence d1 = db_retirement_sequence d"
    "db_pr_revision d1 = db_pr_revision d" by auto
  have "\<forall>r\<in>set rs. repo_fits r" using Cons.prems(2) by simp
  from Cons.IH [OF d1(2) this] obtain d2 where d2: "each_step upsert_repo rs d1 = (Inr (), d2)" "prs_ok d2"
    "repo_table d2 = fold (\<lambda>r t. t(rr_repository_id r \<mapsto> r)) rs (repo_table d1)"
    "db_prs d2 = db_prs d1" "db_retirements d2 = db_retirements d1"
    "db_retirement_sequence d2 = db_retirement_sequence d1" "db_pr_revision d2 = db_pr_revision d1"
    by blast
  show ?case by (rule exI [of _ d2]) (simp add: d1 d2 del: fun_upd_apply)
qed


section \<open>Repositories that left\<close>

definition under :: "(repo_row \<Rightarrow> bool) \<Rightarrow> db \<Rightarrow> pr_row \<Rightarrow> bool" where
  "under sel d p \<longleftrightarrow> (\<exists>x\<in>set (db_repos d). sel x \<and> x_repository_id x = w_repository_id p)"

definition without_repos :: "(repo_row \<Rightarrow> bool) \<Rightarrow> u64 option \<Rightarrow> db \<Rightarrow> db" where
  "without_repos sel fence d =
     with_queued (fence_of fence) (doomed_keys (under sel d) d)
       (touch_repos (length (filter sel (db_repos d)))
         ((touch_prs (length (filter (under sel d) (db_prs d)))
            (d\<lparr>db_prs := filter (\<lambda>p. \<not> under sel d p) (db_prs d)\<rparr>))
          \<lparr>db_repos := filter (\<lambda>x. \<not> sel x) (db_repos d)\<rparr>))"

lemma delete_repositories_run:
  assumes "prs_ok d" "\<forall>b. fence = Some b \<longrightarrow> fits b"
  shows "delete_repositories_where sel fence d =
    (Inr (doomed_keys (under sel d) d), without_repos sel fence d)"
proof -
  have "deleted_pr_keys (filter (under sel d) (db_prs d)) = Inr (doomed_keys (under sel d) d)"
    using delete_prs_where_ok [OF assms(1)] by simp
  with assms doomed_keys_ok(3) [OF assms(1), of "under sel d"] show ?thesis
    by (simp add: delete_repositories_where_def andthen_def delete_prs_where_def Let_def
        delete_repos_where_def queue_retirements_ok without_repos_def under_def [abs_def])
qed

lemma prs_ok_without_repos:
  assumes "prs_ok d"
  shows "prs_ok (without_repos sel fence d)"
proof -
  have "w_repository_id p \<in> x_repository_id ` {x \<in> set (db_repos d). \<not> sel x}"
    if "p \<in> set (db_prs d)" "\<not> under sel d p" for p
  proof -
    from that assms obtain x where "x \<in> set (db_repos d)" "w_repository_id p = x_repository_id x"
      unfolding prs_ok_def by blast
    with that show ?thesis by (auto simp: under_def)
  qed
  then show ?thesis
    using assms by (auto simp: without_repos_def prs_ok_def distinct_map_filter)
qed

text \<open>A selection of repository rows read on their records.\<close>

definition selects :: "db \<Rightarrow> (repo_row \<Rightarrow> bool) \<Rightarrow> (repo_record \<Rightarrow> bool) \<Rightarrow> bool" where
  "selects d sel S \<longleftrightarrow> (\<forall>x\<in>set (db_repos d). \<forall>rec. repo_from_row x = Inr rec \<longrightarrow> sel x = S rec)"

lemma under_iff:
  assumes ok: "prs_ok d" and sel: "selects d sel S" and p: "p \<in> set (db_prs d)"
  shows "under sel d p \<longleftrightarrow> (\<exists>rec. repo_table d (pk_repository (row_key p)) = Some rec \<and> S rec)"
proof -
  have "written_pr p" using ok p by (simp add: prs_ok_def)
  then have r: "w_repository_id p = uint (pk_repository (row_key p))"
    by (rule written_pr_read) (simp add: row_key_def)
  have "\<exists>rec. repo_from_row x = Inr rec" if "x \<in> set (db_repos d)" for x
    using that ok written_repo_read by (metis prs_ok_def)
  with sel r show ?thesis
    unfolding under_def repo_table_Some [OF ok] selects_def by metis
qed

lemma without_repos_tables:
  assumes ok: "prs_ok d" and sel: "selects d sel S"
  shows "repo_table (without_repos sel fence d) =
      (\<lambda>r. case repo_table d r of None \<Rightarrow> None | Some rec \<Rightarrow> if S rec then None else Some rec)"
    and "pr_table (without_repos sel fence d) =
      (\<lambda>k. case repo_table d (pk_repository k) of
         None \<Rightarrow> None | Some rec \<Rightarrow> if S rec then None else pr_table d k)"
    and "set (doomed_keys (under sel d) d) =
      {k \<in> dom (pr_table d). \<exists>rec. repo_table d (pk_repository k) = Some rec \<and> S rec}"
proof -
  let ?d = "without_repos sel fence d"
  have ok': "prs_ok ?d" by (rule prs_ok_without_repos [OF ok])
  have "repo_table ?d r = Some rec \<longleftrightarrow> repo_table d r = Some rec \<and> \<not> S rec" for r rec
    unfolding repo_table_Some [OF ok] repo_table_Some [OF ok'] using sel
    by (auto simp: without_repos_def selects_def)
  then show "repo_table ?d =
      (\<lambda>r. case repo_table d r of None \<Rightarrow> None | Some rec \<Rightarrow> if S rec then None else Some rec)"
    by (intro ext option_eqI) (auto split: option.splits if_splits)
  have doomed: "k \<in> set (doomed_keys (under sel d) d) \<longleftrightarrow>
      k \<in> dom (pr_table d) \<and> (\<exists>rec. repo_table d (pk_repository k) = Some rec \<and> S rec)" for k
  proof -
    have "k \<in> dom (pr_table d) \<longleftrightarrow> (\<exists>p\<in>set (db_prs d). row_key p = k)"
    proof
      assume "k \<in> dom (pr_table d)"
      then obtain p where p: "p \<in> set (db_prs d)" "w_id p = display_pr_key k"
        by (auto simp: pr_table_Some [OF ok])
      with ok written_row_key(1) [of p] have "row_key p = k" by (simp add: prs_ok_def)
      with p show "\<exists>p\<in>set (db_prs d). row_key p = k" by blast
    qed (use pr_table_rows [OF ok] in fastforce)
    with under_iff [OF ok sel] show ?thesis
      unfolding doomed_keys_ok(4) [OF ok] by (auto simp: image_iff)
  qed
  then show "set (doomed_keys (under sel d) d) =
      {k \<in> dom (pr_table d). \<exists>rec. repo_table d (pk_repository k) = Some rec \<and> S rec}" by blast
  have known: "repo_table d (pk_repository k) \<noteq> None" if "pr_table d k = Some pr" for k pr
  proof -
    from that obtain p where p: "p \<in> set (db_prs d)" "w_id p = display_pr_key k"
      unfolding pr_table_Some [OF ok] by blast
    then have w: "written_pr p" using ok by (simp add: prs_ok_def)
    then have "row_key p = k" using written_row_key(1) p(2) by simp
    moreover have "w_repository_id p = uint (pk_repository (row_key p))"
      using w by (rule written_pr_read) (simp add: row_key_def)
    moreover have "w_repository_id p \<in> x_repository_id ` set (db_repos d)"
      using ok p(1) unfolding prs_ok_def by blast
    ultimately have "known_repo d (pk_repository k)" by (simp add: known_repo_def)
    then show ?thesis using known_repo_table [OF ok] by simp
  qed
  have "pr_table ?d = (\<lambda>k. if k \<in> set (doomed_keys (under sel d) d) then None else pr_table d k)"
    unfolding pr_table_without [OF ok, symmetric]
    by (rule pr_table_rows_only) (simp add: without_repos_def)
  moreover have "(if k \<in> set (doomed_keys (under sel d) d) then None else pr_table d k) =
      (case repo_table d (pk_repository k) of
         None \<Rightarrow> None | Some rec \<Rightarrow> if S rec then None else pr_table d k)" for k
  proof (cases "pr_table d k")
    case None
    then show ?thesis by (simp split: option.splits)
  next
    case (Some pr)
    with known obtain rec where rec: "repo_table d (pk_repository k) = Some rec" by blast
    with Some have "k \<in> set (doomed_keys (under sel d) d) \<longleftrightarrow> S rec"
      unfolding doomed by (simp add: dom_def)
    with rec show ?thesis by (simp only: option.case)
  qed
  ultimately show "pr_table ?d = (\<lambda>k. case repo_table d (pk_repository k) of
         None \<Rightarrow> None | Some rec \<Rightarrow> if S rec then None else pr_table d k)"
    by (simp only:)
qed

lemma selects_rows:
  assumes "prs_ok d"
    and "\<And>x rec. x_repository_id x = uint (rr_repository_id rec) \<Longrightarrow>
      x_installation_id x = uint (rr_installation_id rec) \<Longrightarrow>
      x_synced_at x = uint (rr_synced_at rec) \<Longrightarrow> sel x = S rec"
  shows "selects d sel S"
  unfolding selects_def
proof (intro ballI allI impI)
  fix x rec
  assume x: "x \<in> set (db_repos d)" "repo_from_row x = Inr rec"
  then have "written_repo x" using assms(1) by (simp add: prs_ok_def)
  then show "sel x = S rec" by (rule written_repo_read) (use x assms(2) in auto)
qed

definition left_sel :: "u64 \<Rightarrow> u64 list \<Rightarrow> u64 \<Rightarrow> repo_row \<Rightarrow> bool" where
  "left_sel i live before x \<longleftrightarrow> x_installation_id x = uint i \<and> x_synced_at x < uint before \<and>
     (map uint live = [] \<or> x_repository_id x \<notin> set (map uint live))"

lemma uint_image_mem: "uint n \<in> uint ` A \<longleftrightarrow> n \<in> A" for n :: u64
  by (simp add: inj_image_mem_iff inj_on_def word_uint_eq_iff)

lemma selects_left:
  "prs_ok d \<Longrightarrow> selects d (left_sel i live before)
     (\<lambda>rec. rr_installation_id rec = i \<and> rr_synced_at rec < before \<and> rr_repository_id rec \<notin> set live)"
  by (rule selects_rows) (auto simp: left_sel_def uint_image_mem word_less_def word_uint_eq_iff)

lemma selects_installation:
  "prs_ok d \<Longrightarrow> selects d (\<lambda>x. x_installation_id x = uint i) (\<lambda>rec. rr_installation_id rec = i)"
  by (rule selects_rows) (auto simp: word_uint_eq_iff)

lemma purge_run:
  assumes "prs_ok d" "fits i"
  shows "purge_installation i d =
    (Inr (doomed_keys (under (\<lambda>x. x_installation_id x = uint i) d) d),
     without_repos (\<lambda>x. x_installation_id x = uint i) None d)"
  using assms by (simp add: purge_installation_def transaction_Inr andthen_def delete_repositories_run)

lemma replace_run:
  assumes "each_step upsert_repo repos d = (Inr (), d1)" "prs_ok d1" "fits i" "fits before"
    "\<forall>r\<in>set repos. repo_fits r"
  defines "sel \<equiv> left_sel i (map rr_repository_id repos) before"
  shows "replace_installation_repos i repos before d =
    (Inr (doomed_keys (under sel d1) d1), without_repos sel (Some before) d1)"
proof -
  have "collect_results (map integer (map rr_repository_id repos)) =
      Inr (map uint (map rr_repository_id repos))"
    using assms(5) by (induction repos) (simp_all add: repo_fits_def)
  then have "retain_repos_on i (map rr_repository_id repos) before d1 =
      delete_repositories_where sel (Some before) d1"
    using assms(3,4) unfolding retain_repos_on_def
    by (simp add: andthen_def sel_def left_sel_def [abs_def] del: map_map list.map_comp)
  with assms(1-4) show ?thesis
    by (simp add: replace_installation_repos_def transaction_Inr andthen_def delete_repositories_run)
qed

section \<open>Every operation keeps the invariant\<close>

lemma outbox_frame [simp]:
  "outbox_ok (d\<lparr>db_prs := ps\<rparr>) = outbox_ok d" "outbox_ok (d\<lparr>db_repos := rs\<rparr>) = outbox_ok d"
  "outbox_ok (touch_prs n d) = outbox_ok d" "outbox_ok (touch_repos n d) = outbox_ok d"
  by (simp_all add: outbox_ok_def)

lemma batches_frame [simp]:
  "batches_ok (d\<lparr>db_prs := ps\<rparr>) = batches_ok d" "batches_ok (d\<lparr>db_repos := rs\<rparr>) = batches_ok d"
  "batches_ok (touch_prs n d) = batches_ok d" "batches_ok (touch_repos n d) = batches_ok d"
  "batches_ok (with_queued f ks d) = batches_ok d"
  "batches_ok (d\<lparr>db_retirements := ys\<rparr>) = batches_ok d"
  by (simp_all add: batches_ok_def)

lemma keeps_upsert_pr [keeps]: "preserves db_ok (upsert_pr pr)"
  unfolding upsert_pr_def
proof (rule preserves_lift_andthen)
  fix row
  assume "row_of_pr pr = Inr row"
  then have w: "written_pr row" by (auto simp: written_pr_def)
  show "preserves db_ok (insert_pr_row row)"
    unfolding preserves_def
  proof (intro allI impI)
    fix d
    assume d: "db_ok d"
    show "db_ok (snd (insert_pr_row row d))"
    proof (cases "w_repository_id row \<in> x_repository_id ` set (db_repos d)")
      case True
      with d w insert_pr_row_ok [of d row] prs_ok_put_row [of d row] show ?thesis
        by (simp add: db_ok_def)
    next
      case False
      then have "insert_pr_row row d = (Inl foreign_key_failure, d)"
        by (simp add: insert_pr_row_def) (metis image_eqI)
      with d show ?thesis by simp
    qed
  qed
qed

lemma keeps_delete_pr [keeps]: "preserves db_ok (delete_pr key)"
  unfolding preserves_def delete_pr_def Let_def
  by (simp add: db_ok_def prs_ok_filter)

lemma keeps_upsert_repo [keeps]: "preserves db_ok (upsert_repo r)"
  unfolding preserves_def
proof (intro allI impI)
  fix d
  assume d: "db_ok d"
  show "db_ok (snd (upsert_repo r d))"
  proof (cases "row_of_repo r")
    case (Inl e)
    with d show ?thesis by (simp add: upsert_repo_def andthen_def)
  next
    case (Inr row)
    then have "repo_fits r" using row_of_repo_fits by blast
    with d upsert_repo_ok [of d r] have "prs_ok (snd (upsert_repo r d))"
      by (auto simp: db_ok_def)
    with d Inr show ?thesis
      by (simp add: db_ok_def upsert_repo_def andthen_def put_repo_row_def)
  qed
qed


lemma preserves_transactionI:
  assumes "\<And>d a d'. P d \<Longrightarrow> m d = (Inr a, d') \<Longrightarrow> P d'"
  shows "preserves P (transaction m)"
  unfolding preserves_def
proof (intro allI impI)
  fix d
  assume d: "P d"
  show "P (snd (transaction m d))"
  proof (cases "transaction m d")
    case (Pair r d')
    show ?thesis
    proof (cases r)
      case (Inl e)
      with Pair transaction_Inl [of m d e d'] d show ?thesis by simp
    next
      case (Inr a)
      with Pair have "transaction m d = (Inr a, d')" by simp
      with assms [OF d] show ?thesis by (metis transaction_Inr snd_conv)
    qed
  qed
qed

lemma integer_collect: "collect_results (map integer xs) = Inr is \<Longrightarrow> \<forall>x\<in>set xs. fits x"
proof (induction xs arbitrary: "is")
  case Nil
  then show ?case by simp
next
  case (Cons x xs)
  then show ?case by (auto simp: bind_result_Inr integer_Inr fits_def)
qed

lemma lift_Inr: "andthen (lift r) f d = (Inr b, d') \<longleftrightarrow> (\<exists>a. r = Inr a \<and> f a d = (Inr b, d'))"
  by (auto simp: andthen_Inr_iff)

lemma keeps_retain_prs [keeps]: "preserves db_ok (retain_prs r live before)"
  unfolding retain_prs_def
proof (rule preserves_transactionI)
  fix d keys d'
  assume d: "db_ok d" and run: "retain_prs_on r live before d = (Inr keys, d')"
  then have f: "fits r" "fits before" "\<forall>n\<in>set live. fits n"
    using integer_collect by (auto simp: retain_prs_on_def lift_Inr integer_Inr fits_def)
  have ok: "prs_ok d" using d by (simp add: db_ok_def)
  have "retain_prs r live before d = (Inr keys, d')"
    using run by (simp add: retain_prs_def transaction_Inr)
  with retain_prs_run [OF ok f] show "db_ok d'"
    using d prs_ok_filter [OF ok] by (auto simp: db_ok_def intro!: outbox_with_queued)
qed

lemma db_ok_without_repos: "db_ok d \<Longrightarrow> db_ok (without_repos sel fence d)"
proof -
  assume d: "db_ok d"
  have "prs_ok (without_repos sel fence d)" using d prs_ok_without_repos by (simp add: db_ok_def)
  moreover have "outbox_ok (without_repos sel fence d)"
    unfolding without_repos_def
    by (rule outbox_with_queued) (use d in \<open>auto simp: db_ok_def fence_of_def\<close>)
  ultimately show ?thesis using d by (simp add: db_ok_def without_repos_def)
qed

lemma keeps_purge [keeps]: "preserves db_ok (purge_installation i)"
  unfolding purge_installation_def
proof (rule preserves_transactionI)
  fix d keys d'
  assume d: "db_ok d" and run: "andthen (lift (integer i)) (\<lambda>i.
      delete_repositories_where (\<lambda>r. x_installation_id r = i) None) d = (Inr keys, d')"
  then have "fits i" by (auto simp: lift_Inr integer_Inr fits_def)
  moreover have "purge_installation i d = (Inr keys, d')"
    using run by (simp add: purge_installation_def transaction_Inr)
  ultimately show "db_ok d'" using d purge_run [of d i] db_ok_without_repos by (auto simp: db_ok_def)
qed

lemma upsert_repo_fits: "upsert_repo r d = (Inr (), d') \<Longrightarrow> repo_fits r"
  using row_of_repo_fits by (auto simp: upsert_repo_def lift_Inr)

lemma each_upsert_repo_fits:
  "each_step upsert_repo repos d = (Inr (), d') \<Longrightarrow> \<forall>r\<in>set repos. repo_fits r"
  by (induction repos arbitrary: d) (auto simp: andthen_Inr_iff dest: upsert_repo_fits)

lemma keeps_replace [keeps]: "preserves db_ok (replace_installation_repos i repos before)"
  unfolding replace_installation_repos_def
proof (rule preserves_transactionI)
  fix d keys d'
  assume d: "db_ok d" and run: "andthen (each_step upsert_repo repos) (\<lambda>_.
      retain_repos_on i (map rr_repository_id repos) before) d = (Inr keys, d')"
  then obtain d1 where d1: "each_step upsert_repo repos d = (Inr (), d1)"
    and r: "retain_repos_on i (map rr_repository_id repos) before d1 = (Inr keys, d')"
    by (auto simp: andthen_Inr_iff)
  have f: "fits i" "fits before" using r by (auto simp: retain_repos_on_def lift_Inr integer_Inr fits_def)
  have ok1: "db_ok d1"
    using preserves_each_step [of db_ok upsert_repo repos, OF keeps_upsert_repo] d d1
    by (auto simp: preserves_def)
  have "replace_installation_repos i repos before d = (Inr keys, d')"
    using run by (simp add: replace_installation_repos_def transaction_Inr)
  with replace_run [OF d1 _ f each_upsert_repo_fits [OF d1]] ok1 show "db_ok d'"
    using db_ok_without_repos [OF ok1] by (auto simp: db_ok_def)
qed

lemma keeps_acknowledge [keeps]: "preserves db_ok (acknowledge_retirements n)"
  unfolding acknowledge_retirements_def
proof (intro preserves_lift_andthen preserves_put)
  fix i d
  assume "db_ok d"
  then show "db_ok (d\<lparr>db_retirements := filter (\<lambda>y. \<not> y_id y \<le> i) (db_retirements d)\<rparr>)"
    by (auto simp: db_ok_def prs_ok_def outbox_ok_def sorted_wrt_map sorted_wrt_filter)
qed

section \<open>Batches\<close>

lemma keeps_start_batch [keeps]: "preserves db_ok (start_batch b)"
  unfolding start_batch_def
proof (intro preserves_lift_andthen preserves_put)
  fix row d
  assume "row_of_running b = Inr row" "db_ok d"
  then show "db_ok (if \<exists>n\<in>set (db_running d). n_batch_id n = n_batch_id row then d
      else d\<lparr>db_running := db_running d @ [row]\<rparr>)"
    by (auto simp: db_ok_def prs_ok_def outbox_ok_def batches_ok_def written_running_def)
qed

lemma keeps_unlist [keeps]: "preserves db_ok (unlist_batch b)"
  unfolding unlist_batch_def
  by (rule preserves_put)
    (auto simp: db_ok_def prs_ok_def outbox_ok_def batches_ok_def distinct_map_filter)

text \<open>The rows of a batch's targets, numbered in batch order.\<close>

lemma insert_targets_run:
  "each_step (insert_target b) pts d = (Inr (), d') \<Longrightarrow>
   \<exists>rows. map (\<lambda>pt. row_of_target b (fst pt) (snd pt)) pts = map Inr rows \<and>
     d' = d\<lparr>db_batch_targets := db_batch_targets d @ rows\<rparr>"
proof (induction pts arbitrary: d)
  case Nil
  then show ?case by simp
next
  case (Cons pt pts)
  then obtain row where row: "row_of_target b (fst pt) (snd pt) = Inr row"
    and rest: "each_step (insert_target b) pts (d\<lparr>db_batch_targets := db_batch_targets d @ [row]\<rparr>) = (Inr (), d')"
    by (simp add: andthen_Inr_iff) (auto simp: insert_target_def andthen_Inr_iff)
  from Cons.IH [OF rest] obtain rows where
    rows: "map (\<lambda>pt. row_of_target b (fst pt) (snd pt)) pts = map Inr rows"
      "d' = d\<lparr>db_batch_targets := db_batch_targets d @ [row], 
        db_batch_targets := (db_batch_targets d @ [row]) @ rows\<rparr>" by auto
  show ?case by (rule exI [of _ "row # rows"]) (use row rows in simp)
qed

lemma row_of_target_id: "row_of_target b i t = Inr row \<Longrightarrow> t_batch_id row = b"
  by (auto simp: row_of_target_def bind_result_Inr)


definition recorded :: "db \<Rightarrow> string \<Rightarrow> bool" where
  "recorded d b \<longleftrightarrow> b \<in> b_batch_id ` set (db_batches d)"

lemma recorded_iff: "recorded d b \<longleftrightarrow> (\<exists>x\<in>set (db_batches d). b_batch_id x = b)"
  by (auto simp: recorded_def)

definition unlisted_db :: "string \<Rightarrow> db \<Rightarrow> db" where
  "unlisted_db b d = d\<lparr>db_running := filter (\<lambda>n. n_batch_id n \<noteq> b) (db_running d)\<rparr>"

text \<open>What recording did: the first word stands, and either way the running listing is gone.\<close>

lemma record_batch_cases:
  assumes "record_batch b d = (Inr (), d')"
  obtains (again) "recorded d (bc_batch_id b)" "d' = unlisted_db (bc_batch_id b) d"
  | (first) row rows where "\<not> recorded d (bc_batch_id b)" "row_of_batch b = Inr row"
      "map (\<lambda>pt. row_of_target (bc_batch_id b) (fst pt) (snd pt)) (enumerate 0 (bc_targets b)) = map Inr rows"
      "d' = (unlisted_db (bc_batch_id b) d)\<lparr>db_batches := db_batches d @ [row],
         db_batch_targets := db_batch_targets d @ rows\<rparr>"
proof -
  have split: "record_batch b d = (Inr (), d') \<longleftrightarrow> (\<exists>row. row_of_batch b = Inr row \<and>
     (if recorded d (bc_batch_id b) then d' = unlisted_db (bc_batch_id b) d
      else each_step (insert_target (bc_batch_id b)) (enumerate 0 (bc_targets b))
        ((unlisted_db (bc_batch_id b) d)\<lparr>db_batches := db_batches d @ [row]\<rparr>) = (Inr (), d')))"
    unfolding record_batch_def transaction_Inr
    by (auto simp: andthen_Inr_iff lift_Inr unlist_batch_def recorded_iff unlisted_db_def
        split: if_splits)
  then obtain row where row: "row_of_batch b = Inr row"
    and run: "if recorded d (bc_batch_id b) then d' = unlisted_db (bc_batch_id b) d
      else each_step (insert_target (bc_batch_id b)) (enumerate 0 (bc_targets b))
        ((unlisted_db (bc_batch_id b) d)\<lparr>db_batches := db_batches d @ [row]\<rparr>) = (Inr (), d')"
    using assms by blast
  show ?thesis
  proof (cases "recorded d (bc_batch_id b)")
    case True
    with run again show ?thesis by simp
  next
    case False
    with run insert_targets_run obtain rows where
      "map (\<lambda>pt. row_of_target (bc_batch_id b) (fst pt) (snd pt)) (enumerate 0 (bc_targets b)) = map Inr rows"
      "d' = (unlisted_db (bc_batch_id b) d)\<lparr>db_batches := db_batches d @ [row],
         db_batch_targets := db_batch_targets (unlisted_db (bc_batch_id b) d) @ rows\<rparr>"
      by fastforce
    with False row first show ?thesis by (simp add: unlisted_db_def)
  qed
qed

lemma target_rows_id:
  "map (\<lambda>pt. row_of_target b (fst pt) (snd pt)) pts = map Inr rows \<Longrightarrow> t \<in> set rows \<Longrightarrow> t_batch_id t = b"
proof (induction rows arbitrary: pts)
  case Nil
  then show ?case by simp
next
  case (Cons r rows)
  then show ?case by (cases pts) (auto dest: row_of_target_id)
qed

lemma db_ok_unlisted: "db_ok d \<Longrightarrow> db_ok (unlisted_db b d)"
  using keeps_unlist [of b] by (simp add: preserves_def unlist_batch_def unlisted_db_def)

lemma keeps_record_batch [keeps]: "preserves db_ok (record_batch b)"
  unfolding record_batch_def
proof (rule preserves_transactionI)
  fix d a d'
  assume d: "db_ok d" and run: "andthen (unlist_batch (bc_batch_id b)) (\<lambda>_.
       andthen (lift (row_of_batch b)) (\<lambda>row d.
         if \<exists>x\<in>set (db_batches d). b_batch_id x = bc_batch_id b then (Inr (), d)
         else andthen (put (\<lambda>d. d\<lparr>db_batches := db_batches d @ [row]\<rparr>)) (\<lambda>_.
                each_step (insert_target (bc_batch_id b)) (enumerate 0 (bc_targets b))) d)) d = (Inr a, d')"
  then have "record_batch b d = (Inr (), d')"
    unfolding record_batch_def transaction_Inr by simp
  then show "db_ok d'"
  proof (cases rule: record_batch_cases)
    case again
    with db_ok_unlisted [OF d] show ?thesis by simp
  next
    case (first row rows)
    have id: "b_batch_id row = bc_batch_id b" using first(2) by (auto simp: row_of_batch_def bind_result_Inr)
    have ts: "t_batch_id ` set rows \<subseteq> {bc_batch_id b}" using target_rows_id [OF first(3)] by auto
    from db_ok_unlisted [OF d, of "bc_batch_id b"] first(1,2) id ts show ?thesis
      unfolding first(4) by (auto simp: db_ok_def prs_ok_def outbox_ok_def batches_ok_def
          unlisted_db_def recorded_def written_batch_def)
  qed
qed

lemma unlisted_running: "bc \<notin> n_batch_id ` set (db_running (unlisted_db bc d))"
  by (auto simp: unlisted_db_def)

end
