(* ===== verification/Restate_World.thy ===== *)
theory Restate_World
  imports Github_Step Core_Pr_State Store_Laws
begin

text \<open>
  The world a Restate handler runs in, and how its steps reach it: a journaled step with its
  retry budget, the kinds of store step (\<^verbatim>\<open>apps/restate-service/src/store.rs\<close>), the clock
  (\<^verbatim>\<open>crates/restate-ext/src/clock.rs\<close>) and a GitHub step
  (\<^verbatim>\<open>RestateGithubStep\<close> in \<^verbatim>\<open>github.rs\<close>). The store may be away: each call to it
  meets the next entry of a script of faults. GitHub is a state of its own that a call acts on.
\<close>

section \<open>Kinds of store step\<close>

datatype store_step_kind = SkOrdinary | SkBrief | SkLastChance

record retry_policy =
  rp_initial_delay_ms :: nat
  rp_factor :: nat
  rp_max_delay_ms :: nat
  rp_max_duration_ms :: "nat option"

definition store_retry_policy :: "store_step_kind \<Rightarrow> retry_policy" where
  "store_retry_policy kind =
     \<lparr>rp_initial_delay_ms = 100, rp_factor = 2, rp_max_delay_ms = 5000,
      rp_max_duration_ms =
        (case kind of SkOrdinary \<Rightarrow> Some (5 * 60 * 1000) | SkBrief \<Rightarrow> Some (15 * 1000)
         | SkLastChance \<Rightarrow> None)\<rparr>"

definition github_retry_policy :: retry_policy where
  "github_retry_policy = \<lparr>rp_initial_delay_ms = 1000, rp_factor = 2,
     rp_max_delay_ms = 5 * 60 * 1000, rp_max_duration_ms = Some (30 * 60 * 1000)\<rparr>"

definition read_failure :: "store_step_kind \<Rightarrow> store_error \<Rightarrow> handler_error" where
  "read_failure kind e =
     (case store_class e of
        ScRetryable \<Rightarrow> retry_later (RsStore (display_store_error e))
      | ScTerminal \<Rightarrow>
          (if kind = SkLastChance then retry_later (RsStoreRefusedRecord (display_store_error e))
           else Terminal (display_store_error e)))"

section \<open>A journaled step\<close>

text \<open>
  \<open>ctx.run\<close>: an attempt that fails so as to be retried runs again while the budget lasts, and
  its message is the terminal failure once the budget is spent. The budget is counted in
  attempts: how many a policy allows depends on how long each takes.
\<close>

fun restate_run :: "nat \<Rightarrow> ('w, 'a) handler \<Rightarrow> ('w, string, 'a) eff" where
  "restate_run 0 step w =
     (case step w of
        (Inr a, w') \<Rightarrow> (Inr a, w')
      | (Inl (Terminal m), w') \<Rightarrow> (Inl m, w')
      | (Inl (Retryable m), w') \<Rightarrow> (Inl m, w'))"
| "restate_run (Suc n) step w =
     (case step w of
        (Inr a, w') \<Rightarrow> (Inr a, w')
      | (Inl (Terminal m), w') \<Rightarrow> (Inl m, w')
      | (Inl (Retryable m), w') \<Rightarrow> restate_run n step w')"

text \<open>What every attempt keeps, the step keeps.\<close>

lemma restate_run_keeps:
  assumes "\<And>w. I w w" "\<And>a b c. I a b \<Longrightarrow> I b c \<Longrightarrow> I a c" "\<And>w. I w (snd (step w))"
  shows "I w (snd (restate_run n step w))"
proof (induction n arbitrary: w)
  case 0
  show ?case using assms(3) [of w] by (auto split: prod.splits sum.splits handler_error.splits)
next
  case (Suc n)
  show ?case
    using assms(3) [of w] Suc assms(2)
    by (auto split: prod.splits sum.splits handler_error.splits)
qed

text \<open>A step that succeeds did so in its last attempt, the earlier ones having kept what attempts keep.\<close>

lemma restate_run_Inr:
  assumes "restate_run n step w = (Inr a, w')"
    and "\<And>w. J w w" "\<And>a b c. J a b \<Longrightarrow> J b c \<Longrightarrow> J a c"
    and "\<And>w e w'. step w = (Inl e, w') \<Longrightarrow> J w w'"
  shows "\<exists>w1. J w w1 \<and> step w1 = (Inr a, w')"
  using assms(1)
proof (induction n arbitrary: w)
  case 0
  then show ?case using assms(2) by (auto split: prod.splits sum.splits handler_error.splits)
next
  case (Suc n)
  show ?case
  proof (cases "step w")
    case (Pair r w1)
    show ?thesis
    proof (cases r)
      case (Inr b)
      with Pair Suc.prems assms(2) show ?thesis by auto
    next
      case (Inl e)
      show ?thesis
      proof (cases e)
        case (Terminal m)
        with Pair Inl Suc.prems show ?thesis by simp
      next
        case (Retryable m)
        with Pair Inl Suc.prems have "restate_run n step w1 = (Inr a, w')" by simp
        from Suc.IH [OF this] obtain w2 where "J w1 w2" "step w2 = (Inr a, w')" by blast
        moreover have "J w w1" using assms(4) Pair Inl by blast
        ultimately show ?thesis using assms(3) by blast
      qed
    qed
  qed
qed

section \<open>The world\<close>

record 'g restate_world =
  ow_db :: db
  ow_faults :: "store_error option list"
  ow_remote :: 'g
  ow_times :: "nat \<Rightarrow> u64"
  ow_reads :: nat
  ow_slept :: "u64 list"

text \<open>How many attempts a budget allows after the first.\<close>

record budgets =
  bu_store :: "store_step_kind \<Rightarrow> nat"
  bu_github :: nat

text \<open>A call to the store: the next fault, when there is one, or the operation itself.\<close>

definition store_call :: "'a store_op \<Rightarrow> ('g, 'm) restate_world_scheme \<Rightarrow> (store_error + 'a) \<times> ('g, 'm) restate_world_scheme" where
  "store_call op w =
     (case ow_faults w of
        Some e # rest \<Rightarrow> (Inl e, w\<lparr>ow_faults := rest\<rparr>)
      | _ \<Rightarrow> (case op (ow_db w) of (r, d) \<Rightarrow> (r, w\<lparr>ow_faults := tl (ow_faults w), ow_db := d\<rparr>)))"

definition run_store_step ::
    "budgets \<Rightarrow> store_step_kind \<Rightarrow> 'a store_op \<Rightarrow> (('g, 'm) restate_world_scheme, 'a) handler" where
  "run_store_step bu kind op =
     or_terminal (restate_run (bu_store bu kind) (\<lambda>w.
       case store_call op w of
         (Inl e, w') \<Rightarrow> (Inl (read_failure kind e), w')
       | (Inr a, w') \<Rightarrow> (Inr a, w')))"

text \<open>The host clock: its next reading.\<close>

definition read_clock :: "('g, 'm) restate_world_scheme \<Rightarrow> u64 \<times> ('g, 'm) restate_world_scheme" where
  "read_clock w = (ow_times w (ow_reads w), w\<lparr>ow_reads := ow_reads w + 1\<rparr>)"

definition run_clock_step :: "(('g, 'm) restate_world_scheme, u64) handler" where
  "run_clock_step w = (case read_clock w of (t, w') \<Rightarrow> (Inr t, w'))"

text \<open>A call to GitHub and what the attempt journals; \<open>call\<close> acts on GitHub's own state.\<close>

definition github_attempt ::
    "budgets \<Rightarrow> operation \<Rightarrow> bool \<Rightarrow> ('g \<Rightarrow> (github_error + 'a) \<times> 'g) \<Rightarrow>
     (('g, 'm) restate_world_scheme, string, 'a attempt) eff" where
  "github_attempt bu operation known_resource call =
     restate_run (bu_github bu) (\<lambda>w.
       let (result, g) = call (ow_remote w);
           (now, w1) = read_clock (w\<lparr>ow_remote := g\<rparr>)
       in (journal_github_result result operation known_resource now, w1))"

definition restate_github_step ::
    "budgets \<Rightarrow> string \<Rightarrow> operation \<Rightarrow> bool \<Rightarrow> ('g \<Rightarrow> (github_error + 'a) \<times> 'g) \<Rightarrow>
     (('g, 'm) restate_world_scheme, 'a) github_step" where
  "restate_github_step bu name operation known_resource call =
     \<lparr>gs_name = name,
      gs_attempt = github_attempt bu operation known_resource call,
      gs_sleep_until = (\<lambda>until w.
        let (now, w1) = read_clock w
        in (Inr (), w1\<lparr>ow_slept := ow_slept w1 @ [sat_sub until now]\<rparr>))\<rparr>"

section \<open>What steps leave alone\<close>

text \<open>The part of the world only a handler's own writes change, and the database.\<close>

definition same_db :: "('g, 'm) restate_world_scheme \<Rightarrow> ('g, 'm) restate_world_scheme \<Rightarrow> bool" where
  "same_db w w' \<longleftrightarrow> ow_db w' = ow_db w \<and> restate_world.more w' = restate_world.more w"

definition same_own :: "('g, 'm) restate_world_scheme \<Rightarrow> ('g, 'm) restate_world_scheme \<Rightarrow> bool" where
  "same_own w w' \<longleftrightarrow> restate_world.more w' = restate_world.more w"

lemma same_db_refl [simp]: "same_db w w" and same_own_refl [simp]: "same_own w w"
  by (simp_all add: same_db_def same_own_def)

lemma same_db_trans: "same_db a b \<Longrightarrow> same_db b c \<Longrightarrow> same_db a c"
  and same_own_trans: "same_own a b \<Longrightarrow> same_own b c \<Longrightarrow> same_own a c"
  by (simp_all add: same_db_def same_own_def)

lemma or_terminal_snd [simp]: "snd (or_terminal m w) = snd (m w)"
  by (auto simp: or_terminal_def split: prod.splits sum.splits)

lemma or_terminal_Inr: "or_terminal m w = (Inr a, w') \<longleftrightarrow> m w = (Inr a, w')"
  by (auto simp: or_terminal_def split: prod.splits sum.splits)

lemma run_clock_same: "same_db w (snd (run_clock_step w))"
  by (simp add: run_clock_step_def read_clock_def same_db_def)

lemma github_attempt_same: "same_db w (snd (github_attempt bu op k call w))"
  unfolding github_attempt_def
  by (rule restate_run_keeps [where I = same_db])
    (auto intro: same_db_trans simp: same_db_def read_clock_def Let_def case_prod_unfold)

lemma github_loop_keeps:
  assumes refl: "\<And>w. I w w" and trans: "\<And>a b c. I a b \<Longrightarrow> I b c \<Longrightarrow> I a c"
    and att: "\<And>w. I w (snd (gs_attempt step w))" and sl: "\<And>u w. I w (snd (gs_sleep_until step u w))"
  shows "I w (snd (github_loop step n w))"
proof (induction n arbitrary: w)
  case 0
  show ?case
    using att [of w]
    by (auto simp: andthen_def or_terminal_def split: prod.splits sum.splits attempt.splits)
next
  case (Suc n)
  show ?case
  proof (cases "or_terminal (gs_attempt step) w")
    case (Pair r w1)
    have 1: "I w w1" using att [of w] Pair by (metis or_terminal_snd snd_conv)
    show ?thesis
    proof (cases r)
      case (Inl e)
      with Pair 1 show ?thesis by simp
    next
      case (Inr a)
      show ?thesis
      proof (cases a)
        case (AtSettled s)
        with Pair Inr 1 show ?thesis by simp
      next
        case (AtRateLimited until resp)
        obtain r2 w2 where s: "or_terminal (gs_sleep_until step until) w1 = (r2, w2)" by fastforce
        have 2: "I w1 w2" using sl [of w1 until] s by (metis or_terminal_snd snd_conv)
        have "I w1 (snd (andthen (or_terminal (gs_sleep_until step until)) (\<lambda>_. github_loop step n) w1))"
          using 2 s Suc.IH [of w2] trans by (cases r2) (auto simp: andthen_def)
        with Pair Inr AtRateLimited 1 trans show ?thesis by simp
      qed
    qed
  qed
qed

lemma run_github_same:
  fixes w :: "('g, 'm) restate_world_scheme"
  shows "same_db w (snd (run_github_step (restate_github_step bu name op k call) w))"
  unfolding run_github_step_def
proof (rule github_loop_keeps [where I = same_db])
  fix w :: "('g, 'm) restate_world_scheme"
  show "same_db w (snd (gs_attempt (restate_github_step bu name op k call) w))"
    using github_attempt_same by (simp add: restate_github_step_def)
  fix u
  show "same_db w (snd (gs_sleep_until (restate_github_step bu name op k call) u w))"
    by (simp add: restate_github_step_def Let_def case_prod_unfold read_clock_def same_db_def)
qed (auto intro: same_db_trans)

lemma store_call_own: "same_own w (snd (store_call op w))"
  by (auto simp: store_call_def same_own_def split: list.splits option.splits prod.splits)

lemma run_store_own: "same_own w (snd (run_store_step bu kind op w))"
  unfolding run_store_step_def or_terminal_snd
proof (rule restate_run_keeps [where I = same_own])
  fix w
  show "same_own w (snd (case store_call op w of (Inl e, w') \<Rightarrow> (Inl (read_failure kind e), w')
      | (Inr a, w') \<Rightarrow> (Inr a, w')))"
    using store_call_own [of w op] by (auto split: prod.splits sum.splits)
qed (auto intro: same_own_trans)

text \<open>A store step that succeeds is its operation run once on the database it found.\<close>

lemma run_store_Inr:
  assumes "run_store_step bu kind op w = (Inr a, w')"
    and undo: "\<And>d e d'. op d = (Inl e, d') \<Longrightarrow> d' = d"
  shows "op (ow_db w) = (Inr a, ow_db w') \<and> same_own w w'"
proof -
  let ?step = "\<lambda>w. case store_call op w of (Inl e, w') \<Rightarrow> (Inl (read_failure kind e), w')
      | (Inr a, w') \<Rightarrow> (Inr a, w')"
  have "restate_run (bu_store bu kind) ?step w = (Inr a, w')"
    using assms(1) by (simp add: run_store_step_def or_terminal_Inr)
  then have "\<exists>w1. same_db w w1 \<and> ?step w1 = (Inr a, w')"
  proof (rule restate_run_Inr)
    fix w :: "('b, 'c) restate_world_scheme" and e w'
    assume "?step w = (Inl e, w')"
    then show "same_db w w'"
      by (auto simp: store_call_def same_db_def dest: undo
          split: prod.splits sum.splits list.splits option.splits)
  qed (auto intro: same_db_trans)
  then obtain w1 where w1: "same_db w w1" "?step w1 = (Inr a, w')" by blast
  from w1(2) have "op (ow_db w1) = (Inr a, ow_db w') \<and> same_own w1 w'"
    by (auto simp: store_call_def same_own_def split: prod.splits sum.splits list.splits option.splits)
  with w1(1) show ?thesis by (auto simp: same_db_def same_own_def)
qed

text \<open>A store step that fails has left the database as it was, when its operation does.\<close>

lemma run_store_Inl:
  assumes "run_store_step bu kind op w = (Inl e, w')"
    and undo: "\<And>d e d'. op d = (Inl e, d') \<Longrightarrow> d' = d"
  shows "same_db w w'"
proof -
  let ?step = "\<lambda>w. case store_call op w of (Inl e, w') \<Rightarrow> (Inl (read_failure kind e), w')
      | (Inr a, w') \<Rightarrow> (Inr a, w')"
  have "fst (restate_run n ?step w) = Inl m \<Longrightarrow> same_db w (snd (restate_run n ?step w))" for n m w
  proof (induction n arbitrary: w)
    case 0
    then show ?case
      by (auto simp: store_call_def same_db_def dest: undo
          split: prod.splits sum.splits list.splits option.splits handler_error.splits)
  next
    case (Suc n)
    show ?case
    proof (cases "store_call op w")
      case (Pair r w1)
      show ?thesis
      proof (cases r)
        case (Inr a)
        with Pair Suc.prems show ?thesis by simp
      next
        case (Inl e)
        have "same_db w w1"
          using Pair Inl by (auto simp: store_call_def same_db_def dest: undo
              split: prod.splits sum.splits list.splits option.splits)
        with Pair Inl Suc show ?thesis
          by (cases "read_failure kind e") (auto intro: same_db_trans)
      qed
    qed
  qed
  note keep = this
  obtain m where "restate_run (bu_store bu kind) ?step w = (Inl m, w')"
    using assms(1) by (auto simp: run_store_step_def or_terminal_def split: prod.splits sum.splits)
  then show ?thesis using keep [of "bu_store bu kind" w m] by simp
qed

end
