(* ===== verification/Pull_Request.thy ===== *)
theory Pull_Request
  imports Restate_World
begin

text \<open>
  The \<open>PullRequest\<close> virtual object (\<^verbatim>\<open>apps/restate-service/src/pull_request.rs\<close>): its guards
  and its handlers. What a handler asks of Restate, GitHub and the store is the record
  \<open>pr_effects\<close>, one field per method of the trait \<open>PullRequestEffects\<close>; \<open>restate_pr\<close> is the
  record the service runs them with.
\<close>

section \<open>Requests and outcomes\<close>

record closed_request =
  cr_synced_before :: "u64 option"

datatype closed_outcome = Retired | Kept

datatype sync_outcome = SyDebounced | SySynced string | SyDeleted

definition request_key :: "sync_request \<Rightarrow> pr_key" where
  "request_key r = PrKey (sr_repository_id r) (sr_number r)"

section \<open>Guards\<close>

definition should_debounce_sync :: "bool \<Rightarrow> u64 option \<Rightarrow> u64 \<Rightarrow> u64 \<Rightarrow> bool" where
  "should_debounce_sync bypass_debounce last_synced_at now debounce \<longleftrightarrow>
     \<not> bypass_debounce \<and>
     (case last_synced_at of None \<Rightarrow> False | Some synced \<Rightarrow> sat_sub now synced < debounce)"

definition closed_retires :: "pr_state option \<Rightarrow> closed_request \<Rightarrow> bool" where
  "closed_retires state request =
     (case cr_synced_before request of
        None \<Rightarrow> True
      | Some synced_before \<Rightarrow>
          \<not> (case (case state of None \<Rightarrow> None | Some st \<Rightarrow> ps_last_synced_at st) of
               None \<Rightarrow> False | Some synced \<Rightarrow> synced_before \<le> synced))"

definition target_matches_snapshot :: "pr_target \<Rightarrow> pr_record \<Rightarrow> bool" where
  "target_matches_snapshot target snapshot \<longleftrightarrow>
     tg_repository_id target = pr_repository_id snapshot \<and> tg_owner target = pr_owner snapshot \<and>
     tg_repo target = pr_repo snapshot \<and> tg_number target = pr_number snapshot"

definition guard_target :: "pr_record option \<Rightarrow> pr_target \<Rightarrow> reject_reason + unit" where
  "guard_target snapshot target =
     (case snapshot of
        None \<Rightarrow> Inl NotFound
      | Some s \<Rightarrow>
          if \<not> target_matches_snapshot target s then Inl NotFound
          else if pr_head_sha s \<noteq> tg_expected_sha target
            then Inl (StaleSha (tg_expected_sha target) (pr_head_sha s))
          else Inr ())"

definition guard_command :: "bool \<Rightarrow> pr_record option \<Rightarrow> pr_target \<Rightarrow> reject_reason + unit" where
  "guard_command can_post_commands snapshot target =
     (if \<not> can_post_commands then Inl NoUserToken else guard_target snapshot target)"

fun outcome_detail :: "action_outcome \<Rightarrow> string" where
  "outcome_detail (Succeeded detail _) = detail"
| "outcome_detail (Rejected reason) = display_reject reason"

fun is_success :: "action_outcome \<Rightarrow> bool" where
  "is_success (Succeeded _ _) = True"
| "is_success (Rejected _) = False"

section \<open>What the handlers ask for\<close>

record 'w pr_effects =
  fe_key :: string
  fe_can_post_commands :: bool
  fe_now :: "string \<Rightarrow> ('w, u64) handler"
  fe_state :: "('w, pr_state option) handler"
  fe_set_state :: "pr_state \<Rightarrow> 'w \<Rightarrow> 'w"
  fe_clear_state :: "'w \<Rightarrow> 'w"
  fe_schedule_sync :: "pr_key \<Rightarrow> sync_request \<Rightarrow> u64 option \<Rightarrow> 'w \<Rightarrow> 'w"
  fe_fetch_snapshot :: "sync_request \<Rightarrow> bool \<Rightarrow> ('w, pr_record option settled) handler"
  fe_merge :: "merge_request \<Rightarrow> merge_method option \<Rightarrow> ('w, merged settled) handler"
  fe_post_command :: "command_request \<Rightarrow> ('w, string settled) handler"
  fe_update_branch :: "update_branch_request \<Rightarrow> ('w, string settled) handler"
  fe_upsert_projection :: "pr_record \<Rightarrow> ('w, unit) handler"
  fe_delete_projection :: "string \<Rightarrow> pr_key \<Rightarrow> ('w, unit) handler"
  fe_merge_method :: "u64 \<Rightarrow> ('w, merge_method option) handler"

definition state_or_default :: "pr_state option \<Rightarrow> pr_state" where
  "state_or_default st = (case st of None \<Rightarrow> default_pr_state | Some s \<Rightarrow> s)"

section \<open>The handlers\<close>

text \<open>A read settled as the pull request gone is no snapshot; any other is read.\<close>

definition fetched_snapshot :: "pr_record option settled \<Rightarrow> handler_error + pr_record option" where
  "fetched_snapshot fetched =
     (case fetched of SRejected NotFound _ \<Rightarrow> Inr None | _ \<Rightarrow> read_result fetched)"

definition synced_state :: "sync_request \<Rightarrow> pr_record \<Rightarrow> pr_state \<Rightarrow> pr_state" where
  "synced_state request snapshot state =
     (let state1 = state\<lparr>ps_snapshot := Some snapshot, ps_last_synced_at := Some (pr_synced_at snapshot)\<rparr>;
          state2 = push_history \<lparr>al_at = pr_synced_at snapshot, al_action = ''sync'',
             al_detail = ''canonical snapshot at '' @ short_sha (pr_head_sha snapshot)\<rparr> state1
      in case sr_completion_id request of
           None \<Rightarrow> state2 | Some completion_id \<Rightarrow> complete_sync completion_id state2)"

text \<open>The end of a sync: the row first, then the object's own state.\<close>

definition write_snapshot ::
    "'w pr_effects \<Rightarrow> sync_request \<Rightarrow> pr_state \<Rightarrow> pr_record option \<Rightarrow> ('w, sync_outcome) handler" where
  "write_snapshot E request state read =
     (case read of
        None \<Rightarrow>
          andthen (fe_delete_projection E ''delete-ineligible-pr-projection'' (request_key request)) (\<lambda>_.
          andthen (put (fe_clear_state E)) (\<lambda>_. ok SyDeleted))
      | Some snapshot \<Rightarrow>
          andthen (fe_upsert_projection E snapshot) (\<lambda>_.
          andthen (put (fe_set_state E (synced_state request snapshot state))) (\<lambda>_.
            ok (SySynced (pr_head_sha snapshot)))))"

definition run_sync :: "'w pr_effects \<Rightarrow> sync_request \<Rightarrow> u64 \<Rightarrow> ('w, sync_outcome) handler" where
  "run_sync E request debounce =
     andthen (fe_now E ''sync-clock'') (\<lambda>now.
     andthen (fe_state E) (\<lambda>found.
     let state = state_or_default found in
     if should_debounce_sync (sr_bypass_debounce request) (ps_last_synced_at state) now debounce then
       andthen
         (if ps_sync_pending state then ok ()
          else put (\<lambda>w. fe_schedule_sync E (request_key request) request (Some debounce)
                     (fe_set_state E (state\<lparr>ps_sync_pending := True\<rparr>) w)))
         (\<lambda>_. ok SyDebounced)
     else
       let state = state\<lparr>ps_sync_pending := False\<rparr> in
       andthen (put (fe_set_state E state)) (\<lambda>_.
       andthen (fe_fetch_snapshot E request (ps_snapshot state \<noteq> None)) (\<lambda>fetched.
       andthen (lift (fetched_snapshot fetched)) (write_snapshot E request state)))))"

text \<open>\<open>bad_key\<close>: what the parse error of an object key prints.\<close>

definition bad_key :: "string \<Rightarrow> string" where
  "bad_key value = ''invalid pull request key: '' @ value"

definition run_closed :: "'w pr_effects \<Rightarrow> closed_request \<Rightarrow> ('w, closed_outcome) handler" where
  "run_closed E request =
     andthen (lift (case parse_pr_key (fe_key E) of Inl v \<Rightarrow> Inl (Terminal (bad_key v)) | Inr k \<Rightarrow> Inr k)) (\<lambda>key.
     andthen (fe_state E) (\<lambda>state.
     if \<not> closed_retires state request then ok Kept
     else
       andthen (fe_delete_projection E ''delete-closed-pr-projection'' key) (\<lambda>_.
       andthen (put (fe_clear_state E)) (\<lambda>_. ok Retired))))"

definition log_outcome :: "u64 \<Rightarrow> string \<Rightarrow> action_outcome \<Rightarrow> pr_state \<Rightarrow> pr_state" where
  "log_outcome at action outcome =
     push_history \<lparr>al_at = at, al_action = action, al_detail = outcome_detail outcome\<rparr>"

text \<open>A merge that landed drops the row and forgets the snapshot.\<close>

definition drop_merged ::
    "'w pr_effects \<Rightarrow> pr_target \<Rightarrow> pr_state \<Rightarrow> action_outcome \<Rightarrow> ('w, pr_state) handler" where
  "drop_merged E target state outcome =
     (if is_success outcome then
        andthen (fe_delete_projection E ''delete-merged-pr-projection'' (target_key target))
          (\<lambda>_. ok (state\<lparr>ps_snapshot := None\<rparr>))
      else ok state)"

definition run_merge :: "'w pr_effects \<Rightarrow> merge_request \<Rightarrow> ('w, action_outcome) handler" where
  "run_merge E request =
     andthen (fe_state E) (\<lambda>found.
     let state = state_or_default found in
     case guard_target (ps_snapshot state) (mr_target request) of
       Inl reason \<Rightarrow> ok (Rejected reason)
     | Inr _ \<Rightarrow>
         andthen (fe_merge_method E (tg_repository_id (mr_target request))) (\<lambda>merge_method.
         andthen (fe_merge E request merge_method) (\<lambda>result.
         andthen (lift (merge_result result)) (\<lambda>outcome.
         andthen (drop_merged E (mr_target request) state outcome) (\<lambda>state.
         andthen (fe_now E ''merge-log-clock'') (\<lambda>log_at.
         andthen (put (fe_set_state E (log_outcome log_at ''merge'' outcome state))) (\<lambda>_.
           ok outcome)))))))"

definition run_command :: "'w pr_effects \<Rightarrow> command_request \<Rightarrow> ('w, action_outcome) handler" where
  "run_command E request =
     andthen (fe_state E) (\<lambda>found.
     let state = state_or_default found in
     case guard_command (fe_can_post_commands E) (ps_snapshot state) (cq_target request) of
       Inl reason \<Rightarrow> ok (Rejected reason)
     | Inr _ \<Rightarrow>
         andthen (fe_post_command E request) (\<lambda>result.
         andthen (lift (action_result result)) (\<lambda>outcome.
         andthen (fe_now E ''command-log-clock'') (\<lambda>log_at.
         andthen (put (fe_set_state E
             (log_outcome log_at (display_command (cq_command request)) outcome state))) (\<lambda>_.
           ok outcome)))))"

definition follow_up_sync :: "pr_target \<Rightarrow> sync_request" where
  "follow_up_sync t = \<lparr>sr_repository_id = tg_repository_id t, sr_owner = tg_owner t,
     sr_repo = tg_repo t, sr_number = tg_number t, sr_bypass_debounce = False,
     sr_completion_id = None\<rparr>"

definition run_update_branch :: "'w pr_effects \<Rightarrow> update_branch_request \<Rightarrow> ('w, action_outcome) handler" where
  "run_update_branch E request =
     andthen (fe_state E) (\<lambda>found.
     let state = state_or_default found in
     case guard_target (ps_snapshot state) (ub_target request) of
       Inl reason \<Rightarrow> ok (Rejected reason)
     | Inr _ \<Rightarrow>
         andthen (fe_update_branch E request) (\<lambda>result.
         andthen (lift (action_result result)) (\<lambda>outcome.
         andthen (fe_now E ''update-branch-log-clock'') (\<lambda>log_at.
         andthen (put (fe_set_state E (log_outcome log_at ''update_branch'' outcome state))) (\<lambda>_.
         andthen
           (if is_success outcome
            then put (fe_schedule_sync E (request_key (follow_up_sync (ub_target request)))
                       (follow_up_sync (ub_target request)) None)
            else ok ()) (\<lambda>_.
           ok outcome))))))"

section \<open>The effects the service runs them with\<close>

text \<open>GitHub, as the handlers call it; \<open>'g\<close> is GitHub's own state.\<close>

record 'g github_api =
  ga_can_post_commands :: bool
  ga_fetch_snapshot :: "sync_request \<Rightarrow> 'g \<Rightarrow> (github_error + pr_record option) \<times> 'g"
  ga_merge :: "merge_request \<Rightarrow> merge_method option \<Rightarrow> 'g \<Rightarrow> (github_error + merged) \<times> 'g"
  ga_post_command :: "command_request \<Rightarrow> 'g \<Rightarrow> (github_error + string) \<times> 'g"
  ga_update_branch :: "update_branch_request \<Rightarrow> 'g \<Rightarrow> (github_error + string) \<times> 'g"

text \<open>The object's own part of the world: its durable state and the syncs it has sent.\<close>

record 'g pr_world = "'g restate_world" +
  ow_object :: "pr_state option"
  ow_sends :: "(pr_key \<times> sync_request \<times> u64 option) list"

definition repository_merge_method :: "u64 \<Rightarrow> merge_method option store_op" where
  "repository_merge_method repository_id =
     andthen (get_repo repository_id) (\<lambda>repo.
       ok (case repo of None \<Rightarrow> None | Some r \<Rightarrow> rr_merge_method r))"

definition restate_pr :: "budgets \<Rightarrow> 'g github_api \<Rightarrow> string \<Rightarrow> 'g pr_world pr_effects" where
  "restate_pr bu api key =
     \<lparr>fe_key = key,
      fe_can_post_commands = ga_can_post_commands api,
      fe_now = (\<lambda>_. run_clock_step),
      fe_state = (\<lambda>w. (Inr (ow_object w), w)),
      fe_set_state = (\<lambda>st w. w\<lparr>ow_object := Some st\<rparr>),
      fe_clear_state = (\<lambda>w. w\<lparr>ow_object := None\<rparr>),
      fe_schedule_sync = (\<lambda>k r after w. w\<lparr>ow_sends := ow_sends w @ [(k, r, after)]\<rparr>),
      fe_fetch_snapshot = (\<lambda>r known. run_github_step
        (restate_github_step bu ''fetch-canonical-pr-snapshot'' OpRead known (ga_fetch_snapshot api r))),
      fe_merge = (\<lambda>r how. run_github_step
        (restate_github_step bu ''merge-pull-request'' OpMerge True (ga_merge api r how))),
      fe_post_command = (\<lambda>r. run_github_step
        (restate_github_step bu ''post-dependabot-command'' OpComment True (ga_post_command api r))),
      fe_update_branch = (\<lambda>r. run_github_step
        (restate_github_step bu ''update-pull-request-branch'' OpUpdateBranch True (ga_update_branch api r))),
      fe_upsert_projection = (\<lambda>pr. run_store_step bu SkOrdinary (upsert_pr pr)),
      fe_delete_projection = (\<lambda>_ k. run_store_step bu SkOrdinary (delete_pr k)),
      fe_merge_method = (\<lambda>r. run_store_step bu SkOrdinary (repository_merge_method r))\<rparr>"


section \<open>The contract of the effects\<close>

text \<open>Two worlds alike in the object's state, the syncs sent, and the projection's rows.\<close>

definition alike ::
    "('w \<Rightarrow> pr_state option) \<Rightarrow> ('w \<Rightarrow> 's list) \<Rightarrow> ('w \<Rightarrow> pr_key \<Rightarrow> pr_record option) \<Rightarrow>
     ('w \<Rightarrow> bool) \<Rightarrow> 'w \<Rightarrow> 'w \<Rightarrow> bool" where
  "alike state_of sends_of table_of sound w w' \<longleftrightarrow>
     state_of w' = state_of w \<and> sends_of w' = sends_of w \<and> table_of w' = table_of w \<and>
     sound w' = sound w"

locale pull_request_object =
  fixes E :: "'w pr_effects"
    and state_of :: "'w \<Rightarrow> pr_state option"
    and sends_of :: "'w \<Rightarrow> (pr_key \<times> sync_request \<times> u64 option) list"
    and table_of :: "'w \<Rightarrow> pr_key \<Rightarrow> pr_record option"
    and sound :: "'w \<Rightarrow> bool"
  assumes reads_state: "fe_state E w = (Inr (state_of w), w)"
    and sets_state: "state_of (fe_set_state E st w) = Some st"
      "sends_of (fe_set_state E st w) = sends_of w" "table_of (fe_set_state E st w) = table_of w"
      "sound (fe_set_state E st w) = sound w"
    and clears_state: "state_of (fe_clear_state E w) = None"
      "sends_of (fe_clear_state E w) = sends_of w" "table_of (fe_clear_state E w) = table_of w"
      "sound (fe_clear_state E w) = sound w"
    and sends: "state_of (fe_schedule_sync E k r a w) = state_of w"
      "sends_of (fe_schedule_sync E k r a w) = sends_of w @ [(k, r, a)]"
      "table_of (fe_schedule_sync E k r a w) = table_of w"
      "sound (fe_schedule_sync E k r a w) = sound w"
    and quiet_now: "alike state_of sends_of table_of sound w (snd (fe_now E name w))"
    and quiet_fetch: "alike state_of sends_of table_of sound w (snd (fe_fetch_snapshot E r known w))"
    and quiet_merge: "alike state_of sends_of table_of sound w (snd (fe_merge E mr how w))"
    and quiet_command: "alike state_of sends_of table_of sound w (snd (fe_post_command E cr w))"
    and quiet_update: "alike state_of sends_of table_of sound w (snd (fe_update_branch E ur w))"
    and quiet_method: "alike state_of sends_of table_of sound w (snd (fe_merge_method E repo w))"
    and upserts: "sound w \<Longrightarrow> fe_upsert_projection E pr w = (Inr (), w') \<Longrightarrow>
      state_of w' = state_of w \<and> sends_of w' = sends_of w \<and> sound w' \<and>
      table_of w' = (table_of w)(record_key pr \<mapsto> with_derived_id pr)"
    and upsert_fails: "fe_upsert_projection E pr w = (Inl e, w') \<Longrightarrow> alike state_of sends_of table_of sound w w'"
    and deletes: "sound w \<Longrightarrow> fe_delete_projection E name key w = (Inr (), w') \<Longrightarrow>
      state_of w' = state_of w \<and> sends_of w' = sends_of w \<and> sound w' \<and>
      table_of w' = (table_of w)(key := None)"
    and delete_fails: "fe_delete_projection E name key w = (Inl e, w') \<Longrightarrow>
      alike state_of sends_of table_of sound w w'"
begin

abbreviation same :: "'w \<Rightarrow> 'w \<Rightarrow> bool" where
  "same \<equiv> alike state_of sends_of table_of sound"

lemma same_simps:
  assumes "same w w'"
  shows "state_of w' = state_of w" "sends_of w' = sends_of w" "table_of w' = table_of w"
    "sound w' = sound w"
  using assms by (simp_all add: alike_def)

text \<open>What a handler finds the object in.\<close>

definition now_state :: "'w \<Rightarrow> pr_state" where
  "now_state w = state_or_default (state_of w)"

lemma quiet_runs:
  "fe_now E name w = (r1, w') \<Longrightarrow> same w w'"
  "fe_fetch_snapshot E sr known w = (r2, w') \<Longrightarrow> same w w'"
  "fe_merge E mr how w = (r3, w') \<Longrightarrow> same w w'"
  "fe_post_command E cr w = (r4, w') \<Longrightarrow> same w w'"
  "fe_update_branch E ur w = (r4, w') \<Longrightarrow> same w w'"
  "fe_merge_method E repo w = (r5, w') \<Longrightarrow> same w w'"
  using quiet_now [of w name] quiet_fetch [of w sr known] quiet_merge [of w mr how]
    quiet_command [of w cr] quiet_update [of w ur] quiet_method [of w repo]
  by simp_all

lemma write_snapshot_outcome: "write_snapshot E request st read w \<noteq> (Inr SyDebounced, w')"
  by (auto simp: write_snapshot_def andthen_Inr_iff split: option.splits)

text \<open>A debounced sync does nothing but, at the first in a window, send the trailing one.\<close>

lemma sync_debounced:
  assumes "run_sync E request debounce w = (Inr SyDebounced, w')"
  shows "\<exists>now w1. fe_now E ''sync-clock'' w = (Inr now, w1) \<and> table_of w' = table_of w \<and>
    should_debounce_sync (sr_bypass_debounce request) (ps_last_synced_at (now_state w)) now debounce \<and>
    (if ps_sync_pending (now_state w)
     then state_of w' = state_of w \<and> sends_of w' = sends_of w
     else state_of w' = Some ((now_state w)\<lparr>ps_sync_pending := True\<rparr>) \<and>
       sends_of w' = sends_of w @ [(request_key request, request, Some debounce)])"
proof -
  from assms obtain now w1 where now: "fe_now E ''sync-clock'' w = (Inr now, w1)"
    unfolding run_sync_def by (auto simp: andthen_Inr_iff)
  have s: "same w w1" using now quiet_now [of w "''sync-clock''"] by simp
  note same = same_simps [OF s]
  let ?st = "now_state w"
  have deb: "should_debounce_sync (sr_bypass_debounce request) (ps_last_synced_at ?st) now debounce"
    using assms now same(1)
    by (auto simp: run_sync_def andthen_Inr_iff reads_state Let_def now_state_def write_snapshot_outcome
        split: if_splits option.splits)
  then show ?thesis
    using assms now same
    by (auto simp: run_sync_def andthen_Inr_iff reads_state Let_def now_state_def sets_state sends split: if_splits)
qed

text \<open>
  A sync past the debounce clears the pending flag, reads GitHub, and writes what it read; the
  world \<open>w3\<close> it writes in is the one it began in but for that flag.
\<close>

lemma sync_past_debounce:
  assumes "run_sync E request debounce w = (res, w')"
    and "fe_now E ''sync-clock'' w = (Inr now, w1)"
    and "\<not> should_debounce_sync (sr_bypass_debounce request) (ps_last_synced_at (now_state w)) now debounce"
  defines "st \<equiv> (now_state w)\<lparr>ps_sync_pending := False\<rparr>"
  obtains r3 w3 where
    "fe_fetch_snapshot E request (ps_snapshot st \<noteq> None) (fe_set_state E st w1) = (r3, w3)"
    "state_of w3 = Some st" "table_of w3 = table_of w" "sends_of w3 = sends_of w" "sound w3 = sound w"
    "case r3 of Inl e \<Rightarrow> (res, w') = (Inl e, w3)
     | Inr fetched \<Rightarrow>
         andthen (lift (fetched_snapshot fetched)) (write_snapshot E request st) w3 = (res, w')"
proof -
  note s1 = same_simps [OF quiet_runs(1) [OF assms(2)]]
  obtain r3 w3 where f: "fe_fetch_snapshot E request (ps_snapshot st \<noteq> None) (fe_set_state E st w1) = (r3, w3)"
    by fastforce
  note s3 = same_simps [OF quiet_runs(2) [OF f]]
  have run: "run_sync E request debounce w = andthen (\<lambda>_. (r3, w3)) (\<lambda>fetched.
      andthen (lift (fetched_snapshot fetched)) (write_snapshot E request st)) w"
    using assms(2,3) s1(1) f
    by (simp add: run_sync_def andthen_def reads_state Let_def now_state_def st_def)
  show ?thesis
  proof (rule that [OF f])
    show "case r3 of Inl e \<Rightarrow> (res, w') = (Inl e, w3) | Inr fetched \<Rightarrow>
         andthen (lift (fetched_snapshot fetched)) (write_snapshot E request st) w3 = (res, w')"
      using assms(1) unfolding run by (auto simp: andthen_def split: sum.splits)
  qed (use s1 s3 sets_state in simp_all)
qed

lemma sync_clock_first:
  assumes "run_sync E request debounce w = (Inr out, w')"
  shows "\<exists>now w1. fe_now E ''sync-clock'' w = (Inr now, w1) \<and>
    (should_debounce_sync (sr_bypass_debounce request) (ps_last_synced_at (now_state w)) now debounce
      \<longleftrightarrow> out = SyDebounced)"
proof -
  from assms obtain now w1 where now: "fe_now E ''sync-clock'' w = (Inr now, w1)"
    unfolding run_sync_def by (auto simp: andthen_Inr_iff)
  note s1 = same_simps [OF quiet_runs(1) [OF now]]
  have "should_debounce_sync (sr_bypass_debounce request) (ps_last_synced_at (now_state w)) now debounce
      \<longleftrightarrow> out = SyDebounced"
    using assms now s1(1)
    by (auto simp: run_sync_def andthen_Inr_iff reads_state Let_def now_state_def write_snapshot_outcome
        split: if_splits option.splits)
  with now show ?thesis by blast
qed

text \<open>
  A sync that synced: the row it wrote is the snapshot the object now calls its own, the window
  is open from the snapshot's instant, nothing is pending and nothing was sent.
\<close>

lemma sync_synced:
  assumes run: "run_sync E request debounce w = (Inr (SySynced sha), w')" and sd: "sound w"
  shows "\<exists>snapshot. sha = pr_head_sha snapshot \<and>
    state_of w' = Some (synced_state request snapshot ((now_state w)\<lparr>ps_sync_pending := False\<rparr>)) \<and>
    table_of w' = (table_of w)(record_key snapshot \<mapsto> with_derived_id snapshot) \<and>
    sends_of w' = sends_of w \<and> sound w'"
proof -
  obtain now w1 where now: "fe_now E ''sync-clock'' w = (Inr now, w1)"
    "\<not> should_debounce_sync (sr_bypass_debounce request) (ps_last_synced_at (now_state w)) now debounce"
    using sync_clock_first [OF run] by auto
  let ?st = "(now_state w)\<lparr>ps_sync_pending := False\<rparr>"
  from run now show ?thesis
  proof (rule sync_past_debounce)
    fix r3 w3
    assume w3: "state_of w3 = Some ?st" "table_of w3 = table_of w" "sends_of w3 = sends_of w"
      "sound w3 = sound w"
      and c: "case r3 of Inl e \<Rightarrow> (Inr (SySynced sha), w') = (Inl e, w3)
     | Inr fetched \<Rightarrow> andthen (lift (fetched_snapshot fetched)) (write_snapshot E request ?st) w3 =
         (Inr (SySynced sha), w')"
    then obtain snapshot w4 where up: "fe_upsert_projection E snapshot w3 = (Inr (), w4)"
      and w': "w' = fe_set_state E (synced_state request snapshot ?st) w4" "sha = pr_head_sha snapshot"
      by (auto simp: andthen_Inr_iff write_snapshot_def split: sum.splits option.splits)
    have "sound w3" using sd w3 by simp
    from upserts [OF this up] show ?thesis using w3 sets_state w' by auto
  qed
qed

text \<open>A sync that found the pull request gone: its row and its state are gone too.\<close>

lemma sync_deleted:
  assumes run: "run_sync E request debounce w = (Inr SyDeleted, w')" and sd: "sound w"
  shows "state_of w' = None \<and> table_of w' = (table_of w)(request_key request := None) \<and>
    sends_of w' = sends_of w \<and> sound w'"
proof -
  obtain now w1 where now: "fe_now E ''sync-clock'' w = (Inr now, w1)"
    "\<not> should_debounce_sync (sr_bypass_debounce request) (ps_last_synced_at (now_state w)) now debounce"
    using sync_clock_first [OF run] by auto
  let ?st = "(now_state w)\<lparr>ps_sync_pending := False\<rparr>"
  from run now show ?thesis
  proof (rule sync_past_debounce)
    fix r3 w3
    assume w3: "state_of w3 = Some ?st" "table_of w3 = table_of w" "sends_of w3 = sends_of w"
      "sound w3 = sound w"
      and c: "case r3 of Inl e \<Rightarrow> (Inr SyDeleted, w') = (Inl e, w3)
     | Inr fetched \<Rightarrow> andthen (lift (fetched_snapshot fetched)) (write_snapshot E request ?st) w3 =
         (Inr SyDeleted, w')"
    then obtain w4 where del: "fe_delete_projection E ''delete-ineligible-pr-projection''
        (request_key request) w3 = (Inr (), w4)" and w': "w' = fe_clear_state E w4"
      by (auto simp: andthen_Inr_iff write_snapshot_def split: sum.splits option.splits)
    have "sound w3" using sd w3 by simp
    from deletes [OF this del] show ?thesis using w3 clears_state w' by auto
  qed
qed

text \<open>
  A sync that failed leaves the projection as it was and sends nothing; the object keeps what it
  held but for the pending flag.
\<close>

lemma sync_failed:
  assumes run: "run_sync E request debounce w = (Inl e, w')"
  shows "table_of w' = table_of w \<and> sends_of w' = sends_of w \<and> sound w' = sound w \<and>
    (if \<exists>e w1. fe_now E ''sync-clock'' w = (Inl e, w1) then state_of w' = state_of w
     else state_of w' = Some ((now_state w)\<lparr>ps_sync_pending := False\<rparr>))"
proof (cases "fe_now E ''sync-clock'' w")
  case (Pair r w1)
  note s1 = same_simps [OF quiet_runs(1) [OF Pair]]
  show ?thesis
  proof (cases r)
    case (Inl e')
    with run Pair s1 show ?thesis by (auto simp: run_sync_def andthen_def)
  next
    case (Inr now)
    have nd: "\<not> should_debounce_sync (sr_bypass_debounce request) (ps_last_synced_at (now_state w)) now debounce"
      using run Pair Inr s1(1)
      by (auto simp: run_sync_def andthen_def reads_state Let_def now_state_def split: if_splits)
    from run Pair [unfolded Inr] nd show ?thesis
    proof (rule sync_past_debounce)
      fix r3 w3
      assume w3: "state_of w3 = Some ((now_state w)\<lparr>ps_sync_pending := False\<rparr>)"
        "table_of w3 = table_of w" "sends_of w3 = sends_of w" "sound w3 = sound w"
        and c: "case r3 of Inl ee \<Rightarrow> (Inl e, w') = (Inl ee, w3)
          | Inr fetched \<Rightarrow> andthen (lift (fetched_snapshot fetched))
              (write_snapshot E request ((now_state w)\<lparr>ps_sync_pending := False\<rparr>)) w3 = (Inl e, w')"
      have "w' = w3 \<or> same w3 w'"
      proof (cases r3)
        case (Inl e2)
        with c show ?thesis by simp
      next
        case (Inr fetched)
        with c show ?thesis
          by (auto simp: andthen_Inl_iff write_snapshot_def split: option.splits
              dest: upsert_fails delete_fails)
      qed
      with w3 Pair Inr show ?thesis by (auto simp: alike_def)
    qed
  qed
qed

text \<open>A close that retires takes the row and the state together; one that keeps touches neither.\<close>

lemma closed_outcome:
  assumes run: "run_closed E request w = (Inr out, w')" and sd: "sound w"
  shows "\<exists>key. parse_pr_key (fe_key E) = Inr key \<and> sends_of w' = sends_of w \<and> sound w' \<and>
    (if closed_retires (state_of w) request
     then out = Retired \<and> state_of w' = None \<and> table_of w' = (table_of w)(key := None)
     else out = Kept \<and> w' = w)"
proof (cases "parse_pr_key (fe_key E)")
  case (Inl v)
  with run show ?thesis by (simp add: run_closed_def lift_Inr)
next
  case (Inr key)
  show ?thesis
  proof (cases "closed_retires (state_of w) request")
    case False
    with run Inr sd show ?thesis by (simp add: run_closed_def andthen_def reads_state)
  next
    case True
    with run Inr obtain w1 where d: "fe_delete_projection E ''delete-closed-pr-projection'' key w = (Inr (), w1)"
      and w': "w' = fe_clear_state E w1" "out = Retired"
      by (auto simp: run_closed_def lift_Inr andthen_Inr_iff reads_state)
    from deletes [OF sd d] show ?thesis using Inr True w' clears_state by simp
  qed
qed

lemma same_refl [simp]: "same w w"
  by (simp add: alike_def)

lemma closed_failed:
  assumes "run_closed E request w = (Inl e, w')"
  shows "same w w'"
  using assms
  by (auto simp: run_closed_def andthen_Inl_iff reads_state split: sum.splits if_splits dest: delete_fails)

text \<open>A merge the guard rejects touches nothing: neither GitHub nor the store is reached.\<close>

lemma merge_guarded:
  assumes "guard_target (ps_snapshot (now_state w)) (mr_target request) = Inl reason"
  shows "run_merge E request w = (Inr (Rejected reason), w)"
  using assms by (simp add: run_merge_def andthen_def reads_state now_state_def Let_def)

text \<open>
  A merge past the guard that came back: the outcome is logged, and the row and the snapshot go
  exactly when it succeeded.
\<close>

lemma drop_merged_ran:
  assumes "drop_merged E target state out w = (Inr st, w')" and "sound w"
  shows "state_of w' = state_of w \<and> sends_of w' = sends_of w \<and> sound w' \<and>
    (if is_success out
     then st = state\<lparr>ps_snapshot := None\<rparr> \<and> table_of w' = (table_of w)(target_key target := None)
     else st = state \<and> table_of w' = table_of w)"
proof (cases "is_success out")
  case False
  with assms show ?thesis by (simp add: drop_merged_def)
next
  case True
  with assms(1) have "fe_delete_projection E ''delete-merged-pr-projection'' (target_key target) w = (Inr (), w')"
    "st = state\<lparr>ps_snapshot := None\<rparr>"
    by (auto simp: drop_merged_def andthen_Inr_iff)
  with deletes [OF assms(2)] True show ?thesis by simp
qed

lemma merge_outcome:
  assumes run: "run_merge E request w = (Inr out, w')" and sd: "sound w"
    and "guard_target (ps_snapshot (now_state w)) (mr_target request) = Inr u"
  shows "\<exists>at. sends_of w' = sends_of w \<and> sound w' \<and>
    (if is_success out
     then state_of w' = Some (log_outcome at ''merge'' out ((now_state w)\<lparr>ps_snapshot := None\<rparr>)) \<and>
       table_of w' = (table_of w)(target_key (mr_target request) := None)
     else state_of w' = Some (log_outcome at ''merge'' out (now_state w)) \<and> table_of w' = table_of w)"
proof -
  from run assms(3) obtain how w1 result w2 st w3 at w4 where
    m: "fe_merge_method E (tg_repository_id (mr_target request)) w = (Inr how, w1)"
      "fe_merge E request how w1 = (Inr result, w2)" "merge_result result = Inr out"
    and d: "drop_merged E (mr_target request) (now_state w) out w2 = (Inr st, w3)"
    and n: "fe_now E ''merge-log-clock'' w3 = (Inr at, w4)"
    and w': "w' = fe_set_state E (log_outcome at ''merge'' out st) w4"
    by (auto simp: run_merge_def andthen_Inr_iff reads_state now_state_def Let_def)
  note s = same_simps [OF quiet_runs(6) [OF m(1)]] same_simps [OF quiet_runs(3) [OF m(2)]]
  have "sound w2" using sd s by simp
  from drop_merged_ran [OF d this] same_simps [OF quiet_runs(1) [OF n]] show ?thesis
    using s w' sets_state by (cases "is_success out") auto
qed

lemma command_guarded:
  assumes "guard_command (fe_can_post_commands E) (ps_snapshot (now_state w)) (cq_target request) = Inl reason"
  shows "run_command E request w = (Inr (Rejected reason), w)"
  using assms by (simp add: run_command_def andthen_def reads_state now_state_def Let_def)

lemma command_outcome:
  assumes run: "run_command E request w = (Inr out, w')"
    and "guard_command (fe_can_post_commands E) (ps_snapshot (now_state w)) (cq_target request) = Inr u"
  shows "\<exists>at. state_of w' = Some (log_outcome at (display_command (cq_command request)) out (now_state w)) \<and>
    table_of w' = table_of w \<and> sends_of w' = sends_of w \<and> sound w' = sound w"
proof -
  from run assms(2) obtain result w1 at w2 where
    m: "fe_post_command E request w = (Inr result, w1)"
      "fe_now E ''command-log-clock'' w1 = (Inr at, w2)"
      "w' = fe_set_state E (log_outcome at (display_command (cq_command request)) out (now_state w)) w2"
    by (auto simp: run_command_def andthen_Inr_iff reads_state now_state_def Let_def)
  from same_simps [OF quiet_runs(4) [OF m(1)]] same_simps [OF quiet_runs(1) [OF m(2)]] show ?thesis
    using m(3) sets_state by auto
qed

lemma update_branch_guarded:
  assumes "guard_target (ps_snapshot (now_state w)) (ub_target request) = Inl reason"
  shows "run_update_branch E request w = (Inr (Rejected reason), w)"
  using assms by (simp add: run_update_branch_def andthen_def reads_state now_state_def Let_def)

text \<open>An update that landed asks for one follow-up sync of the same pull request, debounced.\<close>

lemma update_branch_outcome:
  assumes run: "run_update_branch E request w = (Inr out, w')"
    and "guard_target (ps_snapshot (now_state w)) (ub_target request) = Inr u"
  shows "\<exists>at. state_of w' = Some (log_outcome at ''update_branch'' out (now_state w)) \<and>
    table_of w' = table_of w \<and> sound w' = sound w \<and>
    sends_of w' = sends_of w @
      (if is_success out
       then [(target_key (ub_target request), follow_up_sync (ub_target request), None)] else [])"
proof -
  from run assms(2) obtain result w1 at w2 where
    m: "fe_update_branch E request w = (Inr result, w1)"
      "fe_now E ''update-branch-log-clock'' w1 = (Inr at, w2)"
    and w': "w' = (if is_success out then fe_schedule_sync E (request_key (follow_up_sync (ub_target request)))
        (follow_up_sync (ub_target request)) None else id)
      (fe_set_state E (log_outcome at ''update_branch'' out (now_state w)) w2)"
    by (auto simp: run_update_branch_def andthen_Inr_iff reads_state now_state_def Let_def split: if_splits)
  have "request_key (follow_up_sync t) = target_key t" for t
    by (simp add: request_key_def follow_up_sync_def target_key_def)
  with same_simps [OF quiet_runs(5) [OF m(1)]] same_simps [OF quiet_runs(1) [OF m(2)]] show ?thesis
    using w' sets_state sends by auto
qed

text \<open>A mutation that failed leaves the object's state and the syncs it has sent as they were.\<close>

lemma drop_merged_failed: "drop_merged E target state out w = (Inl e, w') \<Longrightarrow> same w w'"
  by (auto simp: drop_merged_def andthen_Inl_iff split: if_splits dest: delete_fails)

lemma drop_merged_state: "drop_merged E target state out w = (r, w') \<Longrightarrow> sound w \<Longrightarrow>
    state_of w' = state_of w \<and> sends_of w' = sends_of w \<and> sound w'"
  using drop_merged_ran [of target state out w _ w'] drop_merged_failed [of target state out w _ w']
  by (cases r) (auto simp: alike_def)

lemma merge_failed:
  assumes "run_merge E request w = (Inl e, w')" and "sound w"
  shows "state_of w' = state_of w \<and> sends_of w' = sends_of w \<and> sound w'"
proof (cases "guard_target (ps_snapshot (now_state w)) (mr_target request)")
  case (Inl reason)
  with assms merge_guarded show ?thesis by simp
next
  case (Inr u)
  obtain r1 w1 where m1: "fe_merge_method E (tg_repository_id (mr_target request)) w = (r1, w1)"
    by fastforce
  note s1 = same_simps [OF quiet_runs(6) [OF m1]]
  show ?thesis
  proof (cases r1)
    case (Inl e1)
    with assms m1 Inr s1 show ?thesis by (simp add: run_merge_def andthen_def reads_state now_state_def Let_def)
  next
    case (Inr how)
    obtain r2 w2 where m2: "fe_merge E request how w1 = (r2, w2)" by fastforce
    note s2 = same_simps [OF quiet_runs(3) [OF m2]]
    have run: "run_merge E request w = andthen (\<lambda>_. (r2, w2)) (\<lambda>result.
         andthen (lift (merge_result result)) (\<lambda>outcome.
         andthen (drop_merged E (mr_target request) (now_state w) outcome) (\<lambda>state.
         andthen (fe_now E ''merge-log-clock'') (\<lambda>log_at.
         andthen (put (fe_set_state E (log_outcome log_at ''merge'' outcome state))) (\<lambda>_.
           ok outcome))))) w"
      using m1 m2 Inr \<open>guard_target _ _ = Inr u\<close>
      by (simp add: run_merge_def andthen_def reads_state now_state_def Let_def)
    have sd: "sound w2" using assms(2) s1 s2 by simp
    from assms(1) [unfolded run] have "w' = w2 \<or>
        (\<exists>out r3. drop_merged E (mr_target request) (now_state w) out w2 = (r3, w')) \<or>
        (\<exists>out st w3 r4. drop_merged E (mr_target request) (now_state w) out w2 = (Inr st, w3) \<and>
           fe_now E ''merge-log-clock'' w3 = (r4, w'))"
      by (cases r2) (auto simp: andthen_Inl_iff)
    then show ?thesis
    proof (elim disjE exE conjE)
      assume "w' = w2"
      then show ?thesis using s1 s2 sd by simp
    next
      fix out r3
      assume "drop_merged E (mr_target request) (now_state w) out w2 = (r3, w')"
      from drop_merged_state [OF this sd] show ?thesis using s1 s2 by simp
    next
      fix out st w3 r4
      assume "drop_merged E (mr_target request) (now_state w) out w2 = (Inr st, w3)"
        and n: "fe_now E ''merge-log-clock'' w3 = (r4, w')"
      from drop_merged_state [OF this(1) sd] same_simps [OF quiet_runs(1) [OF n]] show ?thesis
        using s1 s2 by simp
    qed
  qed
qed

lemma command_failed:
  assumes "run_command E request w = (Inl e, w')"
  shows "same w w'"
proof (cases "guard_command (fe_can_post_commands E) (ps_snapshot (now_state w)) (cq_target request)")
  case (Inl reason)
  with assms command_guarded show ?thesis by simp
next
  case (Inr u)
  with assms have "fe_post_command E request w = (Inl e, w') \<or>
      (\<exists>result w1. fe_post_command E request w = (Inr result, w1) \<and>
         (w' = w1 \<or> (\<exists>r. fe_now E ''command-log-clock'' w1 = (r, w'))))"
    by (auto simp: run_command_def andthen_Inl_iff reads_state now_state_def Let_def)
  then show ?thesis using quiet_runs(1,4) by (auto simp: alike_def)
qed

lemma update_branch_failed:
  assumes "run_update_branch E request w = (Inl e, w')"
  shows "same w w'"
proof (cases "guard_target (ps_snapshot (now_state w)) (ub_target request)")
  case (Inl reason)
  with assms update_branch_guarded show ?thesis by simp
next
  case (Inr u)
  with assms have "fe_update_branch E request w = (Inl e, w') \<or>
      (\<exists>result w1. fe_update_branch E request w = (Inr result, w1) \<and>
         (w' = w1 \<or> (\<exists>r. fe_now E ''update-branch-log-clock'' w1 = (r, w'))))"
    by (auto simp: run_update_branch_def andthen_Inl_iff reads_state now_state_def Let_def split: if_splits)
  then show ?thesis using quiet_runs(1,5) by (auto simp: alike_def)
qed

text \<open>The two windows stay bounded, whatever handler ran and however it ended.\<close>

definition bounded :: "'w \<Rightarrow> bool" where
  "bounded w \<longleftrightarrow> windows_ok (now_state w)"

lemma windows_log [simp]: "windows_ok st \<Longrightarrow> windows_ok (log_outcome at a out st)"
  by (simp add: log_outcome_def windows_push)

lemma windows_synced: "windows_ok st \<Longrightarrow> windows_ok (synced_state r snap st)"
  by (auto simp: synced_state_def Let_def split: option.splits intro!: windows_complete windows_push)

lemma now_state_Some: "state_of w = Some st \<Longrightarrow> now_state w = st"
  and now_state_None: "state_of w = None \<Longrightarrow> now_state w = default_pr_state"
  by (simp_all add: now_state_def state_or_default_def)

lemma now_state_cong: "state_of w' = state_of w \<Longrightarrow> now_state w' = now_state w"
  by (simp add: now_state_def)

lemma sync_bounded:
  assumes "bounded w" "sound w" "run_sync E request debounce w = (res, w')"
  shows "bounded w'"
proof (cases res)
  case (Inl e)
  with assms sync_failed [of request debounce w e w'] show ?thesis
    by (auto simp: bounded_def now_state_Some dest: now_state_cong split: if_splits)
next
  case (Inr out)
  note run = assms(3) [unfolded Inr]
  show ?thesis
  proof (cases out)
    case SyDebounced
    from sync_debounced [OF run [unfolded SyDebounced]] assms(1) show ?thesis
      by (auto simp: bounded_def now_state_Some dest: now_state_cong split: if_splits)
  next
    case (SySynced sha)
    from sync_synced [OF run [unfolded SySynced] assms(2)] assms(1) show ?thesis
      by (auto simp: bounded_def now_state_Some intro!: windows_synced)
  next
    case SyDeleted
    from sync_deleted [OF run [unfolded SyDeleted] assms(2)] show ?thesis
      by (simp add: bounded_def now_state_None)
  qed
qed

lemma merge_bounded:
  assumes "bounded w" "sound w" "run_merge E request w = (res, w')"
  shows "bounded w'"
proof (cases "guard_target (ps_snapshot (now_state w)) (mr_target request)")
  case (Inl reason)
  with merge_guarded assms show ?thesis by simp
next
  case (Inr u)
  show ?thesis
  proof (cases res)
    case (Inl e)
    with merge_failed [of request w e w'] assms show ?thesis by (auto simp: bounded_def dest: now_state_cong)
  next
    case (Inr out)
    from merge_outcome [OF assms(3) [unfolded Inr] assms(2) \<open>guard_target _ _ = Inr u\<close>] assms(1)
    show ?thesis by (auto simp: bounded_def now_state_Some split: if_splits)
  qed
qed

lemma command_bounded:
  assumes "bounded w" "run_command E request w = (res, w')"
  shows "bounded w'"
proof (cases "guard_command (fe_can_post_commands E) (ps_snapshot (now_state w)) (cq_target request)")
  case (Inl reason)
  with command_guarded assms show ?thesis by simp
next
  case (Inr u)
  show ?thesis
  proof (cases res)
    case (Inl e)
    with command_failed [of request w e w'] assms show ?thesis
      by (auto simp: bounded_def alike_def dest: now_state_cong)
  next
    case (Inr out)
    from command_outcome [OF assms(2) [unfolded Inr] \<open>guard_command _ _ _ = Inr u\<close>] assms(1)
    show ?thesis by (auto simp: bounded_def now_state_Some)
  qed
qed

lemma update_branch_bounded:
  assumes "bounded w" "run_update_branch E request w = (res, w')"
  shows "bounded w'"
proof (cases "guard_target (ps_snapshot (now_state w)) (ub_target request)")
  case (Inl reason)
  with update_branch_guarded assms show ?thesis by simp
next
  case (Inr u)
  show ?thesis
  proof (cases res)
    case (Inl e)
    with update_branch_failed [of request w e w'] assms show ?thesis
      by (auto simp: bounded_def alike_def dest: now_state_cong)
  next
    case (Inr out)
    from update_branch_outcome [OF assms(2) [unfolded Inr] \<open>guard_target _ _ = Inr u\<close>] assms(1)
    show ?thesis by (auto simp: bounded_def now_state_Some)
  qed
qed

end

end
