(* ===== verification/Pull_Request_Object.thy ===== *)
theory Pull_Request_Object
  imports Pull_Request
begin

text \<open>
  The pull request object as the service runs it: \<open>restate_pr\<close> keeps the contract of
  \<open>pull_request_object\<close>, so each handler's lemmas hold of the object over the projection store.
  The debounce is a state machine: the syncs sent and not yet delivered, and the object.
\<close>

section \<open>The service's effects keep the contract\<close>

lemma more_object:
  assumes "restate_world.more w' = restate_world.more (w :: 'g pr_world)"
  shows "ow_object w' = ow_object w \<and> ow_sends w' = ow_sends w"
  using assms by (cases w; cases w') simp

lemma upsert_pr_undo: "upsert_pr pr d = (Inl e, d') \<Longrightarrow> d' = d"
  by (auto simp: upsert_pr_def andthen_Inl_iff insert_pr_row_def split: if_splits)

lemma delete_pr_undo: "delete_pr key d = (Inl e, d') \<Longrightarrow> d' = d"
  by (simp add: delete_pr_def Let_def)

lemma repository_merge_method_reads: "snd (repository_merge_method r d) = d"
  by (auto simp: repository_merge_method_def get_repo_def andthen_def split: sum.splits list.splits)

lemma upsert_pr_Inr:
  assumes "db_ok d" "upsert_pr pr d = (Inr (), d')"
  shows "db_ok d' \<and> pr_table d' = (pr_table d)(record_key pr \<mapsto> with_derived_id pr)"
proof -
  have fit: "pr_fits pr" using assms(2) row_of_pr_fits by (auto simp: upsert_pr_def lift_Inr)
  have "known_repo d (pr_repository_id pr)"
    using upsert_pr_unknown_repo [OF fit, of d] assms(2) by (cases "known_repo d (pr_repository_id pr)") auto
  moreover have "prs_ok d" using assms(1) by (simp add: db_ok_def)
  ultimately obtain d2 where "upsert_pr pr d = (Inr (), d2)"
    "pr_table d2 = (pr_table d)(record_key pr \<mapsto> with_derived_id pr)"
    using upsert_pr_ok [OF _ fit, of d] by blast
  moreover have "db_ok (snd (upsert_pr pr d))"
    using keeps_upsert_pr [of pr] assms(1) unfolding preserves_def by blast
  ultimately show ?thesis using assms(2) by simp
qed

lemma delete_pr_Inr:
  assumes "db_ok d" "delete_pr key d = (Inr (), d')"
  shows "db_ok d' \<and> pr_table d' = (pr_table d)(key := None)"
proof -
  have "prs_ok d" using assms(1) by (simp add: db_ok_def)
  then obtain d2 where "delete_pr key d = (Inr (), d2)" "pr_table d2 = (pr_table d)(key := None)"
    using delete_pr_ok [of d key] by blast
  moreover have "db_ok (snd (delete_pr key d))"
    using keeps_delete_pr [of key] assms(1) unfolding preserves_def by blast
  ultimately show ?thesis using assms(2) by simp
qed

abbreviation pr_rows :: "'g pr_world \<Rightarrow> pr_key \<Rightarrow> pr_record option" where
  "pr_rows w \<equiv> pr_table (ow_db w)"

abbreviation pr_sound :: "'g pr_world \<Rightarrow> bool" where
  "pr_sound w \<equiv> db_ok (ow_db w)"

lemma same_db_alike:
  assumes "same_db w (w' :: 'g pr_world)"
  shows "alike ow_object ow_sends pr_rows pr_sound w w'"
  using assms more_object [of w' w] by (simp add: same_db_def alike_def)

lemma run_store_alike:
  assumes "run_store_step bu kind op w = (r, w')" and "\<And>d. snd (op d) = d"
  shows "same_db w w'"
proof (cases r)
  case (Inl e)
  have "op d = (Inl e, d') \<Longrightarrow> d' = d" for d e d' using assms(2) [of d] by simp
  from run_store_Inl [OF assms(1) [unfolded Inl] this] show ?thesis .
next
  case (Inr a)
  have "op d = (Inl e, d') \<Longrightarrow> d' = d" for d e d' using assms(2) [of d] by simp
  from run_store_Inr [OF assms(1) [unfolded Inr] this] assms(2) [of "ow_db w"] show ?thesis
    by (auto simp: same_db_def same_own_def)
qed

interpretation object: pull_request_object "restate_pr bu api key" ow_object ow_sends pr_rows pr_sound
proof unfold_locales
  fix w w' :: "'a pr_world" and pr name k e r known mr how cr ur repo
  show "fe_state (restate_pr bu api key) w = (Inr (ow_object w), w)"
    by (simp add: restate_pr_def)
  show "alike ow_object ow_sends pr_rows pr_sound w (snd (fe_now (restate_pr bu api key) name w))"
    by (rule same_db_alike) (simp add: restate_pr_def run_clock_same)
  show "alike ow_object ow_sends pr_rows pr_sound w (snd (fe_fetch_snapshot (restate_pr bu api key) r known w))"
    by (rule same_db_alike) (simp add: restate_pr_def run_github_same)
  show "alike ow_object ow_sends pr_rows pr_sound w (snd (fe_merge (restate_pr bu api key) mr how w))"
    by (rule same_db_alike) (simp add: restate_pr_def run_github_same)
  show "alike ow_object ow_sends pr_rows pr_sound w (snd (fe_post_command (restate_pr bu api key) cr w))"
    by (rule same_db_alike) (simp add: restate_pr_def run_github_same)
  show "alike ow_object ow_sends pr_rows pr_sound w (snd (fe_update_branch (restate_pr bu api key) ur w))"
    by (rule same_db_alike) (simp add: restate_pr_def run_github_same)
  have "same_db w (snd (run_store_step bu SkOrdinary (repository_merge_method repo) w))"
    by (rule run_store_alike [OF surjective_pairing]) (rule repository_merge_method_reads)
  then show "alike ow_object ow_sends pr_rows pr_sound w (snd (fe_merge_method (restate_pr bu api key) repo w))"
    by (intro same_db_alike) (simp add: restate_pr_def)
  {
    assume "fe_upsert_projection (restate_pr bu api key) pr w = (Inl e, w')"
    then have "run_store_step bu SkOrdinary (upsert_pr pr) w = (Inl e, w')" by (simp add: restate_pr_def)
    from run_store_Inl [OF this upsert_pr_undo]
    show "alike ow_object ow_sends pr_rows pr_sound w w'" by (rule same_db_alike)
  next
    assume "fe_delete_projection (restate_pr bu api key) name k w = (Inl e, w')"
    then have "run_store_step bu SkOrdinary (delete_pr k) w = (Inl e, w')" by (simp add: restate_pr_def)
    from run_store_Inl [OF this delete_pr_undo]
    show "alike ow_object ow_sends pr_rows pr_sound w w'" by (rule same_db_alike)
  next
    assume ok: "pr_sound w" and "fe_upsert_projection (restate_pr bu api key) pr w = (Inr (), w')"
    then have "run_store_step bu SkOrdinary (upsert_pr pr) w = (Inr (), w')" by (simp add: restate_pr_def)
    from run_store_Inr [OF this upsert_pr_undo] upsert_pr_Inr [OF ok, of pr "ow_db w'"]
    show "ow_object w' = ow_object w \<and> ow_sends w' = ow_sends w \<and> pr_sound w' \<and>
        pr_rows w' = (pr_rows w)(record_key pr \<mapsto> with_derived_id pr)"
      using more_object [of w' w] by (auto simp: same_own_def)
  next
    assume ok: "pr_sound w" and "fe_delete_projection (restate_pr bu api key) name k w = (Inr (), w')"
    then have "run_store_step bu SkOrdinary (delete_pr k) w = (Inr (), w')" by (simp add: restate_pr_def)
    from run_store_Inr [OF this delete_pr_undo] delete_pr_Inr [OF ok, of k "ow_db w'"]
    show "ow_object w' = ow_object w \<and> ow_sends w' = ow_sends w \<and> pr_sound w' \<and>
        pr_rows w' = (pr_rows w)(k := None)"
      using more_object [of w' w] by (auto simp: same_own_def)
  }
qed (simp_all add: restate_pr_def)


section \<open>The debounce as a state machine\<close>

datatype invocation =
    InSync sync_request | InClosed closed_request | InMerge merge_request
  | InCommand command_request | InUpdateBranch update_branch_request

text \<open>The world a handler leaves behind, whether it succeeded or failed.\<close>

fun invoke ::
    "budgets \<Rightarrow> 'g github_api \<Rightarrow> string \<Rightarrow> u64 \<Rightarrow> invocation \<Rightarrow> 'g pr_world \<Rightarrow> 'g pr_world" where
  "invoke bu api key debounce (InSync r) w = snd (run_sync (restate_pr bu api key) r debounce w)"
| "invoke bu api key debounce (InClosed r) w = snd (run_closed (restate_pr bu api key) r w)"
| "invoke bu api key debounce (InMerge r) w = snd (run_merge (restate_pr bu api key) r w)"
| "invoke bu api key debounce (InCommand r) w = snd (run_command (restate_pr bu api key) r w)"
| "invoke bu api key debounce (InUpdateBranch r) w = snd (run_update_branch (restate_pr bu api key) r w)"

text \<open>The clock's next reading, and the syncs a handler sent with the instant each is due.\<close>

definition reading :: "'g pr_world \<Rightarrow> u64" where
  "reading w = ow_times w (ow_reads w)"

definition due_sends :: "string \<Rightarrow> 'g pr_world \<Rightarrow> 'g pr_world \<Rightarrow> (nat \<times> sync_request) list" where
  "due_sends key w w' =
     map (\<lambda>(k, r, after). (unat (reading w) + (case after of None \<Rightarrow> 0 | Some d \<Rightarrow> unat d), r))
       (filter (\<lambda>(k, r, after). display_pr_key k = key) (drop (length (ow_sends w)) (ow_sends w')))"

text \<open>
  The host clock does not read earlier than the object's last sync. The service does not check
  it (\<^verbatim>\<open>clock.rs\<close> reads the system time): it is a hypothesis of what needs it, never of a step.
\<close>

definition clock_sane :: "'g pr_world \<Rightarrow> bool" where
  "clock_sane w \<longleftrightarrow>
     (case ps_last_synced_at (object.now_state w) of None \<Rightarrow> True | Some synced \<Rightarrow> synced \<le> reading w)"

definition addressed_to :: "string \<Rightarrow> invocation \<Rightarrow> bool" where
  "addressed_to key call \<longleftrightarrow> (\<forall>r. call = InSync r \<longrightarrow> display_pr_key (request_key r) = key)"

text \<open>
  The object with its timers: an invocation from outside, a timer that is due, or the rest of
  the world moving on, its clock included, which may be set back.
\<close>

inductive object_step ::
    "budgets \<Rightarrow> 'g github_api \<Rightarrow> string \<Rightarrow> u64 \<Rightarrow>
     'g pr_world \<times> (nat \<times> sync_request) list \<Rightarrow> 'g pr_world \<times> (nat \<times> sync_request) list \<Rightarrow> bool"
  for bu :: budgets and api :: "'g github_api" and key :: string and debounce :: u64 where
    called: "addressed_to key call \<Longrightarrow> w' = invoke bu api key debounce call w \<Longrightarrow>
      object_step bu api key debounce (w, timers) (w', timers @ due_sends key w w')"
  | fired: "(due, r) \<in> set timers \<Longrightarrow> due \<le> unat (reading w) \<Longrightarrow>
      addressed_to key (InSync r) \<Longrightarrow> w' = invoke bu api key debounce (InSync r) w \<Longrightarrow>
      object_step bu api key debounce (w, timers)
        (w', remove1 (due, r) timers @ due_sends key w w')"
  | elsewhere: "ow_object w' = ow_object w \<Longrightarrow> ow_sends w' = ow_sends w \<Longrightarrow> db_ok (ow_db w') \<Longrightarrow>
      object_step bu api key debounce (w, timers) (w', timers)"

text \<open>A step taken while the clock reads no earlier than the last sync.\<close>

definition steady_step ::
    "budgets \<Rightarrow> 'g github_api \<Rightarrow> string \<Rightarrow> u64 \<Rightarrow>
     'g pr_world \<times> (nat \<times> sync_request) list \<Rightarrow> 'g pr_world \<times> (nat \<times> sync_request) list \<Rightarrow> bool" where
  "steady_step bu api key debounce s s' \<longleftrightarrow> clock_sane (fst s) \<and> object_step bu api key debounce s s'"

definition object_sound :: "'g pr_world \<times> (nat \<times> sync_request) list \<Rightarrow> bool" where
  "object_sound s \<longleftrightarrow> db_ok (ow_db (fst s)) \<and> windows_ok (object.now_state (fst s))"

definition trailing_kept :: "u64 \<Rightarrow> 'g pr_world \<times> (nat \<times> sync_request) list \<Rightarrow> bool" where
  "trailing_kept debounce s \<longleftrightarrow> object_sound s \<and>
     (ps_sync_pending (object.now_state (fst s)) \<longrightarrow>
       (\<exists>(due, r)\<in>set (snd s). \<forall>synced.
          ps_last_synced_at (object.now_state (fst s)) = Some synced \<longrightarrow>
          unat synced + unat debounce \<le> due))"

lemma clock_first: "fe_now (restate_pr bu api key) name w = (Inr now, w1) \<Longrightarrow> now = reading w"
  by (auto simp: restate_pr_def run_clock_step_def read_clock_def reading_def)

lemma pending_frame:
  fixes w w' :: "'g pr_world"
  shows "ow_object w' = ow_object w \<Longrightarrow> object.now_state w' = object.now_state w"
  by (rule object.now_state_cong)

text \<open>Every invocation leaves the tables sound and the windows bounded.\<close>

lemma invoke_sound:
  assumes "db_ok (ow_db w)" "windows_ok (object.now_state w)"
  shows "db_ok (ow_db (invoke bu api key debounce call w)) \<and>
    windows_ok (object.now_state (invoke bu api key debounce call w))"
proof (cases call)
  case (InSync r)
  obtain res w' where run: "run_sync (restate_pr bu api key) r debounce w = (res, w')" by fastforce
  have "db_ok (ow_db w')"
  proof (cases res)
    case (Inl e)
    from object.sync_failed [OF run [unfolded Inl]] assms show ?thesis by simp
  next
    case (Inr out)
    note run' = run [unfolded Inr]
    show ?thesis
    proof (cases out)
      case SyDebounced
      obtain now w1 where n: "fe_now (restate_pr bu api key) ''sync-clock'' w = (Inr now, w1)"
        using object.sync_debounced [OF run' [unfolded SyDebounced]] by blast
      note s1 = object.same_simps [OF object.quiet_runs(1) [OF n]]
      show ?thesis
        using run' [unfolded SyDebounced] n s1 assms
        by (auto simp: run_sync_def andthen_Inr_iff object.reads_state Let_def object.sets_state object.sends
            object.write_snapshot_outcome split: if_splits option.splits)
    next
      case (SySynced sha)
      from object.sync_synced [OF run' [unfolded SySynced]] assms show ?thesis by auto
    next
      case SyDeleted
      from object.sync_deleted [OF run' [unfolded SyDeleted]] assms show ?thesis by simp
    qed
  qed
  moreover have "object.bounded w'"
    by (rule object.sync_bounded [OF _ assms(1) run]) (simp add: object.bounded_def assms)
  ultimately show ?thesis using InSync run by (simp add: object.bounded_def)
next
  case (InClosed r)
  obtain res w' where run: "run_closed (restate_pr bu api key) r w = (res, w')" by fastforce
  show ?thesis
  proof (cases res)
    case (Inl e)
    from object.closed_failed [OF run [unfolded Inl]] have s: "alike ow_object ow_sends pr_rows pr_sound w w'" .
    from object.same_simps [OF s] pending_frame [of w' w] show ?thesis using InClosed run assms by simp
  next
    case (Inr out)
    from object.closed_outcome [OF run [unfolded Inr] assms(1)] show ?thesis
      using InClosed run assms by (auto simp: object.now_state_None split: if_splits)
  qed
next
  case (InMerge r)
  obtain res w' where run: "run_merge (restate_pr bu api key) r w = (res, w')" by fastforce
  have "db_ok (ow_db w')"
  proof (cases "guard_target (ps_snapshot (object.now_state w)) (mr_target r)")
    case (Inl reason)
    from object.merge_guarded [OF this] run assms show ?thesis by simp
  next
    case (Inr u)
    note g = Inr
    show ?thesis
    proof (cases res)
      case (Inl e)
      from object.merge_failed [OF run [unfolded Inl] assms(1)] show ?thesis by simp
    next
      case (Inr out)
      from object.merge_outcome [OF run [unfolded Inr] assms(1) g] show ?thesis by auto
    qed
  qed
  moreover have "object.bounded w'"
    by (rule object.merge_bounded [OF _ assms(1) run]) (simp add: object.bounded_def assms)
  ultimately show ?thesis using InMerge run by (simp add: object.bounded_def)
next
  case (InCommand r)
  obtain res w' where run: "run_command (restate_pr bu api key) r w = (res, w')" by fastforce
  have "db_ok (ow_db w')"
  proof (cases "guard_command (fe_can_post_commands (restate_pr bu api key))
      (ps_snapshot (object.now_state w)) (cq_target r)")
    case (Inl reason)
    from object.command_guarded [OF this] run assms show ?thesis by simp
  next
    case (Inr u)
    note g = Inr
    show ?thesis
    proof (cases res)
      case (Inl e)
      from object.same_simps [OF object.command_failed [OF run [unfolded Inl]]] assms show ?thesis by simp
    next
      case (Inr out)
      from object.command_outcome [OF run [unfolded Inr] g] assms show ?thesis by auto
    qed
  qed
  moreover have "object.bounded w'"
    by (rule object.command_bounded [OF _ run]) (simp add: object.bounded_def assms)
  ultimately show ?thesis using InCommand run by (simp add: object.bounded_def)
next
  case (InUpdateBranch r)
  obtain res w' where run: "run_update_branch (restate_pr bu api key) r w = (res, w')" by fastforce
  have "db_ok (ow_db w')"
  proof (cases "guard_target (ps_snapshot (object.now_state w)) (ub_target r)")
    case (Inl reason)
    from object.update_branch_guarded [OF this] run assms show ?thesis by simp
  next
    case (Inr u)
    note g = Inr
    show ?thesis
    proof (cases res)
      case (Inl e)
      from object.same_simps [OF object.update_branch_failed [OF run [unfolded Inl]]] assms show ?thesis by simp
    next
      case (Inr out)
      from object.update_branch_outcome [OF run [unfolded Inr] g] assms show ?thesis by auto
    qed
  qed
  moreover have "object.bounded w'"
    by (rule object.update_branch_bounded [OF _ run]) (simp add: object.bounded_def assms)
  ultimately show ?thesis using InUpdateBranch run by (simp add: object.bounded_def)
qed


lemma log_outcome_frame [simp]:
  "ps_sync_pending (log_outcome at a out st) = ps_sync_pending st"
  "ps_last_synced_at (log_outcome at a out st) = ps_last_synced_at st"
  by (simp_all add: log_outcome_def)

lemma synced_state_frame [simp]:
  "ps_sync_pending (synced_state r snap st) = ps_sync_pending st"
  "ps_last_synced_at (synced_state r snap st) = Some (pr_synced_at snap)"
  by (simp_all add: synced_state_def Let_def split: option.splits)

text \<open>Nothing but a sync sets the pending flag or moves the window.\<close>

lemma invoke_other:
  fixes bu api key debounce
  assumes "db_ok (ow_db w)" "\<forall>r. call \<noteq> InSync r"
  defines "w' \<equiv> invoke bu api key debounce call w"
  shows "ps_sync_pending (object.now_state w') \<longrightarrow>
    ps_sync_pending (object.now_state w) \<and>
    ps_last_synced_at (object.now_state w') = ps_last_synced_at (object.now_state w)"
proof (cases call)
  case (InSync r)
  with assms(2) show ?thesis by simp
next
  case (InClosed r)
  obtain res v where run: "run_closed (restate_pr bu api key) r w = (res, v)" by fastforce
  show ?thesis
  proof (cases res)
    case (Inl e)
    from object.same_simps [OF object.closed_failed [OF run [unfolded Inl]]] pending_frame [of v w]
    show ?thesis using InClosed run by (simp add: w'_def)
  next
    case (Inr out)
    from object.closed_outcome [OF run [unfolded Inr] assms(1)] show ?thesis
      using InClosed run
      by (auto simp: w'_def object.now_state_None default_pr_state_def split: if_splits)
  qed
next
  case (InMerge r)
  obtain res v where run: "run_merge (restate_pr bu api key) r w = (res, v)" by fastforce
  show ?thesis
  proof (cases "guard_target (ps_snapshot (object.now_state w)) (mr_target r)")
    case (Inl reason)
    from object.merge_guarded [OF this] run InMerge show ?thesis by (simp add: w'_def)
  next
    case (Inr u)
    note g = Inr
    show ?thesis
    proof (cases res)
      case (Inl e)
      from object.merge_failed [OF run [unfolded Inl] assms(1)] pending_frame [of v w] InMerge run
      show ?thesis by (simp add: w'_def)
    next
      case (Inr out)
      from object.merge_outcome [OF run [unfolded Inr] assms(1) g] InMerge run
      show ?thesis by (auto simp: w'_def object.now_state_Some split: if_splits)
    qed
  qed
next
  case (InCommand r)
  obtain res v where run: "run_command (restate_pr bu api key) r w = (res, v)" by fastforce
  show ?thesis
  proof (cases "guard_command (fe_can_post_commands (restate_pr bu api key))
      (ps_snapshot (object.now_state w)) (cq_target r)")
    case (Inl reason)
    from object.command_guarded [OF this] run InCommand show ?thesis by (simp add: w'_def)
  next
    case (Inr u)
    note g = Inr
    show ?thesis
    proof (cases res)
      case (Inl e)
      from object.same_simps [OF object.command_failed [OF run [unfolded Inl]]] pending_frame [of v w]
        InCommand run show ?thesis by (simp add: w'_def)
    next
      case (Inr out)
      from object.command_outcome [OF run [unfolded Inr] g] InCommand run
      show ?thesis by (auto simp: w'_def object.now_state_Some)
    qed
  qed
next
  case (InUpdateBranch r)
  obtain res v where run: "run_update_branch (restate_pr bu api key) r w = (res, v)" by fastforce
  show ?thesis
  proof (cases "guard_target (ps_snapshot (object.now_state w)) (ub_target r)")
    case (Inl reason)
    from object.update_branch_guarded [OF this] run InUpdateBranch show ?thesis by (simp add: w'_def)
  next
    case (Inr u)
    note g = Inr
    show ?thesis
    proof (cases res)
      case (Inl e)
      from object.same_simps [OF object.update_branch_failed [OF run [unfolded Inl]]] pending_frame [of v w]
        InUpdateBranch run show ?thesis by (simp add: w'_def)
    next
      case (Inr out)
      from object.update_branch_outcome [OF run [unfolded Inr] g] InUpdateBranch run
      show ?thesis by (auto simp: w'_def object.now_state_Some)
    qed
  qed
qed

text \<open>What a sync does to the flag: set with a timer of its own, left alone inside the window, or cleared.\<close>

lemma invoke_sync:
  fixes bu api debounce
  assumes "db_ok (ow_db w)" "clock_sane w" "display_pr_key (request_key r) = key"
  defines "w' \<equiv> invoke bu api key debounce (InSync r) w"
  shows "\<not> ps_sync_pending (object.now_state w') \<or>
    (\<exists>synced. ps_last_synced_at (object.now_state w) = Some synced \<and>
       ps_last_synced_at (object.now_state w') = Some synced \<and>
       unat (reading w) < unat synced + unat debounce \<and>
       (ps_sync_pending (object.now_state w) \<and> object.now_state w' = object.now_state w \<or>
        due_sends key w w' = [(unat (reading w) + unat debounce, r)] \<and> synced \<le> reading w))"
proof -
  obtain res v where run: "run_sync (restate_pr bu api key) r debounce w = (res, v)" by fastforce
  then have v: "w' = v" by (simp add: w'_def)
  show ?thesis
  proof (cases res)
    case (Inl e)
    have "\<not> (\<exists>e w1. fe_now (restate_pr bu api key) ''sync-clock'' w = (Inl e, w1))"
      by (simp add: restate_pr_def run_clock_step_def read_clock_def)
    with object.sync_failed [OF run [unfolded Inl]] show ?thesis
      by (simp add: v object.now_state_Some)
  next
    case (Inr out)
    note run' = run [unfolded Inr]
    show ?thesis
    proof (cases out)
      case SyDebounced
      from object.sync_debounced [OF run' [unfolded SyDebounced]] obtain now w1 where
        n: "fe_now (restate_pr bu api key) ''sync-clock'' w = (Inr now, w1)"
        and d: "should_debounce_sync (sr_bypass_debounce r) (ps_last_synced_at (object.now_state w)) now debounce"
        and st: "if ps_sync_pending (object.now_state w)
           then ow_object v = ow_object w \<and> ow_sends v = ow_sends w
           else ow_object v = Some ((object.now_state w)\<lparr>ps_sync_pending := True\<rparr>) \<and>
             ow_sends v = ow_sends w @ [(request_key r, r, Some debounce)]" by blast
      have now: "now = reading w" by (rule clock_first [OF n])
      from d obtain synced where s: "ps_last_synced_at (object.now_state w) = Some synced"
        and lt: "sat_sub now synced < debounce"
        by (auto simp: should_debounce_sync_def split: option.splits)
      have le: "synced \<le> now" using assms(2) s by (simp add: clock_sane_def now)
      have win: "unat (reading w) < unat synced + unat debounce"
        using lt le now by (simp add: word_less_nat_alt word_le_nat_alt unat_sat_sub)
      show ?thesis
      proof (cases "ps_sync_pending (object.now_state w)")
        case True
        with st pending_frame [of v w] s win show ?thesis by (simp add: v)
      next
        case False
        with st have "object.now_state v = (object.now_state w)\<lparr>ps_sync_pending := True\<rparr>"
          by (simp add: object.now_state_Some)
        moreover have "due_sends key w v = [(unat (reading w) + unat debounce, r)]"
          using st False assms(3) by (simp add: due_sends_def)
        ultimately show ?thesis using s win le now by (simp add: v)
      qed
    next
      case (SySynced sha)
      from object.sync_synced [OF run' [unfolded SySynced] assms(1)] show ?thesis
        by (auto simp: v object.now_state_Some)
    next
      case SyDeleted
      from object.sync_deleted [OF run' [unfolded SyDeleted] assms(1)] show ?thesis
        by (simp add: v object.now_state_None default_pr_state_def)
    qed
  qed
qed


lemma object_step_sound:
  "object_step bu api key debounce s s' \<Longrightarrow> object_sound s \<Longrightarrow> object_sound s'"
proof (induction rule: object_step.induct)
  case (called call w' w timers)
  with invoke_sound [of w bu api key debounce call] show ?case by (simp add: object_sound_def)
next
  case (fired due r timers w w')
  with invoke_sound [of w bu api key debounce "InSync r"] show ?case
    unfolding fired(4) by (simp only: object_sound_def fst_conv simp_thms)
next
  case (elsewhere w' w timers)
  with pending_frame [of w' w] show ?case by (simp add: object_sound_def)
qed

lemma object_reachable_sound:
  assumes "(object_step bu api key debounce)\<^sup>*\<^sup>* s s'" "object_sound s"
  shows "object_sound s'"
  using assms by (induction rule: rtranclp_induct) (auto intro: object_step_sound)

lemma trailing_called:
  fixes bu api
  assumes kept: "trailing_kept debounce (w, timers)" and "clock_sane w" and "addressed_to key call"
  defines "w' \<equiv> invoke bu api key debounce call w"
  assumes sound: "object_sound (w', timers @ due_sends key w w')"
  shows "trailing_kept debounce (w', timers @ due_sends key w w')"
proof (cases "ps_sync_pending (object.now_state w')")
  case False
  with sound show ?thesis by (simp add: trailing_kept_def)
next
  case pending: True
  have ok: "db_ok (ow_db w)" using kept by (simp add: trailing_kept_def object_sound_def)
  have "ps_sync_pending (object.now_state w) \<and>
      ps_last_synced_at (object.now_state w') = ps_last_synced_at (object.now_state w) \<or>
      (\<exists>synced r. ps_last_synced_at (object.now_state w') = Some synced \<and> synced \<le> reading w \<and>
         due_sends key w w' = [(unat (reading w) + unat debounce, r)])"
  proof (cases "\<exists>r. call = InSync r")
    case True
    then obtain r where r: "call = InSync r" by blast
    with assms(3) have a: "display_pr_key (request_key r) = key" by (simp add: addressed_to_def)
    from invoke_sync [OF ok assms(2) a, of bu api debounce] pending
    show ?thesis unfolding w'_def r by auto
  next
    case False
    with invoke_other [OF ok, of call bu api key debounce] pending show ?thesis unfolding w'_def by auto
  qed
  then show ?thesis
  proof (elim disjE exE conjE)
    assume p: "ps_sync_pending (object.now_state w)"
      and l: "ps_last_synced_at (object.now_state w') = ps_last_synced_at (object.now_state w)"
    from kept p have "\<exists>(due, r)\<in>set timers. \<forall>synced.
        ps_last_synced_at (object.now_state w) = Some synced \<longrightarrow> unat synced + unat debounce \<le> due"
      by (simp add: trailing_kept_def)
    with l sound show ?thesis by (auto simp: trailing_kept_def)
  next
    fix synced r
    assume "ps_last_synced_at (object.now_state w') = Some synced" "synced \<le> reading w"
      "due_sends key w w' = [(unat (reading w) + unat debounce, r)]"
    with sound show ?thesis by (auto simp: trailing_kept_def word_le_nat_alt)
  qed
qed

lemma trailing_fired:
  fixes bu api
  assumes kept: "trailing_kept debounce (w, timers)" and "clock_sane w" and "addressed_to key (InSync r)"
    and "due \<le> unat (reading w)"
  defines "w' \<equiv> invoke bu api key debounce (InSync r) w"
  assumes sound: "object_sound (w', remove1 (due, r) timers @ due_sends key w w')"
  shows "trailing_kept debounce (w', remove1 (due, r) timers @ due_sends key w w')"
proof -
  have ok: "db_ok (ow_db w)" using kept by (simp add: trailing_kept_def object_sound_def)
  have a: "display_pr_key (request_key r) = key" using assms(3) by (simp add: addressed_to_def)
  from invoke_sync [OF ok assms(2) a, of bu api debounce, folded w'_def] show ?thesis
  proof (elim disjE exE conjE)
    assume "\<not> ps_sync_pending (object.now_state w')"
    with sound show ?thesis by (simp add: trailing_kept_def)
  next
    fix synced
    assume l: "ps_last_synced_at (object.now_state w) = Some synced"
        "unat (reading w) < unat synced + unat debounce"
      and p: "ps_sync_pending (object.now_state w)" "object.now_state w' = object.now_state w"
    from kept p(1) l(1) obtain due2 r2 where t: "(due2, r2) \<in> set timers"
        "unat synced + unat debounce \<le> due2"
      by (auto simp: trailing_kept_def)
    with l(2) assms(4) have "(due2, r2) \<noteq> (due, r)" by auto
    with t(1) have "(due2, r2) \<in> set (remove1 (due, r) timers)" by (simp add: in_set_remove1)
    with t(2) l(1) p sound show ?thesis by (auto simp: trailing_kept_def)
  next
    fix synced
    assume "ps_last_synced_at (object.now_state w') = Some synced"
      "due_sends key w w' = [(unat (reading w) + unat debounce, r)]" "synced \<le> reading w"
    with sound show ?thesis by (auto simp: trailing_kept_def word_le_nat_alt)
  qed
qed

lemma trailing_steady_step:
  assumes "steady_step bu api key debounce s s'" "trailing_kept debounce s"
  shows "trailing_kept debounce s'"
proof -
  have step: "object_step bu api key debounce s s'" and sane: "clock_sane (fst s)"
    using assms(1) by (simp_all add: steady_step_def)
  have sound: "object_sound s'"
    using object_step_sound [OF step] assms(2) by (simp add: trailing_kept_def)
  from step sane assms(2) sound show ?thesis
  proof (induction rule: object_step.induct)
    case (called call w' w timers)
    then show ?case using trailing_called [of debounce w timers key call bu api] by simp
  next
    case (fired due r timers w w')
    then show ?case
      using trailing_fired [of debounce w timers key r due bu api] unfolding fired(4)
      by (simp only: fst_conv)
  next
    case (elsewhere w' w timers)
    with pending_frame [of w' w] show ?case by (simp add: trailing_kept_def)
  qed
qed

lemma trailing_reachable:
  assumes "(steady_step bu api key debounce)\<^sup>*\<^sup>* s s'" "trailing_kept debounce s"
  shows "trailing_kept debounce s'"
  using assms by (induction rule: rtranclp_induct) (auto intro: trailing_steady_step)

end
