(* ===== verification/Retirement.thy ===== *)
theory Retirement
  imports Pull_Request_Object
begin

text \<open>
  Draining the retirement outbox (\<^verbatim>\<open>apps/restate-service/src/retirement.rs\<close>): every pull
  request a prune removed is told it is gone, from what the store queued. The calls a drain
  makes are the record \<open>retirement_effects\<close>, as the trait \<open>RetirementEffects\<close> has them.
\<close>

record 'w retirement_effects =
  re_pending :: "('w, retirement list) handler"
  re_close :: "pr_key \<Rightarrow> closed_request \<Rightarrow> 'w \<Rightarrow> 'w"
  re_acknowledge :: "u64 \<Rightarrow> ('w, unit) handler"

text \<open>The proof a prune hands its drain.\<close>

datatype pruned = Pruned

primrec close_each :: "'w retirement_effects \<Rightarrow> retirement list \<Rightarrow> 'w \<Rightarrow> 'w" where
  "close_each R [] w = w"
| "close_each R (r # rs) w =
     close_each R rs (re_close R (rt_key r) \<lparr>cr_synced_before = rt_synced_before r\<rparr> w)"

definition retire_pending :: "pruned \<Rightarrow> 'w retirement_effects \<Rightarrow> ('w, nat) handler" where
  "retire_pending pruned R =
     andthen (re_pending R) (\<lambda>pending.
       if pending = [] then ok 0
       else
         andthen (put (close_each R pending)) (\<lambda>_.
         andthen (re_acknowledge R (rt_id (last pending))) (\<lambda>_. ok (length pending))))"

section \<open>The contract of the outbox\<close>

text \<open>The close a retirement calls for.\<close>

definition close_of :: "retirement \<Rightarrow> pr_key \<times> closed_request" where
  "close_of r = (rt_key r, \<lparr>cr_synced_before = rt_synced_before r\<rparr>)"

locale retirement_outbox =
  fixes R :: "'w retirement_effects"
    and outbox_of :: "'w \<Rightarrow> retirement list"
    and closes_of :: "'w \<Rightarrow> (pr_key \<times> closed_request) list"
    and sound :: "'w \<Rightarrow> bool"
  assumes read_outbox: "sound w \<Longrightarrow> re_pending R w = (res, w') \<Longrightarrow>
      outbox_of w' = outbox_of w \<and> closes_of w' = closes_of w \<and> sound w' \<and>
      (\<forall>rs. res = Inr rs \<longrightarrow> rs = outbox_of w)"
    and send_close: "outbox_of (re_close R k c w) = outbox_of w"
      "closes_of (re_close R k c w) = closes_of w @ [(k, c)]" "sound (re_close R k c w) = sound w"
    and acknowledge: "sound w \<Longrightarrow> re_acknowledge R n w = (Inr (), w') \<Longrightarrow>
      outbox_of w' = filter (\<lambda>r. \<not> rt_id r \<le> n) (outbox_of w) \<and> closes_of w' = closes_of w \<and> sound w'"
    and acknowledge_fails: "sound w \<Longrightarrow> re_acknowledge R n w = (Inl e, w') \<Longrightarrow>
      outbox_of w' = outbox_of w \<and> closes_of w' = closes_of w \<and> sound w'"
    and ordered: "sound w \<Longrightarrow> sorted_wrt (<) (map rt_id (outbox_of w))"
begin

lemma close_each_sends:
  "outbox_of (close_each R rs w) = outbox_of w \<and> sound (close_each R rs w) = sound w \<and>
   closes_of (close_each R rs w) = closes_of w @ map close_of rs"
  by (induction rs arbitrary: w) (simp_all add: send_close close_of_def)

lemma last_is_greatest:
  assumes "sound w" "r \<in> set (outbox_of w)"
  shows "rt_id r \<le> rt_id (last (outbox_of w))"
proof -
  obtain us where us: "outbox_of w = us @ [last (outbox_of w)]"
    using assms(2) by (metis append_butlast_last_id empty_iff list.set(1))
  have "sorted_wrt (<) (map rt_id (us @ [last (outbox_of w)]))"
    using ordered [OF assms(1)] us by simp
  moreover have "r \<in> set (us @ [last (outbox_of w)])" using assms(2) us by simp
  ultimately show ?thesis by (auto simp: sorted_wrt_append)
qed

text \<open>A drain that came back has told every pull request in the outbox, in order, and emptied it.\<close>

lemma drained:
  assumes "sound w" "retire_pending p R w = (Inr n, w')"
  shows "n = length (outbox_of w) \<and> outbox_of w' = [] \<and> sound w' \<and>
    closes_of w' = closes_of w @ map close_of (outbox_of w)"
proof -
  from assms(2) obtain pending w1 where r: "re_pending R w = (Inr pending, w1)"
    and rest: "(if pending = [] then ok 0
       else andthen (put (close_each R pending)) (\<lambda>_.
         andthen (re_acknowledge R (rt_id (last pending))) (\<lambda>_. ok (length pending)))) w1 = (Inr n, w')"
    unfolding retire_pending_def by (auto simp: andthen_Inr_iff)
  from read_outbox [OF assms(1) r] have
    1: "outbox_of w1 = outbox_of w" "closes_of w1 = closes_of w" "sound w1" "pending = outbox_of w" by auto
  show ?thesis
  proof (cases "pending = []")
    case True
    with rest 1 show ?thesis by simp
  next
    case False
    let ?w2 = "close_each R pending w1"
    from False rest obtain w3 where a: "re_acknowledge R (rt_id (last pending)) ?w2 = (Inr (), w3)"
      and w': "w' = w3" "n = length pending"
      by (auto simp: andthen_Inr_iff)
    have "sound ?w2" using close_each_sends 1 by simp
    from acknowledge [OF this a] have
      3: "outbox_of w3 = filter (\<lambda>r. \<not> rt_id r \<le> rt_id (last pending)) (outbox_of w)"
        "closes_of w3 = closes_of w @ map close_of pending" "sound w3"
      using close_each_sends [of pending w1] 1 by simp_all
    have "outbox_of w3 = []"
      using last_is_greatest [OF assms(1)] 1(4) 3(1) by (simp add: filter_empty_conv)
    with 3 w' 1(4) show ?thesis by simp
  qed
qed

text \<open>
  However a drain ended, nothing it did not tell has left the outbox: a retirement that is gone
  was closed.
\<close>

lemma drain_loses_nothing:
  assumes "sound w" "retire_pending p R w = (res, w')"
  shows "sound w' \<and> (\<exists>sent. closes_of w' = closes_of w @ map close_of sent \<and>
    set (outbox_of w) \<subseteq> set (outbox_of w') \<union> set sent \<and> set (outbox_of w') \<subseteq> set (outbox_of w))"
proof (cases "re_pending R w")
  case (Pair r w1)
  note 1 = read_outbox [OF assms(1) Pair]
  show ?thesis
  proof (cases r)
    case (Inl e)
    with assms(2) Pair have "w' = w1" by (simp add: retire_pending_def)
    with 1 show ?thesis by (auto intro: exI [of _ "[]"])
  next
    case (Inr pending)
    with 1 have p: "pending = outbox_of w" by simp
    show ?thesis
    proof (cases "pending = []")
      case True
      with assms(2) Pair Inr have "w' = w1" by (simp add: retire_pending_def)
      with 1 show ?thesis by (auto intro: exI [of _ "[]"])
    next
      case False
      let ?w2 = "close_each R pending w1"
      obtain ra w3 where a: "re_acknowledge R (rt_id (last pending)) ?w2 = (ra, w3)" by fastforce
      have w': "w' = w3"
        using assms(2) Pair Inr False a by (cases ra) (auto simp: retire_pending_def andthen_def)
      have 2: "sound ?w2" "outbox_of ?w2 = outbox_of w" "closes_of ?w2 = closes_of w @ map close_of pending"
        using close_each_sends [of pending w1] 1 by simp_all
      have "sound w3 \<and> closes_of w3 = closes_of ?w2 \<and> set (outbox_of w3) \<subseteq> set (outbox_of w)"
      proof (cases ra)
        case (Inl e)
        from acknowledge_fails [OF 2(1) a [unfolded Inl]] 2 show ?thesis by simp
      next
        case (Inr u)
        with a have "re_acknowledge R (rt_id (last pending)) ?w2 = (Inr (), w3)" by simp
        from acknowledge [OF 2(1) this] 2 show ?thesis by auto
      qed
      with w' 2 p show ?thesis by (intro conjI exI [of _ pending]) auto
    qed
  qed
qed

end

section \<open>The service's outbox\<close>

text \<open>The world of a sweeping object: what it has sent, beside the database.\<close>

record 'g sweep_world = "'g restate_world" +
  sw_closes :: "(pr_key \<times> closed_request) list"
  sw_reconciles :: "repo_record list"
  sw_syncs :: "(pr_key \<times> sync_request) list"

definition restate_retirements :: "budgets \<Rightarrow> 'g sweep_world retirement_effects" where
  "restate_retirements bu =
     \<lparr>re_pending = run_store_step bu SkOrdinary pending_retirements,
      re_close = (\<lambda>k c w. w\<lparr>sw_closes := sw_closes w @ [(k, c)]\<rparr>),
      re_acknowledge = (\<lambda>n. run_store_step bu SkOrdinary (acknowledge_retirements n))\<rparr>"

definition retirement_of_row :: "retirement_row \<Rightarrow> retirement" where
  "retirement_of_row y = \<lparr>rt_id = of_int (y_id y),
     rt_key = PrKey (of_int (y_repository_id y)) (of_int (y_number y)),
     rt_synced_before = map_option of_int (y_synced_before y)\<rparr>"

definition outbox_rows :: "db \<Rightarrow> retirement list" where
  "outbox_rows d = map retirement_of_row (db_retirements d)"

text \<open>The outbox's ids are \<open>i64\<close> row ids.\<close>

definition outbox_sound :: "db \<Rightarrow> bool" where
  "outbox_sound d \<longleftrightarrow> db_ok d \<and> db_retirement_sequence d < 2 ^ 63"

lemma more_sweep:
  assumes "restate_world.more w' = restate_world.more (w :: 'g sweep_world)"
  shows "sw_closes w' = sw_closes w \<and> sw_reconciles w' = sw_reconciles w \<and> sw_syncs w' = sw_syncs w"
  using assms by (cases w; cases w') simp

lemma pending_retirements_rows:
  assumes "outbox_ok d"
  shows "pending_retirements d = (Inr (outbox_rows d), d)"
proof -
  have "sort_key y_id (db_retirements d) = db_retirements d"
    using assms by (simp add: outbox_ok_def sort_key_id_if_sorted strict_sorted_iff)
  moreover have "map retirement_from_row (db_retirements d) = map (\<lambda>y. Inr (retirement_of_row y)) (db_retirements d)"
  proof (rule map_cong [OF refl])
    fix y
    assume "y \<in> set (db_retirements d)"
    with assms have "retirement_row_ok (db_retirement_sequence d) y" by (simp add: outbox_ok_def)
    then show "retirement_from_row y = Inr (retirement_of_row y)"
      by (cases "y_synced_before y")
        (auto simp: retirement_row_ok_def retirement_from_row_def retirement_of_row_def unsigned_def
          option_result_def)
  qed
  ultimately show ?thesis
    by (simp only: pending_retirements_def outbox_rows_def collect_results_map)
qed

lemma outbox_rows_ids:
  assumes "outbox_sound d"
  shows "map rt_id (outbox_rows d) = map (\<lambda>y. of_int (y_id y)) (db_retirements d)"
    and "\<forall>y\<in>set (db_retirements d). 0 < y_id y \<and> y_id y < 2 ^ 63"
proof -
  show "map rt_id (outbox_rows d) = map (\<lambda>y. of_int (y_id y)) (db_retirements d)"
    by (simp add: outbox_rows_def retirement_of_row_def)
  show "\<forall>y\<in>set (db_retirements d). 0 < y_id y \<and> y_id y < 2 ^ 63"
    using assms by (fastforce simp: outbox_sound_def db_ok_def outbox_ok_def retirement_row_ok_def)
qed

lemma uint_of_id: "0 < i \<Longrightarrow> i < 2 ^ 63 \<Longrightarrow> uint (of_int i :: u64) = i"
  by (simp add: uint_word_of_int)

lemma outbox_rows_sorted:
  assumes "outbox_sound d"
  shows "sorted_wrt (<) (map rt_id (outbox_rows d))"
proof -
  have "sorted_wrt (\<lambda>x y. y_id x < y_id y) (db_retirements d)"
    using assms by (simp add: outbox_sound_def db_ok_def outbox_ok_def sorted_wrt_map)
  then have "sorted_wrt (\<lambda>x y. (of_int (y_id x) :: u64) < of_int (y_id y)) (db_retirements d)"
  proof (rule sorted_wrt_mono_rel [rotated])
    fix x y
    assume "x \<in> set (db_retirements d)" "y \<in> set (db_retirements d)" "y_id x < y_id y"
    with outbox_rows_ids(2) [OF assms] show "(of_int (y_id x) :: u64) < of_int (y_id y)"
      by (simp add: word_less_def uint_of_id)
  qed
  then show ?thesis unfolding outbox_rows_ids(1) [OF assms] by (simp add: sorted_wrt_map)
qed

lemma acknowledge_rows:
  assumes "outbox_sound d" "acknowledge_retirements n d = (Inr (), d')"
  shows "outbox_rows d' = filter (\<lambda>r. \<not> rt_id r \<le> n) (outbox_rows d) \<and> outbox_sound d'"
proof -
  have fit: "fits n" and d': "d' = d\<lparr>db_retirements := filter (\<lambda>y. \<not> y_id y \<le> uint n) (db_retirements d)\<rparr>"
    using assms(2) by (auto simp: acknowledge_retirements_def lift_Inr integer_Inr fits_def)
  have "y_id y \<le> uint n \<longleftrightarrow> rt_id (retirement_of_row y) \<le> n" if "y \<in> set (db_retirements d)" for y
  proof -
    from outbox_rows_ids(2) [OF assms(1)] that have "uint (of_int (y_id y) :: u64) = y_id y"
      by (simp add: uint_of_id)
    then show ?thesis by (simp add: retirement_of_row_def word_le_def)
  qed
  then have "filter (\<lambda>y. \<not> y_id y \<le> uint n) (db_retirements d) =
      filter (\<lambda>y. \<not> rt_id (retirement_of_row y) \<le> n) (db_retirements d)"
    by (intro filter_cong) simp_all
  then have "outbox_rows d' = filter (\<lambda>r. \<not> rt_id r \<le> n) (outbox_rows d)"
    by (simp add: d' outbox_rows_def filter_map comp_def)
  moreover have "db_ok d'"
  proof -
    have "db_ok (snd (acknowledge_retirements n d))"
      using keeps_acknowledge [of n] assms(1) unfolding preserves_def outbox_sound_def by blast
    then show ?thesis using assms(2) by simp
  qed
  ultimately show ?thesis using assms(1) by (simp add: outbox_sound_def d')
qed

text \<open>Everything a drain has no business with: the other tables, and the sweeps and syncs asked for.\<close>

definition beside_outbox :: "'g sweep_world \<Rightarrow> db \<times> repo_record list \<times> (pr_key \<times> sync_request) list" where
  "beside_outbox w = ((ow_db w)\<lparr>db_retirements := []\<rparr>, sw_reconciles w, sw_syncs w)"

interpretation outbox: retirement_outbox "restate_retirements bu"
    "\<lambda>w. outbox_rows (ow_db w)" sw_closes "\<lambda>w. outbox_sound (ow_db w) \<and> beside_outbox w = beside"
proof unfold_locales
  fix w w' :: "'a sweep_world" and res n e k c
  show "outbox_sound (ow_db w) \<and> beside_outbox w = beside \<Longrightarrow> sorted_wrt (<) (map rt_id (outbox_rows (ow_db w)))"
    by (simp add: outbox_rows_sorted)
  {
    assume ok: "outbox_sound (ow_db w) \<and> beside_outbox w = beside"
      and "re_pending (restate_retirements bu) w = (res, w')"
    then have run: "run_store_step bu SkOrdinary pending_retirements w = (res, w')"
      by (simp add: restate_retirements_def)
    have "snd (pending_retirements d) = d" for d by (simp add: pending_retirements_def)
    from run_store_alike [OF run this] have s: "same_db w w'" .
    have "rs = outbox_rows (ow_db w)" if "res = Inr rs" for rs
      using run_store_Inr [OF run [unfolded that]] pending_retirements_rows [of "ow_db w"] ok
      by (auto simp: outbox_sound_def db_ok_def pending_retirements_def)
    with s show "outbox_rows (ow_db w') = outbox_rows (ow_db w) \<and> sw_closes w' = sw_closes w \<and>
        (outbox_sound (ow_db w') \<and> beside_outbox w' = beside) \<and> (\<forall>rs. res = Inr rs \<longrightarrow> rs = outbox_rows (ow_db w))"
      using more_sweep [of w' w] ok by (auto simp: same_db_def beside_outbox_def)
  next
    assume ok: "outbox_sound (ow_db w) \<and> beside_outbox w = beside"
      and "re_acknowledge (restate_retirements bu) n w = (Inr (), w')"
    then have "run_store_step bu SkOrdinary (acknowledge_retirements n) w = (Inr (), w')"
      by (simp add: restate_retirements_def)
    from run_store_Inr [OF this] have run: "acknowledge_retirements n (ow_db w) = (Inr (), ow_db w')"
      and own: "same_own w w'"
      by (auto simp: acknowledge_retirements_def andthen_Inl_iff)
    from run obtain a where
      "(ow_db w)\<lparr>db_retirements := filter (\<lambda>y. \<not> y_id y \<le> a) (db_retirements (ow_db w))\<rparr> = ow_db w'"
      by (auto simp: acknowledge_retirements_def andthen_Inr_iff)
    from arg_cong [OF this, of "\<lambda>d. d\<lparr>db_retirements := []\<rparr>"]
    have "(ow_db w')\<lparr>db_retirements := []\<rparr> = (ow_db w)\<lparr>db_retirements := []\<rparr>" by simp
    then show "outbox_rows (ow_db w') = filter (\<lambda>r. \<not> rt_id r \<le> n) (outbox_rows (ow_db w)) \<and>
        sw_closes w' = sw_closes w \<and> outbox_sound (ow_db w') \<and> beside_outbox w' = beside"
      using acknowledge_rows [OF _ run] more_sweep [of w' w] own ok
      by (auto simp: same_own_def beside_outbox_def)
  next
    assume ok: "outbox_sound (ow_db w) \<and> beside_outbox w = beside"
      and "re_acknowledge (restate_retirements bu) n w = (Inl e, w')"
    then have "run_store_step bu SkOrdinary (acknowledge_retirements n) w = (Inl e, w')"
      by (simp add: restate_retirements_def)
    from run_store_Inl [OF this] have "same_db w w'"
      by (auto simp: acknowledge_retirements_def andthen_Inl_iff)
    then show "outbox_rows (ow_db w') = outbox_rows (ow_db w) \<and> sw_closes w' = sw_closes w \<and>
        outbox_sound (ow_db w') \<and> beside_outbox w' = beside"
      using more_sweep [of w' w] ok by (auto simp: same_db_def beside_outbox_def)
  }
qed (simp_all add: restate_retirements_def beside_outbox_def)

end
