(* ===== verification/Installation_Sync.thy ===== *)
theory Installation_Sync
  imports Retirement
begin

text \<open>
  The \<open>InstallationSync\<close> object (\<^verbatim>\<open>apps/restate-service/src/installation_sync.rs\<close>): the
  scheduler that keeps one perpetual reconcile chain alive, the sweep that makes the
  projection's repositories GitHub's, and the purge. The scheduler with the ticks inside
  Restate is a state machine whose invariant is that the chain never forks.
\<close>

section \<open>The scheduler's transitions\<close>

record scheduler_state =
  sc_started :: bool
  sc_tick_pending :: bool
  sc_generation :: u64

text \<open>A tick carries its generation; one from before generations carries none.\<close>

type_synonym scheduler_tick = "u64 option"

definition default_scheduler :: scheduler_state where
  "default_scheduler = \<lparr>sc_started = False, sc_tick_pending = False, sc_generation = 0\<rparr>"

definition armed :: "u64 \<Rightarrow> scheduler_state" where
  "armed generation = \<lparr>sc_started = True, sc_tick_pending = True, sc_generation = generation\<rparr>"

definition next_scheduler_generation :: "u64 \<Rightarrow> handler_error + u64" where
  "next_scheduler_generation current =
     (case checked_add current 1 of
        None \<Rightarrow> Inl (Terminal ''scheduler generation overflow'') | Some g \<Rightarrow> Inr g)"

definition scheduler_start_transition :: "scheduler_state \<Rightarrow> handler_error + scheduler_state option" where
  "scheduler_start_transition st =
     (if sc_started st \<and> sc_tick_pending st then Inr None
      else
        bind_result
          (if sc_started st \<and> 0 < sc_generation st then Inr (sc_generation st)
           else next_scheduler_generation (sc_generation st))
          (\<lambda>generation. Inr (Some (armed generation))))"

definition scheduler_tick_transition ::
    "scheduler_state \<Rightarrow> scheduler_tick \<Rightarrow> handler_error + scheduler_state option" where
  "scheduler_tick_transition st incoming =
     (if \<not> sc_started st then Inr None
      else
        (case incoming of
           Some generation \<Rightarrow>
             if generation = sc_generation st then Inr (Some (armed generation)) else Inr None
         | None \<Rightarrow>
             if sc_tick_pending st then Inr None
             else bind_result (next_scheduler_generation (sc_generation st))
                    (\<lambda>generation. Inr (Some (armed generation)))))"

definition scheduler_pause_transition :: "scheduler_state \<Rightarrow> handler_error + scheduler_state" where
  "scheduler_pause_transition st =
     bind_result (next_scheduler_generation (sc_generation st)) (\<lambda>generation.
       Inr \<lparr>sc_started = False, sc_tick_pending = False, sc_generation = generation\<rparr>)"

section \<open>A tick\<close>

datatype start_outcome = AlreadyArmed | Armed u64
datatype tick_outcome = Dropped | Swept nat

record 'w tick_effects =
  te_persist :: "scheduler_state \<Rightarrow> 'w \<Rightarrow> 'w"
  te_schedule_tick :: "u64 \<Rightarrow> 'w \<Rightarrow> 'w"
  te_sweep :: "('w, nat) handler"

definition run_scheduler_tick ::
    "'w tick_effects \<Rightarrow> scheduler_state \<Rightarrow> scheduler_tick \<Rightarrow> ('w, tick_outcome) handler" where
  "run_scheduler_tick E st incoming =
     andthen (lift (scheduler_tick_transition st incoming)) (\<lambda>moved.
       case moved of
         None \<Rightarrow> ok Dropped
       | Some nxt \<Rightarrow>
           andthen (put (\<lambda>w. te_schedule_tick E (sc_generation nxt) (te_persist E nxt w))) (\<lambda>_.
           andthen (te_sweep E) (\<lambda>repositories. ok (Swept repositories))))"

text \<open>\<open>start\<close>: arms the chain unless a tick of its generation is already inside Restate.\<close>

definition run_start :: "'w tick_effects \<Rightarrow> scheduler_state \<Rightarrow> ('w, start_outcome) handler" where
  "run_start E st =
     andthen (lift (scheduler_start_transition st)) (\<lambda>moved.
       case moved of
         None \<Rightarrow> ok AlreadyArmed
       | Some nxt \<Rightarrow>
           andthen (put (\<lambda>w. te_schedule_tick E (sc_generation nxt) (te_persist E nxt w))) (\<lambda>_.
             ok (Armed (sc_generation nxt))))"

definition run_pause :: "'w tick_effects \<Rightarrow> scheduler_state \<Rightarrow> ('w, unit) handler" where
  "run_pause E st =
     andthen (lift (scheduler_pause_transition st)) (\<lambda>nxt. put (te_persist E nxt))"

section \<open>The sweep and the purge\<close>

record 'w sync_effects =
  ie_now :: "string \<Rightarrow> ('w, u64) handler"
  ie_list_repositories :: "('w, repo_record list) handler"
  ie_replace_repositories :: "repo_record list \<Rightarrow> u64 \<Rightarrow> ('w, pruned) handler"
  ie_purge_projection :: "u64 \<Rightarrow> ('w, pruned) handler"
  ie_reconcile_repository :: "repo_record \<Rightarrow> 'w \<Rightarrow> 'w"

definition run_installation_sync ::
    "'w sync_effects \<Rightarrow> 'w retirement_effects \<Rightarrow> ('w, nat) handler" where
  "run_installation_sync E R =
     andthen (ie_now E ''installation-reconcile-clock'') (\<lambda>reconcile_start.
     andthen (ie_list_repositories E) (\<lambda>repositories.
     andthen (ie_replace_repositories E repositories reconcile_start) (\<lambda>pruned.
     andthen (retire_pending pruned R) (\<lambda>_.
     andthen (put (fold (ie_reconcile_repository E) repositories)) (\<lambda>_.
       ok (length repositories))))))"

definition run_installation_purge ::
    "'w sync_effects \<Rightarrow> u64 \<Rightarrow> 'w retirement_effects \<Rightarrow> ('w, nat) handler" where
  "run_installation_purge E installation_id R =
     andthen (ie_purge_projection E installation_id) (\<lambda>pruned. retire_pending pruned R)"

text \<open>
  \<open>perform_installation_sync\<close> is what \<open>sync_now\<close> and a tick's sweep both run. \<open>purge\<close> pauses the
  chain as \<open>pause\<close> does before it reads the installation off the object's key.
\<close>

definition run_purge ::
    "'w tick_effects \<Rightarrow> 'w sync_effects \<Rightarrow> 'w retirement_effects \<Rightarrow> string \<Rightarrow> scheduler_state \<Rightarrow>
     ('w, nat) handler" where
  "run_purge T E R key st =
     andthen (run_pause T st) (\<lambda>_.
     andthen (lift (case parse_u64 key of
         None \<Rightarrow> Inl (Terminal ''installation key must be an integer'') | Some i \<Rightarrow> Inr i)) (\<lambda>installation_id.
       run_installation_purge E installation_id R))"

definition restate_sync ::
    "budgets \<Rightarrow> u64 \<Rightarrow> ('g \<Rightarrow> (github_error + repo_record list) \<times> 'g) \<Rightarrow> 'g sweep_world sync_effects" where
  "restate_sync bu installation_id list_repositories =
     \<lparr>ie_now = (\<lambda>_. run_clock_step),
      ie_list_repositories = andthen
        (run_github_step (restate_github_step bu ''list-installation-repositories'' OpRead False list_repositories))
        (\<lambda>repositories. lift (read_result repositories)),
      ie_replace_repositories = (\<lambda>repos before.
        andthen (run_store_step bu SkOrdinary (replace_installation_repos installation_id repos before))
          (\<lambda>_. ok Pruned)),
      ie_purge_projection = (\<lambda>i.
        andthen (run_store_step bu SkOrdinary (purge_installation i)) (\<lambda>_. ok Pruned)),
      ie_reconcile_repository = (\<lambda>r w. w\<lparr>sw_reconciles := sw_reconciles w @ [r]\<rparr>)\<rparr>"

section \<open>The chain never forks\<close>

text \<open>
  The object's scheduler state and the ticks inside Restate: sent and not yet delivered, in any
  order. A tick is delivered once; whether its sweep then succeeds does not matter, since the
  state and the next tick are journaled before it.
\<close>

record chain =
  ch_state :: scheduler_state
  ch_ticks :: "scheduler_tick list"

definition chain_effects :: "('w \<Rightarrow> handler_error + nat) \<Rightarrow> (chain \<times> 'w) tick_effects" where
  "chain_effects sweep =
     \<lparr>te_persist = (\<lambda>st (c, w). (c\<lparr>ch_state := st\<rparr>, w)),
      te_schedule_tick = (\<lambda>g (c, w). (c\<lparr>ch_ticks := ch_ticks c @ [Some g]\<rparr>, w)),
      te_sweep = (\<lambda>(c, w). (sweep w, c, w))\<rparr>"

inductive chain_step :: "('w \<Rightarrow> handler_error + nat) \<Rightarrow> chain \<times> 'w \<Rightarrow> chain \<times> 'w \<Rightarrow> bool"
  for sweep :: "'w \<Rightarrow> handler_error + nat" where
    starts: "chain_step sweep (c, w) (snd (run_start (chain_effects sweep) (ch_state c) (c, w)))"
  | pauses: "chain_step sweep (c, w) (snd (run_pause (chain_effects sweep) (ch_state c) (c, w)))"
  | purges: "(\<And>i s. fst (snd (run_installation_purge E i R s)) = fst s) \<Longrightarrow>
      chain_step sweep (c, w) (snd (run_purge (chain_effects sweep) E R key (ch_state c) (c, w)))"
  | ticks: "t \<in> set (ch_ticks c) \<Longrightarrow>
      chain_step sweep (c, w) (snd (run_scheduler_tick (chain_effects sweep) (ch_state c) t
        (c\<lparr>ch_ticks := remove1 t (ch_ticks c)\<rparr>, w)))"
  | elsewhere: "chain_step sweep (c, w) (c, w')"

definition live_ticks :: "chain \<Rightarrow> nat" where
  "live_ticks c = count_list (ch_ticks c) (Some (sc_generation (ch_state c)))"

text \<open>
  No tick is from a generation to come, and the promise of \<open>tick_pending\<close> is kept exactly: one
  tick of the current generation when it is set, none when it is not.
\<close>

definition chain_ok :: "chain \<Rightarrow> bool" where
  "chain_ok c \<longleftrightarrow>
     (\<forall>g. Some g \<in> set (ch_ticks c) \<longrightarrow> g \<le> sc_generation (ch_state c)) \<and>
     live_ticks c = (if sc_tick_pending (ch_state c) then 1 else 0) \<and>
     (sc_tick_pending (ch_state c) \<longrightarrow> sc_started (ch_state c))"

lemma armed_simps [simp]:
  "sc_started (armed g)" "sc_tick_pending (armed g)" "sc_generation (armed g) = g"
  by (simp_all add: armed_def)

lemma next_generation_Inr:
  "next_scheduler_generation g = Inr g' \<Longrightarrow> g < g'"
  by (auto simp: next_scheduler_generation_def split: option.splits dest: checked_add_greater)

lemma count_list_fresh:
  "\<forall>g. Some g \<in> set ts \<longrightarrow> g \<le> cur \<Longrightarrow> cur < (g' :: u64) \<Longrightarrow> count_list ts (Some g') = 0"
  by (rule count_notin) (metis leD)

lemma count_list_remove1:
  "t \<in> set ts \<Longrightarrow> count_list (remove1 t ts) x = count_list ts x - (if x = t then 1 else 0)"
  by (induction ts) (auto simp: count_list_0_iff)

text \<open>A generation armed anew starts one chain.\<close>

lemma arm_fresh:
  assumes "\<forall>g. Some g \<in> set (ch_ticks c) \<longrightarrow> g \<le> cur" "cur < g'"
  shows "chain_ok (c\<lparr>ch_state := armed g', ch_ticks := ch_ticks c @ [Some g']\<rparr>)"
  using assms count_list_fresh [OF assms] less_le_trans
  by (auto simp: chain_ok_def live_ticks_def less_imp_le intro: le_less_trans less_imp_le)

text \<open>A purge does to the chain what a pause does; \<open>sync_now\<close> does nothing to it.\<close>

lemma purge_pauses:
  assumes "\<And>i s. fst (snd (run_installation_purge E i R s)) = fst s"
  shows "fst (snd (run_purge (chain_effects sweep) E R key st (c, w))) =
    fst (snd (run_pause (chain_effects sweep) st (c, w)))"
  using assms
  by (cases "scheduler_pause_transition st")
    (auto simp: run_purge_def run_pause_def andthen_def chain_effects_def lift_def split: option.split)

lemma pause_ok:
  assumes "chain_ok c"
  shows "chain_ok (fst (snd (run_pause (chain_effects sweep) (ch_state c) (c, w))))"
proof -
  let ?st = "ch_state c"
  have old: "\<forall>g. Some g \<in> set (ch_ticks c) \<longrightarrow> g \<le> sc_generation ?st"
    using assms by (auto simp: chain_ok_def)
  show ?thesis
  proof (cases "scheduler_pause_transition ?st")
    case (Inl e)
    with assms show ?thesis by (simp add: run_pause_def)
  next
    case (Inr nxt)
    then obtain g where g: "next_scheduler_generation (sc_generation ?st) = Inr g"
      "nxt = \<lparr>sc_started = False, sc_tick_pending = False, sc_generation = g\<rparr>"
      by (auto simp: scheduler_pause_transition_def bind_result_Inr)
    have lt: "sc_generation ?st < g" by (rule next_generation_Inr [OF g(1)])
    have "fst (snd (run_pause (chain_effects sweep) ?st (c, w))) = c\<lparr>ch_state := nxt\<rparr>"
      using Inr by (simp add: run_pause_def andthen_def chain_effects_def)
    with g lt old count_list_fresh [OF old lt] show ?thesis
      by (auto simp: chain_ok_def live_ticks_def intro: less_imp_le le_less_trans)
  qed
qed

lemma chain_step_ok:
  assumes "chain_step sweep s s'" "chain_ok (fst s)"
  shows "chain_ok (fst s')"
  using assms
proof (induction rule: chain_step.induct)
  case (starts c w)
  let ?st = "ch_state c"
  have old: "\<forall>g. Some g \<in> set (ch_ticks c) \<longrightarrow> g \<le> sc_generation ?st"
    and live: "live_ticks c = (if sc_tick_pending ?st then 1 else 0)"
    using starts by (auto simp: chain_ok_def)
  show ?case
  proof (cases "scheduler_start_transition ?st")
    case (Inl e)
    with starts show ?thesis by (simp add: run_start_def)
  next
    case (Inr moved)
    show ?thesis
    proof (cases moved)
      case None
      with Inr starts show ?thesis by (simp add: run_start_def andthen_def)
    next
      case (Some nxt)
      have run: "fst (snd (run_start (chain_effects sweep) ?st (c, w))) =
          c\<lparr>ch_state := nxt, ch_ticks := ch_ticks c @ [Some (sc_generation nxt)]\<rparr>"
        using Inr Some by (simp add: run_start_def andthen_def chain_effects_def)
      from Inr Some have "nxt = armed (sc_generation nxt)" and
        "(sc_started ?st \<and> \<not> sc_tick_pending ?st \<and> sc_generation nxt = sc_generation ?st) \<or>
         sc_generation ?st < sc_generation nxt"
        by (auto simp: scheduler_start_transition_def bind_result_Inr split: if_splits
            dest: next_generation_Inr)
      then show ?thesis
      proof (elim disjE conjE)
        assume n: "nxt = armed (sc_generation nxt)" "\<not> sc_tick_pending ?st" "sc_generation nxt = sc_generation ?st"
        with old live show ?thesis
          unfolding run by (subst n(1)) (auto simp: chain_ok_def live_ticks_def)
      next
        assume n: "nxt = armed (sc_generation nxt)" "sc_generation ?st < sc_generation nxt"
        from arm_fresh [OF old n(2)] show ?thesis unfolding run using n(1) by simp
      qed
    qed
  qed
next
  case (pauses c w)
  then show ?case by (simp add: pause_ok)
next
  case (purges E R c w key)
  then show ?case by (simp only: purge_pauses [OF purges(1)] fst_conv pause_ok)
next
  case (ticks t c w)
  let ?st = "ch_state c" and ?c = "c\<lparr>ch_ticks := remove1 t (ch_ticks c)\<rparr>"
  have old: "\<forall>g. Some g \<in> set (ch_ticks c) \<longrightarrow> g \<le> sc_generation ?st"
    and live: "live_ticks c = (if sc_tick_pending ?st then 1 else 0)"
    and pend: "sc_tick_pending ?st \<longrightarrow> sc_started ?st"
    using ticks by (auto simp: chain_ok_def)
  have old': "\<forall>g. Some g \<in> set (ch_ticks ?c) \<longrightarrow> g \<le> sc_generation ?st"
    using old set_remove1_subset [of t "ch_ticks c"] by auto
  have rem: "count_list (remove1 t (ch_ticks c)) x = count_list (ch_ticks c) x - (if x = t then 1 else 0)" for x
    by (rule count_list_remove1 [OF ticks(1)])
  show ?case
  proof (cases "scheduler_tick_transition ?st t")
    case (Inl e)
    then have "t = None" by (auto simp: scheduler_tick_transition_def split: option.splits if_splits)
    with Inl old' live pend rem show ?thesis
      by (simp add: run_scheduler_tick_def chain_ok_def live_ticks_def)
  next
    case (Inr moved)
    show ?thesis
    proof (cases moved)
      case None
      have "t \<noteq> Some (sc_generation ?st)"
      proof
        assume t: "t = Some (sc_generation ?st)"
        then have "count_list (ch_ticks c) (Some (sc_generation ?st)) \<noteq> 0"
          using ticks(1) by (simp add: count_list_0_iff)
        with live pend have "sc_started ?st" by (auto simp: live_ticks_def split: if_splits)
        with t Inr None show False by (simp add: scheduler_tick_transition_def)
      qed
      with Inr None old' live pend rem [of "Some (sc_generation ?st)"] show ?thesis
        by (auto simp: run_scheduler_tick_def andthen_def chain_ok_def live_ticks_def)
    next
      case (Some nxt)
      have fst: "fst (snd (run_scheduler_tick (chain_effects sweep) ?st t (?c, w))) =
          ?c\<lparr>ch_state := nxt, ch_ticks := ch_ticks ?c @ [Some (sc_generation nxt)]\<rparr>"
        using Inr Some
        by (cases "sweep w") (simp_all add: run_scheduler_tick_def andthen_def chain_effects_def)
      from Inr Some have "nxt = armed (sc_generation nxt)" and
        "t = Some (sc_generation ?st) \<and> sc_generation nxt = sc_generation ?st \<or>
         sc_generation ?st < sc_generation nxt"
        by (auto simp: scheduler_tick_transition_def bind_result_Inr split: if_splits option.splits
            dest: next_generation_Inr)
      then show ?thesis
      proof (elim disjE conjE)
        assume n: "nxt = armed (sc_generation nxt)" "t = Some (sc_generation ?st)"
          "sc_generation nxt = sc_generation ?st"
        have "count_list (remove1 t (ch_ticks c)) (Some (sc_generation ?st)) = 0"
          using rem [of "Some (sc_generation ?st)"] n(2) live by (simp add: live_ticks_def split: if_splits)
        with n old' show ?thesis
          unfolding fst by (subst n(1)) (auto simp: chain_ok_def live_ticks_def)
      next
        assume n: "nxt = armed (sc_generation nxt)" "sc_generation ?st < sc_generation nxt"
        from arm_fresh [OF old' n(2)] show ?thesis unfolding fst using n(1) by simp
      qed
    qed
  qed
next
  case (elsewhere c w w')
  then show ?case by simp
qed

lemma chain_reachable_ok:
  "(chain_step sweep)\<^sup>*\<^sup>* s s' \<Longrightarrow> chain_ok (fst s) \<Longrightarrow> chain_ok (fst s')"
  by (induction rule: rtranclp_induct) (auto intro: chain_step_ok)

lemma chain_ok_initial: "set ts \<subseteq> {None} \<Longrightarrow> chain_ok \<lparr>ch_state = default_scheduler, ch_ticks = ts\<rparr>"
  by (auto simp: chain_ok_def live_ticks_def default_scheduler_def count_list_0_iff)

end
