(* ===== verification/Github_Answers.thy ===== *)
theory Github_Answers
  imports Restate_World
begin

text \<open>
  What GitHub answered a journaled step (\<^verbatim>\<open>apps/restate-service/src/github.rs\<close>): the answer a step
  settled by, told apart from the failed ones before it. A handler's result is tied by it to what
  GitHub said, whatever the step retried or waited for.
\<close>

section \<open>The answer a step acts on\<close>

text \<open>
  GitHub asked once, or again after failing: \<open>r\<close> is the last answer, which leaves GitHub as \<open>g'\<close>.
\<close>

inductive github_answers :: "('g \<Rightarrow> (github_error + 'a) \<times> 'g) \<Rightarrow> 'g \<Rightarrow> github_error + 'a \<Rightarrow> 'g \<Rightarrow> bool"
  for call :: "'g \<Rightarrow> (github_error + 'a) \<times> 'g" where
    at_once: "call g = (r, g') \<Longrightarrow> github_answers call g r g'"
  | after_failing: "call g = (Inl e, g1) \<Longrightarrow> github_answers call g1 r g' \<Longrightarrow> github_answers call g r g'"

text \<open>Every answer to a later question is one to an earlier question.\<close>

definition asked_again :: "('g \<Rightarrow> (github_error + 'a) \<times> 'g) \<Rightarrow> 'g \<Rightarrow> 'g \<Rightarrow> bool" where
  "asked_again call g g' \<longleftrightarrow> (\<forall>r h. github_answers call g' r h \<longrightarrow> github_answers call g r h)"

lemma asked_again_refl: "asked_again call g g"
  and asked_again_trans: "asked_again call a b \<Longrightarrow> asked_again call b c \<Longrightarrow> asked_again call a c"
  by (simp_all add: asked_again_def)

lemma answers_failed: "github_answers call g (Inl e) g' \<Longrightarrow> asked_again call g g'"
proof -
  have "asked_again call g g'" if "github_answers call g r g'" "r = Inl e" for r
    using that by (induction rule: github_answers.induct) (auto simp: asked_again_def intro: github_answers.after_failing)
  then show "github_answers call g (Inl e) g' \<Longrightarrow> asked_again call g g'" by blast
qed

lemma journaled_success: "journal_github_result (Inr v) op known now = Inr (AtSettled (SOk v))"
  by (simp add: journal_github_result_def)

lemma github_attempt_answers:
  assumes "github_attempt bu op known call w = (Inr a, w')"
  shows "\<exists>r now. github_answers call (ow_remote w) r (ow_remote w') \<and>
    journal_github_result r op known now = Inr a"
proof -
  let ?J = "\<lambda>v v'. asked_again call (ow_remote v) (ow_remote v')"
  from assms have "\<exists>w1. ?J w w1 \<and> (let (result, g) = call (ow_remote w1);
           (now, w2) = read_clock (w1\<lparr>ow_remote := g\<rparr>)
       in (journal_github_result result op known now, w2)) = (Inr a, w')"
    unfolding github_attempt_def
  proof (rule restate_run_Inr)
    fix v e v'
    assume v: "(let (result, g) = call (ow_remote v); (now, w1) = read_clock (v\<lparr>ow_remote := g\<rparr>)
        in (journal_github_result result op known now, w1)) = (Inl e, v')"
    then obtain r where r: "call (ow_remote v) = (r, ow_remote v')"
        "journal_github_result r op known (ow_times v (ow_reads v)) = Inl e"
      by (auto simp: read_clock_def Let_def split: prod.splits)
    then obtain e' where "r = Inl e'" by (cases r) (simp_all add: journaled_success)
    with r(1) show "?J v v'" by (auto intro: answers_failed github_answers.at_once)
  qed (auto intro: asked_again_refl asked_again_trans)
  then obtain w1 where j: "?J w w1" and step: "(let (result, g) = call (ow_remote w1);
           (now, w2) = read_clock (w1\<lparr>ow_remote := g\<rparr>)
       in (journal_github_result result op known now, w2)) = (Inr a, w')" by blast
  then obtain r where "call (ow_remote w1) = (r, ow_remote w')"
      "journal_github_result r op known (ow_times w1 (ow_reads w1)) = Inr a"
    by (auto simp: read_clock_def Let_def split: prod.splits)
  with j show ?thesis unfolding asked_again_def by (blast intro: github_answers.at_once)
qed

lemma step_attempts: "gs_attempt (restate_github_step bu name op known call) = github_attempt bu op known call"
  by (simp add: restate_github_step_def)

lemma step_sleeps:
  "gs_sleep_until (restate_github_step bu name op known call) until w = (r, w') \<Longrightarrow> ow_remote w' = ow_remote w"
  by (auto simp: restate_github_step_def read_clock_def)

lemma github_loop_answers:
  fixes w :: "('g, 'm) restate_world_scheme" and call :: "'g \<Rightarrow> (github_error + 'a) \<times> 'g"
  assumes "github_loop (restate_github_step bu name op known call) n w = (Inr s, w')"
  shows "\<exists>r now. github_answers call (ow_remote w) r (ow_remote w') \<and>
    journal_github_result r op known now = Inr (AtSettled s)"
  using assms
proof (induction n arbitrary: w)
  case 0
  let ?step = "restate_github_step bu name op known call :: (('g, 'm) restate_world_scheme, 'a) github_step"
  from 0 obtain a w1 where a: "github_attempt bu op known call w = (Inr a, w1)"
    and "(case a of AtSettled answer \<Rightarrow> ok answer | AtRateLimited until response \<Rightarrow>
      fail (Terminal (rate_limit_message (gs_name ?step) until (er_message response)))) w1 = (Inr s, w')"
    by (auto simp: andthen_Inr_iff or_terminal_Inr step_attempts)
  then have "github_attempt bu op known call w = (Inr (AtSettled s), w')"
    by (cases a) (simp_all add: fail_def ok_def)
  then show ?case by (rule github_attempt_answers)
next
  case (Suc n)
  let ?step = "restate_github_step bu name op known call :: (('g, 'm) restate_world_scheme, 'a) github_step"
  from Suc.prems obtain a w1 where att: "github_attempt bu op known call w = (Inr a, w1)"
    and rest: "(case a of AtSettled answer \<Rightarrow> ok answer
       | AtRateLimited until response \<Rightarrow>
           andthen (or_terminal (gs_sleep_until ?step until)) (\<lambda>_. github_loop ?step n)) w1 = (Inr s, w')"
    by (auto simp: andthen_Inr_iff or_terminal_Inr step_attempts)
  obtain r now where r: "github_answers call (ow_remote w) r (ow_remote w1)"
      "journal_github_result r op known now = Inr a"
    using github_attempt_answers [OF att] by blast
  show ?case
  proof (cases a)
    case (AtSettled answer)
    with rest r show ?thesis by (auto simp: ok_def)
  next
    case (AtRateLimited until response)
    with r(2) obtain e where e: "r = Inl e" by (cases r) (simp_all add: journaled_success)
    from rest AtRateLimited obtain w2 where "ow_remote w2 = ow_remote w1"
        "github_loop ?step n w2 = (Inr s, w')"
      by (auto simp: andthen_Inr_iff or_terminal_Inr dest!: step_sleeps)
    with Suc.IH [of w2] answers_failed [OF r(1) [unfolded e]] show ?thesis
      unfolding asked_again_def by fastforce
  qed
qed

section \<open>What each settled answer was\<close>

text \<open>A step settled by a value is GitHub's last answer.\<close>

lemma github_step_answered:
  assumes "run_github_step (restate_github_step bu name op known call) w = (Inr (SOk v), w')"
  shows "github_answers call (ow_remote w) (Inr v) (ow_remote w')"
proof -
  obtain r now where r: "github_answers call (ow_remote w) r (ow_remote w')"
      "journal_github_result r op known now = Inr (AtSettled (SOk v))"
    using github_loop_answers [OF assms [unfolded run_github_step_def]] by blast
  from r(2) have "r = Inr v"
    by (auto simp: journal_github_result_def split: sum.splits github_error.splits classification.splits)
  with r(1) show ?thesis by simp
qed

text \<open>A read settled as rejected was a 404, of a resource the caller or the client knew.\<close>

lemma github_read_rejected:
  assumes "run_github_step (restate_github_step bu name OpRead known call) w =
    (Inr (SRejected reason response), w')"
  shows "\<exists>verified. github_answers call (ow_remote w) (Inl (GeHttp response verified)) (ow_remote w') \<and>
    er_status response = 404 \<and> (known \<or> verified) \<and> reason = NotFound"
proof -
  obtain r now where r: "github_answers call (ow_remote w) r (ow_remote w')"
      "journal_github_result r OpRead known now = Inr (AtSettled (SRejected reason response))"
    using github_loop_answers [OF assms [unfolded run_github_step_def]] by blast
  from r(2) obtain verified where v: "r = Inl (GeHttp response verified)"
      "classify_github_error response OpRead (known \<or> verified) now = ClRejected reason"
    by (auto simp: journal_github_result_def split: sum.splits github_error.splits classification.splits)
  have "reason = NotFound" by (rule classify_read [OF v(2)])
  with v r(1) classify_not_found_iff [of response OpRead "known \<or> verified" now] show ?thesis by auto
qed

end
