(* ===== verification/Text.thy ===== *)
theory Text
  imports Prelude
begin

text \<open>
  The string operations of the standard library that cut a text: white space and given
  characters trimmed at its ends, the first place a text is found, the part after a separator.
\<close>

text \<open>
  \<open>str::trim\<close>: the Unicode white space characters, by the UTF-8 bytes that spell them, at
  the head of a text; the number of bytes such a character takes.
\<close>

definition bytes_at :: "string \<Rightarrow> nat list" where
  "bytes_at s = map byte (take 3 s)"

definition space_bytes :: "nat list list" where
  "space_bytes = [[9], [10], [11], [12], [13], [32], [194, 133], [194, 160], [225, 154, 128]] @
     map (\<lambda>b. [226, 128, b]) ([128..<139] @ [168, 169, 175]) @ [[226, 129, 159], [227, 128, 128]]"

definition head_space :: "string \<Rightarrow> nat" where
  "head_space s =
     (case find (\<lambda>bs. map byte (take (length bs) s) = bs) space_bytes of
        None \<Rightarrow> 0 | Some bs \<Rightarrow> length bs)"

definition last_space :: "string \<Rightarrow> nat" where
  "last_space s =
     (case find (\<lambda>bs. map byte (drop (length s - length bs) s) = bs \<and> length bs \<le> length s)
        space_bytes of
        None \<Rightarrow> 0 | Some bs \<Rightarrow> length bs)"

lemma find_space_nonempty: "find P space_bytes = Some bs \<Longrightarrow> bs \<noteq> []"
proof -
  assume "find P space_bytes = Some bs"
  then have "bs \<in> set space_bytes" by (auto simp: find_Some_iff)
  then show "bs \<noteq> []" by (auto simp: space_bytes_def)
qed

function trim_start :: "string \<Rightarrow> string" where
  "trim_start s = (if head_space s = 0 \<or> s = [] then s else trim_start (drop (head_space s) s))"
  by pat_completeness auto
termination by (relation "measure length") auto

function trim_end :: "string \<Rightarrow> string" where
  "trim_end s =
     (if last_space s = 0 \<or> s = [] then s else trim_end (take (length s - last_space s) s))"
  by pat_completeness auto
termination by (relation "measure length") auto

declare trim_start.simps [simp del] trim_end.simps [simp del]

definition trim :: "string \<Rightarrow> string" where
  "trim s = trim_end (trim_start s)"

text \<open>\<open>trim_matches\<close> and \<open>trim_start_matches\<close> with a predicate on characters of one byte.\<close>

definition trim_start_matches :: "(char \<Rightarrow> bool) \<Rightarrow> string \<Rightarrow> string" where
  "trim_start_matches p s = dropWhile p s"

definition trim_end_matches :: "(char \<Rightarrow> bool) \<Rightarrow> string \<Rightarrow> string" where
  "trim_end_matches p s = rev (dropWhile p (rev s))"

definition trim_matches :: "(char \<Rightarrow> bool) \<Rightarrow> string \<Rightarrow> string" where
  "trim_matches p s = trim_end_matches p (trim_start_matches p s)"

text \<open>\<open>find\<close>: the offset of the first occurrence.\<close>

fun str_find :: "string \<Rightarrow> string \<Rightarrow> nat option" where
  "str_find [] p = (if p = [] then Some 0 else None)"
| "str_find (c # s) p =
     (if starts_with (c # s) p then Some 0 else map_option Suc (str_find s p))"

text \<open>\<open>rsplit(c).next()\<close>: what follows the last separator, the whole text when there is none.\<close>

definition after_last :: "char \<Rightarrow> string \<Rightarrow> string" where
  "after_last c s = rev (takeWhile (\<lambda>x. x \<noteq> c) (rev s))"

text \<open>\<open>replace\<close> of a non-empty text, and \<open>strip_suffix\<close>.\<close>

function replace_all :: "string \<Rightarrow> string \<Rightarrow> string \<Rightarrow> string" where
  "replace_all p r s =
     (if s = [] \<or> p = [] then s
      else if starts_with s p then r @ replace_all p r (drop (length p) s)
      else hd s # replace_all p r (tl s))"
  by pat_completeness auto
termination
  by (relation "measure (\<lambda>(p, r, s). length s)") auto

declare replace_all.simps [simp del]

definition strip_suffix :: "string \<Rightarrow> string \<Rightarrow> string option" where
  "strip_suffix s p = map_option rev (strip_prefix (rev s) (rev p))"

text \<open>\<open>String::from_utf8\<close>: the byte sequences that spell characters, none in more bytes than it takes.\<close>

fun utf8_valid :: "nat list \<Rightarrow> bool" where
  "utf8_valid [] \<longleftrightarrow> True"
| "utf8_valid (a # s) \<longleftrightarrow>
     (if a < 128 then utf8_valid s
      else if 194 \<le> a \<and> a < 224 then
        (case s of b # t \<Rightarrow> 128 \<le> b \<and> b < 192 \<and> utf8_valid t | [] \<Rightarrow> False)
      else if 224 \<le> a \<and> a < 240 then
        (case s of
           b # c # t \<Rightarrow>
             (if a = 224 then 160 else 128) \<le> b \<and> b < (if a = 237 then 160 else 192) \<and>
             128 \<le> c \<and> c < 192 \<and> utf8_valid t
         | _ \<Rightarrow> False)
      else if 240 \<le> a \<and> a < 245 then
        (case s of
           b # c # d # t \<Rightarrow>
             (if a = 240 then 144 else 128) \<le> b \<and> b < (if a = 244 then 144 else 192) \<and>
             128 \<le> c \<and> c < 192 \<and> 128 \<le> d \<and> d < 192 \<and> utf8_valid t
         | _ \<Rightarrow> False)
      else False)"

definition from_utf8 :: "string \<Rightarrow> string option" where
  "from_utf8 bytes = (if utf8_valid (map byte bytes) then Some bytes else None)"

definition eq_ignore_ascii_case :: "string \<Rightarrow> string \<Rightarrow> bool" where
  "eq_ignore_ascii_case a b \<longleftrightarrow> to_ascii_lowercase a = to_ascii_lowercase b"

text \<open>\<open>split_once\<close> with a text.\<close>

definition split_once_str :: "string \<Rightarrow> string \<Rightarrow> (string \<times> string) option" where
  "split_once_str s p = map_option (\<lambda>n. (take n s, drop (n + length p) s)) (str_find s p)"

end
