(* ===== verification/Store_Filter.thy ===== *)
theory Store_Filter
  imports Store Text
begin

text \<open>
  How a filter becomes the \<open>WHERE\<close> clause of the dashboard's reads
  (\<^verbatim>\<open>crates/store/src/filter.rs\<close>, \<^verbatim>\<open>scope.rs\<close>). A rendered condition is the shape of its SQL
  with the numbers of the parameters it names, and the parameters are the list the code
  binds; \<open>holds_on\<close> gives SQL's meaning of a condition on a row. The specification is
  \<open>matches\<close>, which reads the filter directly; \<open>scoped_filter_matches\<close> shows that the
  numbered clause selects exactly the rows that match.
\<close>

section \<open>Text\<close>

text \<open>\<open>escape_like\<close>: three replacements in turn, the escape character first.\<close>

definition replace_char :: "char \<Rightarrow> string \<Rightarrow> string \<Rightarrow> string" where
  "replace_char c r s = concat (map (\<lambda>x. if x = c then r else [x]) s)"

definition escape_like :: "string \<Rightarrow> string" where
  "escape_like text =
     replace_char (CHR ''_'') [CHR 92, CHR ''_'']
       (replace_char (CHR ''%'') [CHR 92, CHR ''%'']
         (replace_char (CHR 92) [CHR 92, CHR 92] text))"

text \<open>
  \<open>LIKE pattern ESCAPE '\'\<close>: the percent sign is any run, the underscore one UTF-8 character,
  the escape character makes the next one literal; ASCII letters match in either case.
\<close>

function like :: "string \<Rightarrow> string \<Rightarrow> bool" where
  "like [] s \<longleftrightarrow> s = []"
| "like (p # ps) s \<longleftrightarrow>
     (if p = CHR ''%'' then like ps s \<or> (if s = [] then False else like (p # ps) (tl s))
      else if p = CHR 92 then
        (case ps of [] \<Rightarrow> False
         | q # qs \<Rightarrow> s \<noteq> [] \<and> ascii_lower (hd s) = ascii_lower q \<and> like qs (tl s))
      else if p = CHR ''_'' then s \<noteq> [] \<and> like ps (dropWhile is_continuation (tl s))
      else s \<noteq> [] \<and> ascii_lower (hd s) = ascii_lower p \<and> like ps (tl s))"
  by pat_completeness auto
termination
  by (relation "measure (\<lambda>(p, s). length p + length s)")
    (auto simp: less_Suc_eq_le intro: le_trans [OF length_dropWhile_le])

declare like.simps(2) [simp del]

section \<open>Conditions and the parameters they number\<close>

datatype sql_value = VText string | VInteger int

datatype sql_condition =
    SqSearch nat
  | SqRepos "nat list"
  | SqUpdateTypes "nat list"
  | SqChecks "nat list"
  | SqLabel nat
  | SqDependency nat
  | SqAttention "nat list" "nat list" nat nat
  | SqAfter nat nat
  | SqInstallation nat

type_synonym sql_where = "sql_condition list \<times> sql_value list"

definition bind_value :: "sql_value \<Rightarrow> sql_value list \<Rightarrow> nat \<times> sql_value list" where
  "bind_value v params = (length params + 1, params @ [v])"

fun bind_values :: "sql_value list \<Rightarrow> sql_value list \<Rightarrow> nat list \<times> sql_value list" where
  "bind_values [] params = ([], params)"
| "bind_values (v # vs) params =
     (let (n, params1) = bind_value v params; (ns, params2) = bind_values vs params1
      in (n # ns, params2))"

definition stale_before :: "u64 \<Rightarrow> u64" where
  "stale_before now = sat_sub now STALE_AFTER"

definition not_blank :: "string option \<Rightarrow> string option" where
  "not_blank t = (case t of None \<Rightarrow> None | Some s \<Rightarrow> if trim s = [] then None else Some s)"

definition search_sql :: "pr_filter \<Rightarrow> sql_where \<Rightarrow> sql_where" where
  "search_sql f w =
     (case not_blank (pf_query f) of
        None \<Rightarrow> w
      | Some query \<Rightarrow>
          let (n, params) = bind_value
                (VText (''%'' @ escape_like (to_ascii_lowercase (trim query)) @ ''%'')) (snd w)
          in (fst w @ [SqSearch n], params))"

definition in_sql ::
    "(nat list \<Rightarrow> sql_condition) \<Rightarrow> string list \<Rightarrow> sql_where \<Rightarrow> sql_where" where
  "in_sql clause values w =
     (if values = [] then w
      else let (ns, params) = bind_values (map VText values) (snd w)
           in (fst w @ [clause ns], params))"

fun labels_sql :: "string list \<Rightarrow> sql_where \<Rightarrow> sql_where" where
  "labels_sql [] w = w"
| "labels_sql (l # ls) w =
     (let (n, params) = bind_value (VText l) (snd w)
      in labels_sql ls (fst w @ [SqLabel n], params))"

definition dependency_sql :: "pr_filter \<Rightarrow> sql_where \<Rightarrow> sql_where" where
  "dependency_sql f w =
     (case not_blank (pf_dependency f) of
        None \<Rightarrow> w
      | Some dependency \<Rightarrow>
          let (n, params) = bind_value (VText (trim dependency)) (snd w)
          in (fst w @ [SqDependency n], params))"

definition attention_sql :: "pr_filter \<Rightarrow> u64 \<Rightarrow> sql_where \<Rightarrow> store_error + sql_where" where
  "attention_sql f now w =
     (if \<not> pf_needs_attention f then Inr w
      else
        let (failing, p1) = bind_values
              (map (\<lambda>s. VText (display_check_status s)) [CkFailure, CkNone]) (snd w);
            (conflicting, p2) = bind_values
              (map (\<lambda>m. VText (display_mergeable m)) (filter is_conflicting MERGEABLES)) p1;
            (major, p3) = bind_value (VText (display_update_type UtMajor)) p2
        in bind_result (integer (stale_before now)) (\<lambda>stale.
             let (n, p4) = bind_value (VInteger stale) p3
             in Inr (fst w @ [SqAttention failing conflicting major n], p4)))"

definition cursor_sql :: "page_cursor option \<Rightarrow> sql_where \<Rightarrow> store_error + sql_where" where
  "cursor_sql cursor w =
     (case cursor of
        None \<Rightarrow> Inr w
      | Some c \<Rightarrow>
          bind_result (integer (pc_updated_at c)) (\<lambda>at.
            let (n, p1) = bind_value (VInteger at) (snd w); (m, p2) = bind_value (VText (pc_id c)) p1
            in Inr (fst w @ [SqAfter n m], p2)))"

definition filter_sql :: "pr_filter \<Rightarrow> page_cursor option \<Rightarrow> u64 \<Rightarrow> store_error + sql_where" where
  "filter_sql f cursor now =
     bind_result
       (attention_sql f now
         (dependency_sql f
         (labels_sql (pf_labels f)
         (in_sql SqChecks (map display_check_status (pf_check_statuses f))
         (in_sql SqUpdateTypes (map display_update_type (pf_update_types f))
         (in_sql SqRepos (pf_repos f)
         (search_sql f ([], []))))))))
       (cursor_sql cursor)"

text \<open>\<open>ScopedFilter::new\<close>: the filter's clause, then the installation it is held to.\<close>

definition scoped_filter ::
    "pr_filter \<Rightarrow> page_cursor option \<Rightarrow> u64 \<Rightarrow> u64 \<Rightarrow> store_error + sql_where" where
  "scoped_filter f cursor now installation_id =
     bind_result (filter_sql f cursor now) (\<lambda>w.
     bind_result (integer installation_id) (\<lambda>i.
       let (n, params) = bind_value (VInteger i) (snd w)
       in Inr (fst w @ [SqInstallation n], params)))"

datatype facet = FaChecks | FaUpdateTypes | FaLabels | FaRepositories

fun without_facet :: "pr_filter \<Rightarrow> facet \<Rightarrow> pr_filter" where
  "without_facet f FaChecks = f\<lparr>pf_check_statuses := []\<rparr>"
| "without_facet f FaUpdateTypes = f\<lparr>pf_update_types := []\<rparr>"
| "without_facet f FaLabels = f\<lparr>pf_labels := []\<rparr>"
| "without_facet f FaRepositories = f\<lparr>pf_repos := []\<rparr>"

section \<open>What a condition means on a row\<close>

text \<open>\<open>?n\<close>: the nth parameter, counted from one.\<close>

definition param :: "sql_value list \<Rightarrow> nat \<Rightarrow> sql_value" where
  "param params n = params ! (n - 1)"

definition is_text :: "sql_value list \<Rightarrow> string \<Rightarrow> nat \<Rightarrow> bool" where
  "is_text params s n \<longleftrightarrow> param params n = VText s"

fun like_param :: "sql_value \<Rightarrow> string \<Rightarrow> bool" where
  "like_param (VText p) s \<longleftrightarrow> like p s"
| "like_param (VInteger _) s \<longleftrightarrow> False"

fun nocase_param :: "sql_value \<Rightarrow> string \<Rightarrow> bool" where
  "nocase_param (VText p) s \<longleftrightarrow> to_ascii_lowercase p = to_ascii_lowercase s"
| "nocase_param (VInteger _) s \<longleftrightarrow> False"

fun int_param :: "sql_value \<Rightarrow> int" where
  "int_param (VInteger i) = i" | "int_param (VText _) = 0"

fun text_param :: "sql_value \<Rightarrow> string" where
  "text_param (VText s) = s" | "text_param (VInteger _) = []"

definition repo_name :: "repo_row \<Rightarrow> string" where
  "repo_name x = x_owner x @ ''/'' @ x_repo x"

text \<open>SQLite compares text byte by byte unless a collation says otherwise.\<close>

fun bytes_less :: "string \<Rightarrow> string \<Rightarrow> bool" where
  "bytes_less _ [] = False"
| "bytes_less [] (_ # _) = True"
| "bytes_less (a # as) (b # bs) = (byte a < byte b \<or> (byte a = byte b \<and> bytes_less as bs))"

fun holds_on :: "db \<Rightarrow> sql_value list \<Rightarrow> sql_condition \<Rightarrow> pr_row \<Rightarrow> bool" where
  "holds_on d ps (SqSearch n) p \<longleftrightarrow>
     like_param (param ps n) (to_ascii_lowercase (w_owner p @ ''/'' @ w_repo p @ '' '' @ w_title p)) \<or>
     (\<exists>u\<in>set (w_dependencies p). like_param (param ps n) (to_ascii_lowercase (du_name u)))"
| "holds_on d ps (SqRepos ns) p \<longleftrightarrow>
     (\<exists>x\<in>set (db_repos d). x_repository_id x = w_repository_id p \<and>
        (\<exists>n\<in>set ns. is_text ps (repo_name x) n))"
| "holds_on d ps (SqUpdateTypes ns) p \<longleftrightarrow> (\<exists>n\<in>set ns. is_text ps (w_update_type p) n)"
| "holds_on d ps (SqChecks ns) p \<longleftrightarrow> (\<exists>n\<in>set ns. is_text ps (w_check_status p) n)"
| "holds_on d ps (SqLabel n) p \<longleftrightarrow> (\<exists>l\<in>set (w_labels p). is_text ps l n)"
| "holds_on d ps (SqDependency n) p \<longleftrightarrow>
     (case w_dependency p of
        Some dep \<Rightarrow> nocase_param (param ps n) dep
      | None \<Rightarrow> \<exists>u\<in>set (w_dependencies p). nocase_param (param ps n) (du_name u))"
| "holds_on d ps (SqAttention fs cs m n) p \<longleftrightarrow>
     (\<exists>k\<in>set fs. is_text ps (w_check_status p) k) \<or>
     (case w_mergeable p of None \<Rightarrow> False | Some g \<Rightarrow> \<exists>k\<in>set cs. is_text ps g k) \<or>
     is_text ps (w_update_type p) m \<or> w_synced_at p < int_param (param ps n)"
| "holds_on d ps (SqAfter n m) p \<longleftrightarrow>
     w_updated_at p < int_param (param ps n) \<or>
     (w_updated_at p = int_param (param ps n) \<and> bytes_less (w_id p) (text_param (param ps m)))"
| "holds_on d ps (SqInstallation n) p \<longleftrightarrow>
     (\<exists>x\<in>set (db_repos d). x_repository_id x = w_repository_id p \<and>
        x_installation_id x = int_param (param ps n))"

definition selected :: "db \<Rightarrow> sql_where \<Rightarrow> pr_row \<Rightarrow> bool" where
  "selected d w p \<longleftrightarrow> (\<forall>c\<in>set (fst w). holds_on d (snd w) c p)"


section \<open>Matching text\<close>

lemma ascii_lower_idem [simp]: "ascii_lower (ascii_lower c) = ascii_lower c"
  by (auto simp: ascii_lower_def byte_def)

lemma lower_idem [simp]: "to_ascii_lowercase (to_ascii_lowercase s) = to_ascii_lowercase s"
  by (simp add: to_ascii_lowercase_def comp_def)

definition like_escape :: "char \<Rightarrow> string" where
  "like_escape c = (if c \<in> {CHR 92, CHR ''%'', CHR ''_''} then [CHR 92, c] else [c])"

lemma escape_like_chars: "escape_like t = concat (map like_escape t)"
  by (induction t) (auto simp: escape_like_def replace_char_def like_escape_def)

lemma like_escaped_char:
  "like (like_escape c @ ps) s \<longleftrightarrow> s \<noteq> [] \<and> ascii_lower (hd s) = ascii_lower c \<and> like ps (tl s)"
  by (auto simp: like_escape_def like.simps(2))

lemma like_any: "like (CHR ''%'' # ps) s \<longleftrightarrow> (\<exists>u v. s = u @ v \<and> like ps v)"
proof (induction s)
  case Nil
  then show ?case by (simp add: like.simps(2))
next
  case (Cons c s)
  have "like (CHR ''%'' # ps) (c # s) \<longleftrightarrow> like ps (c # s) \<or> (\<exists>u v. s = u @ v \<and> like ps v)"
    using Cons by (simp add: like.simps(2) [of _ _ "c # s"])
  also have "\<dots> \<longleftrightarrow> (\<exists>u v. c # s = u @ v \<and> like ps v)"
    by (auto simp: Cons_eq_append_conv)
  finally show ?case .
qed

lemma like_escaped_prefix:
  "like (concat (map like_escape t) @ ps) s \<longleftrightarrow>
     (\<exists>u v. s = u @ v \<and> map ascii_lower u = map ascii_lower t \<and> like ps v)"
proof (induction t arbitrary: s)
  case Nil
  then show ?case by simp
next
  case (Cons c t)
  then show ?case
    by (cases s) (auto simp: like_escaped_char Cons_eq_append_conv, metis append_Cons list.simps(9))
qed

lemma like_percent [simp]: "like ''%'' s"
  by (auto simp: like_any) 

lemma str_contains_iff: "str_contains s t \<longleftrightarrow> (\<exists>u v. s = u @ t @ v)"
proof (induction s)
  case Nil
  then show ?case by auto
next
  case (Cons c s)
  have "starts_with (c # s) t \<longleftrightarrow> (\<exists>v. c # s = t @ v)"
    by (metis append_eq_conv_conj starts_with_def append_take_drop_id)
  with Cons show ?case by (auto simp: Cons_eq_append_conv)
qed

text \<open>The search pattern finds the text as it was typed, whatever metacharacters it holds.\<close>

lemma like_contains:
  "like (''%'' @ escape_like (to_ascii_lowercase t) @ ''%'') (to_ascii_lowercase s) \<longleftrightarrow>
     str_contains (to_ascii_lowercase s) (to_ascii_lowercase t)"
proof -
  have "like (''%'' @ escape_like (to_ascii_lowercase t) @ ''%'') (to_ascii_lowercase s) \<longleftrightarrow>
      (\<exists>u v w. to_ascii_lowercase s = u @ v @ w \<and> to_ascii_lowercase v = to_ascii_lowercase t)"
  proof -
    have "like (''%'' @ escape_like (to_ascii_lowercase t) @ ''%'') z \<longleftrightarrow>
        (\<exists>u r. z = u @ r \<and> (\<exists>v w. r = v @ w \<and> to_ascii_lowercase v = to_ascii_lowercase t))" for z
      by (simp add: like_any escape_like_chars like_escaped_prefix)
        (simp add: to_ascii_lowercase_def comp_def)
    then show ?thesis by blast
  qed
  also have "\<dots> \<longleftrightarrow> str_contains (to_ascii_lowercase s) (to_ascii_lowercase t)"
  proof
    assume "\<exists>u v w. to_ascii_lowercase s = u @ v @ w \<and> to_ascii_lowercase v = to_ascii_lowercase t"
    then obtain u v w where s: "to_ascii_lowercase s = u @ v @ w"
      and v: "to_ascii_lowercase v = to_ascii_lowercase t" by blast
    have "to_ascii_lowercase (u @ v @ w) = u @ v @ w" using s by (metis lower_idem)
    then have "to_ascii_lowercase v = v" by (simp add: to_ascii_lowercase_def)
    with s v show "str_contains (to_ascii_lowercase s) (to_ascii_lowercase t)"
      by (auto simp: str_contains_iff)
  next
    assume "str_contains (to_ascii_lowercase s) (to_ascii_lowercase t)"
    then show "\<exists>u v w. to_ascii_lowercase s = u @ v @ w \<and> to_ascii_lowercase v = to_ascii_lowercase t"
      unfolding str_contains_iff by (metis lower_idem)
  qed
  finally show ?thesis .
qed


section \<open>Placeholders stay with their values\<close>

fun numbers :: "sql_condition \<Rightarrow> nat list" where
  "numbers (SqSearch n) = [n]"
| "numbers (SqRepos ns) = ns"
| "numbers (SqUpdateTypes ns) = ns"
| "numbers (SqChecks ns) = ns"
| "numbers (SqLabel n) = [n]"
| "numbers (SqDependency n) = [n]"
| "numbers (SqAttention fs cs m n) = fs @ cs @ [m, n]"
| "numbers (SqAfter n m) = [n, m]"
| "numbers (SqInstallation n) = [n]"

definition bound_in :: "nat \<Rightarrow> nat \<Rightarrow> bool" where
  "bound_in len n \<longleftrightarrow> 1 \<le> n \<and> n \<le> len"

definition numbered :: "sql_where \<Rightarrow> bool" where
  "numbered w \<longleftrightarrow> (\<forall>c\<in>set (fst w). \<forall>n\<in>set (numbers c). bound_in (length (snd w)) n)"

lemma param_append: "bound_in (length ps) n \<Longrightarrow> param (ps @ qs) n = param ps n"
  by (auto simp: bound_in_def param_def nth_append)

lemma holds_on_append:
  assumes "\<forall>n\<in>set (numbers c). bound_in (length ps) n"
  shows "holds_on d (ps @ qs) c p = holds_on d ps c p"
proof -
  have "is_text (ps @ qs) s n = is_text ps s n" if "n \<in> set (numbers c)" for s n
    using assms that by (simp add: is_text_def param_append)
  moreover have "param (ps @ qs) n = param ps n" if "n \<in> set (numbers c)" for n
    using assms that by (simp add: param_append)
  ultimately show ?thesis by (cases c) (simp_all split: option.splits)
qed

text \<open>A further condition over parameters of its own narrows the clause by that condition.\<close>

lemma selected_add:
  assumes "numbered w" and "\<forall>n\<in>set (numbers c). bound_in (length (snd w @ qs)) n"
  shows "numbered (fst w @ [c], snd w @ qs)"
    and "selected d (fst w @ [c], snd w @ qs) p \<longleftrightarrow> selected d w p \<and> holds_on d (snd w @ qs) c p"
proof -
  show "numbered (fst w @ [c], snd w @ qs)"
    using assms by (fastforce simp: numbered_def bound_in_def)
  have "\<forall>c\<in>set (fst w). holds_on d (snd w @ qs) c p = holds_on d (snd w) c p"
    using assms(1) holds_on_append unfolding numbered_def by blast
  then show "selected d (fst w @ [c], snd w @ qs) p \<longleftrightarrow> selected d w p \<and> holds_on d (snd w @ qs) c p"
    by (auto simp: selected_def)
qed

text \<open>The next \<open>k\<close> numbers after \<open>n\<close>.\<close>

fun fresh :: "nat \<Rightarrow> nat \<Rightarrow> nat list" where
  "fresh n 0 = []"
| "fresh n (Suc k) = Suc n # fresh (Suc n) k"

lemma fresh_eq: "fresh n k = map (\<lambda>i. Suc (n + i)) [0..<k]"
proof (induction k arbitrary: n)
  case 0
  then show ?case by simp
next
  case (Suc k)
  have "[0..<Suc k] = 0 # map Suc [0..<k]" by (simp only: upt_conv_Cons [OF zero_less_Suc] map_Suc_upt)
  then show ?case using Suc by simp
qed

lemma set_fresh: "m \<in> set (fresh n k) \<longleftrightarrow> (\<exists>i<k. m = Suc (n + i))"
  by (auto simp: fresh_eq)

lemma bind_values_eq: "bind_values vs ps = (fresh (length ps) (length vs), ps @ vs)"
  by (induction vs arbitrary: ps) (simp_all add: bind_value_def)

lemma bound_fresh: "n \<in> set (fresh (length ps) (length vs)) \<Longrightarrow> bound_in (length (ps @ vs @ qs)) n"
  by (auto simp: bound_in_def set_fresh)

lemma is_text_fresh:
  "(\<exists>n\<in>set (fresh (length ps) (length ts)). is_text (ps @ map VText ts @ qs) s n) \<longleftrightarrow> s \<in> set ts"
proof -
  have "is_text (ps @ map VText ts @ qs) s (Suc (length ps + i)) \<longleftrightarrow> ts ! i = s" if "i < length ts" for i
    using that by (simp add: is_text_def param_def nth_append)
  moreover have "s \<in> set ts \<longleftrightarrow> (\<exists>i<length ts. ts ! i = s)" by (simp add: in_set_conv_nth)
  ultimately show ?thesis by (auto simp only: set_fresh Bex_def)
qed

section \<open>The filter, read directly\<close>

definition full_name :: "string \<Rightarrow> string \<Rightarrow> string" where
  "full_name owner repo = owner @ ''/'' @ repo"

definition found_by :: "string \<Rightarrow> pr_row \<Rightarrow> bool" where
  "found_by t p \<longleftrightarrow>
     str_contains (to_ascii_lowercase (w_owner p @ ''/'' @ w_repo p @ '' '' @ w_title p))
       (to_ascii_lowercase t) \<or>
     (\<exists>u\<in>set (w_dependencies p). str_contains (to_ascii_lowercase (du_name u)) (to_ascii_lowercase t))"

definition names_dependency :: "string \<Rightarrow> pr_row \<Rightarrow> bool" where
  "names_dependency t p \<longleftrightarrow>
     (case w_dependency p of
        Some dep \<Rightarrow> to_ascii_lowercase t = to_ascii_lowercase dep
      | None \<Rightarrow> \<exists>u\<in>set (w_dependencies p). to_ascii_lowercase t = to_ascii_lowercase (du_name u))"

definition needs_attention :: "u64 \<Rightarrow> pr_row \<Rightarrow> bool" where
  "needs_attention now p \<longleftrightarrow>
     w_check_status p \<in> {''failure'', ''none''} \<or> w_mergeable p = Some ''dirty'' \<or>
     w_update_type p = ''major'' \<or> w_synced_at p < uint (stale_before now)"

definition row_matches :: "db \<Rightarrow> pr_filter \<Rightarrow> u64 \<Rightarrow> pr_row \<Rightarrow> bool" where
  "row_matches d f now p \<longleftrightarrow>
     (\<forall>q. not_blank (pf_query f) = Some q \<longrightarrow> found_by (trim q) p) \<and>
     (pf_repos f \<noteq> [] \<longrightarrow>
        (\<exists>x\<in>set (db_repos d). x_repository_id x = w_repository_id p \<and> repo_name x \<in> set (pf_repos f))) \<and>
     (pf_update_types f \<noteq> [] \<longrightarrow>
        w_update_type p \<in> display_update_type ` set (pf_update_types f)) \<and>
     (pf_check_statuses f \<noteq> [] \<longrightarrow>
        w_check_status p \<in> display_check_status ` set (pf_check_statuses f)) \<and>
     set (pf_labels f) \<subseteq> set (w_labels p) \<and>
     (\<forall>t. not_blank (pf_dependency f) = Some t \<longrightarrow> names_dependency (trim t) p) \<and>
     (pf_needs_attention f \<longrightarrow> needs_attention now p)"

definition owned_by :: "db \<Rightarrow> u64 \<Rightarrow> pr_row \<Rightarrow> bool" where
  "owned_by d i p \<longleftrightarrow>
     (\<exists>x\<in>set (db_repos d). x_repository_id x = w_repository_id p \<and> x_installation_id x = uint i)"

definition after_cursor :: "page_cursor \<Rightarrow> pr_row \<Rightarrow> bool" where
  "after_cursor c p \<longleftrightarrow> w_updated_at p < uint (pc_updated_at c) \<or>
     (w_updated_at p = uint (pc_updated_at c) \<and> bytes_less (w_id p) (pc_id c))"

lemma search_sql_selects:
  assumes "numbered w"
  shows "numbered (search_sql f w) \<and> (selected d (search_sql f w) p \<longleftrightarrow> selected d w p \<and>
    (\<forall>q. not_blank (pf_query f) = Some q \<longrightarrow> found_by (trim q) p))"
proof (cases "not_blank (pf_query f)")
  case None
  with assms show ?thesis by (simp add: search_sql_def)
next
  case (Some q)
  let ?v = "VText (''%'' @ escape_like (to_ascii_lowercase (trim q)) @ ''%'')"
  let ?n = "Suc (length (snd w))"
  have s: "search_sql f w = (fst w @ [SqSearch ?n], snd w @ [?v])"
    using Some by (simp add: search_sql_def bind_value_def)
  have "\<forall>n\<in>set (numbers (SqSearch ?n)). bound_in (length (snd w @ [?v])) n"
    by (simp add: bound_in_def)
  note add = selected_add [OF assms this]
  have "param (snd w @ [?v]) ?n = ?v" by (simp add: param_def)
  with add(1) add(2) [of d p] Some show ?thesis
    unfolding s by (simp only: holds_on.simps like_param.simps like_contains found_by_def option.inject) blast
qed

lemma in_sql_selects:
  assumes "numbered w" and "\<And>ns. numbers (clause ns) = ns"
    and "\<And>ps ns. holds_on d ps (clause ns) p \<longleftrightarrow> (\<exists>v\<in>V. \<exists>n\<in>set ns. is_text ps v n)"
  shows "numbered (in_sql clause ts w) \<and> (selected d (in_sql clause ts w) p \<longleftrightarrow> selected d w p \<and>
    (ts \<noteq> [] \<longrightarrow> (\<exists>v\<in>V. v \<in> set ts)))"
proof (cases "ts = []")
  case True
  with assms(1) show ?thesis by (simp add: in_sql_def)
next
  case False
  let ?ns = "fresh (length (snd w)) (length ts)"
  have s: "in_sql clause ts w = (fst w @ [clause ?ns], snd w @ map VText ts)"
    using False by (simp add: in_sql_def bind_values_eq)
  have "\<forall>n\<in>set (numbers (clause ?ns)). bound_in (length (snd w @ map VText ts)) n"
    unfolding assms(2) using bound_fresh [of _ "snd w" "map VText ts" "[]"] by simp
  note add = selected_add [OF assms(1) this]
  show ?thesis
    using add(1) add(2) [of d p] False is_text_fresh [of "snd w" ts "[]"]
    unfolding s assms(3) by simp
qed

lemma labels_sql_selects:
  "numbered w \<Longrightarrow> numbered (labels_sql ls w) \<and>
     (selected d (labels_sql ls w) p \<longleftrightarrow> selected d w p \<and> set ls \<subseteq> set (w_labels p))"
proof (induction ls arbitrary: w)
  case Nil
  then show ?case by simp
next
  case (Cons l ls)
  let ?n = "Suc (length (snd w))"
  let ?w = "(fst w @ [SqLabel ?n], snd w @ [VText l])"
  have s: "labels_sql (l # ls) w = labels_sql ls ?w" by (simp add: bind_value_def)
  have "\<forall>n\<in>set (numbers (SqLabel ?n)). bound_in (length (snd w @ [VText l])) n"
    by (simp add: bound_in_def)
  note add = selected_add [OF Cons.prems this]
  have "holds_on d (snd w @ [VText l]) (SqLabel ?n) p \<longleftrightarrow> l \<in> set (w_labels p)"
    by (auto simp: is_text_def param_def)
  with Cons.IH [OF add(1)] add(2) [of d p] show ?case unfolding s by auto
qed


lemma dependency_sql_selects:
  assumes "numbered w"
  shows "numbered (dependency_sql f w) \<and> (selected d (dependency_sql f w) p \<longleftrightarrow> selected d w p \<and>
    (\<forall>t. not_blank (pf_dependency f) = Some t \<longrightarrow> names_dependency (trim t) p))"
proof (cases "not_blank (pf_dependency f)")
  case None
  with assms show ?thesis by (simp add: dependency_sql_def)
next
  case (Some t)
  let ?n = "Suc (length (snd w))"
  have s: "dependency_sql f w = (fst w @ [SqDependency ?n], snd w @ [VText (trim t)])"
    using Some by (simp add: dependency_sql_def bind_value_def)
  have "\<forall>n\<in>set (numbers (SqDependency ?n)). bound_in (length (snd w @ [VText (trim t)])) n"
    by (simp add: bound_in_def)
  note add = selected_add [OF assms this]
  have "holds_on d (snd w @ [VText (trim t)]) (SqDependency ?n) p \<longleftrightarrow> names_dependency (trim t) p"
    by (auto simp: param_def names_dependency_def split: option.splits)
  with add(1) add(2) [of d p] Some show ?thesis unfolding s by simp
qed

lemma conflicting_states: "filter is_conflicting MERGEABLES = [MgDirty]"
  by (simp add: MERGEABLES_def is_conflicting_def)

lemma attention_sql_selects:
  assumes "numbered w" "attention_sql f now w = Inr w'"
  shows "numbered w' \<and> (selected d w' p \<longleftrightarrow> selected d w p \<and>
    (pf_needs_attention f \<longrightarrow> needs_attention now p))"
proof (cases "pf_needs_attention f")
  case False
  with assms show ?thesis by (simp add: attention_sql_def)
next
  case True
  let ?k = "length (snd w)"
  let ?c = "SqAttention [Suc ?k, Suc (Suc ?k)] [Suc (Suc (Suc ?k))] (Suc (Suc (Suc (Suc ?k))))
     (Suc (Suc (Suc (Suc (Suc ?k)))))"
  let ?vs = "[VText ''failure'', VText ''none'', VText ''dirty'', VText ''major'',
      VInteger (uint (stale_before now))]"
  have w': "w' = (fst w @ [?c], snd w @ ?vs)"
    using assms(2) True
    by (auto simp: attention_sql_def conflicting_states bind_value_def Let_def bind_result_Inr integer_Inr)
  have "\<forall>n\<in>set (numbers ?c). bound_in (length (snd w @ ?vs)) n"
    by (simp add: bound_in_def)
  note add = selected_add [OF assms(1) this]
  have "holds_on d (snd w @ ?vs) ?c p \<longleftrightarrow> needs_attention now p"
    by (auto simp: is_text_def param_def nth_append needs_attention_def split: option.splits)
  with add(1) add(2) [of d p] True show ?thesis unfolding w' by simp
qed

lemma cursor_sql_selects:
  assumes "numbered w" "cursor_sql cursor w = Inr w'"
  shows "numbered w' \<and> (selected d w' p \<longleftrightarrow> selected d w p \<and>
    (\<forall>c. cursor = Some c \<longrightarrow> after_cursor c p))"
proof (cases cursor)
  case None
  with assms show ?thesis by (simp add: cursor_sql_def)
next
  case (Some c)
  let ?k = "length (snd w)"
  let ?vs = "[VInteger (uint (pc_updated_at c)), VText (pc_id c)]"
  have w': "w' = (fst w @ [SqAfter (Suc ?k) (Suc (Suc ?k))], snd w @ ?vs)"
    using assms(2) Some by (auto simp: cursor_sql_def bind_value_def Let_def bind_result_Inr integer_Inr)
  have "\<forall>n\<in>set (numbers (SqAfter (Suc ?k) (Suc (Suc ?k)))). bound_in (length (snd w @ ?vs)) n"
    by (simp add: bound_in_def)
  note add = selected_add [OF assms(1) this]
  have "holds_on d (snd w @ ?vs) (SqAfter (Suc ?k) (Suc (Suc ?k))) p \<longleftrightarrow> after_cursor c p"
    by (simp add: param_def nth_append after_cursor_def)
  with add(1) add(2) [of d p] Some show ?thesis unfolding w' by simp
qed

lemma filter_sql_selects:
  assumes "filter_sql f cursor now = Inr w"
  shows "numbered w \<and> (selected d w p \<longleftrightarrow> row_matches d f now p \<and>
    (\<forall>c. cursor = Some c \<longrightarrow> after_cursor c p))"
proof -
  define w0 where "w0 = search_sql f ([], [])"
  define w1 where "w1 = in_sql SqRepos (pf_repos f) w0"
  define w2 where "w2 = in_sql SqUpdateTypes (map display_update_type (pf_update_types f)) w1"
  define w3 where "w3 = in_sql SqChecks (map display_check_status (pf_check_statuses f)) w2"
  define w4 where "w4 = labels_sql (pf_labels f) w3"
  define w5 where "w5 = dependency_sql f w4"
  obtain w6 where w6: "attention_sql f now w5 = Inr w6" "cursor_sql cursor w6 = Inr w"
    using assms unfolding filter_sql_def w0_def w1_def w2_def w3_def w4_def w5_def
    by (auto simp: bind_result_Inr)
  have n: "numbered ([], [])" by (simp add: numbered_def)
  note s0 = search_sql_selects [OF n, of f d p, folded w0_def]
  note s1 = in_sql_selects [of w0 SqRepos d p
      "repo_name ` {x \<in> set (db_repos d). x_repository_id x = w_repository_id p}" "pf_repos f", folded w1_def]
  note s2 = in_sql_selects [of w1 SqUpdateTypes d p "{w_update_type p}"
      "map display_update_type (pf_update_types f)", folded w2_def]
  note s3 = in_sql_selects [of w2 SqChecks d p "{w_check_status p}"
      "map display_check_status (pf_check_statuses f)", folded w3_def]
  note s4 = labels_sql_selects [of w3 "pf_labels f" d p, folded w4_def]
  note s5 = dependency_sql_selects [of w4 f d p, folded w5_def]
  note s6 = attention_sql_selects [of w5, OF _ w6(1), of d p]
  note s7 = cursor_sql_selects [of w6, OF _ w6(2), of d p]
  have e: "selected d ([], []) p" by (simp add: selected_def)
  have n0: "numbered w0" using s0 by blast
  have t1: "numbered w1 \<and> (selected d w1 p \<longleftrightarrow> selected d w0 p \<and> (pf_repos f \<noteq> [] \<longrightarrow>
      (\<exists>x\<in>set (db_repos d). x_repository_id x = w_repository_id p \<and> repo_name x \<in> set (pf_repos f))))"
    using s1 [OF n0] by auto
  have t2: "numbered w2 \<and> (selected d w2 p \<longleftrightarrow> selected d w1 p \<and> (pf_update_types f \<noteq> [] \<longrightarrow>
      w_update_type p \<in> display_update_type ` set (pf_update_types f)))"
    using s2 t1 by auto
  have t3: "numbered w3 \<and> (selected d w3 p \<longleftrightarrow> selected d w2 p \<and> (pf_check_statuses f \<noteq> [] \<longrightarrow>
      w_check_status p \<in> display_check_status ` set (pf_check_statuses f)))"
    using s3 t2 by auto
  show ?thesis
    using s0 e t1 t2 t3 s4 s5 s6 s7 unfolding row_matches_def by blast
qed

lemma scoped_filter_selects:
  assumes "scoped_filter f cursor now i = Inr w"
  shows "selected d w p \<longleftrightarrow> row_matches d f now p \<and> owned_by d i p \<and>
    (\<forall>c. cursor = Some c \<longrightarrow> after_cursor c p)"
proof -
  obtain w1 where w1: "filter_sql f cursor now = Inr w1"
    and i: "fits i" and w: "w = (fst w1 @ [SqInstallation (Suc (length (snd w1)))],
      snd w1 @ [VInteger (uint i)])"
    using assms by (auto simp: scoped_filter_def bind_result_Inr integer_Inr fits_def bind_value_def)
  note sel = filter_sql_selects [OF w1, of d p]
  have "\<forall>n\<in>set (numbers (SqInstallation (Suc (length (snd w1))))).
      bound_in (length (snd w1 @ [VInteger (uint i)])) n"
    by (simp add: bound_in_def)
  note add = selected_add [OF conjunct1 [OF sel] this, folded w]
  have "holds_on d (snd w1 @ [VInteger (uint i)]) (SqInstallation (Suc (length (snd w1)))) p \<longleftrightarrow> owned_by d i p"
    by (simp add: param_def owned_by_def)
  with add(2) [of d p] sel show ?thesis by blast
qed

lemma scoped_filter_fits:
  "(\<exists>w. scoped_filter f cursor now i = Inr w) \<longleftrightarrow>
     fits i \<and> (\<forall>c. cursor = Some c \<longrightarrow> fits (pc_updated_at c)) \<and>
     (pf_needs_attention f \<longrightarrow> fits (stale_before now))"
  by (auto simp: scoped_filter_def filter_sql_def bind_result_Inr attention_sql_def cursor_sql_def
      Let_def case_prod_unfold integer_Inr fits_def split: option.splits)

text \<open>The clause's staleness is the record's own: \<open>PrRecord::is_stale\<close>.\<close>

lemma stale_before_iff: "s < stale_before now \<longleftrightarrow> STALE_AFTER < sat_sub now s"
  by (simp add: stale_before_def word_less_nat_alt unat_sat_sub) arith

end
