(* ===== verification/Store_Read.thy ===== *)
theory Store_Read
  imports Store_Laws Store_Filter "HOL-Library.List_Lexorder" "HOL-Library.Product_Lexorder"
begin

text \<open>
  The projection store's read half (\<^verbatim>\<open>crates/store/src/lib.rs\<close>, \<^verbatim>\<open>facets.rs\<close>): keyset
  pagination, resolving keys within an installation, the facet counts and the batch listings.
  Reads change nothing, so they are functions of the database. \<open>now\<close> is the clock's reading;
  \<open>encode\<close> and \<open>decode\<close> stand for the base64 and JSON spelling of a page cursor.
\<close>

type_synonym 'a store_read = "db \<Rightarrow> store_error + 'a"

section \<open>Pages\<close>

text \<open>\<open>ORDER BY p.updated_at DESC, p.id DESC\<close>, with text compared by its bytes.\<close>

definition row_rank :: "pr_row \<Rightarrow> int \<times> nat list" where
  "row_rank p = (w_updated_at p, map byte (w_id p))"

definition newest_first :: "pr_row list \<Rightarrow> pr_row list" where
  "newest_first rows = rev (sort_key row_rank rows)"

definition count_rows :: "sql_where \<Rightarrow> u64 store_read" where
  "count_rows w d = unsigned (int (length (filter (selected d w) (db_prs d))))"

definition page_rows :: "sql_where \<Rightarrow> nat \<Rightarrow> pr_record list store_read" where
  "page_rows w limit d =
     collect_prs (take limit (newest_first (map fst (filter (\<lambda>(p, _). selected d w p) (joined_prs d)))))"

definition page_cursor_of :: "pr_record \<Rightarrow> page_cursor" where
  "page_cursor_of r = \<lparr>pc_updated_at = pr_updated_at r, pc_id = pr_id r\<rparr>"

definition decode_after ::
    "(string \<Rightarrow> page_cursor option) \<Rightarrow> string option \<Rightarrow> store_error + page_cursor option" where
  "decode_after decode after =
     (case after of
        None \<Rightarrow> Inr None
      | Some value \<Rightarrow> (case decode value of None \<Rightarrow> Inl StCursor | Some c \<Rightarrow> Inr (Some c)))"

definition list_prs ::
    "(page_cursor \<Rightarrow> string) \<Rightarrow> (string \<Rightarrow> page_cursor option) \<Rightarrow> u64 \<Rightarrow>
     u64 \<Rightarrow> pr_filter \<Rightarrow> page \<Rightarrow> dashboard_page store_read" where
  "list_prs encode decode now installation_id f p d =
     bind_result (scoped_filter f None now installation_id) (\<lambda>scoped.
     bind_result (count_rows scoped d) (\<lambda>total.
     bind_result (decode_after decode (pg_after p)) (\<lambda>cursor.
     bind_result (scoped_filter f cursor now installation_id) (\<lambda>scoped.
     let limit = unat (normalized_limit p) in
     bind_result (page_rows scoped (limit + 1) d) (\<lambda>found.
     let has_more = limit < length found; rows = take limit found
     in Inr \<lparr>dp_rows = rows, dp_total = total,
             dp_next_cursor =
               (if has_more \<and> rows \<noteq> [] then Some (encode (page_cursor_of (last rows)))
                else None)\<rparr>)))))"

section \<open>Keys resolved within an installation\<close>

datatype projected_pr = PjRow pr_record | PjAbsent | PjForeign

definition read_joined :: "pr_row \<times> int \<Rightarrow> store_error + (pr_record \<times> u64)" where
  "read_joined pi =
     bind_result (pr_from_row (fst pi)) (\<lambda>r. bind_result (unsigned (snd pi)) (\<lambda>owner. Inr (r, owner)))"

definition get_prs :: "u64 \<Rightarrow> pr_key list \<Rightarrow> projected_pr list store_read" where
  "get_prs installation_id keys d =
     (if keys = [] then Inr []
      else
        bind_result
          (collect_results (map read_joined
            (filter (\<lambda>(p, _). w_id p \<in> set (map display_pr_key keys)) (joined_prs d))))
          (\<lambda>rows.
            let found = map_of (rev (map (\<lambda>(r, owner). (pr_id r, (r, owner))) rows))
            in Inr (map (\<lambda>key. case found (display_pr_key key) of
                 None \<Rightarrow> PjAbsent
               | Some (row, owner) \<Rightarrow> if owner = installation_id then PjRow row else PjForeign) keys)))"

text \<open>The trait's provided \<open>get_pr\<close>: the one answer to the one key.\<close>

definition get_projected :: "u64 \<Rightarrow> pr_key \<Rightarrow> projected_pr store_read" where
  "get_projected installation_id key d =
     bind_result (get_prs installation_id [key] d) (\<lambda>answers. Inr (hd answers))"

section \<open>Facets\<close>

text \<open>\<open>GROUP BY\<close>: each value met, in byte order, with how often.\<close>

definition group_counts :: "string list \<Rightarrow> (string \<times> int) list" where
  "group_counts values =
     map (\<lambda>v. (v, int (count_list values v))) (sort_key (map byte) (remdups values))"

definition grouped :: "(string \<times> int) list \<Rightarrow> store_error + (string \<times> u64) list" where
  "grouped rows = collect_results (map (\<lambda>(k, n). bind_result (unsigned n) (\<lambda>c. Inr (k, c))) rows)"

definition enum_counts ::
    "(string \<Rightarrow> string + 'a) \<Rightarrow> (string \<times> int) list \<Rightarrow> store_error + ('a \<rightharpoonup> u64)" where
  "enum_counts parse rows =
     bind_result (grouped rows) (\<lambda>counts.
     bind_result
       (collect_results (map (\<lambda>(k, c). bind_result (stored_enum parse k) (\<lambda>a. Inr (a, c))) counts))
       (\<lambda>pairs. Inr (map_of (rev pairs))))"

definition facet_scope :: "pr_filter \<Rightarrow> facet \<Rightarrow> u64 \<Rightarrow> u64 \<Rightarrow> store_error + sql_where" where
  "facet_scope f fa now installation_id =
     scoped_filter (without_facet f fa) None now installation_id"

text \<open>\<open>COLLATE NOCASE\<close>: the bytes with ASCII letters folded.\<close>

definition nocase :: "string \<Rightarrow> nat list" where
  "nocase s = map byte (to_ascii_lowercase s)"

definition label_counts :: "sql_where \<Rightarrow> db \<Rightarrow> (string \<times> int) list" where
  "label_counts w d =
     sort_key (\<lambda>(l, n). (- n, nocase l))
       (group_counts (concat (map w_labels (filter (selected d w) (db_prs d)))))"

definition repository_facets :: "u64 \<Rightarrow> sql_where \<Rightarrow> repo_facet list store_read" where
  "repository_facets installation_id w d =
     bind_result (integer installation_id) (\<lambda>listed.
       collect_results (map (\<lambda>x.
         bind_result (unsigned (int (length
             (filter (\<lambda>p. selected d w p \<and> w_repository_id p = x_repository_id x) (db_prs d))))) (\<lambda>n.
         bind_result (repo_from_row x) (\<lambda>r. Inr \<lparr>rf_repository = r, rf_count = n\<rparr>)))
         (sort_key (\<lambda>x. (nocase (x_owner x), nocase (x_repo x)))
           (filter (\<lambda>x. x_installation_id x = listed) (db_repos d)))))"

definition facet_counts :: "u64 \<Rightarrow> pr_filter \<Rightarrow> u64 \<Rightarrow> facet_counts store_read" where
  "facet_counts installation_id f now d =
     bind_result (facet_scope f FaChecks now installation_id) (\<lambda>w1.
     bind_result (enum_counts parse_check_status
         (group_counts (map w_check_status (filter (selected d w1) (db_prs d))))) (\<lambda>checks.
     bind_result (facet_scope f FaUpdateTypes now installation_id) (\<lambda>w2.
     bind_result (enum_counts parse_update_type
         (group_counts (map w_update_type (filter (selected d w2) (db_prs d))))) (\<lambda>types.
     bind_result (facet_scope f FaLabels now installation_id) (\<lambda>w3.
     bind_result (grouped (label_counts w3 d)) (\<lambda>labels.
     bind_result (facet_scope f FaRepositories now installation_id) (\<lambda>w4.
     bind_result (repository_facets installation_id w4 d) (\<lambda>repositories.
       Inr \<lparr>fc_checks = checks, fc_update_types = types,
            fc_labels = map (\<lambda>(l, n). \<lparr>lf_label = l, lf_count = n\<rparr>) labels,
            fc_repositories = repositories\<rparr>))))))))"

definition max_synced :: "pr_row list \<Rightarrow> int option" where
  "max_synced rows = (case map w_synced_at rows of [] \<Rightarrow> None | t # ts \<Rightarrow> Some (fold max ts t))"

definition dashboard_summary :: "u64 \<Rightarrow> u64 \<Rightarrow> pr_filter \<Rightarrow> dashboard_summary store_read" where
  "dashboard_summary now installation_id f d =
     bind_result (facet_counts installation_id f now d) (\<lambda>facets.
     bind_result (scoped_filter default_filter None now installation_id) (\<lambda>scoped.
     bind_result (option_result unsigned (max_synced (filter (selected d scoped) (db_prs d)))) (\<lambda>last.
       Inr \<lparr>ds_facets = facets, ds_last_synced_at = last\<rparr>)))"

definition projection_revision :: "projection_revision store_read" where
  "projection_revision d =
     bind_result (unsigned (db_revision d)) (\<lambda>r.
     bind_result (unsigned (db_pr_revision d)) (\<lambda>p.
       Inr \<lparr>rv_projection = r, rv_pull_requests = p\<rparr>))"

section \<open>Batches\<close>

definition targets_in_order :: "string set \<Rightarrow> db \<Rightarrow> target_row list" where
  "targets_in_order ids d =
     sort_key (\<lambda>t. (map byte (t_batch_id t), t_position t))
       (filter (\<lambda>t. t_batch_id t \<in> ids) (db_batch_targets d))"

definition recent_batches :: "u64 \<Rightarrow> u32 \<Rightarrow> batch_record list store_read" where
  "recent_batches installation_id limit d =
     bind_result (integer installation_id) (\<lambda>i.
     bind_result
       (collect_results (map batch_from_row (take (unat limit)
         (rev (sort_key (\<lambda>b. (b_completed_at b, map byte (b_batch_id b)))
           (filter (\<lambda>b. b_installation_id b = Some i) (db_batches d))))))) (\<lambda>batches.
     if batches = [] then Inr []
     else
       bind_result
         (collect_results (map (\<lambda>t. bind_result (batch_target_from_row t) (\<lambda>r. Inr (t_batch_id t, r)))
           (targets_in_order (set (map bc_batch_id batches)) d))) (\<lambda>rows.
       Inr (map (\<lambda>b. b\<lparr>bc_targets := map snd (filter (\<lambda>(k, _). k = bc_batch_id b) rows)\<rparr>)
         batches))))"

definition running_batches :: "u64 \<Rightarrow> running_batch list store_read" where
  "running_batches installation_id d =
     bind_result (integer installation_id) (\<lambda>i.
       collect_results (map running_batch_from_row
         (rev (sort_key (\<lambda>n. (n_started_at n, map byte (n_batch_id n)))
           (filter (\<lambda>n. n_installation_id n = Some i) (db_running d))))))"

definition get_batch :: "u64 \<Rightarrow> string \<Rightarrow> projected_batch option store_read" where
  "get_batch installation_id batch_id d =
     bind_result (integer installation_id) (\<lambda>i.
       case filter (\<lambda>b. b_batch_id b = batch_id \<and> b_installation_id b = Some i) (db_batches d) of
         b # _ \<Rightarrow>
           bind_result (batch_from_row b) (\<lambda>batch.
           bind_result (collect_results (map batch_target_from_row
               (sort_key t_position (filter (\<lambda>t. t_batch_id t = batch_id) (db_batch_targets d)))))
             (\<lambda>targets. Inr (Some (BatchFinished (batch\<lparr>bc_targets := targets\<rparr>)))))
       | [] \<Rightarrow>
           (case filter (\<lambda>n. n_batch_id n = batch_id \<and> n_installation_id n = Some i) (db_running d) of
              [] \<Rightarrow> Inr None
            | n # _ \<Rightarrow>
                bind_result (running_batch_from_row n) (\<lambda>r. Inr (Some (BatchRunning r)))))"

end
