(* ===== verification/Store_Read_Laws.thy ===== *)
theory Store_Read_Laws
  imports Store_Read
begin

text \<open>
  What the dashboard's reads answer: a walk over the pages is the whole ordered list, a key is
  told apart three ways, each facet's count is the total the facet's value would leave, and a
  recorded batch reads back as it was recorded.
\<close>

section \<open>Pages\<close>

lemma joined_filter:
  "prs_ok d \<Longrightarrow> map fst (filter (\<lambda>(p, _). P p) (joined_prs d)) = filter P (db_prs d)"
  unfolding joined_prs_ok [symmetric] by (simp add: filter_map comp_def case_prod_unfold)

definition record_of_row :: "pr_row \<Rightarrow> pr_record" where
  "record_of_row p = (case pr_from_row p of Inr r \<Rightarrow> r)"

lemma written_record_of_row:
  assumes "written_pr p"
  shows "pr_from_row p = Inr (record_of_row p)" and "pr_id (record_of_row p) = w_id p"
    and "uint (pr_updated_at (record_of_row p)) = w_updated_at p"
    and "fits (pr_updated_at (record_of_row p))"
    and "uint (pr_synced_at (record_of_row p)) = w_synced_at p"
proof -
  obtain pr where pr: "row_of_pr pr = Inr p" using assms by (auto simp: written_pr_def)
  have r: "record_of_row p = with_derived_id pr" by (simp add: record_of_row_def pr_from_row_of_pr [OF pr])
  show "pr_from_row p = Inr (record_of_row p)" by (simp add: r pr_from_row_of_pr [OF pr])
  show "pr_id (record_of_row p) = w_id p" using row_of_pr_simps(1) [OF pr] by (simp add: r with_derived_id_def)
  show "uint (pr_updated_at (record_of_row p)) = w_updated_at p"
    "uint (pr_synced_at (record_of_row p)) = w_synced_at p"
    "fits (pr_updated_at (record_of_row p))"
    using pr by (auto simp: r with_derived_id_def row_of_pr_def bind_result_Inr integer_Inr fits_def)
qed

lemma collect_written:
  "\<forall>p\<in>set rows. written_pr p \<Longrightarrow> collect_prs rows = Inr (map record_of_row rows)"
proof -
  assume "\<forall>p\<in>set rows. written_pr p"
  then have "map pr_from_row rows = map (\<lambda>p. Inr (record_of_row p)) rows"
    using written_record_of_row(1) by simp
  then show ?thesis unfolding collect_prs_def by (simp only: collect_results_map)
qed

lemma bytes_less_iff: "bytes_less a b \<longleftrightarrow> map byte a < map byte b"
  by (induction a b rule: bytes_less.induct) auto

lemma after_cursor_rank:
  "after_cursor c p \<longleftrightarrow> row_rank p < (uint (pc_updated_at c), map byte (pc_id c))"
  by (auto simp: after_cursor_def row_rank_def bytes_less_iff less_prod_def)

lemma after_record:
  assumes "written_pr q"
  shows "after_cursor (page_cursor_of (record_of_row q)) p \<longleftrightarrow> row_rank p < row_rank q"
  using written_record_of_row [OF assms]
  by (simp add: after_cursor_rank page_cursor_of_def row_rank_def)

text \<open>The rows that match, newest first: strictly decreasing, as ids are unique.\<close>

definition matching_rows :: "db \<Rightarrow> pr_filter \<Rightarrow> u64 \<Rightarrow> u64 \<Rightarrow> pr_row list" where
  "matching_rows d f now i =
     newest_first (filter (\<lambda>p. row_matches d f now p \<and> owned_by d i p) (db_prs d))"

lemma byte_inj: "byte a = byte b \<longleftrightarrow> a = b"
  by (simp add: byte_def)

lemma map_byte_inj: "map byte a = map byte b \<longleftrightarrow> a = b"
  by (rule inj_map_eq_map) (simp add: inj_def byte_inj)

lemma newest_first_sorted:
  assumes "distinct (map w_id rows)"
  shows "sorted_wrt (\<lambda>p q. row_rank q < row_rank p) (newest_first rows)"
proof -
  have s: "sorted (map row_rank (sort_key row_rank rows))" by simp
  have "inj_on row_rank (set rows)"
    using assms by (auto simp: inj_on_def row_rank_def map_byte_inj distinct_map)
  then have "distinct (map row_rank (sort_key row_rank rows))"
    using assms by (simp add: distinct_map)
  with s have "sorted_wrt (<) (map row_rank (sort_key row_rank rows))"
    by (simp add: strict_sorted_iff)
  then show ?thesis by (simp add: newest_first_def sorted_wrt_rev sorted_wrt_map)
qed

lemma newest_first_filter: "newest_first (filter P rows) = filter P (newest_first rows)"
  by (simp add: newest_first_def rev_filter [symmetric] filter_sort)

lemma set_newest_first [simp]: "set (newest_first rows) = set rows"
  and length_newest_first [simp]: "length (newest_first rows) = length rows"
  by (simp_all add: newest_first_def)

lemma sorted_rank_after:
  assumes "sorted_wrt (\<lambda>p q. row_rank q < row_rank p) (xs @ x # ys)"
  shows "filter (\<lambda>p. row_rank p < row_rank x) (xs @ x # ys) = ys"
proof -
  have "\<forall>p\<in>set xs. \<not> row_rank p < row_rank x" "\<forall>p\<in>set ys. row_rank p < row_rank x"
    using assms by (auto simp: sorted_wrt_append)
  then show ?thesis by (simp add: filter_empty_conv)
qed

text \<open>The rows a page continues with, after a cursor.\<close>

definition rows_after :: "db \<Rightarrow> pr_filter \<Rightarrow> u64 \<Rightarrow> u64 \<Rightarrow> page_cursor option \<Rightarrow> pr_row list" where
  "rows_after d f now i cursor =
     filter (\<lambda>p. case cursor of None \<Rightarrow> True | Some c \<Rightarrow> after_cursor c p) (matching_rows d f now i)"

definition readable_filter :: "pr_filter \<Rightarrow> u64 \<Rightarrow> u64 \<Rightarrow> bool" where
  "readable_filter f now i \<longleftrightarrow> fits i \<and> (pf_needs_attention f \<longrightarrow> fits (stale_before now))"

definition page_of :: "(page_cursor \<Rightarrow> string) \<Rightarrow> nat \<Rightarrow> pr_row list \<Rightarrow> nat \<Rightarrow> dashboard_page" where
  "page_of encode limit rows matched =
     \<lparr>dp_rows = map record_of_row (take limit rows), dp_total = of_nat matched,
      dp_next_cursor =
        (if limit < length rows \<and> take limit rows \<noteq> []
         then Some (encode (page_cursor_of (record_of_row (last (take limit rows))))) else None)\<rparr>"

lemma matching_written: "prs_ok d \<Longrightarrow> p \<in> set (matching_rows d f now i) \<Longrightarrow> written_pr p"
  by (auto simp: matching_rows_def prs_ok_def)

lemma list_prs_page:
  assumes ok: "prs_ok d" and f: "readable_filter f now i"
    and c: "decode_after decode (pg_after p) = Inr cursor"
      "\<forall>c. cursor = Some c \<longrightarrow> fits (pc_updated_at c)"
  shows "list_prs encode decode now i f p d =
    Inr (page_of encode (unat (normalized_limit p)) (rows_after d f now i cursor)
      (length (matching_rows d f now i)))"
proof -
  obtain w0 where w0: "scoped_filter f None now i = Inr w0"
    using scoped_filter_fits [of f None now i] f by (auto simp: readable_filter_def)
  obtain w where w: "scoped_filter f cursor now i = Inr w"
    using scoped_filter_fits [of f cursor now i] f c(2) by (auto simp: readable_filter_def)
  have count: "count_rows w0 d = Inr (of_nat (length (matching_rows d f now i)))"
  proof -
    have "selected d w0 = (\<lambda>p. row_matches d f now p \<and> owned_by d i p)"
      by (intro ext) (simp add: scoped_filter_selects [OF w0])
    then show ?thesis by (simp add: count_rows_def matching_rows_def unsigned_def)
  qed
  have "newest_first (map fst (filter (\<lambda>(p, _). selected d w p) (joined_prs d))) =
      rows_after d f now i cursor"
    by (simp add: joined_filter [OF ok] scoped_filter_selects [OF w] rows_after_def matching_rows_def
        flip: newest_first_filter) (auto intro!: arg_cong [where f = newest_first] filter_cong split: option.splits)
  moreover have "\<forall>p\<in>set (take n (rows_after d f now i cursor)). written_pr p" for n
  proof
    fix p
    assume "p \<in> set (take n (rows_after d f now i cursor))"
    then have "p \<in> set (rows_after d f now i cursor)" by (rule in_set_takeD)
    then have "p \<in> set (matching_rows d f now i)" by (simp add: rows_after_def)
    then show "written_pr p" by (rule matching_written [OF ok])
  qed
  ultimately have rows: "page_rows w n d = Inr (map record_of_row (take n (rows_after d f now i cursor)))" for n
    unfolding page_rows_def by (simp add: collect_written)
  let ?l = "unat (normalized_limit p)" and ?R = "rows_after d f now i cursor"
  have "?l < length (take (?l + 1) ?R) \<longleftrightarrow> ?l < length ?R" by auto
  moreover have "last (map record_of_row (take ?l ?R)) = record_of_row (last (take ?l ?R))"
    if "take ?l ?R \<noteq> []" using that by (simp add: last_map)
  ultimately show ?thesis
    using w0 w count c(1) rows
    by (simp add: list_prs_def page_of_def Let_def take_map [symmetric] last_map)
qed


text \<open>
  A caller walking the pages: the first page, then the page its cursor names, until a page
  names no next one.
\<close>

fun walk_pages ::
    "(page_cursor \<Rightarrow> string) \<Rightarrow> (string \<Rightarrow> page_cursor option) \<Rightarrow> u64 \<Rightarrow> u64 \<Rightarrow> pr_filter \<Rightarrow>
     u32 \<Rightarrow> db \<Rightarrow> nat \<Rightarrow> string option \<Rightarrow> store_error + pr_record list" where
  "walk_pages encode decode now i f limit d 0 after = Inr []"
| "walk_pages encode decode now i f limit d (Suc n) after =
     bind_result (list_prs encode decode now i f \<lparr>pg_limit = limit, pg_after = after\<rparr> d) (\<lambda>p.
       case dp_next_cursor p of
         None \<Rightarrow> Inr (dp_rows p)
       | Some c \<Rightarrow>
           bind_result (walk_pages encode decode now i f limit d n (Some c)) (\<lambda>rest.
             Inr (dp_rows p @ rest)))"

lemma rows_after_split:
  assumes ok: "prs_ok d" and split: "matching_rows d f now i = xs @ x # ys"
  shows "rows_after d f now i (Some (page_cursor_of (record_of_row x))) = ys"
proof -
  have w: "written_pr x" by (rule matching_written [OF ok, of _ f now i]) (simp add: split)
  have "distinct (map w_id (filter (\<lambda>p. row_matches d f now p \<and> owned_by d i p) (db_prs d)))"
    using ok by (simp add: prs_ok_def distinct_map_filter)
  from newest_first_sorted [OF this] show ?thesis
    using sorted_rank_after [of xs x ys] split
    by (simp only: rows_after_def option.case after_record [OF w] matching_rows_def [symmetric])
qed

lemma walk_pages_rest:
  assumes ok: "prs_ok d" and f: "readable_filter f now i"
    and codec: "\<And>c. decode (encode c) = Some c"
  shows "decode_after decode after = Inr cursor \<Longrightarrow> \<forall>c. cursor = Some c \<longrightarrow> fits (pc_updated_at c) \<Longrightarrow>
    matching_rows d f now i = xs @ rows_after d f now i cursor \<Longrightarrow>
    length (rows_after d f now i cursor) < n \<Longrightarrow>
    walk_pages encode decode now i f limit d n after =
      Inr (map record_of_row (rows_after d f now i cursor))"
proof (induction n arbitrary: after cursor xs)
  case 0
  then show ?case by simp
next
  case (Suc n)
  let ?p = "\<lparr>pg_limit = limit, pg_after = after\<rparr>"
  let ?l = "unat (normalized_limit ?p)" and ?R = "rows_after d f now i cursor"
  have l: "1 \<le> ?l" using normalized_limit_bounds by blast
  have page: "list_prs encode decode now i f ?p d =
      Inr (page_of encode ?l ?R (length (matching_rows d f now i)))"
    by (rule list_prs_page [OF ok f]) (use Suc.prems in simp_all)
  show ?case
  proof (cases "?l < length ?R")
    case False
    with page show ?thesis by (simp add: page_of_def)
  next
    case True
    with l have ne: "take ?l ?R \<noteq> []" by auto
    let ?x = "last (take ?l ?R)"
    have R: "?R = butlast (take ?l ?R) @ ?x # drop ?l ?R"
      by (metis append_butlast_last_id append_take_drop_id append_Cons append_assoc append_Nil ne)
    let ?c = "page_cursor_of (record_of_row ?x)"
    have m: "matching_rows d f now i = (xs @ butlast (take ?l ?R)) @ ?x # drop ?l ?R"
      using Suc.prems(3) R by (metis append_assoc)
    have rest: "rows_after d f now i (Some ?c) = drop ?l ?R"
      by (rule rows_after_split [OF ok m])
    have "written_pr ?x"
      by (rule matching_written [OF ok, of _ f now i]) (simp add: m)
    then have fit: "fits (pc_updated_at ?c)"
      using written_record_of_row(4) by (simp add: page_cursor_of_def)
    have "walk_pages encode decode now i f limit d n (Some (encode ?c)) =
        Inr (map record_of_row (rows_after d f now i (Some ?c)))"
    proof (rule Suc.IH)
      show "decode_after decode (Some (encode ?c)) = Inr (Some ?c)"
        by (simp add: decode_after_def codec)
      show "matching_rows d f now i =
          (xs @ butlast (take ?l ?R) @ [?x]) @ rows_after d f now i (Some ?c)"
        using m by (simp add: rest)
      show "length (rows_after d f now i (Some ?c)) < n"
        using Suc.prems(4) True l by (simp add: rest) 
    qed (use fit in simp)
    moreover have "map record_of_row ?R = map record_of_row (take ?l ?R) @ map record_of_row (drop ?l ?R)"
      by (metis append_take_drop_id map_append)
    ultimately show ?thesis using page True ne rest by (simp add: page_of_def)
  qed
qed

lemma walk_pages_all:
  assumes "prs_ok d" "readable_filter f now i" "\<And>c. decode (encode c) = Some c"
    "length (matching_rows d f now i) < n"
  shows "walk_pages encode decode now i f limit d n None =
    Inr (map record_of_row (matching_rows d f now i))"
proof -
  have "rows_after d f now i None = matching_rows d f now i" by (simp add: rows_after_def)
  then show ?thesis
    using walk_pages_rest [OF assms(1-3), of None None "[]" n limit] assms(4)
    by (simp add: decode_after_def)
qed


section \<open>The filter on records\<close>

definition repo_full_name :: "repo_record \<Rightarrow> string" where
  "repo_full_name r = rr_owner r @ ''/'' @ rr_repo r"

text \<open>
  What a filter promises of a pull request: the text it searches, the repository by its present
  name, the facets, the dependency, and the attention view with \<open>is_stale\<close>.
\<close>

definition pr_matches ::
    "(u64 \<Rightarrow> repo_record option) \<Rightarrow> pr_filter \<Rightarrow> u64 \<Rightarrow> u64 \<Rightarrow> pr_record \<Rightarrow> bool" where
  "pr_matches repos f now installation_id pr \<longleftrightarrow>
     (\<exists>r. repos (pr_repository_id pr) = Some r \<and> rr_installation_id r = installation_id \<and>
        (pf_repos f \<noteq> [] \<longrightarrow> repo_full_name r \<in> set (pf_repos f))) \<and>
     (case not_blank (pf_query f) of None \<Rightarrow> True | Some q \<Rightarrow>
        str_contains (to_ascii_lowercase (pr_owner pr @ ''/'' @ pr_repo pr @ '' '' @ pr_title pr))
          (to_ascii_lowercase (trim q)) \<or>
        (\<exists>u\<in>set (pr_dependencies pr).
           str_contains (to_ascii_lowercase (du_name u)) (to_ascii_lowercase (trim q)))) \<and>
     (pf_update_types f \<noteq> [] \<longrightarrow> pr_update_type pr \<in> set (pf_update_types f)) \<and>
     (pf_check_statuses f \<noteq> [] \<longrightarrow> pr_check_status pr \<in> set (pf_check_statuses f)) \<and>
     set (pf_labels f) \<subseteq> set (pr_labels pr) \<and>
     (case not_blank (pf_dependency f) of None \<Rightarrow> True | Some t \<Rightarrow>
        (case pr_dependency pr of
           Some dep \<Rightarrow> to_ascii_lowercase (trim t) = to_ascii_lowercase dep
         | None \<Rightarrow> \<exists>u\<in>set (pr_dependencies pr).
             to_ascii_lowercase (trim t) = to_ascii_lowercase (du_name u))) \<and>
     (pf_needs_attention f \<longrightarrow>
        pr_check_status pr \<in> {CkFailure, CkNone} \<or> is_conflicting (pr_mergeable pr) \<or>
        pr_update_type pr = UtMajor \<or> is_stale pr now)"

lemma row_of_pr_record:
  "row_of_pr pr = Inr p \<Longrightarrow> record_of_row p = with_derived_id pr"
  by (simp add: record_of_row_def pr_from_row_of_pr)

lemma row_of_pr_columns:
  assumes "row_of_pr pr = Inr p"
  shows "w_owner p = pr_owner pr" "w_repo p = pr_repo pr" "w_title p = pr_title pr"
    "w_dependency p = pr_dependency pr" "w_dependencies p = pr_dependencies pr"
    "w_update_type p = display_update_type (pr_update_type pr)"
    "w_check_status p = display_check_status (pr_check_status pr)"
    "w_mergeable p = Some (display_mergeable (pr_mergeable pr))" "w_labels p = pr_labels pr"
  using assms by (auto simp: row_of_pr_def bind_result_Inr)

lemma with_derived_id_simps [simp]:
  "pr_owner (with_derived_id pr) = pr_owner pr" "pr_repo (with_derived_id pr) = pr_repo pr"
  "pr_title (with_derived_id pr) = pr_title pr" "pr_dependency (with_derived_id pr) = pr_dependency pr"
  "pr_dependencies (with_derived_id pr) = pr_dependencies pr"
  "pr_update_type (with_derived_id pr) = pr_update_type pr"
  "pr_check_status (with_derived_id pr) = pr_check_status pr"
  "pr_mergeable (with_derived_id pr) = pr_mergeable pr" "pr_labels (with_derived_id pr) = pr_labels pr"
  "pr_repository_id (with_derived_id pr) = pr_repository_id pr"
  "pr_synced_at (with_derived_id pr) = pr_synced_at pr"
  "record_key (with_derived_id pr) = record_key pr"
  by (simp_all add: with_derived_id_def record_key_def)

lemma display_mergeable_iff: "display_mergeable m = ''dirty'' \<longleftrightarrow> is_conflicting m"
  by (cases m) (auto simp: is_conflicting_def)

lemma display_update_major: "display_update_type t = ''major'' \<longleftrightarrow> t = UtMajor"
  by (cases t) auto

lemma display_check_bad: "display_check_status c \<in> {''failure'', ''none''} \<longleftrightarrow> c \<in> {CkFailure, CkNone}"
  by (cases c) auto

lemma needs_attention_row:
  assumes "row_of_pr pr = Inr p"
  shows "needs_attention now p \<longleftrightarrow> pr_check_status pr \<in> {CkFailure, CkNone} \<or>
    is_conflicting (pr_mergeable pr) \<or> pr_update_type pr = UtMajor \<or> is_stale pr now"
proof -
  have "w_synced_at p < uint (stale_before now) \<longleftrightarrow> is_stale pr now"
    using row_of_pr_simps(4) [OF assms] stale_before_iff [of "pr_synced_at pr" now]
    by (simp add: is_stale_def word_less_def)
  then show ?thesis
    unfolding needs_attention_def row_of_pr_columns [OF assms] option.inject
    by (simp only: display_mergeable_iff display_update_major display_check_bad)
qed

lemma row_matches_record:
  assumes ok: "prs_ok d" and row: "row_of_pr pr = Inr p"
  shows "row_matches d f now p \<and> owned_by d i p \<longleftrightarrow>
    pr_matches (repo_table d) f now i (with_derived_id pr)"
proof -
  note cols = row_of_pr_columns [OF row]
  have rid: "w_repository_id p = uint (pr_repository_id pr)" by (rule row_of_pr_simps(2) [OF row])
  have repo: "(\<exists>x\<in>set (db_repos d). x_repository_id x = w_repository_id p \<and> Q x) \<longleftrightarrow>
      (\<exists>r. repo_table d (pr_repository_id pr) = Some r \<and> Q' r)"
    if "\<And>x r. x \<in> set (db_repos d) \<Longrightarrow> repo_from_row x = Inr r \<Longrightarrow> Q x = Q' r" for Q Q'
  proof -
    have "\<exists>r. repo_from_row x = Inr r" if "x \<in> set (db_repos d)" for x
      using that ok written_repo_read by (metis prs_ok_def)
    then show ?thesis unfolding repo_table_Some [OF ok] rid using that by metis
  qed
  have names: "repo_name x = repo_full_name r" "x_installation_id x = uint (rr_installation_id r)"
    if "x \<in> set (db_repos d)" "repo_from_row x = Inr r" for x r
  proof -
    show "repo_name x = repo_full_name r"
      using that by (auto simp: repo_name_def repo_full_name_def repo_from_row_def bind_result_Inr)
    have "written_repo x" using that ok by (simp add: prs_ok_def)
    then show "x_installation_id x = uint (rr_installation_id r)"
      by (rule written_repo_read) (use that in simp)
  qed
  have owned: "owned_by d i p \<longleftrightarrow>
      (\<exists>r. repo_table d (pr_repository_id pr) = Some r \<and> rr_installation_id r = i)"
    unfolding owned_by_def by (rule repo) (use names in \<open>simp add: word_uint_eq_iff\<close>)
  have named: "(\<exists>x\<in>set (db_repos d). x_repository_id x = w_repository_id p \<and> repo_name x \<in> S) \<longleftrightarrow>
      (\<exists>r. repo_table d (pr_repository_id pr) = Some r \<and> repo_full_name r \<in> S)" for S
    by (rule repo) (use names in simp)
  have img: "display_update_type t \<in> display_update_type ` A \<longleftrightarrow> t \<in> A"
    "display_check_status c \<in> display_check_status ` B \<longleftrightarrow> c \<in> B" for t A c B
    by (rule update_type_codec.in_render_image, rule check_status_codec.in_render_image)
  have opt: "(\<forall>q. x = Some q \<longrightarrow> P q) \<longleftrightarrow> (case x of None \<Rightarrow> True | Some q \<Rightarrow> P q)"
    for x :: "string option" and P by (cases x) auto
  have one: "(\<exists>r. t = Some r \<and> A r \<and> (b \<longrightarrow> B r)) \<longleftrightarrow>
      (\<exists>r. t = Some r \<and> A r) \<and> (b \<longrightarrow> (\<exists>r. t = Some r \<and> B r))"
    for t :: "repo_record option" and A B b by (cases t) auto
  show ?thesis
    unfolding row_matches_def pr_matches_def owned named needs_attention_row [OF row]
      found_by_def names_dependency_def cols img is_stale_def with_derived_id_simps opt one
    by (simp only: conj_ac)
qed

lemma matching_records:
  assumes ok: "prs_ok d"
  shows "set (map record_of_row (matching_rows d f now i)) =
      {pr \<in> ran (pr_table d). pr_matches (repo_table d) f now i pr}"
proof (intro set_eqI iffI)
  fix pr
  assume "pr \<in> set (map record_of_row (matching_rows d f now i))"
  then obtain p where p: "p \<in> set (db_prs d)" "row_matches d f now p \<and> owned_by d i p"
      "pr = record_of_row p"
    by (auto simp: matching_rows_def)
  with ok obtain q where q: "row_of_pr q = Inr p" by (auto simp: prs_ok_def written_pr_def)
  have "pr = with_derived_id q" using p(3) row_of_pr_record [OF q] by simp
  moreover have "pr_table d (row_key p) = Some (record_of_row p)"
    using pr_table_rows [OF ok p(1)] by (auto simp: record_of_row_def)
  ultimately show "pr \<in> {pr \<in> ran (pr_table d). pr_matches (repo_table d) f now i pr}"
    using p row_matches_record [OF ok q] by (auto simp: ran_def)
next
  fix pr
  assume "pr \<in> {pr \<in> ran (pr_table d). pr_matches (repo_table d) f now i pr}"
  then obtain k where k: "pr_table d k = Some pr" and m: "pr_matches (repo_table d) f now i pr"
    by (auto simp: ran_def)
  then obtain p where p: "p \<in> set (db_prs d)" "pr_from_row p = Inr pr"
    by (auto simp: pr_table_Some [OF ok])
  with ok obtain q where q: "row_of_pr q = Inr p" by (auto simp: prs_ok_def written_pr_def)
  have "pr = with_derived_id q" "record_of_row p = pr"
    using pr_from_row_of_pr [OF q] p(2) by (simp_all add: record_of_row_def)
  with p m row_matches_record [OF ok q] show "pr \<in> set (map record_of_row (matching_rows d f now i))"
    by (auto simp: matching_rows_def intro!: image_eqI [where x = p])
qed

text \<open>Newest first: by the update's instant, then by the id's bytes.\<close>

definition newer :: "pr_record \<Rightarrow> pr_record \<Rightarrow> bool" where
  "newer a b \<longleftrightarrow> pr_updated_at b < pr_updated_at a \<or>
     (pr_updated_at b = pr_updated_at a \<and> bytes_less (pr_id b) (pr_id a))"

lemma matching_sorted:
  assumes ok: "prs_ok d"
  shows "sorted_wrt newer (map record_of_row (matching_rows d f now i))"
proof -
  have "distinct (map w_id (filter (\<lambda>p. row_matches d f now p \<and> owned_by d i p) (db_prs d)))"
    using ok by (simp add: prs_ok_def distinct_map_filter)
  from newest_first_sorted [OF this]
  have "sorted_wrt (\<lambda>p q. row_rank q < row_rank p) (matching_rows d f now i)"
    by (simp only: matching_rows_def)
  moreover have "newer (record_of_row p) (record_of_row q)"
    if "p \<in> set (matching_rows d f now i)" "q \<in> set (matching_rows d f now i)"
      "row_rank q < row_rank p" for p q
    using that written_record_of_row [OF matching_written [OF ok that(1)]]
      written_record_of_row [OF matching_written [OF ok that(2)]]
    by (auto simp: newer_def row_rank_def less_prod_def bytes_less_iff word_less_def word_uint_eq_iff)
  ultimately show ?thesis
    unfolding sorted_wrt_map by (rule sorted_wrt_mono_rel [rotated])
qed


section \<open>Keys resolved within an installation\<close>

text \<open>What the projection holds for a key, told apart by whose the repository is.\<close>

definition projected :: "db \<Rightarrow> u64 \<Rightarrow> pr_key \<Rightarrow> projected_pr" where
  "projected d i key =
     (case pr_table d key of
        None \<Rightarrow> PjAbsent
      | Some pr \<Rightarrow>
          (case repo_table d (pk_repository key) of
             None \<Rightarrow> PjAbsent
           | Some r \<Rightarrow> if rr_installation_id r = i then PjRow pr else PjForeign))"

lemma map_of_rev_Some:
  assumes "distinct (map fst xs)"
  shows "map_of (rev xs) k = Some v \<longleftrightarrow> (k, v) \<in> set xs"
proof -
  have "distinct (map fst (rev xs))" using assms by (simp add: rev_map [symmetric])
  then show ?thesis by (simp add: map_of_eq_Some_iff)
qed

lemma joined_row:
  assumes ok: "prs_ok d" and "(p, j) \<in> set (joined_prs d)"
  shows "\<exists>r. p \<in> set (db_prs d) \<and> repo_table d (pk_repository (row_key p)) = Some r \<and>
    j = uint (rr_installation_id r)"
proof -
  from assms obtain x where p: "p \<in> set (db_prs d)" and x: "x \<in> set (db_repos d)"
    "x_repository_id x = w_repository_id p" "j = x_installation_id x"
    by (auto simp: joined_prs_def)
  have wp: "written_pr p" and wx: "written_repo x" using p x ok by (auto simp: prs_ok_def)
  have id: "w_repository_id p = uint (pk_repository (row_key p))"
    using wp by (rule written_pr_read) (simp add: row_key_def)
  from wx obtain r where "repo_from_row x = Inr r" "x_installation_id x = uint (rr_installation_id r)"
    by (rule written_repo_read)
  with p x id show ?thesis by (auto simp: repo_table_Some [OF ok])
qed

lemma joined_exists:
  assumes ok: "prs_ok d" and p: "p \<in> set (db_prs d)"
  shows "\<exists>j. (p, j) \<in> set (joined_prs d)"
proof -
  have "p \<in> set (map fst (joined_prs d))" using p joined_prs_ok [OF ok] by simp
  then show ?thesis by auto
qed

lemma get_prs_projected:
  assumes ok: "prs_ok d"
  shows "get_prs i keys d = Inr (map (projected d i) keys)"
proof (cases "keys = []")
  case True
  then show ?thesis by (simp add: get_prs_def)
next
  case False
  let ?sel = "filter (\<lambda>(p, _). w_id p \<in> set (map display_pr_key keys)) (joined_prs d)"
  let ?pairs = "map (\<lambda>(p, j). (record_of_row p, of_int j :: u64)) ?sel"
  have "read_joined pj = Inr (case pj of (p, j) \<Rightarrow> (record_of_row p, of_int j))" if "pj \<in> set ?sel" for pj
  proof -
    obtain p j where pj: "pj = (p, j)" by (cases pj)
    with that joined_row [OF ok, of p j] have "written_pr p" "0 \<le> j" using ok by (auto simp: prs_ok_def)
    then show ?thesis by (simp add: pj read_joined_def written_record_of_row unsigned_def)
  qed
  then have "collect_results (map read_joined ?sel) = Inr ?pairs"
    by (simp only: collect_results_map cong: map_cong)
  moreover define found where "found = map_of (rev (map (\<lambda>(r, owner). (pr_id r, (r, owner))) ?pairs))"
  ultimately have run: "get_prs i keys d = Inr (map (\<lambda>key. case found (display_pr_key key) of
        None \<Rightarrow> PjAbsent | Some (row, owner) \<Rightarrow> if owner = i then PjRow row else PjForeign) keys)"
    using False by (simp add: get_prs_def Let_def)
  have id: "pr_id (record_of_row p) = w_id p" if "(p, j) \<in> set (joined_prs d)" for p j
    using that joined_row [OF ok] ok written_record_of_row(2) by (metis prs_ok_def)
  have fsts: "map fst (map (\<lambda>(r, owner). (pr_id r, (r, owner))) ?pairs) =
      map w_id (filter (\<lambda>p. w_id p \<in> set (map display_pr_key keys)) (db_prs d))"
    using id unfolding joined_filter [OF ok, symmetric] by auto
  have dist: "distinct (map fst (map (\<lambda>(r, owner). (pr_id r, (r, owner))) ?pairs))"
    unfolding fsts using ok by (simp add: prs_ok_def distinct_map_filter)
  have found: "found (w_id p) = Some (record_of_row p, of_int j)"
    if "(p, j) \<in> set (joined_prs d)" "w_id p \<in> set (map display_pr_key keys)" for p j
    unfolding found_def map_of_rev_Some [OF dist] using that id by force
  have none: "found k = None" if "\<forall>p\<in>set (db_prs d). w_id p \<noteq> k" for k
  proof (rule ccontr)
    assume "found k \<noteq> None"
    then have "k \<in> set (map fst (rev (map (\<lambda>(r, owner). (pr_id r, (r, owner))) ?pairs)))"
      unfolding found_def by (simp only: map_of_eq_None_iff set_map) simp
    then have "k \<in> set (map fst (map (\<lambda>(r, owner). (pr_id r, (r, owner))) ?pairs))"
      by (simp only: set_map set_rev)
    with that show False unfolding fsts by auto
  qed
  have "(case found (display_pr_key key) of None \<Rightarrow> PjAbsent
      | Some (row, owner) \<Rightarrow> if owner = i then PjRow row else PjForeign) = projected d i key"
    if key: "key \<in> set keys" for key
  proof (cases "pr_table d key")
    case None
    have "\<forall>p\<in>set (db_prs d). w_id p \<noteq> display_pr_key key"
      using None pr_table_Some [OF ok, of key] written_record_of_row(1) ok
      by (metis option.distinct(1) prs_ok_def)
    with None none show ?thesis by (simp add: projected_def)
  next
    case (Some pr)
    then obtain p where p: "p \<in> set (db_prs d)" "w_id p = display_pr_key key" "pr_from_row p = Inr pr"
      by (auto simp: pr_table_Some [OF ok])
    obtain j where j: "(p, j) \<in> set (joined_prs d)" using joined_exists [OF ok p(1)] by blast
    have "row_key p = key" using written_row_key(1) [of p] p ok by (simp add: prs_ok_def)
    with joined_row [OF ok j] obtain r where
      r: "repo_table d (pk_repository key) = Some r" "j = uint (rr_installation_id r)" by auto
    have "found (display_pr_key key) = Some (record_of_row p, of_int j)"
      using found [OF j] p(2) key by simp
    with Some r p(3) show ?thesis by (simp add: projected_def record_of_row_def)
  qed
  then show ?thesis unfolding run by simp
qed

section \<open>Batches read back\<close>

definition batch_fits :: "batch_record \<Rightarrow> bool" where
  "batch_fits b \<longleftrightarrow> fits (bc_installation_id b) \<and> fits (bc_started_at b) \<and> fits (bc_completed_at b) \<and>
     fits (bc_succeeded b) \<and> fits (bc_rejected b) \<and> fits (bc_failed b) \<and> length (bc_targets b) < 2 ^ 63 \<and>
     (\<forall>t\<in>set (bc_targets b). fits (bt_repository_id t) \<and> fits (bt_number t))"

lemma target_rows_read:
  "map (\<lambda>pt. row_of_target b (fst pt) (snd pt)) pts = map Inr rows \<Longrightarrow>
   map batch_target_from_row rows = map (\<lambda>pt. Inr (snd pt)) pts"
proof (induction pts arbitrary: rows)
  case Nil
  then show ?case by simp
next
  case (Cons pt pts)
  then show ?case by (cases rows) (auto dest: batch_target_from_row_of_target)
qed


lemma target_rows_sorted:
  "map (\<lambda>pt. row_of_target b (fst pt) (snd pt)) (enumerate n ts) = map Inr rows \<Longrightarrow>
   n + length ts < 2 ^ 64 \<Longrightarrow> sorted (map t_position rows) \<and> (\<forall>r\<in>set rows. int n \<le> t_position r)"
proof (induction ts arbitrary: n rows)
  case Nil
  then show ?case by simp
next
  case (Cons t ts)
  then obtain r rs where r: "rows = r # rs" "row_of_target b n t = Inr r"
      "map (\<lambda>pt. row_of_target b (fst pt) (snd pt)) (enumerate (Suc n) ts) = map Inr rs"
    by (cases rows) auto
  have "t_position r = uint (of_nat n :: u64)"
    using r(2) by (auto simp: row_of_target_def bind_result_Inr integer_Inr)
  then have pos: "t_position r = int n"
    using Cons.prems(2) by (simp add: unsigned_of_nat take_bit_nat_eq_self)
  from Cons.IH [OF r(3)] Cons.prems(2) have "sorted (map t_position rs)" "\<forall>r\<in>set rs. int (Suc n) \<le> t_position r"
    by auto
  with r(1) pos show ?case by fastforce
qed

lemma insert_targets_total:
  "\<forall>t\<in>set ts. fits (bt_repository_id t) \<and> fits (bt_number t) \<Longrightarrow> n + length ts < 2 ^ 63 \<Longrightarrow>
   \<exists>d'. each_step (insert_target b) (enumerate n ts) d = (Inr (), d')"
proof (induction ts arbitrary: n d)
  case Nil
  then show ?case by simp
next
  case (Cons t ts)
  have "fits (of_nat n)" using Cons.prems(2) by (simp add: fits_def unsigned_of_nat take_bit_nat_eq_self)
  then obtain row where "row_of_target b n t = Inr row"
    using Cons.prems(1) by (auto simp: row_of_target_def bind_result_Inr)
  then have "insert_target b (n, t) d = (Inr (), d\<lparr>db_batch_targets := db_batch_targets d @ [row]\<rparr>)"
    by (simp add: insert_target_def andthen_def)
  then show ?case using Cons.IH [of "Suc n"] Cons.prems by simp
qed

lemma record_batch_total:
  assumes "batch_fits b"
  shows "\<exists>d'. record_batch b d = (Inr (), d')"
proof -
  obtain row where row: "row_of_batch b = Inr row"
    using assms by (auto simp: batch_fits_def row_of_batch_def bind_result_Inr)
  obtain d' where "each_step (insert_target (bc_batch_id b)) (enumerate 0 (bc_targets b))
      ((unlisted_db (bc_batch_id b) d)\<lparr>db_batches := db_batches d @ [row]\<rparr>) = (Inr (), d')"
    using assms insert_targets_total [of "bc_targets b" 0] unfolding batch_fits_def by fastforce
  then show ?thesis
    using row unfolding record_batch_def transaction_Inr
    by (auto simp: andthen_def unlist_batch_def unlisted_db_def)
qed

lemma get_batch_recorded:
  assumes ok: "db_ok d" and fit: "batch_fits b" and new: "\<not> recorded d (bc_batch_id b)"
    and run: "record_batch b d = (Inr (), d')"
  shows "get_batch (bc_installation_id b) (bc_batch_id b) d' = Inr (Some (BatchFinished b))"
  using run
proof (cases rule: record_batch_cases)
  case again
  with new show ?thesis by simp
next
  case (first row rows)
  let ?b = "bc_batch_id b"
  have row: "b_batch_id row = ?b" "b_installation_id row = Some (uint (bc_installation_id b))"
    "batch_from_row row = Inr (b\<lparr>bc_targets := []\<rparr>)"
    using first(2) batch_from_row_of_batch [OF first(2)]
    by (auto simp: row_of_batch_def bind_result_Inr integer_Inr)
  have "filter (\<lambda>x. b_batch_id x = ?b \<and> b_installation_id x = Some (uint (bc_installation_id b))) (db_batches d) = []"
    using new by (auto simp: recorded_iff filter_empty_conv)
  then have hit: "filter (\<lambda>x. b_batch_id x = ?b \<and> b_installation_id x = Some (uint (bc_installation_id b)))
      (db_batches d') = [row]"
    using row by (simp add: first(4))
  have "t_batch_id ` set (db_batch_targets d) \<subseteq> b_batch_id ` set (db_batches d)"
    using ok by (simp add: db_ok_def batches_ok_def)
  then have "\<forall>t\<in>set (db_batch_targets d). t_batch_id t \<noteq> ?b"
    using new by (metis image_eqI recorded_def subsetD)
  then have "filter (\<lambda>t. t_batch_id t = ?b) (db_batch_targets d) = []" by (simp add: filter_empty_conv)
  moreover have "filter (\<lambda>t. t_batch_id t = ?b) rows = rows"
    using target_rows_id [OF first(3)] by simp
  ultimately have "filter (\<lambda>t. t_batch_id t = ?b) (db_batch_targets d') = rows"
    by (simp add: first(4))
  moreover have "sort_key t_position rows = rows"
    using target_rows_sorted [OF first(3)] fit by (simp add: batch_fits_def sort_key_id_if_sorted)
  moreover have "map batch_target_from_row rows = map Inr (bc_targets b)"
  proof -
    have "map (\<lambda>pt. Inr (snd pt)) (enumerate 0 (bc_targets b)) = map Inr (map snd (enumerate 0 (bc_targets b)))"
      by (simp only: map_map comp_def)
    with target_rows_read [OF first(3)] show ?thesis by simp
  qed
  ultimately have "collect_results (map batch_target_from_row
      (sort_key t_position (filter (\<lambda>t. t_batch_id t = ?b) (db_batch_targets d')))) = Inr (bc_targets b)"
    by (simp add: collect_results_Inr)
  with hit row fit show ?thesis by (simp add: get_batch_def batch_fits_def)
qed

text \<open>Whatever is recorded later under the same id, the first record is the one read.\<close>

lemma record_again_keeps:
  assumes "recorded d (bc_batch_id b)" and "record_batch b d = (Inr (), d')"
  shows "db_batches d' = db_batches d \<and> db_batch_targets d' = db_batch_targets d"
  using assms(2)
proof (cases rule: record_batch_cases)
  case again
  then show ?thesis by (simp add: unlisted_db_def)
next
  case (first row rows)
  with assms(1) show ?thesis by simp
qed

section \<open>Facets\<close>

lemma group_counts_set:
  "(k, n) \<in> set (group_counts vs) \<longleftrightarrow> k \<in> set vs \<and> n = int (count_list vs k)"
  by (auto simp: group_counts_def)

lemma group_counts_keys: "distinct (map fst (group_counts vs))"
  by (simp add: group_counts_def comp_def)

lemma grouped_groups:
  "grouped (group_counts vs) = Inr (map (\<lambda>(k, n). (k, of_int n)) (group_counts vs))"
proof -
  have "(\<lambda>(k, n). bind_result (unsigned n) (\<lambda>c. Inr (k, c))) x = Inr (case x of (k, n) \<Rightarrow> (k, of_int n))"
    if "x \<in> set (group_counts vs)" for x
  proof -
    obtain k n where x: "x = (k, n)" by (cases x)
    with that have "0 \<le> n" by (simp add: group_counts_set)
    with x show ?thesis by (simp add: unsigned_def)
  qed
  then have "map (\<lambda>(k, n). bind_result (unsigned n) (\<lambda>c. Inr (k, c))) (group_counts vs) =
      map (\<lambda>x. Inr (case x of (k, n) \<Rightarrow> (k, of_int n))) (group_counts vs)"
    by (rule map_cong [OF refl])
  then show ?thesis unfolding grouped_def by (simp only: collect_results_map)
qed

context token_codec
begin

lemma stored_render_any: "stored_enum read (render a) = Inr a"
  by (simp add: stored_enum_def read_render)

text \<open>Counting a column of printed tokens gives, for each value, how many rows print it.\<close>

lemma enum_counts_rendered:
  "\<exists>m. enum_counts read (group_counts (map render xs)) = Inr m \<and>
     (\<forall>a. m a = (if a \<in> set xs then Some (of_nat (count_list xs a)) else None))"
proof -
  let ?g = "group_counts (map render xs)"
  have inj: "inj render" by (rule injI) (simp add: render_inj)
  have cnt: "count_list (map render xs) (render a) = count_list xs a" for a
    by (induction xs) (simp_all add: render_inj)
  have "\<exists>ys. map (\<lambda>(k, c). bind_result (stored_enum read k) (\<lambda>a. Inr (a, c)))
        (map (\<lambda>(k, n). (k, of_int n :: u64)) ps) = map Inr ys \<and>
      map (\<lambda>(a, c). (render a, c)) ys = map (\<lambda>(k, n). (k, of_int n)) ps"
    if "fst ` set ps \<subseteq> range render" for ps
    using that
  proof (induction ps)
    case Nil
    then show ?case by simp
  next
    case (Cons p ps)
    then obtain ys a where ys: "map (\<lambda>(k, c). bind_result (stored_enum read k) (\<lambda>a. Inr (a, c)))
        (map (\<lambda>(k, n). (k, of_int n :: u64)) ps) = map Inr ys"
      "map (\<lambda>(a, c). (render a, c)) ys = map (\<lambda>(k, n). (k, of_int n)) ps" "fst p = render a"
      by auto
    then show ?case
      by (intro exI [of _ "(a, of_int (snd p)) # ys"]) (simp add: stored_render_any case_prod_unfold)
  qed
  moreover have "fst ` set ?g \<subseteq> range render" by (auto simp: group_counts_set)
  ultimately obtain ys where
    run: "map (\<lambda>(k, c). bind_result (stored_enum read k) (\<lambda>a. Inr (a, c)))
        (map (\<lambda>(k, n). (k, of_int n :: u64)) ?g) = map Inr ys"
    and shown: "map (\<lambda>(a, c). (render a, c)) ys = map (\<lambda>(k, n). (k, of_int n)) ?g" by blast
  have keys: "map render (map fst ys) = map fst ?g"
    using arg_cong [OF shown, of "map fst"] by (simp add: comp_def case_prod_unfold)
  have "distinct (map fst ys)"
    using group_counts_keys [of "map render xs"] keys by (metis distinct_map)
  then have m: "map_of (rev ys) a = Some v \<longleftrightarrow> (a, v) \<in> set ys" for a v
    by (rule map_of_rev_Some)
  have mem: "(a, v) \<in> set ys \<longleftrightarrow> a \<in> set xs \<and> v = of_nat (count_list xs a)" for a v
  proof -
    have "(a, v) \<in> set ys \<longleftrightarrow> (render a, v) \<in> set (map (\<lambda>(a, c). (render a, c)) ys)"
      using inj by (auto dest: injD)
    also have "\<dots> \<longleftrightarrow> (\<exists>n. (render a, n) \<in> set ?g \<and> v = of_int n)"
      unfolding shown by force
    also have "\<dots> \<longleftrightarrow> a \<in> set xs \<and> v = of_nat (count_list xs a)"
      using inj by (auto simp: group_counts_set cnt inj_image_mem_iff)
    finally show ?thesis .
  qed
  have "collect_results (map Inr ys :: (store_error + 'a \<times> u64) list) = Inr ys"
    by (simp add: collect_results_Inr)
  then have "enum_counts read ?g = Inr (map_of (rev ys))"
    by (simp only: enum_counts_def grouped_groups bind_result_simps run)
  moreover have "map_of (rev ys) a = (if a \<in> set xs then Some (of_nat (count_list xs a)) else None)" for a
  proof (cases "a \<in> set xs")
    case True
    with m mem show ?thesis by simp
  next
    case False
    with m mem have "map_of (rev ys) a \<noteq> Some v" for v by simp
    then have "map_of (rev ys) a = None" by (metis option.exhaust)
    with False show ?thesis by simp
  qed
  ultimately show ?thesis by blast
qed

lemma enum_counts_column:
  assumes "\<forall>x\<in>set xs. \<exists>a. col x = render a"
    and "enum_counts read (group_counts (map col (filter P xs))) = Inr m"
  shows "(case m a of None \<Rightarrow> 0 | Some n \<Rightarrow> n) =
    of_nat (length (filter (\<lambda>x. P x \<and> col x = render a) xs))"
proof -
  define val where "val x = (SOME a. col x = render a)" for x
  have val: "col x = render (val x)" if "x \<in> set xs" for x
    using someI_ex [OF bspec [OF assms(1) that]] by (simp add: val_def)
  have "map col (filter P xs) = map render (map val (filter P xs))" using val by auto
  with assms(2) enum_counts_rendered [of "map val (filter P xs)"]
  have "m a = (if a \<in> set (map val (filter P xs))
      then Some (of_nat (count_list (map val (filter P xs)) a)) else None)" by auto
  then have "(case m a of None \<Rightarrow> 0 | Some n \<Rightarrow> n) = of_nat (count_list (map val (filter P xs)) a)"
    by (simp del: set_map)
  also have "count_list (map val (filter P xs)) a = length (filter (\<lambda>x. P x \<and> val x = a) xs)"
    by (induction xs) auto
  also have "filter (\<lambda>x. P x \<and> val x = a) xs = filter (\<lambda>x. P x \<and> col x = render a) xs"
    using val by (intro filter_cong) (auto simp: render_inj)
  finally show ?thesis .
qed

end

lemma facet_counts_parts:
  assumes "facet_counts i f now d = Inr fc"
  obtains w1 w2 where "facet_scope f FaChecks now i = Inr w1" "facet_scope f FaUpdateTypes now i = Inr w2"
    "enum_counts parse_check_status (group_counts (map w_check_status (filter (selected d w1) (db_prs d)))) =
       Inr (fc_checks fc)"
    "enum_counts parse_update_type (group_counts (map w_update_type (filter (selected d w2) (db_prs d)))) =
       Inr (fc_update_types fc)"
  using assms by (auto simp: facet_counts_def bind_result_Inr)

text \<open>
  A facet's count is the number of rows the list shows when the facet's value is the only one
  chosen: the sidebar never promises a row the list does not have.
\<close>

lemma check_facet_total:
  assumes ok: "prs_ok d" and fc: "facet_counts i f now d = Inr fc"
  shows "check_count fc s = of_nat (length (matching_rows d (f\<lparr>pf_check_statuses := [s]\<rparr>) now i))"
proof -
  obtain w where w: "facet_scope f FaChecks now i = Inr w"
    and counts: "enum_counts parse_check_status
      (group_counts (map w_check_status (filter (selected d w) (db_prs d)))) = Inr (fc_checks fc)"
    using fc by (rule facet_counts_parts)
  have tok: "\<forall>p\<in>set (db_prs d). \<exists>c. w_check_status p = display_check_status c"
    using ok row_of_pr_columns(7) by (fastforce simp: prs_ok_def written_pr_def)
  have "selected d w p \<and> w_check_status p = display_check_status s \<longleftrightarrow>
      row_matches d (f\<lparr>pf_check_statuses := [s]\<rparr>) now p \<and> owned_by d i p" for p
    using scoped_filter_selects [of "f\<lparr>pf_check_statuses := []\<rparr>" None now i w d p] w
    by (auto simp: facet_scope_def row_matches_def)
  then show ?thesis
    using check_status_codec.enum_counts_column [OF tok counts, of s]
    by (simp add: check_count_def matching_rows_def)
qed

lemma update_type_facet_total:
  assumes ok: "prs_ok d" and fc: "facet_counts i f now d = Inr fc"
  shows "update_type_count fc t = of_nat (length (matching_rows d (f\<lparr>pf_update_types := [t]\<rparr>) now i))"
proof -
  obtain w where w: "facet_scope f FaUpdateTypes now i = Inr w"
    and counts: "enum_counts parse_update_type
      (group_counts (map w_update_type (filter (selected d w) (db_prs d)))) = Inr (fc_update_types fc)"
    using fc by (rule facet_counts_parts)
  have tok: "\<forall>p\<in>set (db_prs d). \<exists>c. w_update_type p = display_update_type c"
    using ok row_of_pr_columns(6) by (fastforce simp: prs_ok_def written_pr_def)
  have "selected d w p \<and> w_update_type p = display_update_type t \<longleftrightarrow>
      row_matches d (f\<lparr>pf_update_types := [t]\<rparr>) now p \<and> owned_by d i p" for p
    using scoped_filter_selects [of "f\<lparr>pf_update_types := []\<rparr>" None now i w d p] w
    by (auto simp: facet_scope_def row_matches_def)
  then show ?thesis
    using update_type_codec.enum_counts_column [OF tok counts, of t]
    by (simp add: update_type_count_def matching_rows_def)
qed

section \<open>The facets of a sound store are computed\<close>

lemma collect_results_total:
  "\<forall>x\<in>set xs. \<exists>y. g x = Inr y \<Longrightarrow> \<exists>ys. collect_results (map g xs) = Inr ys"
  by (induction xs) (auto simp: bind_result_Inr)

context token_codec
begin

lemma enum_counts_total:
  assumes "\<forall>x\<in>set xs. \<exists>a. col x = render a"
  shows "\<exists>m. enum_counts read (group_counts (map col (filter P xs))) = Inr m"
proof -
  obtain val where "\<forall>x\<in>set xs. col x = render (val x)" using bchoice [OF assms] by blast
  then have "map col (filter P xs) = map render (map val (filter P xs))" by simp
  with enum_counts_rendered [of "map val (filter P xs)"] show ?thesis by metis
qed

end

lemma grouped_total: "\<forall>x\<in>set rows. 0 \<le> snd x \<Longrightarrow> \<exists>c. grouped rows = Inr c"
  unfolding grouped_def by (rule collect_results_total) (auto simp: unsigned_def)

lemma facet_scope_total:
  "readable_filter f now i \<Longrightarrow> \<exists>w. facet_scope f fa now i = Inr w"
  using scoped_filter_fits [of "without_facet f fa" None now i]
  by (cases fa) (auto simp: readable_filter_def facet_scope_def)

lemma repository_facets_total:
  assumes "prs_ok d" "fits i"
  shows "\<exists>c. repository_facets i w d = Inr c"
proof -
  have "\<exists>r. repo_from_row x = Inr r" if "x \<in> set (db_repos d)" for x
  proof -
    have "written_repo x" using that assms(1) by (simp add: prs_ok_def)
    then show ?thesis by (rule written_repo_read) simp
  qed
  then show ?thesis unfolding repository_facets_def
    using assms(2) by (simp add: unsigned_def) (rule collect_results_total, fastforce simp: bind_result_Inr)
qed

lemma facet_counts_total:
  assumes ok: "prs_ok d" and f: "readable_filter f now i"
  shows "\<exists>fc. facet_counts i f now d = Inr fc"
proof -
  obtain w1 w2 w3 w4 where w: "facet_scope f FaChecks now i = Inr w1"
    "facet_scope f FaUpdateTypes now i = Inr w2" "facet_scope f FaLabels now i = Inr w3"
    "facet_scope f FaRepositories now i = Inr w4"
    using facet_scope_total [OF f] by metis
  have "\<forall>p\<in>set (db_prs d). \<exists>c. w_check_status p = display_check_status c"
    "\<forall>p\<in>set (db_prs d). \<exists>c. w_update_type p = display_update_type c"
    using ok row_of_pr_columns(6,7) by (fastforce simp: prs_ok_def written_pr_def)+
  then obtain m1 m2 where m:
    "enum_counts parse_check_status (group_counts (map w_check_status (filter (selected d w1) (db_prs d)))) = Inr m1"
    "enum_counts parse_update_type (group_counts (map w_update_type (filter (selected d w2) (db_prs d)))) = Inr m2"
    using check_status_codec.enum_counts_total update_type_codec.enum_counts_total by meson
  have "\<forall>x\<in>set (label_counts w3 d). 0 \<le> snd x"
    by (auto simp: label_counts_def group_counts_def)
  then obtain m3 where m3: "grouped (label_counts w3 d) = Inr m3" using grouped_total by blast
  obtain m4 where "repository_facets i w4 d = Inr m4"
    using repository_facets_total ok f by (metis readable_filter_def)
  with w m m3 show ?thesis by (simp add: facet_counts_def)
qed

end
