(* ===== verification/Store_Contract.thy ===== *)
theory Store_Contract
  imports Store_Read_Laws
begin

text \<open>
  What the projection store promises, over the abstract projection: \<open>pr_table\<close> and \<open>repo_table\<close>
  read the tables as maps from keys to records, \<open>retirement_queue\<close> reads the outbox, and each
  writing operation of \<^verbatim>\<open>crates/store/src/lib.rs\<close> and \<^verbatim>\<open>reconcile.rs\<close> is an update of those.
\<close>

section \<open>The abstract outbox\<close>

definition retirement_queue :: "db \<Rightarrow> (pr_key \<times> int option) list" where
  "retirement_queue d =
     map (\<lambda>y. (PrKey (of_int (y_repository_id y)) (of_int (y_number y)), y_synced_before y))
       (db_retirements d)"

lemma queue_with_queued [simp]:
  "retirement_queue (with_queued f keys d) = retirement_queue d @ map (\<lambda>k. (k, f)) keys"
  by (simp add: retirement_queue_def with_queued_def queued_rows_keys)

lemma queue_frame [simp]:
  "retirement_queue (touch_prs n d) = retirement_queue d"
  "retirement_queue (touch_repos n d) = retirement_queue d"
  "retirement_queue (d\<lparr>db_prs := ps\<rparr>) = retirement_queue d"
  "retirement_queue (d\<lparr>db_repos := rs\<rparr>) = retirement_queue d"
  by (simp_all add: retirement_queue_def)

lemma db_ok_parts: "db_ok d \<Longrightarrow> prs_ok d" by (simp add: db_ok_def)

lemma table_repo_known:
  assumes "prs_ok d" "pr_table d k = Some pr"
  shows "\<exists>rec. repo_table d (pk_repository k) = Some rec"
proof -
  have "selects d (\<lambda>x. False) (\<lambda>rec. False)" by (simp add: selects_def)
  moreover have "pr_table (without_repos (\<lambda>x. False) None d) = pr_table d"
  proof -
    have "doomed_keys (under (\<lambda>x. False) d) d = []"
      using doomed_keys_ok(4) [OF assms(1), of "under (\<lambda>x. False) d"] by (simp add: under_def)
    then show ?thesis unfolding without_repos_def
      by (simp add: under_def with_queued_def) (rule pr_table_rows_only, simp)
  qed
  ultimately show ?thesis
    using without_repos_tables(2) [OF assms(1), of "\<lambda>x. False" "\<lambda>rec. False" None] assms(2)
    by (auto simp: fun_eq_iff split: option.splits)
qed

section \<open>The operations as updates of the abstract projection\<close>

text \<open>What the removal of the repositories \<open>gone\<close> leaves.\<close>

lemma without_repos_effect:
  fixes fence :: "u64 option"
  assumes ok: "prs_ok d" and sel: "selects d sel S"
  defines "gone \<equiv> {r. \<exists>rec. repo_table d r = Some rec \<and> S rec}"
    and "keys \<equiv> doomed_keys (under sel d) d" and "d' \<equiv> without_repos sel fence d"
  shows "repo_table d' = repo_table d |` (- gone) \<and>
    pr_table d' = pr_table d |` {k. pk_repository k \<notin> gone} \<and> sorted keys \<and> distinct keys \<and>
    set keys = {k \<in> dom (pr_table d). pk_repository k \<in> gone} \<and>
    retirement_queue d' = retirement_queue d @ map (\<lambda>k. (k, fence_of fence)) keys"
proof -
  note tables = without_repos_tables [OF ok sel]
  have repos: "repo_table d' = repo_table d |` (- gone)"
    unfolding d'_def tables(1) gone_def
    by (auto simp: restrict_map_def fun_eq_iff split: option.splits)
  have prs: "pr_table d' = pr_table d |` {k. pk_repository k \<notin> gone}"
  proof
    fix k
    show "pr_table d' k = (pr_table d |` {k. pk_repository k \<notin> gone}) k"
      unfolding d'_def tables(2) gone_def
      using table_repo_known [OF ok, of k]
      by (cases "pr_table d k") (auto simp: restrict_map_def split: option.splits)
  qed
  have sorted: "sorted keys" "distinct keys" unfolding keys_def using doomed_keys_ok [OF ok] by auto
  have set: "set keys = {k \<in> dom (pr_table d). pk_repository k \<in> gone}"
    unfolding keys_def tables(3) gone_def by auto
  have "retirement_queue d' = retirement_queue d @ map (\<lambda>k. (k, fence_of fence)) keys"
    unfolding d'_def keys_def without_repos_def by (simp add: fence_of_def)
  with repos prs sorted set show ?thesis by blast
qed

lemma retain_effect:
  assumes ok: "prs_ok d" and fit: "fits r" "fits before" "\<forall>n\<in>set live. fits n"
  defines "gone \<equiv> {k. \<exists>pr. pr_table d k = Some pr \<and> pk_repository k = r \<and>
      pr_synced_at pr < before \<and> pk_number k \<notin> set live}"
  shows "\<exists>keys d'. retain_prs r live before d = (Inr keys, d') \<and> sorted keys \<and> distinct keys \<and>
    set keys = gone \<and> pr_table d' = pr_table d |` (- gone) \<and> db_repos d' = db_repos d \<and>
    retirement_queue d' = retirement_queue d @ map (\<lambda>k. (k, Some (uint before))) keys"
proof -
  let ?P = "unlisted r live before"
  have gone: "set (doomed_keys ?P d) = gone"
    using unlisted_doomed [OF ok] unfolding gone_def by blast
  have "pr_table (with_queued (Some (uint before)) (doomed_keys ?P d)
       (touch_prs (length (filter ?P (db_prs d))) (d\<lparr>db_prs := filter (\<lambda>p. \<not> ?P p) (db_prs d)\<rparr>)))
    = pr_table d |` (- gone)"
    using pr_table_without [OF ok, of ?P] gone by (auto simp: restrict_map_def)
  with retain_prs_run [OF ok fit] gone doomed_keys_ok(1,2) [OF ok, of ?P] show ?thesis
    by (intro exI conjI) (assumption | simp)+
qed

section \<open>A small projection\<close>

definition acme_repo :: repo_record where
  "acme_repo = \<lparr>rr_repository_id = 1, rr_installation_id = 5, rr_owner = ''acme'', rr_repo = ''api'',
     rr_merge_method = None, rr_synced_at = 10\<rparr>"

definition serde_pr :: pr_record where
  "serde_pr = \<lparr>pr_id = ''1#7'', pr_repository_id = 1, pr_owner = ''acme'', pr_repo = ''api'',
     pr_number = 7, pr_title = ''Bump serde'', pr_html_url = ''https://x'', pr_dependency = None,
     pr_from_version = None, pr_to_version = None, pr_dependencies = [], pr_update_type = UtMinor,
     pr_head_sha = ''abc'', pr_check_status = CkSuccess, pr_mergeable = MgClean, pr_labels = [],
     pr_created_at = 8, pr_updated_at = 9, pr_synced_at = 10\<rparr>"

definition acme_db :: db where
  "acme_db = snd (upsert_pr serde_pr (snd (upsert_repo acme_repo empty_db)))"

lemma acme_fits: "repo_fits acme_repo" "pr_fits serde_pr"
  by (simp_all add: repo_fits_def pr_fits_def acme_repo_def serde_pr_def fits_def)

lemma acme_ok: "db_ok acme_db"
  using keeps_upsert_repo [of acme_repo] keeps_upsert_pr [of serde_pr]
  by (simp add: acme_db_def preserves_def)

lemma acme_tables: "pr_table acme_db = [PrKey 1 7 \<mapsto> serde_pr]" "repo_table acme_db = [1 \<mapsto> acme_repo]"
proof -
  have empty: "prs_ok empty_db" by (rule db_ok_parts) simp
  obtain d1 where d1: "upsert_repo acme_repo empty_db = (Inr (), d1)" "prs_ok d1"
    "repo_table d1 = (repo_table empty_db)(1 \<mapsto> acme_repo)" "db_prs d1 = db_prs empty_db"
    using upsert_repo_ok [OF empty acme_fits(1)] by (auto simp: acme_repo_def)
  have none: "repo_table empty_db = Map.empty" "pr_table empty_db = Map.empty"
    by (auto simp: repo_table_def pr_table_def empty_db_def fun_eq_iff)
  then have "known_repo d1 (pr_repository_id serde_pr)"
    using d1 by (simp add: known_repo_table serde_pr_def)
  then obtain d2 where d2: "upsert_pr serde_pr d1 = (Inr (), d2)"
    "pr_table d2 = (pr_table d1)(record_key serde_pr \<mapsto> with_derived_id serde_pr)"
    "db_repos d2 = db_repos d1"
    using upsert_pr_ok [OF d1(2) acme_fits(2)] by auto
  have id: "with_derived_id serde_pr = serde_pr" "record_key serde_pr = PrKey 1 7"
    by (simp_all add: with_derived_id_def serde_pr_def record_key_def display_pr_key_def show_u64_def show_nat.simps digit_char_def
        char_of_def bit_0)
  have "repo_table d2 = repo_table d1" using d2(3) by (simp add: repo_table_def fun_eq_iff)
  moreover have "pr_table d1 = pr_table empty_db" by (rule pr_table_rows_only) (simp add: d1)
  ultimately show "pr_table acme_db = [PrKey 1 7 \<mapsto> serde_pr]" "repo_table acme_db = [1 \<mapsto> acme_repo]"
    using d1 d2 none id by (simp_all add: acme_db_def)
qed

lemma acme_rows: "length (db_prs acme_db) = 1" "db_retirement_sequence acme_db = 0" "db_retirements acme_db = []"
  by (simp_all add: acme_db_def upsert_pr_def upsert_repo_def andthen_def row_of_repo_def row_of_pr_def
      acme_repo_def serde_pr_def integer_def put_repo_row_def insert_pr_row_def empty_db_def
      touch_prs_def touch_repos_def lift_def put_def)

section \<open>Properties\<close>

datatype store_write =
    WriteUpsertPr pr_record | WriteDeletePr pr_key | WriteUpsertRepo repo_record
  | WriteRetainPrs u64 "u64 list" u64 | WriteReplaceRepos u64 "repo_record list" u64
  | WritePurge u64 | WriteAcknowledge u64 | WriteStartBatch running_batch
  | WriteUnlistBatch string | WriteRecordBatch batch_record

fun perform :: "store_write \<Rightarrow> db \<Rightarrow> (store_error + unit) \<times> db" where
  "perform (WriteUpsertPr pr) d = upsert_pr pr d"
| "perform (WriteDeletePr key) d = delete_pr key d"
| "perform (WriteUpsertRepo r) d = upsert_repo r d"
| "perform (WriteRetainPrs r live before) d = andthen (retain_prs r live before) (\<lambda>_. ok ()) d"
| "perform (WriteReplaceRepos i repos before) d =
     andthen (replace_installation_repos i repos before) (\<lambda>_. ok ()) d"
| "perform (WritePurge i) d = andthen (purge_installation i) (\<lambda>_. ok ()) d"
| "perform (WriteAcknowledge n) d = acknowledge_retirements n d"
| "perform (WriteStartBatch b) d = start_batch b d"
| "perform (WriteUnlistBatch b) d = unlist_batch b d"
| "perform (WriteRecordBatch b) d = record_batch b d"

lemma perform_eqs:
  "perform (WriteUpsertPr pr) = upsert_pr pr" "perform (WriteDeletePr key) = delete_pr key"
  "perform (WriteUpsertRepo r) = upsert_repo r"
  "perform (WriteRetainPrs q live before) = andthen (retain_prs q live before) (\<lambda>_. ok ())"
  "perform (WriteReplaceRepos i repos before) =
     andthen (replace_installation_repos i repos before) (\<lambda>_. ok ())"
  "perform (WritePurge i) = andthen (purge_installation i) (\<lambda>_. ok ())"
  "perform (WriteAcknowledge n) = acknowledge_retirements n"
  "perform (WriteStartBatch b) = start_batch b" "perform (WriteUnlistBatch n') = unlist_batch n'"
  "perform (WriteRecordBatch c) = record_batch c"
  by (simp_all add: fun_eq_iff)

lemma perform_keeps: "preserves db_ok (perform w)"
  by (cases w) (simp_all only: perform_eqs keeps preserves_andthen preserves_ok)

lemma andthen_undo: "andthen (transaction m) (\<lambda>_. ok ()) d = (Inl e, d') \<Longrightarrow> d' = d"
  by (auto simp: andthen_def ok_def transaction_def split: prod.splits sum.splits)

lemma perform_undo:
assumes "perform w d = (Inl e, d')"
shows "d' = d"
proof (cases w)
  case (WriteUpsertPr pr)
  with assms show ?thesis
    by (auto simp: upsert_pr_def andthen_def insert_pr_row_def split: sum.splits prod.splits if_splits)
next
  case (WriteDeletePr k)
  with assms show ?thesis by (simp add: delete_pr_def Let_def)
next
  case (WriteUpsertRepo r)
  with assms show ?thesis
    by (auto simp: upsert_repo_def andthen_def put_repo_row_def split: sum.splits prod.splits)
next
  case (WriteRetainPrs r live before)
  with assms show ?thesis by (simp add: retain_prs_def andthen_undo)
next
  case (WriteReplaceRepos i repos before)
  with assms show ?thesis by (simp add: replace_installation_repos_def andthen_undo)
next
  case (WritePurge i)
  with assms show ?thesis by (simp add: purge_installation_def andthen_undo)
next
  case (WriteAcknowledge n)
  with assms show ?thesis
    by (auto simp: acknowledge_retirements_def andthen_def split: sum.splits prod.splits)
next
  case (WriteStartBatch b)
  with assms show ?thesis by (auto simp: start_batch_def andthen_def split: sum.splits prod.splits)
next
  case (WriteUnlistBatch b)
  with assms show ?thesis by (simp add: unlist_batch_def)
next
  case (WriteRecordBatch b)
  with assms show ?thesis by (simp add: record_batch_def transaction_Inl)
qed

text \<open>The rows of a batch's targets: as one was written, each place of a batch once.\<close>

definition targets_ok :: "db \<Rightarrow> bool" where
  "targets_ok d \<longleftrightarrow> (\<forall>t\<in>set (db_batch_targets d). \<exists>b i r. row_of_target b i r = Inr t) \<and>
     distinct (map (\<lambda>t. (t_batch_id t, t_position t)) (db_batch_targets d))"

lemmas keep_targets = preserves_andthen preserves_lift preserves_ok preserves_lift_andthen preserves_transaction
  preserves_each_step preserves_put

lemma delete_where_targets:
  "preserves (\<lambda>d. db_batch_targets d = ts) (delete_prs_where f)"
  "preserves (\<lambda>d. db_batch_targets d = ts) (delete_repos_where g)"
  "preserves (\<lambda>d. db_batch_targets d = ts) (queue_retirements ks n)"
  "preserves (\<lambda>d. db_batch_targets d = ts) (upsert_repo r)"
  unfolding queue_retirements_def queue_retirement_def delete_repos_where_def upsert_repo_def put_repo_row_def
  by (auto intro!: keep_targets simp: touch_repos_def)
    (simp add: preserves_def delete_prs_where_def touch_prs_def Let_def)

lemma other_writes_targets:
  assumes "\<forall>b. w \<noteq> WriteRecordBatch b"
  shows "db_batch_targets (snd (perform w d)) = db_batch_targets d"
proof -
  note parts = keep_targets delete_where_targets
  have "preserves (\<lambda>d'. db_batch_targets d' = db_batch_targets d) (perform w)"
  proof (cases w)
    case (WriteUpsertPr pr)
    then show ?thesis unfolding WriteUpsertPr perform_eqs upsert_pr_def
      by (auto intro!: keep_targets simp: preserves_def insert_pr_row_def touch_prs_def andthen_def
          split: sum.splits)
  next
    case (WriteDeletePr k)
    then show ?thesis unfolding WriteDeletePr perform_eqs
      by (simp add: preserves_def delete_pr_def touch_prs_def Let_def)
  next
    case (WriteRetainPrs r live before)
    then show ?thesis unfolding WriteRetainPrs perform_eqs retain_prs_def retain_prs_on_def by (intro parts)
  next
    case (WriteReplaceRepos i repos before)
    then show ?thesis unfolding WriteReplaceRepos perform_eqs replace_installation_repos_def retain_repos_on_def
        delete_repositories_where_def by (intro parts)
  next
    case (WritePurge i)
    then show ?thesis unfolding WritePurge perform_eqs purge_installation_def delete_repositories_where_def
      by (intro parts)
  next
    case (WriteUpsertRepo r)
    then show ?thesis unfolding WriteUpsertRepo perform_eqs by (intro parts)
  next
    case (WriteAcknowledge n)
    then show ?thesis unfolding WriteAcknowledge perform_eqs acknowledge_retirements_def
      by (intro parts) simp
  next
    case (WriteStartBatch b)
    then show ?thesis unfolding WriteStartBatch perform_eqs start_batch_def by (intro parts) simp
  next
    case (WriteUnlistBatch b)
    then show ?thesis unfolding WriteUnlistBatch perform_eqs unlist_batch_def by (intro parts) simp
  qed (use assms in simp)
  then show ?thesis by (simp add: preserves_def)
qed

text \<open>The places of a batch's targets are numbered without repetition: a number too large is refused.\<close>

lemma target_places:
  assumes "map (\<lambda>pt. row_of_target b (fst pt) (snd pt)) (enumerate 0 ts) = map Inr rows"
  shows "distinct (map (\<lambda>t. (t_batch_id t, t_position t)) rows) \<and>
    (\<forall>t\<in>set rows. \<exists>i r. row_of_target b i r = Inr t)"
proof -
  have len: "length rows = length ts" using arg_cong [OF assms, of length] by simp
  have row: "row_of_target b i (ts ! i) = Inr (rows ! i)" if "i < length rows" for i
    using arg_cong [OF assms, of "\<lambda>xs. xs ! i"] that len by (simp add: nth_enumerate_eq)
  have place: "t_position (rows ! i) = uint (of_nat i :: u64) \<and> unat (of_nat i :: u64) < 2 ^ 63"
    if "i < length rows" for i
    using row [OF that] by (simp add: row_of_target_def bind_result_Inr integer_Inr) (metis target_row.select_convs(2))
  have "length rows \<le> 2 ^ 63"
  proof (rule ccontr)
    assume "\<not> length rows \<le> 2 ^ 63"
    then have "2 ^ 63 < length rows" by simp
    from place [OF this] show False by (simp add: unsigned_of_nat take_bit_nat_eq_self)
  qed
  then have "inj_on (\<lambda>i. t_position (rows ! i)) {..<length rows}"
    using place by (auto intro!: inj_onI simp: unsigned_of_nat take_bit_nat_eq_self)
  then have "distinct (map t_position rows)"
    by (subst map_nth [symmetric, of rows]) (simp add: distinct_map comp_def atLeast0LessThan)
  then have "distinct (map (\<lambda>t. (t_batch_id t, t_position t)) rows)"
    by (auto simp: distinct_map inj_on_def)
  moreover have "\<exists>i r. row_of_target b i r = Inr t" if "t \<in> set rows" for t
    using row that unfolding in_set_conv_nth by blast
  ultimately show ?thesis by blast
qed

lemma perform_targets: "db_ok d \<Longrightarrow> targets_ok d \<Longrightarrow> targets_ok (snd (perform w d))"
proof (cases "\<exists>b. w = WriteRecordBatch b")
  case False
  assume "targets_ok d"
  with other_writes_targets [of w d] False show ?thesis by (simp add: targets_ok_def)
next
  case True
  assume ok: "db_ok d" and t: "targets_ok d"
  from True obtain b where w: "w = WriteRecordBatch b" by blast
  obtain r d' where run: "record_batch b d = (r, d')" by fastforce
  show ?thesis
  proof (cases r)
    case (Inl e)
    have "perform w d = (Inl e, d')" using run Inl by (simp add: w)
    from perform_undo [OF this] t show ?thesis by (simp add: w run)
  next
    case (Inr u)
    with run have "record_batch b d = (Inr (), d')" by simp
    then show ?thesis
    proof (cases rule: record_batch_cases)
      case again
      with run w t show ?thesis by (simp add: targets_ok_def unlisted_db_def)
    next
      case (first row rows)
      have "t_batch_id ` set (db_batch_targets d) \<subseteq> b_batch_id ` set (db_batches d)"
        using ok by (simp add: db_ok_def batches_ok_def)
      then have "\<forall>x\<in>set (db_batch_targets d). t_batch_id x \<noteq> bc_batch_id b"
        using first(1) unfolding recorded_def by (metis image_eqI subsetD)
      moreover have "\<forall>x\<in>set rows. t_batch_id x = bc_batch_id b" using target_rows_id [OF first(3)] by blast
      ultimately have "(\<lambda>t. (t_batch_id t, t_position t)) ` set (db_batch_targets d) \<inter>
          (\<lambda>t. (t_batch_id t, t_position t)) ` set rows = {}" by auto
      moreover have "db_batch_targets (snd (perform w d)) = db_batch_targets d @ rows"
        using run w Inr by (simp add: first(4))
      ultimately show ?thesis
        using t target_places [OF first(3)] unfolding targets_ok_def by (simp add: ball_Un) blast
    qed
  qed
qed

text \<open>Every row of every table reads back without an error.\<close>

definition rows_read :: "db \<Rightarrow> bool" where
  "rows_read d \<longleftrightarrow> pr_from_row ` set (db_prs d) \<subseteq> range Inr \<and> repo_from_row ` set (db_repos d) \<subseteq> range Inr \<and>
     retirement_from_row ` set (db_retirements d) \<subseteq> range Inr \<and>
     running_batch_from_row ` set (db_running d) \<subseteq> range Inr \<and> batch_from_row ` set (db_batches d) \<subseteq> range Inr \<and>
     batch_target_from_row ` set (db_batch_targets d) \<subseteq> range Inr"

lemma written_rows_read: "db_ok d \<Longrightarrow> targets_ok d \<Longrightarrow> rows_read d"
proof -
  assume ok: "db_ok d" and t: "targets_ok d"
  have "pr_from_row p \<in> range Inr" if "p \<in> set (db_prs d)" for p
    using ok that written_record_of_row(1) [of p] by (auto simp: db_ok_def prs_ok_def)
  moreover have "repo_from_row x \<in> range Inr" if "x \<in> set (db_repos d)" for x
    by (rule written_repo_read [of x]) (use ok that in \<open>auto simp: db_ok_def prs_ok_def\<close>)
  moreover have "retirement_from_row y \<in> range Inr" if "y \<in> set (db_retirements d)" for y
  proof -
    have "retirement_row_ok (db_retirement_sequence d) y" using ok that by (simp add: db_ok_def outbox_ok_def)
    then show ?thesis
      by (cases "y_synced_before y") (auto simp: retirement_row_ok_def retirement_from_row_def unsigned_def option_result_def)
  qed
  moreover have "running_batch_from_row n \<in> range Inr" if "n \<in> set (db_running d)" for n
    using ok that running_from_row_of_running by (auto simp: db_ok_def batches_ok_def written_running_def)
  moreover have "batch_from_row b \<in> range Inr" if "b \<in> set (db_batches d)" for b
    using ok that batch_from_row_of_batch by (auto simp: db_ok_def batches_ok_def written_batch_def)
  moreover have "batch_target_from_row r \<in> range Inr" if "r \<in> set (db_batch_targets d)" for r
  proof -
    obtain b i x where "row_of_target b i x = Inr r" using t \<open>r \<in> _\<close> by (auto simp: targets_ok_def)
    then show ?thesis using batch_target_from_row_of_target by auto
  qed
  ultimately show ?thesis by (auto simp: rows_read_def)
qed

lemma performs_sound: "db_ok (fold (\<lambda>w d. snd (perform w d)) ws empty_db) \<and>
    targets_ok (fold (\<lambda>w d. snd (perform w d)) ws empty_db)"
proof -
  have "db_ok d \<and> targets_ok d \<Longrightarrow> db_ok (fold (\<lambda>w d. snd (perform w d)) ws d) \<and>
      targets_ok (fold (\<lambda>w d. snd (perform w d)) ws d)" for d
    using perform_keeps perform_targets by (induction ws arbitrary: d) (auto simp: preserves_def)
  moreover have "targets_ok empty_db" by (simp add: targets_ok_def) (simp add: empty_db_def)
  ultimately show ?thesis by simp
qed

text \<open>
  C28: Whatever sequence of writes, failed ones included, has been made to an empty store, no two
  rows of a table share its key (pull requests, repositories, running batches and batches their
  ids, a batch's targets their places), every pull request hangs off a stored repository and every
  target off a stored batch, every row of every table reads back without an error, the retirements
  stand in the order of their ids and no id is above the sequence that gives out the next one; and
  a write that fails changes nothing.
\<close>

theorem store_tables_sound:
  defines "d \<equiv> \<lambda>ws. fold (\<lambda>w d. snd (perform w d)) ws empty_db"
  shows "distinct (map w_id (db_prs (d ws))) \<and> distinct (map x_repository_id (db_repos (d ws))) \<and>
    distinct (map n_batch_id (db_running (d ws))) \<and> distinct (map b_batch_id (db_batches (d ws))) \<and>
    distinct (map (\<lambda>t. (t_batch_id t, t_position t)) (db_batch_targets (d ws))) \<and>
    w_repository_id ` set (db_prs (d ws)) \<subseteq> x_repository_id ` set (db_repos (d ws)) \<and>
    t_batch_id ` set (db_batch_targets (d ws)) \<subseteq> b_batch_id ` set (db_batches (d ws)) \<and>
    rows_read (d ws) \<and>
    sorted_wrt (<) (map y_id (db_retirements (d ws))) \<and>
    y_id ` set (db_retirements (d ws)) \<subseteq> {1..db_retirement_sequence (d ws)} \<and>
    (perform w (d ws) \<in> range Inl \<times> {d ws} \<union> range Inr \<times> UNIV)"
proof -
  have ok: "db_ok (d ws)" and targets: "targets_ok (d ws)" unfolding d_def using performs_sound by blast+
  have "perform w (d ws) \<in> range Inl \<times> {d ws} \<union> range Inr \<times> UNIV"
    by (cases "perform w (d ws)"; cases "fst (perform w (d ws))") (auto dest: perform_undo)
  with ok targets written_rows_read [OF ok targets] show ?thesis
    by (simp add: db_ok_def prs_ok_def outbox_ok_def batches_ok_def targets_ok_def retirement_row_ok_def
        image_subset_iff int_one_le_iff_zero_less)
qed

lemma acme_numbers: "fits 1" "fits 5" "fits 11" "\<forall>n\<in>set [8]. fits n"
  by (simp_all add: fits_def)

text \<open>
  A pull request of a stored repository, once written, is what a lookup of its key gives,
  under the id its key spells and whatever was stored before; every other key still reads as
  it did; and after a delete the key reads as absent and the others as before.
\<close>

theorem writes_read_back:
  assumes "db_ok d" and "pr_fits pr" and "repo_table d (pr_repository_id pr) \<noteq> None"
  defines "d1 \<equiv> snd (upsert_pr pr d)"
  shows "fst (upsert_pr pr d) = Inr () \<and>
    fst (get_pr key d1) =
      Inr (if key = record_key pr then Some (pr\<lparr>pr_id := display_pr_key key\<rparr>) else pr_table d key) \<and>
    fst (get_pr key (snd (delete_pr gone d1))) =
      (if key = gone then Inr None else fst (get_pr key d1))"
proof -
  have "known_repo d (pr_repository_id pr)" using assms(1,3) by (simp add: db_ok_def known_repo_table)
  then obtain d' where d': "upsert_pr pr d = (Inr (), d')" "prs_ok d'"
      "pr_table d' = (pr_table d)(record_key pr \<mapsto> with_derived_id pr)"
    using upsert_pr_ok [of d pr] assms(1,2) by (auto simp: db_ok_def)
  obtain d'' where "delete_pr gone d' = (Inr (), d'')" "prs_ok d''" "pr_table d'' = (pr_table d')(gone := None)"
    using delete_pr_ok [OF d'(2)] by blast
  with d' show ?thesis by (simp add: d1_def get_pr_table with_derived_id_def)
qed

theorem writes_read_back_witness:
  "fst (get_pr (PrKey 1 7) (snd (upsert_pr (serde_pr\<lparr>pr_title := ''v2''\<rparr>) acme_db))) =
     Inr (Some (serde_pr\<lparr>pr_title := ''v2'', pr_id := display_pr_key (PrKey 1 7)\<rparr>))"
  using writes_read_back [of acme_db "serde_pr\<lparr>pr_title := ''v2''\<rparr>" "PrKey 1 7"]
    acme_ok acme_fits(2)
  by (simp add: acme_tables pr_fits_def record_key_def serde_pr_def)

text \<open>
  Pruning a repository to its live pull requests deletes exactly the stored ones of that
  repository that were last synced before the sweep and are not among the live, returns their
  keys in order and without repetition, and queues one retirement for each, fenced by the
  sweep's time; every other pull request and every repository stays as it was.
\<close>

theorem retain_prs_prunes_exactly:
  assumes "db_ok d" and "fits r" and "fits before" and "\<forall>n\<in>set live. fits n"
  defines "gone \<equiv> {k. \<exists>pr. pr_table d k = Some pr \<and> pk_repository k = r \<and>
      pr_synced_at pr < before \<and> pk_number k \<notin> set live}"
  shows "\<exists>keys d'. retain_prs r live before d = (Inr keys, d') \<and>
    sorted keys \<and> distinct keys \<and> set keys = gone \<and>
    pr_table d' = pr_table d |` (- gone) \<and> db_repos d' = db_repos d \<and>
    retirement_queue d' = retirement_queue d @ map (\<lambda>k. (k, Some (uint before))) keys"
  unfolding gone_def by (rule retain_effect) (use assms db_ok_parts in auto)

theorem retain_prs_prunes_exactly_witness:
  "\<exists>keys d'. retain_prs 1 [8] 11 acme_db = (Inr keys, d') \<and> PrKey 1 7 \<in> set keys"
proof -
  from retain_prs_prunes_exactly [OF acme_ok acme_numbers(1,3,4)] obtain keys d' where
    run: "retain_prs 1 [8] 11 acme_db = (Inr keys, d')"
    and keys: "set keys = {k. \<exists>pr. pr_table acme_db k = Some pr \<and> pk_repository k = 1 \<and>
      pr_synced_at pr < 11 \<and> pk_number k \<notin> set [8]}" by blast
  have "PrKey 1 7 \<in> set keys" unfolding keys by (simp add: acme_tables serde_pr_def)
  with run show ?thesis by blast
qed

lemma replace_effect:
  assumes "db_ok d" and "fits i" and "fits before" and "\<forall>r\<in>set repos. repo_fits r"
  defines "listed \<equiv> fold (\<lambda>r t. t(rr_repository_id r \<mapsto> r)) repos (repo_table d)"
  defines "gone \<equiv> {r. \<exists>rec. listed r = Some rec \<and> rr_installation_id rec = i \<and>
      rr_synced_at rec < before \<and> r \<notin> rr_repository_id ` set repos}"
  shows "\<exists>keys d'. replace_installation_repos i repos before d = (Inr keys, d') \<and>
    repo_table d' = listed |` (- gone) \<and>
    pr_table d' = pr_table d |` {k. pk_repository k \<notin> gone} \<and>
    sorted keys \<and> distinct keys \<and> set keys = {k \<in> dom (pr_table d). pk_repository k \<in> gone} \<and>
    retirement_queue d' = retirement_queue d @ map (\<lambda>k. (k, Some (uint before))) keys"
proof -
  have ok: "prs_ok d" using assms(1) by (rule db_ok_parts)
  obtain d1 where d1: "each_step upsert_repo repos d = (Inr (), d1)" "prs_ok d1"
      "repo_table d1 = listed" "db_prs d1 = db_prs d" "db_retirements d1 = db_retirements d"
    using upsert_repos_ok [OF ok assms(4)] unfolding listed_def by blast
  let ?ids = "map rr_repository_id repos"
  let ?S = "\<lambda>rec. rr_installation_id rec = i \<and> rr_synced_at rec < before \<and> rr_repository_id rec \<notin> set ?ids"
  have same: "pr_table d1 = pr_table d" "retirement_queue d1 = retirement_queue d"
    using pr_table_rows_only [OF d1(4)] by (simp_all add: retirement_queue_def d1(5))
  have id: "rr_repository_id rec = r" if "listed r = Some rec" for r rec
    using repo_table_id [OF d1(2)] that unfolding d1(3) by blast
  have gone: "gone = {r. \<exists>rec. repo_table d1 r = Some rec \<and> ?S rec}"
    unfolding gone_def d1(3) set_map
  proof (rule Collect_cong, rule ex_cong1)
    fix r rec
    show "(listed r = Some rec \<and> rr_installation_id rec = i \<and> rr_synced_at rec < before \<and>
        r \<notin> rr_repository_id ` set repos) = (listed r = Some rec \<and> rr_installation_id rec = i \<and>
        rr_synced_at rec < before \<and> rr_repository_id rec \<notin> rr_repository_id ` set repos)"
      by (cases "listed r = Some rec") (simp_all only: id simp_thms)
  qed
  note run = replace_run [OF d1(1,2) assms(2-4)]
  note effect = without_repos_effect
      [OF d1(2) selects_left [OF d1(2), of i "map rr_repository_id repos" before], of "Some before"]
  show ?thesis
    unfolding run using effect
    unfolding gone [symmetric] unfolding d1(3) same fence_of_def option.map
    by blast
qed

text \<open>
  A sweep's listing of an installation replaces its stored repositories: the listed ones
  are stored as they are listed, exactly the installation's unlisted ones that the sweep is
  newer than are removed, with every pull request under them, and each of these is queued once
  for retirement, fenced by the sweep's time.
\<close>

theorem replace_repos_replaces_exactly:
  assumes "db_ok d" and "fits i" and "fits before" and "\<forall>r\<in>set repos. repo_fits r"
  defines "listed \<equiv> fold (\<lambda>r t. t(rr_repository_id r \<mapsto> r)) repos (repo_table d)"
  defines "gone \<equiv> {r. \<exists>rec. listed r = Some rec \<and> rr_installation_id rec = i \<and>
      rr_synced_at rec < before \<and> r \<notin> rr_repository_id ` set repos}"
  shows "\<exists>keys d'. replace_installation_repos i repos before d = (Inr keys, d') \<and>
    repo_table d' = listed |` (- gone) \<and>
    pr_table d' = pr_table d |` {k. pk_repository k \<notin> gone} \<and>
    sorted keys \<and> distinct keys \<and> set keys = {k \<in> dom (pr_table d). pk_repository k \<in> gone} \<and>
    retirement_queue d' = retirement_queue d @ map (\<lambda>k. (k, Some (uint before))) keys"
  unfolding gone_def listed_def by (rule replace_effect) (use assms in auto)

theorem replace_repos_replaces_exactly_witness:
  "\<exists>keys d'. replace_installation_repos 5 [] 11 acme_db = (Inr keys, d') \<and> PrKey 1 7 \<in> set keys"
proof -
  have "\<forall>r\<in>set ([] :: repo_record list). repo_fits r" by simp
  from replace_repos_replaces_exactly [OF acme_ok acme_numbers(2,3) this] obtain keys d' where
    run: "replace_installation_repos 5 [] 11 acme_db = (Inr keys, d')"
    and keys: "set keys = {k \<in> dom (pr_table acme_db). pk_repository k \<in>
      {r. \<exists>rec. fold (\<lambda>r t. t(rr_repository_id r \<mapsto> r)) [] (repo_table acme_db) r = Some rec \<and>
        rr_installation_id rec = 5 \<and> rr_synced_at rec < 11 \<and> r \<notin> rr_repository_id ` set ([] :: repo_record list)}}"
    by blast
  have "PrKey 1 7 \<in> set keys" unfolding keys by (simp add: acme_tables acme_repo_def)
  with run show ?thesis by blast
qed

lemma purge_effect:
  assumes "db_ok d" and "fits i"
  defines "gone \<equiv> {r. \<exists>rec. repo_table d r = Some rec \<and> rr_installation_id rec = i}"
  shows "\<exists>keys d'. purge_installation i d = (Inr keys, d') \<and>
    repo_table d' = repo_table d |` (- gone) \<and>
    pr_table d' = pr_table d |` {k. pk_repository k \<notin> gone} \<and>
    sorted keys \<and> distinct keys \<and> set keys = {k \<in> dom (pr_table d). pk_repository k \<in> gone} \<and>
    retirement_queue d' = retirement_queue d @ map (\<lambda>k. (k, None)) keys"
proof -
  have ok: "prs_ok d" using assms(1) by (rule db_ok_parts)
  show ?thesis
    unfolding gone_def purge_run [OF ok assms(2)]
    using without_repos_effect [OF ok selects_installation [OF ok], of i None]
    unfolding fence_of_def option.map by blast
qed

text \<open>
  Purging an installation removes exactly its repositories and every pull request under
  them, and queues each of these for retirement without a fence; what other installations
  store stays.
\<close>

theorem purge_removes_exactly:
  assumes "db_ok d" and "fits i"
  defines "gone \<equiv> {r. \<exists>rec. repo_table d r = Some rec \<and> rr_installation_id rec = i}"
  shows "\<exists>keys d'. purge_installation i d = (Inr keys, d') \<and>
    repo_table d' = repo_table d |` (- gone) \<and>
    pr_table d' = pr_table d |` {k. pk_repository k \<notin> gone} \<and>
    sorted keys \<and> distinct keys \<and> set keys = {k \<in> dom (pr_table d). pk_repository k \<in> gone} \<and>
    retirement_queue d' = retirement_queue d @ map (\<lambda>k. (k, None)) keys"
  unfolding gone_def by (rule purge_effect) (use assms in auto)

theorem purge_removes_exactly_witness:
  "\<exists>keys d'. purge_installation 5 acme_db = (Inr keys, d') \<and> PrKey 1 7 \<in> set keys"
proof -
  from purge_removes_exactly [OF acme_ok acme_numbers(2)] obtain keys d' where
    run: "purge_installation 5 acme_db = (Inr keys, d')"
    and keys: "set keys = {k \<in> dom (pr_table acme_db). pk_repository k \<in>
      {r. \<exists>rec. repo_table acme_db r = Some rec \<and> rr_installation_id rec = 5}}" by blast
  have "PrKey 1 7 \<in> set keys" unfolding keys by (simp add: acme_tables acme_repo_def)
  with run show ?thesis by blast
qed

section \<open>Properties of the reads\<close>

lemma newer_irreflexive: "\<not> newer a a"
  by (simp add: newer_def bytes_less_iff)

lemma sorted_newer_distinct: "sorted_wrt newer xs \<Longrightarrow> distinct xs"
  by (induction xs) (auto simp: newer_irreflexive)

lemma matching_card:
  assumes "prs_ok d"
  shows "length (matching_rows d f now i) =
    card {pr \<in> ran (pr_table d). pr_matches (repo_table d) f now i pr}"
  using distinct_card [OF sorted_newer_distinct [OF matching_sorted [OF assms]]]
  unfolding matching_records [OF assms] by simp

lemma matching_length: "length (matching_rows d f now i) \<le> length (db_prs d)"
  by (simp add: matching_rows_def)

text \<open>
  C14: A caller who follows the cursors, whatever the page size, gets every stored pull request
  of the installation that the filter matches, exactly once and newest first, and comes to a
  page that names no next one within as many pages as there are stored rows.
\<close>

theorem pages_cover_the_list:
  assumes "db_ok d" and "fits i" and "pf_needs_attention f \<longrightarrow> fits (stale_before now)"
    and "\<And>c. decode (encode c) = Some c" and "length (db_prs d) < pages"
  shows "\<exists>rows. walk_pages encode decode now i f limit d pages None = Inr rows \<and>
    set rows = {pr \<in> ran (pr_table d). pr_matches (repo_table d) f now i pr} \<and>
    distinct rows \<and> sorted_wrt newer rows"
proof -
  have ok: "prs_ok d" using assms(1) by (rule db_ok_parts)
  have "walk_pages encode decode now i f limit d pages None =
      Inr (map record_of_row (matching_rows d f now i))"
    using walk_pages_all [OF ok _ assms(4)] assms(2,3,5) le_less_trans [OF matching_length]
    by (simp add: readable_filter_def)
  then show ?thesis
    using matching_records [OF ok] matching_sorted [OF ok] sorted_newer_distinct by blast
qed

definition spell_cursor :: "page_cursor \<Rightarrow> string" where
  "spell_cursor c = show_u64 (pc_updated_at c) @ ''#'' @ pc_id c"

text \<open>A cursor codec for the example: the instant, then the id.\<close>

definition read_cursor :: "string \<Rightarrow> page_cursor option" where
  "read_cursor s =
     (case split_once s (CHR ''#'') of
        None \<Rightarrow> None
      | Some (u, rest) \<Rightarrow>
          map_option (\<lambda>n. \<lparr>pc_updated_at = n, pc_id = rest\<rparr>) (parse_u64 u))"

lemma read_spell_cursor: "read_cursor (spell_cursor c) = Some c"
  by (simp add: read_cursor_def spell_cursor_def split_once_append)

theorem pages_cover_the_list_witness:
  "\<exists>rows. walk_pages spell_cursor read_cursor 20 5 default_filter 1 acme_db
     (Suc (length (db_prs acme_db))) None = Inr rows \<and> serde_pr \<in> set rows"
proof -
  have n: "pf_needs_attention default_filter \<longrightarrow> fits (stale_before 20)"
    by (simp add: default_filter_def)
  from pages_cover_the_list [OF acme_ok acme_numbers(2) n read_spell_cursor lessI] obtain rows where
    walk: "walk_pages spell_cursor read_cursor 20 5 default_filter 1 acme_db
       (Suc (length (db_prs acme_db))) None = Inr rows"
    and rows: "set rows = {pr \<in> ran (pr_table acme_db).
       pr_matches (repo_table acme_db) default_filter 20 5 pr}" by blast
  have "serde_pr \<in> set rows"
    unfolding rows by (simp add: acme_tables pr_matches_def default_filter_def not_blank_def acme_repo_def serde_pr_def)
  with walk show ?thesis by blast
qed

text \<open>
  C13: The WHERE clause built from a filter, with its numbered parameters, selects the row of a
  pull request exactly when the pull request is of the installation, matches the filter as it
  reads, and comes after the cursor in the list's order.
\<close>

theorem filter_clause_faithful:
  assumes "db_ok d" and "row_of_pr pr = Inr p" and "scoped_filter f cursor now i = Inr w"
  shows "selected d w p \<longleftrightarrow>
    pr_matches (repo_table d) f now i (with_derived_id pr) \<and>
    (case cursor of None \<Rightarrow> True | Some c \<Rightarrow> after_cursor c p)"
  using scoped_filter_selects [OF assms(3), of d p]
    row_matches_record [OF db_ok_parts [OF assms(1)] assms(2), of f now i]
  by (cases cursor) auto

theorem filter_clause_faithful_witness:
  "\<exists>p w. row_of_pr serde_pr = Inr p \<and>
     scoped_filter (default_filter\<lparr>pf_labels := [''security'']\<rparr>) None 20 5 = Inr w \<and>
     \<not> selected acme_db w p"
proof -
  obtain p where p: "row_of_pr serde_pr = Inr p" using acme_fits(2) row_of_pr_fits by blast
  let ?f = "default_filter\<lparr>pf_labels := [''security'']\<rparr>"
  obtain w where w: "scoped_filter ?f None 20 5 = Inr w"
    using scoped_filter_fits [of ?f None 20 5] acme_numbers(2) by (auto simp: default_filter_def)
  have "\<not> pr_matches (repo_table acme_db) ?f 20 5 (with_derived_id serde_pr)"
    by (simp add: pr_matches_def default_filter_def with_derived_id_def serde_pr_def)
  with filter_clause_faithful [OF acme_ok p w] p w show ?thesis by auto
qed

text \<open>
  Searched text is matched literally: the pattern built from it finds exactly the texts
  that contain it, without regard to ASCII case, and a percent sign, an underscore or a
  backslash in it stands for itself.
\<close>

theorem search_is_literal:
  "like (''%'' @ escape_like (to_ascii_lowercase needle) @ ''%'') (to_ascii_lowercase text) \<longleftrightarrow>
     (\<exists>before after. to_ascii_lowercase text = before @ to_ascii_lowercase needle @ after)"
  by (simp only: like_contains str_contains_iff)

lemma projected_cases:
  assumes "prs_ok d"
  shows "projected d i key = (case pr_table d key of
     None \<Rightarrow> PjAbsent
   | Some pr \<Rightarrow> if map_option rr_installation_id (repo_table d (pk_repository key)) = Some i
       then PjRow pr else PjForeign)"
  using table_repo_known [OF assms, of key]
  by (cases "pr_table d key"; cases "repo_table d (pk_repository key)") (auto simp: projected_def)

text \<open>
  A key resolved for an installation gives the stored pull request where its repository is
  the installation's, tells a pull request of another installation's repository from one that
  is not stored, and answers every key asked for, in the order asked.
\<close>

theorem keys_resolve_within_installation:
  assumes "db_ok d"
  shows "get_prs i keys d = Inr (map (\<lambda>key.
     case pr_table d key of
       None \<Rightarrow> PjAbsent
     | Some pr \<Rightarrow> if map_option rr_installation_id (repo_table d (pk_repository key)) = Some i
         then PjRow pr else PjForeign) keys)"
proof -
  have ok: "prs_ok d" using assms by (rule db_ok_parts)
  show ?thesis by (simp add: get_prs_projected [OF ok] projected_cases [OF ok])
qed

theorem keys_resolve_within_installation_witness:
  "get_prs 5 [PrKey 1 7, PrKey 1 8] acme_db = Inr [PjRow serde_pr, PjAbsent] \<and>
   get_prs 6 [PrKey 1 7] acme_db = Inr [PjForeign]"
  using keys_resolve_within_installation [OF acme_ok]
  by (simp add: acme_tables acme_repo_def)

text \<open>The pull requests the list shows under a filter, all pages together.\<close>

definition shown_prs :: "db \<Rightarrow> pr_filter \<Rightarrow> u64 \<Rightarrow> u64 \<Rightarrow> pr_record set" where
  "shown_prs d f now i = {pr \<in> ran (pr_table d). pr_matches (repo_table d) f now i pr}"

text \<open>The rows a facet counts over are those of the list with the facet's own choices lifted.\<close>

lemma scope_records:
  assumes "prs_ok d" and "facet_scope f fa now i = Inr w"
  defines "rows \<equiv> filter (selected d w) (db_prs d)"
  shows "distinct (map record_of_row rows)" "set (map record_of_row rows) = shown_prs d (without_facet f fa) now i"
proof -
  let ?g = "without_facet f fa"
  have rows: "rows = filter (\<lambda>p. row_matches d ?g now p \<and> owned_by d i p) (db_prs d)"
    using scoped_filter_selects [of ?g None now i w d] assms(2)
    by (auto simp: rows_def facet_scope_def intro!: filter_cong)
  have "distinct (map record_of_row (matching_rows d ?g now i))"
    by (rule sorted_newer_distinct [OF matching_sorted [OF assms(1)]])
  then show "distinct (map record_of_row rows)"
    by (simp add: rows matching_rows_def newest_first_def distinct_map)
  show "set (map record_of_row rows) = shown_prs d ?g now i"
    using matching_records [OF assms(1), of ?g now i] by (simp add: rows matching_rows_def shown_prs_def)
qed

lemma grouped_map:
  "\<forall>x\<in>set rows. 0 \<le> snd x \<Longrightarrow> grouped rows = Inr (map (\<lambda>(k, n). (k, of_int n)) rows)"
  unfolding grouped_def by (induction rows) (auto simp: unsigned_def)

lemma count_list_concat: "count_list (concat xss) x = (\<Sum>xs\<leftarrow>xss. count_list xs x)"
  by (induction xss) simp_all

lemma label_facets:
  assumes ok: "prs_ok d" and fc: "facet_counts i f now d = Inr fc"
  defines "S \<equiv> shown_prs d (f\<lparr>pf_labels := []\<rparr>) now i"
  shows "distinct (map lf_label (fc_labels fc)) \<and> lf_label ` set (fc_labels fc) = (\<Union>pr\<in>S. set (pr_labels pr)) \<and>
    (\<forall>l\<in>set (fc_labels fc). lf_count l = of_nat (\<Sum>pr\<in>S. count_list (pr_labels pr) (lf_label l)))"
proof -
  obtain w labels where w: "facet_scope f FaLabels now i = Inr w" and g: "grouped (label_counts w d) = Inr labels"
    and fl: "fc_labels fc = map (\<lambda>(l, n). \<lparr>lf_label = l, lf_count = n\<rparr>) labels"
    using fc by (auto simp: facet_counts_def bind_result_Inr)
  let ?rows = "filter (selected d w) (db_prs d)"
  let ?carried = "concat (map w_labels ?rows)"
  note S = scope_records [OF ok w, unfolded without_facet.simps, folded S_def]
  have same: "map w_labels ?rows = map pr_labels (map record_of_row ?rows)"
    using ok row_of_pr_columns row_of_pr_record
    by (auto simp: prs_ok_def written_pr_def with_derived_id_def)
  have pos: "\<forall>x\<in>set (label_counts w d). 0 \<le> snd x" by (auto simp: label_counts_def group_counts_def)
  have labels: "labels = map (\<lambda>(k, n). (k, of_int n)) (label_counts w d)"
    using g grouped_map [OF pos] by simp
  have keys: "map lf_label (fc_labels fc) = map fst (label_counts w d)"
    by (simp add: fl labels comp_def case_prod_unfold)
  have dist: "distinct (map lf_label (fc_labels fc))"
    unfolding keys using group_counts_keys [of ?carried] by (simp add: label_counts_def distinct_map)
  have "set ?carried = (\<Union>pr\<in>S. set (pr_labels pr))" unfolding same set_concat set_map S(2) [symmetric] by auto
  moreover have "fst ` set (label_counts w d) = set ?carried"
    by (auto simp: label_counts_def group_counts_def image_image)
  ultimately have named: "lf_label ` set (fc_labels fc) = (\<Union>pr\<in>S. set (pr_labels pr))"
    using arg_cong [OF keys, of set] by simp
  have sum: "count_list ?carried l = (\<Sum>pr\<in>S. count_list (pr_labels pr) l)" for l
    unfolding same count_list_concat
    using sum_list_distinct_conv_sum_set [OF S(1), of "\<lambda>pr. count_list (pr_labels pr) l"]
    unfolding S(2) by (simp add: comp_def)
  have "lf_count l = of_nat (\<Sum>pr\<in>S. count_list (pr_labels pr) (lf_label l))" if "l \<in> set (fc_labels fc)" for l
  proof -
    from that obtain k n where "(k, n) \<in> set (group_counts ?carried)" "lf_label l = k" "lf_count l = of_int n"
      by (auto simp: fl labels label_counts_def)
    then show ?thesis by (simp add: group_counts_set sum [symmetric])
  qed
  with dist named show ?thesis by blast
qed

lemma repository_facets:
  assumes ok: "prs_ok d" and fc: "facet_counts i f now d = Inr fc"
  defines "S \<equiv> shown_prs d (f\<lparr>pf_repos := []\<rparr>) now i"
  shows "distinct (map (rr_repository_id \<circ> rf_repository) (fc_repositories fc)) \<and>
    rf_repository ` set (fc_repositories fc) = {r \<in> ran (repo_table d). rr_installation_id r = i} \<and>
    (\<forall>r\<in>set (fc_repositories fc). rf_count r =
      of_nat (card {pr \<in> S. pr_repository_id pr = rr_repository_id (rf_repository r)}))"
proof -
  obtain w where w: "facet_scope f FaRepositories now i = Inr w"
    and g: "repository_facets i w d = Inr (fc_repositories fc)"
    using fc by (auto simp: facet_counts_def bind_result_Inr)
  let ?rows = "filter (selected d w) (db_prs d)"
  let ?mine = "filter (\<lambda>x. x_installation_id x = uint i) (db_repos d)"
  note S = scope_records [OF ok w, unfolded without_facet.simps, folded S_def]
  let ?facet = "\<lambda>x. bind_result (unsigned (int (length
      (filter (\<lambda>p. selected d w p \<and> w_repository_id p = x_repository_id x) (db_prs d))))) (\<lambda>n.
    bind_result (repo_from_row x) (\<lambda>r. Inr \<lparr>rf_repository = r, rf_count = n\<rparr>))"
  let ?xs = "sort_key (\<lambda>x. (nocase (x_owner x), nocase (x_repo x))) ?mine"
  have facets: "map ?facet ?xs = map Inr (fc_repositories fc)"
    using g by (auto simp: repository_facets_def bind_result_Inr integer_Inr collect_results_Inr)
  define facet_for where "facet_for x = \<lparr>rf_repository = projr (repo_from_row x), rf_count =
    of_nat (length (filter (\<lambda>p. w_repository_id p = x_repository_id x) ?rows))\<rparr>" for x
  have written: "written_repo x" if "x \<in> set ?xs" for x using that ok by (simp add: prs_ok_def)
  have "?facet x = Inr (facet_for x)" if "x \<in> set ?xs" for x
    by (rule written_repo_read [OF written [OF that]]) (simp add: facet_for_def unsigned_def)
  then have "map Inr (fc_repositories fc) = (map Inr (map facet_for ?xs) :: (store_error + repo_facet) list)"
    unfolding facets [symmetric] by simp
  then have fl: "fc_repositories fc = map facet_for ?xs" by (simp only: inj_map_eq_map [OF inj_Inr])
  have id: "uint (rr_repository_id (rf_repository (facet_for x))) = x_repository_id x \<and>
      uint (rr_installation_id (rf_repository (facet_for x))) = x_installation_id x \<and>
      repo_from_row x = Inr (rf_repository (facet_for x))" if "x \<in> set ?xs" for x
    by (rule written_repo_read [OF written [OF that]]) (simp add: facet_for_def)
  have "distinct (map x_repository_id ?xs)"
    using ok by (auto simp: prs_ok_def distinct_map intro: inj_on_subset)
  moreover have "map x_repository_id ?xs = map uint (map (rr_repository_id \<circ> rf_repository) (fc_repositories fc))"
    unfolding fl map_map using id by (intro map_cong refl) simp
  ultimately have "distinct (map (rr_repository_id \<circ> rf_repository) (fc_repositories fc))"
    by (simp only: distinct_map)
  moreover have "rf_repository ` set (fc_repositories fc) = {r \<in> ran (repo_table d). rr_installation_id r = i}"
  proof (intro set_eqI iffI)
    fix r
    assume "r \<in> rf_repository ` set (fc_repositories fc)"
    then obtain x where x: "x \<in> set ?xs" "r = rf_repository (facet_for x)" by (auto simp: fl)
    then have "repo_table d (rr_repository_id r) = Some r" "uint (rr_installation_id r) = uint i"
      using id [OF x(1)] by (auto simp: repo_table_Some [OF ok])
    then show "r \<in> {r \<in> ran (repo_table d). rr_installation_id r = i}" by (auto simp: ran_def word_uint_eq_iff)
  next
    fix r
    assume r: "r \<in> {r \<in> ran (repo_table d). rr_installation_id r = i}"
    then obtain x where x: "x \<in> set (db_repos d)" "repo_from_row x = Inr r"
      by (auto simp: ran_def repo_table_Some [OF ok])
    moreover have "written_repo x" using x(1) ok by (simp add: prs_ok_def)
    then have "x_installation_id x = uint (rr_installation_id r)" by (rule written_repo_read) (use x in simp)
    ultimately have "x \<in> set ?xs" "rf_repository (facet_for x) = r" using r by (auto simp: facet_for_def)
    then show "r \<in> rf_repository ` set (fc_repositories fc)" by (force simp: fl)
  qed
  moreover have "rf_count fa = of_nat (card {pr \<in> S. pr_repository_id pr = rr_repository_id (rf_repository fa)})"
    if "fa \<in> set (fc_repositories fc)" for fa
  proof -
    from that obtain x where x: "x \<in> set ?xs" "fa = facet_for x" by (auto simp: fl)
    let ?r = "rr_repository_id (rf_repository fa)"
    have at: "w_repository_id p = x_repository_id x \<longleftrightarrow> pr_repository_id (record_of_row p) = ?r" if "p \<in> set ?rows" for p
    proof -
      have "written_pr p" using that ok by (simp add: prs_ok_def)
      then obtain pr where "pr_from_row p = Inr pr" "w_repository_id p = uint (pr_repository_id pr)"
        by (rule written_pr_read)
      then show ?thesis using id [OF x(1)] x(2) by (auto simp: record_of_row_def word_uint_eq_iff)
    qed
    have "length (filter (\<lambda>p. w_repository_id p = x_repository_id x) ?rows) =
        length (filter (\<lambda>pr. pr_repository_id pr = ?r) (map record_of_row ?rows))"
      unfolding filter_map length_map comp_def by (rule arg_cong [OF filter_cong [OF refl at]])
    also have "\<dots> = card {pr \<in> S. pr_repository_id pr = ?r}"
      using distinct_card [OF distinct_filter [OF S(1)], of "\<lambda>pr. pr_repository_id pr = ?r"]
      unfolding S(2) [symmetric] by simp
    finally show ?thesis by (simp add: x(2) facet_for_def)
  qed
  ultimately show ?thesis by blast
qed

text \<open>
  C40: The counts beside the sidebar's values are those of the list. Beside a check status or an
  update type stands the number of pull requests the list shows when that value is the only one
  chosen, with the rest of the filter as it is. Every label of a pull request the list shows with
  no label chosen is listed once, with how often these carry it. Every repository of the
  installation is listed once, with the number of its pull requests the list shows when no
  repository is chosen. Counts are machine words, taken of numbers of rows.
\<close>

theorem facets_count_the_list:
  assumes "db_ok d" and "fits i" and "pf_needs_attention f \<longrightarrow> fits (stale_before now)"
  shows "\<exists>fc. facet_counts i f now d = Inr fc \<and>
    check_count fc status = of_nat (card (shown_prs d (f\<lparr>pf_check_statuses := [status]\<rparr>) now i)) \<and>
    update_type_count fc kind = of_nat (card (shown_prs d (f\<lparr>pf_update_types := [kind]\<rparr>) now i)) \<and>
    distinct (map lf_label (fc_labels fc)) \<and>
    lf_label ` set (fc_labels fc) = (\<Union>pr\<in>shown_prs d (f\<lparr>pf_labels := []\<rparr>) now i. set (pr_labels pr)) \<and>
    (\<forall>l\<in>set (fc_labels fc). lf_count l =
      of_nat (\<Sum>pr\<in>shown_prs d (f\<lparr>pf_labels := []\<rparr>) now i. count_list (pr_labels pr) (lf_label l))) \<and>
    distinct (map (rr_repository_id \<circ> rf_repository) (fc_repositories fc)) \<and>
    rf_repository ` set (fc_repositories fc) = {r \<in> ran (repo_table d). rr_installation_id r = i} \<and>
    (\<forall>r\<in>set (fc_repositories fc). rf_count r = of_nat (card
      {pr \<in> shown_prs d (f\<lparr>pf_repos := []\<rparr>) now i. pr_repository_id pr = rr_repository_id (rf_repository r)}))"
proof -
  have ok: "prs_ok d" using assms(1) by (rule db_ok_parts)
  obtain fc where fc: "facet_counts i f now d = Inr fc"
    using facet_counts_total [OF ok, of f now i] assms(2,3) by (auto simp: readable_filter_def)
  have "check_count fc status = of_nat (card (shown_prs d (f\<lparr>pf_check_statuses := [status]\<rparr>) now i))"
    "update_type_count fc kind = of_nat (card (shown_prs d (f\<lparr>pf_update_types := [kind]\<rparr>) now i))"
    using check_facet_total [OF ok fc] update_type_facet_total [OF ok fc] matching_card [OF ok]
    by (simp_all add: shown_prs_def)
  with fc label_facets [OF ok fc] repository_facets [OF ok fc] show ?thesis by blast
qed

theorem facets_count_the_list_witness:
  "\<exists>fc. facet_counts 5 default_filter 20 acme_db = Inr fc \<and> check_count fc CkSuccess = 1 \<and>
     update_type_count fc UtMajor = 0"
proof -
  have n: "pf_needs_attention default_filter \<longrightarrow> fits (stale_before 20)"
    by (simp add: default_filter_def)
  have "shown_prs acme_db (default_filter\<lparr>pf_check_statuses := [CkSuccess]\<rparr>) 20 5 = {serde_pr}"
    "shown_prs acme_db (default_filter\<lparr>pf_update_types := [UtMajor]\<rparr>) 20 5 = {}"
    by (auto simp: shown_prs_def acme_tables pr_matches_def default_filter_def not_blank_def acme_repo_def serde_pr_def)
  with facets_count_the_list [OF acme_ok acme_numbers(2) n, of CkSuccess UtMajor] show ?thesis
    by auto
qed

text \<open>
  A finished batch, once recorded, is read back as it was recorded and is no longer listed
  as running, and the first record stands: recording the same id again, with whatever counts
  and targets, changes neither the batch nor its targets.
\<close>

theorem first_record_stands:
  assumes "db_ok d" and "batch_fits b" and "bc_batch_id b \<notin> b_batch_id ` set (db_batches d)"
    and "batch_fits b2" and "bc_batch_id b2 = bc_batch_id b"
  defines "d1 \<equiv> snd (record_batch b d)"
  defines "d2 \<equiv> snd (record_batch b2 d1)"
  shows "fst (record_batch b d) = Inr () \<and> fst (record_batch b2 d1) = Inr () \<and>
    get_batch (bc_installation_id b) (bc_batch_id b) d1 = Inr (Some (BatchFinished b)) \<and>
    bc_batch_id b \<notin> n_batch_id ` set (db_running d1) \<and>
    db_batches d2 = db_batches d1 \<and> db_batch_targets d2 = db_batch_targets d1"
proof -
  have new: "\<not> recorded d (bc_batch_id b)" using assms(3) by (simp add: recorded_def)
  obtain d' where d': "record_batch b d = (Inr (), d')" using record_batch_total [OF assms(2)] by blast
  obtain d'' where d'': "record_batch b2 d' = (Inr (), d'')" using record_batch_total [OF assms(4)] by blast
  have "recorded d' (bc_batch_id b2) \<and> bc_batch_id b \<notin> n_batch_id ` set (db_running d')"
    using d' assms(5)
  proof (cases rule: record_batch_cases)
    case again
    with new show ?thesis by simp
  next
    case (first row rows)
    have "b_batch_id row = bc_batch_id b" using first(2) by (auto simp: row_of_batch_def bind_result_Inr)
    with first(4) assms(5) unlisted_running [of "bc_batch_id b" d] show ?thesis
      by (simp add: recorded_def)
  qed
  with get_batch_recorded [OF assms(1,2) new d'] record_again_keeps [OF _ d''] d' d''
  show ?thesis by (simp add: d1_def d2_def)
qed

definition bump_batch :: batch_record where
  "bump_batch = \<lparr>bc_batch_id = ''b'', bc_installation_id = 5, bc_action = BkMerge,
     bc_requested_by = ''u'', bc_retried_from = None, bc_started_at = 1, bc_completed_at = 2,
     bc_succeeded = 1, bc_rejected = 0, bc_failed = 0,
     bc_targets = [\<lparr>bt_repository_id = 1, bt_owner = ''acme'', bt_repo = ''api'', bt_number = 7,
       bt_title = ''Bump serde'', bt_html_url = ''https://x'', bt_head_sha = Some ''abc'',
       bt_outcome = TSucceeded ''merged'' None\<rparr>]\<rparr>"

theorem first_record_stands_witness:
  "get_batch 5 ''b'' (snd (record_batch bump_batch empty_db)) = Inr (Some (BatchFinished bump_batch))"
proof -
  have fit: "batch_fits bump_batch"
    unfolding batch_fits_def by (simp add: bump_batch_def fits_def)
  have new: "bc_batch_id bump_batch \<notin> b_batch_id ` set (db_batches empty_db)"
    by (simp add: empty_db_def)
  from first_record_stands [OF db_ok_empty fit new fit refl] show ?thesis
    by (simp add: bump_batch_def)
qed

end
