(* ===== verification/Pull_Request_Contract.thy ===== *)
theory Pull_Request_Contract
  imports Pull_Request_Object Github_Answers Store_Contract
begin

text \<open>
  What the pull request object promises over the service's own effects
  (\<^verbatim>\<open>apps/restate-service/src/pull_request.rs\<close>): each handler's effect on the object's state,
  on its row of the projection and on the syncs it sends, on every outcome; and, over any
  interleaving of calls and timers, that a debounced sync is never forgotten.
\<close>

section \<open>A world to run the handlers in\<close>

definition serde_target :: pr_target where
  "serde_target = \<lparr>tg_repository_id = 1, tg_owner = ''acme'', tg_repo = ''api'', tg_number = 7,
     tg_expected_sha = ''abc'', tg_title = ''Bump serde'', tg_html_url = ''https://x''\<rparr>"

definition serde_sync :: sync_request where
  "serde_sync = \<lparr>sr_repository_id = 1, sr_owner = ''acme'', sr_repo = ''api'', sr_number = 7,
     sr_bypass_debounce = False, sr_completion_id = None\<rparr>"

definition serde_state :: pr_state where
  "serde_state = default_pr_state\<lparr>ps_snapshot := Some serde_pr, ps_last_synced_at := Some 10\<rparr>"

text \<open>The clock reads 100, 101 and so on.\<close>

definition serde_world :: "unit pr_world" where
  "serde_world = \<lparr>ow_db = acme_db, ow_faults = [], ow_remote = (), ow_times = (\<lambda>n. 100 + of_nat n),
     ow_reads = 0, ow_slept = [], ow_object = Some serde_state, ow_sends = []\<rparr>"

text \<open>A GitHub where the pull request is no longer open and every mutation succeeds.\<close>

definition kind_api :: "unit github_api" where
  "kind_api = \<lparr>ga_can_post_commands = True, ga_fetch_snapshot = (\<lambda>_ g. (Inr None, g)),
     ga_merge = (\<lambda>_ _ g. (Inr \<lparr>mg_detail = ''merged'', mg_sha = None\<rparr>, g)),
     ga_post_command = (\<lambda>_ g. (Inr ''posted'', g)), ga_update_branch = (\<lambda>_ g. (Inr ''updated'', g))\<rparr>"

definition no_retries :: budgets where
  "no_retries = \<lparr>bu_store = (\<lambda>_. 0), bu_github = 0\<rparr>"

lemma max_waits: "MAX_RATE_LIMIT_WAITS = Suc (Suc (Suc 0))"
  by (simp add: MAX_RATE_LIMIT_WAITS_def)

lemmas run_defs = andthen_def lift_def put_def ok_def restate_pr_def run_clock_step_def read_clock_def
  run_github_step_def max_waits restate_github_step_def or_terminal_def
  github_attempt_def journal_github_result_def run_store_step_def store_call_def Let_def

section \<open>What a sync read of GitHub\<close>

text \<open>A handler's store steps and writes leave GitHub as they found it.\<close>

lemma run_store_remote: "ow_remote (snd (run_store_step bu kind op w)) = ow_remote w"
  unfolding run_store_step_def or_terminal_snd
  by (rule restate_run_keeps [where I = "\<lambda>w w'. ow_remote w' = ow_remote w"])
    (auto simp: store_call_def split: prod.splits sum.splits list.splits option.splits)

lemma remote_frame:
  "fe_now (restate_pr bu api key) name w = (r, w') \<Longrightarrow> ow_remote w' = ow_remote w"
  "ow_remote (fe_set_state (restate_pr bu api key) st w) = ow_remote w"
  "ow_remote (fe_clear_state (restate_pr bu api key) w) = ow_remote w"
  "fe_upsert_projection (restate_pr bu api key) pr w = (r2, w') \<Longrightarrow> ow_remote w' = ow_remote w"
  "fe_delete_projection (restate_pr bu api key) step k w = (r2, w') \<Longrightarrow> ow_remote w' = ow_remote w"
  using run_store_remote [of bu SkOrdinary "upsert_pr pr" w] run_store_remote [of bu SkOrdinary "delete_pr k" w]
  by (auto simp: restate_pr_def run_clock_step_def read_clock_def)

lemma fetched_iff:
  "fetched_snapshot fetched = Inr (Some pr) \<longleftrightarrow> fetched = SOk (Some pr)"
  "fetched_snapshot fetched = Inr None \<longleftrightarrow> fetched = SOk None \<or> (\<exists>response. fetched = SRejected NotFound response)"
  by (auto simp: fetched_snapshot_def split: settled.splits reject_reason.splits)

text \<open>GitHub's last answer says the pull request is no longer one to follow.\<close>

definition answered_gone :: "'g github_api \<Rightarrow> sync_request \<Rightarrow> bool \<Rightarrow> 'g \<Rightarrow> 'g \<Rightarrow> bool" where
  "answered_gone api request known g g' \<longleftrightarrow>
     github_answers (ga_fetch_snapshot api request) g (Inr None) g' \<or>
     (\<exists>response verified. er_status response = 404 \<and> (known \<or> verified) \<and>
        github_answers (ga_fetch_snapshot api request) g (Inl (GeHttp response verified)) g')"

lemma sync_read:
  assumes "run_sync (restate_pr bu api key) request debounce w = (Inr out, w')" "out \<noteq> SyDebounced"
  defines "st \<equiv> (state_or_default (ow_object w))\<lparr>ps_sync_pending := False\<rparr>"
  obtains fetched pr w3 where "fetched_snapshot fetched = Inr pr"
    "ow_object w3 = Some st" "pr_table (ow_db w3) = pr_table (ow_db w)" "ow_sends w3 = ow_sends w"
    "db_ok (ow_db w3) = db_ok (ow_db w)"
    "write_snapshot (restate_pr bu api key) request st pr w3 = (Inr out, w')"
    "case pr of Some snapshot \<Rightarrow>
        github_answers (ga_fetch_snapshot api request) (ow_remote w) (Inr (Some snapshot)) (ow_remote w3)
      | None \<Rightarrow> answered_gone api request (ps_snapshot st \<noteq> None) (ow_remote w) (ow_remote w3)"
proof -
  let ?E = "restate_pr bu api key"
  have now_state: "object.now_state w = state_or_default (ow_object w)" by (simp add: object.now_state_def)
  obtain now w1 where now: "fe_now ?E ''sync-clock'' w = (Inr now, w1)"
    "\<not> should_debounce_sync (sr_bypass_debounce request) (ps_last_synced_at (object.now_state w)) now debounce"
    using object.sync_clock_first [OF assms(1)] assms(2) by auto
  from assms(1) now show ?thesis
  proof (rule object.sync_past_debounce)
    fix r3 w3
    assume f: "fe_fetch_snapshot ?E request (ps_snapshot ((object.now_state w)\<lparr>ps_sync_pending := False\<rparr>) \<noteq> None)
        (fe_set_state ?E ((object.now_state w)\<lparr>ps_sync_pending := False\<rparr>) w1) = (r3, w3)"
      and w3: "ow_object w3 = Some ((object.now_state w)\<lparr>ps_sync_pending := False\<rparr>)"
        "pr_table (ow_db w3) = pr_table (ow_db w)" "ow_sends w3 = ow_sends w"
        "db_ok (ow_db w3) = db_ok (ow_db w)"
      and c: "case r3 of Inl e \<Rightarrow> (Inr out, w') = (Inl e, w3) | Inr fetched \<Rightarrow>
        andthen (lift (fetched_snapshot fetched))
          (write_snapshot ?E request ((object.now_state w)\<lparr>ps_sync_pending := False\<rparr>)) w3 = (Inr out, w')"
    note st = now_state [symmetric]
    from c obtain fetched pr where r3: "r3 = Inr fetched" "fetched_snapshot fetched = Inr pr"
        "write_snapshot ?E request st pr w3 = (Inr out, w')"
      by (auto simp: andthen_Inr_iff st_def st split: sum.splits)
    have r0: "ow_remote (fe_set_state ?E st w1) = ow_remote w"
      using remote_frame(1) [OF now(1)] by (simp add: remote_frame(2))
    have f: "run_github_step (restate_github_step bu ''fetch-canonical-pr-snapshot'' OpRead
        (ps_snapshot st \<noteq> None) (ga_fetch_snapshot api request)) (fe_set_state ?E st w1) = (Inr fetched, w3)"
      using f r3(1) by (simp add: restate_pr_def st_def st)
    have "case pr of Some snapshot \<Rightarrow>
        github_answers (ga_fetch_snapshot api request) (ow_remote w) (Inr (Some snapshot)) (ow_remote w3)
      | None \<Rightarrow> answered_gone api request (ps_snapshot st \<noteq> None) (ow_remote w) (ow_remote w3)"
    proof (cases pr)
      case (Some snapshot)
      with r3(2) have "fetched = SOk (Some snapshot)" by (simp add: fetched_iff)
      from github_step_answered [OF f [unfolded this]] Some show ?thesis by (simp add: r0)
    next
      case None
      with r3(2) consider "fetched = SOk None" | response where "fetched = SRejected NotFound response"
        by (auto simp: fetched_iff)
      then show ?thesis
      proof cases
        case 1
        from github_step_answered [OF f [unfolded this]] None show ?thesis by (simp add: r0 answered_gone_def)
      next
        case 2
        from github_read_rejected [OF f [unfolded this]] None show ?thesis
          by (auto simp: r0 answered_gone_def)
      qed
    qed
    with r3 w3 show ?thesis by (intro that [of fetched pr w3]) (simp_all add: st_def st)
  qed
qed

lemma sync_synced_from:
  assumes run: "run_sync (restate_pr bu api key) request debounce w = (Inr (SySynced sha), w')"
    and ok: "db_ok (ow_db w)"
  defines "st \<equiv> (state_or_default (ow_object w))\<lparr>ps_sync_pending := False\<rparr>"
  shows "\<exists>snapshot. github_answers (ga_fetch_snapshot api request) (ow_remote w) (Inr (Some snapshot)) (ow_remote w') \<and>
    sha = pr_head_sha snapshot \<and> ow_object w' = Some (synced_state request snapshot st) \<and>
    pr_table (ow_db w') = (pr_table (ow_db w))(record_key snapshot \<mapsto> with_derived_id snapshot) \<and>
    ow_sends w' = ow_sends w"
  using run
proof (rule sync_read)
  fix fetched pr w3
  assume w3: "pr_table (ow_db w3) = pr_table (ow_db w)" "ow_sends w3 = ow_sends w"
      "db_ok (ow_db w3) = db_ok (ow_db w)"
    and wr: "write_snapshot (restate_pr bu api key) request ((state_or_default (ow_object w))\<lparr>ps_sync_pending := False\<rparr>)
      pr w3 = (Inr (SySynced sha), w')"
    and ans: "case pr of Some snapshot \<Rightarrow>
        github_answers (ga_fetch_snapshot api request) (ow_remote w) (Inr (Some snapshot)) (ow_remote w3)
      | None \<Rightarrow> answered_gone api request
          (ps_snapshot ((state_or_default (ow_object w))\<lparr>ps_sync_pending := False\<rparr>) \<noteq> None) (ow_remote w) (ow_remote w3)"
  from wr obtain snapshot w4 where pr: "pr = Some snapshot"
    and up: "fe_upsert_projection (restate_pr bu api key) snapshot w3 = (Inr (), w4)"
    and w': "w' = fe_set_state (restate_pr bu api key) (synced_state request snapshot st) w4" "sha = pr_head_sha snapshot"
    by (auto simp: andthen_Inr_iff write_snapshot_def st_def split: option.splits)
  have "db_ok (ow_db w3)" using ok w3 by simp
  from object.upserts [OF this up] remote_frame(4) [OF up] ans show ?thesis
    using w3 w' by (auto simp: pr remote_frame(2) object.sets_state intro!: exI [of _ snapshot])
qed simp

lemma sync_deleted_from:
  assumes run: "run_sync (restate_pr bu api key) request debounce w = (Inr SyDeleted, w')"
  shows "answered_gone api request (ps_snapshot (state_or_default (ow_object w)) \<noteq> None)
    (ow_remote w) (ow_remote w')"
  using run
proof (rule sync_read)
  fix fetched pr w3
  assume wr: "write_snapshot (restate_pr bu api key) request ((state_or_default (ow_object w))\<lparr>ps_sync_pending := False\<rparr>)
      pr w3 = (Inr SyDeleted, w')"
    and ans: "case pr of Some snapshot \<Rightarrow>
        github_answers (ga_fetch_snapshot api request) (ow_remote w) (Inr (Some snapshot)) (ow_remote w3)
      | None \<Rightarrow> answered_gone api request
          (ps_snapshot ((state_or_default (ow_object w))\<lparr>ps_sync_pending := False\<rparr>) \<noteq> None) (ow_remote w) (ow_remote w3)"
  from wr obtain w4 where pr: "pr = None"
    and del: "fe_delete_projection (restate_pr bu api key) ''delete-ineligible-pr-projection''
        (request_key request) w3 = (Inr (), w4)" and w': "w' = fe_clear_state (restate_pr bu api key) w4"
    by (auto simp: andthen_Inr_iff write_snapshot_def split: option.splits)
  from ans remote_frame(5) [OF del] show ?thesis by (simp add: pr w' remote_frame(3))
qed simp

lemma sync_debounced_iff:
  fixes w :: "'g pr_world"
  defines "st \<equiv> state_or_default (ow_object w)" and "now \<equiv> ow_times w (ow_reads w)"
  shows "fst (run_sync (restate_pr bu api key) request debounce w) = Inr SyDebounced \<longleftrightarrow>
    \<not> sr_bypass_debounce request \<and> (\<exists>synced. ps_last_synced_at st = Some synced \<and>
      unat now - unat synced < unat debounce)" (is "_ \<longleftrightarrow> ?inside")
proof -
  have inside: "?inside \<longleftrightarrow> should_debounce_sync (sr_bypass_debounce request) (ps_last_synced_at st) now debounce"
    by (auto simp: should_debounce_sync_def word_less_nat_alt unat_sat_sub split: option.splits)
  obtain res w' where run: "run_sync (restate_pr bu api key) request debounce w = (res, w')" by fastforce
  show ?thesis
  proof
    assume "?inside"
    then have "should_debounce_sync (sr_bypass_debounce request) (ps_last_synced_at st) now debounce"
      by (simp only: inside)
    then show "fst (run_sync (restate_pr bu api key) request debounce w) = Inr SyDebounced"
      by (cases "ps_sync_pending st")
        (simp_all add: run_sync_def andthen_def restate_pr_def run_clock_step_def read_clock_def put_def ok_def
          st_def now_def)
  next
    assume "fst (run_sync (restate_pr bu api key) request debounce w) = Inr SyDebounced"
    with run have "run_sync (restate_pr bu api key) request debounce w = (Inr SyDebounced, w')" by simp
    from object.sync_debounced [OF this] obtain t w1 where
      "fe_now (restate_pr bu api key) ''sync-clock'' w = (Inr t, w1)"
      "should_debounce_sync (sr_bypass_debounce request) (ps_last_synced_at st) t debounce"
      by (auto simp: st_def object.now_state_def)
    with clock_first show ?inside by (metis inside now_def reading_def)
  qed
qed

lemma debounced_remote:
  assumes "run_sync (restate_pr bu api key) request debounce w = (Inr SyDebounced, w')"
  shows "ow_remote w' = ow_remote w"
proof -
  from object.sync_debounced [OF assms] obtain now w1 where
    n: "fe_now (restate_pr bu api key) ''sync-clock'' w = (Inr now, w1)"
    and d: "should_debounce_sync (sr_bypass_debounce request) (ps_last_synced_at (object.now_state w)) now debounce"
    by blast
  have "object.now_state w1 = object.now_state w"
    using object.same_simps [OF object.quiet_runs(1) [OF n]] by (simp add: object.now_state_def)
  with assms n d remote_frame(1) [OF n] show ?thesis
    by (auto simp: run_sync_def andthen_Inr_iff Let_def object.reads_state object.now_state_def
        remote_frame(2) put_def ok_def restate_pr_def split: if_splits)
qed

section \<open>Properties of the handlers\<close>

text \<open>
  C3: A sync ends in one of four ways. Debounced, which it is exactly inside the debounce of the
  last sync and unless asked to bypass it, it does not ask GitHub and leaves the row and, when a
  trailing sync is already due, everything as it was, and otherwise marks one due and sends it
  with the debounce as its delay. Synced, it stores the snapshot GitHub answered in the object and
  as the row of its key, and sends nothing. Deleted, GitHub answered that there is no open
  Dependabot pull request, or a 404 for one it was known to have, and the sync clears the object
  and removes the row. Failed, it leaves the row and the sends as they were and the object as it
  was but for a trailing sync no longer marked due.
\<close>

theorem sync_settles_the_object:
  fixes w :: "'g pr_world"
  assumes "db_ok (ow_db w)"
  defines "st \<equiv> state_or_default (ow_object w)" and "now \<equiv> ow_times w (ow_reads w)"
  shows "(case run_sync (restate_pr bu api key) request debounce w of
      (Inr SyDebounced, w') \<Rightarrow> pr_table (ow_db w') = pr_table (ow_db w) \<and> ow_remote w' = ow_remote w \<and>
        ow_object w' = (if ps_sync_pending st then ow_object w else Some (st\<lparr>ps_sync_pending := True\<rparr>)) \<and>
        ow_sends w' = ow_sends w @
          (if ps_sync_pending st then [] else [(request_key request, request, Some debounce)])
    | (Inr (SySynced sha), w') \<Rightarrow> (\<exists>snapshot.
        github_answers (ga_fetch_snapshot api request) (ow_remote w) (Inr (Some snapshot)) (ow_remote w') \<and>
        sha = pr_head_sha snapshot \<and>
        ow_object w' = Some (synced_state request snapshot (st\<lparr>ps_sync_pending := False\<rparr>)) \<and>
        pr_table (ow_db w') = (pr_table (ow_db w))(record_key snapshot \<mapsto> with_derived_id snapshot) \<and>
        ow_sends w' = ow_sends w)
    | (Inr SyDeleted, w') \<Rightarrow>
        answered_gone api request (ps_snapshot st \<noteq> None) (ow_remote w) (ow_remote w') \<and>
        ow_object w' = None \<and> pr_table (ow_db w') = (pr_table (ow_db w))(request_key request := None) \<and>
        ow_sends w' = ow_sends w
    | (Inl e, w') \<Rightarrow> pr_table (ow_db w') = pr_table (ow_db w) \<and> ow_sends w' = ow_sends w \<and>
        ow_object w' = Some (st\<lparr>ps_sync_pending := False\<rparr>)) \<and>
    (fst (run_sync (restate_pr bu api key) request debounce w) = Inr SyDebounced \<longleftrightarrow>
      \<not> sr_bypass_debounce request \<and> (\<exists>synced. ps_last_synced_at st = Some synced \<and>
        unat now - unat synced < unat debounce))"
    (is "?outcome \<and> _")
proof (intro conjI)
  have st: "object.now_state w = st" by (simp add: object.now_state_def st_def)
  obtain res w' where run: "run_sync (restate_pr bu api key) request debounce w = (res, w')" by fastforce
  show ?outcome
  proof (cases res)
    case (Inl e)
    have "\<not> (\<exists>e w1. fe_now (restate_pr bu api key) ''sync-clock'' w = (Inl e, w1))"
      by (simp add: restate_pr_def run_clock_step_def read_clock_def)
    with object.sync_failed [OF run [unfolded Inl]] run Inl show ?thesis by (simp add: st)
  next
    case (Inr out)
    note run' = run [unfolded Inr]
    show ?thesis
    proof (cases out)
      case SyDebounced
      with object.sync_debounced [OF run' [unfolded SyDebounced]] run'
        debounced_remote [OF run' [unfolded SyDebounced]] show ?thesis
        by (auto simp: st split: if_splits)
    next
      case (SySynced sha)
      with sync_synced_from [OF run' [unfolded SySynced] assms(1)] run' show ?thesis
        by (simp add: st_def)
    next
      case SyDeleted
      with object.sync_deleted [OF run' [unfolded SyDeleted] assms(1)]
        sync_deleted_from [OF run' [unfolded SyDeleted]] run' show ?thesis by (simp add: st_def)
    qed
  qed
qed (use sync_debounced_iff in \<open>simp add: st_def now_def\<close>)

theorem sync_settles_the_object_witness:
  "pr_table (ow_db (snd (run_sync (restate_pr no_retries kind_api ''1#7'') serde_sync 60 serde_world)))
     (PrKey 1 7) = None"
proof -
  have sound: "db_ok (ow_db serde_world)" by (simp add: serde_world_def acme_ok)
  have "fst (run_sync (restate_pr no_retries kind_api ''1#7'') serde_sync 60 serde_world) = Inr SyDeleted"
    by (simp add: run_sync_def run_defs serde_world_def serde_sync_def kind_api_def no_retries_def
        serde_state_def should_debounce_sync_def sat_sub_def state_or_default_def default_pr_state_def
        fetched_snapshot_def write_snapshot_def delete_pr_def)
  with sync_settles_the_object [OF sound, where bu = no_retries and api = kind_api
      and key = "''1#7''" and request = serde_sync and debounce = 60]
  show ?thesis by (auto simp: serde_sync_def request_key_def split: prod.splits)
qed

text \<open>
  C18: A report that the pull request is closed removes its row and clears the object, unless
  the report is fenced by an instant and the object has synced at or after it: then the object
  and the whole database stay as they are. Nothing is sent either way, and a failed report
  changes nothing.
\<close>

theorem closed_honours_its_fence:
  fixes request :: closed_request and w :: "'g pr_world"
  assumes "db_ok (ow_db w)" and "parse_pr_key key = Inr k"
  defines "fenced \<equiv> \<exists>before synced. cr_synced_before request = Some before \<and>
      ps_last_synced_at (state_or_default (ow_object w)) = Some synced \<and> before \<le> synced"
  shows "case run_closed (restate_pr bu api key) request w of
      (Inr out, w') \<Rightarrow> ow_sends w' = ow_sends w \<and>
        (if fenced then out = Kept \<and> w' = w
         else out = Retired \<and> ow_object w' = None \<and>
           pr_table (ow_db w') = (pr_table (ow_db w))(k := None))
    | (Inl e, w') \<Rightarrow> ow_object w' = ow_object w \<and> ow_sends w' = ow_sends w \<and>
        pr_table (ow_db w') = pr_table (ow_db w)"
proof -
  have fence: "fenced \<longleftrightarrow> \<not> closed_retires (ow_object w) request"
    unfolding fenced_def closed_retires_def
    by (auto simp: state_or_default_def default_pr_state_def split: option.splits)
  have key: "fe_key (restate_pr bu api key) = key" by (simp add: restate_pr_def)
  obtain res w' where run: "run_closed (restate_pr bu api key) request w = (res, w')" by fastforce
  show ?thesis
  proof (cases res)
    case (Inl e)
    from object.closed_failed [OF run [unfolded Inl]] show ?thesis
      using run Inl by (simp add: alike_def)
  next
    case (Inr out)
    from object.closed_outcome [OF run [unfolded Inr] assms(1)] show ?thesis
      using run Inr fence assms(2) unfolding key by auto
  qed
qed

theorem closed_honours_its_fence_witness:
  "snd (run_closed (restate_pr no_retries kind_api ''1#7'') \<lparr>cr_synced_before = Some 10\<rparr> serde_world) =
     serde_world"
proof -
  have sound: "db_ok (ow_db serde_world)" by (simp add: serde_world_def acme_ok)
  have k: "parse_pr_key ''1#7'' = Inr (PrKey 1 7)"
    using parse_display_pr_key [of "PrKey 1 7"]
    by (simp add: display_pr_key_def show_u64_def show_nat.simps digit_char_def char_of_def bit_0)
  have kept: "fst (run_closed (restate_pr no_retries kind_api ''1#7'') \<lparr>cr_synced_before = Some 10\<rparr> serde_world) =
      Inr Kept"
    by (simp add: run_closed_def run_defs k serde_world_def closed_retires_def serde_state_def)
  obtain res w' where run: "run_closed (restate_pr no_retries kind_api ''1#7'')
      \<lparr>cr_synced_before = Some 10\<rparr> serde_world = (res, w')" by fastforce
  from closed_honours_its_fence [OF sound k, where bu = no_retries and api = kind_api
      and request = "\<lparr>cr_synced_before = Some 10\<rparr>"] kept
  show ?thesis unfolding run by (auto split: if_splits)
qed

text \<open>
  C2: A merge, a branch update and a command act only on the pull request the target names at
  the head the target was approved for: where the object's snapshot is missing, is of another
  pull request or has another head, and for a command where no user token is configured, the
  handler answers with the rejection and the world, GitHub included, is exactly as it was.
\<close>

theorem mutations_are_guarded:
  fixes target :: pr_target and w :: "'g pr_world" and api :: "'g github_api"
  defines "st \<equiv> state_or_default (ow_object w)"
  defines "refusal \<equiv> \<lambda>(reason :: reject_reason).
      (Inr (Rejected reason), w) :: (handler_error + action_outcome) \<times> 'g pr_world"
  defines "current \<equiv> \<exists>s. ps_snapshot st = Some s \<and> target_matches_snapshot target s \<and>
      pr_head_sha s = tg_expected_sha target"
  assumes "\<not> current"
  shows "\<exists>reason \<in> {NotFound} \<union> range (StaleSha (tg_expected_sha target)).
    run_merge (restate_pr bu api key) \<lparr>mr_batch_id = b, mr_target = target\<rparr> w = refusal reason \<and>
    run_update_branch (restate_pr bu api key) \<lparr>ub_batch_id = b, ub_target = target\<rparr> w = refusal reason \<and>
    run_command (restate_pr bu api key)
        \<lparr>cq_batch_id = b, cq_target = target, cq_user_id = u, cq_command = c\<rparr> w =
      refusal (if ga_can_post_commands api then reason else NoUserToken)"
proof -
  have st: "object.now_state w = st" by (simp add: object.now_state_def st_def)
  have "\<exists>reason \<in> {NotFound} \<union> range (StaleSha (tg_expected_sha target)).
      guard_target (ps_snapshot st) target = Inl reason"
    using assms(4) by (cases "ps_snapshot st") (auto simp: current_def guard_target_def)
  then obtain reason where r: "guard_target (ps_snapshot st) target = Inl reason"
      "reason \<in> {NotFound} \<union> range (StaleSha (tg_expected_sha target))" by blast
  have can: "fe_can_post_commands (restate_pr bu api key) = ga_can_post_commands api"
    by (simp add: restate_pr_def)
  have "run_merge (restate_pr bu api key) \<lparr>mr_batch_id = b, mr_target = target\<rparr> w = refusal reason"
    unfolding refusal_def by (rule object.merge_guarded) (simp add: st r)
  moreover have "run_update_branch (restate_pr bu api key) \<lparr>ub_batch_id = b, ub_target = target\<rparr> w =
      refusal reason"
    unfolding refusal_def by (rule object.update_branch_guarded) (simp add: st r)
  moreover have "run_command (restate_pr bu api key)
        \<lparr>cq_batch_id = b, cq_target = target, cq_user_id = u, cq_command = c\<rparr> w =
      refusal (if ga_can_post_commands api then reason else NoUserToken)"
    unfolding refusal_def by (rule object.command_guarded) (simp add: st r guard_command_def can)
  ultimately show ?thesis using r(2) by blast
qed

theorem mutations_are_guarded_witness:
  "run_merge (restate_pr no_retries kind_api ''1#7'')
     \<lparr>mr_batch_id = ''b'', mr_target = serde_target\<lparr>tg_expected_sha := ''old''\<rparr>\<rparr> serde_world \<in>
   range (\<lambda>reason. (Inr (Rejected reason), serde_world))"
proof -
  let ?t = "serde_target\<lparr>tg_expected_sha := ''old''\<rparr>"
  have "\<not> (\<exists>s. ps_snapshot (state_or_default (ow_object serde_world)) = Some s \<and>
      target_matches_snapshot ?t s \<and> pr_head_sha s = tg_expected_sha ?t)"
    by (simp add: serde_world_def state_or_default_def serde_state_def serde_pr_def)
  from mutations_are_guarded [OF this, where bu = no_retries and api = kind_api and key = "''1#7''"
      and b = "''b''"] show ?thesis by blast
qed


text \<open>
  An approved merge that succeeds removes the row, forgets the snapshot and logs the
  merge; one that GitHub rejects keeps both and logs the rejection; neither sends anything.
  An approved branch update that succeeds logs it and sends exactly one sync of the pull
  request, without delay, and the row stays in every case.
\<close>

theorem approved_mutations_settle:
  fixes w :: "'g pr_world" and target :: pr_target
  assumes "db_ok (ow_db w)"
  defines "st \<equiv> state_or_default (ow_object w)" and "k \<equiv> target_key target"
  assumes "guard_target (ps_snapshot st) target = Inr ()"
  shows "(case run_merge (restate_pr bu api key) \<lparr>mr_batch_id = b, mr_target = target\<rparr> w of
        (Inl e, w') \<Rightarrow> ow_object w' = ow_object w \<and> ow_sends w' = ow_sends w
      | (Inr (Succeeded d m), w') \<Rightarrow> (\<exists>at. ow_object w' =
            Some (log_outcome at ''merge'' (Succeeded d m) (st\<lparr>ps_snapshot := None\<rparr>))) \<and>
          pr_table (ow_db w') = (pr_table (ow_db w))(k := None) \<and> ow_sends w' = ow_sends w
      | (Inr (Rejected reason), w') \<Rightarrow> (\<exists>at. ow_object w' =
            Some (log_outcome at ''merge'' (Rejected reason) st)) \<and>
          pr_table (ow_db w') = pr_table (ow_db w) \<and> ow_sends w' = ow_sends w) \<and>
    (case run_update_branch (restate_pr bu api key) \<lparr>ub_batch_id = b, ub_target = target\<rparr> w of
        (Inl e, w') \<Rightarrow> ow_object w' = ow_object w \<and> ow_sends w' = ow_sends w \<and>
          pr_table (ow_db w') = pr_table (ow_db w)
      | (Inr out, w') \<Rightarrow> (\<exists>at. ow_object w' = Some (log_outcome at ''update_branch'' out st)) \<and>
          pr_table (ow_db w') = pr_table (ow_db w) \<and>
          ow_sends w' = ow_sends w @
            (if is_success out then [(k, follow_up_sync target, None)] else []))"
    (is "?merge \<and> ?update")
proof
  have st: "object.now_state w = st" by (simp add: object.now_state_def st_def)
  let ?E = "restate_pr bu api key" and ?m = "\<lparr>mr_batch_id = b, mr_target = target\<rparr>"
    and ?u = "\<lparr>ub_batch_id = b, ub_target = target\<rparr>"
  have gm: "guard_target (ps_snapshot (object.now_state w)) (mr_target ?m) = Inr ()"
    and gu: "guard_target (ps_snapshot (object.now_state w)) (ub_target ?u) = Inr ()"
    using assms(4) by (simp_all add: st)
  obtain res w1 where run: "run_merge ?E ?m w = (res, w1)" by fastforce
  show ?merge
  proof (cases res)
    case (Inl e)
    from object.merge_failed [OF run [unfolded Inl] assms(1)] show ?thesis unfolding run Inl by simp
  next
    case (Inr out)
    from object.merge_outcome [OF run [unfolded Inr] assms(1) gm] show ?thesis
      unfolding run Inr by (cases out) (auto simp: st k_def)
  qed
  obtain res w2 where run: "run_update_branch ?E ?u w = (res, w2)" by fastforce
  show ?update
  proof (cases res)
    case (Inl e)
    from object.update_branch_failed [OF run [unfolded Inl]] show ?thesis
      unfolding run Inl by (simp add: alike_def)
  next
    case (Inr out)
    from object.update_branch_outcome [OF run [unfolded Inr] gu] show ?thesis
      unfolding run Inr by (auto simp: st k_def)
  qed
qed

theorem approved_mutations_settle_witness:
  "ow_sends (snd (run_update_branch (restate_pr no_retries kind_api ''1#7'')
     \<lparr>ub_batch_id = ''b'', ub_target = serde_target\<rparr> serde_world)) =
   [(PrKey 1 7, follow_up_sync serde_target, None)]"
proof -
  let ?u = "\<lparr>ub_batch_id = ''b'', ub_target = serde_target\<rparr>"
  have sound: "db_ok (ow_db serde_world)" by (simp add: serde_world_def acme_ok)
  have guard: "guard_target (ps_snapshot (state_or_default (ow_object serde_world))) serde_target = Inr ()"
    by (simp add: guard_target_def serde_world_def state_or_default_def serde_state_def
        target_matches_snapshot_def serde_target_def serde_pr_def)
  have "fst (run_update_branch (restate_pr no_retries kind_api ''1#7'') ?u serde_world) =
      Inr (Succeeded ''updated'' None)"
    using guard by (simp add: run_update_branch_def run_defs kind_api_def no_retries_def action_result_def)
  moreover obtain res w' where run: "run_update_branch (restate_pr no_retries kind_api ''1#7'') ?u
      serde_world = (res, w')" by fastforce
  ultimately show ?thesis
    using approved_mutations_settle [OF sound guard, where bu = no_retries and api = kind_api
        and key = "''1#7''" and b = "''b''"]
    by (simp add: run serde_world_def target_key_def serde_target_def)
qed


section \<open>Properties over every interleaving\<close>

lemma fresh_trailing:
  assumes "db_ok (ow_db w)" and "ow_object w = None"
  shows "trailing_kept debounce (w, [])"
proof -
  have "object.now_state w = default_pr_state"
    using assms(2) by (simp add: object.now_state_def state_or_default_def)
  then show ?thesis
    using assms(1) by (simp add: trailing_kept_def object_sound_def default_pr_state_def windows_ok_def)
qed

lemma late_enough:
  "unat (synced :: u64) + unat (d :: u64) \<le> unat now \<Longrightarrow> \<not> should_debounce_sync b (Some synced) now d"
proof -
  assume le: "unat synced + unat d \<le> unat now"
  then have "unat (now - synced) = unat now - unat synced" by (intro unat_sub) (simp add: word_le_nat_alt)
  with le show ?thesis
    by (auto simp: should_debounce_sync_def sat_sub_def word_less_nat_alt word_le_nat_alt)
qed

text \<open>
  C1: While the host clock reads no earlier than the object's last sync, a debounced sync is never
  forgotten. From an object never seen, through any interleaving of calls, fired timers, failures
  and changes elsewhere, each taken at such a reading and each timer fired no sooner than it is
  due, an object marked as having a trailing sync due has a timer running for one, and when that
  timer is due the sync it sends is past the debounce. A clock set back does lose one: see
  \<open>set_back_clock_loses_the_sync\<close>.
\<close>

theorem trailing_sync_never_lost:
  assumes "db_ok (ow_db w0)" and "ow_object w0 = None"
    and "(steady_step bu api key debounce)\<^sup>*\<^sup>* (w0, []) (w, timers)"
    and "ps_sync_pending (state_or_default (ow_object w))"
  shows "\<exists>(due, request) \<in> set timers. \<forall>now. due \<le> unat now \<longrightarrow>
    \<not> should_debounce_sync (sr_bypass_debounce request)
        (ps_last_synced_at (state_or_default (ow_object w))) now debounce"
proof -
  have "trailing_kept debounce (w, timers)"
    by (rule trailing_reachable [OF assms(3) fresh_trailing [OF assms(1,2)]])
  then obtain due r where t: "(due, r) \<in> set timers"
    and d: "\<forall>synced. ps_last_synced_at (object.now_state w) = Some synced \<longrightarrow>
      unat synced + unat debounce \<le> due"
    using assms(4) by (auto simp: trailing_kept_def object.now_state_def)
  have "\<not> should_debounce_sync (sr_bypass_debounce r)
      (ps_last_synced_at (state_or_default (ow_object w))) now debounce" if "due \<le> unat now" for now
  proof (cases "ps_last_synced_at (object.now_state w)")
    case None
    then show ?thesis by (simp add: should_debounce_sync_def object.now_state_def)
  next
    case (Some synced)
    with d that late_enough [of synced debounce now] show ?thesis by (simp add: object.now_state_def)
  qed
  with t show ?thesis by blast
qed

text \<open>
  However it is called, an object keeps at most 20 history entries and at most 20 ids of
  completed syncs, none of them twice, and the projection stays sound.
\<close>

theorem object_windows_bounded:
  assumes "db_ok (ow_db w0)" and "ow_object w0 = None"
    and "(object_step bu api key debounce)\<^sup>*\<^sup>* (w0, []) (w, timers)"
  defines "st \<equiv> state_or_default (ow_object w)"
  shows "length (ps_history st) \<le> 20 \<and> length (ps_completed_sync_ids st) \<le> 20 \<and>
    distinct (ps_completed_sync_ids st) \<and> db_ok (ow_db w)"
proof -
  have "object_sound (w, timers)"
    using object_reachable_sound [OF assms(3)] fresh_trailing [OF assms(1,2)]
    by (simp add: trailing_kept_def)
  then show ?thesis
    by (simp add: object_sound_def windows_ok_def object.now_state_def st_def RETAINED_HISTORY_def
        RETAINED_SYNC_IDS_def)
qed

section \<open>A run with a debounced sync\<close>

text \<open>A GitHub that has the pull request, read at the instant 100.\<close>

definition open_api :: "unit github_api" where
  "open_api = kind_api\<lparr>ga_fetch_snapshot := (\<lambda>_ g. (Inr (Some (serde_pr\<lparr>pr_synced_at := 100\<rparr>)), g))\<rparr>"

definition fresh_world :: "unit pr_world" where
  "fresh_world = serde_world\<lparr>ow_object := None\<rparr>"

definition synced_world :: "unit pr_world" where
  "synced_world = invoke no_retries open_api ''1#7'' 60 (InSync serde_sync) fresh_world"

definition debounced_world :: "unit pr_world" where
  "debounced_world = invoke no_retries open_api ''1#7'' 60 (InSync serde_sync) synced_world"

lemma serde_key: "display_pr_key (PrKey 1 7) = ''1#7''"
  by (simp add: display_pr_key_def show_u64_def show_nat.simps digit_char_def char_of_def bit_0)

lemma fresh_facts: "db_ok (ow_db fresh_world)" "ow_object fresh_world = None"
  by (simp_all add: fresh_world_def serde_world_def acme_ok)

lemma upserts_acme:
  "upsert_pr (serde_pr\<lparr>pr_synced_at := t\<rparr>) acme_db \<in> range (Pair (Inr ()))" if "fits t" for t
proof -
  have "known_repo acme_db 1"
    using acme_tables db_ok_parts [OF acme_ok] by (simp add: known_repo_table)
  moreover have "pr_fits (serde_pr\<lparr>pr_synced_at := t\<rparr>)"
    using acme_fits(2) that by (simp add: pr_fits_def)
  ultimately show ?thesis
    using upsert_pr_ok [OF db_ok_parts [OF acme_ok], of "serde_pr\<lparr>pr_synced_at := t\<rparr>"]
    by (auto simp: serde_pr_def)
qed

lemma synced_world_facts:
  "ow_object synced_world = Some (synced_state serde_sync (serde_pr\<lparr>pr_synced_at := 100\<rparr>)
     (default_pr_state\<lparr>ps_sync_pending := False\<rparr>))"
  "ow_sends synced_world = []" "ow_times synced_world n = 100 + of_nat n" "ow_reads synced_world = 2"
proof -
  have "fits 100" by (simp add: fits_def)
  then obtain d where d: "upsert_pr (serde_pr\<lparr>pr_synced_at := 100\<rparr>) acme_db = (Inr (), d)"
    using upserts_acme by blast
  have eq: "synced_world = fresh_world\<lparr>ow_db := d, ow_reads := 2,
      ow_object := Some (synced_state serde_sync (serde_pr\<lparr>pr_synced_at := 100\<rparr>)
        (default_pr_state\<lparr>ps_sync_pending := False\<rparr>))\<rparr>"
    by (simp add: synced_world_def fresh_world_def run_sync_def run_defs serde_world_def open_api_def
        kind_api_def no_retries_def should_debounce_sync_def state_or_default_def default_pr_state_def
        fetched_snapshot_def write_snapshot_def d)
  show "ow_object synced_world = Some (synced_state serde_sync (serde_pr\<lparr>pr_synced_at := 100\<rparr>)
     (default_pr_state\<lparr>ps_sync_pending := False\<rparr>))"
    "ow_sends synced_world = []" "ow_times synced_world n = 100 + of_nat n" "ow_reads synced_world = 2"
    unfolding eq by (simp_all add: fresh_world_def serde_world_def)
qed

lemma synced_then_debounced:
  "ow_object debounced_world = Some ((synced_state serde_sync (serde_pr\<lparr>pr_synced_at := 100\<rparr>)
     (default_pr_state\<lparr>ps_sync_pending := False\<rparr>))\<lparr>ps_sync_pending := True\<rparr>)"
proof -
  have st: "ps_last_synced_at (synced_state serde_sync (serde_pr\<lparr>pr_synced_at := 100\<rparr>)
      (default_pr_state\<lparr>ps_sync_pending := False\<rparr>)) = Some 100"
    "\<not> ps_sync_pending (synced_state serde_sync (serde_pr\<lparr>pr_synced_at := 100\<rparr>)
      (default_pr_state\<lparr>ps_sync_pending := False\<rparr>))"
    by simp_all
  show ?thesis
    unfolding debounced_world_def
    by (simp add: run_sync_def andthen_def restate_pr_def run_clock_step_def read_clock_def put_def
        ok_def synced_world_facts state_or_default_def should_debounce_sync_def st sat_sub_def
        serde_sync_def)
qed

lemma serde_addressed: "addressed_to ''1#7'' (InSync serde_sync)"
  using serde_key by (simp add: addressed_to_def request_key_def serde_sync_def)

lemma debounced_run:
  "(steady_step no_retries open_api ''1#7'' 60)\<^sup>*\<^sup>* (fresh_world, [])
     (debounced_world, ([] @ due_sends ''1#7'' fresh_world synced_world) @
        due_sends ''1#7'' synced_world debounced_world)"
proof -
  have sane: "clock_sane fresh_world" "clock_sane synced_world"
    by (simp_all add: clock_sane_def object.now_state_def fresh_facts synced_world_facts
        state_or_default_def default_pr_state_def reading_def)
  have "steady_step no_retries open_api ''1#7'' 60 (fresh_world, [])
       (synced_world, [] @ due_sends ''1#7'' fresh_world synced_world)"
    using object_step.called [OF serde_addressed synced_world_def] sane(1) unfolding steady_step_def
    by (simp only: fst_conv simp_thms)
  moreover have "steady_step no_retries open_api ''1#7'' 60
      (synced_world, [] @ due_sends ''1#7'' fresh_world synced_world)
      (debounced_world, ([] @ due_sends ''1#7'' fresh_world synced_world) @
        due_sends ''1#7'' synced_world debounced_world)"
    using object_step.called [OF serde_addressed debounced_world_def] sane(2) unfolding steady_step_def
    by (simp only: fst_conv simp_thms)
  ultimately show ?thesis by (meson converse_rtranclp_into_rtranclp rtranclp.rtrancl_refl)
qed

lemma debounced_steps:
  "(object_step no_retries open_api ''1#7'' 60)\<^sup>*\<^sup>* (fresh_world, [])
     (debounced_world, ([] @ due_sends ''1#7'' fresh_world synced_world) @
        due_sends ''1#7'' synced_world debounced_world)"
  by (rule rtranclp_mono [THEN predicate2D, OF _ debounced_run]) (auto simp: steady_step_def)

theorem trailing_sync_never_lost_witness:
  "\<exists>timers. (steady_step no_retries open_api ''1#7'' 60)\<^sup>*\<^sup>* (fresh_world, []) (debounced_world, timers) \<and>
     timers \<noteq> []"
proof -
  have "ps_sync_pending (state_or_default (ow_object debounced_world))"
    by (simp add: synced_then_debounced state_or_default_def)
  from trailing_sync_never_lost [OF fresh_facts debounced_run this] debounced_run show ?thesis
    by (metis (no_types, lifting) empty_iff list.set(1))
qed

theorem object_windows_bounded_witness:
  "length (ps_history (state_or_default (ow_object debounced_world))) \<le> 20 \<and> db_ok (ow_db debounced_world)"
  using object_windows_bounded [OF fresh_facts debounced_steps] by blast

section \<open>A clock set back\<close>

text \<open>
  The object synced at 100; the clock is then set back to 50, a sync is debounced and sent
  to run at 110, and at 120 it runs, twenty seconds into the debounce of 60.
\<close>

definition set_back_world :: "unit pr_world" where
  "set_back_world = synced_world\<lparr>ow_times := (\<lambda>_. 50)\<rparr>"

definition waiting_world :: "unit pr_world" where
  "waiting_world = invoke no_retries open_api ''1#7'' 60 (InSync serde_sync) set_back_world"

definition later_world :: "unit pr_world" where
  "later_world = waiting_world\<lparr>ow_times := (\<lambda>_. 120)\<rparr>"

definition lost_world :: "unit pr_world" where
  "lost_world = invoke no_retries open_api ''1#7'' 60 (InSync serde_sync) later_world"

lemma inside_window:
  assumes "ow_object w = Some st" "ps_last_synced_at st = Some synced" "sat_sub (reading w) synced < 60"
  shows "invoke no_retries open_api ''1#7'' 60 (InSync serde_sync) w =
    (if ps_sync_pending st then w\<lparr>ow_reads := Suc (ow_reads w)\<rparr>
     else w\<lparr>ow_reads := Suc (ow_reads w), ow_object := Some (st\<lparr>ps_sync_pending := True\<rparr>),
       ow_sends := ow_sends w @ [(PrKey 1 7, serde_sync, Some 60)]\<rparr>)"
  using assms
  by (simp add: run_sync_def andthen_def restate_pr_def run_clock_step_def read_clock_def put_def ok_def
      state_or_default_def should_debounce_sync_def serde_sync_def reading_def request_key_def)

lemma lost_facts:
  "due_sends ''1#7'' set_back_world waiting_world = [(110, serde_sync)]"
  "due_sends ''1#7'' later_world lost_world = []"
  "ps_sync_pending (state_or_default (ow_object lost_world))"
  "reading later_world = 120"
proof -
  let ?st = "synced_state serde_sync (serde_pr\<lparr>pr_synced_at := 100\<rparr>) (default_pr_state\<lparr>ps_sync_pending := False\<rparr>)"
  have waiting: "waiting_world = set_back_world\<lparr>ow_reads := Suc (ow_reads set_back_world),
      ow_object := Some (?st\<lparr>ps_sync_pending := True\<rparr>), ow_sends := [(PrKey 1 7, serde_sync, Some 60)]\<rparr>"
    unfolding waiting_world_def
    by (subst inside_window [of _ ?st 100])
      (simp_all add: set_back_world_def synced_world_facts reading_def sat_sub_def)
  have lost: "lost_world = later_world\<lparr>ow_reads := Suc (ow_reads later_world)\<rparr>"
    unfolding lost_world_def
    by (subst inside_window [of _ "?st\<lparr>ps_sync_pending := True\<rparr>" 100])
      (simp_all add: later_world_def waiting reading_def sat_sub_def)
  show "due_sends ''1#7'' set_back_world waiting_world = [(110, serde_sync)]"
    "due_sends ''1#7'' later_world lost_world = []"
    "ps_sync_pending (state_or_default (ow_object lost_world))" "reading later_world = 120"
    using serde_key
    by (simp_all add: lost waiting due_sends_def set_back_world_def synced_world_facts reading_def
        later_world_def state_or_default_def)
qed

text \<open>
  Why the property of the trailing sync needs its clock: with the clock set back once, the object
  is left marked as having a sync due, and none is.
\<close>

theorem set_back_clock_loses_the_sync:
  "(object_step no_retries open_api ''1#7'' 60)\<^sup>*\<^sup>* (fresh_world, []) (lost_world, []) \<and>
     ps_sync_pending (state_or_default (ow_object lost_world))"
proof -
  let ?step = "object_step no_retries open_api ''1#7'' 60"
  have "object_sound (fresh_world, [])"
    using fresh_trailing [OF fresh_facts] by (simp add: trailing_kept_def)
  have "?step (fresh_world, []) (synced_world, [] @ due_sends ''1#7'' fresh_world synced_world)"
    by (rule object_step.called [OF serde_addressed synced_world_def])
  then have 1: "?step (fresh_world, []) (synced_world, [])"
    by (simp add: due_sends_def synced_world_facts)
  have ok1: "object_sound (synced_world, [])" by (rule object_step_sound [OF 1]) fact
  then have 2: "?step (synced_world, []) (set_back_world, [])"
    by (intro object_step.elsewhere) (simp_all add: set_back_world_def object_sound_def)
  have "?step (set_back_world, []) (waiting_world, [] @ due_sends ''1#7'' set_back_world waiting_world)"
    by (rule object_step.called [OF serde_addressed waiting_world_def])
  then have 3: "?step (set_back_world, []) (waiting_world, [(110, serde_sync)])" by (simp add: lost_facts)
  have "object_sound (waiting_world, [(110, serde_sync)])"
    by (rule object_step_sound [OF 3 object_step_sound [OF 2 ok1]])
  then have 4: "?step (waiting_world, [(110, serde_sync)]) (later_world, [(110, serde_sync)])"
    by (intro object_step.elsewhere) (simp_all add: later_world_def object_sound_def)
  have "?step (later_world, [(110, serde_sync)])
      (lost_world, remove1 (110, serde_sync) [(110, serde_sync)] @ due_sends ''1#7'' later_world lost_world)"
    by (rule object_step.fired [OF _ _ serde_addressed lost_world_def]) (simp_all add: lost_facts)
  then have 5: "?step (later_world, [(110, serde_sync)]) (lost_world, [])" by (simp add: lost_facts)
  from 1 2 3 4 5 have "?step\<^sup>*\<^sup>* (fresh_world, []) (lost_world, [])"
    by (meson converse_rtranclp_into_rtranclp rtranclp.rtrancl_refl)
  with lost_facts(3) show ?thesis by simp
qed

end
