(* ===== verification/Sync_Contract.thy ===== *)
theory Sync_Contract
  imports Installation_Sync Pull_Request_Contract
begin

text \<open>
  What a sweep, a purge and their scheduler promise over the service's own effects
  (\<^verbatim>\<open>apps/restate-service/src/installation_sync.rs\<close> and \<^verbatim>\<open>retirement.rs\<close>): the outbox is drained
  into one close per retired pull request, a sweep leaves the projection the listing GitHub
  gave, and the chain of scheduled ticks never forks and never stops.
\<close>

section \<open>The outbox drained\<close>

text \<open>
  C17: A drain tells every pull request in the outbox that it is gone, with the fence it was
  queued under, in the order it was queued, and then empties the outbox; a drain that fails
  loses none: each retirement it found is still in the outbox or has been told, and what is
  left in the outbox was there before.
\<close>

theorem outbox_drained:
  assumes "outbox_sound (ow_db w)"
  shows "case retire_pending Pruned (restate_retirements bu) w of
      (Inr n, w') \<Rightarrow> n = length (outbox_rows (ow_db w)) \<and> outbox_rows (ow_db w') = [] \<and>
        sw_closes w' = sw_closes w @ map close_of (outbox_rows (ow_db w))
    | (Inl e, w') \<Rightarrow> \<exists>told. sw_closes w' = sw_closes w @ map close_of told \<and>
        set (outbox_rows (ow_db w)) \<subseteq> set (outbox_rows (ow_db w')) \<union> set told \<and>
        set (outbox_rows (ow_db w')) \<subseteq> set (outbox_rows (ow_db w))"
proof -
  obtain res w' where run: "retire_pending Pruned (restate_retirements bu) w = (res, w')" by fastforce
  show ?thesis
  proof (cases res)
    case (Inl e)
    from outbox.drain_loses_nothing [OF conjI [OF assms refl] run] show ?thesis
      unfolding run Inl by simp
  next
    case (Inr n)
    from outbox.drained [OF conjI [OF assms refl] run [unfolded Inr]] show ?thesis unfolding run Inr by simp
  qed
qed

text \<open>An outbox of two, in a world without faults.\<close>

definition queued_db :: db where
  "queued_db = empty_db\<lparr>db_retirements := [
       \<lparr>y_id = 1, y_repository_id = 1, y_number = 7, y_synced_before = None\<rparr>,
       \<lparr>y_id = 2, y_repository_id = 1, y_number = 8, y_synced_before = Some 50\<rparr>],
     db_retirement_sequence := 2\<rparr>"

definition queued_world :: "unit sweep_world" where
  "queued_world = \<lparr>ow_db = queued_db, ow_faults = [], ow_remote = (), ow_times = (\<lambda>n. 100 + of_nat n),
     ow_reads = 0, ow_slept = [], sw_closes = [], sw_reconciles = [], sw_syncs = []\<rparr>"

definition never_again :: budgets where
  "never_again = \<lparr>bu_store = (\<lambda>_. 0), bu_github = 0\<rparr>"

lemma queued_sound: "outbox_sound (ow_db queued_world)"
  by (simp add: outbox_sound_def queued_world_def queued_db_def db_ok_def prs_ok_def outbox_ok_def
      batches_ok_def empty_db_def retirement_row_ok_def)

theorem outbox_drained_witness:
  "map fst (sw_closes (snd (retire_pending Pruned (restate_retirements never_again) queued_world))) =
     [PrKey 1 7, PrKey 1 8]"
proof -
  have "pending_retirements queued_db = (Inr (outbox_rows queued_db), queued_db)"
    using pending_retirements_rows queued_sound by (simp add: outbox_sound_def queued_world_def db_ok_def)
  then have "fst (retire_pending Pruned (restate_retirements never_again) queued_world) = Inr 2"
    by (simp add: retire_pending_def restate_retirements_def andthen_def run_store_step_def or_terminal_def
        store_call_def never_again_def queued_world_def outbox_rows_def retirement_of_row_def
        acknowledge_retirements_def integer_def queued_db_def empty_db_def put_def lift_def ok_def)
  with outbox_drained [OF queued_sound, of never_again] show ?thesis
    by (auto simp: queued_world_def queued_db_def outbox_rows_def retirement_of_row_def close_of_def
        split: prod.splits)
qed

section \<open>The chain of ticks\<close>

lemma pause_promise:
  assumes "sc_started (ch_state c) = sc_tick_pending (ch_state c)"
    and "c' = fst (snd (run_pause (chain_effects sweep) (ch_state c) (c, w)))"
  shows "sc_started (ch_state c') = sc_tick_pending (ch_state c')"
  using assms
  by (cases "scheduler_pause_transition (ch_state c)")
    (auto simp: run_pause_def andthen_def chain_effects_def scheduler_pause_transition_def bind_result_Inr)

lemma chain_promise_step:
  assumes "chain_step sweep s s'" "sc_started (ch_state (fst s)) = sc_tick_pending (ch_state (fst s))"
  shows "sc_started (ch_state (fst s')) = sc_tick_pending (ch_state (fst s'))"
  using assms
proof (induction rule: chain_step.induct)
  case (starts c w)
  then show ?case
    by (cases "scheduler_start_transition (ch_state c)")
      (auto simp: run_start_def andthen_def chain_effects_def scheduler_start_transition_def
        bind_result_Inr split: option.splits if_splits)
next
  case (pauses c w)
  then show ?case using pause_promise [OF _ refl] by simp
next
  case (purges E R c w key)
  then show ?case using pause_promise [OF _ refl] by (simp only: purge_pauses [OF purges(1)] fst_conv)
next
  case (ticks t c w)
  then show ?case
    by (cases "scheduler_tick_transition (ch_state c) t"; cases "sweep w")
      (auto simp: run_scheduler_tick_def andthen_def chain_effects_def scheduler_tick_transition_def
        bind_result_Inr split: option.splits if_splits)
next
  case (elsewhere c w w')
  then show ?case by simp
qed

lemma chain_promise:
  assumes "(chain_step sweep)\<^sup>*\<^sup>* s s'"
    and "sc_started (ch_state (fst s)) = sc_tick_pending (ch_state (fst s))"
  shows "sc_started (ch_state (fst s')) = sc_tick_pending (ch_state (fst s'))"
  using assms
proof (induction rule: rtranclp_induct)
  case (step a b)
  from chain_promise_step [OF step(2) step.IH [OF step.prems]] show ?case .
qed

text \<open>
  C16: The chain of ticks never forks and never breaks. From a scheduler never started, with
  any number of ticks of the format before generations still to come, through any starts,
  pauses, purges, delivered ticks and failed sweeps, exactly one tick of the present generation is on
  its way while the scheduler is started, and none while it is paused.
\<close>

theorem one_tick_while_started:
  assumes "set legacy \<subseteq> {None}"
    and "(chain_step sweep)\<^sup>*\<^sup>* (\<lparr>ch_state = default_scheduler, ch_ticks = legacy\<rparr>, w0) (c, w)"
  shows "count_list (ch_ticks c) (Some (sc_generation (ch_state c))) =
    (if sc_started (ch_state c) then 1 else 0)"
proof -
  have "chain_ok c"
    using chain_reachable_ok [OF assms(2)] chain_ok_initial [OF assms(1)] by simp
  moreover have "sc_started (ch_state c) = sc_tick_pending (ch_state c)"
    using chain_promise [OF assms(2)] by (simp add: default_scheduler_def)
  ultimately show ?thesis by (simp add: chain_ok_def live_ticks_def)
qed

theorem one_tick_while_started_witness:
  "count_list (ch_ticks (fst (snd (run_start (chain_effects (\<lambda>_. Inr 0)) default_scheduler
     (\<lparr>ch_state = default_scheduler, ch_ticks = [None]\<rparr>, ()))))) (Some 1) = 1"
proof -
  let ?c = "\<lparr>ch_state = default_scheduler, ch_ticks = [None]\<rparr>"
  have "chain_step (\<lambda>_. Inr 0) (?c, ()) (snd (run_start (chain_effects (\<lambda>_. Inr 0)) (ch_state ?c) (?c, ())))"
    by (rule chain_step.starts)
  then have run: "(chain_step (\<lambda>_. Inr 0))\<^sup>*\<^sup>* (?c, ())
      (fst (snd (run_start (chain_effects (\<lambda>_. Inr 0)) default_scheduler (?c, ()))), ())"
    by (metis (full_types) old.unit.exhaust prod.collapse r_into_rtranclp chain.select_convs(1))
  have legacy: "set [None] \<subseteq> {None}" by simp
  from one_tick_while_started [OF legacy run] show ?thesis
    by (simp add: run_start_def andthen_def chain_effects_def scheduler_start_transition_def
        default_scheduler_def next_scheduler_generation_def checked_add_def armed_def put_def lift_def ok_def
        bind_result_def)
qed


section \<open>A sweep\<close>

text \<open>What a queued retirement closes.\<close>

definition close_queued :: "pr_key \<times> int option \<Rightarrow> pr_key \<times> closed_request" where
  "close_queued q = (fst q, \<lparr>cr_synced_before = map_option of_int (snd q)\<rparr>)"

lemma closes_of_queue: "map close_of (outbox_rows d) = map close_queued (retirement_queue d)"
  by (simp add: outbox_rows_def retirement_queue_def close_of_def close_queued_def retirement_of_row_def)

lemma replace_fits:
  assumes "replace_installation_repos i repos before d = (Inr keys, d')"
  shows "fits i" "fits before" "\<forall>r\<in>set repos. repo_fits r"
proof -
  obtain d1 where d1: "each_step upsert_repo repos d = (Inr (), d1)"
    and r: "retain_repos_on i (map rr_repository_id repos) before d1 = (Inr keys, d')"
    using assms by (auto simp: replace_installation_repos_def transaction_Inr andthen_Inr_iff)
  from r show "fits i" "fits before" by (auto simp: retain_repos_on_def lift_Inr integer_Inr fits_def)
  from d1 show "\<forall>r\<in>set repos. repo_fits r" by (rule each_upsert_repo_fits)
qed

lemma reconciles_each:
  "fold (ie_reconcile_repository (restate_sync bu i listing)) rs w =
     w\<lparr>sw_reconciles := sw_reconciles w @ rs\<rparr>"
  by (induction rs arbitrary: w) (simp_all add: restate_sync_def)

lemma beside_tables:
  assumes "beside_outbox w' = beside_outbox w"
  shows "pr_table (ow_db w') = pr_table (ow_db w)" "repo_table (ow_db w') = repo_table (ow_db w)"
    "sw_reconciles w' = sw_reconciles w" "sw_syncs w' = sw_syncs w"
proof -
  have "db_prs (ow_db w') = db_prs (ow_db w)" "db_repos (ow_db w') = db_repos (ow_db w)"
    using arg_cong [OF assms, of "\<lambda>b. db_prs (fst b)"] arg_cong [OF assms, of "\<lambda>b. db_repos (fst b)"]
    by (simp_all add: beside_outbox_def)
  then show "pr_table (ow_db w') = pr_table (ow_db w)" "repo_table (ow_db w') = repo_table (ow_db w)"
    by (auto simp: pr_table_def repo_table_def fun_eq_iff)
  show "sw_reconciles w' = sw_reconciles w"
    using arg_cong [OF assms, of "\<lambda>b. fst (snd b)"] by (simp add: beside_outbox_def)
  show "sw_syncs w' = sw_syncs w"
    using arg_cong [OF assms, of "\<lambda>b. snd (snd b)"] by (simp add: beside_outbox_def)
qed

text \<open>A sweep that succeeded, taken apart: the listing, the replacement and the drain.\<close>

lemma sweep_parts:
  assumes run: "run_installation_sync (restate_sync bu i listing) (restate_retirements bu) w = (Inr n, w')"
  obtains repos g before keys w1 w2 m w3 where "n = length repos"
    "github_answers listing (ow_remote w) (Inr repos) g" "same_db w w1"
    "before = ow_times w (ow_reads w)"
    "replace_installation_repos i repos before (ow_db w1) = (Inr keys, ow_db w2)" "same_own w1 w2"
    "retire_pending Pruned (restate_retirements bu) w2 = (Inr m, w3)"
    "w' = w3\<lparr>sw_reconciles := sw_reconciles w3 @ repos\<rparr>"
proof -
  let ?E = "restate_sync bu i listing" and ?R = "restate_retirements bu"
  obtain before wa repos wb wc m w3 where parts:
    "ie_now ?E ''installation-reconcile-clock'' w = (Inr before, wa)"
    "ie_list_repositories ?E wa = (Inr repos, wb)"
    "ie_replace_repositories ?E repos before wb = (Inr Pruned, wc)"
    "retire_pending Pruned ?R wc = (Inr m, w3)"
    "w' = fold (ie_reconcile_repository ?E) repos w3" "n = length repos"
    using run unfolding run_installation_sync_def
    by (auto simp: andthen_Inr_iff) (metis (full_types) pruned.exhaust)
  have a: "same_db w wa"
    using run_clock_same [of w] parts(1) by (simp add: restate_sync_def)
  have t: "before = ow_times w (ow_reads w)"
    using parts(1) by (simp add: restate_sync_def run_clock_step_def read_clock_def)
  have b: "same_db wa wb"
    using run_github_same [where w = wa and bu = bu and name = "''list-installation-repositories''"
        and op = OpRead and k = False and call = listing] parts(2)
    by (auto simp: restate_sync_def andthen_Inr_iff)
  have "ow_remote wa = ow_remote w"
    using parts(1) by (auto simp: restate_sync_def run_clock_step_def read_clock_def)
  moreover obtain settled where "run_github_step (restate_github_step bu ''list-installation-repositories''
      OpRead False listing) wa = (Inr settled, wb)" "read_result settled = Inr repos"
    using parts(2) by (auto simp: restate_sync_def andthen_Inr_iff lift_def)
  moreover from this(2) have "settled = SOk repos" by (cases settled) simp_all
  ultimately have l: "github_answers listing (ow_remote w) (Inr repos) (ow_remote wb)"
    using github_step_answered by metis
  obtain keys where k: "run_store_step bu SkOrdinary (replace_installation_repos i repos before) wb = (Inr keys, wc)"
    using parts(3) by (auto simp: restate_sync_def andthen_Inr_iff)
  have undo: "d' = d" if "replace_installation_repos i repos before d = (Inl e, d')" for d e d'
    using that unfolding replace_installation_repos_def by (rule transaction_Inl)
  from run_store_Inr [OF k undo] have r:
    "replace_installation_repos i repos before (ow_db wb) = (Inr keys, ow_db wc)" "same_own wb wc"
    by auto
  show ?thesis
    by (rule that [OF parts(6) l same_db_trans [OF a b] t r parts(4)]) (simp add: parts(5) reconciles_each)
qed

lemma replaced_outbox_sound:
  assumes "outbox_sound d" "db_retirement_sequence d + int (length (db_prs d)) < 2 ^ 63"
    and run: "replace_installation_repos i repos before d = (Inr keys, d')"
  shows "outbox_sound d'"
proof -
  have ok: "db_ok d" using assms(1) by (simp add: outbox_sound_def)
  have ok': "db_ok d'"
    using keeps_replace [of i repos before] ok run unfolding preserves_def by (metis snd_conv)
  obtain d1 where d1: "each_step upsert_repo repos d = (Inr (), d1)" "prs_ok d1"
      "db_prs d1 = db_prs d" "db_retirement_sequence d1 = db_retirement_sequence d"
    using upsert_repos_ok [OF db_ok_parts [OF ok] replace_fits(3) [OF run]] by blast
  let ?gone = "under (left_sel i (map rr_repository_id repos) before) d1"
  have "d' = without_repos (left_sel i (map rr_repository_id repos) before) (Some before) d1"
    using replace_run [OF d1(1,2) replace_fits [OF run]] run by simp
  then have "db_retirement_sequence d' = db_retirement_sequence d + int (length (doomed_keys ?gone d1))"
    by (simp add: without_repos_def with_queued_def touch_prs_def touch_repos_def d1(4))
  moreover have "length (doomed_keys ?gone d1) \<le> length (db_prs d)"
    by (simp add: doomed_keys_def d1(3))
  ultimately show ?thesis using ok' assms(2) by (simp add: outbox_sound_def)
qed

text \<open>
  C11: A sweep that succeeds leaves the projection of its installation as GitHub listed it in its
  last answer: the listed repositories are stored, the unlisted older ones are gone with every pull
  request under them, every pull request that was in the outbox or went now has been told so, in
  order and with its fence, the outbox is empty, and a reconcile is asked of every listed repository.
\<close>

theorem sweep_settles_the_installation:
  assumes "outbox_sound (ow_db w)" and "db_retirement_sequence (ow_db w) + int (length (db_prs (ow_db w))) < 2 ^ 63"
    and "run_installation_sync (restate_sync bu i listing) (restate_retirements bu) w = (Inr n, w')"
  shows "\<exists>repos g before keys listed gone. github_answers listing (ow_remote w) (Inr repos) g \<and>
    n = length repos \<and> before = ow_times w (ow_reads w) \<and>
    listed = fold (\<lambda>r t. t(rr_repository_id r \<mapsto> r)) repos (repo_table (ow_db w)) \<and>
    gone = {r. \<exists>rec. listed r = Some rec \<and> rr_installation_id rec = i \<and>
      rr_synced_at rec < before \<and> r \<notin> rr_repository_id ` set repos} \<and>
    repo_table (ow_db w') = listed |` (- gone) \<and>
    pr_table (ow_db w') = pr_table (ow_db w) |` {k. pk_repository k \<notin> gone} \<and>
    sorted keys \<and> distinct keys \<and> set keys = {k \<in> dom (pr_table (ow_db w)). pk_repository k \<in> gone} \<and>
    outbox_rows (ow_db w') = [] \<and>
    sw_closes w' = sw_closes w @ map close_of (outbox_rows (ow_db w)) @
      map (\<lambda>k. (k, \<lparr>cr_synced_before = Some before\<rparr>)) keys \<and>
    sw_reconciles w' = sw_reconciles w @ repos"
proof -
  obtain repos g before keys w1 w2 m w3 where n: "n = length repos"
    and asked: "github_answers listing (ow_remote w) (Inr repos) g" and w1: "same_db w w1"
    and t: "before = ow_times w (ow_reads w)"
    and run: "replace_installation_repos i repos before (ow_db w1) = (Inr keys, ow_db w2)"
    and own: "same_own w1 w2"
    and drain: "retire_pending Pruned (restate_retirements bu) w2 = (Inr m, w3)"
    and w': "w' = w3\<lparr>sw_reconciles := sw_reconciles w3 @ repos\<rparr>"
    using assms(3) by (rule sweep_parts)
  have db: "ow_db w1 = ow_db w" using w1 by (simp add: same_db_def)
  note run = run [unfolded db] and fits = replace_fits [OF run [unfolded db]]
  have ok: "db_ok (ow_db w)" using assms(1) by (simp add: outbox_sound_def)
  let ?listed = "fold (\<lambda>r t. t(rr_repository_id r \<mapsto> r)) repos (repo_table (ow_db w))"
  let ?gone = "{r. \<exists>rec. ?listed r = Some rec \<and> rr_installation_id rec = i \<and>
      rr_synced_at rec < before \<and> r \<notin> rr_repository_id ` set repos}"
  have effect: "repo_table (ow_db w2) = ?listed |` (- ?gone)"
    "pr_table (ow_db w2) = pr_table (ow_db w) |` {k. pk_repository k \<notin> ?gone}"
    "sorted keys" "distinct keys" "set keys = {k \<in> dom (pr_table (ow_db w)). pk_repository k \<in> ?gone}"
    "retirement_queue (ow_db w2) = retirement_queue (ow_db w) @ map (\<lambda>k. (k, Some (uint before))) keys"
    using replace_effect [OF ok fits] unfolding run prod.inject sum.inject by blast+
  have "outbox_sound (ow_db w2)"
    by (rule replaced_outbox_sound [OF assms(1,2) run])
  from outbox.drained [OF conjI [OF this refl] drain]
  have drained: "outbox_rows (ow_db w3) = []" "beside_outbox w3 = beside_outbox w2"
      "sw_closes w3 = sw_closes w2 @ map close_of (outbox_rows (ow_db w2))" by auto
  have same: "sw_closes w2 = sw_closes w" "sw_reconciles w2 = sw_reconciles w"
    using more_sweep [of w1 w] more_sweep [of w2 w1] w1 own by (simp_all add: same_db_def same_own_def)
  have closes: "map close_of (outbox_rows (ow_db w2)) = map close_of (outbox_rows (ow_db w)) @
      map (\<lambda>k. (k, \<lparr>cr_synced_before = Some before\<rparr>)) keys"
    unfolding closes_of_queue effect(6) by (simp add: close_queued_def)
  have frame: "pr_table (ow_db w') = pr_table (ow_db w2)" "repo_table (ow_db w') = repo_table (ow_db w2)"
    "sw_reconciles w' = sw_reconciles w @ repos" "outbox_rows (ow_db w') = []" "sw_closes w' = sw_closes w3"
    using beside_tables [OF drained(2)] drained(1) same(2) by (simp_all add: w')
  show ?thesis
    by (rule exI [of _ repos], rule exI [of _ g], rule exI [of _ before], rule exI [of _ keys], rule exI [of _ ?listed],
        rule exI [of _ ?gone], intro conjI asked n t refl)
      (simp_all only: effect(1-5) frame drained(3) closes same(1))
qed

definition nothing_listed :: "unit \<Rightarrow> (github_error + repo_record list) \<times> unit" where
  "nothing_listed g = (Inr [], g)"

definition acme_world :: "unit sweep_world" where
  "acme_world = queued_world\<lparr>ow_db := acme_db\<rparr>"

lemma run_store_ok:
  assumes "ow_faults w = []" "op (ow_db w) = (Inr a, d)"
  shows "run_store_step bu kind op w = (Inr a, w\<lparr>ow_db := d\<rparr>)"
proof -
  have call: "store_call op w = (Inr a, w\<lparr>ow_db := d\<rparr>)"
    using assms by (simp add: store_call_def)
  then show ?thesis
    unfolding run_store_step_def or_terminal_def by (cases "bu_store bu kind") simp_all
qed

lemma close_each_world:
  "close_each (restate_retirements bu) rs w = w\<lparr>sw_closes := sw_closes w @ map close_of rs\<rparr>"
  by (induction rs arbitrary: w) (simp_all add: restate_retirements_def close_of_def)

lemma drain_succeeds:
  fixes w :: "'g sweep_world"
  assumes "outbox_sound (ow_db w)" "ow_faults w = []"
  shows "\<exists>n w'. retire_pending Pruned (restate_retirements bu) w = (Inr n, w')"
proof (cases "outbox_rows (ow_db w) = []")
  let ?R = "restate_retirements bu :: 'g sweep_world retirement_effects"
  have "outbox_ok (ow_db w)" using assms(1) by (simp add: outbox_sound_def db_ok_def)
  then have pending: "re_pending ?R w = (Inr (outbox_rows (ow_db w)), w)"
    using run_store_ok [OF assms(2) pending_retirements_rows] by (simp add: restate_retirements_def)
  {
    case True
    with pending show ?thesis by (simp add: retire_pending_def andthen_def ok_def)
  next
    case False
    let ?w = "w\<lparr>sw_closes := sw_closes w @ map close_of (outbox_rows (ow_db w))\<rparr>"
    let ?last = "rt_id (last (outbox_rows (ow_db w)))"
    have "?last \<in> set (map rt_id (outbox_rows (ow_db w)))" using False by simp
    then obtain y where y: "y \<in> set (db_retirements (ow_db w))" "?last = of_int (y_id y)"
      unfolding outbox_rows_ids(1) [OF assms(1)] by auto
    with outbox_rows_ids(2) [OF assms(1)] have "0 < y_id y" "y_id y < 2 ^ 63" by auto
    then have u: "uint ?last = y_id y" by (simp only: y(2) uint_of_id)
    have "fits ?last"
      unfolding fits_def using u \<open>y_id y < 2 ^ 63\<close> by (simp add: unat_eq_nat_uint nat_less_iff)
    then obtain d where d: "acknowledge_retirements ?last (ow_db ?w) = (Inr (), d)"
      by (simp add: acknowledge_retirements_def andthen_def)
    have "run_store_step bu SkOrdinary (acknowledge_retirements ?last) ?w = (Inr (), ?w\<lparr>ow_db := d\<rparr>)"
      by (rule run_store_ok) (use assms(2) d in simp_all)
    then have "re_acknowledge ?R ?last ?w = (Inr (), ?w\<lparr>ow_db := d\<rparr>)"
      by (simp add: restate_retirements_def)
    with pending False show ?thesis
      by (simp add: retire_pending_def andthen_def close_each_world)
  }
qed

theorem sweep_settles_the_installation_witness:
  "\<exists>w'. run_installation_sync (restate_sync never_again 5 nothing_listed)
     (restate_retirements never_again) acme_world = (Inr 0, w') \<and>
     pr_table (ow_db w') (PrKey 1 7) = None \<and>
     (PrKey 1 7, \<lparr>cr_synced_before = Some 100\<rparr>) \<in> set (sw_closes w')"
proof -
  have ok: "outbox_sound (ow_db acme_world)"
    "db_retirement_sequence (ow_db acme_world) + int (length (db_prs (ow_db acme_world))) < 2 ^ 63"
    using acme_ok by (simp_all add: acme_world_def outbox_sound_def acme_rows)
  have f: "fits 5" "fits 100" "\<forall>r\<in>set ([] :: repo_record list). repo_fits r" by (simp_all add: fits_def)
  from replace_effect [OF acme_ok f] obtain keys d where
    d: "replace_installation_repos 5 [] 100 acme_db = (Inr keys, d)" by blast
  let ?R = "restate_retirements never_again" and ?E = "restate_sync never_again 5 nothing_listed"
  let ?w = "acme_world\<lparr>ow_reads := Suc (Suc 0), ow_db := d\<rparr>"
  have "outbox_sound (ow_db ?w)"
    using replaced_outbox_sound [OF ok, of 5 "[]" 100 keys d] d by (simp add: acme_world_def)
  then obtain n w2 where w2: "retire_pending Pruned ?R ?w = (Inr n, w2)"
    using drain_succeeds [of ?w never_again] by (auto simp: acme_world_def queued_world_def)
  have "run_store_step never_again SkOrdinary (replace_installation_repos 5 [] 100)
      (acme_world\<lparr>ow_reads := Suc (Suc 0)\<rparr>) = (Inr keys, ?w)"
    using run_store_ok [of "acme_world\<lparr>ow_reads := Suc (Suc 0)\<rparr>", OF _ , of "replace_installation_repos 5 [] 100" keys d] d
    by (simp add: acme_world_def queued_world_def)
  then have run: "run_installation_sync ?E ?R acme_world = (Inr 0, w2)"
    using w2 by (simp add: run_installation_sync_def restate_sync_def andthen_def run_clock_step_def
        read_clock_def acme_world_def queued_world_def run_github_step_def max_waits restate_github_step_def
        or_terminal_def github_attempt_def journal_github_result_def never_again_def nothing_listed_def
        Let_def ok_def lift_def put_def)
  from sweep_settles_the_installation [OF ok run] show ?thesis
    unfolding run
    by (auto simp: acme_world_def queued_world_def acme_tables acme_repo_def outbox_rows_def acme_rows)
qed

end
