(* ===== verification/Bulk_Action.thy ===== *)
theory Bulk_Action
  imports Restate_World Merge_Rounds Store_Contract "HOL-Library.Multiset"
begin

text \<open>
  The \<open>BulkAction\<close> workflow (\<^verbatim>\<open>apps/restate-service/src/bulk_action.rs\<close>): a batch is listed
  as running, its targets are driven to a verdict in rounds (merges and branch updates) or one
  by one (rebases), every change of its progress is published, and the finished batch is
  recorded; one that ends unfinished is taken off the list. \<open>bulk_effects\<close> has one field per
  function of the trait \<open>BulkActionEffects\<close>; the handlers run over the pair of the progress
  (the \<open>&mut\<close> of the source) and the world. \<open>bulk_calls\<close> is the contract the workflow relies on.
\<close>

section \<open>Effects\<close>

type_synonym call_outcome = "string + action_outcome"
type_synonym 'w bulk = "batch_progress \<times> 'w"
type_synonym 'w landing = "nat \<Rightarrow> call_outcome \<Rightarrow> 'w bulk \<Rightarrow> 'w bulk"

record 'w bulk_effects =
  be_batch_id :: string
  be_merge_round :: "pr_target list \<Rightarrow> 'w landing \<Rightarrow> ('w bulk, unit) handler"
  be_update_branch_round :: "pr_target list \<Rightarrow> 'w landing \<Rightarrow> ('w bulk, unit) handler"
  be_rebase :: "pr_target \<Rightarrow> 'w \<Rightarrow> call_outcome \<times> 'w"
  be_pause :: "('w, unit) handler"
  be_now :: "string \<Rightarrow> ('w, u64) handler"
  be_start_batch :: "running_batch \<Rightarrow> ('w, unit) handler"
  be_unlist_batch :: "('w, unit) handler"
  be_record_batch :: "batch_record \<Rightarrow> ('w, unit) handler"

definition MAX_CONCURRENT :: nat where "MAX_CONCURRENT = 3"

definition on_world :: "('w, 'a) handler \<Rightarrow> ('w bulk, 'a) handler" where
  "on_world m = (\<lambda>(p, w). case m w of (r, w') \<Rightarrow> (r, (p, w')))"

section \<open>The workflow\<close>

definition settle_target :: "batch_progress \<Rightarrow> pr_target \<Rightarrow> call_outcome \<Rightarrow> batch_progress" where
  "settle_target p target outcome =
     (case outcome of
        Inr outcome \<Rightarrow> record_outcome p (target_key target) outcome
      | Inl detail \<Rightarrow> record_failure p (target_key target) detail)"

definition start_round :: "(batch_progress \<Rightarrow> 'w \<Rightarrow> 'w) \<Rightarrow> pr_target list \<Rightarrow> 'w bulk \<Rightarrow> 'w bulk" where
  "start_round publish round = (\<lambda>(p, w).
     let p' = fold (\<lambda>t p. start_target p (target_key t)) round p in (p', publish p' w))"

definition land_target :: "(batch_progress \<Rightarrow> 'w \<Rightarrow> 'w) \<Rightarrow> pr_target list \<Rightarrow> 'w landing" where
  "land_target publish round index outcome = (\<lambda>(p, w).
     let p' = settle_target p (round ! index) outcome in (p', publish p' w))"

text \<open>\<open>slice::chunks\<close>: pieces of \<open>n\<close>, the last one possibly shorter.\<close>

function chunks :: "nat \<Rightarrow> 'a list \<Rightarrow> 'a list list" where
  "chunks n xs = (if xs = [] \<or> n = 0 then [] else take n xs # chunks n (drop n xs))"
  by pat_completeness auto
termination
  by (relation "measure (\<lambda>(n, xs). length xs)") auto

declare chunks.simps [simp del]

primrec run_rounds ::
    "(pr_target list \<Rightarrow> 'w landing \<Rightarrow> ('w bulk, unit) handler) \<Rightarrow> (batch_progress \<Rightarrow> 'w \<Rightarrow> 'w) \<Rightarrow>
     pr_target list list \<Rightarrow> ('w bulk, unit) handler" where
  "run_rounds send publish [] = ok ()"
| "run_rounds send publish (round # rounds) =
     andthen (put (start_round publish round)) (\<lambda>_.
     andthen (send round (land_target publish round)) (\<lambda>_.
       run_rounds send publish rounds))"

definition rebase_one :: "'w bulk_effects \<Rightarrow> (batch_progress \<Rightarrow> 'w \<Rightarrow> 'w) \<Rightarrow> pr_target \<Rightarrow> 'w bulk \<Rightarrow> 'w bulk" where
  "rebase_one E publish target = (\<lambda>(p, w).
     let p1 = start_target p (target_key target);
         (outcome, w1) = be_rebase E target (publish p1 w);
         p2 = settle_target p1 target outcome
     in (p2, publish p2 w1))"

primrec run_rebases ::
    "'w bulk_effects \<Rightarrow> (batch_progress \<Rightarrow> 'w \<Rightarrow> 'w) \<Rightarrow> pr_target list \<Rightarrow> ('w bulk, unit) handler" where
  "run_rebases E publish [] = ok ()"
| "run_rebases E publish (target # rest) =
     andthen (put (rebase_one E publish target)) (\<lambda>_.
     andthen (\<lambda>s. if bp_completed (fst s) then (Inr (), s) else on_world (be_pause E) s) (\<lambda>_.
       run_rebases E publish rest))"

definition drive_targets ::
    "'w bulk_effects \<Rightarrow> (batch_progress \<Rightarrow> 'w \<Rightarrow> 'w) \<Rightarrow> bulk_request \<Rightarrow> ('w bulk, unit) handler" where
  "drive_targets E publish request =
     (case bq_action request of
        BkMerge \<Rightarrow> run_rounds (be_merge_round E) publish
          (plan_merge_rounds (bq_targets request) MAX_CONCURRENT)
      | BkUpdateBranch \<Rightarrow> run_rounds (be_update_branch_round E) publish
          (chunks MAX_CONCURRENT (bq_targets request))
      | BkRebase \<Rightarrow> run_rebases E publish (bq_targets request))"

definition finish_batch ::
    "'w bulk_effects \<Rightarrow> u64 \<Rightarrow> bulk_request \<Rightarrow> u64 \<Rightarrow> ('w bulk, unit) handler" where
  "finish_batch E installation_id request started_at =
     andthen (on_world (be_now E ''batch-finish-clock'')) (\<lambda>completed_at.
     andthen (\<lambda>s. (case completed_record (fst s) installation_id (bq_user_id request)
                       (bq_retried_from request) started_at completed_at of
                     None \<Rightarrow> Inl (Terminal ''every target was attempted, yet the batch is not complete'')
                   | Some r \<Rightarrow> Inr r, s)) (\<lambda>r.
       on_world (be_record_batch E r)))"

definition drive ::
    "'w bulk_effects \<Rightarrow> u64 \<Rightarrow> bulk_request \<Rightarrow> (batch_progress \<Rightarrow> 'w \<Rightarrow> 'w) \<Rightarrow> u64 \<Rightarrow>
     ('w bulk, unit) handler" where
  "drive E installation_id request publish started_at =
     andthen (drive_targets E publish request) (\<lambda>_.
       finish_batch E installation_id request started_at)"

definition running_of :: "batch_progress \<Rightarrow> u64 \<Rightarrow> bulk_request \<Rightarrow> u64 \<Rightarrow> running_batch" where
  "running_of progress installation_id request started_at =
     \<lparr>rb_batch_id = bp_batch_id progress, rb_installation_id = installation_id,
      rb_action = bq_action request, rb_requested_by = bq_user_id request,
      rb_retried_from = bq_retried_from request, rb_started_at = started_at,
      rb_target_count = of_nat (length (bq_targets request))\<rparr>"

text \<open>A batch that ended in error before it completed is unlisted; that it could not be is only logged.\<close>

definition unlist_unfinished ::
    "'w bulk_effects \<Rightarrow> (handler_error + unit) \<times> 'w bulk \<Rightarrow> 'w" where
  "unlist_unfinished E = (\<lambda>(outcome, (p, w)).
     if isl outcome \<and> \<not> bp_completed p then snd (be_unlist_batch E w) else w)"

definition run_bulk_action ::
    "'w bulk_effects \<Rightarrow> u64 \<Rightarrow> bulk_request \<Rightarrow> (batch_progress \<Rightarrow> 'w \<Rightarrow> 'w) \<Rightarrow>
     ('w, batch_progress) handler" where
  "run_bulk_action E installation_id request publish =
     andthen (be_now E ''batch-start-clock'') (\<lambda>started_at w.
       let progress = queued (be_batch_id E) (bq_action request) (bq_targets request);
           w1 = publish progress w;
           w2 = snd (be_start_batch E (running_of progress installation_id request started_at) w1);
           result = drive E installation_id request publish started_at (progress, w2)
       in (case fst result of Inl e \<Rightarrow> Inl e | Inr _ \<Rightarrow> Inr (fst (snd result)),
           unlist_unfinished E result))"

definition run_workflow ::
    "(string \<Rightarrow> nat option) \<Rightarrow> 'w bulk_effects \<Rightarrow> u64 \<Rightarrow> bulk_request \<Rightarrow> (batch_progress \<Rightarrow> 'w \<Rightarrow> 'w) \<Rightarrow>
     ('w, batch_progress) handler" where
  "run_workflow uuid_version E installation_id request publish =
     andthen (lift (case validate_request uuid_version request (be_batch_id E) of
         Inl invalid \<Rightarrow> Inl (Terminal (display_invalid_batch invalid)) | Inr u \<Rightarrow> Inr u))
       (\<lambda>_. run_bulk_action E installation_id request publish)"

text \<open>What the handler logs of a batch that ended.\<close>

definition progress_outcome :: "batch_progress \<Rightarrow> string" where
  "progress_outcome p =
     show_u64 (bp_succeeded p) @ '' succeeded, '' @ show_u64 (bp_rejected p) @ '' rejected, '' @
     show_u64 (bp_failed p) @ '' failed of '' @ show_nat (length (bp_targets p)) @ '' targets''"

section \<open>The workflow in Restate\<close>

text \<open>The calls a workflow makes of pull request objects, with the key of the object.\<close>

datatype pr_call =
    CallMerge merge_request | CallUpdateBranch update_branch_request | CallCommand command_request

text \<open>
  Each await of the workflow takes the next entry of \<open>bw_awaits\<close>: which of the calls still out
  completes first, or \<open>None\<close> when the workflow is cancelled there. \<open>bw_answers\<close> are the calls
  completed, \<open>bw_published\<close> the values the key \<open>progress\<close> was set to, \<open>bw_warned\<close> the ages at
  which a record still unwritten was logged.
\<close>

record 'g bulk_world = "'g restate_world" +
  bw_awaits :: "nat option list"
  bw_answers :: "((string \<times> pr_call) \<times> call_outcome) list"
  bw_published :: "batch_progress list"
  bw_warned :: "u64 list"

text \<open>The pull request objects: a call acts on their own states and GitHub, and on the store.\<close>

type_synonym 'g callee = "string \<times> pr_call \<Rightarrow> 'g \<times> db \<Rightarrow> call_outcome \<times> 'g \<times> db"

definition next_await :: "('g, 'm) bulk_world_scheme \<Rightarrow> nat option \<times> ('g, 'm) bulk_world_scheme" where
  "next_await w =
     (case bw_awaits w of [] \<Rightarrow> (Some 0, w) | a # rest \<Rightarrow> (a, w\<lparr>bw_awaits := rest\<rparr>))"

definition complete_call ::
    "'g callee \<Rightarrow> string \<times> pr_call \<Rightarrow> ('g, 'm) bulk_world_scheme \<Rightarrow> call_outcome \<times> ('g, 'm) bulk_world_scheme" where
  "complete_call callee call w =
     (case callee call (ow_remote w, ow_db w) of
        (outcome, g, d) \<Rightarrow> (outcome, w\<lparr>ow_remote := g, ow_db := d, bw_answers := bw_answers w @ [(call, outcome)]\<rparr>))"

text \<open>What is left of a list once the entry at \<open>k\<close> is taken out.\<close>

definition without :: "nat \<Rightarrow> 'a list \<Rightarrow> 'a list" where
  "without k xs = take k xs @ drop (Suc k) xs"

lemma length_without [simp]: "k < length xs \<Longrightarrow> length (without k xs) = length xs - 1"
  by (simp add: without_def)

lemma mset_without: "k < length xs \<Longrightarrow> mset xs = {#xs ! k#} + mset (without k xs)"
  by (metis add.commute id_take_nth_drop mset_append mset.simps(2) union_mset_add_mset_right
      union_mset_add_mset_left without_def add_mset_add_single)

lemma mod_length_less [simp]: "xs \<noteq> [] \<Longrightarrow> n mod length xs < length xs"
  by simp

text \<open>\<open>land_round\<close>: the calls of the round with their indices, completed in the order the awaits choose.\<close>

function land_round ::
    "'g callee \<Rightarrow> string \<Rightarrow> (nat \<times> string \<times> pr_call) list \<Rightarrow> ('g, 'm) bulk_world_scheme landing \<Rightarrow>
     (('g, 'm) bulk_world_scheme bulk, unit) handler" where
  "land_round callee cancelled calls landed (p, w) =
     (if calls = [] then (Inr (), (p, w))
      else
        case next_await w of
          (None, w1) \<Rightarrow> (Inl (Terminal cancelled), (p, w1))
        | (Some n, w1) \<Rightarrow>
            let k = n mod length calls;
                (outcome, w2) = complete_call callee (snd (calls ! k)) w1
            in land_round callee cancelled (without k calls) landed
                 (landed (fst (calls ! k)) outcome (p, w2)))"
  by pat_completeness auto
termination
  by (relation "measure (\<lambda>(c, m, calls, l, s). length calls)") (simp_all)

declare land_round.simps [simp del]

definition merge_call :: "string \<Rightarrow> pr_target \<Rightarrow> string \<times> pr_call" where
  "merge_call batch_id target =
     (display_pr_key (target_key target), CallMerge \<lparr>mr_batch_id = batch_id, mr_target = target\<rparr>)"

definition update_branch_call :: "string \<Rightarrow> pr_target \<Rightarrow> string \<times> pr_call" where
  "update_branch_call batch_id target =
     (display_pr_key (target_key target),
      CallUpdateBranch \<lparr>ub_batch_id = batch_id, ub_target = target\<rparr>)"

definition rebase_call :: "string \<Rightarrow> string \<Rightarrow> pr_target \<Rightarrow> string \<times> pr_call" where
  "rebase_call batch_id user_id target =
     (display_pr_key (target_key target),
      CallCommand \<lparr>cq_batch_id = batch_id, cq_target = target, cq_user_id = user_id,
        cq_command = DcRebase\<rparr>)"

text \<open>How long a record may go unwritten before its failed attempts are logged, in seconds.\<close>

definition RECORD_PENDING_QUIETLY_FOR :: u64 where "RECORD_PENDING_QUIETLY_FOR = 30"

definition warn_if_record_stuck ::
    "batch_record \<Rightarrow> u64 \<Rightarrow> ('g, 'm) bulk_world_scheme \<Rightarrow> ('g, 'm) bulk_world_scheme" where
  "warn_if_record_stuck r now w =
     (let pending_for = sat_sub now (bc_completed_at r)
      in if pending_for \<le> RECORD_PENDING_QUIETLY_FOR then w
         else w\<lparr>bw_warned := bw_warned w @ [pending_for]\<rparr>)"

text \<open>One attempt at the record: a failed one reads the clock and may be logged.\<close>

definition record_attempt :: "batch_record \<Rightarrow> (('g, 'm) bulk_world_scheme, unit) handler" where
  "record_attempt r w =
     (case store_call (record_batch r) w of
        (Inr u, w1) \<Rightarrow> (Inr u, w1)
      | (Inl e, w1) \<Rightarrow>
          (case read_clock w1 of
             (now, w2) \<Rightarrow> (Inl (read_failure SkLastChance e), warn_if_record_stuck r now w2)))"

definition restate_bulk ::
    "budgets \<Rightarrow> 'g callee \<Rightarrow> string \<Rightarrow> string \<Rightarrow> string \<Rightarrow> ('g, 'm) bulk_world_scheme bulk_effects" where
  "restate_bulk bu callee cancelled batch_id user_id =
     \<lparr>be_batch_id = batch_id,
      be_merge_round = (\<lambda>targets.
        land_round callee cancelled (enumerate 0 (map (merge_call batch_id) targets))),
      be_update_branch_round = (\<lambda>targets.
        land_round callee cancelled (enumerate 0 (map (update_branch_call batch_id) targets))),
      be_rebase = (\<lambda>target w.
        case next_await w of
          (None, w1) \<Rightarrow>
            (Inl cancelled, w1\<lparr>bw_answers := bw_answers w1 @ [(rebase_call batch_id user_id target, Inl cancelled)]\<rparr>)
        | (Some n, w1) \<Rightarrow> complete_call callee (rebase_call batch_id user_id target) w1),
      be_pause = (\<lambda>w. case next_await w of
          (None, w1) \<Rightarrow> (Inl (Terminal cancelled), w1) | (Some n, w1) \<Rightarrow> (Inr (), w1)),
      be_now = (\<lambda>_. run_clock_step),
      be_start_batch = (\<lambda>batch. run_store_step bu SkBrief (start_batch batch)),
      be_unlist_batch = run_store_step bu SkOrdinary (unlist_batch batch_id),
      be_record_batch = (\<lambda>r. or_terminal (restate_run (bu_store bu SkLastChance) (record_attempt r)))\<rparr>"

text \<open>\<open>ctx.set(BATCH_PROGRESS, ..)\<close>, and the shared handler that reads it back.\<close>

definition publish_progress :: "batch_progress \<Rightarrow> ('g, 'm) bulk_world_scheme \<Rightarrow> ('g, 'm) bulk_world_scheme" where
  "publish_progress p w = w\<lparr>bw_published := bw_published w @ [p]\<rparr>"

definition read_progress :: "('g, 'm) bulk_world_scheme \<Rightarrow> batch_progress option" where
  "read_progress w = (if bw_published w = [] then None else Some (last (bw_published w)))"

section \<open>What the progress shows\<close>

fun verdict_of :: "call_outcome \<Rightarrow> progress_state" where
  "verdict_of (Inl detail) = PFailed detail"
| "verdict_of (Inr (Succeeded d m)) = PSucceeded d m"
| "verdict_of (Inr (Rejected r)) = PRejected r"

lemma verdict_of_outcome [simp]: "state_outcome (verdict_of r) \<noteq> None"
  by (cases r rule: verdict_of.cases) auto

lemma settle_target_set: "settle_target p t r = set_state p (target_key t) (verdict_of r)"
  by (cases r rule: verdict_of.cases)
    (simp_all add: settle_target_def record_outcome_def record_failure_def)

text \<open>The state of each target once some have answered and others are being called.\<close>

definition states_of ::
    "(pr_target \<times> call_outcome) list \<Rightarrow> pr_target set \<Rightarrow> pr_target \<Rightarrow> progress_state" where
  "states_of new busy t =
     (case map_of new t of Some r \<Rightarrow> verdict_of r | None \<Rightarrow> if t \<in> busy then Running else Queued)"

definition shows_states ::
    "string \<Rightarrow> bulk_action_kind \<Rightarrow> pr_target list \<Rightarrow> (pr_target \<Rightarrow> progress_state) \<Rightarrow> batch_progress \<Rightarrow> bool" where
  "shows_states b a T st p \<longleftrightarrow> bp_batch_id p = b \<and> bp_action p = a \<and> tally_ok p \<and>
     bp_targets p = map (\<lambda>t. \<lparr>tp_target = t, tp_state = st t\<rparr>) T"

lemma shows_queued:
  "T \<noteq> [] \<Longrightarrow> length T < 2 ^ 64 \<Longrightarrow> shows_states b a T (states_of [] {}) (queued b a T)"
  by (simp add: shows_states_def tally_queued) (simp add: queued_def states_of_def)

lemma shows_set_state:
  assumes p: "shows_states b a T st p" and T: "distinct (map target_key T)" and t: "t \<in> set T"
    and fresh: "state_outcome (st t) = None"
  shows "shows_states b a T (st(t := s)) (set_state p (target_key t) s)"
proof -
  have ts: "bp_targets p = map (\<lambda>t. \<lparr>tp_target = t, tp_state = st t\<rparr>) T"
    using p by (simp add: shows_states_def)
  from t obtain us vs where split: "T = us @ t # vs" by (meson split_list)
  with T have "target_key t \<notin> target_key ` (set us \<union> set vs)" by auto
  then have other: "\<forall>u\<in>set us \<union> set vs. target_key u \<noteq> target_key t" by (metis imageI)
  let ?row = "\<lambda>t. \<lparr>tp_target = t, tp_state = st t\<rparr>"
  have row: "\<forall>u\<in>set (map ?row us). \<not> at_key (target_key t) u" "at_key (target_key t) (?row t)"
    using other by (auto simp: at_key_def)
  have "find (at_key (target_key t)) (map ?row us @ ?row t # map ?row vs) = Some (?row t)"
    using row by (induction us) (auto simp: at_key_def)
  then have "bp_targets (set_state p (target_key t) s) =
      map ?row us @ (?row t)\<lparr>tp_state := s\<rparr> # map ?row vs"
    using fresh update_first_split [OF row] by (simp add: set_state_def ts split Let_def)
  also have "\<dots> = map (\<lambda>u. \<lparr>tp_target = u, tp_state = (st(t := s)) u\<rparr>) T"
    using other by (auto simp: split)
  finally show ?thesis using p tally_set_state by (simp add: shows_states_def)
qed

lemma states_of_answer:
  assumes "t \<notin> fst ` set new"
  shows "states_of (new @ [(t, r)]) busy = (states_of new busy)(t := verdict_of r)"
proof
  fix x
  have none: "map_of new t = None" using assms by (simp add: map_of_eq_None_iff)
  show "states_of (new @ [(t, r)]) busy x = ((states_of new busy)(t := verdict_of r)) x"
    using none by (cases "x = t"; cases "map_of new x") (simp_all add: states_of_def map_add_def)
qed

lemma states_of_unanswered:
  "t \<notin> fst ` set new \<Longrightarrow> states_of new busy t = (if t \<in> busy then Running else Queued)"
  by (metis map_of_eq_None_iff option.simps(4) states_of_def)

lemma states_of_busy:
  "t \<notin> fst ` set new \<Longrightarrow> states_of new (insert t busy) = (states_of new busy)(t := Running)"
  by (rule ext) (simp add: states_of_unanswered, simp add: states_of_def split: option.split)

lemma shows_settle:
  assumes "shows_states b a T (states_of new busy) p" "distinct (map target_key T)" "t \<in> set T"
    and "t \<notin> fst ` set new"
  shows "shows_states b a T (states_of (new @ [(t, r)]) busy) (settle_target p t r)"
  using shows_set_state [OF assms(1-3), of "verdict_of r"] assms(4)
  by (simp add: settle_target_set states_of_answer states_of_unanswered)

lemma shows_start:
  assumes "shows_states b a T (states_of new busy) p" "distinct (map target_key T)" "t \<in> set T"
    and "t \<notin> fst ` set new"
  shows "shows_states b a T (states_of new (insert t busy)) (start_target p (target_key t))"
  using shows_set_state [OF assms(1-3), of Running] assms(4)
  by (simp add: start_target_def states_of_busy states_of_unanswered)

lemma shows_starts:
  assumes "shows_states b a T (states_of new busy) p" "distinct (map target_key T)"
    and "set ts \<subseteq> set T" and "set ts \<inter> fst ` set new = {}"
  shows "shows_states b a T (states_of new (busy \<union> set ts))
    (fold (\<lambda>t p. start_target p (target_key t)) ts p)"
  using assms(1,3,4)
proof (induction ts arbitrary: p busy)
  case (Cons t ts)
  from Cons.prems have "shows_states b a T (states_of new (insert t busy)) (start_target p (target_key t))"
    by (intro shows_start [OF _ assms(2)]) auto
  from Cons.IH [OF this] Cons.prems show ?case by simp
qed simp

text \<open>Who is being called, as the published progress shows it.\<close>

definition in_flight :: "batch_progress \<Rightarrow> pr_target list" where
  "in_flight p = map tp_target (filter (\<lambda>t. tp_state t = Running) (bp_targets p))"

lemma in_flight_states:
  assumes "shows_states b a T (states_of new busy) p" "distinct T"
  shows "distinct (in_flight p)" and "set (in_flight p) \<subseteq> busy"
proof -
  have eq: "in_flight p = filter (\<lambda>t. states_of new busy t = Running) T"
    using assms(1) by (simp add: in_flight_def shows_states_def filter_map comp_def)
  show "distinct (in_flight p)" using assms(2) by (simp add: eq)
  show "set (in_flight p) \<subseteq> busy"
    unfolding eq
    by (auto simp: states_of_def split: option.splits if_splits elim!: verdict_of.elims dest: sym)
qed


section \<open>The groups a batch goes out in\<close>

text \<open>The targets that may be in flight together: those of one round, or one alone.\<close>

definition groups_of :: "bulk_request \<Rightarrow> pr_target list set" where
  "groups_of request = insert []
     (case bq_action request of
        BkMerge \<Rightarrow> set (plan_merge_rounds (bq_targets request) MAX_CONCURRENT)
      | BkUpdateBranch \<Rightarrow> set (chunks MAX_CONCURRENT (bq_targets request))
      | BkRebase \<Rightarrow> (\<lambda>t. [t]) ` set (bq_targets request))"

lemma chunks_eqs:
  "chunks n [] = []" "chunks 0 xs = []"
  "xs \<noteq> [] \<Longrightarrow> 0 < n \<Longrightarrow> chunks n xs = take n xs # chunks n (drop n xs)"
  by (subst chunks.simps; simp)+

lemma concat_chunks: "0 < n \<Longrightarrow> concat (chunks n xs) = xs"
proof (induction n xs rule: chunks.induct)
  case (1 n xs)
  then show ?case by (cases "xs = []") (simp_all add: chunks_eqs)
qed

lemma chunks_length: "c \<in> set (chunks n xs) \<Longrightarrow> length c \<le> n"
proof (induction n xs rule: chunks.induct)
  case (1 n xs)
  show ?case
  proof (cases "xs = [] \<or> n = 0")
    case True
    then show ?thesis using "1.prems" by (auto simp: chunks_eqs)
  next
    case False
    then have "c = take n xs \<or> c \<in> set (chunks n (drop n xs))"
      using "1.prems" by (simp add: chunks_eqs)
    then show ?thesis using "1.IH" False by auto
  qed
qed

lemma groups_bounded:
  assumes "g \<in> groups_of request"
  shows "length g \<le> MAX_CONCURRENT \<and>
    (bq_action request = BkMerge \<longrightarrow> distinct (map tg_repository_id g)) \<and>
    (bq_action request = BkRebase \<longrightarrow> length g \<le> 1)"
  using assms plan_rounds_shape [of MAX_CONCURRENT g "bq_targets request"] chunks_length
  by (auto simp: groups_of_def MAX_CONCURRENT_def split: bulk_action_kind.splits)

section \<open>The contract of the calls\<close>

text \<open>
  What one round does, by the outcomes it handed over: each is the answer of one call of the
  round and is handed to the callback with the index of its target; nothing else of what the
  workflow sees changes.
\<close>

fun lands ::
    "('w \<Rightarrow> (pr_target \<times> call_outcome) list) \<Rightarrow> ('w \<Rightarrow> batch_progress list) \<Rightarrow> pr_target list \<Rightarrow>
     'w landing \<Rightarrow> (nat \<times> call_outcome) list \<Rightarrow> 'w bulk \<Rightarrow> 'w bulk \<Rightarrow> bool" where
  "lands answers seen round landed [] s s' \<longleftrightarrow>
     fst s' = fst s \<and> answers (snd s') = answers (snd s) \<and> seen (snd s') = seen (snd s)"
| "lands answers seen round landed (c # cs) s s' \<longleftrightarrow>
     fst c < length round \<and>
     (\<exists>w. answers w = answers (snd s) @ [(round ! fst c, snd c)] \<and> seen w = seen (snd s) \<and>
          lands answers seen round landed cs (landed (fst c) (snd c) (fst s, w)) s')"

definition sends_round ::
    "('w \<Rightarrow> (pr_target \<times> call_outcome) list) \<Rightarrow> ('w \<Rightarrow> batch_progress list) \<Rightarrow>
     (pr_target list \<Rightarrow> 'w landing \<Rightarrow> ('w bulk, unit) handler) \<Rightarrow> bool" where
  "sends_round answers seen send \<longleftrightarrow>
     (\<forall>round landed s r s'. send round landed s = (r, s') \<longrightarrow>
        (\<exists>cs. lands answers seen round landed cs s s' \<and> distinct (map fst cs) \<and>
              (r = Inr () \<longrightarrow> length cs = length round)))"

lemma lands_indices:
  "lands answers seen round landed cs s s' \<Longrightarrow> c \<in> set cs \<Longrightarrow> fst c < length round"
proof (induction cs arbitrary: s)
  case (Cons d cs)
  then obtain w where "fst d < length round"
    "lands answers seen round landed cs (landed (fst d) (snd d) (fst s, w)) s'" by auto
  with Cons.IH [OF this(2)] Cons.prems(2) show ?case by auto
qed simp

locale bulk_calls =
  fixes E :: "'w bulk_effects" and publish :: "batch_progress \<Rightarrow> 'w \<Rightarrow> 'w"
    and answers :: "'w \<Rightarrow> (pr_target \<times> call_outcome) list" and seen :: "'w \<Rightarrow> batch_progress list"
  assumes publishes: "answers (publish p w) = answers w" "seen (publish p w) = seen w @ [p]"
    and merges: "sends_round answers seen (be_merge_round E)"
    and updates: "sends_round answers seen (be_update_branch_round E)"
    and rebases: "be_rebase E t w = (r, w') \<Longrightarrow> answers w' = answers w @ [(t, r)]"
      "be_rebase E t w = (r, w') \<Longrightarrow> seen w' = seen w"
    and quiet: "be_pause E w = (x, w') \<Longrightarrow> answers w' = answers w \<and> seen w' = seen w"
      "be_now E n w = (y, w') \<Longrightarrow> answers w' = answers w \<and> seen w' = seen w"
      "be_start_batch E rb w = (z, w') \<Longrightarrow> answers w' = answers w \<and> seen w' = seen w"
      "be_unlist_batch E w = (z, w') \<Longrightarrow> answers w' = answers w \<and> seen w' = seen w"
      "be_record_batch E r' w = (z, w') \<Longrightarrow> answers w' = answers w \<and> seen w' = seen w"
begin

text \<open>
  The state of a run over targets \<open>T\<close> after the answers \<open>new\<close>, with \<open>busy\<close> being called: what
  was answered before is \<open>old\<close>, what was published before is \<open>shown\<close>. Every progress published
  shows only targets of one group of \<open>groups\<close> in flight, and the last is the current one.
\<close>

definition running ::
    "string \<Rightarrow> bulk_action_kind \<Rightarrow> pr_target list \<Rightarrow> pr_target list set \<Rightarrow>
     (pr_target \<times> call_outcome) list \<Rightarrow> batch_progress list \<Rightarrow>
     (pr_target \<times> call_outcome) list \<Rightarrow> pr_target set \<Rightarrow> 'w bulk \<Rightarrow> bool" where
  "running b a T groups old shown new busy s \<longleftrightarrow>
     answers (snd s) = old @ new \<and> distinct (map fst new) \<and> fst ` set new \<subseteq> set T \<and>
     shows_states b a T (states_of new busy) (fst s) \<and>
     (\<exists>pubs. seen (snd s) = shown @ pubs \<and> pubs \<noteq> [] \<and> last pubs = fst s \<and>
        (\<forall>q\<in>set pubs. \<exists>g\<in>groups. set (in_flight q) \<subseteq> set g \<and> distinct (in_flight q)))"

lemma running_publish:
  assumes "running b a T groups old shown new busy (p, w)" and "distinct T"
    and "shows_states b a T (states_of new' busy') p'"
    and "answers w' = old @ new'" "seen w' = seen w"
    and "distinct (map fst new')" "fst ` set new' \<subseteq> set T" "g \<in> groups" "busy' \<subseteq> set g"
  shows "running b a T groups old shown new' busy' (p', publish p' w')"
  using assms in_flight_states [OF assms(3,2)]
  unfolding running_def
  apply (elim conjE exE)
  subgoal for pubs
    using subset_trans [of "set (in_flight p')" busy' "set g"]
    by (intro conjI exI [of _ "pubs @ [p']"]) (auto simp: publishes)
  done

lemma running_landed:
  assumes "lands answers seen round (land_target publish round) cs s s'"
    and "running b a T groups old shown new (set round) s"
    and "distinct (map target_key T)" "set round \<subseteq> set T" "round \<in> groups" "distinct round"
    and "distinct (map fst cs)" "\<forall>c\<in>set cs. round ! fst c \<notin> fst ` set new"
  shows "running b a T groups old shown (new @ map (\<lambda>c. (round ! fst c, snd c)) cs) (set round) s'"
  using assms(1,2,7,8)
proof (induction cs arbitrary: new s)
  case Nil
  then show ?case by (cases s; cases s') (auto simp: running_def)
next
  case (Cons c cs)
  obtain w where c: "fst c < length round" and w: "answers w = answers (snd s) @ [(round ! fst c, snd c)]"
    "seen w = seen (snd s)"
    and rest: "lands answers seen round (land_target publish round) cs
      (land_target publish round (fst c) (snd c) (fst s, w)) s'"
    using Cons.prems(1) by auto
  let ?t = "round ! fst c"
  let ?new = "new @ [(?t, snd c)]"
  have t: "?t \<in> set T" using c assms(4) by auto
  have T: "distinct T" using assms(3) by (simp add: distinct_map)
  have fresh: "?t \<notin> fst ` set new" using Cons.prems(4) by simp
  have "running b a T groups old shown ?new (set round) (settle_target (fst s) ?t (snd c),
      publish (settle_target (fst s) ?t (snd c)) w)"
  proof (rule running_publish [where p = "fst s" and w = "snd s"])
    show "running b a T groups old shown new (set round) (fst s, snd s)" using Cons.prems(2) by simp
    show "shows_states b a T (states_of ?new (set round)) (settle_target (fst s) ?t (snd c))"
      using Cons.prems(2) by (intro shows_settle [OF _ assms(3) t fresh]) (simp add: running_def)
  qed (use Cons.prems(2) w T t fresh assms(5) in \<open>auto simp: running_def\<close>)
  then have step: "running b a T groups old shown ?new (set round)
      (land_target publish round (fst c) (snd c) (fst s, w))"
    by (simp add: land_target_def Let_def)
  have others: "\<forall>d\<in>set cs. round ! fst d \<notin> fst ` set ?new"
  proof
    fix d assume d: "d \<in> set cs"
    then have "fst d < length round" using rest lands_indices by blast
    moreover have "fst d \<noteq> fst c" using imageI [OF d, of fst] Cons.prems(3) by (metis distinct.simps(2) list.set_map list.simps(9))
    ultimately have "round ! fst d \<noteq> ?t" using assms(6) c by (simp add: nth_eq_iff_index_eq)
    with d Cons.prems(4) show "round ! fst d \<notin> fst ` set ?new" by auto
  qed
  show ?case using Cons.IH [OF rest step _ others] Cons.prems(3) by simp
qed


lemma running_idle:
  assumes "running b a T groups old shown new busy s" and "busy \<subseteq> fst ` set new"
  shows "running b a T groups old shown new {} s"
proof -
  have "states_of new busy = states_of new {}"
    using assms(2) by (auto simp: states_of_def fun_eq_iff map_of_eq_None_iff split: option.splits)
  then show ?thesis using assms(1) by (simp add: running_def)
qed

lemma running_start_round:
  assumes "running b a T groups old shown new {} s" and "distinct (map target_key T)"
    and "set round \<subseteq> set T" "set round \<inter> fst ` set new = {}" "round \<in> groups"
  shows "running b a T groups old shown new (set round) (start_round publish round s)"
proof -
  have T: "distinct T" using assms(2) by (simp add: distinct_map)
  have "shows_states b a T (states_of new ({} \<union> set round))
      (fold (\<lambda>t p. start_target p (target_key t)) round (fst s))"
    using assms(1,3,4) by (intro shows_starts [OF _ assms(2)]) (auto simp: running_def)
  then have "running b a T groups old shown new (set round)
      (fold (\<lambda>t p. start_target p (target_key t)) round (fst s),
       publish (fold (\<lambda>t p. start_target p (target_key t)) round (fst s)) (snd s))"
    using assms(1) T assms(5)
    by (intro running_publish [where p = "fst s" and w = "snd s"]) (auto simp: running_def)
  then show ?thesis by (cases s) (simp add: start_round_def Let_def)
qed

lemma running_rounds:
  assumes "sends_round answers seen send" and "distinct (map target_key T)"
    and "running b a T groups old shown new {} s" and "run_rounds send publish rounds s = (r, s')"
    and "set rounds \<subseteq> groups" "distinct (concat rounds)" "set (concat rounds) \<subseteq> set T"
    and "set (concat rounds) \<inter> fst ` set new = {}"
  shows "\<exists>ans busy. running b a T groups old shown (new @ ans) busy s' \<and>
    (r = Inr () \<longrightarrow> busy = {} \<and> mset (map fst ans) = mset (concat rounds))"
  using assms(3-8)
proof (induction rounds arbitrary: new s)
  case Nil
  then show ?case by (intro exI [of _ "[]"] exI [of _ "{}"]) simp
next
  case (Cons round rounds)
  let ?s1 = "start_round publish round s"
  obtain r1 s2 where send: "send round (land_target publish round) ?s1 = (r1, s2)"
    by (metis surj_pair)
  have s1: "running b a T groups old shown new (set round) ?s1"
    using Cons.prems by (intro running_start_round [OF _ assms(2)]) auto
  obtain cs where cs: "lands answers seen round (land_target publish round) cs ?s1 s2"
    "distinct (map fst cs)" "r1 = Inr () \<longrightarrow> length cs = length round"
    using assms(1) send unfolding sends_round_def by blast
  let ?ans = "map (\<lambda>c. (round ! fst c, snd c)) cs"
  have idx: "fst ` set cs \<subseteq> {..<length round}" using lands_indices [OF cs(1)] by auto
  have fresh: "\<forall>c\<in>set cs. round ! fst c \<notin> fst ` set new"
    using idx Cons.prems(6) by (auto dest: nth_mem)
  have s2: "running b a T groups old shown (new @ ?ans) (set round) s2"
    using Cons.prems by (intro running_landed [OF cs(1) s1 assms(2) _ _ _ cs(2) fresh]) auto
  have sub: "fst ` set ?ans \<subseteq> set round" using idx by auto
  show ?case
  proof (cases r1)
    case (Inl e)
    then have "r = Inl e" "s' = s2" using send Cons.prems(2) by (simp_all add: andthen_def)
    then show ?thesis using s2 by blast
  next
    case (Inr u)
    then have len: "length cs = length round" using cs(3) by simp
    have "fst ` set cs = {..<length round}"
      using idx cs(2) len by (intro card_subset_eq) (auto simp: distinct_card dest: distinct_card)
    then have "mset (map fst cs) = mset [0..<length round]"
      using cs(2) by (intro set_eq_iff_mset_eq_distinct [THEN iffD1]) auto
    then have "mset (map ((!) round) (map fst cs)) = mset (map ((!) round) [0..<length round])"
      by (simp only: mset_map)
    then have all: "mset (map fst ?ans) = mset round"
      unfolding map_nth by (simp add: comp_def)
    then have "set round = fst ` set ?ans" by (metis set_map set_mset_mset)
    then have idle: "running b a T groups old shown (new @ ?ans) {} s2"
      by (intro running_idle [OF s2]) auto
    have more: "run_rounds send publish rounds s2 = (r, s')"
      using Cons.prems(2) send Inr by (simp add: andthen_def)
    have "set (concat rounds) \<inter> fst ` set (new @ ?ans) = {}"
    proof -
      have "set (concat rounds) \<inter> set round = {}" "set (concat rounds) \<inter> fst ` set new = {}"
        using Cons.prems(4,6) by auto
      then show ?thesis unfolding set_append image_Un using sub by blast
    qed
    moreover have "set rounds \<subseteq> groups" "distinct (concat rounds)" "set (concat rounds) \<subseteq> set T"
      using Cons.prems(3-5) by simp_all
    ultimately obtain ans busy where "running b a T groups old shown ((new @ ?ans) @ ans) busy s'"
      "r = Inr () \<longrightarrow> busy = {} \<and> mset (map fst ans) = mset (concat rounds)"
      using Cons.IH [OF idle more] by blast
    then show ?thesis using all by (intro exI [of _ "?ans @ ans"] exI [of _ busy]) simp
  qed
qed


lemma running_on_world:
  assumes "running b a T groups old shown new busy s" and "on_world m s = (r, s')"
    and "\<And>w x w'. m w = (x, w') \<Longrightarrow> answers w' = answers w \<and> seen w' = seen w"
  shows "running b a T groups old shown new busy s'"
  using assms(1,2) assms(3) [of "snd s" "fst (m (snd s))" "snd (m (snd s))"]
  by (cases s; cases "m (snd s)") (auto simp: running_def on_world_def)

lemma running_rebase_one:
  assumes "running b a T groups old shown new {} s" and "distinct (map target_key T)"
    and "t \<in> set T" "t \<notin> fst ` set new" "[t] \<in> groups"
  shows "\<exists>r. running b a T groups old shown (new @ [(t, r)]) {} (rebase_one E publish t s)"
proof -
  have T: "distinct T" using assms(2) by (simp add: distinct_map)
  let ?p1 = "start_target (fst s) (target_key t)"
  let ?w = "publish ?p1 (snd s)"
  obtain r w1 where call: "be_rebase E t ?w = (r, w1)" by fastforce
  let ?p2 = "settle_target ?p1 t r"
  have "shows_states b a T (states_of new {t}) ?p1"
    using assms by (intro shows_start) (auto simp: running_def)
  then have 1: "running b a T groups old shown new {t} (?p1, ?w)"
    using assms T by (intro running_publish [where p = "fst s" and w = "snd s" and g = "[t]"]) (auto simp: running_def)
  then have i: "answers ?w = old @ new" "distinct (map fst new)" "fst ` set new \<subseteq> set T"
    "shows_states b a T (states_of new {t}) ?p1" by (simp_all add: running_def)
  have "shows_states b a T (states_of (new @ [(t, r)]) {t}) ?p2"
    by (rule shows_settle [OF i(4) assms(2-4)])
  then have "running b a T groups old shown (new @ [(t, r)]) {t} (?p2, publish ?p2 w1)"
    using rebases [OF call] i assms(3,4)
    by (intro running_publish [OF 1 T _ _ _ _ _ assms(5)]) simp_all
  then have "running b a T groups old shown (new @ [(t, r)]) {} (?p2, publish ?p2 w1)"
    by (rule running_idle) simp
  then show ?thesis using call by (cases s) (auto simp: rebase_one_def Let_def)
qed

lemma running_rebases:
  assumes "distinct (map target_key T)" and "running b a T groups old shown new {} s"
    and "run_rebases E publish ts s = (r, s')" and "(\<lambda>t. [t]) ` set ts \<subseteq> groups" "distinct ts"
    and "set ts \<subseteq> set T" "set ts \<inter> fst ` set new = {}"
  shows "\<exists>ans. running b a T groups old shown (new @ ans) {} s' \<and> (r = Inr () \<longrightarrow> map fst ans = ts)"
  using assms(2-7)
proof (induction ts arbitrary: new s)
  case Nil
  then show ?case by (intro exI [of _ "[]"]) simp
next
  case (Cons t ts)
  obtain o1 where 1: "running b a T groups old shown (new @ [(t, o1)]) {} (rebase_one E publish t s)"
    using running_rebase_one [OF Cons.prems(1) assms(1), of t] Cons.prems by auto
  define pause where "pause = (\<lambda>s. if bp_completed (fst s) then (Inr (), s) else on_world (be_pause E) s)"
  obtain r1 s2 where p: "pause (rebase_one E publish t s) = (r1, s2)" by (metis surj_pair)
  have 2: "running b a T groups old shown (new @ [(t, o1)]) {} s2"
    using p 1 running_on_world [OF 1, of "be_pause E" r1 s2] quiet(1)
    by (auto simp: pause_def split: if_splits)
  have run: "run_rebases E publish (t # ts) s = andthen pause (\<lambda>_. run_rebases E publish ts) (rebase_one E publish t s)"
    by (simp add: pause_def andthen_def)
  show ?case
  proof (cases r1)
    case (Inl e)
    with p run Cons.prems(2) have "r = Inl e" "s' = s2" by simp_all
    with 2 show ?thesis by (intro exI [of _ "[(t, o1)]"]) simp
  next
    case (Inr u)
    then have more: "run_rebases E publish ts s2 = (r, s')" using p run Cons.prems(2) by simp
    obtain ans where "running b a T groups old shown ((new @ [(t, o1)]) @ ans) {} s'"
      "r = Inr () \<longrightarrow> map fst ans = ts"
      using Cons.IH [OF 2 more] Cons.prems(3-6) by auto
    then show ?thesis by (intro exI [of _ "(t, o1) # ans"]) simp
  qed
qed


lemma running_drive_targets:
  assumes "distinct (map target_key (bq_targets request))"
    and "running b a (bq_targets request) (groups_of request) old shown [] {} s"
    and "drive_targets E publish request s = (r, s')"
  shows "\<exists>new busy. running b a (bq_targets request) (groups_of request) old shown new busy s' \<and>
    (r = Inr () \<longrightarrow> busy = {} \<and> mset (map fst new) = mset (bq_targets request))"
proof -
  let ?T = "bq_targets request"
  have T: "distinct ?T" using assms(1) by (simp add: distinct_map)
  have rounds: "\<exists>new busy. running b a ?T (groups_of request) old shown new busy s' \<and>
      (r = Inr () \<longrightarrow> busy = {} \<and> mset (map fst new) = mset ?T)"
    if "sends_round answers seen send" "run_rounds send publish rounds s = (r, s')"
      "mset (concat rounds) = mset ?T" "set rounds \<subseteq> groups_of request" for send rounds
  proof -
    have "distinct (concat rounds)" "set (concat rounds) = set ?T"
      using that(3) T by (metis mset_eq_imp_distinct_iff, metis mset_eq_setD)
    then show ?thesis
      using running_rounds [OF that(1) assms(1,2) that(2,4)] that(3) by simp
  qed
  show ?thesis
  proof (cases "bq_action request")
    case BkMerge
    then show ?thesis
      using rounds [OF merges, of "plan_merge_rounds ?T MAX_CONCURRENT"] assms(3)
        plan_rounds_mset [of MAX_CONCURRENT ?T]
      by (auto simp: drive_targets_def groups_of_def MAX_CONCURRENT_def)
  next
    case BkUpdateBranch
    then show ?thesis
      using rounds [OF updates, of "chunks MAX_CONCURRENT ?T"] assms(3) concat_chunks [of MAX_CONCURRENT ?T]
      by (auto simp: drive_targets_def groups_of_def MAX_CONCURRENT_def)
  next
    case BkRebase
    then have "\<exists>ans. running b a ?T (groups_of request) old shown ([] @ ans) {} s' \<and>
        (r = Inr () \<longrightarrow> map fst ans = ?T)"
      using assms(3) T by (intro running_rebases [OF assms(1,2)]) (auto simp: drive_targets_def groups_of_def)
    then obtain ans where "running b a ?T (groups_of request) old shown ans {} s'"
      "r = Inr () \<longrightarrow> map fst ans = ?T" by auto
    then show ?thesis by (intro exI [of _ ans] exI [of _ "{}"]) (simp flip: mset_map)
  qed
qed

lemma running_finish:
  assumes "running b a T groups old shown new busy s"
    and "finish_batch E i request st s = (r, s')"
  shows "running b a T groups old shown new busy s'"
proof -
  obtain r1 s1 where n: "on_world (be_now E ''batch-finish-clock'') s = (r1, s1)" by (metis surj_pair)
  have 1: "running b a T groups old shown new busy s1"
    using quiet(2) by (rule running_on_world [OF assms(1) n])
  have rec: "on_world (be_record_batch E x) s1 = (r2, s2) \<Longrightarrow>
      running b a T groups old shown new busy s2" for x r2 s2
    by (erule running_on_world [OF 1]) (rule quiet(5))
  show ?thesis
    using assms(2) n 1 rec
    by (cases r1) (auto simp: finish_batch_def andthen_def split: option.splits prod.splits sum.splits)
qed

lemma running_drive:
  assumes "distinct (map target_key (bq_targets request))"
    and "running b a (bq_targets request) (groups_of request) old shown [] {} s"
    and "drive E i request publish st s = (r, s')"
  shows "\<exists>new busy. running b a (bq_targets request) (groups_of request) old shown new busy s' \<and>
    (r = Inr () \<longrightarrow> busy = {} \<and> mset (map fst new) = mset (bq_targets request))"
proof -
  obtain r1 s1 where d: "drive_targets E publish request s = (r1, s1)" by (metis surj_pair)
  from running_drive_targets [OF assms(1,2) d] obtain new busy where
    1: "running b a (bq_targets request) (groups_of request) old shown new busy s1"
    and all: "r1 = Inr () \<longrightarrow> busy = {} \<and> mset (map fst new) = mset (bq_targets request)" by blast
  show ?thesis
  proof (cases r1)
    case (Inl e)
    with d assms(3) have "r = Inl e" "s' = s1" by (simp_all add: drive_def)
    with 1 show ?thesis by blast
  next
    case (Inr u)
    with d assms(3) have "finish_batch E i request st s1 = (r, s')" by (simp add: drive_def)
    from running_finish [OF 1 this] all Inr show ?thesis
      by (intro exI [of _ new] exI [of _ busy]) simp
  qed
qed

text \<open>A run from its first publication on; the clock's failure is the one way to end before it.\<close>

lemma bulk_action_runs:
  assumes T: "bq_targets request \<noteq> []" "length (bq_targets request) < 2 ^ 64"
    and keys: "distinct (map target_key (bq_targets request))"
    and clock: "be_now E ''batch-start-clock'' w = (Inr st, w0)"
    and run: "run_bulk_action E i request publish w = (r, w')"
  shows "\<exists>new busy p. running (be_batch_id E) (bq_action request) (bq_targets request)
      (groups_of request) (answers w) (seen w) new busy (p, w') \<and>
    (\<forall>q. r = Inr q \<longrightarrow> q = p \<and> busy = {} \<and> mset (map fst new) = mset (bq_targets request))"
proof -
  let ?b = "be_batch_id E" and ?T = "bq_targets request"
  let ?p = "queued ?b (bq_action request) ?T"
  let ?w1 = "publish ?p w0"
  let ?w2 = "snd (be_start_batch E (running_of ?p i request st) ?w1)"
  have fly: "in_flight ?p = []" by (simp add: in_flight_def queued_def)
  have quiet0: "answers w0 = answers w" "seen w0 = seen w" using quiet(2) [OF clock] by auto
  have quiet2: "answers ?w2 = answers ?w1" "seen ?w2 = seen ?w1"
    using quiet(3) [OF surjective_pairing] by auto
  have start: "running ?b (bq_action request) ?T (groups_of request) (answers w) (seen w) [] {} (?p, ?w2)"
    unfolding running_def
    using shows_queued [OF T] fly quiet0 quiet2 publishes by (auto simp: groups_of_def)
  obtain r1 p1 w1 where d: "drive E i request publish st (?p, ?w2) = (r1, (p1, w1))" by (metis surj_pair)
  have r: "r = (case r1 of Inl e \<Rightarrow> Inl e | Inr _ \<Rightarrow> Inr p1)" and w': "w' = unlist_unfinished E (r1, p1, w1)"
    using run clock d by (cases r1; simp add: run_bulk_action_def Let_def)+
  have quiet3: "answers w' = answers w1" "seen w' = seen w1"
    using quiet(4) [OF surjective_pairing, of w1] by (auto simp: w' unlist_unfinished_def)
  from running_drive [OF keys start d] obtain new busy where
    "running ?b (bq_action request) ?T (groups_of request) (answers w) (seen w) new busy (p1, w1)"
    "r1 = Inr () \<longrightarrow> busy = {} \<and> mset (map fst new) = mset ?T" by blast
  then show ?thesis
    using r quiet3
    by (intro exI [of _ new] exI [of _ busy] exI [of _ p1]) (auto simp: running_def split: sum.splits)
qed

end

section \<open>The contract holds in Restate\<close>

fun call_target :: "pr_call \<Rightarrow> pr_target" where
  "call_target (CallMerge r) = mr_target r"
| "call_target (CallUpdateBranch r) = ub_target r"
| "call_target (CallCommand r) = cq_target r"

definition answered :: "('g, 'm) bulk_world_scheme \<Rightarrow> (pr_target \<times> call_outcome) list" where
  "answered w = map (\<lambda>a. (call_target (snd (fst a)), snd a)) (bw_answers w)"

lemma call_targets [simp]:
  "call_target (snd (merge_call b t)) = t" "call_target (snd (update_branch_call b t)) = t"
  "call_target (snd (rebase_call b u t)) = t"
  by (simp_all add: merge_call_def update_branch_call_def rebase_call_def)

lemma next_await_quiet:
  "next_await w = (a, w') \<Longrightarrow> bw_answers w' = bw_answers w \<and> bw_published w' = bw_published w"
  by (auto simp: next_await_def split: list.splits)

lemma complete_call_answers:
  "complete_call callee c w = (r, w') \<Longrightarrow>
     answered w' = answered w @ [(call_target (snd c), r)] \<and> bw_published w' = bw_published w"
  by (auto simp: complete_call_def answered_def split: prod.splits)

lemma land_round_lands:
  assumes "land_round callee m calls landed s = (r, s')"
    and "\<forall>c\<in>set calls. fst c < length round \<and> call_target (snd (snd c)) = round ! fst c"
    and "distinct (map fst calls)"
  shows "\<exists>cs. lands answered bw_published round landed cs s s' \<and> distinct (map fst cs) \<and>
    fst ` set cs \<subseteq> fst ` set calls \<and> (r = Inr () \<longrightarrow> length cs = length calls)"
  using assms
proof (induction "length calls" arbitrary: calls s)
  case 0
  then show ?case by (cases s) (auto simp: land_round.simps intro: exI [of _ "[]"])
next
  case (Suc n)
  then have ne: "calls \<noteq> []" by auto
  obtain p w where s: "s = (p, w)" by (cases s)
  obtain a w1 where await: "next_await w = (a, w1)" by fastforce
  show ?case
  proof (cases a)
    case None
    then have "r = Inl (Terminal m)" "s' = (p, w1)"
      using Suc.prems(1) ne await by (simp_all add: s land_round.simps)
    then show ?thesis using next_await_quiet [OF await]
      by (intro exI [of _ "[]"]) (simp add: s answered_def)
  next
    case (Some k0)
    define k where "k = k0 mod length calls"
    have k: "k < length calls" using ne by (simp add: k_def)
    obtain o1 w2 where call: "complete_call callee (snd (calls ! k)) w1 = (o1, w2)" by fastforce
    let ?rest = "without k calls"
    have more: "land_round callee m ?rest landed (landed (fst (calls ! k)) o1 (p, w2)) = (r, s')"
      using Suc.prems(1) ne await Some call by (simp add: s land_round.simps k_def Let_def)
    have msets: "mset calls = {#calls ! k#} + mset ?rest" by (rule mset_without [OF k])
    then have sets: "set ?rest \<subseteq> set calls" by (metis mset_subset_eq_add_right set_mset_mono set_mset_mset)
    have "mset (map fst calls) = add_mset (fst (calls ! k)) (mset (map fst ?rest))"
      using msets by simp
    then have "distinct (fst (calls ! k) # map fst ?rest)"
      using Suc.prems(3) by (metis mset.simps(2) mset_eq_imp_distinct_iff)
    then have dist: "distinct (map fst ?rest)" "fst (calls ! k) \<notin> fst ` set ?rest" by simp_all
    have len: "n = length ?rest" using Suc.hyps(2) k by simp
    obtain cs where cs: "lands answered bw_published round landed cs
        (landed (fst (calls ! k)) o1 (p, w2)) s'" "distinct (map fst cs)"
        "fst ` set cs \<subseteq> fst ` set ?rest" "r = Inr () \<longrightarrow> length cs = length ?rest"
      using Suc.hyps(1) [OF len more _ dist(1)] Suc.prems(2) sets by blast
    have w2: "answered w2 = answered w @ [(round ! fst (calls ! k), o1)]" "bw_published w2 = bw_published w"
      using complete_call_answers [OF call] next_await_quiet [OF await] Suc.prems(2) k
      by (simp_all add: answered_def)
    have "lands answered bw_published round landed ((fst (calls ! k), o1) # cs) s s'"
      using cs(1) w2 Suc.prems(2) k by (auto simp: s)
    moreover have "fst (calls ! k) \<notin> fst ` set cs" using cs(3) dist(2) by blast
    moreover have "fst ` set cs \<subseteq> fst ` set calls" using cs(3) sets by blast
    moreover have "fst (calls ! k) \<in> fst ` set calls" using k by simp
    moreover have "r = Inr () \<longrightarrow> length ((fst (calls ! k), o1) # cs) = length calls"
      using cs(4) len Suc.hyps(2) by simp
    ultimately show ?thesis
      using cs(2) by (intro exI [of _ "(fst (calls ! k), o1) # cs"]) simp
  qed
qed

lemma land_round_sends:
  assumes "\<And>t. call_target (snd (call t)) = t"
  shows "sends_round answered bw_published (\<lambda>ts. land_round callee m (enumerate 0 (map call ts)))"
  unfolding sends_round_def
proof (intro allI impI)
  fix round landed s r s'
  assume "land_round callee m (enumerate 0 (map call round)) landed s = (r, s')"
  moreover have "\<forall>c\<in>set (enumerate 0 (map call round)).
      fst c < length round \<and> call_target (snd (snd c)) = round ! fst c"
  proof
    fix c
    assume "c \<in> set (enumerate 0 (map call round))"
    then have "fst c < length round" "snd c = call (round ! fst c)" by (auto simp: in_set_enumerate_eq)
    with assms show "fst c < length round \<and> call_target (snd (snd c)) = round ! fst c" by simp
  qed
  moreover have "distinct (map fst (enumerate 0 (map call round)))" by simp
  ultimately obtain cs where
    "lands answered bw_published round landed cs s s'" "distinct (map fst cs)"
    "r = Inr () \<longrightarrow> length cs = length (enumerate 0 (map call round))"
    using land_round_lands by blast
  then have "lands answered bw_published round landed cs s s'" "distinct (map fst cs)"
    "r = Inr () \<longrightarrow> length cs = length round" by simp_all
  then show "\<exists>cs. lands answered bw_published round landed cs s s' \<and> distinct (map fst cs) \<and>
      (r = Inr () \<longrightarrow> length cs = length round)" by blast
qed

lemma rebase_answers:
  assumes "be_rebase (restate_bulk bu callee m b u) t w = (r, w')"
  shows "answered w' = answered w @ [(t, r)] \<and> bw_published w' = bw_published w"
proof -
  obtain a w1 where await: "next_await w = (a, w1)" by fastforce
  have w1: "answered w1 = answered w" "bw_published w1 = bw_published w"
    using next_await_quiet [OF await] by (simp_all add: answered_def)
  show ?thesis
  proof (cases a)
    case None
    then show ?thesis using assms await w1
      by (auto simp: restate_bulk_def answered_def)
  next
    case (Some n)
    then have "complete_call callee (rebase_call b u t) w1 = (r, w')"
      using assms await by (simp add: restate_bulk_def)
    from complete_call_answers [OF this] w1 show ?thesis by simp
  qed
qed

definition same_bulk :: "('g, 'm) bulk_world_scheme \<Rightarrow> ('g, 'm) bulk_world_scheme \<Rightarrow> bool" where
  "same_bulk w w' \<longleftrightarrow> bw_answers w' = bw_answers w \<and> bw_published w' = bw_published w \<and>
     bw_awaits w' = bw_awaits w"

lemma same_bulk_refl [simp]: "same_bulk w w"
  and same_bulk_trans: "same_bulk a b \<Longrightarrow> same_bulk b c \<Longrightarrow> same_bulk a c"
  by (simp_all add: same_bulk_def)

lemma same_own_bulk: "same_own w w' \<Longrightarrow> same_bulk w w'"
  by (cases w; cases w') (auto simp: same_own_def same_bulk_def restate_world.defs bulk_world.defs)

lemma record_attempt_bulk: "same_bulk w (snd (record_attempt r w))"
  using same_own_bulk [OF store_call_own [of w "record_batch r"]]
  by (auto simp: record_attempt_def same_bulk_def read_clock_def warn_if_record_stuck_def Let_def
      split: prod.splits sum.splits)

lemma record_step_bulk: "same_bulk w (snd (or_terminal (restate_run n (record_attempt r)) w))"
  unfolding or_terminal_snd
  by (rule restate_run_keeps [where I = same_bulk]) (auto intro: same_bulk_trans record_attempt_bulk)

interpretation batch: bulk_calls "restate_bulk bu callee m b u" publish_progress answered bw_published
proof unfold_locales
  fix p and w w' :: "('a, 'b) bulk_world_scheme" and t r x y z n rb r'
  let ?E = "restate_bulk bu callee m b u"
  have quietI: "answered w' = answered w \<and> bw_published w' = bw_published w"
    if "same_bulk w w'" using that by (simp add: same_bulk_def answered_def)
  show "answered (publish_progress p w) = answered w"
    "bw_published (publish_progress p w) = bw_published w @ [p]"
    by (simp_all add: publish_progress_def answered_def)
  show "sends_round answered bw_published (be_merge_round ?E)"
    "sends_round answered bw_published (be_update_branch_round ?E)"
    by (simp_all add: restate_bulk_def land_round_sends)
  {
    assume "be_rebase ?E t w = (r, w')"
    then show "answered w' = answered w @ [(t, r)]" "bw_published w' = bw_published w"
      using rebase_answers by blast+
  }
  {
    assume "be_pause ?E w = (x, w')"
    then show "answered w' = answered w \<and> bw_published w' = bw_published w"
      using next_await_quiet [of w] by (auto simp: restate_bulk_def answered_def split: prod.splits option.splits)
  }
  {
    assume "be_now ?E n w = (y, w')"
    then show "answered w' = answered w \<and> bw_published w' = bw_published w"
      by (auto simp: restate_bulk_def run_clock_step_def read_clock_def answered_def)
  }
  {
    assume "be_start_batch ?E rb w = (z, w')"
    then have "w' = snd (run_store_step bu SkBrief (start_batch rb) w)" by (simp add: restate_bulk_def)
    then show "answered w' = answered w \<and> bw_published w' = bw_published w"
      by (intro quietI same_own_bulk) (simp add: run_store_own)
  }
  {
    assume "be_unlist_batch ?E w = (z, w')"
    then have "w' = snd (run_store_step bu SkOrdinary (unlist_batch b) w)" by (simp add: restate_bulk_def)
    then show "answered w' = answered w \<and> bw_published w' = bw_published w"
      by (intro quietI same_own_bulk) (simp add: run_store_own)
  }
  {
    assume "be_record_batch ?E r' w = (z, w')"
    then have "w' = snd (or_terminal (restate_run (bu_store bu SkLastChance) (record_attempt r')) w)"
      by (simp add: restate_bulk_def)
    then show "answered w' = answered w \<and> bw_published w' = bw_published w"
      using record_step_bulk [of w] by (intro quietI) simp
  }
qed

end
