(* ===== verification/Bulk_Contract.thy ===== *)
theory Bulk_Contract
  imports Bulk_Action
begin

text \<open>
  What a batch promises, whatever its pull request objects answer and in whatever order: every
  target ends with the verdict of its one call and the finished batch is in the store, at most
  three targets are in flight, failures of targets and of the store do not end it, and one that
  ends unfinished is not left on the list of running batches.
\<close>

lemma restate_bulk_parts [simp]:
  "be_batch_id (restate_bulk bu callee m b u) = b"
  "be_now (restate_bulk bu callee m b u) = (\<lambda>_. run_clock_step)"
  "be_start_batch (restate_bulk bu callee m b u) = (\<lambda>rb. run_store_step bu SkBrief (start_batch rb))"
  "be_unlist_batch (restate_bulk bu callee m b u) = run_store_step bu SkOrdinary (unlist_batch b)"
  by (simp_all add: restate_bulk_def)

section \<open>What a batch leaves of the store\<close>

text \<open>The pull request objects write to the same store, yet never to the tables of batches.\<close>

definition beside_batches :: "db \<Rightarrow> db \<Rightarrow> bool" where
  "beside_batches d d' \<longleftrightarrow> (db_ok d \<longrightarrow> db_ok d') \<and> db_batches d' = db_batches d \<and>
     db_batch_targets d' = db_batch_targets d \<and> db_running d' = db_running d"

definition steady :: "'g callee \<Rightarrow> bool" where
  "steady callee \<longleftrightarrow> (\<forall>c g d. beside_batches d (snd (snd (callee c (g, d)))))"

definition driven :: "('g, 'm) bulk_world_scheme \<Rightarrow> ('g, 'm) bulk_world_scheme \<Rightarrow> bool" where
  "driven w w' \<longleftrightarrow> beside_batches (ow_db w) (ow_db w') \<and> ow_faults w' = ow_faults w \<and>
     ow_times w' = ow_times w \<and> set (bw_awaits w') \<subseteq> set (bw_awaits w)"

lemma driven_refl [simp]: "driven w w" and driven_trans: "driven a b \<Longrightarrow> driven b c \<Longrightarrow> driven a c"
  by (auto simp: driven_def beside_batches_def)

lemma driven_publish [simp]: "driven w (publish_progress p w)"
  by (simp add: driven_def beside_batches_def publish_progress_def)

lemma driven_land_target [simp]: "driven w (snd (land_target publish_progress round i x (p, w)))"
  by (simp add: land_target_def Let_def)

lemma driven_await: "next_await w = (a, w') \<Longrightarrow> driven w w' \<and> (a = None \<longrightarrow> None \<in> set (bw_awaits w))"
  by (auto simp: next_await_def driven_def beside_batches_def split: list.splits)

lemma driven_call: "steady callee \<Longrightarrow> complete_call callee c w = (x, w') \<Longrightarrow> driven w w'"
proof -
  assume st: "steady callee" and run: "complete_call callee c w = (x, w')"
  obtain y g d where c: "callee c (ow_remote w, ow_db w) = (y, g, d)" by (metis surj_pair)
  have "beside_batches (ow_db w) d"
    using st [unfolded steady_def, rule_format, of "ow_db w" c "ow_remote w"] c by simp
  then show ?thesis using run c by (auto simp: complete_call_def driven_def)
qed

lemma driven_land_round:
  assumes "steady callee" and "\<And>i x p w. driven w (snd (landed i x (p, w)))"
  shows "land_round callee m calls landed s = (r, s') \<Longrightarrow>
    driven (snd s) (snd s') \<and> (None \<notin> set (bw_awaits (snd s)) \<longrightarrow> r = Inr ())"
proof (induction "length calls" arbitrary: calls s)
  case 0
  then show ?case by (cases s) (simp add: land_round.simps)
next
  case (Suc n)
  then have ne: "calls \<noteq> []" by auto
  obtain p w where s: "s = (p, w)" by (cases s)
  obtain a w1 where await: "next_await w = (a, w1)" by fastforce
  note 1 = driven_await [OF await]
  show ?case
  proof (cases a)
    case None
    then have "s' = (p, w1)" using Suc.prems ne await by (simp add: s land_round.simps)
    then show ?thesis using None 1 by (simp add: s)
  next
    case (Some k0)
    define k where "k = k0 mod length calls"
    have k: "k < length calls" using ne by (simp add: k_def)
    obtain o1 w2 where call: "complete_call callee (snd (calls ! k)) w1 = (o1, w2)" by fastforce
    let ?s2 = "landed (fst (calls ! k)) o1 (p, w2)"
    have more: "land_round callee m (without k calls) landed ?s2 = (r, s')"
      using Suc.prems ne await Some call by (simp add: s land_round.simps k_def Let_def)
    have d: "driven w (snd ?s2)"
      using 1 driven_call [OF assms(1) call] assms(2) driven_trans by blast
    then have "set (bw_awaits (snd ?s2)) \<subseteq> set (bw_awaits w)" by (simp add: driven_def)
    moreover have "n = length (without k calls)" using Suc.hyps(2) k by simp
    ultimately show ?thesis
      using Suc.hyps(1) [OF _ more] d driven_trans [OF d] by (auto simp: s)
  qed
qed

lemma driven_run_rounds:
  assumes "\<And>round s r s'. send round (land_target publish_progress round) s = (r, s') \<Longrightarrow>
    driven (snd s) (snd s') \<and> (None \<notin> set (bw_awaits (snd s)) \<longrightarrow> r = Inr ())"
  shows "run_rounds send publish_progress rounds s = (r, s') \<Longrightarrow>
    driven (snd s) (snd s') \<and> (None \<notin> set (bw_awaits (snd s)) \<longrightarrow> r = Inr ())"
proof (induction rounds arbitrary: s)
  case (Cons round rounds)
  let ?s1 = "start_round publish_progress round s"
  have 1: "driven (snd s) (snd ?s1)" by (cases s) (simp add: start_round_def Let_def)
  obtain r2 s2 where send: "send round (land_target publish_progress round) ?s1 = (r2, s2)"
    by (metis surj_pair)
  have 2: "driven (snd s) (snd s2)" using 1 assms [OF send] driven_trans by blast
  have awaits: "None \<notin> set (bw_awaits (snd s)) \<longrightarrow> r2 = Inr () \<and> None \<notin> set (bw_awaits (snd s2))"
    using assms [OF send] 1 2 by (auto simp: driven_def)
  show ?case
  proof (cases r2)
    case (Inl e)
    then show ?thesis using Cons.prems send 2 awaits by auto
  next
    case (Inr u)
    then have "run_rounds send publish_progress rounds s2 = (r, s')" using Cons.prems send by simp
    from Cons.IH [OF this] 2 awaits driven_trans show ?thesis by blast
  qed
qed simp

lemma driven_rebase:
  assumes "steady callee" and "be_rebase (restate_bulk bu callee m b u) t w = (x, w')"
  shows "driven w w'"
proof -
  obtain a w1 where await: "next_await w = (a, w1)" by fastforce
  have "driven w1 w'"
  proof (cases a)
    case None
    then show ?thesis using assms(2) await by (auto simp: restate_bulk_def driven_def beside_batches_def)
  next
    case (Some n)
    then have "complete_call callee (rebase_call b u t) w1 = (x, w')"
      using assms(2) await by (simp add: restate_bulk_def)
    then show ?thesis by (rule driven_call [OF assms(1)])
  qed
  with driven_await [OF await] driven_trans show ?thesis by blast
qed

lemma driven_run_rebases:
  fixes bu :: budgets and m b u :: string
  assumes "steady callee"
  defines "E \<equiv> restate_bulk bu callee m b u"
  shows "run_rebases E publish_progress ts s = (r, s') \<Longrightarrow>
    driven (snd s) (snd s') \<and> (None \<notin> set (bw_awaits (snd s)) \<longrightarrow> r = Inr ())"
proof (induction ts arbitrary: s)
  case (Cons t ts)
  let ?s1 = "rebase_one E publish_progress t s"
  obtain x w1 where call: "be_rebase E t (publish_progress (start_target (fst s) (target_key t)) (snd s)) = (x, w1)"
    by fastforce
  have 1: "driven (snd s) (snd ?s1)"
  proof -
    let ?p = "settle_target (start_target (fst s) (target_key t)) t x"
    have "snd ?s1 = publish_progress ?p w1"
      using call by (cases s) (simp add: rebase_one_def Let_def)
    moreover have "driven (snd s) w1"
      using driven_rebase [OF assms(1) call [unfolded E_def]] driven_trans driven_publish by blast
    ultimately show ?thesis using driven_trans driven_publish by metis
  qed
  define pause where "pause = (\<lambda>s. if bp_completed (fst s) then (Inr (), s) else on_world (be_pause E) s)"
  obtain r2 s2 where p: "pause ?s1 = (r2, s2)" by (metis surj_pair)
  have 2: "driven (snd ?s1) (snd s2) \<and> (None \<notin> set (bw_awaits (snd ?s1)) \<longrightarrow> r2 = Inr ())"
  proof (cases "bp_completed (fst ?s1)")
    case True
    then show ?thesis using p by (simp add: pause_def)
  next
    case False
    obtain p1 w2 where s1: "?s1 = (p1, w2)" by (cases ?s1)
    obtain a w3 where await: "next_await w2 = (a, w3)" by fastforce
    have "be_pause E w2 = (case a of None \<Rightarrow> (Inl (Terminal m), w3) | Some n \<Rightarrow> (Inr (), w3))"
      using await by (simp add: E_def restate_bulk_def)
    then show ?thesis
      using p False driven_await [OF await] unfolding pause_def s1
      by (cases a) (auto simp: on_world_def)
  qed
  have 3: "driven (snd s) (snd s2)" using 1 2 driven_trans by blast
  have awaits: "None \<notin> set (bw_awaits (snd s)) \<longrightarrow> r2 = Inr () \<and> None \<notin> set (bw_awaits (snd s2))"
    using 1 2 3 by (auto simp: driven_def)
  have run: "run_rebases E publish_progress (t # ts) s =
      andthen pause (\<lambda>_. run_rebases E publish_progress ts) ?s1"
    by (simp add: pause_def andthen_def)
  show ?case
  proof (cases r2)
    case (Inl e)
    then show ?thesis using Cons.prems p run 3 awaits by auto
  next
    case (Inr v)
    then have "run_rebases E publish_progress ts s2 = (r, s')" using Cons.prems p run by simp
    from Cons.IH [OF this] 3 awaits driven_trans show ?thesis by blast
  qed
qed simp

lemma driven_drive_targets:
  assumes "steady callee"
    and "drive_targets (restate_bulk bu callee m b u) publish_progress request s = (r, s')"
  shows "driven (snd s) (snd s') \<and> (None \<notin> set (bw_awaits (snd s)) \<longrightarrow> r = Inr ())"
proof -
  let ?E = "restate_bulk bu callee m b u"
  have round: "driven (snd s) (snd s') \<and> (None \<notin> set (bw_awaits (snd s)) \<longrightarrow> r = Inr ())"
    if "land_round callee m calls (land_target publish_progress ts) s = (r, s')" for calls ts s r s'
    by (rule driven_land_round [OF assms(1) driven_land_target that])
  have rounds: "driven (snd s) (snd s') \<and> (None \<notin> set (bw_awaits (snd s)) \<longrightarrow> r = Inr ())"
    if "run_rounds send publish_progress rs s = (r, s')"
      "\<And>ts l s. send ts l s = land_round callee m (enumerate 0 (map (call ts) ts)) l s" for send rs call
    using driven_run_rounds [OF _ that(1)] round that(2) by metis
  show ?thesis
  proof (cases "bq_action request")
    case BkMerge
    then show ?thesis
      using rounds [of "be_merge_round ?E" _ "\<lambda>_. merge_call b"] assms(2)
      by (simp add: drive_targets_def) (simp add: restate_bulk_def)
  next
    case BkUpdateBranch
    then show ?thesis
      using rounds [of "be_update_branch_round ?E" _ "\<lambda>_. update_branch_call b"] assms(2)
      by (simp add: drive_targets_def) (simp add: restate_bulk_def)
  next
    case BkRebase
    then show ?thesis
      using driven_run_rebases [OF assms(1), of bu m b u] assms(2) by (simp add: drive_targets_def)
  qed
qed

section \<open>The listing and the record\<close>

definition listed :: "string \<Rightarrow> db \<Rightarrow> bool" where
  "listed b d \<longleftrightarrow> b \<in> n_batch_id ` set (db_running d)"

text \<open>Store steps of batch \<open>b\<close> that leave the finished batches alone.\<close>

definition listing :: "string \<Rightarrow> ('g, 'm) bulk_world_scheme \<Rightarrow> ('g, 'm) bulk_world_scheme \<Rightarrow> bool" where
  "listing b w w' \<longleftrightarrow> (db_ok (ow_db w) \<longrightarrow> db_ok (ow_db w')) \<and>
     db_batches (ow_db w') = db_batches (ow_db w) \<and>
     db_batch_targets (ow_db w') = db_batch_targets (ow_db w) \<and>
     length (ow_faults w') \<le> length (ow_faults w) \<and> ow_times w' = ow_times w \<and>
     bw_awaits w' = bw_awaits w"

lemma listing_refl [simp]: "listing b w w"
  and listing_trans: "listing b w w1 \<Longrightarrow> listing b w1 w2 \<Longrightarrow> listing b w w2"
  by (auto simp: listing_def)

lemma listing_store_call:
  assumes "preserves db_ok op"
    and "\<And>d. db_batches (snd (op d)) = db_batches d \<and> db_batch_targets (snd (op d)) = db_batch_targets d"
  shows "listing b w (snd (store_call op w))"
  using assms(1) assms(2) [of "ow_db w"]
  by (auto simp: listing_def store_call_def preserves_def split: list.splits option.splits prod.splits)

lemma listing_step:
  fixes w :: "('g, 'm) bulk_world_scheme"
  assumes "preserves db_ok op"
    and "\<And>d. db_batches (snd (op d)) = db_batches d \<and> db_batch_targets (snd (op d)) = db_batch_targets d"
  shows "listing b w (snd (run_store_step bu k op w))"
  unfolding run_store_step_def or_terminal_snd
proof (rule restate_run_keeps [where I = "listing b"])
  fix w :: "('g, 'm) bulk_world_scheme"
  show "listing b w (snd (case store_call op w of (Inl e, w') \<Rightarrow> (Inl (read_failure k e), w')
      | (Inr a, w') \<Rightarrow> (Inr a, w')))"
    using listing_store_call [OF assms, of b w] by (auto split: prod.splits sum.splits)
qed (auto intro: listing_trans)

lemma start_batch_beside:
  "db_batches (snd (start_batch rb d)) = db_batches d \<and>
   db_batch_targets (snd (start_batch rb d)) = db_batch_targets d"
  by (cases "row_of_running rb") (simp_all add: start_batch_def andthen_def)

lemma start_batch_lists:
  assumes "start_batch rb d = (Inr (), d')"
  shows "listed (rb_batch_id rb) d'"
proof -
  obtain row where row: "row_of_running rb = Inr row"
    using assms by (auto simp: start_batch_def andthen_Inr_iff lift_Inr)
  then have "n_batch_id row = rb_batch_id rb" by (auto simp: row_of_running_def bind_result_Inr)
  moreover have "d' = (if \<exists>n\<in>set (db_running d). n_batch_id n = n_batch_id row then d
      else d\<lparr>db_running := db_running d @ [row]\<rparr>)"
    using assms row by (simp add: start_batch_def andthen_def)
  ultimately show ?thesis by (force simp: listed_def)
qed

lemma record_fits:
  assumes "record_batch r d = (Inr (), d')" "\<not> recorded d (bc_batch_id r)" "length (bc_targets r) < 2 ^ 63"
  shows "batch_fits r"
  using assms(1)
proof (cases rule: record_batch_cases)
  case again
  with assms(2) show ?thesis by simp
next
  case (first row rows)
  have "fits (bt_repository_id t) \<and> fits (bt_number t)" if t: "t \<in> set (bc_targets r)" for t
  proof -
    from t obtain i where "i < length (bc_targets r)" "bc_targets r ! i = t" by (metis in_set_conv_nth)
    then have "(i, t) \<in> set (enumerate 0 (bc_targets r))" by (auto simp: in_set_enumerate_eq)
    then have "row_of_target (bc_batch_id r) i t \<in> set (map Inr rows)"
      unfolding first(3) [symmetric] by force
    then show ?thesis by (auto simp: row_of_target_def bind_result_Inr integer_Inr fits_def)
  qed
  with first(2) assms(3) show ?thesis
    by (auto simp: batch_fits_def row_of_batch_def bind_result_Inr integer_Inr fits_def)
qed

lemma retry_of_record: "\<exists>m. read_failure SkLastChance e = Retryable m"
  by (auto simp: read_failure_def retry_later_def split: store_error_class.splits)

text \<open>The record lands once the store takes it, whatever it answered before.\<close>

lemma record_lands:
  assumes "batch_fits r"
  shows "length (ow_faults w) \<le> n \<Longrightarrow> \<exists>w'. restate_run n (record_attempt r) w = (Inr (), w')"
proof (induction n arbitrary: w)
  case 0
  then show ?case using record_batch_total [OF assms, of "ow_db w"]
    by (auto simp: record_attempt_def store_call_def)
next
  case (Suc n)
  show ?case
  proof (cases "record_attempt r w")
    case (Pair x w1)
    show ?thesis
    proof (cases x)
      case (Inr u)
      then show ?thesis using Pair by simp
    next
      case (Inl e)
      then obtain f rest where f: "ow_faults w = Some f # rest"
        using Pair record_batch_total [OF assms, of "ow_db w"]
        by (auto simp: record_attempt_def store_call_def split: list.splits option.splits prod.splits)
      obtain m where "e = Retryable m" "ow_faults w1 = rest"
        using Pair Inl f retry_of_record [of f]
        by (auto simp: record_attempt_def store_call_def read_clock_def warn_if_record_stuck_def Let_def)
      then show ?thesis using Pair Inl Suc.IH [of w1] Suc.prems f by simp
    qed
  qed
qed

text \<open>A record that landed was one run of its operation on the database it found.\<close>

lemma record_call_undone:
  "store_call (record_batch r) w = (Inl f, w1) \<Longrightarrow> ow_db w1 = ow_db w"
  by (auto simp: store_call_def record_batch_def dest: transaction_Inl
      split: list.splits option.splits prod.splits)

lemma record_attempt_undone:
  assumes "record_attempt r w = (Inl e, w')"
  shows "ow_db w' = ow_db w"
proof -
  from assms obtain f w1 where "store_call (record_batch r) w = (Inl f, w1)"
    "w' = warn_if_record_stuck r (fst (read_clock w1)) (snd (read_clock w1))"
    by (auto simp: record_attempt_def split: prod.splits sum.splits)
  moreover from this(1) have "ow_db w1 = ow_db w" by (rule record_call_undone)
  ultimately show ?thesis by (simp add: read_clock_def warn_if_record_stuck_def Let_def)
qed

lemma record_step_Inr:
  fixes w :: "('g, 'm) bulk_world_scheme"
  assumes "be_record_batch (restate_bulk bu callee m b u) r w = (Inr (), w')"
  shows "record_batch r (ow_db w) = (Inr (), ow_db w')"
proof -
  have "restate_run (bu_store bu SkLastChance) (record_attempt r) w = (Inr (), w')"
    using assms by (simp add: restate_bulk_def or_terminal_Inr)
  then have "\<exists>w1. ow_db w1 = ow_db w \<and> record_attempt r w1 = (Inr (), w')"
  proof (rule restate_run_Inr [where J = "\<lambda>a b. ow_db b = ow_db a"])
    fix w :: "('g, 'm) bulk_world_scheme" and e w'
    assume "record_attempt r w = (Inl e, w')"
    then show "ow_db w' = ow_db w" by (rule record_attempt_undone)
  qed auto
  then obtain w1 where "ow_db w1 = ow_db w" "record_attempt r w1 = (Inr (), w')" by blast
  moreover from this(2) have "store_call (record_batch r) w1 = (Inr (), w')"
    by (auto simp: record_attempt_def split: prod.splits sum.splits)
  ultimately show ?thesis
    by (auto simp: store_call_def split: prod.splits list.splits option.splits)
qed


section \<open>A whole run\<close>

text \<open>The steps of a run whose clock answered, up to the record.\<close>

definition listed_start ::
    "budgets \<Rightarrow> string \<Rightarrow> u64 \<Rightarrow> bulk_request \<Rightarrow> ('g, 'm) bulk_world_scheme \<Rightarrow>
     ('g, 'm) bulk_world_scheme bulk" where
  "listed_start bu b i request w =
     (let (st, w0) = read_clock w;
          p = queued b (bq_action request) (bq_targets request)
      in (p, snd (run_store_step bu SkBrief (start_batch (running_of p i request st)) (publish_progress p w0))))"

lemma listing_clock: "read_clock w = (t, w') \<Longrightarrow> listing b w w'"
  by (auto simp: read_clock_def listing_def)

lemma listing_publish: "listing b w (publish_progress p w)"
  by (simp add: listing_def publish_progress_def)

lemma listing_start: "listing b w (snd (listed_start bu b i request w))"
proof -
  obtain st w0 where c: "read_clock w = (st, w0)" by fastforce
  let ?p = "queued b (bq_action request) (bq_targets request)"
  let ?w1 = "publish_progress ?p w0"
  have "listing b ?w1 (snd (run_store_step bu SkBrief (start_batch (running_of ?p i request st)) ?w1))"
    by (intro listing_step keeps_start_batch start_batch_beside)
  then show ?thesis
    using listing_trans [OF listing_clock [OF c] listing_trans [OF listing_publish]] c
    by (simp add: listed_start_def Let_def)
qed

lemma run_bulk_split:
  fixes w :: "('g, 'm) bulk_world_scheme"
  defines "E \<equiv> \<lambda>bu callee m b u. (restate_bulk bu callee m b u :: ('g, 'm) bulk_world_scheme bulk_effects)"
  shows "run_bulk_action (E bu callee m b u) i request publish_progress w =
    (let result = drive (E bu callee m b u) i request publish_progress (fst (read_clock w))
           (listed_start bu b i request w)
     in (case fst result of Inl e \<Rightarrow> Inl e | Inr _ \<Rightarrow> Inr (fst (snd result)),
         unlist_unfinished (E bu callee m b u) result))"
proof -
  obtain st w0 where c: "read_clock w = (st, w0)" by fastforce
  let ?p = "queued b (bq_action request) (bq_targets request)"
  have "listed_start bu b i request w =
      (?p, snd (run_store_step bu SkBrief (start_batch (running_of ?p i request st)) (publish_progress ?p w0)))"
    by (simp add: listed_start_def c Let_def)
  then show ?thesis
    by (simp add: run_bulk_action_def E_def run_clock_step_def andthen_def c Let_def)
qed

lemma shows_completed:
  assumes "shows_states b a T (states_of new {}) p" and "mset (map fst new) = mset T"
  shows "bp_completed p"
    and "bp_targets p = map (\<lambda>t. \<lparr>tp_target = t, tp_state = verdict_of (the (map_of new t))\<rparr>) T"
proof -
  have "set T = fst ` set new" using assms(2) by (metis mset_eq_setD set_map)
  then have st: "states_of new {} t = verdict_of (the (map_of new t))" if "t \<in> set T" for t
    using that by (auto simp: states_of_def map_of_eq_None_iff split: option.splits)
  have ts: "bp_targets p = map (\<lambda>t. \<lparr>tp_target = t, tp_state = states_of new {} t\<rparr>) T"
    using assms(1) by (simp add: shows_states_def)
  then show "bp_targets p = map (\<lambda>t. \<lparr>tp_target = t, tp_state = verdict_of (the (map_of new t))\<rparr>) T"
    using st by simp
  show "bp_completed p"
    using assms(1) st unfolding shows_states_def tally_ok_def ts by (auto simp: verdict_def)
qed

lemma valid_request:
  assumes "validate_request uuid_version request b = Inr ()"
  shows "bq_targets request \<noteq> []" "length (bq_targets request) < 2 ^ 63"
    "length (bq_targets request) < 2 ^ 64" "distinct (map target_key (bq_targets request))"
  using assms by (auto simp: validate_request_def validate_batch_Inr_iff)

lemma valid_workflow:
  assumes "validate_request uuid_version request b = Inr ()"
  shows "run_workflow uuid_version (restate_bulk bu callee m b u) i request publish w =
    run_bulk_action (restate_bulk bu callee m b u) i request publish w"
  using assms by (simp add: run_workflow_def andthen_def)

lemma batch_runs:
  assumes "validate_request uuid_version request b = Inr ()"
    and "run_bulk_action (restate_bulk bu callee m b u) i request publish_progress w = (r, w')"
  shows "\<exists>new busy p. batch.running b (bq_action request) (bq_targets request) (groups_of request)
      (answered w) (bw_published w) new busy (p, w') \<and>
    (\<forall>q. r = Inr q \<longrightarrow> q = p \<and> busy = {} \<and> mset (map fst new) = mset (bq_targets request))"
proof -
  have "be_now (restate_bulk bu callee m b u) n w = (Inr (fst (read_clock w)), snd (read_clock w))" for n
    by (simp add: restate_bulk_def run_clock_step_def split: prod.split)
  from batch.bulk_action_runs [OF valid_request(1,3,4) [OF assms(1)] this assms(2)]
  show ?thesis by (simp add: restate_bulk_def)
qed

section \<open>Properties of a batch\<close>

lemma drive_Inr:
  assumes "drive E i request publish st s = (Inr (), s')"
  shows "\<exists>s1 t s2 r. drive_targets E publish request s = (Inr (), s1) \<and>
    on_world (be_now E ''batch-finish-clock'') s1 = (Inr t, s2) \<and>
    completed_record (fst s2) i (bq_user_id request) (bq_retried_from request) st t = Some r \<and>
    on_world (be_record_batch E r) s2 = (Inr (), s')"
  using assms by (auto simp: drive_def finish_batch_def andthen_Inr_iff split: option.splits)

lemma on_world_parts:
  "on_world m s = (r, s') \<Longrightarrow> m (snd s) = (r, snd s') \<and> fst s' = fst s"
  by (cases s) (auto simp: on_world_def split: prod.splits)

lemma recorded_listing: "listing b w w' \<Longrightarrow> recorded (ow_db w') x = recorded (ow_db w) x"
  by (simp add: listing_def recorded_def)

lemma recorded_driven: "driven w w' \<Longrightarrow> recorded (ow_db w') x = recorded (ow_db w) x"
  by (simp add: driven_def beside_batches_def recorded_def)

text \<open>
  C4: A batch that ends well has called every one of its targets once; its progress shows for each
  the verdict of that call and is what the dashboard reads; and the store holds the finished
  batch, from which that progress can be read back, and no longer lists it as running.
\<close>

theorem batch_settles_every_target:
  assumes "validate_request uuid_version request b = Inr ()"
    and "steady callee" and "db_ok (ow_db w)" and "b \<notin> b_batch_id ` set (db_batches (ow_db w))"
    and "run_workflow uuid_version (restate_bulk bu callee m b (bq_user_id request)) i request
      publish_progress w = (Inr p, w')"
  shows "\<exists>calls r. answered w' = answered w @ calls \<and>
    mset (map fst calls) = mset (bq_targets request) \<and>
    bp_targets p = map (\<lambda>t. \<lparr>tp_target = t, tp_state = verdict_of (the (map_of calls t))\<rparr>)
      (bq_targets request) \<and>
    read_progress w' = Some p \<and>
    get_batch i b (ow_db w') = Inr (Some (BatchFinished r)) \<and> progress_of_record r = p \<and>
    b \<notin> n_batch_id ` set (db_running (ow_db w'))"
proof -
  let ?E = "restate_bulk bu callee m b (bq_user_id request)"
  note T = valid_request [OF assms(1)]
  have run: "run_bulk_action ?E i request publish_progress w = (Inr p, w')"
    using assms(5) by (simp add: valid_workflow [OF assms(1)])
  from batch_runs [OF assms(1) run] obtain calls where
    runs: "batch.running b (bq_action request) (bq_targets request) (groups_of request)
      (answered w) (bw_published w) calls {} (p, w')"
    and all: "mset (map fst calls) = mset (bq_targets request)" by blast
  have sh: "shows_states b (bq_action request) (bq_targets request) (states_of calls {}) p"
    and ans: "answered w' = answered w @ calls"
    and read: "read_progress w' = Some p"
    using runs by (auto simp: batch.running_def read_progress_def)
  note fin = shows_completed [OF sh all]
  let ?s0 = "listed_start bu b i request w"
  obtain s1 where d: "drive ?E i request publish_progress (fst (read_clock w)) ?s0 = (Inr (), s1)"
    and s1: "s1 = (p, w')"
    using run unfolding run_bulk_split
    by (auto simp: Let_def unlist_unfinished_def split: sum.splits prod.splits)
  from drive_Inr [OF d] obtain s2 t s3 r where
    targets: "drive_targets ?E publish_progress request ?s0 = (Inr (), s2)"
    and clock: "on_world (be_now ?E ''batch-finish-clock'') s2 = (Inr t, s3)"
    and rec: "completed_record (fst s3) i (bq_user_id request) (bq_retried_from request)
      (fst (read_clock w)) t = Some r"
    and step: "on_world (be_record_batch ?E r) s3 = (Inr (), s1)" by blast
  have quiet: "ow_db (snd s3) = ow_db (snd s2)"
    using run_clock_same [of "snd s2"] on_world_parts [OF clock] by (simp add: same_db_def)
  have p3: "fst s3 = p" using on_world_parts [OF step] s1 by simp
  have wrote: "record_batch r (ow_db (snd s3)) = (Inr (), ow_db w')"
    using on_world_parts [OF step] s1 record_step_Inr by (metis snd_conv)
  have dr: "driven (snd ?s0) (snd s2)" using driven_drive_targets [OF assms(2) targets] by simp
  have ok: "db_ok (ow_db (snd s3))"
    using dr listing_start [of b w bu i request] assms(3) quiet
    by (simp add: driven_def beside_batches_def listing_def)
  have id: "bc_batch_id r = b" "bc_installation_id r = i" "length (bc_targets r) = length (bq_targets request)"
    using rec p3 sh by (auto simp: completed_record_def shows_states_def collect_options_Some
        dest: arg_cong [where f = length])
  have new: "\<not> recorded (ow_db (snd s3)) b"
    using assms(4) quiet recorded_driven [OF dr] recorded_listing [OF listing_start]
    by (metis recorded_def)
  have fit: "batch_fits r" using record_fits [OF wrote] new id T(2) by simp
  have stored: "get_batch i b (ow_db w') = Inr (Some (BatchFinished r))"
    using get_batch_recorded [OF ok fit _ wrote] new id by simp
  have unlisted: "b \<notin> n_batch_id ` set (db_running (ow_db w'))"
    using wrote
  proof (cases rule: record_batch_cases)
    case again
    then show ?thesis using unlisted_running id by metis
  next
    case (first row rows)
    then show ?thesis using unlisted_running [of b "ow_db (snd s3)"] id by simp
  qed
  have "progress_of_record r = p"
    using progress_of_completed_record [OF rec [unfolded p3] fin(1)] .
  then show ?thesis using ans all fin(2) read stored unlisted by blast
qed

text \<open>
  C7: However a batch ends, no progress it ever published shows more than three targets in flight,
  or more than one for a rebase, and for a merge never two of one repository.
\<close>

theorem in_flight_bounded:
  assumes "validate_request uuid_version request b = Inr ()"
    and "run_workflow uuid_version (restate_bulk bu callee m b (bq_user_id request)) i request
      publish_progress w = (r, w')"
    and "q \<in> set (drop (length (bw_published w)) (bw_published w'))"
  shows "length (in_flight q) \<le> 3 \<and>
    (bq_action request = BkMerge \<longrightarrow> distinct (map tg_repository_id (in_flight q))) \<and>
    (bq_action request = BkRebase \<longrightarrow> length (in_flight q) \<le> 1)"
proof -
  have "run_bulk_action (restate_bulk bu callee m b (bq_user_id request)) i request publish_progress w = (r, w')"
    using assms(2) by (simp add: valid_workflow [OF assms(1)])
  from batch_runs [OF assms(1) this] obtain pubs where
    pubs: "bw_published w' = bw_published w @ pubs" and
    flights: "\<forall>q\<in>set pubs. \<exists>g\<in>groups_of request. set (in_flight q) \<subseteq> set g \<and> distinct (in_flight q)"
    by (auto simp: batch.running_def)
  have "q \<in> set pubs" using assms(3) pubs by simp
  with flights obtain g where
    g: "g \<in> groups_of request" "set (in_flight q) \<subseteq> set g" "distinct (in_flight q)" by blast
  note bounds = groups_bounded [OF g(1)]
  have len: "length (in_flight q) \<le> length g"
    using g(2,3) by (metis card_length card_mono distinct_card finite_set le_trans)
  have "distinct (map tg_repository_id (in_flight q))" if "bq_action request = BkMerge"
  proof -
    have "inj_on tg_repository_id (set g)" using bounds that by (simp add: distinct_map)
    then show ?thesis using g(2,3) by (simp add: distinct_map inj_on_subset)
  qed
  then show ?thesis using bounds len by (auto simp: MAX_CONCURRENT_def)
qed


lemma start_running:
  assumes "validate_request uuid_version request b = Inr ()"
  shows "batch.running b (bq_action request) (bq_targets request) (groups_of request) (answered w)
    (bw_published w) [] {} (listed_start bu b i request w)"
proof -
  note T = valid_request [OF assms(1)]
  let ?p = "queued b (bq_action request) (bq_targets request)"
  obtain st w0 where c: "read_clock w = (st, w0)" by fastforce
  let ?w1 = "publish_progress ?p w0"
  have s0: "fst (listed_start bu b i request w) = ?p" "same_own ?w1 (snd (listed_start bu b i request w))"
    by (simp_all add: listed_start_def c Let_def run_store_own)
  have "bw_answers w0 = bw_answers w" "bw_published w0 = bw_published w"
    using c by (auto simp: read_clock_def)
  then have "answered (snd (listed_start bu b i request w)) = answered w"
    "bw_published (snd (listed_start bu b i request w)) = bw_published w @ [?p]"
    using same_own_bulk [OF s0(2)] by (simp_all add: same_bulk_def answered_def publish_progress_def)
  moreover have "in_flight ?p = []" by (simp add: in_flight_def queued_def)
  ultimately show ?thesis
    using shows_queued [OF T(1,3)] s0(1) by (auto simp: batch.running_def groups_of_def)
qed

text \<open>Once every target has been driven, the progress is complete and has a record.\<close>

lemma driven_record:
  assumes "validate_request uuid_version request b = Inr ()"
    and "drive_targets (restate_bulk bu callee m b u) publish_progress request
      (listed_start bu b i request w) = (Inr (), s2)"
  shows "bp_completed (fst s2) \<and> map tp_target (bp_targets (fst s2)) = bq_targets request \<and>
    tally_ok (fst s2)"
proof -
  note T = valid_request [OF assms(1)]
  from batch.running_drive_targets [OF T(4) start_running [OF assms(1)] assms(2)] obtain new where
    run: "batch.running b (bq_action request) (bq_targets request) (groups_of request) (answered w)
      (bw_published w) new {} s2"
    and all: "mset (map fst new) = mset (bq_targets request)" by auto
  then have "shows_states b (bq_action request) (bq_targets request) (states_of new {}) (fst s2)"
    by (simp add: batch.running_def)
  from this shows_completed(1) [OF this all] show ?thesis
    by (simp add: shows_states_def comp_def)
qed

lemma record_of_fits:
  assumes "tally_ok p" "length (bp_targets p) < 2 ^ 63" and "completed_record p i u f st t = Some r"
    and "fits i" "fits st" "fits t"
    and "\<forall>x\<in>set (bp_targets p). fits (tg_repository_id (tp_target x)) \<and> fits (tg_number (tp_target x))"
  shows "batch_fits r"
proof -
  obtain ts where ts: "map target_record (bp_targets p) = map Some ts"
    and r: "bc_installation_id r = i" "bc_started_at r = st" "bc_completed_at r = t" "bc_targets r = ts"
      "bc_succeeded r = bp_succeeded p" "bc_rejected r = bp_rejected p" "bc_failed r = bp_failed p"
    using assms(3) by (auto simp: completed_record_def collect_options_Some)
  have len: "length ts = length (bp_targets p)" using ts by (metis length_map)
  have small: "fits (of_nat (count_state P (bp_targets p)))" for P
  proof -
    have "count_state P (bp_targets p) < 2 ^ 63"
      using assms(2) length_filter_le le_less_trans unfolding count_state_def by blast
    then show ?thesis by (simp add: fits_def unsigned_of_nat take_bit_nat_eq_self)
  qed
  have "fits (bt_repository_id y) \<and> fits (bt_number y)" if "y \<in> set ts" for y
  proof -
    from that have "Some y \<in> set (map target_record (bp_targets p))" unfolding ts by simp
    then show ?thesis using assms(7) by (auto simp: target_record_def split: option.splits)
  qed
  then show ?thesis
    using assms(1,2,4-6) small r len by (simp add: batch_fits_def tally_ok_def)
qed

lemma batch_completes:
  assumes "validate_request uuid_version request b = Inr ()" and "steady callee"
    and "None \<notin> set (bw_awaits w)" and "length (ow_faults w) \<le> bu_store bu SkLastChance"
    and "fits i" and "\<And>n. fits (ow_times w n)"
    and "\<And>t. t \<in> set (bq_targets request) \<Longrightarrow> fits (tg_repository_id t) \<and> fits (tg_number t)"
  shows "\<exists>p w'. run_workflow uuid_version (restate_bulk bu callee m b (bq_user_id request)) i request
    publish_progress w = (Inr p, w')"
proof -
  let ?E = "restate_bulk bu callee m b (bq_user_id request)"
  note T = valid_request [OF assms(1)]
  let ?s0 = "listed_start bu b i request w"
  have start: "listing b w (snd ?s0)" by (rule listing_start)
  obtain r2 s2 where targets: "drive_targets ?E publish_progress request ?s0 = (r2, s2)" by (metis surj_pair)
  note dr = driven_drive_targets [OF assms(2) targets]
  have r2: "r2 = Inr ()" using dr start assms(3) by (simp add: listing_def)
  obtain t s3 where clock: "on_world (be_now ?E ''batch-finish-clock'') s2 = (Inr t, s3)"
    and s3: "fst s3 = fst s2" "ow_faults (snd s3) = ow_faults (snd s2)" and t: "t \<in> range (ow_times (snd s2))"
    by (cases s2) (simp add: on_world_def run_clock_step_def read_clock_def)
  have times: "fits t" "fits (fst (read_clock w))"
    using t dr start assms(6) by (auto simp: driven_def listing_def read_clock_def)
  note complete = driven_record [OF assms(1) targets [unfolded r2]]
  obtain r where rec: "completed_record (fst s3) i (bq_user_id request) (bq_retried_from request)
      (fst (read_clock w)) t = Some r"
    using completed_record_iff complete s3 by fastforce
  have len: "length (bp_targets (fst s3)) = length (bq_targets request)"
    using complete s3(1) by (metis length_map)
  have "\<forall>x\<in>set (bp_targets (fst s3)). fits (tg_repository_id (tp_target x)) \<and> fits (tg_number (tp_target x))"
  proof
    fix x
    assume "x \<in> set (bp_targets (fst s3))"
    then have "tp_target x \<in> set (map tp_target (bp_targets (fst s3)))" by simp
    then have "tp_target x \<in> set (bq_targets request)" using complete s3(1) by metis
    then show "fits (tg_repository_id (tp_target x)) \<and> fits (tg_number (tp_target x))" by (rule assms(7))
  qed
  then have "batch_fits r"
    using record_of_fits [OF _ _ rec assms(5) times(2,1)] complete s3(1) len T(2) by simp
  moreover have "length (ow_faults (snd s3)) \<le> bu_store bu SkLastChance"
    using s3 dr start assms(4) by (simp add: driven_def listing_def)
  ultimately obtain w4 where w4: "restate_run (bu_store bu SkLastChance) (record_attempt r) (snd s3) = (Inr (), w4)"
    using record_lands by blast
  then have step: "on_world (be_record_batch ?E r) s3 = (Inr (), (fst s3, w4))"
    by (cases s3) (simp add: on_world_def restate_bulk_def or_terminal_def)
  have "drive ?E i request publish_progress (fst (read_clock w)) ?s0 = (Inr (), (fst s3, w4))"
    using targets r2 clock rec step by (simp add: drive_def finish_batch_def andthen_def)
  then show ?thesis
    by (simp add: valid_workflow [OF assms(1)] run_bulk_split Let_def)
qed

text \<open>
  C6: A batch that is not cancelled ends well: its targets may all fail, its listing may be
  refused, and the store may answer with any errors, in any number its last write outlasts.
\<close>

theorem batch_outlasts_failures:
  assumes "validate_request uuid_version request b = Inr ()" and "steady callee"
    and "None \<notin> set (bw_awaits w)" and "length (ow_faults w) \<le> bu_store bu SkLastChance"
    and "fits i" and "\<And>n. fits (ow_times w n)"
    and "\<And>t. t \<in> set (bq_targets request) \<Longrightarrow> fits (tg_repository_id t) \<and> fits (tg_number t)"
  shows "\<exists>p w'. run_workflow uuid_version (restate_bulk bu callee m b (bq_user_id request)) i request
    publish_progress w = (Inr p, w')"
  by (rule batch_completes [OF assms])

lemma record_step_faults:
  "length (ow_faults (snd (or_terminal (restate_run n (record_attempt r)) w))) \<le> length (ow_faults w)"
  unfolding or_terminal_snd
proof (rule restate_run_keeps [where I = "\<lambda>a b. length (ow_faults b) \<le> length (ow_faults a)"])
  fix w :: "('a, 'b) bulk_world_scheme"
  show "length (ow_faults (snd (record_attempt r w))) \<le> length (ow_faults w)"
    by (auto simp: record_attempt_def store_call_def read_clock_def warn_if_record_stuck_def Let_def
        split: prod.splits sum.splits list.splits option.splits)
qed auto

lemma restate_run_Inl:
  assumes "restate_run n step w = (Inl e, w')"
    and "\<And>w. J w w" "\<And>a b c. J a b \<Longrightarrow> J b c \<Longrightarrow> J a c"
    and "\<And>w e w'. step w = (Inl e, w') \<Longrightarrow> J w w'"
  shows "J w w'"
  using assms(1)
proof (induction n arbitrary: w)
  case 0
  then show ?case using assms(4) by (auto split: prod.splits sum.splits handler_error.splits)
next
  case (Suc n)
  show ?case
  proof (cases "step w")
    case (Pair x w1)
    show ?thesis
    proof (cases x)
      case (Inl f)
      then have "J w w1" using Pair assms(4) by blast
      then show ?thesis using Pair Inl Suc assms(3) by (cases f) auto
    qed (use Pair Suc in simp)
  qed
qed

lemma record_step_Inl:
  fixes w :: "('g, 'm) bulk_world_scheme"
  assumes "be_record_batch (restate_bulk bu callee m b u) r w = (Inl e, w')"
  shows "ow_db w' = ow_db w"
proof -
  obtain f where "restate_run (bu_store bu SkLastChance) (record_attempt r) w = (Inl f, w')"
    using assms by (auto simp: restate_bulk_def or_terminal_def split: prod.splits sum.splits)
  then show ?thesis
  proof (rule restate_run_Inl [where J = "\<lambda>a b. ow_db b = ow_db a"])
    fix w :: "('g, 'm) bulk_world_scheme" and e w'
    assume "record_attempt r w = (Inl e, w')"
    then show "ow_db w' = ow_db w" by (rule record_attempt_undone)
  qed auto
qed

lemma run_store_now:
  assumes "ow_faults w = []" and "op (ow_db w) = (Inr a, d)"
  shows "\<exists>w'. run_store_step bu k op w = (Inr a, w') \<and> ow_db w' = d \<and> ow_faults w' = []"
proof -
  have call: "store_call op w = (Inr a, w\<lparr>ow_faults := [], ow_db := d\<rparr>)"
    using assms by (simp add: store_call_def)
  have "restate_run n (\<lambda>w. case store_call op w of (Inl e, w') \<Rightarrow> (Inl (read_failure k e), w')
      | (Inr a, w') \<Rightarrow> (Inr a, w')) w = (Inr a, w\<lparr>ow_faults := [], ow_db := d\<rparr>)" for n
    by (cases n) (simp_all add: call)
  then show ?thesis by (simp add: run_store_step_def or_terminal_def)
qed

lemma start_lists:
  assumes "ow_faults w = []" "fits i" "fits (fst (read_clock w))" "length (bq_targets request) < 2 ^ 63"
  shows "listed b (ow_db (snd (listed_start bu b i request w)))"
proof -
  obtain st w0 where c: "read_clock w = (st, w0)" by fastforce
  let ?p = "queued b (bq_action request) (bq_targets request)"
  let ?rb = "running_of ?p i request st"
  let ?w1 = "publish_progress ?p w0"
  have faults: "ow_faults ?w1 = []" using c assms(1) by (auto simp: read_clock_def publish_progress_def)
  have "fits (of_nat (length (bq_targets request)))"
    using assms(4) by (simp add: fits_def unsigned_of_nat take_bit_nat_eq_self)
  then have "\<exists>row. row_of_running ?rb = Inr row"
    using assms(2,3) c by (auto simp: row_of_running_def running_of_def)
  then obtain d where d: "start_batch ?rb (ow_db ?w1) = (Inr (), d)"
    by (auto simp: start_batch_def andthen_def)
  from run_store_now [where op = "start_batch ?rb", OF faults d] obtain w2 where
    "run_store_step bu SkBrief (start_batch ?rb) ?w1 = (Inr (), w2)" "ow_db w2 = d" by blast
  moreover have "listed b d" using start_batch_lists [OF d] by (simp add: running_of_def queued_def)
  ultimately show ?thesis by (simp add: listed_start_def c Let_def)
qed

text \<open>A drive that fails has left the tables of batches as it found them.\<close>

lemma failed_drive:
  assumes "steady callee"
    and "drive (restate_bulk bu callee m b u) i request publish_progress st s = (r, s')" "isl r"
  shows "db_running (ow_db (snd s')) = db_running (ow_db (snd s)) \<and>
    db_batches (ow_db (snd s')) = db_batches (ow_db (snd s)) \<and>
    length (ow_faults (snd s')) \<le> length (ow_faults (snd s))"
proof -
  let ?E = "restate_bulk bu callee m b u"
  obtain r1 s1 where targets: "drive_targets ?E publish_progress request s = (r1, s1)" by (metis surj_pair)
  have d: "beside_batches (ow_db (snd s)) (ow_db (snd s1))" "ow_faults (snd s1) = ow_faults (snd s)"
    using driven_drive_targets [OF assms(1) targets] by (auto simp: driven_def)
  show ?thesis
  proof (cases r1)
    case (Inl e)
    then have "s' = s1" using assms(2) targets by (simp add: drive_def)
    then show ?thesis using d by (simp add: beside_batches_def)
  next
    case (Inr v)
    obtain t s2 where clock: "on_world (be_now ?E ''batch-finish-clock'') s1 = (Inr t, s2)"
      and s2: "ow_db (snd s2) = ow_db (snd s1)" "ow_faults (snd s2) = ow_faults (snd s1)"
      by (cases s1) (simp add: on_world_def run_clock_step_def read_clock_def)
    have fin: "finish_batch ?E i request st s1 = (r, s')" using assms(2) targets Inr by (simp add: drive_def)
    show ?thesis
    proof (cases "completed_record (fst s2) i (bq_user_id request) (bq_retried_from request) st t")
      case None
      then have "s' = s2" using fin clock by (simp add: finish_batch_def andthen_def)
      then show ?thesis using d s2 by (simp add: beside_batches_def)
    next
      case (Some x)
      then have "on_world (be_record_batch ?E x) s2 = (r, s')"
        using fin clock by (simp add: finish_batch_def andthen_def)
      from on_world_parts [OF this] assms(3) obtain e where
        rec: "be_record_batch ?E x (snd s2) = (Inl e, snd s')" by (cases r) auto
      have "snd s' = snd (or_terminal (restate_run (bu_store bu SkLastChance) (record_attempt x)) (snd s2))"
        using arg_cong [OF rec, of snd] by (simp add: restate_bulk_def)
      then have "length (ow_faults (snd s')) \<le> length (ow_faults (snd s2))"
        using record_step_faults by metis
      then show ?thesis using record_step_Inl [OF rec] d s2 by (auto simp: beside_batches_def)
    qed
  qed
qed

lemma unlist_keeps_batches:
  "db_batches (ow_db (snd (run_store_step bu k (unlist_batch b) w))) = db_batches (ow_db w)"
  unfolding run_store_step_def or_terminal_snd
  by (rule restate_run_keeps [where I = "\<lambda>w w'. db_batches (ow_db w') = db_batches (ow_db w)"])
    (auto simp: store_call_def unlist_batch_def split: list.splits option.splits prod.splits sum.splits)

text \<open>A workflow that ends in error, taken apart: the drive that failed, and what became of the listing.\<close>

lemma failed_workflow:
  assumes "validate_request uuid_version request b = Inr ()" and "steady callee"
    and "run_workflow uuid_version (restate_bulk bu callee m b (bq_user_id request)) i request
      publish_progress w = (Inl e, w')"
  obtains r p w1 where "isl r" "bp_completed (last (bw_published w1)) = bp_completed p"
    "w' = unlist_unfinished (restate_bulk bu callee m b (bq_user_id request)) (r, p, w1)"
    "db_running (ow_db w1) = db_running (ow_db (snd (listed_start bu b i request w)))"
    "db_batches (ow_db w1) = db_batches (ow_db w)"
    "ow_faults w = [] \<Longrightarrow> ow_faults w1 = []"
proof -
  let ?E = "restate_bulk bu callee m b (bq_user_id request)"
  let ?s0 = "listed_start bu b i request w"
  have start: "listing b w (snd ?s0)" by (rule listing_start)
  obtain r p1 w1 where d: "drive ?E i request publish_progress (fst (read_clock w)) ?s0 = (r, (p1, w1))"
    by (metis surj_pair)
  have r: "isl r" and w': "w' = unlist_unfinished ?E (r, p1, w1)"
    using assms(3) d by (auto simp: valid_workflow [OF assms(1)] run_bulk_split Let_def split: sum.splits)
  from batch.running_drive [OF valid_request(4) [OF assms(1)] start_running [OF assms(1)] d] obtain new busy where
    "batch.running b (bq_action request) (bq_targets request) (groups_of request) (answered w)
      (bw_published w) new busy (p1, w1)" by blast
  then have last: "last (bw_published w1) = p1" by (auto simp: batch.running_def)
  show ?thesis
    by (rule that [OF r _ w']) (use last start failed_drive [OF assms(2) d r] in \<open>auto simp: listing_def\<close>)
qed

text \<open>
  C8: A batch that ends in error has recorded nothing, whatever the store answers. When the store
  answers every call (no fault in the whole run, and an installation and clock that fit its
  integers), the batch is on the list of running batches afterwards exactly when every target had
  its verdict: one cut short is taken off, one whose record alone is missing is kept as evidence.
  Listing and unlisting are best effort, so with a store out of reach only the first half holds.
\<close>

theorem unfinished_batch_unlisted:
  assumes "validate_request uuid_version request b = Inr ()" and "steady callee"
    and "run_workflow uuid_version (restate_bulk bu callee m b (bq_user_id request)) i request
      publish_progress w = (Inl e, w')"
  shows "db_batches (ow_db w') = db_batches (ow_db w) \<and>
    (ow_faults w = [] \<and> fits i \<and> (\<forall>n. fits (ow_times w n)) \<longrightarrow>
      (b \<in> n_batch_id ` set (db_running (ow_db w')) \<longleftrightarrow> bp_completed (last (bw_published w'))))"
  using assms
proof (rule failed_workflow)
  let ?E = "restate_bulk bu callee m b (bq_user_id request)"
  fix r p w1
  assume r: "isl (r :: handler_error + unit)" and last: "bp_completed (last (bw_published w1)) = bp_completed p"
    and w': "w' = unlist_unfinished ?E (r, p, w1)"
    and run: "db_running (ow_db w1) = db_running (ow_db (snd (listed_start bu b i request w)))"
    and bat: "db_batches (ow_db w1) = db_batches (ow_db w)"
    and faults: "ow_faults w = [] \<Longrightarrow> ow_faults w1 = []"
  obtain x w2 where u: "run_store_step bu SkOrdinary (unlist_batch b) w1 = (x, w2)" by fastforce
  have pub: "bw_published w2 = bw_published w1"
    using same_own_bulk [OF run_store_own [of w1 bu SkOrdinary "unlist_batch b"]] u by (simp add: same_bulk_def)
  have b2: "db_batches (ow_db w2) = db_batches (ow_db w1)"
    using unlist_keeps_batches [of bu SkOrdinary b w1] u by simp
  have batches: "db_batches (ow_db w') = db_batches (ow_db w)"
    using w' r u b2 bat by (cases x) (auto simp: unlist_unfinished_def)
  have "b \<in> n_batch_id ` set (db_running (ow_db w')) \<longleftrightarrow> bp_completed (last (bw_published w'))"
    if "ow_faults w = []" "fits i" "\<forall>n. fits (ow_times w n)"
  proof -
    have "listed b (ow_db (snd (listed_start bu b i request w)))"
      by (rule start_lists) (use that valid_request [OF assms(1)] in \<open>auto simp: read_clock_def\<close>)
    then have on: "b \<in> n_batch_id ` set (db_running (ow_db w1))" using run by (simp add: listed_def)
    show ?thesis
    proof (cases "bp_completed p")
      case True
      then show ?thesis using w' on last by (simp add: unlist_unfinished_def)
    next
      case False
      have "unlist_batch b (ow_db w1) = (Inr (), (ow_db w1)\<lparr>db_running :=
          filter (\<lambda>n. n_batch_id n \<noteq> b) (db_running (ow_db w1))\<rparr>)" by (simp add: unlist_batch_def)
      from run_store_now [where op = "unlist_batch b" and bu = bu and k = SkOrdinary, OF faults [OF that(1)] this] u
      have "x = Inr ()" "ow_db w2 = (ow_db w1)\<lparr>db_running :=
          filter (\<lambda>n. n_batch_id n \<noteq> b) (db_running (ow_db w1))\<rparr>" by auto
      then show ?thesis using w' r u pub False last by (auto simp: unlist_unfinished_def)
    qed
  qed
  with batches show ?thesis by blast
qed

section \<open>Instances\<close>

definition bump_request :: "bulk_action_kind \<Rightarrow> bulk_request" where
  "bump_request action = \<lparr>bq_action = action, bq_targets = two_targets, bq_user_id = ''u'',
     bq_retried_from = None\<rparr>"

text \<open>Objects that merge the first target and are gone for the second.\<close>

definition two_objects :: "unit callee" where
  "two_objects c s = (if fst c = ''1#7'' then Inr (Succeeded ''merged'' (Some ''abc''))
     else Inl ''gone'', s)"

definition bulk_start :: "store_error option list \<Rightarrow> nat option list \<Rightarrow> unit bulk_world" where
  "bulk_start faults awaits = \<lparr>ow_db = empty_db, ow_faults = faults, ow_remote = (), ow_times = (\<lambda>_. 9),
     ow_reads = 0, ow_slept = [], bw_awaits = awaits, bw_answers = [], bw_published = [], bw_warned = []\<rparr>"

definition patient :: budgets where
  "patient = \<lparr>bu_store = (\<lambda>_. 3), bu_github = 0\<rparr>"

definition bump_run ::
    "bulk_action_kind \<Rightarrow> store_error option list \<Rightarrow> nat option list \<Rightarrow>
     (handler_error + batch_progress) \<times> unit bulk_world" where
  "bump_run action faults awaits = run_workflow (\<lambda>_. Some 7)
     (restate_bulk patient two_objects ''cancelled'' ''b'' (bq_user_id (bump_request action))) 5
     (bump_request action) publish_progress (bulk_start faults awaits)"

lemma two_objects_steady: "steady two_objects"
  by (simp add: steady_def two_objects_def beside_batches_def)

lemma bump_valid: "validate_request (\<lambda>_. Some 7) (bump_request action) ''b'' = Inr ()"
  by (simp add: validate_request_def validate_batch_Inr_iff bump_request_def valid_batch_id_def
      two_targets_def target_key_def)

lemma bump_completes:
  assumes "None \<notin> set awaits" "length faults \<le> 3"
  shows "\<exists>p w'. bump_run action faults awaits = (Inr p, w')"
  unfolding bump_run_def
  using assms
  by (intro batch_completes [OF bump_valid two_objects_steady])
    (auto simp: bulk_start_def patient_def fits_def bump_request_def two_targets_def)

theorem batch_settles_every_target_witness:
  "\<exists>p w'. bump_run BkMerge [] [Some 1] = (Inr p, w') \<and> read_progress w' = Some p"
proof -
  obtain p w' where run: "bump_run BkMerge [] [Some 1] = (Inr p, w')" using bump_completes by fastforce
  have "db_ok (ow_db (bulk_start [] [Some 1]))"
    "''b'' \<notin> b_batch_id ` set (db_batches (ow_db (bulk_start [] [Some 1])))"
    by (simp_all add: bulk_start_def) (simp add: empty_db_def)
  from batch_settles_every_target [OF bump_valid two_objects_steady this run [unfolded bump_run_def]] run
  show ?thesis by blast
qed

theorem in_flight_bounded_witness:
  "\<exists>q\<in>set (bw_published (snd (bump_run BkMerge [] []))). distinct (map tg_repository_id (in_flight q))"
proof -
  obtain r w' where run: "bump_run BkMerge [] [] = (r, w')" by fastforce
  have "run_bulk_action (restate_bulk patient two_objects ''cancelled'' ''b'' (bq_user_id (bump_request BkMerge))) 5
      (bump_request BkMerge) publish_progress (bulk_start [] []) = (r, w')"
    using run by (simp add: bump_run_def valid_workflow [OF bump_valid])
  from batch_runs [OF bump_valid this] have "bw_published w' \<noteq> []"
    by (auto simp: batch.running_def)
  then have "last (bw_published w') \<in> set (bw_published w')"
    and "last (bw_published w') \<in> set (drop (length (bw_published (bulk_start [] []))) (bw_published w'))"
    by (simp_all add: bulk_start_def)
  from this(1) in_flight_bounded [OF bump_valid run [unfolded bump_run_def] this(2)] show ?thesis
    using run by (auto simp: bump_request_def)
qed

theorem batch_outlasts_failures_witness:
  "\<exists>p w'. bump_run BkRebase [Some (StJson ''x''), None] [] = (Inr p, w')"
  unfolding bump_run_def
  by (intro batch_outlasts_failures [OF bump_valid two_objects_steady])
    (auto simp: bulk_start_def patient_def fits_def bump_request_def two_targets_def)

lemma bump_cancelled: "isl (fst (bump_run BkUpdateBranch [] [None]))"
proof -
  let ?s = "listed_start patient ''b'' 5 (bump_request BkUpdateBranch) (bulk_start [] [None])"
  have awaits: "bw_awaits (snd ?s) = [None]"
    using listing_start [of "''b''" "bulk_start [] [None]"] by (simp add: listing_def) (simp add: bulk_start_def)
  have "isl (fst (drive_targets (restate_bulk patient two_objects ''cancelled'' ''b'' u) publish_progress
      (bump_request BkUpdateBranch) s))" if "bw_awaits (snd s) = [None]" for u and s :: "unit bulk_world bulk"
    using that
    by (cases s) (simp add: drive_targets_def bump_request_def two_targets_def MAX_CONCURRENT_def chunks_eqs
        restate_bulk_def start_round_def land_round.simps next_await_def publish_progress_def andthen_def Let_def)
  from this [OF awaits, of "bq_user_id (bump_request BkUpdateBranch)"] show ?thesis
    by (auto simp: bump_run_def valid_workflow [OF bump_valid] run_bulk_split drive_def andthen_def Let_def
        split: prod.splits sum.splits)
qed

theorem unfinished_batch_unlisted_witness:
  "db_batches (ow_db (snd (bump_run BkUpdateBranch [] [None]))) = [] \<and>
   (''b'' \<in> n_batch_id ` set (db_running (ow_db (snd (bump_run BkUpdateBranch [] [None])))) \<longleftrightarrow>
     bp_completed (last (bw_published (snd (bump_run BkUpdateBranch [] [None])))))"
proof -
  obtain e w' where run: "bump_run BkUpdateBranch [] [None] = (Inl e, w')"
    using bump_cancelled by (cases "bump_run BkUpdateBranch [] [None]") (auto simp: isl_def)
  have "ow_faults (bulk_start [] [None]) = []" "fits 5" "fits (ow_times (bulk_start [] [None]) n)" for n
    by (simp_all add: bulk_start_def fits_def)
  with unfinished_batch_unlisted [OF bump_valid two_objects_steady run [unfolded bump_run_def]] run
  have "db_batches (ow_db w') = db_batches (ow_db (bulk_start [] [None])) \<and>
      (''b'' \<in> n_batch_id ` set (db_running (ow_db w')) \<longleftrightarrow> bp_completed (last (bw_published w')))" by blast
  then show ?thesis using run by (simp add: bulk_start_def) (simp add: empty_db_def)
qed

end
