(* ===== verification/Github_Wire.thy ===== *)
theory Github_Wire
  imports Github_Errors Core_Pr_State Text
begin

text \<open>
  What GitHub answers and how it is read: the shapes of the REST and GraphQL answers
  (\<^verbatim>\<open>crates/github/src/rest.rs\<close>, \<^verbatim>\<open>graphql.rs\<close>), the rate-limit headers, the fold of the pages of
  a repository listing, the roll-up of a commit's checks, the metadata Dependabot leaves in a
  commit message (\<^verbatim>\<open>dependabot_metadata.rs\<close>), and the record a snapshot is projected to. The
  JSON, YAML, regular expression, version and date libraries are parameters.
\<close>

section \<open>Answers\<close>

record http_response =
  hs_status :: u16
  hs_headers :: "string \<Rightarrow> string option"
  hs_body :: string

definition success_status :: "u16 \<Rightarrow> bool" where
  "success_status status \<longleftrightarrow> 200 \<le> status \<and> status < 300"

record rate_limit_headers =
  rh_remaining :: "u64 option"
  rh_reset :: "u64 option"
  rh_retry_after :: "u64 option"

definition header_u64 :: "http_response \<Rightarrow> string \<Rightarrow> u64 option" where
  "header_u64 response name = Option.bind (hs_headers response name) parse_u64"

definition read_rate_limit :: "http_response \<Rightarrow> rate_limit_headers" where
  "read_rate_limit response =
     \<lparr>rh_remaining = header_u64 response ''x-ratelimit-remaining'',
      rh_reset = header_u64 response ''x-ratelimit-reset'',
      rh_retry_after = header_u64 response ''retry-after''\<rparr>"

definition rate_limit_error ::
    "rate_limit_headers \<Rightarrow> u16 \<Rightarrow> string \<Rightarrow> string option \<Rightarrow> error_response" where
  "rate_limit_error h status message documentation_url =
     \<lparr>er_status = status, er_message = message, er_documentation_url = documentation_url,
      er_rate_limit_remaining = rh_remaining h, er_rate_limit_reset = rh_reset h,
      er_retry_after_seconds = rh_retry_after h\<rparr>"

text \<open>\<open>GithubErrorBody\<close>, defaulted when the body of a failed answer does not decode.\<close>

record error_body =
  eb_message :: string
  eb_documentation_url :: "string option"

definition default_error_body :: error_body where
  "default_error_body = \<lparr>eb_message = [], eb_documentation_url = None\<rparr>"

definition http_error :: "(string \<Rightarrow> string + error_body) \<Rightarrow> http_response \<Rightarrow> error_response" where
  "http_error decode response =
     (let body = (case decode (hs_body response) of Inl _ \<Rightarrow> default_error_body | Inr b \<Rightarrow> b)
      in rate_limit_error (read_rate_limit response) (hs_status response) (eb_message body)
           (eb_documentation_url body))"

definition parse_response ::
    "(string \<Rightarrow> string + error_body) \<Rightarrow> (string \<Rightarrow> string + 'a) \<Rightarrow> http_response \<Rightarrow> github_error + 'a" where
  "parse_response decode_error decode response =
     (if success_status (hs_status response)
      then (case decode (hs_body response) of
              Inl e \<Rightarrow> Inl (GeProtocol (PeBody e)) | Inr a \<Rightarrow> Inr a)
      else Inl (GeHttp (http_error decode_error response) False))"

text \<open>\<open>parse_rfc3339\<close> gives the seconds since the epoch, negative before it.\<close>

definition parse_timestamp :: "(string \<Rightarrow> string + int) \<Rightarrow> string \<Rightarrow> github_error + u64" where
  "parse_timestamp parse_rfc3339 value =
     (case parse_rfc3339 value of
        Inl e \<Rightarrow> Inl (GeProtocol (PeTimestamp e))
      | Inr t \<Rightarrow> if t < 0 then Inl (GeProtocol PeTimestampBeforeEpoch) else Inr (of_int t))"

section \<open>REST shapes\<close>

record github_pull =
  gp_state :: string
  gp_login :: string
  gp_head_sha :: string
  gp_merged :: bool
  gp_merge_commit_sha :: "string option"

record merge_settings =
  me_allow_squash_merge :: bool
  me_allow_merge_commit :: bool
  me_allow_rebase_merge :: bool

definition allows :: "merge_settings \<Rightarrow> merge_method \<Rightarrow> bool" where
  "allows settings how =
     (case how of
        MmSquash \<Rightarrow> me_allow_squash_merge settings
      | MmMerge \<Rightarrow> me_allow_merge_commit settings
      | MmRebase \<Rightarrow> me_allow_rebase_merge settings)"

definition method_instead_of :: "merge_settings \<Rightarrow> merge_method \<Rightarrow> merge_method option" where
  "method_instead_of settings preferred =
     (if allows settings preferred then None
      else find (allows settings) [MmSquash, MmMerge, MmRebase])"

record github_repository =
  gr_id :: u64
  gr_name :: string
  gr_owner_login :: string
  gr_merge_settings :: merge_settings

record installation_repositories =
  ir_total_count :: nat
  ir_repositories :: "github_repository list"

definition repository_record ::
    "u64 \<Rightarrow> merge_method \<Rightarrow> u64 \<Rightarrow> github_repository \<Rightarrow> repo_record" where
  "repository_record installation_id preferred synced_at repo =
     \<lparr>rr_repository_id = gr_id repo, rr_installation_id = installation_id,
      rr_owner = gr_owner_login repo, rr_repo = gr_name repo,
      rr_merge_method = method_instead_of (gr_merge_settings repo) preferred,
      rr_synced_at = synced_at\<rparr>"

text \<open>\<open>retain(|r| seen.insert(r.id))\<close>: the first of each id.\<close>

fun retain_unseen :: "u64 list \<Rightarrow> repo_record list \<Rightarrow> repo_record list" where
  "retain_unseen seen [] = []"
| "retain_unseen seen (r # rs) =
     (if rr_repository_id r \<in> set seen then retain_unseen seen rs
      else r # retain_unseen (rr_repository_id r # seen) rs)"

fun fold_pages ::
    "(github_repository \<Rightarrow> repo_record) \<Rightarrow> nat option \<Rightarrow> repo_record list \<Rightarrow>
     installation_repositories list \<Rightarrow> github_error + nat option \<times> repo_record list" where
  "fold_pages record found repositories [] = Inr (found, repositories)"
| "fold_pages record found repositories (page # pages) =
     (let t = (case found of None \<Rightarrow> ir_total_count page | Some t \<Rightarrow> t)
      in if ir_total_count page \<noteq> t
         then Inl (GeShifted ''installation repositories''
                (''the total moved from '' @ show_nat t @ '' to '' @ show_nat (ir_total_count page) @
                 '' between pages''))
         else fold_pages record (Some t) (repositories @ map record (ir_repositories page)) pages)"

definition fold_repository_pages ::
    "installation_repositories list \<Rightarrow> u64 \<Rightarrow> merge_method \<Rightarrow> u64 \<Rightarrow> github_error + repo_record list" where
  "fold_repository_pages pages installation_id preferred synced_at =
     bind_result (fold_pages (repository_record installation_id preferred synced_at) None [] pages)
       (\<lambda>(found, repositories).
          let count = (case found of None \<Rightarrow> 0 | Some t \<Rightarrow> t);
              kept = retain_unseen [] repositories
          in if length kept \<noteq> count
             then Inl (GeShifted ''installation repositories''
                    (show_nat (length kept) @ '' distinct repositories were listed against a total of '' @
                     show_nat count))
             else Inr kept)"

record pull_list_item =
  pi_number :: u64
  pi_login :: string

record merge_answer =
  mt_merged :: bool
  mt_message :: string
  mt_sha :: "string option"

record issue_comment =
  ic_id :: u64
  ic_body :: string

record installation_token_answer =
  it_token :: string
  it_expires_at :: string

section \<open>GraphQL shapes\<close>

record graphql_error =
  qe_kind :: "string option"
  qe_message :: string

record 'a graphql_response =
  qr_data :: "'a option"
  qr_errors :: "graphql_error list"

definition error_status :: "string option \<Rightarrow> u16" where
  "error_status kind =
     (case kind of
        None \<Rightarrow> 502
      | Some k \<Rightarrow>
          if k = ''NOT_FOUND'' then 404
          else if k = ''FORBIDDEN'' \<or> k = ''INSUFFICIENT_SCOPES'' then 403
          else if k = ''RATE_LIMITED'' then 429
          else if k = ''SERVICE_UNAVAILABLE'' then 503
          else 422)"

fun first_kind :: "graphql_error list \<Rightarrow> string option" where
  "first_kind [] = None"
| "first_kind (e # es) = (case qe_kind e of Some k \<Rightarrow> Some k | None \<Rightarrow> first_kind es)"

definition graphql_error_response :: "graphql_error list \<Rightarrow> rate_limit_headers \<Rightarrow> error_response" where
  "graphql_error_response errors rate_limit =
     rate_limit_error rate_limit (error_status (first_kind errors))
       (join ''; '' (map qe_message errors)) None"

record page_info =
  pn_has_next_page :: bool
  pn_end_cursor :: "string option"

record 'a connection =
  cn_page_info :: page_info
  cn_nodes :: "'a list"

definition next_cursor :: "'a connection \<Rightarrow> string option" where
  "next_cursor c = (if pn_has_next_page (cn_page_info c) then pn_end_cursor (cn_page_info c) else None)"

record actor =
  ac_typename :: string
  ac_login :: string

definition rest_login :: "actor \<Rightarrow> string" where
  "rest_login a = (if ac_typename a = ''Bot'' then ac_login a @ ''[bot]'' else ac_login a)"

datatype check_context =
    CheckRun "string option" "string option"
  | StatusContext string

record check_suite =
  su_status :: "string option"
  su_conclusion :: "string option"

record commit =
  co_oid :: string
  co_message :: string
  co_contexts :: "check_context connection option"
  co_check_suites :: "check_suite connection option"

record pull_request_node =
  pq_title :: string
  pq_url :: string
  pq_state :: string
  pq_author :: "actor option"
  pq_created_at :: string
  pq_updated_at :: string
  pq_merge_state_status :: "string option"
  pq_head_ref_oid :: string
  pq_labels :: "string connection option"
  pq_commits :: "commit connection"

definition is_open_dependabot_pull :: "pull_request_node \<Rightarrow> bool" where
  "is_open_dependabot_pull p \<longleftrightarrow> pq_state p = ''OPEN'' \<and>
     (case pq_author p of None \<Rightarrow> False | Some a \<Rightarrow> rest_login a = DEPENDABOT_LOGIN)"

definition mergeable_state :: "pull_request_node \<Rightarrow> string option" where
  "mergeable_state p = map_option to_ascii_lowercase (pq_merge_state_status p)"

definition last_listed_commit :: "pull_request_node \<Rightarrow> commit option" where
  "last_listed_commit p = (case cn_nodes (pq_commits p) of [] \<Rightarrow> None | c # _ \<Rightarrow> Some c)"

section \<open>Checks\<close>

datatype check_signal = SgPass | SgFail | SgPending

fun rollup_loop :: "bool \<Rightarrow> bool \<Rightarrow> check_signal list \<Rightarrow> check_status" where
  "rollup_loop saw_pass saw_pending [] =
     (if saw_pending then CkPending else if saw_pass then CkSuccess else CkNone)"
| "rollup_loop saw_pass saw_pending (s # ss) =
     (case s of
        SgFail \<Rightarrow> CkFailure
      | SgPending \<Rightarrow> rollup_loop saw_pass True ss
      | SgPass \<Rightarrow> rollup_loop True saw_pending ss)"

definition rollup_checks :: "check_signal list \<Rightarrow> check_status" where
  "rollup_checks signals = rollup_loop False False signals"

lemma rollup_loop_spec:
  "rollup_loop saw_pass saw_pending ss =
     (if SgFail \<in> set ss then CkFailure
      else if saw_pending \<or> SgPending \<in> set ss then CkPending
      else if saw_pass \<or> SgPass \<in> set ss then CkSuccess else CkNone)"
  by (induction saw_pass saw_pending ss rule: rollup_loop.induct) (auto split: check_signal.splits)

lemma rollup_checks_spec:
  "rollup_checks ss =
     (if SgFail \<in> set ss then CkFailure else if SgPending \<in> set ss then CkPending
      else if SgPass \<in> set ss then CkSuccess else CkNone)"
  by (simp add: rollup_checks_def rollup_loop_spec)

definition check_signal_of :: "string option \<Rightarrow> string option \<Rightarrow> check_signal option" where
  "check_signal_of status conclusion =
     (case conclusion of
        Some c \<Rightarrow>
          if c \<in> {''success'', ''neutral'', ''skipped''} then Some SgPass
          else if c \<in> {''failure'', ''timed_out'', ''action_required'', ''cancelled'', ''stale'',
                    ''startup_failure''} then Some SgFail
          else None
      | None \<Rightarrow>
          (case status of
             Some s \<Rightarrow>
               if s \<in> {''queued'', ''in_progress'', ''waiting'', ''pending'', ''requested'', ''expected''}
               then Some SgPending else None
           | None \<Rightarrow> None))"

definition status_signal :: "string \<Rightarrow> check_signal option" where
  "status_signal state =
     (if state = ''success'' then Some SgPass
      else if state = ''failure'' \<or> state = ''error'' then Some SgFail
      else if state = ''pending'' \<or> state = ''expected'' then Some SgPending
      else None)"

fun check_context_signal :: "check_context \<Rightarrow> check_signal option" where
  "check_context_signal (CheckRun status conclusion) =
     check_signal_of (map_option to_ascii_lowercase status) (map_option to_ascii_lowercase conclusion)"
| "check_context_signal (StatusContext state) = status_signal (to_ascii_lowercase state)"

definition check_suite_signal :: "check_suite \<Rightarrow> check_signal option" where
  "check_suite_signal suite =
     (case check_signal_of (map_option to_ascii_lowercase (su_status suite))
             (map_option to_ascii_lowercase (su_conclusion suite)) of
        Some SgFail \<Rightarrow> Some SgFail
      | _ \<Rightarrow> None)"

section \<open>Dependabot metadata\<close>

text \<open>\<open>yaml\<close> reads the block as names with their update types; \<open>captures\<close> the title's three groups.\<close>

record metadata_readers =
  mx_yaml :: "string \<Rightarrow> (string \<times> string) list option"
  mx_captures :: "string \<Rightarrow> (string \<times> string \<times> string) option"
  mx_version :: "string \<Rightarrow> (u64 \<times> u64 \<times> u64) option"

definition metadata_block :: "string \<Rightarrow> string option" where
  "metadata_block message =
     Option.bind
       (case strip_prefix message ''---'' of
          Some rest \<Rightarrow> Some rest
        | None \<Rightarrow> map_option (\<lambda>n. drop (n + 4) message) (str_find message (CHR 0x0A # ''---'')))
       (\<lambda>rest. map_option (\<lambda>n. take n rest) (str_find rest (CHR 0x0A # ''...'')))"

definition metadata_update_type :: "string \<Rightarrow> update_type" where
  "metadata_update_type value =
     (let t = after_last (CHR '':'') value
      in if t = ''semver-major'' then UtMajor
         else if t = ''semver-minor'' then UtMinor
         else if t = ''semver-patch'' then UtPatch
         else UtUnknown)"

definition semver_update_type :: "metadata_readers \<Rightarrow> string \<Rightarrow> string \<Rightarrow> update_type" where
  "semver_update_type M from to =
     (let parse = (\<lambda>value. mx_version M (trim_start_matches (\<lambda>c. c = CHR ''v'') value))
      in case (parse from, parse to) of
           (Some (major, minor, patch), Some (major', minor', patch')) \<Rightarrow>
             if major \<noteq> major' then UtMajor
             else if minor \<noteq> minor' then UtMinor
             else if patch \<noteq> patch' then UtPatch
             else UtUnknown
         | _ \<Rightarrow> UtUnknown)"

definition parse_title_update ::
    "metadata_readers \<Rightarrow> string \<Rightarrow> (string \<times> string \<times> string \<times> update_type) option" where
  "parse_title_update M title =
     map_option (\<lambda>(name, from, to).
         let from = trim_matches (\<lambda>c. c = CHR 0x60) from;
             to = trim_matches (\<lambda>c. c = CHR 0x60 \<or> c = CHR ''.'' \<or> c = CHR '','') to
         in (trim name, from, to, semver_update_type M from to))
       (mx_captures M title)"

text \<open>The one dependency of a single update takes its versions from a title that names it.\<close>

definition complete_from_title ::
    "metadata_readers \<Rightarrow> string \<Rightarrow> dependency_update list \<Rightarrow> dependency_update list" where
  "complete_from_title M title updates =
     (case (updates, parse_title_update M title) of
        ([u], Some (name, from, to, kind)) \<Rightarrow>
          if du_name u = name
          then [u\<lparr>du_from_version := Some from, du_to_version := Some to,
                   du_update_type := (if du_update_type u = UtUnknown then kind else du_update_type u)\<rparr>]
          else updates
      | _ \<Rightarrow> updates)"

definition parse_dependabot_metadata ::
    "metadata_readers \<Rightarrow> string \<Rightarrow> string \<Rightarrow> dependency_update list" where
  "parse_dependabot_metadata M message title =
     (case Option.bind (metadata_block message) (mx_yaml M) of
        Some (d # ds) \<Rightarrow>
          complete_from_title M title
            (map (\<lambda>(name, kind). \<lparr>du_name = name, du_from_version = None, du_to_version = None,
                                    du_update_type = metadata_update_type kind\<rparr>) (d # ds))
      | _ \<Rightarrow>
          (case parse_title_update M title of
             None \<Rightarrow> []
           | Some (name, from, to, kind) \<Rightarrow>
               [\<lparr>du_name = name, du_from_version = Some from, du_to_version = Some to,
                 du_update_type = kind\<rparr>]))"

lemma complete_from_title_names [simp]:
  "map du_name (complete_from_title M title us) = map du_name us"
  by (auto simp: complete_from_title_def split: list.splits option.splits)

section \<open>The record of a snapshot\<close>

definition project_snapshot ::
    "metadata_readers \<Rightarrow> (string \<Rightarrow> string + int) \<Rightarrow> sync_request \<Rightarrow> pull_request_node \<Rightarrow> commit \<Rightarrow>
     check_signal list \<Rightarrow> u64 \<Rightarrow> github_error + pr_record" where
  "project_snapshot M parse_rfc3339 request pull head signals synced_at =
     (let mergeable = (case mergeable_state pull of None \<Rightarrow> MgUnknown | Some s \<Rightarrow> from_github_state s);
          labels = (case pq_labels pull of None \<Rightarrow> [] | Some c \<Rightarrow> cn_nodes c);
          dependencies = parse_dependabot_metadata M (co_message head) (pq_title pull);
          (dependency, from_version, to_version) =
            (case dependencies of
               [d] \<Rightarrow> (Some (du_name d), du_from_version d, du_to_version d)
             | _ \<Rightarrow> (None, None, None))
      in bind_result (parse_timestamp parse_rfc3339 (pq_created_at pull)) (\<lambda>created_at.
         bind_result (parse_timestamp parse_rfc3339 (pq_updated_at pull)) (\<lambda>updated_at.
           Inr \<lparr>pr_id = display_pr_key (PrKey (sr_repository_id request) (sr_number request)),
                pr_repository_id = sr_repository_id request, pr_owner = sr_owner request,
                pr_repo = sr_repo request, pr_number = sr_number request, pr_title = pq_title pull,
                pr_html_url = pq_url pull, pr_dependency = dependency,
                pr_from_version = from_version, pr_to_version = to_version,
                pr_dependencies = dependencies, pr_update_type = highest_update_type dependencies,
                pr_head_sha = co_oid head, pr_check_status = rollup_checks signals,
                pr_mergeable = mergeable, pr_labels = labels, pr_created_at = created_at,
                pr_updated_at = updated_at, pr_synced_at = synced_at\<rparr>)))"

section \<open>The fold of a listing\<close>

lemma retain_unseen_spec:
  "distinct (map rr_repository_id (retain_unseen seen rs)) \<and>
   set (map rr_repository_id (retain_unseen seen rs)) = rr_repository_id ` set rs - set seen \<and>
   set (retain_unseen seen rs) \<subseteq> set rs"
  by (induction seen rs rule: retain_unseen.induct) auto

lemma retain_unseen_distinct:
  "distinct (map rr_repository_id rs) \<Longrightarrow> set seen \<inter> rr_repository_id ` set rs = {} \<Longrightarrow>
   retain_unseen seen rs = rs"
  by (induction seen rs rule: retain_unseen.induct) auto

lemma fold_pages_Inr:
  "fold_pages record (Some n) acc pages = Inr (t, rs) \<longleftrightarrow>
     t = Some n \<and> (\<forall>p\<in>set pages. ir_total_count p = n) \<and>
     rs = acc @ map record (concat (map ir_repositories pages))"
  by (induction pages arbitrary: acc) (auto simp: Let_def)

lemma fold_pages_first:
  "fold_pages record None [] (p # pages) =
     fold_pages record (Some (ir_total_count p)) (map record (ir_repositories p)) pages"
  by simp

lemma fold_repository_pages_Inr:
  "fold_repository_pages pages i preferred at = Inr rs \<longleftrightarrow>
     (\<forall>p\<in>set pages. ir_total_count p = length rs) \<and> (pages = [] \<longrightarrow> rs = []) \<and>
     rs = retain_unseen [] (map (repository_record i preferred at) (concat (map ir_repositories pages)))"
proof (cases pages)
  case Nil
  then show ?thesis by (auto simp: fold_repository_pages_def)
next
  case (Cons p ps)
  let ?r = "repository_record i preferred at"
  let ?fold = "fold_pages ?r (Some (ir_total_count p)) (map ?r (ir_repositories p)) ps"
  show ?thesis
  proof (cases ?fold)
    case (Inl e)
    then have "\<not> (\<forall>q\<in>set ps. ir_total_count q = ir_total_count p)"
      using fold_pages_Inr [of ?r "ir_total_count p" "map ?r (ir_repositories p)" ps] by auto
    then show ?thesis using Inl Cons
      by (auto simp: fold_repository_pages_def fold_pages_first simp del: fold_pages.simps)
  next
    case (Inr x)
    obtain t all where x: "x = (t, all)" by (cases x)
    with Inr fold_pages_Inr [of ?r "ir_total_count p" "map ?r (ir_repositories p)" ps t all] have
      "t = Some (ir_total_count p)" "\<forall>q\<in>set ps. ir_total_count q = ir_total_count p"
      "all = map ?r (concat (map ir_repositories pages))" by (auto simp: Cons)
    then show ?thesis using Inr x Cons
      by (auto simp: fold_repository_pages_def fold_pages_first Let_def simp del: fold_pages.simps)
  qed
qed

end
