(* ===== verification/Github_Client.thy ===== *)
theory Github_Client
  imports Github_Wire Github_Step
begin

text \<open>
  The GitHub client (\<^verbatim>\<open>crates/github/src/lib.rs\<close>, \<^verbatim>\<open>auth.rs\<close>): its configuration, the
  installation token and its cache, the requests it sends, the listings it pages through, the
  snapshot it reads over GraphQL, and the verified mutations. The network and the libraries
  that decode, sign and parse are the record \<open>github_libs\<close>; every request sent is kept in the
  world. A loop over pages takes fuel: the error \<open>None\<close> says it has not ended.
\<close>

section \<open>Configuration\<close>

record github_config =
  gc_api_url :: string
  gc_app_id :: u64
  gc_installation_id :: u64
  gc_private_key :: string
  gc_user_pat :: "string option"
  gc_dashboard_user :: string
  gc_merge_method :: merge_method

definition parse_u64_var :: "(string \<Rightarrow> string option) \<Rightarrow> string \<Rightarrow> github_error + u64" where
  "parse_u64_var var name =
     (case var name of
        None \<Rightarrow> Inl (GeConfig (''set '' @ name))
      | Some value \<Rightarrow>
          (case parse_u64 value of
             None \<Rightarrow> Inl (GeConfig (name @ '' must be an unsigned integer''))
           | Some n \<Rightarrow> Inr n))"

text \<open>\<open>read_file\<close> is \<open>fs::read_to_string\<close>.\<close>

definition private_key_from ::
    "(string \<Rightarrow> string + string) \<Rightarrow> (string \<Rightarrow> string option) \<Rightarrow> github_error + string" where
  "private_key_from read_file var =
     (case var ''GITHUB_PRIVATE_KEY'' of
        Some value \<Rightarrow> Inr (replace_all [CHR 0x5C, CHR ''n''] [CHR 0x0A] value)
      | None \<Rightarrow>
          (case var ''GITHUB_PRIVATE_KEY_PATH'' of
             None \<Rightarrow> Inl (GeConfig ''set GITHUB_PRIVATE_KEY or GITHUB_PRIVATE_KEY_PATH'')
           | Some path \<Rightarrow>
               (case read_file path of
                  Inl e \<Rightarrow> Inl (GeConfig (''cannot read private key: '' @ e))
                | Inr key \<Rightarrow> Inr key)))"

definition config_from_lookup ::
    "(string \<Rightarrow> string + string) \<Rightarrow> (string \<Rightarrow> string option) \<Rightarrow> github_error + github_config" where
  "config_from_lookup read_file var =
     bind_result (private_key_from read_file var) (\<lambda>private_key.
     let dashboard_user = (case var ''DASHBOARD_USERNAME'' of None \<Rightarrow> ''dependaboard'' | Some u \<Rightarrow> u)
     in if trim dashboard_user = [] then Inl (GeConfig ''DASHBOARD_USERNAME must not be empty'')
        else
          bind_result
            (case parse_merge_method (case var ''GITHUB_MERGE_METHOD'' of
                 None \<Rightarrow> display_merge_method MmSquash | Some m \<Rightarrow> m) of
               Inl _ \<Rightarrow> Inl (GeConfig ''GITHUB_MERGE_METHOD must be merge, squash, or rebase'')
             | Inr m \<Rightarrow> Inr m) (\<lambda>merge_how.
          bind_result (parse_u64_var var ''GITHUB_APP_ID'') (\<lambda>app_id.
          bind_result (parse_u64_var var ''GITHUB_INSTALLATION_ID'') (\<lambda>installation_id.
            Inr \<lparr>gc_api_url = trim_end_matches (\<lambda>c. c = CHR ''/'')
                   (case var ''GITHUB_API_URL'' of None \<Rightarrow> ''https://api.github.com'' | Some u \<Rightarrow> u),
                 gc_app_id = app_id, gc_installation_id = installation_id,
                 gc_private_key = private_key,
                 gc_user_pat = (case var ''GITHUB_USER_PAT'' of
                     None \<Rightarrow> None | Some value \<Rightarrow> if trim value = [] then None else Some value),
                 gc_dashboard_user = dashboard_user, gc_merge_method = merge_how\<rparr>))))"

definition graphql_url :: "github_config \<Rightarrow> string" where
  "graphql_url C =
     (case strip_suffix (gc_api_url C) ''/api/v3'' of
        Some host \<Rightarrow> host @ ''/api/graphql'' | None \<Rightarrow> gc_api_url C @ ''/graphql'')"

section \<open>Requests\<close>

datatype graphql_query =
    SnapshotQuery | HeadCommitQuery | CheckContextsPageQuery | CheckSuitesPageQuery

datatype json =
    JNull | JStr string | JNum u64 | JQuery graphql_query | JObj "(string \<times> json) list"

datatype verb = VerbGet | VerbPost | VerbPut

record http_request =
  hq_verb :: verb
  hq_url :: string
  hq_bearer :: string
  hq_body :: "json option"

record jwt_claims =
  jw_iat :: u64
  jw_exp :: u64
  jw_iss :: string

text \<open>The network and the libraries, each decoder by the answer it reads.\<close>

record 'g github_libs =
  gl_send :: "http_request \<Rightarrow> 'g \<Rightarrow> (string + http_response) \<times> 'g"
  gl_sign :: "jwt_claims \<Rightarrow> string + string"
  gl_rfc3339 :: "string \<Rightarrow> string + int"
  gl_readers :: metadata_readers
  gl_error_body :: "string \<Rightarrow> string + error_body"
  gl_token :: "string \<Rightarrow> string + installation_token_answer"
  gl_pull :: "string \<Rightarrow> string + github_pull"
  gl_repositories :: "string \<Rightarrow> string + installation_repositories"
  gl_pulls :: "string \<Rightarrow> string + pull_list_item list"
  gl_comments :: "string \<Rightarrow> string + issue_comment list"
  gl_comment :: "string \<Rightarrow> string + issue_comment"
  gl_merge_result :: "string \<Rightarrow> string + merge_answer"
  gl_update_result :: "string \<Rightarrow> string + string"
  gl_snapshot :: "string \<Rightarrow> string + pull_request_node option option graphql_response"
  gl_commit :: "string \<Rightarrow> string + commit option option graphql_response"
  gl_contexts :: "string \<Rightarrow> string + check_context connection option option option graphql_response"
  gl_suites :: "string \<Rightarrow> string + check_suite connection option option option graphql_response"

record cached_token =
  ct_value :: string
  ct_expires_at :: u64

record github_client =
  gk_config :: github_config
  gk_user_token :: "string \<Rightarrow> github_error + string"
  gk_user_commands :: bool

text \<open>\<open>read_key\<close> parses the RSA key, which is done once, when the client is built.\<close>

definition build_client ::
    "(string \<Rightarrow> string + unit) \<Rightarrow> github_config \<Rightarrow> (string \<Rightarrow> github_error + string) \<Rightarrow> bool \<Rightarrow>
     github_error + github_client" where
  "build_client read_key config user_tokens user_commands =
     (case read_key (gc_private_key config) of
        Inl e \<Rightarrow> Inl (GeConfig (''invalid GitHub private key: '' @ e))
      | Inr _ \<Rightarrow> Inr \<lparr>gk_config = config, gk_user_token = user_tokens, gk_user_commands = user_commands\<rparr>)"

definition new_client :: "(string \<Rightarrow> string + unit) \<Rightarrow> github_config \<Rightarrow> github_error + github_client" where
  "new_client read_key config =
     build_client read_key config
       (user_token \<lparr>tk_user = gc_dashboard_user config, tk_token = gc_user_pat config\<rparr>)
       (gc_user_pat config \<noteq> None)"

definition client_with_token_provider ::
    "(string \<Rightarrow> string + unit) \<Rightarrow> github_config \<Rightarrow> (string \<Rightarrow> github_error + string) \<Rightarrow>
     github_error + github_client" where
  "client_with_token_provider read_key config user_tokens = build_client read_key config user_tokens True"

section \<open>The world of a client\<close>

record 'g github_world =
  gw_remote :: 'g
  gw_times :: "nat \<Rightarrow> u64"
  gw_reads :: nat
  gw_tokens :: "u64 \<rightharpoonup> cached_token"
  gw_sent :: "http_request list"

type_synonym ('g, 'a) request = "('g github_world, github_error, 'a) eff"
type_synonym ('w, 'a) call = "('w, github_error option, 'a) eff"

text \<open>What has no loop always ends.\<close>

definition ended :: "('w, github_error, 'a) eff \<Rightarrow> ('w, 'a) call" where
  "ended m = (\<lambda>w. case m w of (Inl e, w') \<Rightarrow> (Inl (Some e), w') | (Inr a, w') \<Rightarrow> (Inr a, w'))"

definition unix_seconds :: "('g, u64) request" where
  "unix_seconds = (\<lambda>w. (Inr (gw_times w (gw_reads w)), w\<lparr>gw_reads := gw_reads w + 1\<rparr>))"

definition send_http :: "'g github_libs \<Rightarrow> http_request \<Rightarrow> ('g, http_response) request" where
  "send_http L request = (\<lambda>w.
     case gl_send L request (gw_remote w) of
       (r, g) \<Rightarrow> (case r of Inl e \<Rightarrow> Inl (GeTransport e) | Inr response \<Rightarrow> Inr response,
                  w\<lparr>gw_remote := g, gw_sent := gw_sent w @ [request]\<rparr>))"

section \<open>The installation token\<close>

definition app_jwt :: "github_client \<Rightarrow> 'g github_libs \<Rightarrow> ('g, string) request" where
  "app_jwt G L =
     andthen unix_seconds (\<lambda>now.
       lift (case gl_sign L \<lparr>jw_iat = sat_sub now 60, jw_exp = now + 9 * 60,
                    jw_iss = show_u64 (gc_app_id (gk_config G))\<rparr> of
               Inl e \<Rightarrow> Inl (GeConfig (''cannot sign GitHub App JWT: '' @ e))
             | Inr t \<Rightarrow> Inr t))"

definition token_url :: "github_client \<Rightarrow> u64 \<Rightarrow> string" where
  "token_url G installation_id =
     gc_api_url (gk_config G) @ ''/app/installations/'' @ show_u64 installation_id @ ''/access_tokens''"

definition refresh_token :: "github_client \<Rightarrow> 'g github_libs \<Rightarrow> u64 \<Rightarrow> ('g, string) request" where
  "refresh_token G L installation_id =
     andthen (app_jwt G L) (\<lambda>jwt.
     andthen (send_http L \<lparr>hq_verb = VerbPost, hq_url = token_url G installation_id,
                hq_bearer = jwt, hq_body = None\<rparr>) (\<lambda>response.
     andthen (lift (parse_response (gl_error_body L) (gl_token L) response)) (\<lambda>token.
     andthen (lift (parse_timestamp (gl_rfc3339 L) (it_expires_at token))) (\<lambda>expires_at.
     andthen (put (\<lambda>w. w\<lparr>gw_tokens := (gw_tokens w)(installation_id \<mapsto>
                \<lparr>ct_value = it_token token, ct_expires_at = expires_at\<rparr>)\<rparr>)) (\<lambda>_.
       ok (it_token token))))))"

definition installation_token ::
    "github_client \<Rightarrow> 'g github_libs \<Rightarrow> u64 \<Rightarrow> bool \<Rightarrow> ('g, string) request" where
  "installation_token G L installation_id force_refresh =
     andthen unix_seconds (\<lambda>now w.
       case (if force_refresh then None else gw_tokens w installation_id) of
         Some token \<Rightarrow>
           if now + 60 < ct_expires_at token then (Inr (ct_value token), w)
           else refresh_token G L installation_id w
       | None \<Rightarrow> refresh_token G L installation_id w)"

section \<open>Sending\<close>

text \<open>The authorization loop: a first attempt, and on a 401 one more with a fresh token.\<close>

primrec send_attempts ::
    "nat \<Rightarrow> bool \<Rightarrow> github_client \<Rightarrow> 'g github_libs \<Rightarrow> u64 \<Rightarrow> verb \<Rightarrow> string \<Rightarrow> json option \<Rightarrow>
     ('g, http_response) request" where
  "send_attempts 0 force_refresh G L installation_id verb url body =
     andthen (installation_token G L installation_id force_refresh) (\<lambda>token.
       send_http L \<lparr>hq_verb = verb, hq_url = url, hq_bearer = token, hq_body = body\<rparr>)"
| "send_attempts (Suc n) force_refresh G L installation_id verb url body =
     andthen (installation_token G L installation_id force_refresh) (\<lambda>token.
     andthen (send_http L \<lparr>hq_verb = verb, hq_url = url, hq_bearer = token, hq_body = body\<rparr>) (\<lambda>response.
       if hs_status response \<noteq> 401 then ok response
       else send_attempts n True G L installation_id verb url body))"

definition installation_send ::
    "github_client \<Rightarrow> 'g github_libs \<Rightarrow> verb \<Rightarrow> string \<Rightarrow> json option \<Rightarrow> ('g, http_response) request" where
  "installation_send G L verb url body =
     send_attempts 1 False G L (gc_installation_id (gk_config G)) verb url body"

definition installation_request ::
    "github_client \<Rightarrow> 'g github_libs \<Rightarrow> verb \<Rightarrow> string \<Rightarrow> json option \<Rightarrow> ('g, http_response) request" where
  "installation_request G L verb path body =
     installation_send G L verb (gc_api_url (gk_config G) @ path) body"

definition installation_json ::
    "github_client \<Rightarrow> 'g github_libs \<Rightarrow> (string \<Rightarrow> string + 'a) \<Rightarrow> verb \<Rightarrow> string \<Rightarrow> json option \<Rightarrow>
     ('g, 'a) request" where
  "installation_json G L decode verb path body =
     andthen (installation_request G L verb path body) (\<lambda>response.
       lift (parse_response (gl_error_body L) decode response))"

definition user_request ::
    "github_client \<Rightarrow> 'g github_libs \<Rightarrow> string \<Rightarrow> verb \<Rightarrow> string \<Rightarrow> json option \<Rightarrow> ('g, http_response) request" where
  "user_request G L user verb path body =
     andthen (lift (gk_user_token G user)) (\<lambda>token.
       send_http L \<lparr>hq_verb = verb, hq_url = gc_api_url (gk_config G) @ path, hq_bearer = token,
                    hq_body = body\<rparr>)"

definition graphql_call ::
    "github_client \<Rightarrow> 'g github_libs \<Rightarrow> (string \<Rightarrow> string + 'a graphql_response) \<Rightarrow> graphql_query \<Rightarrow>
     json \<Rightarrow> ('g, 'a) request" where
  "graphql_call G L decode query variables =
     andthen (installation_send G L VerbPost (graphql_url (gk_config G))
         (Some (JObj [(''query'', JQuery query), (''variables'', variables)]))) (\<lambda>response.
       lift (if \<not> success_status (hs_status response)
             then Inl (GeHttp (http_error (gl_error_body L) response) False)
             else (case decode (hs_body response) of
                     Inl e \<Rightarrow> Inl (GeProtocol (PeBody e))
                   | Inr answer \<Rightarrow>
                       if qr_errors answer \<noteq> []
                       then Inl (GeHttp (graphql_error_response (qr_errors answer)
                                  (read_rate_limit response)) False)
                       else (case qr_data answer of
                               None \<Rightarrow> Inl (GeProtocol (PeMissing ''data'')) | Some d \<Rightarrow> Inr d))))"

section \<open>Reading a pull request\<close>

definition pull_path :: "string \<Rightarrow> string \<Rightarrow> u64 \<Rightarrow> string" where
  "pull_path owner repo number = ''/repos/'' @ owner @ ''/'' @ repo @ ''/pulls/'' @ show_u64 number"

definition fetch_pull ::
    "github_client \<Rightarrow> 'g github_libs \<Rightarrow> string \<Rightarrow> string \<Rightarrow> u64 \<Rightarrow> ('g, github_pull) request" where
  "fetch_pull G L owner repo number =
     installation_json G L (gl_pull L) VerbGet (pull_path owner repo number) None"

definition fetch_target :: "github_client \<Rightarrow> 'g github_libs \<Rightarrow> pr_target \<Rightarrow> ('g, github_pull) request" where
  "fetch_target G L target = fetch_pull G L (tg_owner target) (tg_repo target) (tg_number target)"

definition fetch_pull_request_node ::
    "github_client \<Rightarrow> 'g github_libs \<Rightarrow> sync_request \<Rightarrow> ('g, pull_request_node) request" where
  "fetch_pull_request_node G L request =
     andthen (graphql_call G L (gl_snapshot L) SnapshotQuery
         (JObj [(''owner'', JStr (sr_owner request)), (''repo'', JStr (sr_repo request)),
                (''number'', JNum (sr_number request))])) (\<lambda>repository.
       lift (case Option.bind repository id of
               None \<Rightarrow> Inl (GeProtocol (PeMissing ''pull request'')) | Some pull \<Rightarrow> Inr pull))"

text \<open>\<open>commit_by_sha\<close>: the answer's \<open>repository\<close> and its \<open>object\<close>, either of which may be absent.\<close>

definition commit_by_sha ::
    "github_client \<Rightarrow> 'g github_libs \<Rightarrow> (string \<Rightarrow> string + 'a option option graphql_response) \<Rightarrow>
     graphql_query \<Rightarrow> sync_request \<Rightarrow> string \<Rightarrow> string option \<Rightarrow> ('g, 'a option) request" where
  "commit_by_sha G L decode query request sha after =
     andthen (graphql_call G L decode query
         (JObj [(''owner'', JStr (sr_owner request)), (''repo'', JStr (sr_repo request)),
                (''sha'', JStr sha), (''after'', case after of None \<Rightarrow> JNull | Some a \<Rightarrow> JStr a)]))
       (\<lambda>repository. ok (Option.bind repository id))"

definition fetch_head_commit ::
    "github_client \<Rightarrow> 'g github_libs \<Rightarrow> sync_request \<Rightarrow> pull_request_node \<Rightarrow> ('g, commit) request" where
  "fetch_head_commit G L request pull =
     (let by_sha =
        andthen (commit_by_sha G L (gl_commit L) HeadCommitQuery request (pq_head_ref_oid pull) None) (\<lambda>found.
          lift (case found of None \<Rightarrow> Inl (GeProtocol (PeMissing ''head commit'')) | Some c \<Rightarrow> Inr c))
      in case last_listed_commit pull of
           Some listed \<Rightarrow> if co_oid listed = pq_head_ref_oid pull then ok listed else by_sha
         | None \<Rightarrow> by_sha)"

text \<open>The pages after the first: read from a cursor until a page ends the chain.\<close>

fun pages_from ::
    "nat \<Rightarrow> ('n \<Rightarrow> check_signal option) \<Rightarrow> (string \<Rightarrow> ('w, github_error, 'n connection option) eff) \<Rightarrow>
     check_signal list \<Rightarrow> string option \<Rightarrow> ('w, check_signal list) call" where
  "pages_from fuel signal next_page signals None = ok signals"
| "pages_from 0 signal next_page signals (Some after) = fail None"
| "pages_from (Suc fuel) signal next_page signals (Some after) =
     andthen (ended (next_page after)) (\<lambda>page.
       case page of
         None \<Rightarrow> ok signals
       | Some page \<Rightarrow>
           pages_from fuel signal next_page (signals @ List.map_filter signal (cn_nodes page))
             (next_cursor page))"

definition signals_across_pages ::
    "nat \<Rightarrow> 'n connection \<Rightarrow> ('n \<Rightarrow> check_signal option) \<Rightarrow>
     (string \<Rightarrow> ('w, github_error, 'n connection option) eff) \<Rightarrow> ('w, check_signal list) call" where
  "signals_across_pages fuel first signal next_page =
     pages_from fuel signal next_page (List.map_filter signal (cn_nodes first)) (next_cursor first)"

definition next_contexts ::
    "github_client \<Rightarrow> 'g github_libs \<Rightarrow> sync_request \<Rightarrow> commit \<Rightarrow> string \<Rightarrow>
     ('g github_world, github_error, check_context connection option) eff" where
  "next_contexts G L request head after =
     andthen (commit_by_sha G L (gl_contexts L) CheckContextsPageQuery request (co_oid head) (Some after))
       (\<lambda>found. ok (Option.bind found id))"

definition next_suites ::
    "github_client \<Rightarrow> 'g github_libs \<Rightarrow> sync_request \<Rightarrow> commit \<Rightarrow> string \<Rightarrow>
     ('g github_world, github_error, check_suite connection option) eff" where
  "next_suites G L request head after =
     andthen (commit_by_sha G L (gl_suites L) CheckSuitesPageQuery request (co_oid head) (Some after))
       (\<lambda>found. ok (Option.bind found id))"

definition check_signals ::
    "nat \<Rightarrow> github_client \<Rightarrow> 'g github_libs \<Rightarrow> sync_request \<Rightarrow> commit \<Rightarrow>
     ('g github_world, check_signal list) call" where
  "check_signals fuel G L request commit =
     andthen (case co_contexts commit of
         None \<Rightarrow> ok []
       | Some contexts \<Rightarrow>
           signals_across_pages fuel contexts check_context_signal (next_contexts G L request commit)) (\<lambda>signals.
     andthen (case co_check_suites commit of
         None \<Rightarrow> ok []
       | Some suites \<Rightarrow>
           signals_across_pages fuel suites check_suite_signal (next_suites G L request commit)) (\<lambda>more.
       ok (signals @ more)))"

definition fetch_snapshot ::
    "nat \<Rightarrow> github_client \<Rightarrow> 'g github_libs \<Rightarrow> sync_request \<Rightarrow> ('g github_world, pr_record option) call" where
  "fetch_snapshot fuel G L request =
     andthen (ended (fetch_pull_request_node G L request)) (\<lambda>pull.
       if \<not> is_open_dependabot_pull pull then ok None
       else
         andthen (ended (fetch_head_commit G L request pull)) (\<lambda>head.
         andthen (check_signals fuel G L request head) (\<lambda>signals.
         andthen (ended unix_seconds) (\<lambda>synced_at.
         andthen (ended (lift (project_snapshot (gl_readers L) (gl_rfc3339 L) request pull head signals synced_at)))
           (\<lambda>r. ok (Some r))))))"

section \<open>Listings\<close>

definition LISTING_PAGE_SIZE :: nat where "LISTING_PAGE_SIZE = 100"

definition page_query :: "nat \<Rightarrow> string" where
  "page_query page = ''per_page='' @ show_nat LISTING_PAGE_SIZE @ ''&page='' @ show_nat page"

definition repositories_path :: "nat \<Rightarrow> string" where
  "repositories_path page = ''/installation/repositories?'' @ page_query page"

fun repository_pages ::
    "nat \<Rightarrow> github_client \<Rightarrow> 'g github_libs \<Rightarrow> installation_repositories list \<Rightarrow> nat \<Rightarrow>
     ('g github_world, installation_repositories list) call" where
  "repository_pages 0 G L pages listed = fail None"
| "repository_pages (Suc fuel) G L pages listed =
     andthen (ended (installation_json G L (gl_repositories L) VerbGet
         (repositories_path (length pages + 1)) None)) (\<lambda>page.
       let listed = listed + length (ir_repositories page);
           count = (case pages of [] \<Rightarrow> ir_total_count page | p # _ \<Rightarrow> ir_total_count p)
       in if length (ir_repositories page) < LISTING_PAGE_SIZE \<or> count \<le> listed
          then ok (pages @ [page])
          else repository_pages fuel G L (pages @ [page]) listed)"

definition list_installation_repositories ::
    "nat \<Rightarrow> github_client \<Rightarrow> 'g github_libs \<Rightarrow> ('g github_world, repo_record list) call" where
  "list_installation_repositories fuel G L =
     andthen (ended unix_seconds) (\<lambda>synced_at.
     andthen (repository_pages fuel G L [] 0) (\<lambda>pages.
       ended (lift (fold_repository_pages pages (gc_installation_id (gk_config G))
         (gc_merge_method (gk_config G)) synced_at))))"

definition pulls_path :: "string \<Rightarrow> string \<Rightarrow> nat \<Rightarrow> string" where
  "pulls_path owner repo page =
     ''/repos/'' @ owner @ ''/'' @ repo @ ''/pulls?state=open&'' @ page_query page"

definition sync_of_pull :: "string \<Rightarrow> string \<Rightarrow> u64 \<Rightarrow> pull_list_item \<Rightarrow> sync_request" where
  "sync_of_pull owner repo repository_id pull =
     \<lparr>sr_repository_id = repository_id, sr_owner = owner, sr_repo = repo, sr_number = pi_number pull,
      sr_bypass_debounce = False, sr_completion_id = None\<rparr>"

fun pull_pages ::
    "nat \<Rightarrow> github_client \<Rightarrow> 'g github_libs \<Rightarrow> string \<Rightarrow> string \<Rightarrow> u64 \<Rightarrow> nat \<Rightarrow> sync_request list \<Rightarrow>
     ('g github_world, sync_request list) call" where
  "pull_pages 0 G L owner repo repository_id page pulls = fail None"
| "pull_pages (Suc fuel) G L owner repo repository_id page pulls =
     andthen (ended (installation_json G L (gl_pulls L) VerbGet (pulls_path owner repo page) None)) (\<lambda>response.
       let pulls = pulls @ map (sync_of_pull owner repo repository_id)
             (filter (\<lambda>pull. pi_login pull = DEPENDABOT_LOGIN) response)
       in if length response < LISTING_PAGE_SIZE then ok pulls
          else pull_pages fuel G L owner repo repository_id (page + 1) pulls)"

definition list_dependabot_prs ::
    "nat \<Rightarrow> github_client \<Rightarrow> 'g github_libs \<Rightarrow> string \<Rightarrow> string \<Rightarrow> u64 \<Rightarrow>
     ('g github_world, sync_request list) call" where
  "list_dependabot_prs fuel G L owner repo repository_id =
     pull_pages fuel G L owner repo repository_id 1 []"

fun comment_pages ::
    "nat \<Rightarrow> github_client \<Rightarrow> 'g github_libs \<Rightarrow> string \<Rightarrow> string \<Rightarrow> nat \<Rightarrow>
     ('g github_world, u64 option) call" where
  "comment_pages 0 G L path marker page = fail None"
| "comment_pages (Suc fuel) G L path marker page =
     andthen (ended (installation_json G L (gl_comments L) VerbGet (path @ ''?'' @ page_query page) None)) (\<lambda>comments.
       case find (\<lambda>c. str_contains (ic_body c) marker) comments of
         Some comment \<Rightarrow> ok (Some (ic_id comment))
       | None \<Rightarrow>
           if length comments < LISTING_PAGE_SIZE then ok None
           else comment_pages fuel G L path marker (page + 1))"

definition find_comment_with_marker ::
    "nat \<Rightarrow> github_client \<Rightarrow> 'g github_libs \<Rightarrow> string \<Rightarrow> string \<Rightarrow> ('g github_world, u64 option) call" where
  "find_comment_with_marker fuel G L path marker = comment_pages fuel G L path marker 1"

section \<open>Verified mutations\<close>

text \<open>What the mutate step did, and how a verified mutation ended.\<close>

datatype 'a write_step = Sent http_response | AlreadyApplied 'a
datatype ('t, 'a) mutation_outcome = Answered 't | Applied 'a

text \<open>A read-back that fails counts as unconfirmed; \<open>unconfirmed\<close> is what then stands.\<close>

definition confirmed ::
    "('w, 'a option) call \<Rightarrow> github_error \<Rightarrow> ('w, ('t, 'a) mutation_outcome) call" where
  "confirmed confirm unconfirmed = (\<lambda>w.
     case confirm w of
       (Inr (Some applied), w') \<Rightarrow> (Inr (Applied applied), w')
     | (Inr None, w') \<Rightarrow> (Inl (Some unconfirmed), w')
     | (Inl (Some _), w') \<Rightarrow> (Inl (Some unconfirmed), w')
     | (Inl None, w') \<Rightarrow> (Inl None, w'))"

definition read_answer ::
    "(http_response \<Rightarrow> github_error + 't) \<Rightarrow> operation \<Rightarrow> ('w, 'a option) call \<Rightarrow> http_response \<Rightarrow>
     ('w, ('t, 'a) mutation_outcome) call" where
  "read_answer parse operation confirm response =
     (case parse response of
        Inr answer \<Rightarrow> ok (Answered answer)
      | Inl (GeProtocol unreadable) \<Rightarrow> confirmed confirm (GeAmbiguous operation unreadable)
      | Inl e \<Rightarrow> fail (Some (known_http e)))"

definition verified_mutation ::
    "('w, github_pull) call \<Rightarrow> (http_response \<Rightarrow> github_error + 't) \<Rightarrow> operation \<Rightarrow> pr_target \<Rightarrow>
     (github_pull \<Rightarrow> 'a option) \<Rightarrow> ('w, 'a write_step) call \<Rightarrow> ('w, 'a option) call \<Rightarrow>
     ('w, ('t, 'a) mutation_outcome) call" where
  "verified_mutation fetch parse operation target already_applied mutate confirm =
     andthen fetch (\<lambda>pull.
       case already_applied pull of
         Some applied \<Rightarrow> ok (Applied applied)
       | None \<Rightarrow>
           if gp_state pull \<noteq> ''open'' \<or> gp_login pull \<noteq> DEPENDABOT_LOGIN
           then fail (Some (not_found ''pull request is closed or is not owned by Dependabot''))
           else if gp_head_sha pull \<noteq> tg_expected_sha target
           then fail (Some (GeStaleSha (tg_expected_sha target) (gp_head_sha pull)))
           else (\<lambda>w.
             case mutate w of
               (Inr (Sent response), w') \<Rightarrow> read_answer parse operation confirm response w'
             | (Inr (AlreadyApplied applied), w') \<Rightarrow> (Inr (Applied applied), w')
             | (Inl (Some (GeTransport m)), w') \<Rightarrow> confirmed confirm (GeTransport m) w'
             | (Inl e, w') \<Rightarrow> (Inl e, w')))"

definition into_applied ::
    "('t \<Rightarrow> github_error + 'a) \<Rightarrow> ('t, 'a) mutation_outcome \<Rightarrow> ('w, 'a) call" where
  "into_applied answered outcome =
     (case outcome of Answered answer \<Rightarrow> ended (lift (answered answer)) | Applied applied \<Rightarrow> ok applied)"

definition confirm_on_pull ::
    "github_client \<Rightarrow> 'g github_libs \<Rightarrow> pr_target \<Rightarrow> (github_pull \<Rightarrow> 'a option) \<Rightarrow>
     ('g github_world, 'a option) call" where
  "confirm_on_pull G L target landed =
     andthen (ended (fetch_target G L target)) (\<lambda>pull. ok (landed pull))"

definition verified_on ::
    "github_client \<Rightarrow> 'g github_libs \<Rightarrow> (string \<Rightarrow> string + 't) \<Rightarrow> operation \<Rightarrow> pr_target \<Rightarrow>
     (github_pull \<Rightarrow> 'a option) \<Rightarrow> ('g github_world, 'a write_step) call \<Rightarrow>
     ('g github_world, 'a option) call \<Rightarrow> ('g github_world, ('t, 'a) mutation_outcome) call" where
  "verified_on G L decode operation target =
     verified_mutation (ended (fetch_target G L target)) (parse_response (gl_error_body L) decode)
       operation target"

definition merged_as :: "string \<Rightarrow> github_pull \<Rightarrow> merged option" where
  "merged_as detail pull =
     (if gp_merged pull then Some \<lparr>mg_detail = detail, mg_sha = gp_merge_commit_sha pull\<rparr> else None)"

definition merge_path :: "pr_target \<Rightarrow> string" where
  "merge_path t = pull_path (tg_owner t) (tg_repo t) (tg_number t) @ ''/merge''"

definition merge_body :: "github_client \<Rightarrow> pr_target \<Rightarrow> merge_method option \<Rightarrow> json" where
  "merge_body G target how =
     JObj [(''sha'', JStr (tg_expected_sha target)),
           (''merge_method'', JStr (display_merge_method
              (case how of None \<Rightarrow> gc_merge_method (gk_config G) | Some m \<Rightarrow> m)))]"

definition merge_answered :: "merge_answer \<Rightarrow> github_error + merged" where
  "merge_answered answer =
     (if mt_merged answer then Inr \<lparr>mg_detail = mt_message answer, mg_sha = mt_sha answer\<rparr>
      else Inl (GeHttp (default_error_response\<lparr>er_status := 409, er_message := mt_message answer\<rparr>) True))"

definition client_merge ::
    "github_client \<Rightarrow> 'g github_libs \<Rightarrow> merge_request \<Rightarrow> merge_method option \<Rightarrow>
     ('g github_world, merged) call" where
  "client_merge G L request how =
     (let target = mr_target request
      in andthen
           (verified_on G L (gl_merge_result L) OpMerge target (merged_as ''already merged'')
             (andthen (ended (installation_request G L VerbPut (merge_path target)
                (Some (merge_body G target how)))) (\<lambda>response. ok (Sent response)))
             (confirm_on_pull G L target (merged_as ''merged (confirmed after an ambiguous response)'')))
           (into_applied merge_answered))"

definition update_branch_path :: "pr_target \<Rightarrow> string" where
  "update_branch_path t = pull_path (tg_owner t) (tg_repo t) (tg_number t) @ ''/update-branch''"

definition client_update_branch ::
    "github_client \<Rightarrow> 'g github_libs \<Rightarrow> update_branch_request \<Rightarrow> ('g github_world, string) call" where
  "client_update_branch G L request =
     (let target = ub_target request
      in andthen
           (verified_on G L (gl_update_result L) OpUpdateBranch target (\<lambda>_. None)
             (andthen (ended (installation_request G L VerbPut (update_branch_path target)
                (Some (JObj [(''expected_head_sha'', JStr (tg_expected_sha target))]))))
                (\<lambda>response. ok (Sent response)))
             (confirm_on_pull G L target (\<lambda>pull.
                if gp_head_sha pull \<noteq> tg_expected_sha target
                then Some ''branch updated (confirmed after an ambiguous response)'' else None)))
           (into_applied Inr))"

definition command_marker :: "command_request \<Rightarrow> string" where
  "command_marker request = ''<!-- dependaboard-batch:'' @ cq_batch_id request @ '' -->''"

definition comments_path :: "pr_target \<Rightarrow> string" where
  "comments_path t =
     ''/repos/'' @ tg_owner t @ ''/'' @ tg_repo t @ ''/issues/'' @ show_u64 (tg_number t) @ ''/comments''"

text \<open>The comment's text; the dash before the attribution is the three bytes of U+2014.\<close>

definition command_text :: "command_request \<Rightarrow> string" where
  "command_text request =
     ''@dependabot '' @ display_command (cq_command request) @ [CHR 0x0A, CHR 0x0A] @
     [CHR 0xE2, CHR 0x80, CHR 0x94] @ '' via dependabot-dashboard ('' @ cq_user_id request @ '')'' @
     [CHR 0x0A] @ command_marker request"

definition find_command ::
    "nat \<Rightarrow> github_client \<Rightarrow> 'g github_libs \<Rightarrow> command_request \<Rightarrow> ('g github_world, u64 option) call" where
  "find_command fuel G L request =
     find_comment_with_marker fuel G L (comments_path (cq_target request)) (command_marker request)"

definition post_comment ::
    "github_client \<Rightarrow> 'g github_libs \<Rightarrow> command_request \<Rightarrow> ('g github_world, string write_step) call" where
  "post_comment G L request =
     andthen (ended (user_request G L (cq_user_id request) VerbPost (comments_path (cq_target request))
         (Some (JObj [(''body'', JStr (command_text request))]))))
       (\<lambda>response. ok (Sent response))"

definition send_command ::
    "nat \<Rightarrow> github_client \<Rightarrow> 'g github_libs \<Rightarrow> command_request \<Rightarrow> ('g github_world, string write_step) call" where
  "send_command fuel G L request =
     andthen (find_command fuel G L request) (\<lambda>found.
       case found of
         Some comment_id \<Rightarrow>
           ok (AlreadyApplied (''command already accepted as comment #'' @ show_u64 comment_id))
       | None \<Rightarrow> post_comment G L request)"

definition confirm_command ::
    "nat \<Rightarrow> github_client \<Rightarrow> 'g github_libs \<Rightarrow> command_request \<Rightarrow> ('g github_world, string option) call" where
  "confirm_command fuel G L request =
     andthen (find_command fuel G L request) (\<lambda>found.
       ok (map_option (\<lambda>comment_id. ''command accepted as comment #'' @ show_u64 comment_id @
             '' (confirmed after an ambiguous response)'') found))"

definition client_post_command ::
    "nat \<Rightarrow> github_client \<Rightarrow> 'g github_libs \<Rightarrow> command_request \<Rightarrow> ('g github_world, string) call" where
  "client_post_command fuel G L request =
     (if \<not> gk_user_commands G then fail (Some no_user_token)
      else
        andthen
          (verified_on G L (gl_comment L) OpComment (cq_target request) (\<lambda>_. None)
            (send_command fuel G L request) (confirm_command fuel G L request))
          (into_applied (\<lambda>comment. Inr (''GitHub accepted comment #'' @ show_u64 (ic_id comment)))))"

end
