(* ===== verification/Github_Contract.thy ===== *)
theory Github_Contract
  imports Github_Client
begin

text \<open>
  What the GitHub client promises: nothing of a repository is written before the pull request
  was read and found to be the one approved, at its approved head; a listing is all of GitHub's
  pages or it is refused; a snapshot's checks are those of every page. \<open>verified_writer\<close> is the
  contract between the verified mutation and the reads it is given.
\<close>

section \<open>What is sent\<close>

text \<open>The requests sent that write to a repository.\<close>

definition repo_write :: "github_client \<Rightarrow> http_request \<Rightarrow> bool" where
  "repo_write G r \<longleftrightarrow> hq_verb r \<noteq> VerbGet \<and> starts_with (hq_url r) (gc_api_url (gk_config G) @ ''/repos/'')"

definition repo_writes :: "github_client \<Rightarrow> 'g github_world \<Rightarrow> http_request list" where
  "repo_writes G w = filter (repo_write G) (gw_sent w)"

named_theorems reads \<open>requests that leave the writes as they were\<close>

definition quiet :: "github_client \<Rightarrow> ('g github_world, 'e, 'a) eff \<Rightarrow> bool" where
  "quiet G m \<longleftrightarrow> (\<forall>w. repo_writes G (snd (m w)) = repo_writes G w)"

lemma quietD: "quiet G m \<Longrightarrow> m w = (r, w') \<Longrightarrow> repo_writes G w' = repo_writes G w"
  by (metis quiet_def snd_conv)

lemma quiet_simple [reads]:
  "quiet G (ok a)" "quiet G (fail e)" "quiet G (lift r)" "quiet G unix_seconds"
  by (simp_all add: quiet_def repo_writes_def unix_seconds_def)

lemma quiet_andthen [reads]: "quiet G m \<Longrightarrow> (\<And>a. quiet G (f a)) \<Longrightarrow> quiet G (andthen m f)"
  by (auto simp: quiet_def andthen_def split: prod.split sum.split) (metis snd_conv)+

lemma quiet_ended [reads]: "quiet G m \<Longrightarrow> quiet G (ended m)"
  by (auto simp: quiet_def ended_def split: prod.split sum.split) (metis snd_conv)+

lemma send_http_writes:
  "repo_writes G (snd (send_http L r w)) = repo_writes G w @ (if repo_write G r then [r] else [])"
  by (simp add: repo_writes_def send_http_def split: prod.split)

lemma token_request_reads: "\<not> repo_write G \<lparr>hq_verb = v, hq_url = token_url G i, hq_bearer = j, hq_body = b\<rparr>"
  by (simp add: repo_write_def token_url_def starts_with_def)

lemma quiet_token [reads]: "quiet G (installation_token G L i force)"
proof -
  have send: "quiet G (send_http L \<lparr>hq_verb = VerbPost, hq_url = token_url G i, hq_bearer = j, hq_body = None\<rparr>)" for j
    by (simp add: quiet_def send_http_writes token_request_reads)
  have keep: "quiet G (put (\<lambda>w. w\<lparr>gw_tokens := f w\<rparr>))" for f
    by (simp add: quiet_def repo_writes_def)
  have fresh: "quiet G (refresh_token G L i)"
    unfolding refresh_token_def app_jwt_def by (intro reads send keep)
  have "quiet G (\<lambda>w. case (if force then None else gw_tokens w i) of
      Some token \<Rightarrow> if now + 60 < ct_expires_at token then (Inr (ct_value token), w) else refresh_token G L i w
    | None \<Rightarrow> refresh_token G L i w)" for now
    using fresh by (auto simp: quiet_def split: option.split)
  then show ?thesis unfolding installation_token_def by (intro quiet_andthen quiet_simple)
qed

text \<open>A request sent as the installation goes out at most once more than its first attempt.\<close>

lemma send_attempts_writes:
  "\<exists>ws. repo_writes G (snd (send_attempts n force G L i verb url body w)) = repo_writes G w @ ws \<and>
     length ws \<le> Suc n \<and>
     (\<forall>r\<in>set ws. hq_verb r = verb \<and> hq_url r = url \<and> hq_body r = body \<and> repo_write G r)"
proof (induction n arbitrary: force w)
  case 0
  obtain r w1 where t: "installation_token G L i force w = (r, w1)" by fastforce
  note w1 = quietD [OF quiet_token t]
  show ?case
  proof (cases r)
    case (Inl e)
    then show ?thesis using t w1 by (intro exI [of _ "[]"]) simp
  next
    case (Inr token)
    then show ?thesis
      using t w1 send_http_writes [of G L "\<lparr>hq_verb = verb, hq_url = url, hq_bearer = token, hq_body = body\<rparr>" w1]
      by (auto split: if_splits)
  qed
next
  case (Suc n)
  obtain r w1 where t: "installation_token G L i force w = (r, w1)" by fastforce
  note w1 = quietD [OF quiet_token t]
  show ?case
  proof (cases r)
    case (Inl e)
    then show ?thesis using t w1 by (intro exI [of _ "[]"]) simp
  next
    case (Inr token)
    let ?req = "\<lparr>hq_verb = verb, hq_url = url, hq_bearer = token, hq_body = body\<rparr>"
    obtain x w2 where s: "send_http L ?req w1 = (x, w2)" by fastforce
    have w2: "repo_writes G w2 = repo_writes G w @ (if repo_write G ?req then [?req] else [])"
      using send_http_writes [of G L ?req w1] s w1 by simp
    show ?thesis
    proof (cases "\<exists>y. x = Inr y \<and> hs_status y = 401")
      case True
      then have "snd (send_attempts (Suc n) force G L i verb url body w) =
          snd (send_attempts n True G L i verb url body w2)" using t Inr s by auto
      moreover obtain ws where "repo_writes G (snd (send_attempts n True G L i verb url body w2)) = repo_writes G w2 @ ws"
        "length ws \<le> Suc n" "\<forall>r\<in>set ws. hq_verb r = verb \<and> hq_url r = url \<and> hq_body r = body \<and> repo_write G r"
        using Suc.IH by blast
      ultimately show ?thesis
        using w2 by (intro exI [of _ "(if repo_write G ?req then [?req] else []) @ ws"]) auto
    next
      case False
      then have "snd (send_attempts (Suc n) force G L i verb url body w) = w2"
        using t Inr s by (cases x) (auto simp: andthen_def)
      then show ?thesis
        using w2 by (intro exI [of _ "if repo_write G ?req then [?req] else []"]) auto
    qed
  qed
qed

lemma request_writes:
  "\<exists>ws. repo_writes G (snd (installation_request G L verb path body w)) = repo_writes G w @ ws \<and>
     length ws \<le> 2 \<and> (\<forall>r\<in>set ws. hq_verb r = verb \<and> hq_url r = gc_api_url (gk_config G) @ path \<and>
       hq_body r = body \<and> repo_write G r)"
  unfolding installation_request_def installation_send_def One_nat_def numeral_2_eq_2
  by (rule send_attempts_writes)

lemma quiet_get [reads]: "quiet G (installation_request G L VerbGet path body)"
  unfolding quiet_def
proof
  fix w
  obtain ws where ws: "repo_writes G (snd (installation_request G L VerbGet path body w)) = repo_writes G w @ ws"
    "\<forall>r\<in>set ws. hq_verb r = VerbGet \<and> repo_write G r"
    using request_writes [of G L VerbGet path body w] by blast
  then have "ws = []" by (cases ws) (auto simp: repo_write_def)
  with ws show "repo_writes G (snd (installation_request G L VerbGet path body w)) = repo_writes G w" by simp
qed

lemma quiet_json [reads]: "quiet G (installation_json G L decode VerbGet path body)"
  unfolding installation_json_def by (intro reads)

lemma quiet_target [reads]: "quiet G (fetch_target G L target)"
  unfolding fetch_target_def fetch_pull_def by (rule quiet_json)

lemma quiet_confirm [reads]: "quiet G (confirm_on_pull G L target landed)"
  unfolding confirm_on_pull_def by (intro reads)

lemma quiet_comments [reads]: "quiet G (comment_pages fuel G L path marker page)"
proof (induction fuel arbitrary: page)
  case 0
  show ?case by (simp add: quiet_def)
next
  case (Suc fuel)
  then show ?case
    unfolding comment_pages.simps
    by (intro quiet_andthen quiet_ended quiet_json) (auto split: option.split intro: reads)
qed

section \<open>The contract of a verified mutation\<close>

locale verified_writer =
  fixes fetch :: "('w, github_pull) call" and confirm :: "('w, 'a option) call" and writes :: "'w \<Rightarrow> 'x list"
  assumes fetch_reads: "fetch w = (x, w') \<Longrightarrow> writes w' = writes w"
    and confirm_reads: "confirm w = (y, w') \<Longrightarrow> writes w' = writes w"
begin

lemma confirmed_reads: "confirmed confirm e w = (r, w') \<Longrightarrow> writes w' = writes w"
  by (auto simp: confirmed_def dest: confirm_reads split: prod.splits sum.splits option.splits)

lemma answer_reads: "read_answer parse operation confirm response w = (r, w') \<Longrightarrow> writes w' = writes w"
  by (auto simp: read_answer_def dest: confirmed_reads split: sum.splits github_error.splits)

text \<open>What is written was written by the mutate step, after a read that passed every check.\<close>

lemma written_once_verified:
  assumes "verified_mutation fetch parse operation target already mutate confirm w = (r, w')"
  obtains (unwritten) "writes w' = writes w"
  | (verified) pull w1 x w2 where "fetch w = (Inr pull, w1)" "already pull = None"
      "gp_state pull = ''open''" "gp_login pull = DEPENDABOT_LOGIN"
      "gp_head_sha pull = tg_expected_sha target"
      "writes w1 = writes w" "mutate w1 = (x, w2)" "writes w' = writes w2"
proof -
  obtain f w1 where f: "fetch w = (f, w1)" by (metis surj_pair)
  note w1 = fetch_reads [OF f]
  show thesis
  proof (cases f)
    case (Inl e)
    then have "w' = w1" using assms f by (simp add: verified_mutation_def)
    with w1 show thesis by (intro unwritten) simp
  next
    case (Inr pull)
    show thesis
    proof (cases "already pull = None \<and> gp_state pull = ''open'' \<and> gp_login pull = DEPENDABOT_LOGIN \<and>
        gp_head_sha pull = tg_expected_sha target")
      case False
      then have "w' = w1"
        using assms f Inr by (auto simp: verified_mutation_def split: option.splits if_splits)
      with w1 show thesis by (intro unwritten) simp
    next
      case True
      obtain x w2 where m: "mutate w1 = (x, w2)" by (metis surj_pair)
      have "writes w' = writes w2"
        using assms f Inr True m
        by (auto simp: verified_mutation_def dest: answer_reads confirmed_reads
            split: sum.splits write_step.splits option.splits github_error.splits)
      then show thesis using verified [OF _ _ _ _ _ w1 m] f Inr True by blast
    qed
  qed
qed

lemma written_bounded:
  assumes "verified_mutation fetch parse operation target already mutate confirm w = (r, w')"
    and "\<And>a. R a a" and "\<And>w1 x w2. mutate w1 = (x, w2) \<Longrightarrow> R (writes w1) (writes w2)"
  shows "R (writes w) (writes w') \<and> (writes w' \<noteq> writes w \<longrightarrow>
    (\<exists>pull w1. fetch w = (Inr pull, w1) \<and> gp_state pull = ''open'' \<and>
       gp_login pull = DEPENDABOT_LOGIN \<and> gp_head_sha pull = tg_expected_sha target))"
proof (cases rule: written_once_verified [OF assms(1)])
  case 1
  then show ?thesis using assms(2) by simp
next
  case (2 pull w1 x w2)
  then show ?thesis using assms(3) [OF 2(7)] by auto
qed

end

interpretation on_pull: verified_writer "ended (fetch_target G L target)" "confirm_on_pull G L target landed" "repo_writes G"
  by unfold_locales (auto dest: quietD [OF quiet_ended [OF quiet_target]] quietD [OF quiet_confirm])

lemma quiet_find [reads]: "quiet G (find_command fuel G L request)"
  unfolding find_command_def find_comment_with_marker_def by (rule quiet_comments)

interpretation on_comments: verified_writer "ended (fetch_target G L target)" "confirm_command fuel G L request"
    "repo_writes G"
proof unfold_locales
  have "quiet G (confirm_command fuel G L request)" unfolding confirm_command_def by (intro reads)
  then show "confirm_command fuel G L request w = (y, w') \<Longrightarrow> repo_writes G w' = repo_writes G w" for w y w'
    by (rule quietD)
qed (auto dest: quietD [OF quiet_ended [OF quiet_target]])

section \<open>Mutations\<close>

datatype mutation =
    MergePull merge_request "merge_method option"
  | UpdatePullBranch update_branch_request
  | PostCommand command_request

fun mutation_target :: "mutation \<Rightarrow> pr_target" where
  "mutation_target (MergePull r _) = mr_target r"
| "mutation_target (UpdatePullBranch r) = ub_target r"
| "mutation_target (PostCommand r) = cq_target r"

text \<open>The one write each mutation may send: its verb, its path and its body.\<close>

fun mutation_write :: "github_client \<Rightarrow> mutation \<Rightarrow> verb \<times> string \<times> json" where
  "mutation_write G (MergePull r how) = (VerbPut, merge_path (mr_target r), merge_body G (mr_target r) how)"
| "mutation_write G (UpdatePullBranch r) = (VerbPut, update_branch_path (ub_target r),
     JObj [(''expected_head_sha'', JStr (tg_expected_sha (ub_target r)))])"
| "mutation_write G (PostCommand r) = (VerbPost, comments_path (cq_target r),
     JObj [(''body'', JStr (command_text r))])"

text \<open>The words a mutation ends with, and how it fails.\<close>

fun run_mutation ::
    "nat \<Rightarrow> github_client \<Rightarrow> 'g github_libs \<Rightarrow> mutation \<Rightarrow> ('g github_world, string) call" where
  "run_mutation fuel G L (MergePull r how) = andthen (client_merge G L r how) (\<lambda>m. ok (mg_detail m))"
| "run_mutation fuel G L (UpdatePullBranch r) = client_update_branch G L r"
| "run_mutation fuel G L (PostCommand r) = client_post_command fuel G L r"

definition writes_at_most ::
    "github_client \<Rightarrow> verb \<times> string \<times> json \<Rightarrow> http_request list \<Rightarrow> http_request list \<Rightarrow> bool" where
  "writes_at_most G write before after \<longleftrightarrow>
     (\<exists>ws. after = before @ ws \<and> length ws \<le> 2 \<and>
        (\<forall>r\<in>set ws. (hq_verb r, hq_url r, hq_body r) =
           (fst write, gc_api_url (gk_config G) @ fst (snd write), Some (snd (snd write)))))"

lemma writes_at_most_refl [simp]: "writes_at_most G x a a"
  by (simp add: writes_at_most_def)

lemma sent_request_writes:
  assumes "andthen (ended (installation_request G L v p (Some b))) (\<lambda>x. ok (Sent x)) w = (r, w')"
  shows "writes_at_most G (v, p, b) (repo_writes G w) (repo_writes G w')"
proof -
  have "w' = snd (installation_request G L v p (Some b) w)"
    using assms by (auto simp: andthen_def ended_def split: prod.splits sum.splits)
  then show ?thesis
    using request_writes [of G L v p "Some b" w] by (fastforce simp: writes_at_most_def)
qed

lemma sent_user_writes:
  assumes "andthen (ended (user_request G L u v p (Some b))) (\<lambda>x. ok (Sent x)) w = (r, w')"
  shows "writes_at_most G (v, p, b) (repo_writes G w) (repo_writes G w')"
proof (cases "gk_user_token G u")
  case (Inl e)
  then have "w' = w" using assms by (simp add: andthen_def ended_def user_request_def)
  then show ?thesis by simp
next
  case (Inr t)
  let ?req = "\<lparr>hq_verb = v, hq_url = gc_api_url (gk_config G) @ p, hq_bearer = t, hq_body = Some b\<rparr>"
  have "w' = snd (send_http L ?req w)"
    using assms Inr by (auto simp: andthen_def ended_def user_request_def split: prod.splits sum.splits)
  then have "repo_writes G w' = repo_writes G w @ (if repo_write G ?req then [?req] else [])"
    by (simp add: send_http_writes)
  then show ?thesis unfolding writes_at_most_def
    by (intro exI [of _ "if repo_write G ?req then [?req] else []"]) auto
qed

definition verified_read :: "github_client \<Rightarrow> 'g github_libs \<Rightarrow> pr_target \<Rightarrow> 'g github_world \<Rightarrow> bool" where
  "verified_read G L target w \<longleftrightarrow>
     (\<exists>pull w1. fetch_target G L target w = (Inr pull, w1) \<and> gp_state pull = ''open'' \<and>
        gp_login pull = DEPENDABOT_LOGIN \<and> gp_head_sha pull = tg_expected_sha target)"

lemma ended_Inr: "ended m w = (Inr a, w') \<longleftrightarrow> m w = (Inr a, w')"
  by (auto simp: ended_def split: prod.splits sum.splits)

lemma into_applied_world: "snd (into_applied f m w) = w"
  by (auto simp: into_applied_def ended_def split: mutation_outcome.split prod.split sum.split)

text \<open>The state a sequence ends in, when its last step changes nothing.\<close>

lemma andthen_world: "(\<And>a w. snd (f a w) = w) \<Longrightarrow> snd (andthen m f w) = snd (m w)"
  by (simp add: andthen_def split: prod.split sum.split)

definition safe_mutation ::
    "nat \<Rightarrow> github_client \<Rightarrow> 'g github_libs \<Rightarrow> mutation \<Rightarrow> 'g github_world \<Rightarrow> 'g github_world \<Rightarrow> bool" where
  "safe_mutation fuel G L m w w' \<longleftrightarrow>
     writes_at_most G (mutation_write G m) (repo_writes G w) (repo_writes G w') \<and>
     (repo_writes G w' \<noteq> repo_writes G w \<longrightarrow> verified_read G L (mutation_target m) w)"

lemma merge_safe:
  "safe_mutation fuel G L (MergePull request how) w (snd (client_merge G L request how w))"
proof -
  let ?send = "andthen (ended (installation_request G L VerbPut (merge_path (mr_target request))
      (Some (merge_body G (mr_target request) how)))) (\<lambda>response. ok (Sent response))"
  obtain r w' where run: "verified_on G L (gl_merge_result L) OpMerge (mr_target request)
      (merged_as ''already merged'') ?send (confirm_on_pull G L (mr_target request)
        (merged_as ''merged (confirmed after an ambiguous response)'')) w = (r, w')" by (metis surj_pair)
  have "snd (client_merge G L request how w) = w'"
    using run by (simp add: client_merge_def Let_def andthen_world into_applied_world)
  moreover have mut: "writes_at_most G (mutation_write G (MergePull request how)) (repo_writes G w1) (repo_writes G w2)"
    if "?send w1 = (x, w2)" for w1 x w2
    using sent_request_writes [OF that] by simp
  moreover have "safe_mutation fuel G L (MergePull request how) w w'"
    using on_pull.written_bounded [where R = "writes_at_most G (mutation_write G (MergePull request how))",
        OF run [unfolded verified_on_def] writes_at_most_refl mut]
    by (simp add: safe_mutation_def verified_read_def ended_Inr)
  ultimately show ?thesis by simp
qed

lemma update_safe:
  "safe_mutation fuel G L (UpdatePullBranch request) w (snd (client_update_branch G L request w))"
proof -
  let ?t = "ub_target request"
  let ?send = "andthen (ended (installation_request G L VerbPut (update_branch_path ?t)
      (Some (JObj [(''expected_head_sha'', JStr (tg_expected_sha ?t))])))) (\<lambda>response. ok (Sent response))"
  obtain r w' where run: "verified_on G L (gl_update_result L) OpUpdateBranch ?t (\<lambda>_. None) ?send
      (confirm_on_pull G L ?t (\<lambda>pull. if gp_head_sha pull \<noteq> tg_expected_sha ?t
         then Some ''branch updated (confirmed after an ambiguous response)'' else None)) w = (r, w')"
    by (metis surj_pair)
  have "snd (client_update_branch G L request w) = w'"
    using run by (simp add: client_update_branch_def Let_def andthen_world into_applied_world)
  moreover have mut: "writes_at_most G (mutation_write G (UpdatePullBranch request)) (repo_writes G w1) (repo_writes G w2)"
    if "?send w1 = (x, w2)" for w1 x w2
    using sent_request_writes [OF that] by simp
  moreover have "safe_mutation fuel G L (UpdatePullBranch request) w w'"
    using on_pull.written_bounded [where R = "writes_at_most G (mutation_write G (UpdatePullBranch request))",
        OF run [unfolded verified_on_def] writes_at_most_refl mut]
    by (simp add: safe_mutation_def verified_read_def ended_Inr)
  ultimately show ?thesis by simp
qed


lemma command_safe:
  "safe_mutation fuel G L (PostCommand request) w (snd (client_post_command fuel G L request w))"
proof (cases "gk_user_commands G")
  case False
  then show ?thesis by (simp add: client_post_command_def safe_mutation_def)
next
  case True
  let ?t = "cq_target request"
  let ?send = "send_command fuel G L request" and ?confirm = "confirm_command fuel G L request"
  obtain r w' where run: "verified_on G L (gl_comment L) OpComment ?t (\<lambda>_. None) ?send ?confirm w = (r, w')"
    by (metis surj_pair)
  have "snd (client_post_command fuel G L request w) = w'"
    using run True by (simp add: client_post_command_def Let_def andthen_world into_applied_world)
  moreover have mut: "writes_at_most G (mutation_write G (PostCommand request)) (repo_writes G w1) (repo_writes G w2)"
    if send: "?send w1 = (x, w2)" for w1 x w2
  proof -
    obtain f w3 where f: "find_command fuel G L request w1 = (f, w3)" by (metis surj_pair)
    have w3: "repo_writes G w3 = repo_writes G w1" by (rule quietD [OF quiet_find f])
    show ?thesis
    proof (cases "f = Inr None")
      case True
      then have "post_comment G L request w3 = (x, w2)" using send f by (simp add: send_command_def)
      from sent_user_writes [OF this [unfolded post_comment_def]] w3 show ?thesis by simp
    next
      case False
      then have "w2 = w3" using send f
        by (cases f) (auto simp: send_command_def andthen_def split: option.splits)
      then show ?thesis using w3 by simp
    qed
  qed
  moreover have "safe_mutation fuel G L (PostCommand request) w w'"
    using on_comments.written_bounded [where R = "writes_at_most G (mutation_write G (PostCommand request))",
        OF run [unfolded verified_on_def] writes_at_most_refl mut]
    by (simp add: safe_mutation_def verified_read_def ended_Inr)
  ultimately show ?thesis by simp
qed

text \<open>
  C9: However a mutation ends, GitHub was sent at most the one write it stands for, twice at most
  (the second time with a fresh token), and none at all unless the pull request was first read
  to be open, Dependabot's, and at the head the caller approved.
\<close>

theorem writes_follow_verification:
  assumes "run_mutation fuel G L m w = (r, w')"
  shows "(\<exists>ws. repo_writes G w' = repo_writes G w @ ws \<and> length ws \<le> 2 \<and>
      (\<forall>x\<in>set ws. (hq_verb x, hq_url x, hq_body x) = (fst (mutation_write G m),
         gc_api_url (gk_config G) @ fst (snd (mutation_write G m)), Some (snd (snd (mutation_write G m))))) \<and>
      (ws \<noteq> [] \<longrightarrow> (\<exists>pull w1. fetch_target G L (mutation_target m) w = (Inr pull, w1) \<and>
         gp_state pull = ''open'' \<and> gp_login pull = DEPENDABOT_LOGIN \<and>
         gp_head_sha pull = tg_expected_sha (mutation_target m))))"
proof -
  have "safe_mutation fuel G L m w w'"
  proof (cases m)
    case (MergePull request how)
    have "w' = snd (client_merge G L request how w)"
      using arg_cong [OF assms, of snd] by (simp add: MergePull andthen_world)
    then show ?thesis using merge_safe by (simp add: MergePull)
  next
    case (UpdatePullBranch request)
    then show ?thesis using assms update_safe [of fuel G L request w] by simp
  next
    case (PostCommand request)
    then show ?thesis using assms command_safe [of fuel G L request w] by simp
  qed
  then show ?thesis
    unfolding safe_mutation_def writes_at_most_def verified_read_def by fastforce
qed

section \<open>Listings\<close>

text \<open>
  A listing that stands still: each page is answered with its slice, whatever the state of the
  client, and the pages of repositories carry how many there are.
\<close>

definition nth_page :: "nat \<Rightarrow> 'a list \<Rightarrow> 'a list" where
  "nth_page n xs = take LISTING_PAGE_SIZE (drop (n * LISTING_PAGE_SIZE) xs)"

definition lists_repositories ::
    "github_client \<Rightarrow> 'g github_libs \<Rightarrow> github_repository list \<Rightarrow> bool" where
  "lists_repositories G L R \<longleftrightarrow>
     (\<forall>n w. fst (installation_json G L (gl_repositories L) VerbGet (repositories_path (n + 1)) None w) =
        Inr \<lparr>ir_total_count = length R, ir_repositories = nth_page n R\<rparr>)"

definition lists_pulls ::
    "github_client \<Rightarrow> 'g github_libs \<Rightarrow> string \<Rightarrow> string \<Rightarrow> pull_list_item list \<Rightarrow> bool" where
  "lists_pulls G L owner repo P \<longleftrightarrow>
     (\<forall>n w. fst (installation_json G L (gl_pulls L) VerbGet (pulls_path owner repo (n + 1)) None w) =
        Inr (nth_page n P))"

lemma take_pages: "take (n * LISTING_PAGE_SIZE) xs @ nth_page n xs = take ((n + 1) * LISTING_PAGE_SIZE) xs"
  by (simp add: nth_page_def LISTING_PAGE_SIZE_def add.commute take_add [symmetric])

lemma nth_page_short: "length (nth_page n xs) < LISTING_PAGE_SIZE \<Longrightarrow> length xs < (n + 1) * LISTING_PAGE_SIZE"
  by (simp add: nth_page_def LISTING_PAGE_SIZE_def)

lemma nth_page_full:
  "\<not> length (nth_page n xs) < LISTING_PAGE_SIZE \<Longrightarrow> (n + 1) * LISTING_PAGE_SIZE \<le> length xs"
  by (simp add: nth_page_def LISTING_PAGE_SIZE_def)

lemma length_page: "length (nth_page n xs) = min LISTING_PAGE_SIZE (length xs - n * LISTING_PAGE_SIZE)"
  by (simp add: nth_page_def)

lemma ended_run: "fst (m w) = Inr a \<Longrightarrow> ended m w = (Inr a, snd (m w))"
  by (auto simp: ended_def split: prod.split sum.split)

lemma repository_pages_all:
  assumes "lists_repositories G L R" and "length R < (n + fuel) * LISTING_PAGE_SIZE" "0 < fuel"
    and "length pages = n" "n * LISTING_PAGE_SIZE \<le> length R"
    and "\<forall>p\<in>set pages. ir_total_count p = length R"
    and "concat (map ir_repositories pages) = take (n * LISTING_PAGE_SIZE) R"
  shows "\<exists>pages' w'. repository_pages fuel G L pages (n * LISTING_PAGE_SIZE) w = (Inr pages', w') \<and>
    pages' \<noteq> [] \<and> (\<forall>p\<in>set pages'. ir_total_count p = length R) \<and> concat (map ir_repositories pages') = R"
  using assms(2-)
proof (induction fuel arbitrary: n pages w)
  case 0
  then show ?case by simp
next
  case (Suc fuel)
  let ?page = "\<lparr>ir_total_count = length R, ir_repositories = nth_page n R\<rparr>"
  let ?read = "installation_json G L (gl_repositories L) VerbGet (repositories_path (n + 1)) None"
  have read: "ended ?read w = (Inr ?page, snd (?read w))"
    using assms(1) by (intro ended_run) (simp add: lists_repositories_def)
  have count: "(case pages of [] \<Rightarrow> ir_total_count ?page | p # _ \<Rightarrow> ir_total_count p) = length R"
    using Suc.prems(5) by (cases pages) auto
  let ?pages = "pages @ [?page]"
  have all: "concat (map ir_repositories ?pages) = take ((n + 1) * LISTING_PAGE_SIZE) R"
    "\<forall>p\<in>set ?pages. ir_total_count p = length R"
    using Suc.prems(5,6) take_pages [of n R] by auto
  show ?case
  proof (cases "length (nth_page n R) < LISTING_PAGE_SIZE \<or> length R \<le> n * LISTING_PAGE_SIZE + length (nth_page n R)")
    case True
    then have "length R \<le> (n + 1) * LISTING_PAGE_SIZE"
      by (auto simp: length_page LISTING_PAGE_SIZE_def split: if_splits)
    then have "concat (map ir_repositories ?pages) = R" using all(1) by simp
    moreover have "repository_pages (Suc fuel) G L pages (n * LISTING_PAGE_SIZE) w = (Inr ?pages, snd (?read w))"
      using read True count Suc.prems(3) by (simp add: Let_def)
    ultimately show ?thesis using all(2) by blast
  next
    case False
    then have full: "length (nth_page n R) = LISTING_PAGE_SIZE" "(n + 1) * LISTING_PAGE_SIZE \<le> length R"
      using nth_page_full [of n R] by (auto simp: length_page)
    have "repository_pages (Suc fuel) G L pages (n * LISTING_PAGE_SIZE) w =
        repository_pages fuel G L ?pages ((n + 1) * LISTING_PAGE_SIZE) (snd (?read w))"
      using read False count Suc.prems(3) full(1) by (simp add: Let_def add.commute)
    moreover have "0 < fuel" using Suc.prems(1) full(2) by (cases fuel) auto
    ultimately show ?thesis
      using Suc.IH [of "n + 1" ?pages "snd (?read w)"] Suc.prems(1,3) all full(2) by auto
  qed
qed

lemma pull_pages_all:
  assumes "lists_pulls G L owner repo P" and "length P < (n + fuel) * LISTING_PAGE_SIZE" "0 < fuel"
    and "pulls = map (sync_of_pull owner repo i)
      (filter (\<lambda>pull. pi_login pull = DEPENDABOT_LOGIN) (take (n * LISTING_PAGE_SIZE) P))"
  shows "\<exists>w'. pull_pages fuel G L owner repo i (n + 1) pulls w =
    (Inr (map (sync_of_pull owner repo i) (filter (\<lambda>pull. pi_login pull = DEPENDABOT_LOGIN) P)), w')"
  using assms(2-)
proof (induction fuel arbitrary: n pulls w)
  case 0
  then show ?case by simp
next
  case (Suc fuel)
  let ?read = "installation_json G L (gl_pulls L) VerbGet (pulls_path owner repo (n + 1)) None"
  let ?own = "\<lambda>xs. map (sync_of_pull owner repo i) (filter (\<lambda>pull. pi_login pull = DEPENDABOT_LOGIN) xs)"
  have read: "ended ?read w = (Inr (nth_page n P), snd (?read w))"
    using assms(1) by (intro ended_run) (simp add: lists_pulls_def)
  have more: "pulls @ ?own (nth_page n P) = ?own (take ((n + 1) * LISTING_PAGE_SIZE) P)"
    using Suc.prems(3) take_pages [of n P, symmetric] by simp
  show ?case
  proof (cases "length (nth_page n P) < LISTING_PAGE_SIZE")
    case True
    then have "take ((n + 1) * LISTING_PAGE_SIZE) P = P" using nth_page_short by fastforce
    then show ?thesis using read True more by (simp add: Let_def)
  next
    case False
    have "0 < fuel" using Suc.prems(1) nth_page_full [OF False] by (cases fuel) auto
    then show ?thesis
      using Suc.IH [of "n + 1" "?own (take ((n + 1) * LISTING_PAGE_SIZE) P)" "snd (?read w)"]
        Suc.prems(1) read False more by (simp add: Let_def)
  qed
qed

text \<open>
  While GitHub's listings stand still, the installation's repositories are all listed, each as
  its record with the merge method its settings call for, and so are all of a repository's open
  Dependabot pull requests, in GitHub's order, after one request per hundred and one.
\<close>

theorem listings_read_every_page:
  assumes "lists_repositories G L R" and "distinct (map gr_id R)"
    and "lists_pulls G L owner repo P"
    and "length R div 100 < fuel" and "length P div 100 < fuel"
  shows "(\<exists>w'. list_installation_repositories fuel G L w =
      (Inr (map (repository_record (gc_installation_id (gk_config G)) (gc_merge_method (gk_config G))
        (gw_times w (gw_reads w))) R), w')) \<and>
    (\<exists>w'. list_dependabot_prs fuel G L owner repo i w =
      (Inr (map (sync_of_pull owner repo i) (filter (\<lambda>pull. pi_login pull = ''dependabot[bot]'') P)), w'))"
proof
  let ?r = "repository_record (gc_installation_id (gk_config G)) (gc_merge_method (gk_config G))
    (gw_times w (gw_reads w))"
  have fuel: "0 < fuel" using assms(4) by simp
  have "length R < fuel * LISTING_PAGE_SIZE" using assms(4) by (simp add: LISTING_PAGE_SIZE_def div_less_iff_less_mult)
  then obtain pages w' where
    pages: "repository_pages fuel G L [] 0 (snd (unix_seconds w)) = (Inr pages, w')" "pages \<noteq> []"
      "\<forall>p\<in>set pages. ir_total_count p = length R" "concat (map ir_repositories pages) = R"
    using repository_pages_all [OF assms(1), of 0 fuel "[]" "snd (unix_seconds w)"] fuel by auto
  have ids: "map rr_repository_id (map ?r R) = map gr_id R"
    by (simp add: repository_record_def)
  have "retain_unseen [] (map ?r R) = map ?r R"
    using assms(2) by (intro retain_unseen_distinct) (simp_all only: ids, simp_all)
  then have "fold_repository_pages pages (gc_installation_id (gk_config G)) (gc_merge_method (gk_config G))
      (gw_times w (gw_reads w)) = Inr (map ?r R)"
    using pages(2-) by (subst fold_repository_pages_Inr) simp
  then show "\<exists>w'. list_installation_repositories fuel G L w = (Inr (map ?r R), w')"
    using pages(1) by (simp add: list_installation_repositories_def andthen_def ended_def unix_seconds_def)
  have "length P < fuel * LISTING_PAGE_SIZE" using assms(5) by (simp add: LISTING_PAGE_SIZE_def div_less_iff_less_mult)
  then show "\<exists>w'. list_dependabot_prs fuel G L owner repo i w =
      (Inr (map (sync_of_pull owner repo i) (filter (\<lambda>pull. pi_login pull = ''dependabot[bot]'') P)), w')"
    using pull_pages_all [OF assms(3), of 0 fuel "[]" i w] fuel
    by (simp add: list_dependabot_prs_def DEPENDABOT_LOGIN_def)
qed

lemma repository_pages_nonempty:
  "repository_pages fuel G L pages listed w = (Inr pages', w') \<Longrightarrow> pages' \<noteq> []"
proof (induction fuel arbitrary: pages listed w)
  case (Suc fuel)
  from Suc.prems obtain page w1 where
    "ended (installation_json G L (gl_repositories L) VerbGet (repositories_path (length pages + 1)) None) w =
      (Inr page, w1)" by (auto simp: andthen_Inr_iff)
  with Suc.prems Suc.IH show ?case by (auto simp: Let_def split: if_splits)
qed simp

text \<open>
  Whatever GitHub answers, a listing of repositories that is accepted names no repository
  twice and as many as every page said there are; pages that disagree are refused.
\<close>

theorem accepted_listing_is_whole:
  assumes "list_installation_repositories fuel G L w = (Inr repos, w')"
  shows "\<exists>pages :: installation_repositories list. pages \<noteq> [] \<and>
    (\<forall>p\<in>set pages. ir_total_count p = length repos) \<and> distinct (map rr_repository_id repos) \<and>
    set (map rr_repository_id repos) = gr_id ` (\<Union>p\<in>set pages. set (ir_repositories p)) \<and>
    (\<forall>r\<in>set repos. rr_installation_id r = gc_installation_id (gk_config G))"
proof -
  let ?i = "gc_installation_id (gk_config G)" and ?m = "gc_merge_method (gk_config G)"
  let ?at = "gw_times w (gw_reads w)"
  obtain pages where run: "repository_pages fuel G L [] 0 (snd (unix_seconds w)) = (Inr pages, w')"
    and fold: "fold_repository_pages pages ?i ?m ?at = Inr repos"
    using assms by (auto simp: list_installation_repositories_def andthen_Inr_iff ended_Inr unix_seconds_def)
  have ne: "pages \<noteq> []" by (rule repository_pages_nonempty [OF run])
  let ?all = "map (repository_record ?i ?m ?at) (concat (map ir_repositories pages))"
  from fold have counts: "\<forall>p\<in>set pages. ir_total_count p = length repos"
    and repos: "repos = retain_unseen [] ?all" by (simp_all add: fold_repository_pages_Inr)
  have e: "rr_repository_id ` set ?all = gr_id ` (\<Union>p\<in>set pages. set (ir_repositories p))"
    by (simp add: image_image repository_record_def image_UN)
  have spec: "distinct (map rr_repository_id repos)"
    "set (map rr_repository_id repos) = rr_repository_id ` set ?all" "set repos \<subseteq> set ?all"
    unfolding repos using retain_unseen_spec [of "[]" "?all"] by (simp_all only: list.set Diff_empty)
  have ids: "set (map rr_repository_id repos) = gr_id ` (\<Union>p\<in>set pages. set (ir_repositories p))"
    by (rule trans [OF spec(2) e])
  have "\<forall>r\<in>set ?all. rr_installation_id r = ?i" by (simp add: repository_record_def)
  then have "\<forall>r\<in>set repos. rr_installation_id r = ?i" using spec(3) by blast
  then have "pages \<noteq> [] \<and> (\<forall>p\<in>set pages. ir_total_count p = length repos) \<and>
      distinct (map rr_repository_id repos) \<and>
      set (map rr_repository_id repos) = gr_id ` (\<Union>p\<in>set pages. set (ir_repositories p)) \<and>
      (\<forall>r\<in>set repos. rr_installation_id r = ?i)"
    using ne counts ids spec(1) by (intro conjI)
  then show ?thesis by (rule exI)
qed

section \<open>Snapshots\<close>

text \<open>
  The pages GitHub has of a connection, as their page info says: a page that has a next one names
  the cursor that reads it, and the last one has none, or names no cursor to read one by. A commit
  without the connection has no pages.
\<close>

fun follows ::
    "(string \<Rightarrow> ('w, github_error, 'n connection option) eff) \<Rightarrow> 'n connection \<Rightarrow> 'n connection list \<Rightarrow> bool" where
  "follows next_page first [] \<longleftrightarrow>
     \<not> pn_has_next_page (cn_page_info first) \<or> pn_end_cursor (cn_page_info first) = None"
| "follows next_page first (p # ps) \<longleftrightarrow> pn_has_next_page (cn_page_info first) \<and>
     (\<exists>after. pn_end_cursor (cn_page_info first) = Some after \<and>
        (\<forall>w. fst (next_page after w) = Inr (Some p))) \<and>
     follows next_page p ps"

definition all_pages ::
    "(string \<Rightarrow> ('w, github_error, 'n connection option) eff) \<Rightarrow> 'n connection option \<Rightarrow> 'n connection list \<Rightarrow> bool" where
  "all_pages next_page connection pages \<longleftrightarrow>
     (case connection of None \<Rightarrow> pages = [] | Some first \<Rightarrow> \<exists>rest. pages = first # rest \<and> follows next_page first rest)"

lemma signals_of_pages:
  assumes "follows next_page first rest" and "length rest \<le> fuel"
  shows "\<exists>w'. signals_across_pages fuel first signal next_page w =
    (Inr (concat (map (\<lambda>p. List.map_filter signal (cn_nodes p)) (first # rest))), w')"
proof -
  have "\<exists>w'. pages_from fuel signal next_page acc (next_cursor p) w =
      (Inr (acc @ concat (map (\<lambda>p. List.map_filter signal (cn_nodes p)) rest)), w')"
    if "follows next_page p rest" for acc p w
    using that assms(2)
  proof (induction rest arbitrary: acc p w fuel)
    case Nil
    then show ?case by (auto simp: next_cursor_def)
  next
    case (Cons q rest)
    then obtain after where after: "next_cursor p = Some after" "\<forall>w. fst (next_page after w) = Inr (Some q)"
      and more: "follows next_page q rest" by (auto simp: next_cursor_def)
    obtain n where n: "fuel = Suc n" "length rest \<le> n" using Cons.prems(2) by (cases fuel) auto
    have read: "ended (next_page after) w = (Inr (Some q), snd (next_page after w))"
      using after(2) by (intro ended_run) simp
    from Cons.IH [OF more n(2), of "acc @ List.map_filter signal (cn_nodes q)" "snd (next_page after w)"]
    show ?case by (simp add: after(1) n(1) andthen_def read)
  qed
  from this [OF assms(1)] show ?thesis by (simp add: signals_across_pages_def)
qed

lemma projected_parts:
  assumes "rfc (pq_created_at pull) = Inr (int n)" and "rfc (pq_updated_at pull) = Inr (int m)"
  shows "\<exists>r. project_snapshot M rfc request pull head signals at = Inr r \<and>
    pr_head_sha r = co_oid head \<and> pr_check_status r = rollup_checks signals"
  using assms by (simp add: project_snapshot_def parse_timestamp_def Let_def case_prod_unfold)

lemma signals_of_all:
  assumes "all_pages next_page connection pages" and "length pages \<le> Suc fuel"
  shows "\<exists>w'. (case connection of None \<Rightarrow> ok [] | Some first \<Rightarrow> signals_across_pages fuel first signal next_page) w =
    (Inr (List.map_filter signal (concat (map cn_nodes pages))), w')"
proof (cases connection)
  case None
  with assms show ?thesis by (simp add: all_pages_def ok_def List.map_filter_def)
next
  case (Some first)
  have flat: "concat (map (\<lambda>p. List.map_filter signal (cn_nodes p)) ps) = List.map_filter signal (concat (map cn_nodes ps))"
    for ps by (induction ps) (simp_all add: List.map_filter_def)
  from Some assms obtain rest where "pages = first # rest" "follows next_page first rest"
    by (auto simp: all_pages_def)
  with signals_of_pages [of next_page first rest fuel signal w] assms(2) Some show ?thesis
    unfolding flat by simp
qed

text \<open>
  C10: A pull request that is closed or not Dependabot's has no snapshot. One that is has the head
  commit's checks, over every page GitHub has of its contexts and of its suites, as the pages' own
  info tells them, and none where the commit has no rollup or no suites: failing when any context
  or suite fails on any page, pending when none fails and one is pending, passing when all there
  are pass, none when there are none. The pages are assumed to be read without an error, and the
  two dates of the pull request to be dates since 1970.
\<close>

theorem snapshot_counts_every_page:
  assumes "fetch_pull_request_node G L request w = (Inr pull, w1)"
    and "fetch_head_commit G L request pull w1 = (Inr head, w2)"
    and "all_pages (next_contexts G L request head) (co_contexts head) context_pages"
    and "all_pages (next_suites G L request head) (co_check_suites head) suite_pages"
    and "length context_pages \<le> Suc fuel" and "length suite_pages \<le> Suc fuel"
    and "gl_rfc3339 L (pq_created_at pull) = Inr (int n)" and "gl_rfc3339 L (pq_updated_at pull) = Inr (int m)"
  defines "contexts \<equiv> concat (map cn_nodes context_pages)" and "suites \<equiv> concat (map cn_nodes suite_pages)"
  shows "if is_open_dependabot_pull pull
    then \<exists>r w'. fetch_snapshot fuel G L request w = (Inr (Some r), w') \<and> pr_head_sha r = co_oid head \<and>
      pr_check_status r =
        (if (\<exists>c\<in>set contexts. check_context_signal c = Some SgFail) \<or>
            (\<exists>s\<in>set suites. check_suite_signal s = Some SgFail) then CkFailure
         else if \<exists>c\<in>set contexts. check_context_signal c = Some SgPending then CkPending
         else if \<exists>c\<in>set contexts. check_context_signal c = Some SgPass then CkSuccess
         else CkNone)
    else fetch_snapshot fuel G L request w = (Inr None, w1)"
proof (cases "is_open_dependabot_pull pull")
  case False
  then show ?thesis using assms(1) by (simp add: fetch_snapshot_def andthen_def ended_def)
next
  case True
  let ?signals = "List.map_filter check_context_signal contexts @ List.map_filter check_suite_signal suites"
  obtain w3 where w3: "(case co_contexts head of None \<Rightarrow> ok [] | Some first \<Rightarrow>
      signals_across_pages fuel first check_context_signal (next_contexts G L request head)) w2 =
      (Inr (List.map_filter check_context_signal contexts), w3)"
    using signals_of_all [OF assms(3,5), of check_context_signal w2] unfolding contexts_def by blast
  obtain w4 where w4: "(case co_check_suites head of None \<Rightarrow> ok [] | Some first \<Rightarrow>
      signals_across_pages fuel first check_suite_signal (next_suites G L request head)) w3 =
      (Inr (List.map_filter check_suite_signal suites), w4)"
    using signals_of_all [OF assms(4,6), of check_suite_signal w3] unfolding suites_def by blast
  have signals: "check_signals fuel G L request head w2 = (Inr ?signals, w4)"
    unfolding check_signals_def by (simp only: andthen_def w3 w4 prod.case sum.case) (simp add: ok_def)
  let ?at = "gw_times w4 (gw_reads w4)"
  obtain r where r: "project_snapshot (gl_readers L) (gl_rfc3339 L) request pull head ?signals ?at = Inr r"
    and parts: "pr_head_sha r = co_oid head" "pr_check_status r = rollup_checks ?signals"
    using projected_parts [OF assms(7,8)] by blast
  have run: "\<exists>w'. fetch_snapshot fuel G L request w = (Inr (Some r), w')"
    using assms(1,2) True signals r
    by (simp add: fetch_snapshot_def andthen_def ended_def unix_seconds_def)
  have member: "x \<in> set (List.map_filter f ys) \<longleftrightarrow> (\<exists>y\<in>set ys. f y = Some x)"
    for f :: "'x \<Rightarrow> check_signal option" and x ys
    by (auto simp: List.map_filter_def image_iff)
  have suite: "check_suite_signal s = Some x \<Longrightarrow> x = SgFail" for s x
    by (auto simp: check_suite_signal_def split: option.splits check_signal.splits)
  have "pr_check_status r =
      (if (\<exists>c\<in>set contexts. check_context_signal c = Some SgFail) \<or>
            (\<exists>s\<in>set suites. check_suite_signal s = Some SgFail) then CkFailure
         else if \<exists>c\<in>set contexts. check_context_signal c = Some SgPending then CkPending
         else if \<exists>c\<in>set contexts. check_context_signal c = Some SgPass then CkSuccess
         else CkNone)"
    unfolding parts(2) rollup_checks_spec set_append Un_iff member using suite by auto
  then show ?thesis using True run parts(1) by auto
qed

section \<open>Instances\<close>

text \<open>
  A GitHub that answers every request, the body being the address asked for, and decoders that
  read one repository and one pull request off the first pages, a second page of checks with a
  failing run, and an open Dependabot pull request.
\<close>

definition echo_client :: github_client where
  "echo_client = \<lparr>gk_config = \<lparr>gc_api_url = ''https://x'', gc_app_id = 1, gc_installation_id = 5,
      gc_private_key = [], gc_user_pat = None, gc_dashboard_user = ''u'', gc_merge_method = MmSquash\<rparr>,
     gk_user_token = (\<lambda>_. Inl no_user_token), gk_user_commands = False\<rparr>"

definition echo_repository :: github_repository where
  "echo_repository = \<lparr>gr_id = 1, gr_name = ''api'', gr_owner_login = ''acme'',
     gr_merge_settings = \<lparr>me_allow_squash_merge = False, me_allow_merge_commit = True,
       me_allow_rebase_merge = True\<rparr>\<rparr>"

definition echo_pull :: pull_list_item where
  "echo_pull = \<lparr>pi_number = 7, pi_login = ''dependabot[bot]''\<rparr>"

definition one_answer :: "'a \<Rightarrow> 'a option option graphql_response" where
  "one_answer a = \<lparr>qr_data = Some (Some (Some a)), qr_errors = []\<rparr>"

definition last_page :: "'a list \<Rightarrow> 'a connection" where
  "last_page xs = \<lparr>cn_page_info = \<lparr>pn_has_next_page = False, pn_end_cursor = None\<rparr>, cn_nodes = xs\<rparr>"

definition echo_commit :: commit where
  "echo_commit = \<lparr>co_oid = ''abc'', co_message = ''Bump serde'',
     co_contexts = Some \<lparr>cn_page_info = \<lparr>pn_has_next_page = True, pn_end_cursor = Some ''c''\<rparr>,
       cn_nodes = [StatusContext ''SUCCESS'']\<rparr>,
     co_check_suites = Some (last_page [])\<rparr>"

definition echo_node :: pull_request_node where
  "echo_node = \<lparr>pq_title = ''Bump serde'', pq_url = ''https://x'', pq_state = ''OPEN'',
     pq_author = Some \<lparr>ac_typename = ''Bot'', ac_login = ''dependabot''\<rparr>, pq_created_at = ''t'',
     pq_updated_at = ''t'', pq_merge_state_status = Some ''CLEAN'', pq_head_ref_oid = ''abc'',
     pq_labels = None, pq_commits = last_page [echo_commit]\<rparr>"

definition echo_url :: "string \<Rightarrow> string" where
  "echo_url path = ''https://x'' @ path"

definition echo_libs :: "unit github_libs" where
  "echo_libs = \<lparr>
     gl_send = (\<lambda>r g. (Inr \<lparr>hs_status = 200, hs_headers = (\<lambda>_. None), hs_body = hq_url r\<rparr>, g)),
     gl_sign = (\<lambda>_. Inr ''jwt''), gl_rfc3339 = (\<lambda>_. Inr 3),
     gl_readers = \<lparr>mx_yaml = (\<lambda>_. None), mx_captures = (\<lambda>_. None), mx_version = (\<lambda>_. None)\<rparr>,
     gl_error_body = (\<lambda>_. Inl []),
     gl_token = (\<lambda>_. Inr \<lparr>it_token = ''t'', it_expires_at = ''t''\<rparr>),
     gl_pull = (\<lambda>_. Inr \<lparr>gp_state = ''open'', gp_login = ''dependabot[bot]'', gp_head_sha = ''abc'',
        gp_merged = False, gp_merge_commit_sha = None\<rparr>),
     gl_repositories = (\<lambda>s. Inr \<lparr>ir_total_count = 1, ir_repositories =
        (if s = echo_url (repositories_path 1) then [echo_repository] else [])\<rparr>),
     gl_pulls = (\<lambda>s. Inr (if s = echo_url (pulls_path ''acme'' ''api'' 1) then [echo_pull] else [])),
     gl_comments = (\<lambda>_. Inr []), gl_comment = (\<lambda>_. Inr \<lparr>ic_id = 1, ic_body = []\<rparr>),
     gl_merge_result = (\<lambda>_. Inr \<lparr>mt_merged = True, mt_message = ''merged'', mt_sha = None\<rparr>),
     gl_update_result = (\<lambda>_. Inr ''updating''),
     gl_snapshot = (\<lambda>_. Inr (one_answer echo_node)), gl_commit = (\<lambda>_. Inr (one_answer echo_commit)),
     gl_contexts = (\<lambda>_. Inr (one_answer (Some (last_page [CheckRun (Some ''COMPLETED'') (Some ''FAILURE'')])))),
     gl_suites = (\<lambda>_. Inr (one_answer None))\<rparr>"

definition echo_world :: "unit github_world" where
  "echo_world = \<lparr>gw_remote = (), gw_times = (\<lambda>_. 9), gw_reads = 0, gw_tokens = Map.empty, gw_sent = []\<rparr>"

definition echo_sync :: sync_request where
  "echo_sync = \<lparr>sr_repository_id = 1, sr_owner = ''acme'', sr_repo = ''api'', sr_number = 7,
     sr_bypass_debounce = False, sr_completion_id = None\<rparr>"

lemma echo_token: "\<exists>t w'. installation_token echo_client echo_libs i force w = (Inr t, w')"
proof -
  have fresh: "\<exists>t w'. refresh_token echo_client echo_libs i w = (Inr t, w')" for w
    by (simp add: refresh_token_def app_jwt_def andthen_def unix_seconds_def send_http_def echo_libs_def
        parse_response_def success_status_def parse_timestamp_def)
  show ?thesis
    using fresh by (auto simp: installation_token_def andthen_def unix_seconds_def split: option.split)
qed

lemma echo_parts [simp]:
  "gc_api_url (gk_config echo_client) = ''https://x''" "gc_installation_id (gk_config echo_client) = 5"
  "gc_merge_method (gk_config echo_client) = MmSquash"
  "gl_send echo_libs r g = (Inr \<lparr>hs_status = 200, hs_headers = (\<lambda>_. None), hs_body = hq_url r\<rparr>, g)"
  by (simp_all add: echo_client_def echo_libs_def)

lemma echo_send:
  "\<exists>w'. installation_send echo_client echo_libs v url body w =
     (Inr \<lparr>hs_status = 200, hs_headers = (\<lambda>_. None), hs_body = url\<rparr>, w')"
proof -
  obtain t w1 where "installation_token echo_client echo_libs 5 False w = (Inr t, w1)"
    using echo_token by blast
  then show ?thesis by (simp add: installation_send_def andthen_def send_http_def)
qed

lemma echo_json:
  "decode (echo_url path) = Inr a \<Longrightarrow>
     \<exists>w'. installation_json echo_client echo_libs decode v path body w = (Inr a, w')"
  using echo_send [of v "''https://x'' @ path" body w]
  by (auto simp: installation_json_def installation_request_def andthen_def parse_response_def
      success_status_def echo_url_def)

lemma echo_graphql:
  assumes "decode (graphql_url (gk_config echo_client)) = Inr \<lparr>qr_data = Some a, qr_errors = []\<rparr>"
  shows "\<exists>w'. graphql_call echo_client echo_libs decode q vars w = (Inr a, w')"
proof -
  let ?body = "Some (JObj [(''query'', JQuery q), (''variables'', vars)])"
  obtain w' where "installation_send echo_client echo_libs VerbPost (graphql_url (gk_config echo_client)) ?body w =
      (Inr \<lparr>hs_status = 200, hs_headers = (\<lambda>_. None), hs_body = graphql_url (gk_config echo_client)\<rparr>, w')"
    using echo_send by blast
  then show ?thesis using assms by (simp add: graphql_call_def andthen_def success_status_def)
qed

lemma echo_snapshot:
  "\<exists>w'. fetch_pull_request_node echo_client echo_libs echo_sync w = (Inr echo_node, w')"
proof -
  have "gl_snapshot echo_libs url = Inr \<lparr>qr_data = Some (Some (Some echo_node)), qr_errors = []\<rparr>" for url
    by (simp add: echo_libs_def one_answer_def)
  from echo_graphql [where decode = "gl_snapshot echo_libs", OF this] obtain w' where "graphql_call echo_client echo_libs (gl_snapshot echo_libs) SnapshotQuery
      (JObj [(''owner'', JStr (sr_owner echo_sync)), (''repo'', JStr (sr_repo echo_sync)),
        (''number'', JNum (sr_number echo_sync))]) w = (Inr (Some (Some echo_node)), w')"
    by blast
  then show ?thesis by (simp add: fetch_pull_request_node_def andthen_def)
qed

lemma echo_contexts:
  "fst (next_contexts echo_client echo_libs echo_sync echo_commit after w) =
     Inr (Some (last_page [CheckRun (Some ''COMPLETED'') (Some ''FAILURE'')]))"
proof -
  let ?more = "last_page [CheckRun (Some ''COMPLETED'') (Some ''FAILURE'')]"
  have "gl_contexts echo_libs url = Inr \<lparr>qr_data = Some (Some (Some (Some ?more))), qr_errors = []\<rparr>" for url
    by (simp add: echo_libs_def one_answer_def)
  from echo_graphql [where decode = "gl_contexts echo_libs", OF this] obtain w' where "graphql_call echo_client echo_libs (gl_contexts echo_libs) CheckContextsPageQuery
      (JObj [(''owner'', JStr (sr_owner echo_sync)), (''repo'', JStr (sr_repo echo_sync)),
        (''sha'', JStr (co_oid echo_commit)), (''after'', JStr after)]) w = (Inr (Some (Some (Some ?more))), w')"
    by blast
  then show ?thesis by (simp add: next_contexts_def commit_by_sha_def andthen_def)
qed

lemma show_nat_inj: "show_nat a = show_nat b \<longleftrightarrow> a = b"
  by (metis option.inject parse_digits_show_nat)

lemma echo_lists:
  "lists_repositories echo_client echo_libs [echo_repository]"
  "lists_pulls echo_client echo_libs ''acme'' ''api'' [echo_pull]"
proof -
  have page: "nth_page n [x] = (if n = 0 then [x] else [])" for n and x :: 'x
    by (simp add: nth_page_def LISTING_PAGE_SIZE_def)
  have first: "echo_url (repositories_path (n + 1)) = echo_url (repositories_path 1) \<longleftrightarrow> n = 0"
    "echo_url (pulls_path ''acme'' ''api'' (n + 1)) = echo_url (pulls_path ''acme'' ''api'' 1) \<longleftrightarrow> n = 0" for n
    by (simp_all add: echo_url_def repositories_path_def pulls_path_def page_query_def show_nat_inj)
  show "lists_repositories echo_client echo_libs [echo_repository]"
    unfolding lists_repositories_def
  proof (intro allI)
    fix n w
    have "gl_repositories echo_libs (echo_url (repositories_path (n + 1))) =
        Inr \<lparr>ir_total_count = length [echo_repository], ir_repositories = nth_page n [echo_repository]\<rparr>"
      using first(1) [of n] by (simp add: echo_libs_def page)
    from echo_json [where decode = "gl_repositories echo_libs", OF this, of VerbGet None w]
    show "fst (installation_json echo_client echo_libs (gl_repositories echo_libs) VerbGet
        (repositories_path (n + 1)) None w) =
      Inr \<lparr>ir_total_count = length [echo_repository], ir_repositories = nth_page n [echo_repository]\<rparr>"
      by auto
  qed
  show "lists_pulls echo_client echo_libs ''acme'' ''api'' [echo_pull]"
    unfolding lists_pulls_def
  proof (intro allI)
    fix n w
    have "gl_pulls echo_libs (echo_url (pulls_path ''acme'' ''api'' (n + 1))) = Inr (nth_page n [echo_pull])"
      using first(2) [of n] by (simp add: echo_libs_def page)
    from echo_json [where decode = "gl_pulls echo_libs", OF this, of VerbGet None w]
    show "fst (installation_json echo_client echo_libs (gl_pulls echo_libs) VerbGet
        (pulls_path ''acme'' ''api'' (n + 1)) None w) = Inr (nth_page n [echo_pull])"
      by auto
  qed
qed

theorem writes_follow_verification_witness:
  "\<exists>ws. repo_writes echo_client (snd (run_mutation 0 echo_client echo_libs
      (MergePull \<lparr>mr_batch_id = ''b'', mr_target = hd two_targets\<rparr> None) echo_world)) = ws \<and> length ws \<le> 2"
  using writes_follow_verification [of 0 echo_client echo_libs
      "MergePull \<lparr>mr_batch_id = ''b'', mr_target = hd two_targets\<rparr> None" echo_world, OF surjective_pairing]
  by (auto simp: repo_writes_def echo_world_def)

theorem listings_read_every_page_witness:
  "\<exists>w'. list_installation_repositories 1 echo_client echo_libs echo_world =
     (Inr [repository_record 5 MmSquash 9 echo_repository], w')"
  using listings_read_every_page [OF echo_lists(1) _ echo_lists(2), of 1 echo_world]
  by (simp add: echo_world_def)

theorem accepted_listing_is_whole_witness:
  "rr_installation_id (repository_record 5 MmSquash 9 echo_repository) = 5 \<and>
   rr_repository_id (repository_record 5 MmSquash 9 echo_repository) \<in> {1}"
proof -
  obtain pages w1 where pages: "repository_pages 1 echo_client echo_libs [] 0 (snd (unix_seconds echo_world)) =
      (Inr pages, w1)" "pages \<noteq> []" "\<forall>p\<in>set pages. ir_total_count p = 1"
      "concat (map ir_repositories pages) = [echo_repository]"
    using repository_pages_all [OF echo_lists(1), of 0 1 "[]" "snd (unix_seconds echo_world)"]
    by (auto simp: LISTING_PAGE_SIZE_def)
  have "fold_repository_pages pages 5 MmSquash 9 = Inr [repository_record 5 MmSquash 9 echo_repository]"
    using pages(2-) by (subst fold_repository_pages_Inr) simp
  then have "list_installation_repositories 1 echo_client echo_libs echo_world =
      (Inr [repository_record 5 MmSquash 9 echo_repository], w1)"
    using pages(1) by (simp add: list_installation_repositories_def andthen_def ended_def unix_seconds_def echo_world_def)
  from accepted_listing_is_whole [OF this] show ?thesis
    by (auto simp: repository_record_def echo_repository_def)
qed

theorem snapshot_counts_every_page_witness:
  "\<exists>r w'. fetch_snapshot 1 echo_client echo_libs echo_sync echo_world = (Inr (Some r), w') \<and>
     pr_check_status r = CkFailure"
proof -
  let ?more = "last_page [CheckRun (Some ''COMPLETED'') (Some ''FAILURE'')]"
  obtain w1 where node: "fetch_pull_request_node echo_client echo_libs echo_sync echo_world = (Inr echo_node, w1)"
    using echo_snapshot by blast
  have head: "fetch_head_commit echo_client echo_libs echo_sync echo_node w1 = (Inr echo_commit, w1)"
    by (simp add: fetch_head_commit_def last_listed_commit_def echo_node_def last_page_def echo_commit_def)
  have "fst (next_contexts echo_client echo_libs echo_sync echo_commit ''c'' w) = Inr (Some ?more)" for w
    by (rule echo_contexts)
  then have contexts: "all_pages (next_contexts echo_client echo_libs echo_sync echo_commit)
      (co_contexts echo_commit) [the (co_contexts echo_commit), ?more]"
    by (simp add: all_pages_def echo_commit_def last_page_def)
  have suites: "all_pages (next_suites echo_client echo_libs echo_sync echo_commit)
      (co_check_suites echo_commit) [last_page []]"
    by (simp add: all_pages_def echo_commit_def last_page_def)
  have open_pull: "is_open_dependabot_pull echo_node"
    by (simp add: is_open_dependabot_pull_def echo_node_def rest_login_def DEPENDABOT_LOGIN_def)
  have fails: "check_context_signal (CheckRun (Some ''COMPLETED'') (Some ''FAILURE'')) = Some SgFail"
    by code_simp
  from snapshot_counts_every_page [OF node head contexts suites, of 1 3 3]
  show ?thesis using open_pull fails by (auto simp: echo_libs_def last_page_def)
qed

end
