(* ===== verification/Repo_Sync.thy ===== *)
theory Repo_Sync
  imports Sync_Contract
begin

text \<open>
  The \<open>RepoSync\<close> object (\<^verbatim>\<open>apps/restate-service/src/repo_sync.rs\<close>): the reconcile that sweeps one
  repository's open Dependabot pull requests, and the fan-out of a commit's status to the pull
  requests at it. The pull request objects it calls are a parameter that acts on the
  database and on GitHub; what is called and sent is kept in order.
\<close>

section \<open>The handlers\<close>

record 'w reconcile_effects =
  pe_repository_id :: u64
  pe_now :: "string \<Rightarrow> ('w, u64) handler"
  pe_list_pull_requests :: "('w, sync_request list) handler"
  pe_sync_pull_request :: "pr_key \<Rightarrow> sync_request \<Rightarrow> ('w, string, unit) eff"
  pe_retain_pull_requests :: "u64 list \<Rightarrow> u64 \<Rightarrow> ('w, pruned) handler"
  pe_pull_requests_at :: "string \<Rightarrow> ('w, pr_record list) handler"
  pe_send_sync :: "pr_key \<Rightarrow> sync_request \<Rightarrow> 'w \<Rightarrow> 'w"

text \<open>The loop over the listing: every pull request is called, and the keys of those that failed kept.\<close>

primrec sync_each :: "'w reconcile_effects \<Rightarrow> sync_request list \<Rightarrow> 'w \<Rightarrow> pr_key list \<times> 'w" where
  "sync_each E [] w = ([], w)"
| "sync_each E (request # pulls) w =
     (let key = request_key request;
          (r, w1) = pe_sync_pull_request E key request w;
          (failed, w2) = sync_each E pulls w1
      in (case r of Inl _ \<Rightarrow> key # failed | Inr _ \<Rightarrow> failed, w2))"

definition reconcile_result :: "u64 \<Rightarrow> sync_request list \<Rightarrow> pr_key list \<Rightarrow> handler_error + nat" where
  "reconcile_result repository_id pulls failed =
     (if failed = [] then Inr (length pulls)
      else Inl (Terminal (show_nat (length failed) @ '' of '' @ show_nat (length pulls) @
        '' pull request syncs failed while reconciling repository '' @ show_u64 repository_id @ '': '' @
        join '', '' (map display_pr_key failed))))"

definition run_repo_reconcile ::
    "'w reconcile_effects \<Rightarrow> 'w retirement_effects \<Rightarrow> ('w, nat) handler" where
  "run_repo_reconcile E R =
     andthen (pe_now E ''repo-reconcile-clock'') (\<lambda>reconcile_start.
     andthen (pe_list_pull_requests E) (\<lambda>pulls w.
       let (failed, w1) = sync_each E pulls w in
       andthen (pe_retain_pull_requests E (map sr_number pulls) reconcile_start) (\<lambda>pruned.
       andthen (retire_pending pruned R) (\<lambda>_.
         lift (reconcile_result (pe_repository_id E) pulls failed))) w1))"

definition sync_at :: "sync_sha_request \<Rightarrow> u64 \<Rightarrow> sync_request" where
  "sync_at request number =
     \<lparr>sr_repository_id = ss_repository_id request, sr_owner = ss_owner request,
      sr_repo = ss_repo request, sr_number = number, sr_bypass_debounce = False,
      sr_completion_id = None\<rparr>"

text \<open>The \<open>BTreeSet\<close> of numbers is walked in order.\<close>

definition run_sync_sha :: "'w reconcile_effects \<Rightarrow> sync_sha_request \<Rightarrow> ('w, nat) handler" where
  "run_sync_sha E request =
     andthen (pe_pull_requests_at E (ss_sha request)) (\<lambda>at_head.
       let numbers = sorted_list_of_set (set (ss_pull_requests request) \<union> set (map pr_number at_head))
       in andthen (put (fold (\<lambda>number. pe_send_sync E (request_key (sync_at request number))
                                         (sync_at request number)) numbers))
            (\<lambda>_. ok (length numbers)))"

section \<open>The service's effects\<close>

record addressed =
  ad_repository_id :: u64
  ad_owner :: string
  ad_repo :: string

definition addressed_repo :: "repo_record \<Rightarrow> addressed" where
  "addressed_repo r =
     \<lparr>ad_repository_id = rr_repository_id r, ad_owner = rr_owner r, ad_repo = rr_repo r\<rparr>"

definition addressed_sha :: "sync_sha_request \<Rightarrow> addressed" where
  "addressed_sha r =
     \<lparr>ad_repository_id = ss_repository_id r, ad_owner = ss_owner r, ad_repo = ss_repo r\<rparr>"

text \<open>
  A listing names the owner, then the repository, then its id. A pull request object acts on
  the database and on GitHub, and answers or fails for good.
\<close>

type_synonym 'g pr_listing = "string \<Rightarrow> string \<Rightarrow> u64 \<Rightarrow> 'g \<Rightarrow> (github_error + sync_request list) \<times> 'g"
type_synonym 'g pr_callee = "pr_key \<Rightarrow> sync_request \<Rightarrow> db \<times> 'g \<Rightarrow> (string + unit) \<times> db \<times> 'g"

definition call_sync ::
    "'g pr_callee \<Rightarrow> pr_key \<Rightarrow> sync_request \<Rightarrow> ('g sweep_world, string, unit) eff" where
  "call_sync callee key request = (\<lambda>w.
     case callee key request (ow_db w, ow_remote w) of
       (r, d, g) \<Rightarrow> (r, w\<lparr>ow_db := d, ow_remote := g, sw_syncs := sw_syncs w @ [(key, request)]\<rparr>))"

definition restate_reconcile ::
    "budgets \<Rightarrow> 'g pr_listing \<Rightarrow> 'g pr_callee \<Rightarrow> addressed \<Rightarrow> 'g sweep_world reconcile_effects" where
  "restate_reconcile bu list_dependabot_prs callee a =
     \<lparr>pe_repository_id = ad_repository_id a,
      pe_now = (\<lambda>_. run_clock_step),
      pe_list_pull_requests = andthen
        (run_github_step (restate_github_step bu ''list-open-dependabot-prs'' OpRead False
           (list_dependabot_prs (ad_owner a) (ad_repo a) (ad_repository_id a))))
        (\<lambda>pulls. lift (read_result pulls)),
      pe_sync_pull_request = call_sync callee,
      pe_retain_pull_requests = (\<lambda>live before.
        andthen (run_store_step bu SkOrdinary (retain_prs (ad_repository_id a) live before))
          (\<lambda>_. ok Pruned)),
      pe_pull_requests_at = (\<lambda>sha. run_store_step bu SkOrdinary (prs_for_sha (ad_repository_id a) sha)),
      pe_send_sync = (\<lambda>key request w. w\<lparr>sw_syncs := sw_syncs w @ [(key, request)]\<rparr>)\<rparr>"

definition reconcile_repo ::
    "budgets \<Rightarrow> 'g pr_listing \<Rightarrow> 'g pr_callee \<Rightarrow> repo_record \<Rightarrow> ('g sweep_world, nat) handler" where
  "reconcile_repo bu listing callee repository =
     run_repo_reconcile (restate_reconcile bu listing callee (addressed_repo repository)) (restate_retirements bu)"

definition sync_sha ::
    "budgets \<Rightarrow> 'g pr_listing \<Rightarrow> 'g pr_callee \<Rightarrow> sync_sha_request \<Rightarrow> ('g sweep_world, nat) handler" where
  "sync_sha bu listing callee request =
     run_sync_sha (restate_reconcile bu listing callee (addressed_sha request)) request"

end
