(* ===== verification/Repo_Contract.thy ===== *)
theory Repo_Contract
  imports Repo_Sync Store_Read_Laws
begin

text \<open>
  What a repository's reconcile and its commit fan-out promise over the service's own effects
  (\<^verbatim>\<open>apps/restate-service/src/repo_sync.rs\<close>): a reconcile whose listing failed touches nothing;
  one that has the listing calls every pull request whatever the others answer, and
  then prunes the projection to the listing and drains the outbox.
\<close>

section \<open>Pruning to a listing\<close>

text \<open>Room for a retirement of every pull request.\<close>

definition roomy :: "db \<Rightarrow> bool" where
  "roomy d \<longleftrightarrow> outbox_sound d \<and> db_retirement_sequence d + int (length (db_prs d)) < 2 ^ 63"

lemma collect_integers_fit: "collect_results (map integer ns) = Inr ms \<Longrightarrow> \<forall>n\<in>set ns. fits n"
  by (induction ns arbitrary: ms) (auto simp: integer_Inr fits_def bind_result_Inr split: sum.splits)

lemma retain_fits:
  assumes "retain_prs r live before d = (Inr keys, d')"
  shows "fits r" "fits before" "\<forall>n\<in>set live. fits n"
proof -
  obtain ms where "collect_results (map integer live) = Inr ms"
    using assms by (auto simp: retain_prs_def transaction_Inr retain_prs_on_def andthen_Inr_iff lift_Inr)
  then show "\<forall>n\<in>set live. fits n" by (rule collect_integers_fit)
  show "fits r" "fits before"
    using assms by (auto simp: retain_prs_def transaction_Inr retain_prs_on_def andthen_Inr_iff lift_Inr
        integer_Inr fits_def)
qed

lemma retain_undo: "retain_prs r live before d = (Inl e, d') \<Longrightarrow> d' = d"
  unfolding retain_prs_def by (rule transaction_Inl)

lemma retained_outbox_sound:
  assumes "roomy d" and run: "retain_prs r live before d = (Inr keys, d')"
  shows "outbox_sound d'"
proof -
  have ok: "db_ok d" using assms(1) by (simp add: roomy_def outbox_sound_def)
  have ok': "db_ok d'"
    using keeps_retain_prs [of r live before] ok run unfolding preserves_def by (metis snd_conv)
  let ?P = "unlisted r live before"
  have "d' = with_queued (Some (uint before)) (doomed_keys ?P d)
      (touch_prs (length (filter ?P (db_prs d))) (d\<lparr>db_prs := filter (\<lambda>p. \<not> ?P p) (db_prs d)\<rparr>))"
    using retain_prs_run [OF db_ok_parts(1) [OF ok] retain_fits [OF run]] unfolding run prod.inject by blast
  then have "db_retirement_sequence d' = db_retirement_sequence d + int (length (doomed_keys ?P d))"
    by (simp add: with_queued_def touch_prs_def)
  moreover have "length (doomed_keys ?P d) \<le> length (db_prs d)" by (simp add: doomed_keys_def)
  ultimately show ?thesis using ok' assms(1) by (simp add: outbox_sound_def roomy_def)
qed

section \<open>The calls\<close>

lemma sync_each_sends:
  "sync_each (restate_reconcile bu listing callee a) pulls w = (failed, w2) \<Longrightarrow>
     sw_syncs w2 = sw_syncs w @ map (\<lambda>p. (request_key p, p)) pulls \<and> sw_closes w2 = sw_closes w"
  by (induction pulls arbitrary: w failed)
    (fastforce simp: restate_reconcile_def call_sync_def Let_def split: prod.splits)+

section \<open>A reconcile\<close>

definition stale_in :: "u64 \<Rightarrow> u64 \<Rightarrow> sync_request list \<Rightarrow> db \<Rightarrow> pr_key set" where
  "stale_in r before pulls d = {k. \<exists>pr. pr_table d k = Some pr \<and> pk_repository k = r \<and>
     pr_synced_at pr < before \<and> pk_number k \<notin> sr_number ` set pulls}"

text \<open>The repository is pruned to its listing and everyone who went has been told.\<close>

definition pruned_to ::
    "u64 \<Rightarrow> u64 \<Rightarrow> sync_request list \<Rightarrow> 'g sweep_world \<Rightarrow> 'g sweep_world \<Rightarrow> bool" where
  "pruned_to r before pulls w w' \<longleftrightarrow>
     pr_table (ow_db w') = pr_table (ow_db w) |` (- stale_in r before pulls (ow_db w)) \<and>
     outbox_rows (ow_db w') = [] \<and>
     (\<exists>keys. sorted keys \<and> distinct keys \<and> set keys = stale_in r before pulls (ow_db w) \<and>
        sw_closes w' = sw_closes w @ map close_of (outbox_rows (ow_db w)) @
          map (\<lambda>k. (k, \<lparr>cr_synced_before = Some before\<rparr>)) keys)"

definition prune_and_drain ::
    "'w reconcile_effects \<Rightarrow> 'w retirement_effects \<Rightarrow> sync_request list \<Rightarrow> u64 \<Rightarrow> ('w, unit) handler" where
  "prune_and_drain E R pulls before =
     andthen (pe_retain_pull_requests E (map sr_number pulls) before) (\<lambda>p.
     andthen (retire_pending p R) (\<lambda>_. ok ()))"

lemma reconcile_parts:
  "run_repo_reconcile E R w =
     (case pe_now E ''repo-reconcile-clock'' w of
        (Inl e, w0) \<Rightarrow> (Inl e, w0)
      | (Inr before, w0) \<Rightarrow>
          (case pe_list_pull_requests E w0 of
             (Inl e, w1) \<Rightarrow> (Inl e, w1)
           | (Inr pulls, w1) \<Rightarrow>
               (case sync_each E pulls w1 of (failed, w2) \<Rightarrow>
                  andthen (prune_and_drain E R pulls before)
                    (\<lambda>_. lift (reconcile_result (pe_repository_id E) pulls failed)) w2)))"
  by (auto simp: run_repo_reconcile_def prune_and_drain_def andthen_def Let_def split: prod.splits sum.splits)

lemma prune_and_drain_settles:
  fixes w :: "'g sweep_world"
  assumes roomy: "roomy (ow_db w)"
    and run: "prune_and_drain (restate_reconcile bu listing callee a) (restate_retirements bu) pulls before w = (res, w')"
  defines "r \<equiv> ad_repository_id a"
  shows "sw_syncs w' = sw_syncs w \<and>
    pr_table (ow_db w') \<in> {pr_table (ow_db w), pr_table (ow_db w) |` (- stale_in r before pulls (ow_db w))} \<and>
    (if res = Inr () then pruned_to r before pulls w w'
     else ow_faults w \<noteq> [] \<or> \<not> (fits r \<and> fits before \<and> (\<forall>p\<in>set pulls. fits (sr_number p))))"
proof -
  let ?R = "restate_retirements bu :: 'g sweep_world retirement_effects" and ?live = "map sr_number pulls"
  have ok: "db_ok (ow_db w)" using roomy by (simp add: roomy_def outbox_sound_def)
  obtain rr w1 where step: "run_store_step bu SkOrdinary (retain_prs r ?live before) w = (rr, w1)" by fastforce
  show ?thesis
  proof (cases rr)
    case (Inl e)
    with run step have fin: "res = Inl e" "w' = w1"
      by (auto simp: prune_and_drain_def restate_reconcile_def andthen_def r_def)
    have same: "same_db w w1" by (rule run_store_Inl [OF step [unfolded Inl] retain_undo])
    have "ow_faults w \<noteq> [] \<or> \<not> (fits r \<and> fits before \<and> (\<forall>p\<in>set pulls. fits (sr_number p)))"
    proof (rule ccontr)
      assume n: "\<not> ?thesis"
      then obtain keys d where "retain_prs r ?live before (ow_db w) = (Inr keys, d)"
        using retain_effect [of "ow_db w" r before ?live] db_ok_parts [OF ok] by auto
      with n run_store_ok [of w "retain_prs r ?live before" keys d bu SkOrdinary] step Inl show False by simp
    qed
    with same more_sweep [of w1 w] show ?thesis by (simp add: same_db_def fin)
  next
    case (Inr keys)
    from run_store_Inr [OF step [unfolded Inr] retain_undo]
    have ret: "retain_prs r ?live before (ow_db w) = (Inr keys, ow_db w1)" and own: "same_own w w1" by auto
    have eff: "pr_table (ow_db w1) = pr_table (ow_db w) |` (- stale_in r before pulls (ow_db w))"
      "sorted keys" "distinct keys" "set keys = stale_in r before pulls (ow_db w)"
      "retirement_queue (ow_db w1) = retirement_queue (ow_db w) @ map (\<lambda>k. (k, Some (uint before))) keys"
      using retain_effect [OF _ retain_fits [OF ret], of "ow_db w"] db_ok_parts [OF ok] ret
      by (auto simp: stale_in_def)
    have sent: "sw_syncs w1 = sw_syncs w" "sw_closes w1 = sw_closes w"
      using more_sweep [of w1 w] own by (simp_all add: same_own_def)
    have sound: "outbox_sound (ow_db w1)" by (rule retained_outbox_sound [OF roomy ret])
    obtain dr w2 where drain: "retire_pending Pruned ?R w1 = (dr, w2)" by fastforce
    have fin: "w' = w2" "res = (case dr of Inl e \<Rightarrow> Inl e | Inr _ \<Rightarrow> Inr ())"
      using run step Inr drain
      by (auto simp: prune_and_drain_def restate_reconcile_def andthen_def r_def split: sum.splits)
    from outbox.drain_loses_nothing [OF conjI [OF sound refl] drain]
    have beside: "beside_outbox w2 = beside_outbox w1" by simp
    note frame = beside_tables [OF beside]
    show ?thesis
    proof (cases dr)
      case (Inl e)
      have "ow_faults w \<noteq> []"
      proof
        assume f: "ow_faults w = []"
        have "w1 = w\<lparr>ow_db := ow_db w1\<rparr>"
          using run_store_ok [of w "retain_prs r ?live before" keys "ow_db w1" bu SkOrdinary] f ret step by simp
        then have "ow_faults w1 = []" using f by (metis restate_world.select_convs(2) restate_world.simps(2)
              restate_world.surjective restate_world.update_convs(1))
        from drain_succeeds [OF sound this, of bu] drain Inl show False by auto
      qed
      with frame sent eff(1) Inl fin show ?thesis by simp
    next
      case (Inr n)
      from outbox.drained [OF conjI [OF sound refl] drain [unfolded Inr]]
      have d: "outbox_rows (ow_db w2) = []" "sw_closes w2 = sw_closes w1 @ map close_of (outbox_rows (ow_db w1))" by auto
      have "map close_of (outbox_rows (ow_db w1)) = map close_of (outbox_rows (ow_db w)) @
          map (\<lambda>k. (k, \<lparr>cr_synced_before = Some before\<rparr>)) keys"
        unfolding closes_of_queue eff(5) by (simp add: close_queued_def)
      with d frame sent eff Inr fin show ?thesis by (auto simp: pruned_to_def)
    qed
  qed
qed

text \<open>
  C12: A reconcile whose listing failed calls nobody and leaves the database as it was. One
  that has the listing calls each listed pull request once, in order, under its own key and
  whatever the others answered; it then deletes exactly the repository's rows that are not listed
  and were last synced before the reconcile began, tells each of those, and everyone who was
  still in the outbox, that they are gone, and reports the calls that failed. Only a failing store,
  or a number it cannot hold, keeps it from that, and then too no other row goes.
\<close>

theorem reconcile_settles_the_repository:
  fixes w :: "'g sweep_world" and bu :: budgets and listing :: "'g pr_listing" and callee :: "'g pr_callee"
    and repo :: repo_record
  defines "E \<equiv> restate_reconcile bu listing callee (addressed_repo repo)"
  assumes run: "reconcile_repo bu listing callee repo w = (res, w')"
    and listed: "pe_list_pull_requests E (snd (run_clock_step w)) = (r, w1)"
    and roomy: "\<forall>pulls. r = Inr pulls \<longrightarrow> roomy (ow_db (snd (sync_each E pulls w1)))"
  shows "case r of
      Inl e \<Rightarrow> res = Inl e \<and> same_db w w'
    | Inr pulls \<Rightarrow>
        (let (failed, w2) = sync_each E pulls w1; before = ow_times w (ow_reads w); i = rr_repository_id repo
         in sw_syncs w' = sw_syncs w @ map (\<lambda>p. (request_key p, p)) pulls \<and>
            pr_table (ow_db w') \<in> {pr_table (ow_db w2), pr_table (ow_db w2) |` (- stale_in i before pulls (ow_db w2))} \<and>
            (res = reconcile_result i pulls failed \<and> pruned_to i before pulls w2 w' \<or>
             (\<exists>e. res = Inl e) \<and> (ow_faults w2 \<noteq> [] \<or>
               \<not> (fits i \<and> fits before \<and> (\<forall>p\<in>set pulls. fits (sr_number p))))))"
proof -
  let ?R = "restate_retirements bu :: 'g sweep_world retirement_effects"
  let ?before = "ow_times w (ow_reads w)" and ?i = "rr_repository_id repo"
  have clock: "pe_now E ''repo-reconcile-clock'' w = (Inr ?before, snd (run_clock_step w))"
    by (simp add: E_def restate_reconcile_def run_clock_step_def read_clock_def)
  have same: "same_db w w1"
  proof (rule same_db_trans [OF run_clock_same])
    let ?step = "run_github_step (restate_github_step bu ''list-open-dependabot-prs'' OpRead False
      (listing (ad_owner (addressed_repo repo)) (ad_repo (addressed_repo repo)) (ad_repository_id (addressed_repo repo))))"
    have "same_db (snd (run_clock_step w)) (snd (?step (snd (run_clock_step w))))" by (rule run_github_same)
    then show "same_db (snd (run_clock_step w)) w1"
      using listed by (auto simp: E_def restate_reconcile_def andthen_def lift_def split: prod.splits sum.splits)
  qed
  note run = run [unfolded reconcile_repo_def, folded E_def, unfolded reconcile_parts, unfolded clock, simplified, unfolded listed]
  show ?thesis
  proof (cases r)
    case (Inl e)
    with run same show ?thesis by simp
  next
    case (Inr pulls)
    obtain failed w2 where each: "sync_each E pulls w1 = (failed, w2)" by fastforce
    obtain pr w3 where prune: "prune_and_drain E ?R pulls ?before w2 = (pr, w3)" by fastforce
    have id: "ad_repository_id (addressed_repo repo) = ?i" "pe_repository_id E = ?i"
      by (simp_all add: addressed_repo_def E_def restate_reconcile_def)
    have fin: "w' = w3" "res = (case pr of Inl e \<Rightarrow> Inl e | Inr _ \<Rightarrow> reconcile_result ?i pulls failed)"
      using run by (auto simp: Inr each andthen_def prune id lift_def split: sum.splits)
    have "sw_syncs w2 = sw_syncs w @ map (\<lambda>p. (request_key p, p)) pulls"
      using sync_each_sends [OF each [unfolded E_def]] more_sweep [of w1 w] same by (simp add: same_db_def)
    moreover have "roomy (ow_db w2)" using roomy Inr each by simp
    note settles = prune_and_drain_settles [OF this prune [unfolded E_def], unfolded id]
    ultimately show ?thesis
      using settles fin by (cases pr) (auto simp: Inr each split: if_splits)
  qed
qed

section \<open>A commit's fan-out\<close>

lemma prs_for_sha_reads:
  assumes "prs_ok d" and "prs_for_sha r sha d = (Inr prs, d')"
  shows "d' = d \<and> pr_number ` set prs =
    {pk_number k | k pr. pr_table d k = Some pr \<and> pk_repository k = r \<and> pr_head_sha pr = sha}"
proof -
  let ?rows = "filter (\<lambda>p. w_repository_id p = uint r \<and> w_head_sha p = sha) (db_prs d)"
  have rows: "map fst (filter (\<lambda>(p, _). w_repository_id p = uint r \<and> w_head_sha p = sha) (joined_prs d)) = ?rows"
    unfolding joined_prs_ok [OF assms(1), symmetric] by (simp add: filter_map comp_def case_prod_unfold)
  have written: "\<forall>p\<in>set ?rows. written_pr p" using assms(1) by (simp add: prs_ok_def)
  from assms(2) have "d' = d" and prs: "prs = map record_of_row ?rows"
    using collect_written [OF written] rows
    by (auto simp: prs_for_sha_def andthen_Inr_iff lift_Inr integer_Inr)
  moreover have "pr_number ` set prs =
      {pk_number k | k pr. pr_table d k = Some pr \<and> pk_repository k = r \<and> pr_head_sha pr = sha}" (is "_ = ?keys")
  proof (intro set_eqI iffI)
    fix n
    assume "n \<in> pr_number ` set prs"
    then obtain p where p: "p \<in> set (db_prs d)" "w_repository_id p = uint r" "w_head_sha p = sha"
      and n: "n = pr_number (record_of_row p)" by (auto simp: prs)
    have "written_pr p" using p(1) assms(1) by (simp add: prs_ok_def)
    then obtain pr where pr: "pr_from_row p = Inr pr" "w_id p = display_pr_key (record_key pr)"
      "w_repository_id p = uint (pr_repository_id pr)" "w_head_sha p = pr_head_sha pr" by (rule written_pr_read)
    then have "pr_table d (record_key pr) = Some pr" using pr_table_Some [OF assms(1)] p(1) by blast
    moreover have "record_of_row p = pr" by (simp add: record_of_row_def pr(1))
    ultimately show "n \<in> ?keys" using p n pr
      by (intro CollectI exI [of _ "record_key pr"] exI [of _ pr]) (simp add: record_key_def word_uint_eq_iff)
  next
    fix n
    assume "n \<in> ?keys"
    then obtain k pr where k: "n = pk_number k" "pr_table d k = Some pr" "pk_repository k = r" "pr_head_sha pr = sha"
      by blast
    then obtain p where p: "p \<in> set (db_prs d)" "w_id p = display_pr_key k" "pr_from_row p = Inr pr"
      using pr_table_Some [OF assms(1)] by blast
    have key: "record_key pr = k" using pr_table_key [OF assms(1) k(2)] by simp
    have "written_pr p" using p(1) assms(1) by (simp add: prs_ok_def)
    then obtain pr' where "pr_from_row p = Inr pr'" "w_repository_id p = uint (pr_repository_id pr')"
      "w_head_sha p = pr_head_sha pr'" by (rule written_pr_read)
    with p k key have "p \<in> set ?rows" by (auto simp: record_key_def)
    moreover have "record_of_row p = pr" by (simp add: record_of_row_def p(3))
    ultimately show "n \<in> pr_number ` set prs" using k(1) key unfolding prs by (force simp: record_key_def)
  qed
  ultimately show ?thesis by simp
qed

lemma sends_each:
  "fold (\<lambda>n. pe_send_sync (restate_reconcile bu listing callee a) (f n) (g n)) ns w =
     w\<lparr>sw_syncs := sw_syncs w @ map (\<lambda>n. (f n, g n)) ns\<rparr>"
  by (induction ns arbitrary: w) (simp_all add: restate_reconcile_def)

text \<open>
  A commit's status change is sent once to each pull request of the repository that GitHub
  named or that is stored at the commit, in order of their numbers, and to no other; when the
  store cannot say which are at the commit, none is sent. The database is only read.
\<close>

theorem sha_fan_out_exact:
  assumes "db_ok (ow_db w)" and "sync_sha bu listing callee request w = (res, w')"
  defines "told \<equiv> set (ss_pull_requests request) \<union> {pk_number k | k pr. pr_table (ow_db w) k = Some pr \<and>
      pk_repository k = ss_repository_id request \<and> pr_head_sha pr = ss_sha request}"
  shows "ow_db w' = ow_db w \<and> (case res of
      Inl e \<Rightarrow> sw_syncs w' = sw_syncs w
    | Inr n \<Rightarrow> finite told \<and> n = card told \<and> sw_syncs w' = sw_syncs w @
        map (\<lambda>m. (PrKey (ss_repository_id request) m, sync_at request m)) (sorted_list_of_set told))"
proof -
  let ?r = "ss_repository_id request" and ?sha = "ss_sha request"
  let ?E = "restate_reconcile bu listing callee (addressed_sha request)"
  have ok: "prs_ok (ow_db w)" using assms(1) by (simp add: db_ok_def)
  have pure: "snd (prs_for_sha ?r ?sha d) = d" for d
    by (auto simp: prs_for_sha_def andthen_def lift_def split: sum.splits)
  obtain rr w1 where step: "run_store_step bu SkOrdinary (prs_for_sha ?r ?sha) w = (rr, w1)" by fastforce
  have same: "same_db w w1" by (rule run_store_alike [OF step pure])
  have at: "pe_pull_requests_at ?E (ss_sha request) = run_store_step bu SkOrdinary (prs_for_sha ?r ?sha)"
    by (simp add: restate_reconcile_def addressed_sha_def)
  show ?thesis
  proof (cases rr)
    case (Inl e)
    with assms(2) step have "res = Inl e" "w' = w1"
      by (auto simp: sync_sha_def run_sync_sha_def at andthen_def)
    with same more_sweep [of w1 w] show ?thesis by (simp add: same_db_def)
  next
    case (Inr prs)
    have "prs_for_sha ?r ?sha (ow_db w) = (Inr prs, ow_db w1)"
      using run_store_Inr [OF step [unfolded Inr]] pure by (metis snd_conv)
    from prs_for_sha_reads [OF ok this] have told: "set (ss_pull_requests request) \<union> set (map pr_number prs) = told"
      unfolding told_def by auto
    then have "finite told" by (metis List.finite_set finite_Un)
    moreover have "res = Inr (length (sorted_list_of_set told))"
      "w' = w1\<lparr>sw_syncs := sw_syncs w1 @ map (\<lambda>m. (request_key (sync_at request m), sync_at request m))
        (sorted_list_of_set told)\<rparr>"
      using assms(2) step Inr
      by (auto simp: sync_sha_def run_sync_sha_def at andthen_def Let_def told [simplified] sends_each put_def ok_def)
    ultimately show ?thesis
      using same more_sweep [of w1 w] by (simp add: same_db_def request_key_def sync_at_def)
  qed
qed

section \<open>The contracts at work\<close>

text \<open>A repository whose one listed pull request cannot be synced, over the projection of another.\<close>

definition bump_sync :: sync_request where
  "bump_sync = \<lparr>sr_repository_id = 1, sr_owner = ''acme'', sr_repo = ''api'', sr_number = 8,
     sr_bypass_debounce = False, sr_completion_id = None\<rparr>"

definition bump_listed :: "unit pr_listing" where
  "bump_listed _ _ _ g = (Inr [bump_sync], g)"

definition never_syncs :: "unit pr_callee" where
  "never_syncs _ _ s = (Inl ''gone wrong'', s)"

theorem reconcile_settles_the_repository_witness:
  "\<exists>w'. reconcile_repo never_again bump_listed never_syncs acme_repo acme_world =
      (reconcile_result 1 [bump_sync] [PrKey 1 8], w') \<and> pr_table (ow_db w') (PrKey 1 7) = None \<and>
      (PrKey 1 7, \<lparr>cr_synced_before = Some 100\<rparr>) \<in> set (sw_closes w')"
proof -
  let ?E = "restate_reconcile never_again bump_listed never_syncs (addressed_repo acme_repo)"
  let ?w1 = "acme_world\<lparr>ow_reads := Suc (Suc 0)\<rparr>"
  let ?w2 = "?w1\<lparr>sw_syncs := [(PrKey 1 8, bump_sync)]\<rparr>"
  obtain res w' where run: "reconcile_repo never_again bump_listed never_syncs acme_repo acme_world = (res, w')"
    by fastforce
  have listed: "pe_list_pull_requests ?E (snd (run_clock_step acme_world)) = (Inr [bump_sync], ?w1)"
    by (simp add: restate_reconcile_def andthen_def run_clock_step_def read_clock_def acme_world_def queued_world_def
        run_github_step_def max_waits restate_github_step_def or_terminal_def github_attempt_def
        journal_github_result_def never_again_def bump_listed_def Let_def ok_def lift_def)
  have each: "sync_each ?E [bump_sync] ?w1 = ([PrKey 1 8], ?w2)"
    by (simp add: restate_reconcile_def call_sync_def never_syncs_def request_key_def bump_sync_def
        acme_world_def queued_world_def Let_def)
  have roomy: "\<forall>pulls. Inr [bump_sync] = (Inr pulls :: handler_error + _) \<longrightarrow>
      roomy (ow_db (snd (sync_each ?E pulls ?w1)))"
    using acme_ok each by (auto simp: acme_world_def roomy_def outbox_sound_def acme_rows)
  have f: "fits 1" "fits 100" "fits 8" by (simp_all add: fits_def)
  have "ow_times acme_world (ow_reads acme_world) = 100" by (simp add: acme_world_def queued_world_def)
  moreover have "rr_repository_id acme_repo = 1" "sr_number bump_sync = 8" "ow_faults ?w2 = []"
    "ow_db ?w2 = acme_db" by (simp_all add: acme_repo_def bump_sync_def acme_world_def queued_world_def)
  ultimately have r: "res = reconcile_result 1 [bump_sync] [PrKey 1 8]" and
    pruned: "pruned_to 1 100 [bump_sync] ?w2 w'"
    using reconcile_settles_the_repository [OF run listed roomy, unfolded sum.case each Let_def prod.case] f
    by auto
  have stale: "PrKey 1 7 \<in> stale_in 1 100 [bump_sync] acme_db"
    by (simp add: stale_in_def acme_tables serde_pr_def bump_sync_def)
  then have "pr_table (ow_db w') (PrKey 1 7) = None"
    using pruned \<open>ow_db ?w2 = acme_db\<close> by (simp add: pruned_to_def)
  moreover have "(PrKey 1 7, \<lparr>cr_synced_before = Some 100\<rparr>) \<in> set (sw_closes w')"
    using pruned \<open>ow_db ?w2 = acme_db\<close> stale by (auto simp: pruned_to_def)
  ultimately show ?thesis using run r by blast
qed

lemma prs_for_sha_total:
  assumes "prs_ok d" "fits r"
  shows "\<exists>prs. prs_for_sha r sha d = (Inr prs, d)"
proof -
  let ?rows = "filter (\<lambda>p. w_repository_id p = uint r \<and> w_head_sha p = sha) (db_prs d)"
  have rows: "map fst (filter (\<lambda>(p, _). w_repository_id p = uint r \<and> w_head_sha p = sha) (joined_prs d)) = ?rows"
    unfolding joined_prs_ok [OF assms(1), symmetric] by (simp add: filter_map comp_def case_prod_unfold)
  have "\<forall>p\<in>set ?rows. written_pr p" using assms(1) by (simp add: prs_ok_def)
  from collect_written [OF this] assms(2) show ?thesis
    by (simp add: prs_for_sha_def andthen_def rows)
qed

theorem sha_fan_out_exact_witness:
  "map fst (sw_syncs (snd (sync_sha never_again bump_listed never_syncs
     \<lparr>ss_repository_id = 1, ss_owner = ''acme'', ss_repo = ''api'', ss_sha = ''abc'', ss_pull_requests = [9, 8, 9]\<rparr>
     acme_world))) = [PrKey 1 7, PrKey 1 8, PrKey 1 9]"
proof -
  let ?r = "\<lparr>ss_repository_id = 1, ss_owner = ''acme'', ss_repo = ''api'', ss_sha = ''abc'', ss_pull_requests = [9, 8, 9]\<rparr>"
  obtain res w' where run: "sync_sha never_again bump_listed never_syncs ?r acme_world = (res, w')" by fastforce
  have ok: "db_ok (ow_db acme_world)" using acme_ok by (simp add: acme_world_def)
  have "prs_ok acme_db" "fits 1" using db_ok_parts [OF acme_ok] by (simp_all add: fits_def)
  then obtain prs where "prs_for_sha 1 ''abc'' acme_db = (Inr prs, acme_db)" using prs_for_sha_total by blast
  then have "run_store_step never_again SkOrdinary (prs_for_sha 1 ''abc'') acme_world =
      (Inr prs, acme_world\<lparr>ow_db := acme_db\<rparr>)"
    by (intro run_store_ok) (simp_all add: acme_world_def queued_world_def)
  then have "\<exists>n. res = Inr n"
    using run by (auto simp: sync_sha_def run_sync_sha_def restate_reconcile_def addressed_sha_def andthen_def
        put_def ok_def Let_def)
  moreover have "{pk_number k | k pr. pr_table (ow_db acme_world) k = Some pr \<and> pk_repository k = 1 \<and>
      pr_head_sha pr = ''abc''} = {7}"
    by (auto simp: acme_world_def acme_tables serde_pr_def)
  moreover have "sorted_list_of_set ({9, 8, 9} \<union> {7 :: u64}) = [7, 8, 9]" by code_simp
  ultimately show ?thesis
    using sha_fan_out_exact [OF ok run] run by (auto simp: acme_world_def queued_world_def)
qed

end
