(* ===== verification/Ingress_Client.thy ===== *)
theory Ingress_Client
  imports Text Core_Types
begin

text \<open>
  The client of Restate's ingress (\<^verbatim>\<open>crates/restate-ext/src/ingress.rs\<close>): one-way sends and
  request/response calls over HTTP, with the classes a failure comes back in and the paths
  handlers are addressed at. The network is a parameter that acts on a state of its own, and a
  body is the input it carries; every request sent is kept in order. JSON values and their
  decoders are parameters.
\<close>

section \<open>Requests and answers\<close>

record 'b ingress_request =
  iq_url :: string
  iq_bearer :: "string option"
  iq_idempotency :: "string option"
  iq_body :: "'b option"

text \<open>An answer's body is its text, or why the text was lost.\<close>

record ingress_response =
  is_status :: u16
  is_text :: "string + string"

datatype ingress_error =
    IeTransport string
  | IeStatus u16 string
  | IeDecode string

text \<open>Timeouts are in seconds; the network meets them as lost answers.\<close>

record ingress_config =
  ig_base :: string
  ig_token :: "string option"
  ig_connect_timeout :: nat
  ig_timeout :: nat

definition new_ingress_config :: "string \<Rightarrow> ingress_config" where
  "new_ingress_config base =
     \<lparr>ig_base = trim_end_matches (\<lambda>c. c = CHR ''/'') base, ig_token = None,
      ig_connect_timeout = 5, ig_timeout = 15\<rparr>"

definition with_token :: "string \<Rightarrow> ingress_config \<Rightarrow> ingress_config" where
  "with_token token config = config\<lparr>ig_token := Some token\<rparr>"

record ingress_client =
  ic_base :: string
  ic_token :: "string option"

text \<open>\<open>build\<close> stands for the HTTP client's builder.\<close>

definition new_ingress_client ::
    "(nat \<Rightarrow> nat \<Rightarrow> string + unit) \<Rightarrow> ingress_config \<Rightarrow> ingress_error + ingress_client" where
  "new_ingress_client build config =
     (case build (ig_connect_timeout config) (ig_timeout config) of
        Inl e \<Rightarrow> Inl (IeTransport e)
      | Inr _ \<Rightarrow> Inr \<lparr>ic_base = ig_base config, ic_token = ig_token config\<rparr>)"

record ('g, 'b) wire =
  wi_remote :: 'g
  wi_sent :: "'b ingress_request list"

type_synonym ('g, 'b) network = "'b ingress_request \<Rightarrow> 'g \<Rightarrow> (string + ingress_response) \<times> 'g"

definition transmit ::
    "('g, 'b) network \<Rightarrow> 'b ingress_request \<Rightarrow>
     (('g, 'b, 'm) wire_scheme, ingress_error, ingress_response) eff" where
  "transmit net request = (\<lambda>w.
     case net request (wi_remote w) of
       (r, g) \<Rightarrow> (case r of Inl e \<Rightarrow> Inl (IeTransport e) | Inr response \<Rightarrow> Inr response,
                  w\<lparr>wi_remote := g, wi_sent := wi_sent w @ [request]\<rparr>))"

definition answered_well :: "ingress_response \<Rightarrow> bool" where
  "answered_well response \<longleftrightarrow> 200 \<le> is_status response \<and> is_status response < 300"

text \<open>The request \<open>post\<close> builds, with what is put on it before it is sent.\<close>

definition post_request ::
    "ingress_client \<Rightarrow> string \<Rightarrow> string \<Rightarrow> string option \<Rightarrow> 'b option \<Rightarrow> 'b ingress_request" where
  "post_request C route path idempotency_key body =
     \<lparr>iq_url = ic_base C @ ''/restate/'' @ route @ ''/'' @ path, iq_bearer = ic_token C,
      iq_idempotency = idempotency_key, iq_body = body\<rparr>"

definition refusal :: "ingress_response \<Rightarrow> ingress_error" where
  "refusal response =
     IeStatus (is_status response) (case is_text response of Inl _ \<Rightarrow> [] | Inr body \<Rightarrow> body)"

definition accept_sent ::
    "('g, 'b) network \<Rightarrow> 'b ingress_request \<Rightarrow> (('g, 'b, 'm) wire_scheme, ingress_error, unit) eff" where
  "accept_sent net request =
     andthen (transmit net request) (\<lambda>response.
       lift (if answered_well response then Inr () else Inl (refusal response)))"

definition ingress_send ::
    "('g, 'b) network \<Rightarrow> ingress_client \<Rightarrow> string \<Rightarrow> 'b \<Rightarrow> string option \<Rightarrow>
     (('g, 'b, 'm) wire_scheme, ingress_error, unit) eff" where
  "ingress_send net C path input idempotency_key =
     accept_sent net (post_request C ''send'' path idempotency_key (Some input))"

definition ingress_send_empty ::
    "('g, 'b) network \<Rightarrow> ingress_client \<Rightarrow> string \<Rightarrow> (('g, 'b, 'm) wire_scheme, ingress_error, unit) eff" where
  "ingress_send_empty net C path = accept_sent net (post_request C ''send'' path None None)"

text \<open>
  An answer is wrapped as \<open>{"output": \<dots>}\<close> or is the output itself. \<open>parse\<close> reads a JSON
  value, \<open>output\<close> its member of that name, and \<open>decode\<close> a value as the handler's output.
\<close>

record 'v json_reader =
  jr_parse :: "string \<Rightarrow> string + 'v"
  jr_output :: "'v \<Rightarrow> 'v option"

definition decode_output ::
    "'v json_reader \<Rightarrow> ('v \<Rightarrow> string + 'r) \<Rightarrow> string \<Rightarrow> ingress_error + 'r" where
  "decode_output J decode body =
     (case jr_parse J body of
        Inl e \<Rightarrow> Inl (IeDecode e)
      | Inr v \<Rightarrow>
          (case decode (case jr_output J v of None \<Rightarrow> v | Some out \<Rightarrow> out) of
             Inl e \<Rightarrow> Inl (IeDecode e) | Inr r \<Rightarrow> Inr r))"

definition read_output ::
    "('g, 'b) network \<Rightarrow> 'v json_reader \<Rightarrow> ('v \<Rightarrow> string + 'r) \<Rightarrow> 'b ingress_request \<Rightarrow>
     (('g, 'b, 'm) wire_scheme, ingress_error, 'r) eff" where
  "read_output net J decode request =
     andthen (transmit net request) (\<lambda>response.
       lift (if \<not> answered_well response then Inl (refusal response)
             else (case is_text response of
                     Inl e \<Rightarrow> Inl (IeTransport e) | Inr body \<Rightarrow> decode_output J decode body)))"

definition ingress_call ::
    "('g, 'b) network \<Rightarrow> 'v json_reader \<Rightarrow> ('v \<Rightarrow> string + 'r) \<Rightarrow> ingress_client \<Rightarrow> string \<Rightarrow>
     (('g, 'b, 'm) wire_scheme, ingress_error, 'r) eff" where
  "ingress_call net J decode C path = read_output net J decode (post_request C ''call'' path None None)"

definition ingress_call_with ::
    "('g, 'b) network \<Rightarrow> 'v json_reader \<Rightarrow> ('v \<Rightarrow> string + 'r) \<Rightarrow> ingress_client \<Rightarrow> string \<Rightarrow> 'b \<Rightarrow>
     (('g, 'b, 'm) wire_scheme, ingress_error, 'r) eff" where
  "ingress_call_with net J decode C path input =
     read_output net J decode (post_request C ''call'' path None (Some input))"

definition ingress_call_optional ::
    "('g, 'b) network \<Rightarrow> 'v json_reader \<Rightarrow> ('v \<Rightarrow> string + 'r) \<Rightarrow> ingress_client \<Rightarrow> string \<Rightarrow>
     (('g, 'b, 'm) wire_scheme, ingress_error, 'r option) eff" where
  "ingress_call_optional net J decode C path = (\<lambda>w.
     case ingress_call net J decode C path w of
       (Inr output, w') \<Rightarrow> (Inr (Some output), w')
     | (Inl (IeStatus code body), w') \<Rightarrow> (if code = 404 then Inr None else Inl (IeStatus code body), w')
     | (Inl e, w') \<Rightarrow> (Inl e, w'))"

section \<open>Paths\<close>

definition handler_path :: "string \<Rightarrow> string \<Rightarrow> string" where
  "handler_path service handler = service @ ''/'' @ handler"

definition unreserved :: "char \<Rightarrow> bool" where
  "unreserved c \<longleftrightarrow>
     65 \<le> byte c \<and> byte c \<le> 90 \<or> 97 \<le> byte c \<and> byte c \<le> 122 \<or> 48 \<le> byte c \<and> byte c \<le> 57 \<or>
     c \<in> set ''-._~''"

definition hex_upper :: "nat \<Rightarrow> char" where
  "hex_upper d = char_of (if d < 10 then 48 + d else 55 + d)"

definition encode_byte :: "char \<Rightarrow> string" where
  "encode_byte c =
     (if unreserved c then [c] else [CHR ''%'', hex_upper (byte c div 16), hex_upper (byte c mod 16)])"

definition encode_object_key :: "string \<Rightarrow> string" where
  "encode_object_key key = concat (map encode_byte key)"

definition keyed_handler_path :: "string \<Rightarrow> string \<Rightarrow> string \<Rightarrow> string" where
  "keyed_handler_path service key handler = service @ ''/'' @ encode_object_key key @ ''/'' @ handler"

text \<open>What a server makes of a path segment: each percent sign and its two digits is a byte.\<close>

definition hex_value :: "char \<Rightarrow> nat option" where
  "hex_value c =
     (if 48 \<le> byte c \<and> byte c \<le> 57 then Some (byte c - 48)
      else if 65 \<le> byte c \<and> byte c \<le> 70 then Some (byte c - 55)
      else if 97 \<le> byte c \<and> byte c \<le> 102 then Some (byte c - 87)
      else None)"

fun percent_decode :: "string \<Rightarrow> string option" where
  "percent_decode [] = Some []"
| "percent_decode (c # s) =
     (if c \<noteq> CHR ''%'' then map_option ((#) c) (percent_decode s)
      else (case s of
              a # b # rest \<Rightarrow>
                (case (hex_value a, hex_value b) of
                   (Some x, Some y) \<Rightarrow> map_option ((#) (char_of (16 * x + y))) (percent_decode rest)
                 | _ \<Rightarrow> None)
            | _ \<Rightarrow> None))"

lemma byte_less: "byte c < 256"
  by (simp add: byte_def)

lemma hex_value_upper: "d < 16 \<Longrightarrow> hex_value (hex_upper d) = Some d"
  by (simp add: hex_value_def hex_upper_def byte_def)

lemma percent_decode_byte:
  "percent_decode (encode_byte c @ s) = map_option ((#) c) (percent_decode s)"
proof (cases "unreserved c")
  case True
  then have "c \<noteq> CHR ''%''" by (auto simp: unreserved_def byte_def)
  with True show ?thesis by (simp add: encode_byte_def)
next
  case False
  have "byte c div 16 < 16" "byte c mod 16 < 16" using byte_less [of c] by auto
  moreover have "char_of (16 * (byte c div 16) + byte c mod 16) = c" by (simp add: byte_def)
  ultimately show ?thesis using False by (simp add: encode_byte_def hex_value_upper)
qed

lemma percent_decode_encoded: "percent_decode (encode_object_key key) = Some key"
  by (induction key) (simp_all add: encode_object_key_def percent_decode_byte)

lemma encoded_chars: "c \<in> set (encode_object_key key) \<Longrightarrow> unreserved c \<or> c = CHR ''%''"
proof -
  have "unreserved (hex_upper d)" if "d < 16" for d
    using that by (auto simp: unreserved_def hex_upper_def byte_def)
  moreover have "byte x div 16 < 16" "byte x mod 16 < 16" for x using byte_less [of x] by auto
  moreover assume "c \<in> set (encode_object_key key)"
  ultimately show ?thesis by (auto simp: encode_object_key_def encode_byte_def split: if_splits)
qed

lemma encode_append: "encode_object_key (a @ b) = encode_object_key a @ encode_object_key b"
  by (simp add: encode_object_key_def)

lemma encode_unreserved: "\<forall>c\<in>set s. unreserved c \<Longrightarrow> encode_object_key s = s"
  by (induction s) (simp_all add: encode_object_key_def encode_byte_def)

end
