(* ===== verification/Web_Client.thy ===== *)
theory Web_Client
  imports Ingress_Client Core_Batch Core_Pr_State
begin

text \<open>
  The web edge's client of Restate (\<^verbatim>\<open>apps/web/src/server/restate.rs\<close>): one operation per
  handler this deployment invokes, with the path, the idempotency key and the input of each. Its
  sends and calls are the library's (\<^verbatim>\<open>crates/restate-ext/src/ingress.rs\<close>) written once
  more, which the last section proves.
\<close>

section \<open>Names\<close>

definition BULK_ACTION :: string where "BULK_ACTION = ''BulkAction''"
definition BULK_ACTION_RUN :: string where "BULK_ACTION_RUN = ''run''"
definition BULK_ACTION_PROGRESS :: string where "BULK_ACTION_PROGRESS = ''progress''"
definition PULL_REQUEST :: string where "PULL_REQUEST = ''PullRequest''"
definition PULL_REQUEST_STATUS :: string where "PULL_REQUEST_STATUS = ''status''"
definition DASHBOARD_INGRESS :: string where "DASHBOARD_INGRESS = ''DashboardIngress''"
definition DASHBOARD_CAPABILITIES :: string where "DASHBOARD_CAPABILITIES = ''capabilities''"
definition DASHBOARD_SYNC_INSTALLATION :: string where
  "DASHBOARD_SYNC_INSTALLATION = ''sync_installation''"
definition DASHBOARD_SYNC_PULL_REQUEST :: string where
  "DASHBOARD_SYNC_PULL_REQUEST = ''sync_pull_request''"
definition WEBHOOK_INGRESS :: string where "WEBHOOK_INGRESS = ''WebhookIngress''"
definition WEBHOOK_DISPATCH :: string where "WEBHOOK_DISPATCH = ''dispatch''"

section \<open>Sends and calls\<close>

text \<open>What this deployment sends, each input as the handler takes it.\<close>

datatype web_input =
    EventInput webhook_event
  | BatchInput bulk_request
  | ManualSyncInput manual_sync_request

type_synonym web_request = "web_input ingress_request"
type_synonym 'g web_network = "('g, web_input) network"

record restate_config =
  rc_base :: string
  rc_token :: "string option"

record restate_ingress =
  ri_base :: string
  ri_token :: "string option"

definition new_restate_ingress ::
    "(nat \<Rightarrow> nat \<Rightarrow> string + unit) \<Rightarrow> restate_config \<Rightarrow> ingress_error + restate_ingress" where
  "new_restate_ingress build config =
     (case build 5 15 of
        Inl e \<Rightarrow> Inl (IeTransport e)
      | Inr _ \<Rightarrow> Inr \<lparr>ri_base = rc_base config, ri_token = rc_token config\<rparr>)"

definition ri_post :: "restate_ingress \<Rightarrow> string \<Rightarrow> string \<Rightarrow> web_request" where
  "ri_post I route path =
     \<lparr>iq_url = ri_base I @ ''/restate/'' @ route @ ''/'' @ path, iq_bearer = ri_token I,
      iq_idempotency = None, iq_body = None\<rparr>"

definition ri_refusal :: "ingress_response \<Rightarrow> ingress_error" where
  "ri_refusal response =
     IeStatus (is_status response) (case is_text response of Inl _ \<Rightarrow> [] | Inr body \<Rightarrow> body)"

definition ri_accept ::
    "'g web_network \<Rightarrow> web_request \<Rightarrow> (('g, web_input, 'm) wire_scheme, ingress_error, unit) eff" where
  "ri_accept net request =
     andthen (transmit net request) (\<lambda>response.
       lift (if answered_well response then Inr () else Inl (ri_refusal response)))"

definition ri_send ::
    "'g web_network \<Rightarrow> restate_ingress \<Rightarrow> string \<Rightarrow> web_input \<Rightarrow> string option \<Rightarrow>
     (('g, web_input, 'm) wire_scheme, ingress_error, unit) eff" where
  "ri_send net I path input idempotency_key =
     (let request = (ri_post I ''send'' path)\<lparr>iq_body := Some input\<rparr>
      in ri_accept net (case idempotency_key of
           None \<Rightarrow> request | Some key \<Rightarrow> request\<lparr>iq_idempotency := Some key\<rparr>))"

definition ri_send_empty ::
    "'g web_network \<Rightarrow> restate_ingress \<Rightarrow> string \<Rightarrow> (('g, web_input, 'm) wire_scheme, ingress_error, unit) eff" where
  "ri_send_empty net I path = ri_accept net (ri_post I ''send'' path)"

definition ri_call ::
    "'g web_network \<Rightarrow> 'v json_reader \<Rightarrow> ('v \<Rightarrow> string + 'r) \<Rightarrow> restate_ingress \<Rightarrow> string \<Rightarrow>
     (('g, web_input, 'm) wire_scheme, ingress_error, 'r) eff" where
  "ri_call net J decode I path =
     andthen (transmit net (ri_post I ''call'' path)) (\<lambda>response.
       lift (if \<not> answered_well response then Inl (ri_refusal response)
             else (case is_text response of
                     Inl e \<Rightarrow> Inl (IeTransport e)
                   | Inr body \<Rightarrow>
                       (case jr_parse J body of
                          Inl e \<Rightarrow> Inl (IeDecode e)
                        | Inr v \<Rightarrow>
                            (case decode (case jr_output J v of None \<Rightarrow> v | Some out \<Rightarrow> out) of
                               Inl e \<Rightarrow> Inl (IeDecode e) | Inr r \<Rightarrow> Inr r)))))"

section \<open>The handlers\<close>

text \<open>The network, with the decoders of the answers; a progress and a state may be \<open>null\<close>.\<close>

record ('g, 'v) restate_libs =
  rl_net :: "'g web_network"
  rl_json :: "'v json_reader"
  rl_capabilities :: "'v \<Rightarrow> string + capabilities"
  rl_progress :: "'v \<Rightarrow> string + batch_progress option"
  rl_state :: "'v \<Rightarrow> string + pr_state option"

definition ri_capabilities ::
    "('g, 'v) restate_libs \<Rightarrow> restate_ingress \<Rightarrow>
     (('g, web_input, 'm) wire_scheme, ingress_error, capabilities) eff" where
  "ri_capabilities R I =
     ri_call (rl_net R) (rl_json R) (rl_capabilities R) I (DASHBOARD_INGRESS @ ''/'' @ DASHBOARD_CAPABILITIES)"

definition run_batch ::
    "('g, 'v) restate_libs \<Rightarrow> restate_ingress \<Rightarrow> string \<Rightarrow> bulk_request \<Rightarrow>
     (('g, web_input, 'm) wire_scheme, ingress_error, unit) eff" where
  "run_batch R I batch_id request =
     ri_send (rl_net R) I (BULK_ACTION @ ''/'' @ batch_id @ ''/'' @ BULK_ACTION_RUN) (BatchInput request)
       (Some batch_id)"

definition ri_batch_progress ::
    "('g, 'v) restate_libs \<Rightarrow> restate_ingress \<Rightarrow> string \<Rightarrow>
     (('g, web_input, 'm) wire_scheme, ingress_error, batch_progress option) eff" where
  "ri_batch_progress R I batch_id = (\<lambda>w.
     case ri_call (rl_net R) (rl_json R) (rl_progress R) I
         (BULK_ACTION @ ''/'' @ batch_id @ ''/'' @ BULK_ACTION_PROGRESS) w of
       (Inr progress, w') \<Rightarrow> (Inr progress, w')
     | (Inl (IeStatus code body), w') \<Rightarrow> (if code = 404 then Inr None else Inl (IeStatus code body), w')
     | (Inl e, w') \<Rightarrow> (Inl e, w'))"

definition pr_status_path :: "u64 \<Rightarrow> u64 \<Rightarrow> string" where
  "pr_status_path repository_id number =
     PULL_REQUEST @ ''/'' @ show_u64 repository_id @ ''%23'' @ show_u64 number @ ''/'' @ PULL_REQUEST_STATUS"

definition pull_request_status ::
    "('g, 'v) restate_libs \<Rightarrow> restate_ingress \<Rightarrow> pr_key \<Rightarrow>
     (('g, web_input, 'm) wire_scheme, ingress_error, pr_state option) eff" where
  "pull_request_status R I key =
     ri_call (rl_net R) (rl_json R) (rl_state R) I (pr_status_path (pk_repository key) (pk_number key))"

definition sync_installation ::
    "('g, 'v) restate_libs \<Rightarrow> restate_ingress \<Rightarrow> (('g, web_input, 'm) wire_scheme, ingress_error, unit) eff" where
  "sync_installation R I =
     ri_send_empty (rl_net R) I (DASHBOARD_INGRESS @ ''/'' @ DASHBOARD_SYNC_INSTALLATION)"

definition sync_pull_request ::
    "('g, 'v) restate_libs \<Rightarrow> restate_ingress \<Rightarrow> manual_sync_request \<Rightarrow>
     (('g, web_input, 'm) wire_scheme, ingress_error, unit) eff" where
  "sync_pull_request R I request =
     ri_send (rl_net R) I (DASHBOARD_INGRESS @ ''/'' @ DASHBOARD_SYNC_PULL_REQUEST)
       (ManualSyncInput request) None"

definition dispatch_webhook ::
    "('g, 'v) restate_libs \<Rightarrow> restate_ingress \<Rightarrow> webhook_event \<Rightarrow> string \<Rightarrow>
     (('g, web_input, 'm) wire_scheme, ingress_error, unit) eff" where
  "dispatch_webhook R I event delivery_id =
     ri_send (rl_net R) I (WEBHOOK_INGRESS @ ''/'' @ WEBHOOK_DISPATCH) (EventInput event) (Some delivery_id)"

section \<open>The library's client, written once more\<close>

definition as_library :: "restate_ingress \<Rightarrow> ingress_client" where
  "as_library I = \<lparr>ic_base = ri_base I, ic_token = ri_token I\<rparr>"

lemma ri_accept_library: "ri_accept net request = accept_sent net request"
  unfolding ri_accept_def accept_sent_def ri_refusal_def refusal_def by (rule refl)

lemma ri_send_library: "ri_send net I path input key = ingress_send net (as_library I) path input key"
  by (cases key) (simp_all add: ri_send_def ingress_send_def ri_accept_library ri_post_def post_request_def
      as_library_def Let_def)

lemma ri_send_empty_library: "ri_send_empty net I path = ingress_send_empty net (as_library I) path"
  by (simp add: ri_send_empty_def ingress_send_empty_def ri_accept_library ri_post_def post_request_def
      as_library_def)

lemma ri_call_library: "ri_call net J decode I path = ingress_call net J decode (as_library I) path"
  unfolding ri_call_def ingress_call_def read_output_def decode_output_def ri_post_def post_request_def
    ri_refusal_def refusal_def by (simp add: as_library_def)

lemma unreserved_digits: "\<forall>c\<in>set (show_u64 w). unreserved c"
proof
  fix c
  assume "c \<in> set (show_u64 w)"
  then obtain d where "d < 10" "c = digit_char d" using show_nat_digits by (auto simp: show_u64_def)
  then show "unreserved c" by (simp add: unreserved_def byte_digit_char)
qed

lemma pr_status_path_keyed:
  "pr_status_path r n = keyed_handler_path PULL_REQUEST (display_pr_key (PrKey r n)) PULL_REQUEST_STATUS"
proof -
  have hash: "encode_object_key ''#'' = ''%23''" by code_simp
  have "encode_object_key (show_u64 r @ ''#'' @ show_u64 n) = show_u64 r @ ''%23'' @ show_u64 n"
    by (simp only: encode_append hash encode_unreserved [OF unreserved_digits])
  then show ?thesis by (simp add: pr_status_path_def keyed_handler_path_def display_pr_key_def)
qed

end
