(* ===== verification/Ingress.thy ===== *)
theory Ingress
  imports Repo_Sync
begin

text \<open>
  The stateless services in front of the objects: \<open>WebhookIngress\<close> and \<open>SchedulerIngress\<close>
  (\<^verbatim>\<open>apps/restate-service/src/ingress.rs\<close>), and \<open>DashboardIngress\<close>
  (\<^verbatim>\<open>apps/restate-service/src/dashboard.rs\<close>). What a handler sends is the list of one-way
  invocations it appends, each addressed by an object's key.
\<close>

section \<open>Where a delivery goes\<close>

datatype lifecycle_action = LaStart | LaSyncNow | LaPause | LaPurge

datatype webhook_route =
    ClosePullRequest pr_key
  | SyncPullRequest sync_request
  | SyncSha sync_sha_request
  | RouteInstallation u64 lifecycle_action
  | RouteIgnore

datatype webhook_rejection =
    ForeignInstallation u64 u64
  | MissingFields string "string list"

fun display_rejection :: "webhook_rejection \<Rightarrow> string" where
  "display_rejection (ForeignInstallation expected actual) =
     ''webhook installation '' @ show_u64 actual @ '' does not match configured installation '' @ show_u64 expected"
| "display_rejection (MissingFields kind names) = kind @ '' webhook is missing '' @ join '', '' names"

definition missing_fields :: "string \<Rightarrow> (string \<times> bool) list \<Rightarrow> webhook_rejection" where
  "missing_fields kind asked = MissingFields kind (map fst (filter snd asked))"

definition pull_request_action_requests_sync :: "string option \<Rightarrow> bool" where
  "pull_request_action_requests_sync action =
     (case action of None \<Rightarrow> False
      | Some a \<Rightarrow> a \<in> set [''opened'', ''reopened'', ''synchronize'', ''edited'', ''labeled'', ''unlabeled''])"

definition installation_lifecycle_action :: "string option \<Rightarrow> lifecycle_action option" where
  "installation_lifecycle_action action =
     (case action of
        None \<Rightarrow> None
      | Some a \<Rightarrow>
          if a = ''created'' then Some LaSyncNow
          else if a = ''unsuspend'' then Some LaStart
          else if a = ''suspend'' then Some LaPause
          else if a = ''deleted'' then Some LaPurge
          else None)"

definition route_pull_request :: "webhook_event \<Rightarrow> webhook_rejection + webhook_route" where
  "route_pull_request event =
     (case (we_repository_id event, we_owner event, we_repo event, we_number event) of
        (Some repository_id, Some owner, Some repo, Some number) \<Rightarrow>
          Inr (if we_action event = Some ''closed'' then ClosePullRequest (PrKey repository_id number)
               else if pull_request_action_requests_sync (we_action event)
               then SyncPullRequest \<lparr>sr_repository_id = repository_id, sr_owner = owner, sr_repo = repo,
                      sr_number = number, sr_bypass_debounce = False, sr_completion_id = None\<rparr>
               else RouteIgnore)
      | _ \<Rightarrow> Inl (missing_fields ''pull_request''
               [(''repository_id'', we_repository_id event = None), (''owner'', we_owner event = None),
                (''repo'', we_repo event = None), (''number'', we_number event = None)]))"

definition route_sha :: "webhook_event \<Rightarrow> webhook_rejection + webhook_route" where
  "route_sha event =
     (case (we_repository_id event, we_owner event, we_repo event, we_sha event) of
        (Some repository_id, Some owner, Some repo, Some sha) \<Rightarrow>
          Inr (SyncSha \<lparr>ss_repository_id = repository_id, ss_owner = owner, ss_repo = repo, ss_sha = sha,
                 ss_pull_requests = we_pull_requests event\<rparr>)
      | _ \<Rightarrow> Inl (missing_fields ''commit''
               [(''repository_id'', we_repository_id event = None), (''owner'', we_owner event = None),
                (''repo'', we_repo event = None), (''sha'', we_sha event = None)]))"

definition route_installation :: "webhook_event \<Rightarrow> webhook_rejection + webhook_route" where
  "route_installation event =
     (case we_installation_id event of
        None \<Rightarrow> Inl (missing_fields ''installation'' [(''installation_id'', True)])
      | Some installation_id \<Rightarrow>
          Inr (case installation_lifecycle_action (we_action event) of
                 Some action \<Rightarrow> RouteInstallation installation_id action | None \<Rightarrow> RouteIgnore))"

definition route_kind :: "webhook_event \<Rightarrow> webhook_rejection + webhook_route" where
  "route_kind event =
     (case we_event event of
        DkPullRequest \<Rightarrow> route_pull_request event
      | DkCheckSuite \<Rightarrow> if we_action event = Some ''completed'' then route_sha event else Inr RouteIgnore
      | DkCheckRun \<Rightarrow>
          if we_action event \<in> {Some ''created'', Some ''completed''} then route_sha event
          else Inr RouteIgnore
      | DkStatus \<Rightarrow> route_sha event
      | DkInstallation \<Rightarrow> route_installation event
      | DkInstallationRepositories \<Rightarrow>
          Inr (case we_installation_id event of
                 Some installation_id \<Rightarrow> RouteInstallation installation_id LaSyncNow
               | None \<Rightarrow> RouteIgnore)
      | DkOther _ \<Rightarrow> Inr RouteIgnore)"

definition route_webhook :: "u64 \<Rightarrow> webhook_event \<Rightarrow> webhook_rejection + webhook_route" where
  "route_webhook installation_id event =
     (case we_installation_id event of
        Some actual \<Rightarrow>
          if actual \<noteq> installation_id then Inl (ForeignInstallation installation_id actual)
          else route_kind event
      | None \<Rightarrow> route_kind event)"

section \<open>Sending\<close>

text \<open>One-way invocations, by the object's key as text.\<close>

datatype invocation =
    InvokeClosed string closed_request
  | InvokeSync string sync_request
  | InvokeSyncSha string sync_sha_request
  | InvokeInstallation string lifecycle_action

definition close_pull_request :: "pr_key \<Rightarrow> closed_request \<Rightarrow> invocation list" where
  "close_pull_request key request = [InvokeClosed (display_pr_key key) request]"

fun send_webhook_route :: "webhook_route \<Rightarrow> invocation list" where
  "send_webhook_route (ClosePullRequest key) = close_pull_request key \<lparr>cr_synced_before = None\<rparr>"
| "send_webhook_route (SyncPullRequest request) = [InvokeSync (display_pr_key (request_key request)) request]"
| "send_webhook_route (SyncSha request) = [InvokeSyncSha (show_u64 (ss_repository_id request)) request]"
| "send_webhook_route (RouteInstallation installation_id action) =
     [InvokeInstallation (show_u64 installation_id) action]"
| "send_webhook_route RouteIgnore = []"

definition dispatch :: "u64 \<Rightarrow> webhook_event \<Rightarrow> (invocation list, webhook_route) handler" where
  "dispatch installation_id event =
     andthen (lift (case route_webhook installation_id event of
         Inl rejection \<Rightarrow> Inl (Terminal (display_rejection rejection)) | Inr route \<Rightarrow> Inr route)) (\<lambda>route.
     andthen (put (\<lambda>sent. sent @ send_webhook_route route)) (\<lambda>_. ok route))"

fun handler_of_action :: "lifecycle_action \<Rightarrow> string" where
  "handler_of_action LaStart = ''start''"
| "handler_of_action LaSyncNow = ''sync_now''"
| "handler_of_action LaPause = ''pause''"
| "handler_of_action LaPurge = ''purge''"

fun route_outcome :: "webhook_route \<Rightarrow> string" where
  "route_outcome (ClosePullRequest key) = ''sent PullRequest/'' @ display_pr_key key @ ''.closed''"
| "route_outcome (SyncPullRequest request) =
     ''sent PullRequest/'' @ display_pr_key (request_key request) @ ''.sync''"
| "route_outcome (SyncSha request) = ''sent RepoSync/'' @ show_u64 (ss_repository_id request) @ ''.sync_sha''"
| "route_outcome (RouteInstallation installation_id action) =
     ''sent InstallationSync/'' @ show_u64 installation_id @ ''.'' @ handler_of_action action"
| "route_outcome RouteIgnore = ''ignored''"

definition scheduler_start :: "u64 \<Rightarrow> (invocation list, unit) handler" where
  "scheduler_start installation_id =
     put (\<lambda>sent. sent @ [InvokeInstallation (show_u64 installation_id) LaStart])"

section \<open>The dashboard's refreshes\<close>

definition manual_sync :: "manual_sync_request \<Rightarrow> sync_request" where
  "manual_sync request =
     \<lparr>sr_repository_id = ms_repository_id request, sr_owner = ms_owner request, sr_repo = ms_repo request,
      sr_number = ms_number request, sr_bypass_debounce = True,
      sr_completion_id = Some (ms_completion_id request)\<rparr>"

definition dashboard_sync_installation :: "u64 \<Rightarrow> (invocation list, unit) handler" where
  "dashboard_sync_installation installation_id =
     put (\<lambda>sent. sent @ [InvokeInstallation (show_u64 installation_id) LaSyncNow])"

definition dashboard_sync_pull_request :: "manual_sync_request \<Rightarrow> (invocation list, unit) handler" where
  "dashboard_sync_pull_request request =
     (let sync = manual_sync request
      in put (\<lambda>sent. sent @ [InvokeSync (display_pr_key (request_key sync)) sync]))"

text \<open>What the service resolved at startup, answered as it is.\<close>

definition capabilities_outcome :: "capabilities \<Rightarrow> string" where
  "capabilities_outcome capabilities =
     (if cap_rebase_enabled capabilities then ''rebase enabled'' else ''rebase disabled'')"

definition dashboard_capabilities :: "capabilities \<Rightarrow> (invocation list, capabilities) handler" where
  "dashboard_capabilities capabilities = ok capabilities"

end
