(* ===== verification/Web_Edge.thy ===== *)
theory Web_Edge
  imports Web_Client Ingress
begin

text \<open>
  The web server's edge: its settings (\<^verbatim>\<open>apps/web/src/server/config.rs\<close>), who may reach the
  dashboard (\<^verbatim>\<open>auth.rs\<close>), how the routes fit together (\<^verbatim>\<open>router.rs\<close>), and the webhook route,
  which answers to GitHub's signature instead (\<^verbatim>\<open>webhook.rs\<close>). Reading a header as text, base64,
  the comparison in constant time, the signature check and the decoding of payloads are other
  crates' and are parameters.
\<close>

section \<open>Settings\<close>

datatype config_error = CeMissing string | CeNotAnInteger string

fun display_config_error :: "config_error \<Rightarrow> string" where
  "display_config_error (CeMissing name) = name @ '' must be configured''"
| "display_config_error (CeNotAnInteger name) = name @ '' must be an integer''"

record credentials =
  cn_username :: string
  cn_password :: string

record web_config =
  wc_credentials :: credentials
  wc_webhook_secret :: string
  wc_installation_id :: u64
  wc_restate :: restate_config

definition present :: "(string \<Rightarrow> string option) \<Rightarrow> string \<Rightarrow> string option" where
  "present lookup name =
     (case lookup name of None \<Rightarrow> None | Some v \<Rightarrow> if trim v = [] then None else Some v)"

definition required :: "(string \<Rightarrow> string option) \<Rightarrow> string \<Rightarrow> config_error + string" where
  "required lookup name = (case present lookup name of None \<Rightarrow> Inl (CeMissing name) | Some v \<Rightarrow> Inr v)"

definition or_text :: "string option \<Rightarrow> string \<Rightarrow> string" where
  "or_text found fallback = (case found of None \<Rightarrow> fallback | Some v \<Rightarrow> v)"

definition parse_config :: "(string \<Rightarrow> string option) \<Rightarrow> config_error + web_config" where
  "parse_config lookup =
     bind_result (required lookup ''DASHBOARD_PASSWORD'') (\<lambda>password.
     bind_result (required lookup ''GITHUB_WEBHOOK_SECRET'') (\<lambda>webhook_secret.
     bind_result (required lookup ''GITHUB_INSTALLATION_ID'') (\<lambda>installation.
     bind_result (case parse_u64 installation of
         None \<Rightarrow> Inl (CeNotAnInteger ''GITHUB_INSTALLATION_ID'') | Some i \<Rightarrow> Inr i) (\<lambda>installation_id.
       Inr \<lparr>wc_credentials =
              \<lparr>cn_username = or_text (present lookup ''DASHBOARD_USERNAME'') ''dependaboard'',
               cn_password = password\<rparr>,
            wc_webhook_secret = webhook_secret, wc_installation_id = installation_id,
            wc_restate =
              \<lparr>rc_base = trim_end_matches (\<lambda>c. c = CHR ''/'')
                 (or_text (present lookup ''RESTATE_INGRESS_URL'') ''http://127.0.0.1:8080''),
               rc_token = (case present lookup ''RESTATE_AUTH_TOKEN'' of
                   None \<Rightarrow> present lookup ''RESTATE_API_KEY'' | Some t \<Rightarrow> Some t)\<rparr>\<rparr>))))"

section \<open>Who may reach the dashboard\<close>

text \<open>A request: a header is its first value's bytes, under its lower-case name.\<close>

record http_incoming =
  hi_verb :: string
  hi_path :: string
  hi_authority :: "string option"
  hi_headers :: "string \<Rightarrow> string option"
  hi_body :: string

record edge_libs =
  el_to_str :: "string \<Rightarrow> string option"
  el_base64 :: "string \<Rightarrow> string option"
  el_ct_eq :: "string \<Rightarrow> string \<Rightarrow> bool"

text \<open>Both comparisons are made whatever the first one found.\<close>

definition authenticated_dashboard_user ::
    "edge_libs \<Rightarrow> (string \<Rightarrow> string option) \<Rightarrow> string \<Rightarrow> string \<Rightarrow> string option" where
  "authenticated_dashboard_user L headers username password =
     Option.bind (headers ''authorization'') (\<lambda>value.
     Option.bind (el_to_str L value) (\<lambda>value.
     Option.bind (strip_prefix value ''Basic '') (\<lambda>value.
     Option.bind (el_base64 L value) (\<lambda>value.
     Option.bind (from_utf8 value) (\<lambda>credentials.
     Option.bind (split_once credentials (CHR '':'')) (\<lambda>(user, pass).
       let user_matches = el_ct_eq L user username; pass_matches = el_ct_eq L pass password
       in if user_matches \<and> pass_matches then Some user else None))))))"

definition cross_site :: "edge_libs \<Rightarrow> http_incoming \<Rightarrow> bool" where
  "cross_site L request =
     (if hi_verb request \<in> set [''GET'', ''HEAD'', ''OPTIONS''] then False
      else
        (case hi_headers request ''sec-fetch-site'' of
           Some site \<Rightarrow> \<not> (site = ''same-origin'' \<or> site = ''none'')
         | None \<Rightarrow>
             (case hi_headers request ''origin'' of
                None \<Rightarrow> False
              | Some origin \<Rightarrow>
                  (let origin_authority = map_option snd
                         (Option.bind (el_to_str L origin) (\<lambda>o'. split_once_str o' ''://''));
                       host = (case Option.bind (hi_headers request ''host'') (el_to_str L) of
                         None \<Rightarrow> hi_authority request | Some h \<Rightarrow> Some h)
                   in case (origin_authority, host) of
                        (Some o', Some h) \<Rightarrow> \<not> eq_ignore_ascii_case o' h
                      | _ \<Rightarrow> True))))"

record http_reply =
  hr_status :: u16
  hr_challenge :: "string option"
  hr_text :: string

definition plain_reply :: "u16 \<Rightarrow> string \<Rightarrow> http_reply" where
  "plain_reply status body = \<lparr>hr_status = status, hr_challenge = None, hr_text = body\<rparr>"

text \<open>A handler answers a request; the dashboard's also knows who the edge let through.\<close>

type_synonym 'w responder = "http_incoming \<Rightarrow> 'w \<Rightarrow> http_reply \<times> 'w"

definition require_dashboard_auth ::
    "edge_libs \<Rightarrow> credentials \<Rightarrow> (string \<Rightarrow> 'w responder) \<Rightarrow> 'w responder" where
  "require_dashboard_auth L credentials inner request w =
     (case authenticated_dashboard_user L (hi_headers request) (cn_username credentials)
         (cn_password credentials) of
        Some user_id \<Rightarrow> inner user_id request w
      | None \<Rightarrow>
          (\<lparr>hr_status = 401, hr_challenge = Some ''Basic realm=\"dependaboard\"'',
            hr_text = ''authentication required''\<rparr>, w))"

definition refuse_cross_site :: "edge_libs \<Rightarrow> 'w responder \<Rightarrow> 'w responder" where
  "refuse_cross_site L inner request w =
     (if cross_site L request then (plain_reply 403 ''cross-site request refused'', w)
      else inner request w)"

section \<open>Deliveries\<close>

record delivered_repository =
  dr_id :: u64
  dr_owner :: string
  dr_name :: string

text \<open>A verified delivery, with what the envelope probed of its payload.\<close>

record envelope =
  en_kind :: string
  en_delivery_id :: string
  en_action :: "string option"
  en_installation_id :: "u64 option"
  en_repository :: "delivered_repository option"
  en_payload :: string

text \<open>
  \<open>Envelope::from_signed\<close> rejects with a status, and each event's routing fields are
  read off the payload: a number and a head, or a head and the pull requests' numbers.
\<close>

record webhook_libs =
  wl_from_signed :: "string \<Rightarrow> (string \<Rightarrow> string option) \<Rightarrow> string \<Rightarrow> u16 + envelope"
  wl_pull_request :: "envelope \<Rightarrow> string + u64 \<times> string"
  wl_check_run :: "envelope \<Rightarrow> string + string \<times> u64 list"
  wl_check_suite :: "envelope \<Rightarrow> string + string \<times> u64 list"
  wl_status :: "envelope \<Rightarrow> string + string"

datatype disposition = Forward webhook_event | Acknowledge

datatype routing_error = MissingInstallation | MissingRepository | BadPayload string

definition parse_payload :: "(envelope \<Rightarrow> string + 'a) \<Rightarrow> envelope \<Rightarrow> routing_error + 'a" where
  "parse_payload decode envelope =
     (case decode envelope of Inl e \<Rightarrow> Inl (BadPayload e) | Inr a \<Rightarrow> Inr a)"

definition repository_required :: "envelope \<Rightarrow> routing_error + delivered_repository" where
  "repository_required envelope =
     (case en_repository envelope of None \<Rightarrow> Inl MissingRepository | Some r \<Rightarrow> Inr r)"

definition forwarded ::
    "delivery_kind \<Rightarrow> envelope \<Rightarrow>
     u64 option \<times> string option \<times> u64 list \<times> delivered_repository option \<Rightarrow> disposition" where
  "forwarded kind envelope routing =
     (case routing of (number, sha, pull_requests, repository) \<Rightarrow>
        Forward \<lparr>we_event = kind, we_action = en_action envelope,
          we_installation_id = en_installation_id envelope,
          we_repository_id = map_option dr_id repository, we_owner = map_option dr_owner repository,
          we_repo = map_option dr_name repository, we_number = number, we_sha = sha,
          we_pull_requests = pull_requests\<rparr>)"

definition route_delivery :: "webhook_libs \<Rightarrow> envelope \<Rightarrow> routing_error + disposition" where
  "route_delivery L envelope =
     (let kind = delivery_from (en_kind envelope);
          installation =
            (if en_installation_id envelope = None then Inl MissingInstallation
             else Inr (forwarded kind envelope (None, None, [], en_repository envelope)));
          check = (\<lambda>decode. bind_result (parse_payload decode envelope) (\<lambda>(sha, numbers).
            bind_result (repository_required envelope) (\<lambda>repository.
              Inr (forwarded kind envelope (None, Some sha, numbers, Some repository)))))
      in case kind of
           DkInstallation \<Rightarrow> installation
         | DkInstallationRepositories \<Rightarrow> installation
         | DkPullRequest \<Rightarrow>
             bind_result (parse_payload (wl_pull_request L) envelope) (\<lambda>(number, sha).
             bind_result (repository_required envelope) (\<lambda>repository.
               Inr (forwarded kind envelope (Some number, Some sha, [], Some repository))))
         | DkCheckRun \<Rightarrow> check (wl_check_run L)
         | DkCheckSuite \<Rightarrow> check (wl_check_suite L)
         | DkStatus \<Rightarrow>
             bind_result (parse_payload (wl_status L) envelope) (\<lambda>sha.
             bind_result (repository_required envelope) (\<lambda>repository.
               Inr (forwarded kind envelope (None, Some sha, [], Some repository))))
         | DkOther _ \<Rightarrow> Inr Acknowledge)"

definition github_webhook ::
    "webhook_libs \<Rightarrow> ('g, 'v) restate_libs \<Rightarrow> restate_ingress \<Rightarrow> string \<Rightarrow>
     ('g, web_input, 'm) wire_scheme responder" where
  "github_webhook L R I secret request w =
     (case wl_from_signed L secret (hi_headers request) (hi_body request) of
        Inl status \<Rightarrow> (plain_reply status ''webhook delivery was rejected'', w)
      | Inr envelope \<Rightarrow>
          (case route_delivery L envelope of
             Inl _ \<Rightarrow> (plain_reply 400 ''invalid GitHub webhook payload'', w)
           | Inr Acknowledge \<Rightarrow> (plain_reply 204 [], w)
           | Inr (Forward event) \<Rightarrow>
               (case dispatch_webhook R I event (en_delivery_id envelope) w of
                  (Inr _, w') \<Rightarrow> (plain_reply 200 [], w')
                | (Inl _, w') \<Rightarrow> (plain_reply 502 ''could not enqueue webhook'', w'))))"

section \<open>The routes\<close>

text \<open>
  The webhook route takes a POST and refuses any other method; every other path is the
  dashboard's, authenticated first, then held to the origin policy.
\<close>

definition web_router ::
    "edge_libs \<Rightarrow> credentials \<Rightarrow> 'w responder \<Rightarrow> (string \<Rightarrow> 'w responder) \<Rightarrow> 'w responder" where
  "web_router L credentials webhook app request =
     (if hi_path request = ''/api/webhooks/github''
      then (if hi_verb request = ''POST'' then webhook request else (\<lambda>w. (plain_reply 405 [], w)))
      else require_dashboard_auth L credentials (\<lambda>user. refuse_cross_site L (app user)) request)"

end
