(* ===== verification/Web_Api.thy ===== *)
theory Web_Api
  imports Web_Edge Store_Read
begin

text \<open>
  The bodies of the dashboard's server functions (\<^verbatim>\<open>apps/web/src/api.rs\<close>): each reads the
  projection within the deployment's installation or asks Restate, and refuses with a message
  made for the user. The world is the wire to Restate together with the store, the faults it
  meets, its clock, and the batch ids minted. Everything here is a function of what the browser
  sent and of this state; the functions that extract the state from a request are generated.
\<close>

section \<open>Refusals\<close>

datatype invalid_request =
    IrBatch invalid_batch
  | IrCursor
  | IrForeignInstallation pr_key
  | IrNoLongerInTheDashboard pr_key
  | IrNothingLeftToRun nat

datatype upstream = ReadModel | Restate

text \<open>What an unavailable component failed with: kept for the log.\<close>

datatype upstream_cause = StoreCause store_error | IngressCause ingress_error

datatype api_error = InvalidRequest invalid_request | Unavailable upstream upstream_cause

fun unavailable :: "upstream \<Rightarrow> string" where
  "unavailable ReadModel = ''The read model is unavailable''"
| "unavailable Restate = ''Restate is unavailable''"

fun display_invalid_request :: "invalid_request \<Rightarrow> string" where
  "display_invalid_request (IrBatch invalid) = display_invalid_batch invalid"
| "display_invalid_request IrCursor = ''invalid page cursor''"
| "display_invalid_request (IrForeignInstallation key) =
     ''pull request #'' @ show_u64 (pk_number key) @ '' does not belong to the configured installation''"
| "display_invalid_request (IrNoLongerInTheDashboard key) =
     ''pull request #'' @ show_u64 (pk_number key) @ '' is no longer in the dashboard''"
| "display_invalid_request (IrNothingLeftToRun submitted) =
     ''none of the '' @ show_nat submitted @ '' pull requests submitted are still in the dashboard''"

fun display_api_error :: "api_error \<Rightarrow> string" where
  "display_api_error (InvalidRequest invalid) = display_invalid_request invalid"
| "display_api_error (Unavailable component _) = unavailable component"

fun api_error_source :: "api_error \<Rightarrow> upstream_cause option" where
  "api_error_source (InvalidRequest _) = None"
| "api_error_source (Unavailable _ cause) = Some cause"

definition api_error_of_store :: "store_error \<Rightarrow> api_error" where
  "api_error_of_store e =
     (if e = StCursor then InvalidRequest IrCursor else Unavailable ReadModel (StoreCause e))"

definition api_error_of_ingress :: "ingress_error \<Rightarrow> api_error" where
  "api_error_of_ingress e = Unavailable Restate (IngressCause e)"

text \<open>
  What the browser is answered: a 500 with the message, whatever the refusal. A call that got no
  answer fails in ways of its own, told apart by nothing but their text.
\<close>

datatype server_fn_error = ServerError u16 string | Unanswered string

definition server_fn_error_of :: "api_error \<Rightarrow> server_fn_error" where
  "server_fn_error_of e = ServerError 500 (display_api_error e)"

definition server_function :: "('w, api_error, 'a) eff \<Rightarrow> ('w, server_fn_error, 'a) eff" where
  "server_function body w =
     (case body w of (Inl e, w') \<Rightarrow> (Inl (server_fn_error_of e), w') | (Inr a, w') \<Rightarrow> (Inr a, w'))"

section \<open>The state behind the server functions\<close>

record 'g web_world = "('g, web_input) wire" +
  ww_db :: db
  ww_faults :: "store_error option list"
  ww_times :: "nat \<Rightarrow> u64"
  ww_reads :: nat
  ww_ids :: "nat \<Rightarrow> string"
  ww_minted :: nat

text \<open>
  The deployment's settings beside the libraries: the spelling of a page cursor and the version
  of the UUID a text spells.
\<close>

record ('g, 'v) server_state =
  sv_ingress :: restate_ingress
  sv_installation :: u64
  sv_restate :: "('g, 'v) restate_libs"
  sv_encode :: "page_cursor \<Rightarrow> string"
  sv_decode :: "string \<Rightarrow> page_cursor option"
  sv_uuid :: "string \<Rightarrow> nat option"

type_synonym ('g, 'm, 'a) server_body = "(('g, 'm) web_world_scheme, api_error, 'a) eff"

text \<open>A read of the store: the next fault, when there is one, or the answer; the clock is the store's.\<close>

definition read_model_at :: "(u64 \<Rightarrow> 'a store_read) \<Rightarrow> ('g, 'm, 'a) server_body" where
  "read_model_at read w =
     (let after = w\<lparr>ww_faults := tl (ww_faults w), ww_reads := ww_reads w + 1\<rparr>
      in case ww_faults w of
           Some e # _ \<Rightarrow> (Inl (api_error_of_store e), after)
         | _ \<Rightarrow>
             (case read (ww_times w (ww_reads w)) (ww_db w) of
                Inl e \<Rightarrow> (Inl (api_error_of_store e), after) | Inr a \<Rightarrow> (Inr a, after)))"

definition read_model :: "'a store_read \<Rightarrow> ('g, 'm, 'a) server_body" where
  "read_model read = read_model_at (\<lambda>_. read)"

definition asking_restate ::
    "(('g, 'm) web_world_scheme, ingress_error, 'a) eff \<Rightarrow> ('g, 'm, 'a) server_body" where
  "asking_restate call w =
     (case call w of (Inl e, w') \<Rightarrow> (Inl (api_error_of_ingress e), w') | (Inr a, w') \<Rightarrow> (Inr a, w'))"

definition new_batch_id :: "('g, 'm, string) server_body" where
  "new_batch_id w = (Inr (ww_ids w (ww_minted w)), w\<lparr>ww_minted := ww_minted w + 1\<rparr>)"

section \<open>Reads of the table\<close>

definition load_dashboard_in ::
    "('g, 'v) server_state \<Rightarrow> pr_filter \<Rightarrow> page \<Rightarrow> ('g, 'm, dashboard_page) server_body" where
  "load_dashboard_in S f p =
     read_model_at (\<lambda>now. list_prs (sv_encode S) (sv_decode S) now (sv_installation S) f p)"

definition load_summary_in ::
    "('g, 'v) server_state \<Rightarrow> pr_filter \<Rightarrow> ('g, 'm, dashboard_summary) server_body" where
  "load_summary_in S f = read_model_at (\<lambda>now. dashboard_summary now (sv_installation S) f)"

definition load_matching_in ::
    "('g, 'v) server_state \<Rightarrow> pr_filter \<Rightarrow> ('g, 'm, dashboard_page) server_body" where
  "load_matching_in S f =
     (let batch = \<lparr>pg_limit = of_nat MAX_BATCH_TARGETS, pg_after = None\<rparr>
      in read_model_at (\<lambda>now. list_prs (sv_encode S) (sv_decode S) now (sv_installation S) f batch))"

definition load_projection_revision_in ::
    "('g, 'v) server_state \<Rightarrow> ('g, 'm, projection_revision) server_body" where
  "load_projection_revision_in S = read_model projection_revision"

definition load_capabilities_in :: "('g, 'v) server_state \<Rightarrow> ('g, 'm, capabilities) server_body" where
  "load_capabilities_in S = asking_restate (ri_capabilities (sv_restate S) (sv_ingress S))"

section \<open>Keys the browser names\<close>

fun held_to_the_installation :: "pr_key \<Rightarrow> projected_pr \<Rightarrow> api_error + pr_record option" where
  "held_to_the_installation key (PjRow row) = Inr (Some row)"
| "held_to_the_installation key PjAbsent = Inr None"
| "held_to_the_installation key PjForeign = Inl (InvalidRequest (IrForeignInstallation key))"

definition projected_pr ::
    "('g, 'v) server_state \<Rightarrow> pr_key \<Rightarrow> ('g, 'm, pr_record option) server_body" where
  "projected_pr S key =
     andthen (read_model (get_projected (sv_installation S) key)) (\<lambda>answer.
       lift (held_to_the_installation key answer))"

definition projected_prs ::
    "('g, 'v) server_state \<Rightarrow> pr_key list \<Rightarrow> ('g, 'm, pr_record option list) server_body" where
  "projected_prs S keys =
     andthen (read_model (get_prs (sv_installation S) keys)) (\<lambda>answers.
       lift (collect_results (map (\<lambda>(answer, key). held_to_the_installation key answer) (zip answers keys))))"

definition minted_here :: "('g, 'v) server_state \<Rightarrow> string \<Rightarrow> api_error + unit" where
  "minted_here S batch_id =
     (if valid_batch_id (sv_uuid S) batch_id then Inr () else Inl (InvalidRequest (IrBatch BadBatchId)))"

section \<open>Batches\<close>

definition resolved_target :: "submitted_target \<Rightarrow> pr_record \<Rightarrow> pr_target" where
  "resolved_target target row =
     \<lparr>tg_repository_id = pr_repository_id row, tg_owner = pr_owner row, tg_repo = pr_repo row,
      tg_number = pr_number row, tg_expected_sha = st_expected_sha target, tg_title = pr_title row,
      tg_html_url = pr_html_url row\<rparr>"

text \<open>The walk over the submission and its rows: what resolved, and the keys left out.\<close>

fun resolve_targets ::
    "(submitted_target \<times> pr_record option) list \<Rightarrow> pr_target list \<Rightarrow> pr_key list \<Rightarrow>
     pr_target list \<times> pr_key list" where
  "resolve_targets [] resolved left_out = (resolved, left_out)"
| "resolve_targets ((target, None) # rest) resolved left_out =
     resolve_targets rest resolved (left_out @ [submitted_key target])"
| "resolve_targets ((target, Some row) # rest) resolved left_out =
     resolve_targets rest (resolved @ [resolved_target target row]) left_out"

definition submit_batch_in ::
    "('g, 'v) server_state \<Rightarrow> string \<Rightarrow> string \<Rightarrow> bulk_action_kind \<Rightarrow> submitted_target list \<Rightarrow>
     string option \<Rightarrow> ('g, 'm, batch_receipt) server_body" where
  "submit_batch_in S user batch_id action targets retried_from =
     (let keys = map submitted_key targets; submitted = length targets
      in andthen (lift (case validate_batch (sv_uuid S) batch_id retried_from keys of
             Inl e \<Rightarrow> Inl (InvalidRequest (IrBatch e)) | Inr _ \<Rightarrow> Inr ())) (\<lambda>_.
         andthen (projected_prs S keys) (\<lambda>rows.
           case resolve_targets (zip targets rows) [] [] of
             (resolved, left_out) \<Rightarrow>
               if resolved = [] then fail (InvalidRequest (IrNothingLeftToRun submitted))
               else
                 andthen (asking_restate (run_batch (sv_restate S) (sv_ingress S) batch_id
                     \<lparr>bq_action = action, bq_targets = resolved, bq_user_id = user,
                      bq_retried_from = retried_from\<rparr>)) (\<lambda>_.
                   ok \<lparr>br_left_out = left_out\<rparr>))))"

definition load_batch_progress_in ::
    "('g, 'v) server_state \<Rightarrow> string \<Rightarrow> ('g, 'm, batch_progress option) server_body" where
  "load_batch_progress_in S batch_id =
     andthen (lift (minted_here S batch_id)) (\<lambda>_.
       asking_restate (ri_batch_progress (sv_restate S) (sv_ingress S) batch_id))"

definition load_recent_batches_in ::
    "('g, 'v) server_state \<Rightarrow> u32 \<Rightarrow> ('g, 'm, batch_list) server_body" where
  "load_recent_batches_in S limit =
     andthen (read_model (running_batches (sv_installation S))) (\<lambda>running.
     andthen (read_model (recent_batches (sv_installation S) (clamp 1 MAX_RECENT_BATCHES limit))) (\<lambda>finished.
       ok \<lparr>bl_running = running, bl_finished = finished\<rparr>))"

definition load_batch_projection_in ::
    "('g, 'v) server_state \<Rightarrow> string \<Rightarrow> ('g, 'm, projected_batch option) server_body" where
  "load_batch_projection_in S batch_id =
     andthen (lift (minted_here S batch_id)) (\<lambda>_.
       read_model (get_batch (sv_installation S) batch_id))"

section \<open>One pull request\<close>

definition load_pr_status_in ::
    "('g, 'v) server_state \<Rightarrow> pr_key \<Rightarrow> ('g, 'm, pr_state option) server_body" where
  "load_pr_status_in S key =
     andthen (projected_pr S key) (\<lambda>row.
       if row = None then ok None
       else asking_restate (pull_request_status (sv_restate S) (sv_ingress S) key))"

definition load_pr_projection_in ::
    "('g, 'v) server_state \<Rightarrow> pr_key \<Rightarrow> ('g, 'm, pr_record option) server_body" where
  "load_pr_projection_in S key = projected_pr S key"

definition request_sync_in :: "('g, 'v) server_state \<Rightarrow> ('g, 'm, unit) server_body" where
  "request_sync_in S = asking_restate (sync_installation (sv_restate S) (sv_ingress S))"

definition request_pr_sync_in :: "('g, 'v) server_state \<Rightarrow> pr_key \<Rightarrow> ('g, 'm, string) server_body" where
  "request_pr_sync_in S key =
     andthen (projected_pr S key) (\<lambda>row.
       case row of
         None \<Rightarrow> fail (InvalidRequest (IrNoLongerInTheDashboard key))
       | Some row \<Rightarrow>
           andthen new_batch_id (\<lambda>completion_id.
           andthen (asking_restate (sync_pull_request (sv_restate S) (sv_ingress S)
               \<lparr>ms_repository_id = pr_repository_id row, ms_owner = pr_owner row, ms_repo = pr_repo row,
                ms_number = pr_number row, ms_completion_id = completion_id\<rparr>)) (\<lambda>_.
             ok completion_id)))"

end
