(* ===== verification/Ui_State.thy ===== *)
theory Ui_State
  imports Web_Api "HOL-Library.Char_ord"
begin

text \<open>
  The state the dashboard's components share (\<^verbatim>\<open>apps/web/src/ui/dashboard_state.rs\<close>) and
  what a failed call says about the line to the server (\<^verbatim>\<open>ui/mod.rs\<close>). A signal is a field;
  a method that writes signals is a function on the state. The answers of the read model, the
  clock and the service's capabilities are fields the page's resources set, and the reloads asked
  of them are counted.
\<close>

section \<open>Faults\<close>

datatype fault = SignedOutFault | Refused string | Unreachable

definition SIGNED_OUT_MESSAGE :: string where
  "SIGNED_OUT_MESSAGE = ''You are no longer signed in '' @ map char_of [226, 128, 148 :: nat] @ '' reload to sign in again''"

definition UNREACHABLE_MESSAGE :: string where
  "UNREACHABLE_MESSAGE = ''The dashboard server could not be reached''"

definition fault_of :: "server_fn_error \<Rightarrow> fault" where
  "fault_of e =
     (case e of
        ServerError code message \<Rightarrow>
          if code = 401 then SignedOutFault else if code = 500 then Refused message else Unreachable
      | Unanswered _ \<Rightarrow> Unreachable)"

fun display_fault :: "fault \<Rightarrow> string" where
  "display_fault SignedOutFault = SIGNED_OUT_MESSAGE"
| "display_fault (Refused message) = message"
| "display_fault Unreachable = UNREACHABLE_MESSAGE"

section \<open>Answers and the line to the server\<close>

datatype 'a remote = Loading | Failed string | Loaded 'a

definition from_faulted :: "(fault + 'a) option \<Rightarrow> 'a remote" where
  "from_faulted value =
     (case value of
        None \<Rightarrow> Loading | Some (Inl f) \<Rightarrow> Failed (display_fault f) | Some (Inr answer) \<Rightarrow> Loaded answer)"

fun loaded :: "'a remote \<Rightarrow> 'a option" where
  "loaded (Loaded answer) = Some answer"
| "loaded _ = None"

fun remote_map :: "('a \<Rightarrow> 'b) \<Rightarrow> 'a remote \<Rightarrow> 'b remote" where
  "remote_map f Loading = Loading"
| "remote_map f (Failed e) = Failed e"
| "remote_map f (Loaded answer) = Loaded (f answer)"

datatype connection = Online | Disconnected | SignedOut

text \<open>
  A call on the page's line: not made once the line is refused, and a refusal it meets is
  recorded. The line is beside the state the call acts on.
\<close>

definition guarded_by ::
    "('w, server_fn_error, 'a) eff \<Rightarrow> (connection \<times> 'w, fault, 'a) eff" where
  "guarded_by call = (\<lambda>(line, w).
     if line = SignedOut then (Inl SignedOutFault, (line, w))
     else
       (case call w of
          (Inr answer, w') \<Rightarrow> (Inr answer, (line, w'))
        | (Inl e, w') \<Rightarrow>
            (Inl (fault_of e), (if fault_of e = SignedOutFault then SignedOut else line, w'))))"

section \<open>Ordered maps\<close>

text \<open>
  A \<open>BTreeMap\<close>: its entries in the order of their keys. \<open>insert\<close> of a key already there
  replaces the value.
\<close>

type_synonym ('k, 'v) btree = "('k \<times> 'v) list"

fun bt_insert :: "'k::linorder \<Rightarrow> 'v \<Rightarrow> ('k, 'v) btree \<Rightarrow> ('k, 'v) btree" where
  "bt_insert k v [] = [(k, v)]"
| "bt_insert k v ((l, u) # m) =
     (if k < l then (k, v) # (l, u) # m else if k = l then (k, v) # m else (l, u) # bt_insert k v m)"

definition bt_remove :: "'k \<Rightarrow> ('k, 'v) btree \<Rightarrow> ('k, 'v) btree" where
  "bt_remove k m = filter (\<lambda>(l, _). l \<noteq> k) m"

definition bt_contains :: "'k \<Rightarrow> ('k, 'v) btree \<Rightarrow> bool" where
  "bt_contains k m \<longleftrightarrow> k \<in> fst ` set m"

definition bt_ordered :: "('k::linorder, 'v) btree \<Rightarrow> bool" where
  "bt_ordered m \<longleftrightarrow> sorted_wrt (<) (map fst m)"

definition bt_collect :: "('k::linorder \<times> 'v) list \<Rightarrow> ('k, 'v) btree" where
  "bt_collect entries = fold (\<lambda>(k, v). bt_insert k v) entries []"

section \<open>The state\<close>

record selection =
  sl_rows :: "(string, pr_record) btree"
  sl_capped_from :: "u64 option"

definition no_selection :: selection where
  "no_selection = \<lparr>sl_rows = [], sl_capped_from = None\<rparr>"

record dashboard =
  dv_filter :: pr_filter
  dv_cursor :: "string option"
  dv_selected :: selection
  dv_page :: "dashboard_page remote"
  dv_summary :: "dashboard_summary remote"
  dv_capabilities :: "capabilities remote"
  dv_now :: u64
  dv_syncing :: bool
  dv_connection :: connection
  dv_refreshed_at :: "u64 option"
  dv_reloads :: nat

definition REBASE_UNAVAILABLE :: string where
  "REBASE_UNAVAILABLE = ''rebase is unavailable: no GitHub user token is configured''"

definition rebase_withheld :: "dashboard \<Rightarrow> string option" where
  "rebase_withheld d =
     (case dv_capabilities d of
        Loaded capabilities \<Rightarrow> if \<not> cap_rebase_enabled capabilities then Some REBASE_UNAVAILABLE else None
      | _ \<Rightarrow> None)"

definition begin_sync :: "dashboard \<Rightarrow> dashboard" where
  "begin_sync d = d\<lparr>dv_syncing := True\<rparr>"

definition end_sync :: "dashboard \<Rightarrow> dashboard" where
  "end_sync d = (if dv_syncing d then d\<lparr>dv_syncing := False\<rparr> else d)"

definition signed_out :: "dashboard \<Rightarrow> bool" where
  "signed_out d \<longleftrightarrow> dv_connection d = SignedOut"

text \<open>\<open>guarded\<close>: the guard on the line the state carries; a call may change the state meanwhile.\<close>

definition guarded :: "(dashboard \<times> 'w, server_fn_error, 'a) eff \<Rightarrow> (dashboard \<times> 'w, fault, 'a) eff" where
  "guarded call = (\<lambda>(d, w).
     if dv_connection d = SignedOut then (Inl SignedOutFault, (d, w))
     else
       (case call (d, w) of
          (Inr answer, s) \<Rightarrow> (Inr answer, s)
        | (Inl e, (d', w')) \<Rightarrow>
            (Inl (fault_of e),
             (if fault_of e = SignedOutFault \<and> dv_connection d' \<noteq> SignedOut
              then d'\<lparr>dv_connection := SignedOut\<rparr> else d', w'))))"

definition set_connection :: "connection \<Rightarrow> dashboard \<Rightarrow> dashboard" where
  "set_connection line d = (if dv_connection d \<noteq> line then d\<lparr>dv_connection := line\<rparr> else d)"

definition poll_answered :: "u64 \<Rightarrow> dashboard \<Rightarrow> dashboard" where
  "poll_answered now d = set_connection Online (d\<lparr>dv_refreshed_at := Some now\<rparr>)"

definition poll_missed :: "connection \<Rightarrow> dashboard \<Rightarrow> dashboard" where
  "poll_missed line d = set_connection line d"

definition reload :: "dashboard \<Rightarrow> dashboard" where
  "reload d = (if signed_out d then d else d\<lparr>dv_reloads := dv_reloads d + 1\<rparr>)"

definition clear_selection :: "dashboard \<Rightarrow> dashboard" where
  "clear_selection d = (if dv_selected d \<noteq> no_selection then d\<lparr>dv_selected := no_selection\<rparr> else d)"

definition update_filter :: "(pr_filter \<Rightarrow> pr_filter) \<Rightarrow> dashboard \<Rightarrow> dashboard" where
  "update_filter change d = clear_selection (d\<lparr>dv_filter := change (dv_filter d), dv_cursor := None\<rparr>)"

definition navigate :: "pr_filter \<Rightarrow> string option \<Rightarrow> dashboard \<Rightarrow> dashboard" where
  "navigate f cursor d =
     (let d1 = (if dv_filter d \<noteq> f then clear_selection (d\<lparr>dv_filter := f\<rparr>) else d)
      in if dv_cursor d1 \<noteq> cursor then d1\<lparr>dv_cursor := cursor\<rparr> else d1)"

text \<open>\<open>position\<close> then \<open>remove\<close>: the first occurrence goes.\<close>

definition toggle_value :: "'a \<Rightarrow> 'a list \<Rightarrow> 'a list" where
  "toggle_value value values = (if value \<in> set values then remove1 value values else values @ [value])"

text \<open>A facet is the update of its list in the filter.\<close>

definition toggle_filter :: "(('a list \<Rightarrow> 'a list) \<Rightarrow> pr_filter \<Rightarrow> pr_filter) \<Rightarrow> 'a \<Rightarrow> dashboard \<Rightarrow> dashboard" where
  "toggle_filter facet value = update_filter (facet (toggle_value value))"

fun select_each :: "string list \<Rightarrow> bool \<Rightarrow> string list \<Rightarrow> string list" where
  "select_each [] select repos = repos"
| "select_each (r # rest) select repos =
     select_each rest select
       (if r \<notin> set repos \<and> select then repos @ [r]
        else if r \<in> set repos \<and> \<not> select then remove1 r repos else repos)"

definition select_repos :: "string list \<Rightarrow> bool \<Rightarrow> dashboard \<Rightarrow> dashboard" where
  "select_repos repos select = update_filter (\<lambda>f. f\<lparr>pf_repos := select_each repos select (pf_repos f)\<rparr>)"

definition clear_filters :: "dashboard \<Rightarrow> dashboard" where
  "clear_filters = update_filter (\<lambda>_. default_filter)"

definition load_next :: "string \<Rightarrow> dashboard \<Rightarrow> dashboard" where
  "load_next cursor d = d\<lparr>dv_cursor := Some cursor\<rparr>"

section \<open>The selection\<close>

definition is_selected :: "dashboard \<Rightarrow> string \<Rightarrow> bool" where
  "is_selected d i = bt_contains i (sl_rows (dv_selected d))"

definition selected_count :: "dashboard \<Rightarrow> nat" where
  "selected_count d = length (sl_rows (dv_selected d))"

definition repository_count :: "pr_record list \<Rightarrow> nat" where
  "repository_count rows = card (set (map pr_repository_id rows))"

definition selected_repository_count :: "dashboard \<Rightarrow> nat" where
  "selected_repository_count d = repository_count (map snd (sl_rows (dv_selected d)))"

definition visible_selected_count :: "dashboard \<Rightarrow> nat" where
  "visible_selected_count d =
     (case loaded (dv_page d) of
        None \<Rightarrow> 0
      | Some page \<Rightarrow> length (filter (\<lambda>row. bt_contains (pr_id row) (sl_rows (dv_selected d))) (dp_rows page)))"

definition all_visible_selected :: "dashboard \<Rightarrow> bool" where
  "all_visible_selected d =
     (case loaded (dv_page d) of
        None \<Rightarrow> False
      | Some page \<Rightarrow> dp_rows page \<noteq> [] \<and> visible_selected_count d = length (dp_rows page))"

definition toggle_selected :: "pr_record \<Rightarrow> dashboard \<Rightarrow> dashboard" where
  "toggle_selected row d =
     (let rows = sl_rows (dv_selected d)
      in d\<lparr>dv_selected :=
            \<lparr>sl_rows =
               (if bt_contains (pr_id row) rows then bt_remove (pr_id row) rows
                else bt_insert (pr_id row) row rows),
             sl_capped_from = None\<rparr>\<rparr>)"

definition toggle_visible :: "dashboard \<Rightarrow> dashboard" where
  "toggle_visible d =
     (let clear = all_visible_selected d
      in case loaded (dv_page d) of
           None \<Rightarrow> d
         | Some page \<Rightarrow>
             d\<lparr>dv_selected :=
               \<lparr>sl_rows = fold (\<lambda>row rows. if clear then bt_remove (pr_id row) rows
                    else bt_insert (pr_id row) row rows) (dp_rows page) (sl_rows (dv_selected d)),
                sl_capped_from = None\<rparr>\<rparr>)"

definition select_matching :: "pr_filter \<Rightarrow> dashboard_page \<Rightarrow> dashboard \<Rightarrow> dashboard" where
  "select_matching f matching d =
     (if dv_filter d \<noteq> f then d
      else
        let capped = (of_nat (length (dp_rows matching)) < dp_total matching)
        in d\<lparr>dv_selected :=
             \<lparr>sl_rows = bt_collect (map (\<lambda>row. (pr_id row, row)) (dp_rows matching)),
              sl_capped_from = (if capped then Some (dp_total matching) else None)\<rparr>\<rparr>)"

definition deselect :: "pr_record list \<Rightarrow> dashboard \<Rightarrow> dashboard" where
  "deselect rows d =
     (if \<not> (\<exists>row\<in>set rows. bt_contains (pr_id row) (sl_rows (dv_selected d))) then d
      else d\<lparr>dv_selected :=
             \<lparr>sl_rows = fold (\<lambda>row. bt_remove (pr_id row)) rows (sl_rows (dv_selected d)),
              sl_capped_from = None\<rparr>\<rparr>)"

text \<open>
  The selected rows: as the page in force shows them where it does, newest update first, the
  later id first among updates of one moment. The sort is stable.
\<close>

definition as_shown :: "dashboard \<Rightarrow> pr_record \<Rightarrow> pr_record" where
  "as_shown d remembered =
     (case loaded (dv_page d) of
        None \<Rightarrow> remembered
      | Some page \<Rightarrow>
          (case find (\<lambda>row. pr_id row = pr_id remembered) (dp_rows page) of
             None \<Rightarrow> remembered | Some row \<Rightarrow> row))"

definition shown_rank :: "pr_record \<Rightarrow> u64 \<times> string" where
  "shown_rank row = (pr_updated_at row, pr_id row)"

definition selected_rows :: "dashboard \<Rightarrow> pr_record list" where
  "selected_rows d =
     rev (sort_key shown_rank (rev (map (\<lambda>(_, row). as_shown d row) (sl_rows (dv_selected d)))))"

section \<open>A confirmed action\<close>

record pending_action =
  pa_action :: bulk_action_kind
  pa_rows :: "pr_record list"
  pa_retried_from :: "string option"

definition pr_target_of :: "pr_record \<Rightarrow> pr_target" where
  "pr_target_of row =
     \<lparr>tg_repository_id = pr_repository_id row, tg_owner = pr_owner row, tg_repo = pr_repo row,
      tg_number = pr_number row, tg_expected_sha = pr_head_sha row, tg_title = pr_title row,
      tg_html_url = pr_html_url row\<rparr>"

definition pending_targets :: "pending_action \<Rightarrow> pr_target list" where
  "pending_targets pending = map pr_target_of (pa_rows pending)"

end
