(* ===== verification/Ui_Live.thy ===== *)
theory Ui_Live
  imports Ui_State
begin

text \<open>
  The dashboard's refresh (\<^verbatim>\<open>apps/web/src/ui/live.rs\<close>): the decision taken at each tick, what an
  answer or a miss says, and the loop that makes the calls. One round of the loop is a step on
  the refresh, the shared state and the server the polls reach.
\<close>

definition REFRESH_TICKS :: u32 where "REFRESH_TICKS = 10"
definition SYNC_FOLLOW_TICKS :: u32 where "SYNC_FOLLOW_TICKS = 60"
definition DISCONNECT_THRESHOLD :: u32 where "DISCONNECT_THRESHOLD = 3"

datatype tick_step = Wait | Poll | Reload | Stop

record moved =
  mv_projection :: bool
  mv_pull_requests :: bool

record refresh =
  rf_since_poll :: u32
  rf_owed :: bool
  rf_followed :: u32
  rf_seen :: "projection_revision option"
  rf_misses :: u32
  rf_refused :: bool

definition new_refresh :: refresh where
  "new_refresh = \<lparr>rf_since_poll = 0, rf_owed = True, rf_followed = 0, rf_seen = None, rf_misses = 0,
     rf_refused = False\<rparr>"

definition refresh_connection :: "refresh \<Rightarrow> connection" where
  "refresh_connection r =
     (if rf_refused r then SignedOut
      else if DISCONNECT_THRESHOLD \<le> rf_misses r then Disconnected else Online)"

definition tick :: "bool \<Rightarrow> bool \<Rightarrow> refresh \<Rightarrow> tick_step \<times> refresh" where
  "tick visible syncing r =
     (if rf_refused r then (Stop, r)
      else
        let r1 = (if \<not> syncing then r\<lparr>rf_followed := 0\<rparr> else r)
        in if \<not> visible then (Wait, r1\<lparr>rf_owed := True\<rparr>)
           else
             let r2 = (if syncing then r1\<lparr>rf_followed := rf_followed r1 + 1\<rparr> else r1)
             in if syncing \<and> SYNC_FOLLOW_TICKS < rf_followed r2 then (Reload, r2\<lparr>rf_followed := 0\<rparr>)
                else
                  let r3 = r2\<lparr>rf_since_poll := rf_since_poll r2 + 1\<rparr>
                  in if rf_owed r3 \<or> syncing \<or> REFRESH_TICKS \<le> rf_since_poll r3
                     then (Poll, r3\<lparr>rf_since_poll := 0, rf_owed := False\<rparr>)
                     else (Wait, r3))"

definition observe :: "projection_revision \<Rightarrow> refresh \<Rightarrow> moved \<times> refresh" where
  "observe revision r =
     (let restored = (0 < rf_misses r)
      in (case rf_seen r of
            Some seen \<Rightarrow>
              \<lparr>mv_projection = (restored \<or> rv_projection seen \<noteq> rv_projection revision),
               mv_pull_requests = (rv_pull_requests seen \<noteq> rv_pull_requests revision)\<rparr>
          | None \<Rightarrow> \<lparr>mv_projection = restored, mv_pull_requests = False\<rparr>,
          r\<lparr>rf_misses := 0, rf_seen := Some revision\<rparr>))"

definition miss :: "fault \<Rightarrow> refresh \<Rightarrow> connection \<times> refresh" where
  "miss f r =
     (let r' = r\<lparr>rf_misses := rf_misses r + 1, rf_refused := rf_refused r \<or> f = SignedOutFault\<rparr>
      in (refresh_connection r', r'))"

section \<open>The loop\<close>

text \<open>
  One round: what the tick says to do, done. \<open>None\<close> ends the loop. \<open>ask\<close> is the call for the
  revision, which may find the shared state changed by the page meanwhile; \<open>clock\<close> is the
  browser's.
\<close>

definition live_round ::
    "(dashboard \<times> 'w, server_fn_error, projection_revision) eff \<Rightarrow> ('w \<Rightarrow> u64) \<Rightarrow> bool \<Rightarrow>
     refresh \<times> dashboard \<times> 'w \<Rightarrow> (refresh \<times> dashboard \<times> 'w) option" where
  "live_round ask clock visible = (\<lambda>(r, d, w).
     case tick visible (dv_syncing d) r of
       (Wait, r1) \<Rightarrow> Some (r1, d, w)
     | (Stop, r1) \<Rightarrow> None
     | (Poll, r1) \<Rightarrow>
         if signed_out d then None
         else
           (case guarded ask (d, w) of
              (Inr revision, (d1, w1)) \<Rightarrow>
                (case observe revision r1 of (m, r2) \<Rightarrow>
                  let d2 = (if mv_pull_requests m then end_sync d1 else d1);
                      d3 = (if mv_projection m then reload d2 else d2)
                  in Some (r2, poll_answered (clock w1) d3, w1))
            | (Inl f, (d1, w1)) \<Rightarrow>
                (case miss f r1 of (line, r2) \<Rightarrow> Some (r2, poll_missed line d1, w1)))
     | (Reload, r1) \<Rightarrow> if signed_out d then None else Some (r1, reload (end_sync d), w))"

text \<open>The clock of the page: set when the tab shows again and once a minute while it shows.\<close>

definition clock_shown :: "bool \<Rightarrow> bool \<Rightarrow> u64 \<Rightarrow> dashboard \<Rightarrow> dashboard" where
  "clock_shown was_showing showing time d =
     (if showing \<and> \<not> was_showing \<and> \<not> signed_out d then d\<lparr>dv_now := time\<rparr> else d)"

definition clock_round :: "bool \<Rightarrow> u64 \<Rightarrow> dashboard \<Rightarrow> dashboard option" where
  "clock_round visible time d =
     (if signed_out d then None else Some (if visible then d\<lparr>dv_now := time\<rparr> else d))"

section \<open>Runs of the refresh\<close>

datatype live_event = Ticked bool bool | Answered projection_revision | Missed fault

fun take_in :: "live_event \<Rightarrow> refresh \<Rightarrow> refresh" where
  "take_in (Ticked visible syncing) r = snd (tick visible syncing r)"
| "take_in (Answered revision) r = snd (observe revision r)"
| "take_in (Missed f) r = snd (miss f r)"

text \<open>The steps the ticks of a run ask for, in order.\<close>

fun steps_of :: "live_event list \<Rightarrow> refresh \<Rightarrow> tick_step list" where
  "steps_of [] r = []"
| "steps_of (Ticked visible syncing # es) r =
     fst (tick visible syncing r) # steps_of es (take_in (Ticked visible syncing) r)"
| "steps_of (e # es) r = steps_of es (take_in e r)"

fun is_tick :: "live_event \<Rightarrow> bool" where
  "is_tick (Ticked _ _) = True"
| "is_tick _ = False"

definition ticks_of :: "live_event list \<Rightarrow> nat" where
  "ticks_of es = length (filter is_tick es)"

definition paced :: "refresh \<Rightarrow> bool" where
  "paced r \<longleftrightarrow> rf_since_poll r < 10 \<and> rf_followed r \<le> 60"

lemma small_step: "n < 61 \<Longrightarrow> unat (n + 1 :: u32) = unat n + 1"
  by (simp add: unat_plus_simple word_le_nat_alt word_less_nat_alt unat_word_ariths)

lemma observe_frame [simp]:
  "rf_since_poll (snd (observe v r)) = rf_since_poll r" "rf_followed (snd (observe v r)) = rf_followed r"
  "rf_owed (snd (observe v r)) = rf_owed r" "rf_refused (snd (observe v r)) = rf_refused r"
  "rf_misses (snd (observe v r)) = 0"
  by (simp_all add: observe_def Let_def)

lemma miss_frame [simp]:
  "rf_since_poll (snd (miss f r)) = rf_since_poll r" "rf_followed (snd (miss f r)) = rf_followed r"
  "rf_owed (snd (miss f r)) = rf_owed r" "rf_misses (snd (miss f r)) = rf_misses r + 1"
  "rf_refused (snd (miss f r)) \<longleftrightarrow> rf_refused r \<or> f = SignedOutFault"
  by (simp_all add: miss_def Let_def)

lemma tick_frame [simp]:
  "rf_refused (snd (tick v s r)) = rf_refused r" "rf_misses (snd (tick v s r)) = rf_misses r"
  "rf_seen (snd (tick v s r)) = rf_seen r"
  by (simp_all add: tick_def Let_def)

lemma next_u32:
  fixes n :: u32
  assumes "n \<le> 60"
  shows "n + 1 \<le> 61" and "unat (n + 1) = unat n + 1"
proof -
  have "unat n \<le> 60" using assms by (simp add: word_le_nat_alt)
  then show "unat (n + 1) = unat n + 1" by (simp add: unat_word_ariths)
  with assms show "n + 1 \<le> 61" by (simp add: word_le_nat_alt)
qed

lemma next_u32_iff:
  fixes n :: u32
  assumes "n \<le> 60"
  shows "60 < n + 1 \<longleftrightarrow> n = 60" and "10 \<le> n + 1 \<longleftrightarrow> 9 \<le> n"
  using next_u32(2) [OF assms] assms by (auto simp: word_le_nat_alt word_less_nat_alt word_unat_eq_iff)

lemma paced_tick: "paced r \<Longrightarrow> paced (snd (tick visible syncing r))"
  using next_u32_iff [of "rf_followed r"] next_u32_iff [of "rf_since_poll r"] next_u32 [of "rf_followed r"]
    next_u32 [of "rf_since_poll r"]
  by (auto simp: paced_def tick_def Let_def REFRESH_TICKS_def SYNC_FOLLOW_TICKS_def word_le_nat_alt
      word_less_nat_alt)

lemma paced_take_in: "paced r \<Longrightarrow> paced (take_in e r)"
  by (cases e) (auto simp: paced_tick, auto simp: paced_def)

lemma paced_run: "paced r \<Longrightarrow> paced (fold take_in es r)"
  by (induction es arbitrary: r) (auto simp: paced_take_in)

lemma refused_run: "rf_refused r \<Longrightarrow> rf_refused (fold take_in es r) \<and> set (steps_of es r) \<subseteq> {Stop}"
proof (induction es arbitrary: r)
  case Nil
  then show ?case by simp
next
  case (Cons e es)
  have "rf_refused (take_in e r)" using Cons.prems by (cases e) simp_all
  from Cons.IH [OF this] Cons.prems show ?case by (cases e) (auto simp: tick_def)
qed

fun watching :: "live_event \<Rightarrow> bool" where
  "watching (Ticked visible _) = visible"
| "watching (Missed f) = (f \<noteq> SignedOutFault)"
| "watching (Answered _) = True"

text \<open>While nothing is asked, the ticks that show add up.\<close>

lemma quiet_ticks:
  assumes "paced r" and "\<not> rf_refused r" and "\<forall>e\<in>set es. watching e"
    and "set (steps_of es r) \<inter> {Poll, Reload} = {}"
  shows "unat (rf_since_poll r) + ticks_of es < 10"
  using assms
proof (induction es arbitrary: r)
  case Nil
  then show ?case by (simp add: paced_def ticks_of_def word_less_nat_alt)
next
  case (Cons e es)
  let ?r = "take_in e r"
  have "\<not> rf_refused ?r" using Cons.prems(2,3) by (cases e) simp_all
  moreover have "set (steps_of es ?r) \<inter> {Poll, Reload} = {}" using Cons.prems(4) by (cases e) auto
  ultimately have rest: "unat (rf_since_poll ?r) + ticks_of es < 10"
    using Cons.IH [OF paced_take_in [OF Cons.prems(1)]] Cons.prems(3) by simp
  show ?case
  proof (cases e)
    case (Ticked visible syncing)
    with Cons.prems have "fst (tick visible syncing r) = Wait" "visible"
      by (auto simp: tick_def Let_def split: if_splits)
    then have "rf_since_poll (snd (tick visible syncing r)) = rf_since_poll r + 1"
      using Cons.prems(2) by (auto simp: tick_def Let_def split: if_splits)
    then have "unat (rf_since_poll ?r) = unat (rf_since_poll r) + 1"
      using next_u32(2) [of "rf_since_poll r"] Cons.prems(1) Ticked
      by (simp add: paced_def word_le_nat_alt word_less_nat_alt)
    with rest Ticked show ?thesis by (simp add: ticks_of_def)
  qed (use rest in \<open>simp_all add: ticks_of_def\<close>)
qed

fun following :: "live_event \<Rightarrow> bool" where
  "following (Ticked visible syncing) = (visible \<and> syncing)"
| "following e = watching e"

lemma followed_ticks:
  assumes "paced r" and "\<not> rf_refused r" and "\<forall>e\<in>set es. following e"
    and "Reload \<notin> set (steps_of es r)"
  shows "unat (rf_followed r) + ticks_of es \<le> 60"
  using assms
proof (induction es arbitrary: r)
  case Nil
  then show ?case by (simp add: paced_def ticks_of_def word_le_nat_alt)
next
  case (Cons e es)
  let ?r = "take_in e r"
  have "\<not> rf_refused ?r" using Cons.prems(2,3) by (cases e) simp_all
  moreover have "Reload \<notin> set (steps_of es ?r)" using Cons.prems(4) by (cases e) auto
  ultimately have rest: "unat (rf_followed ?r) + ticks_of es \<le> 60"
    using Cons.IH [OF paced_take_in [OF Cons.prems(1)]] Cons.prems(3) by simp
  show ?case
  proof (cases e)
    case (Ticked visible syncing)
    with Cons.prems have "fst (tick True True r) \<noteq> Reload" "e = Ticked True True" by auto
    then have "unat (rf_followed ?r) = unat (rf_followed r) + 1"
      using next_u32(2) [of "rf_followed r"] Cons.prems(1,2)
      by (auto simp: tick_def Let_def paced_def split: if_splits)
    with rest Ticked show ?thesis by (simp add: ticks_of_def)
  qed (use rest in \<open>simp_all add: ticks_of_def\<close>)
qed

text \<open>
  From the page's first tick on, the refresh keeps its counters in bounds; while the tab
  shows, any ten ticks ask for the revision or reload; a manual sync followed for sixty-one
  ticks is given up with a reload; and once the credentials are refused every tick says to stop.
\<close>

theorem refresh_is_paced:
  assumes "r = fold take_in history new_refresh"
  shows "paced r \<and>
    (\<not> rf_refused r \<longrightarrow> (\<forall>e\<in>set es. watching e) \<longrightarrow> 10 \<le> ticks_of es \<longrightarrow>
       Poll \<in> set (steps_of es r) \<or> Reload \<in> set (steps_of es r)) \<and>
    (\<not> rf_refused r \<longrightarrow> (\<forall>e\<in>set es. following e) \<longrightarrow> 61 \<le> ticks_of es \<longrightarrow> Reload \<in> set (steps_of es r)) \<and>
    (rf_refused r \<longrightarrow> set (steps_of es r) \<subseteq> {Stop})"
proof -
  have "paced r" unfolding assms by (rule paced_run) (simp add: paced_def new_refresh_def)
  then show ?thesis
    using quiet_ticks [of r es] followed_ticks [of r es] refused_run [of r es] by fastforce
qed

text \<open>The misses since the last answer.\<close>

fun missed_since :: "live_event list \<Rightarrow> nat \<Rightarrow> nat" where
  "missed_since [] n = n"
| "missed_since (Missed _ # es) n = missed_since es (n + 1)"
| "missed_since (Answered _ # es) n = missed_since es 0"
| "missed_since (Ticked _ _ # es) n = missed_since es n"

lemma missed_run:
  assumes "unat (rf_misses r) + length es < 2 ^ 32"
  shows "unat (rf_misses (fold take_in es r)) = missed_since es (unat (rf_misses r)) \<and>
    (rf_refused (fold take_in es r) \<longleftrightarrow> rf_refused r \<or> Missed SignedOutFault \<in> set es)"
  using assms
proof (induction es arbitrary: r)
  case Nil
  then show ?case by simp
next
  case (Cons e es)
  show ?case
  proof (cases e)
    case (Missed f)
    have "unat (rf_misses r + 1) = unat (rf_misses r) + 1"
      using Cons.prems by (simp add: unat_word_ariths)
    with Missed Cons.prems Cons.IH [of "take_in e r"] show ?thesis by auto
  qed (use Cons.prems Cons.IH [of "take_in e r"] in auto)
qed

text \<open>
  The line reads as signed out once any poll was refused the credentials, as disconnected
  while the last three polls or more went unanswered, and as online otherwise, so one answer
  puts a line that was merely down back.
\<close>

theorem line_reads_the_polls:
  assumes "length es < 2 ^ 32"
  shows "refresh_connection (fold take_in es new_refresh) =
    (if Missed SignedOutFault \<in> set es then SignedOut
     else if 3 \<le> missed_since es 0 then Disconnected else Online)"
  using missed_run [of new_refresh es] assms
  by (auto simp: refresh_connection_def DISCONNECT_THRESHOLD_def new_refresh_def word_le_nat_alt)

fun live_rounds ::
    "(dashboard \<times> 'w, server_fn_error, projection_revision) eff \<Rightarrow> ('w \<Rightarrow> u64) \<Rightarrow> nat \<Rightarrow>
     refresh \<times> dashboard \<times> 'w \<Rightarrow> (refresh \<times> dashboard \<times> 'w) option" where
  "live_rounds ask clock 0 s = Some s"
| "live_rounds ask clock (Suc n) s = Option.bind (live_round ask clock True s) (live_rounds ask clock n)"

lemma signed_out_round:
  assumes "live_round ask clock visible (r, d, w) = Some (r', d', w')" and "signed_out d"
  shows "fst (tick visible (dv_syncing d) r) = Wait \<and> r' = snd (tick visible (dv_syncing d) r) \<and> d' = d \<and> w' = w"
  using assms by (auto simp: live_round_def split: prod.splits tick_step.splits)

lemma signed_out_rounds:
  assumes "signed_out d" and "paced r" and "live_rounds ask clock n (r, d, w) = Some s"
  shows "unat (rf_since_poll r) + n < 10"
  using assms(2,3)
proof (induction n arbitrary: r)
  case 0
  then show ?case by (simp add: paced_def word_less_nat_alt)
next
  case (Suc n)
  then obtain r' d' w' where round: "live_round ask clock True (r, d, w) = Some (r', d', w')"
    and more: "live_rounds ask clock n (r', d', w') = Some s"
    by (auto simp: Option.bind_eq_Some_conv)
  from signed_out_round [OF round assms(1)] have quiet: "fst (tick True (dv_syncing d) r) = Wait"
    and r': "r' = snd (tick True (dv_syncing d) r)" "d' = d" "w' = w" by auto
  then have "unat (rf_since_poll r') + n < 10" using Suc.IH [of r'] more Suc.prems(1) paced_tick by blast
  moreover have "rf_since_poll r' = rf_since_poll r + 1"
    unfolding r' using quiet by (auto simp: tick_def Let_def split: if_splits)
  ultimately show ?case
    using next_u32(2) [of "rf_since_poll r"] Suc.prems(1)
    by (simp add: paced_def word_le_nat_alt word_less_nat_alt)
qed

text \<open>
  A page the server has refused asks for nothing: the guard makes no call, a reload is
  declined, a round of the live loop leaves the page and the server as they were, the loop of a
  showing tab has ended within ten rounds, and it ends on the round after its own poll is refused.
\<close>

theorem signed_out_page_asks_nothing:
  assumes "dv_connection d = SignedOut" and "paced r"
  shows "guarded call (d, w) = (Inl SignedOutFault, (d, w)) \<and> reload d = d \<and>
    (\<forall>r' d' w'. live_round ask clock visible (r, d, w) = Some (r', d', w') \<longrightarrow> d' = d \<and> w' = w) \<and>
    live_rounds ask clock 10 (r, d, w) = None \<and>
    live_round ask clock visible (snd (miss SignedOutFault r), d0, w0) = None"
proof -
  have out: "signed_out d" using assms(1) by (simp add: signed_out_def)
  have "live_rounds ask clock 10 (r, d, w) = None"
    using signed_out_rounds [OF out assms(2), of ask clock 10 w] by (metis not_add_less2 option.exhaust)
  moreover have "live_round ask clock visible (snd (miss SignedOutFault r), d0, w0) = None"
    by (simp add: live_round_def tick_def)
  ultimately show ?thesis
    using assms(1) out signed_out_round [OF _ out, of ask clock visible r w]
    by (auto simp: guarded_def reload_def)
qed

definition quiet_page :: dashboard where
  "quiet_page = \<lparr>dv_filter = default_filter, dv_cursor = None, dv_selected = no_selection, dv_page = Loading,
     dv_summary = Loading, dv_capabilities = Loading, dv_now = 0, dv_syncing = False,
     dv_connection = SignedOut, dv_refreshed_at = None, dv_reloads = 0\<rparr>"

theorem refresh_is_paced_witness:
  "Poll \<in> set (steps_of (replicate 10 (Ticked True False)) new_refresh) \<or>
   Reload \<in> set (steps_of (replicate 10 (Ticked True False)) new_refresh)"
  using refresh_is_paced [of new_refresh "[]" "replicate 10 (Ticked True False)"]
  by (simp add: new_refresh_def ticks_of_def)

theorem line_reads_the_polls_witness:
  "refresh_connection (fold take_in [Missed Unreachable, Missed Unreachable, Missed Unreachable] new_refresh) =
     Disconnected"
  using line_reads_the_polls [of "[Missed Unreachable, Missed Unreachable, Missed Unreachable]"] by simp

theorem signed_out_page_asks_nothing_witness:
  "live_rounds (\<lambda>s. (Inr \<lparr>rv_projection = 1, rv_pull_requests = 1\<rparr>, s)) (\<lambda>_. 0) 10
     (new_refresh, quiet_page, ()) = None"
proof -
  have "dv_connection quiet_page = SignedOut" "paced new_refresh"
    by (simp_all add: quiet_page_def paced_def new_refresh_def)
  then show ?thesis
    by (rule signed_out_page_asks_nothing [THEN conjunct2, THEN conjunct2, THEN conjunct2, THEN conjunct1])
qed

end
