(* ===== verification/Loops.thy ===== *)
theory Loops
  imports Main
begin

text \<open>
  Loops that may not end: \<open>loop\<close> repeats a step until it gives a result, \<open>None\<close> when it never
  does. A step either ends with a result or leaves the state of the next round.
\<close>

partial_function (option) loop :: "('s \<Rightarrow> 'r + 's) \<Rightarrow> 's \<Rightarrow> 'r option" where
  "loop step s = (case step s of Inl r \<Rightarrow> Some r | Inr s' \<Rightarrow> loop step s')"

lemma loop_ends: "step s = Inl r \<Longrightarrow> loop step s = Some r"
  by (subst loop.simps) simp

lemma loop_goes_on: "step s = Inr s' \<Longrightarrow> loop step s = loop step s'"
  by (subst loop.simps) simp

text \<open>The state after a number of rounds, while none of them ended the loop.\<close>

fun rounds :: "('s \<Rightarrow> 'r + 's) \<Rightarrow> nat \<Rightarrow> 's \<Rightarrow> 's option" where
  "rounds step 0 s = Some s"
| "rounds step (Suc n) s = (case step s of Inl _ \<Rightarrow> None | Inr s' \<Rightarrow> rounds step n s')"

lemma loop_Some_rounds:
  assumes "loop step s = Some r"
  shows "\<exists>n s'. rounds step n s = Some s' \<and> step s' = Inl r"
proof (rule loop.raw_induct [of "\<lambda>step s r. \<exists>n s'. rounds step n s = Some s' \<and> step s' = Inl r", OF _ assms])
  fix rec step s r
  assume IH: "\<And>step s r. rec step s = Some r \<Longrightarrow> \<exists>n s'. rounds step n s = Some s' \<and> step s' = Inl r"
    and run: "(case step s of Inl r \<Rightarrow> Some r | Inr s' \<Rightarrow> rec step s') = Some r"
  show "\<exists>n s'. rounds step n s = Some s' \<and> step s' = Inl r"
  proof (cases "step s")
    case (Inl q)
    with run show ?thesis by (intro exI [of _ 0] exI [of _ s]) simp
  next
    case (Inr s')
    with run IH obtain n t where "rounds step n s' = Some t" "step t = Inl r" by fastforce
    with Inr show ?thesis by (intro exI [of _ "Suc n"] exI [of _ t]) simp
  qed
qed

lemma rounds_loop: "rounds step n s = Some s' \<Longrightarrow> step s' = Inl r \<Longrightarrow> loop step s = Some r"
proof (induction n arbitrary: s)
  case 0
  then show ?case by (simp add: loop_ends)
next
  case (Suc n)
  then show ?case by (cases "step s") (auto simp: loop_goes_on)
qed

lemma loop_iff: "loop step s = Some r \<longleftrightarrow> (\<exists>n s'. rounds step n s = Some s' \<and> step s' = Inl r)"
  using loop_Some_rounds rounds_loop by metis

text \<open>What every round keeps holds where the loop ends.\<close>

lemma loop_keeps:
  assumes "loop step s = Some r" and "I s" and "\<And>s s'. I s \<Longrightarrow> step s = Inr s' \<Longrightarrow> I s'"
  shows "\<exists>s'. I s' \<and> step s' = Inl r"
proof -
  obtain n s' where "rounds step n s = Some s'" "step s' = Inl r"
    using loop_Some_rounds [OF assms(1)] by blast
  moreover have "rounds step n s = Some s' \<Longrightarrow> I s \<Longrightarrow> I s'"
    by (induction n arbitrary: s) (auto intro: assms(3) split: sum.splits)
  ultimately show ?thesis using assms(2) by blast
qed

end
