(* ===== verification/Ui_Follow.thy ===== *)
theory Ui_Follow
  imports Ui_State Loops
begin

text \<open>
  Following a batch (\<^verbatim>\<open>apps/web/src/ui/batch.rs\<close>): what the dashboard knows of it, submitting
  it, and polling it to its end. The server is a gateway, a record of the calls the follow makes
  on a state of its own; the page is the state beside it, which the reports of the follow act on.
\<close>

definition SUBMIT_ATTEMPTS :: nat where "SUBMIT_ATTEMPTS = 5"
definition ATTACH_TIMEOUT :: u64 where "ATTACH_TIMEOUT = 30"
definition ATTACH_LIMIT :: u32 where "ATTACH_LIMIT = 30"
definition WAITING_NOTICE_AFTER :: u64 where "WAITING_NOTICE_AFTER = 60"

section \<open>What is known of the batch\<close>

datatype listing = Unasked | Unreadable | Unlisted | ListedRunning running_batch

fun listing_action :: "listing \<Rightarrow> bulk_action_kind option" where
  "listing_action (ListedRunning b) = Some (rb_action b)"
| "listing_action _ = None"

record followed =
  fo_batch_id :: string
  fo_progress :: "batch_progress option"
  fo_heard :: bool
  fo_since :: u64
  fo_trouble :: "fault option"
  fo_listing :: listing

definition followed_queued :: "string \<Rightarrow> bulk_action_kind \<Rightarrow> pr_target list \<Rightarrow> u64 \<Rightarrow> followed" where
  "followed_queued batch_id action targets now =
     \<lparr>fo_batch_id = batch_id, fo_progress = Some (queued batch_id action targets), fo_heard = False,
      fo_since = now, fo_trouble = None, fo_listing = Unasked\<rparr>"

definition followed_attaching :: "string \<Rightarrow> u64 \<Rightarrow> followed" where
  "followed_attaching batch_id now =
     \<lparr>fo_batch_id = batch_id, fo_progress = None, fo_heard = False, fo_since = now, fo_trouble = None,
      fo_listing = Unasked\<rparr>"

definition unchanged_for :: "followed \<Rightarrow> u64 \<Rightarrow> u64" where
  "unchanged_for F now = sat_sub now (fo_since F)"

definition follow_completed :: "followed \<Rightarrow> bool" where
  "follow_completed F = (case fo_progress F of None \<Rightarrow> False | Some p \<Rightarrow> bp_completed p)"

definition stands_still :: "followed \<Rightarrow> u64 \<Rightarrow> bool" where
  "stands_still F now \<longleftrightarrow>
     fo_progress F \<noteq> None \<and> \<not> follow_completed F \<and> WAITING_NOTICE_AFTER \<le> unchanged_for F now"

definition follow_signed_out :: "followed \<Rightarrow> bool" where
  "follow_signed_out F \<longleftrightarrow> fo_trouble F = Some SignedOutFault"

text \<open>Each of the two says whether it was news.\<close>

definition hear :: "batch_progress \<Rightarrow> u64 \<Rightarrow> followed \<Rightarrow> bool \<times> followed" where
  "hear progress now F =
     (if fo_heard F \<and> fo_progress F = Some progress then (False, F)
      else (True, F\<lparr>fo_progress := Some progress, fo_heard := True, fo_since := now\<rparr>))"

definition answered :: "fault option \<Rightarrow> followed \<Rightarrow> bool \<times> followed" where
  "answered trouble F = (if fo_trouble F = trouble then (False, F) else (True, F\<lparr>fo_trouble := trouble\<rparr>))"

definition item_key :: "target_progress \<Rightarrow> pr_key" where
  "item_key item = target_key (tp_target item)"

definition leave_out :: "pr_key list \<Rightarrow> followed \<Rightarrow> followed" where
  "leave_out keys F =
     (if fo_heard F then F
      else
        (case fo_progress F of
           None \<Rightarrow> F
         | Some p \<Rightarrow>
             F\<lparr>fo_progress := Some (p\<lparr>bp_targets :=
                filter (\<lambda>item. item_key item \<notin> set keys) (bp_targets p)\<rparr>)\<rparr>))"

definition left_out_of :: "batch_progress \<Rightarrow> followed \<Rightarrow> pr_key list" where
  "left_out_of progress F =
     (case fo_progress F of
        None \<Rightarrow> []
      | Some mine \<Rightarrow>
          if fo_heard F then []
          else filter (\<lambda>key. \<not> (\<exists>item\<in>set (bp_targets progress). item_key item = key))
                 (map item_key (bp_targets mine)))"

section \<open>The server as the follow sees it\<close>

record 'g batch_gateway =
  bg_progress :: "('g, fault, batch_progress option) eff"
  bg_tick :: "'g \<Rightarrow> 'g"
  bg_now :: "'g \<Rightarrow> u64"

record 'g submit_gateway = "'g batch_gateway" +
  sg_submit :: "('g, fault, batch_receipt) eff"

record 'g attach_gateway = "'g batch_gateway" +
  ag_projected :: "('g, fault, projected_batch option) eff"

datatype batch_outcome =
    BatchCompleted batch_progress
  | NotSubmitted fault
  | UnknownBatch
  | FollowSignedOut

section \<open>Polling\<close>

text \<open>
  The loop's state: what is known, whether Restate is known to have the batch, the empty polls
  so far, and the gateway's and the page's.
\<close>

type_synonym ('g, 'p) poll_state = "followed \<times> bool \<times> u32 \<times> 'g \<times> 'p"

definition poll_round ::
    "('g, 'm) batch_gateway_scheme \<Rightarrow> (followed \<Rightarrow> 'p \<Rightarrow> 'p) \<Rightarrow> ('g, 'p) poll_state \<Rightarrow>
     (batch_outcome \<times> 'g \<times> 'p) + ('g, 'p) poll_state" where
  "poll_round G report = (\<lambda>(F, known, empty_polls, g, p).
     case bg_progress G (bg_tick G g) of
       (answer, g') \<Rightarrow>
         (case answered (case answer of Inl f \<Rightarrow> Some f | Inr _ \<Rightarrow> None) F of
            (changed, F1) \<Rightarrow>
              let gave_up = (answer = Inr None \<and> \<not> known \<and> empty_polls + 1 = ATTACH_LIMIT)
              in if gave_up then Inl (UnknownBatch, g', p)
                 else
                   let (changed', F2) =
                         (case answer of
                            Inr (Some progress) \<Rightarrow>
                              (case hear progress (bg_now G g') F1 of (news, F2) \<Rightarrow> (changed \<or> news, F2))
                          | _ \<Rightarrow> (changed, F1));
                       known' = (case answer of Inr (Some _) \<Rightarrow> True | _ \<Rightarrow> known);
                       empty' = (if answer = Inr None \<and> \<not> known then empty_polls + 1 else empty_polls);
                       p' = (if changed' then report F2 p else p)
                   in if follow_signed_out F2 then Inl (FollowSignedOut, g', p')
                      else
                        (case fo_progress F2 of
                           Some progress \<Rightarrow>
                             if bp_completed progress then Inl (BatchCompleted progress, g', p')
                             else Inr (F2, known', empty', g', p')
                         | None \<Rightarrow> Inr (F2, known', empty', g', p'))))"

definition poll_batch ::
    "('g, 'm) batch_gateway_scheme \<Rightarrow> (followed \<Rightarrow> 'p \<Rightarrow> 'p) \<Rightarrow> followed \<Rightarrow> bool \<Rightarrow> 'g \<times> 'p \<Rightarrow>
     (batch_outcome \<times> 'g \<times> 'p) option" where
  "poll_batch G report F known = (\<lambda>(g, p). loop (poll_round G report) (F, known, 0, g, p))"

section \<open>Submitting\<close>

datatype taken = Accepted batch_receipt | Already "batch_progress option"

text \<open>
  The attempt at hand, counted from one; the count never passes \<open>SUBMIT_ATTEMPTS\<close>, so the loop's
  test for equality is the test here.
\<close>

function submit_from :: "('g, 'm) submit_gateway_scheme \<Rightarrow> nat \<Rightarrow> ('g, fault, taken) eff" where
  "submit_from G attempt g =
     (case sg_submit G g of
        (Inr receipt, g1) \<Rightarrow>
          if attempt = 1 then (Inr (Accepted receipt), g1)
          else
            (case bg_progress G g1 of
               (Inl _, g2) \<Rightarrow> (Inr (Already None), g2)
             | (Inr progress, g2) \<Rightarrow> (Inr (Already progress), g2))
      | (Inl error, g1) \<Rightarrow>
          if error = SignedOutFault then (Inl SignedOutFault, g1)
          else
            (case bg_progress G g1 of
               (Inr (Some progress), g2) \<Rightarrow> (Inr (Already (Some progress)), g2)
             | (found, g2) \<Rightarrow>
                 if found = Inl SignedOutFault then (Inl SignedOutFault, g2)
                 else if SUBMIT_ATTEMPTS \<le> attempt then (Inl error, g2)
                 else submit_from G (attempt + 1) (bg_tick G g2)))"
  by pat_completeness auto
termination by (relation "measure (\<lambda>(_, attempt, _). SUBMIT_ATTEMPTS - attempt)") auto

section \<open>The two follows\<close>

text \<open>
  What a submission leads to: the end of the follow, or the first state the polls start from, the
  page having been told of the receipt.
\<close>

definition followed_start ::
    "('g, 'm) submit_gateway_scheme \<Rightarrow> (followed \<Rightarrow> 'p \<Rightarrow> 'p) \<Rightarrow> (batch_receipt \<Rightarrow> 'p \<Rightarrow> 'p) \<Rightarrow> followed \<Rightarrow>
     'g \<times> 'p \<Rightarrow> (batch_outcome \<times> 'g \<times> 'p) + ('g, 'p) poll_state" where
  "followed_start G report on_accepted F = (\<lambda>(g, p).
     case submit_from G 1 g of
       (Inl error, g1) \<Rightarrow> Inl (NotSubmitted error, g1, p)
     | (Inr (Accepted receipt), g1) \<Rightarrow>
         (let F1 = (if br_left_out receipt \<noteq> [] then leave_out (br_left_out receipt) F else F);
              p1 = (if br_left_out receipt \<noteq> [] then report F1 p else p)
          in Inr (F1, True, 0, g1, on_accepted receipt p1))
     | (Inr (Already progress), g1) \<Rightarrow>
         (let receipt = \<lparr>br_left_out = (case progress of None \<Rightarrow> [] | Some q \<Rightarrow> left_out_of q F)\<rparr>;
              (F1, p1) =
                (case progress of
                   None \<Rightarrow> (F, p)
                 | Some q \<Rightarrow>
                     (case hear q (bg_now G g1) F of (news, F1) \<Rightarrow> (F1, if news then report F1 p else p)));
              p2 = on_accepted receipt p1
          in case fo_progress F1 of
               Some q \<Rightarrow> if bp_completed q then Inl (BatchCompleted q, g1, p2) else Inr (F1, True, 0, g1, p2)
             | None \<Rightarrow> Inr (F1, True, 0, g1, p2)))"

definition run_followed ::
    "('g, 'm) submit_gateway_scheme \<Rightarrow> (followed \<Rightarrow> 'p \<Rightarrow> 'p) \<Rightarrow> (batch_receipt \<Rightarrow> 'p \<Rightarrow> 'p) \<Rightarrow> followed \<Rightarrow>
     'g \<times> 'p \<Rightarrow> (batch_outcome \<times> 'g \<times> 'p) option" where
  "run_followed G report on_accepted F s =
     (case followed_start G report on_accepted F s of
        Inl ended \<Rightarrow> Some ended
      | Inr (F1, known, _, g1, p1) \<Rightarrow> poll_batch G report F1 known (g1, p1))"

lemma run_followed_cases:
  "run_followed G report on_accepted F (g, p) =
     (case submit_from G 1 g of
          (Inl error, g1) \<Rightarrow> Some (NotSubmitted error, g1, p)
        | (Inr (Accepted receipt), g1) \<Rightarrow>
            (let F1 = (if br_left_out receipt \<noteq> [] then leave_out (br_left_out receipt) F else F);
                 p1 = (if br_left_out receipt \<noteq> [] then report F1 p else p)
             in poll_batch G report F1 True (g1, on_accepted receipt p1))
        | (Inr (Already progress), g1) \<Rightarrow>
            (let receipt = \<lparr>br_left_out = (case progress of None \<Rightarrow> [] | Some q \<Rightarrow> left_out_of q F)\<rparr>;
                 (F1, p1) =
                   (case progress of
                      None \<Rightarrow> (F, p)
                    | Some q \<Rightarrow>
                        (case hear q (bg_now G g1) F of (news, F1) \<Rightarrow> (F1, if news then report F1 p else p)));
                 p2 = on_accepted receipt p1
             in case fo_progress F1 of
                  Some q \<Rightarrow> if bp_completed q then Some (BatchCompleted q, g1, p2) else poll_batch G report F1 True (g1, p2)
                | None \<Rightarrow> poll_batch G report F1 True (g1, p2)))"
proof -
  obtain r g1 where sub: "submit_from G 1 g = (r, g1)" by fastforce
  show ?thesis
  proof (cases r)
    case (Inl f)
    with sub show ?thesis by (simp add: run_followed_def followed_start_def)
  next
    case (Inr taken)
    show ?thesis
    proof (cases taken)
      case (Accepted receipt)
      with sub Inr show ?thesis by (simp add: run_followed_def followed_start_def Let_def)
    next
      case (Already progress)
      obtain F1 p1 where heard: "(case progress of None \<Rightarrow> (F, p) | Some q \<Rightarrow>
          (case hear q (bg_now G g1) F of (news, F1) \<Rightarrow> (F1, if news then report F1 p else p))) = (F1, p1)"
        by fastforce
      with sub Inr Already show ?thesis
        by (cases "fo_progress F1") (simp_all add: run_followed_def followed_start_def Let_def)
    qed
  qed
qed

definition follow_batch ::
    "('g, 'm) attach_gateway_scheme \<Rightarrow> (followed \<Rightarrow> 'p \<Rightarrow> 'p) \<Rightarrow> followed \<Rightarrow> 'g \<times> 'p \<Rightarrow>
     (batch_outcome \<times> 'g \<times> 'p) option" where
  "follow_batch G report F = (\<lambda>(g, p).
     case ag_projected G g of
       (Inr (Some (BatchFinished r)), g1) \<Rightarrow>
         (let progress = progress_of_record r; F1 = snd (hear progress (bg_now G g1) F)
          in Some (BatchCompleted progress, g1, report F1 p))
     | (Inr (Some (BatchRunning b)), g1) \<Rightarrow>
         (let F1 = F\<lparr>fo_listing := ListedRunning b\<rparr> in poll_batch G report F1 True (g1, report F1 p))
     | (Inr None, g1) \<Rightarrow>
         (let F1 = F\<lparr>fo_listing := Unlisted\<rparr> in poll_batch G report F1 False (g1, report F1 p))
     | (Inl f, g1) \<Rightarrow>
         (let F1 = snd (answered (Some f) (F\<lparr>fo_listing := Unreadable\<rparr>)); p1 = report F1 p
          in if follow_signed_out F1 then Some (FollowSignedOut, g1, p1)
             else poll_batch G report F1 False (g1, p1)))"

section \<open>Through the server functions\<close>

text \<open>
  The line between the browser and the server: a call may be refused or lost on the way out, in
  which case its body does not run, or its answer on the way back. While the follow waits, the
  page and the deployment go on.
\<close>

record 'w browser_line =
  bl_out :: "'w \<Rightarrow> server_fn_error option \<times> 'w"
  bl_return :: "'w \<Rightarrow> server_fn_error option \<times> 'w"
  bl_wait :: "dashboard \<times> 'w \<Rightarrow> dashboard \<times> 'w"
  bl_clock :: "dashboard \<times> 'w \<Rightarrow> u64"

definition over_line :: "('w, 'm) browser_line_scheme \<Rightarrow> ('w, server_fn_error, 'a) eff \<Rightarrow> ('w, server_fn_error, 'a) eff" where
  "over_line K body w =
     (case bl_out K w of
        (Some e, w1) \<Rightarrow> (Inl e, w1)
      | (None, w1) \<Rightarrow>
          (case body w1 of
             (r, w2) \<Rightarrow> (case bl_return K w2 of (Some e, w3) \<Rightarrow> (Inl e, w3) | (None, w3) \<Rightarrow> (r, w3))))"

definition ask_server :: "('w, 'm) browser_line_scheme \<Rightarrow> ('w, api_error, 'a) eff \<Rightarrow> (dashboard \<times> 'w, fault, 'a) eff" where
  "ask_server K body =
     guarded (\<lambda>(d, w). case over_line K (server_function body) w of (r, w') \<Rightarrow> (r, (d, w')))"

definition server_follow ::
    "('g, 'm) web_world_scheme browser_line \<Rightarrow> ('g, 'v) server_state \<Rightarrow> string \<Rightarrow>
     (dashboard \<times> ('g, 'm) web_world_scheme) attach_gateway" where
  "server_follow K S batch_id =
     \<lparr>bg_progress = ask_server K (load_batch_progress_in S batch_id), bg_tick = bl_wait K,
      bg_now = bl_clock K, ag_projected = ask_server K (load_batch_projection_in S batch_id)\<rparr>"

text \<open>\<open>user\<close> is who the edge let the page's requests through as.\<close>

definition server_batch ::
    "('g, 'm) web_world_scheme browser_line \<Rightarrow> ('g, 'v) server_state \<Rightarrow> string \<Rightarrow> string \<Rightarrow>
     bulk_action_kind \<Rightarrow> pr_target list \<Rightarrow> string option \<Rightarrow>
     (dashboard \<times> ('g, 'm) web_world_scheme) submit_gateway" where
  "server_batch K S user batch_id action targets retried_from =
     \<lparr>bg_progress = bg_progress (server_follow K S batch_id), bg_tick = bg_tick (server_follow K S batch_id),
      bg_now = bg_now (server_follow K S batch_id),
      sg_submit = ask_server K (submit_batch_in S user batch_id action (map submit_target targets) retried_from)\<rparr>"

end
