(* ===== verification/Ui_Retry.thy ===== *)
theory Ui_Retry
  imports Ui_Follow
begin

text \<open>
  A manual sync of one pull request followed to its end (\<^verbatim>\<open>apps/web/src/ui/pr_sync.rs\<close>) and the
  retry of what a batch rejected, which runs one per target (\<^verbatim>\<open>ui/retry.rs\<close>).
\<close>

section \<open>One sync\<close>

definition SYNC_POLLS :: nat where "SYNC_POLLS = 60"

record 'g sync_gateway =
  sy_request :: "('g, fault, string) eff"
  sy_status :: "('g, fault, pr_state option) eff"
  sy_projection :: "('g, fault, pr_record option) eff"
  sy_tick :: "'g \<Rightarrow> 'g"

datatype sync_failure = NotQueued fault | Unconfirmed fault | TimedOut

fun failure_signed_out :: "sync_failure \<Rightarrow> bool" where
  "failure_signed_out (NotQueued f) = (f = SignedOutFault)"
| "failure_signed_out (Unconfirmed f) = (f = SignedOutFault)"
| "failure_signed_out TimedOut = False"

fun display_sync_failure :: "sync_failure \<Rightarrow> string" where
  "display_sync_failure (NotQueued f) = display_fault f"
| "display_sync_failure (Unconfirmed f) = display_fault f"
| "display_sync_failure TimedOut = ''the sync did not complete within '' @ show_nat 60 @ '' seconds''"

definition sync_id_completed :: "pr_state option \<Rightarrow> string \<Rightarrow> bool" where
  "sync_id_completed state completion_id =
     (case state of None \<Rightarrow> False | Some st \<Rightarrow> completion_id \<in> set (ps_completed_sync_ids st))"

text \<open>The polls left, and the last one's fault.\<close>

fun sync_polls ::
    "('g, 'm) sync_gateway_scheme \<Rightarrow> string \<Rightarrow> nat \<Rightarrow> fault option \<Rightarrow> ('g, sync_failure, pr_record option) eff" where
  "sync_polls G completion_id 0 last_fault g =
     (Inl (case last_fault of None \<Rightarrow> TimedOut | Some f \<Rightarrow> Unconfirmed f), g)"
| "sync_polls G completion_id (Suc n) last_fault g =
     (let noted = (\<lambda>f g'. if f = SignedOutFault then (Inl (Unconfirmed f), g')
                          else sync_polls G completion_id n (Some f) g')
      in case sy_status G (sy_tick G g) of
           (Inl f, g2) \<Rightarrow> noted f g2
         | (Inr state, g2) \<Rightarrow>
             if sync_id_completed state completion_id
             then (case sy_projection G g2 of (Inr row, g3) \<Rightarrow> (Inr row, g3) | (Inl f, g3) \<Rightarrow> noted f g3)
             else
               (case sy_projection G g2 of
                  (Inr None, g3) \<Rightarrow> (Inr None, g3)
                | (Inr (Some _), g3) \<Rightarrow> sync_polls G completion_id n None g3
                | (Inl f, g3) \<Rightarrow> noted f g3))"

definition sync_pr ::
    "('g, 'm) sync_gateway_scheme \<Rightarrow> ('p \<Rightarrow> 'p) \<Rightarrow> 'g \<times> 'p \<Rightarrow>
     (sync_failure + pr_record option) \<times> 'g \<times> 'p" where
  "sync_pr G on_queued = (\<lambda>(g, p).
     case sy_request G g of
       (Inl f, g1) \<Rightarrow> (Inl (NotQueued f), g1, p)
     | (Inr completion_id, g1) \<Rightarrow>
         (case sync_polls G completion_id SYNC_POLLS None g1 of (r, g2) \<Rightarrow> (r, g2, on_queued p)))"

definition server_sync ::
    "('g, 'm) web_world_scheme browser_line \<Rightarrow> ('g, 'v) server_state \<Rightarrow> pr_key \<Rightarrow>
     (dashboard \<times> ('g, 'm) web_world_scheme) sync_gateway" where
  "server_sync K S key =
     \<lparr>sy_request = ask_server K (request_pr_sync_in S key), sy_status = ask_server K (load_pr_status_in S key),
      sy_projection = ask_server K (load_pr_projection_in S key), sy_tick = bl_wait K\<rparr>"

section \<open>What a retry leaves out\<close>

datatype left_out_reason =
    NoLongerOpen
  | WouldBeRejectedAgain reject_reason
  | CouldNotRefresh string

record left_out =
  lo_target :: pr_target
  lo_why :: left_out_reason

definition no_longer_open :: "pr_target \<Rightarrow> left_out" where
  "no_longer_open target = \<lparr>lo_target = target, lo_why = NoLongerOpen\<rparr>"

fun display_left_out_reason :: "left_out_reason \<Rightarrow> string" where
  "display_left_out_reason NoLongerOpen = ''is no longer open''"
| "display_left_out_reason (WouldBeRejectedAgain reason) =
     ''would be rejected again ('' @ display_reject reason @ '')''"
| "display_left_out_reason (CouldNotRefresh e) = ''could not be refreshed ('' @ e @ '')''"

definition left_out_notice :: "string \<Rightarrow> left_out list \<Rightarrow> string option" where
  "left_out_notice subject left_out =
     (if left_out = [] then None
      else Some (''Left out of '' @ subject @ '': '' @
        join ''; '' (map (\<lambda>l. tg_owner (lo_target l) @ ''/'' @ tg_repo (lo_target l) @ ''#'' @
          show_u64 (tg_number (lo_target l)) @ '' '' @ display_left_out_reason (lo_why l)) left_out) @ ''.''))"

record refreshed =
  re_batch_id :: string
  re_action :: bulk_action_kind
  re_rows :: "pr_record list"
  re_left_out :: "left_out list"

definition refreshed_notice :: "refreshed \<Rightarrow> string option" where
  "refreshed_notice r = left_out_notice ''the retry'' (re_left_out r)"

definition refreshed_retry :: "refreshed \<Rightarrow> pending_action option" where
  "refreshed_retry r =
     (if re_rows r = [] then None
      else Some \<lparr>pa_action = re_action r, pa_rows = re_rows r, pa_retried_from = Some (re_batch_id r)\<rparr>)"

fun worth_retrying :: "reject_reason \<Rightarrow> bool" where
  "worth_retrying (StaleSha _ _) = True"
| "worth_retrying NotMergeable = True"
| "worth_retrying Forbidden = False"
| "worth_retrying MergeMethodDisallowed = False"
| "worth_retrying NotFound = False"
| "worth_retrying NoUserToken = False"

definition can_retry :: "batch_progress \<Rightarrow> bool" where
  "can_retry progress \<longleftrightarrow>
     bp_completed progress \<and> (\<exists>(_, reason)\<in>set (rejected_targets progress). worth_retrying reason)"

section \<open>Refreshing what was rejected\<close>

fun sort_rejected ::
    "(pr_target \<times> reject_reason) list \<Rightarrow> left_out list \<Rightarrow> pr_target list \<Rightarrow> left_out list \<times> pr_target list" where
  "sort_rejected [] left_out to_refresh = (left_out, to_refresh)"
| "sort_rejected ((target, reason) # rest) left_out to_refresh =
     (if reason = NotFound then sort_rejected rest (left_out @ [no_longer_open target]) to_refresh
      else if \<not> worth_retrying reason
      then sort_rejected rest (left_out @ [\<lparr>lo_target = target, lo_why = WouldBeRejectedAgain reason\<rparr>]) to_refresh
      else sort_rejected rest left_out (to_refresh @ [target]))"

type_synonym refresh_answer = "sync_failure + pr_record option"

text \<open>The answers as they land; the first refusal of the credentials ends the retry.\<close>

fun land ::
    "(nat \<times> pr_target \<times> refresh_answer) list \<Rightarrow> (nat \<times> pr_target \<times> refresh_answer) list \<Rightarrow>
     (nat \<times> pr_target \<times> refresh_answer) list option" where
  "land [] landed = Some landed"
| "land ((order, target, answer) # rest) landed =
     (case answer of
        Inl failure \<Rightarrow>
          if failure_signed_out failure then None else land rest (landed @ [(order, target, answer)])
      | Inr _ \<Rightarrow> land rest (landed @ [(order, target, answer)]))"

fun sort_refreshed ::
    "(nat \<times> pr_target \<times> refresh_answer) list \<Rightarrow> pr_record list \<Rightarrow> left_out list \<Rightarrow> pr_record list \<times> left_out list" where
  "sort_refreshed [] rows left_out = (rows, left_out)"
| "sort_refreshed ((_, target, answer) # rest) rows left_out =
     (case answer of
        Inr (Some row) \<Rightarrow> sort_refreshed rest (rows @ [row]) left_out
      | Inr None \<Rightarrow> sort_refreshed rest rows (left_out @ [no_longer_open target])
      | Inl failure \<Rightarrow> sort_refreshed rest rows
          (left_out @ [\<lparr>lo_target = target, lo_why = CouldNotRefresh (display_sync_failure failure)\<rparr>]))"

text \<open>
  \<open>refresh\<close> is what the sync of each target comes to; they run at once, and \<open>arrival\<close> is the
  order their answers land in, by the target's place among those refreshed. \<open>None\<close> is the
  retry given up.
\<close>

definition refresh_rejected ::
    "(pr_target \<Rightarrow> refresh_answer) \<Rightarrow> nat list \<Rightarrow> batch_progress \<Rightarrow> refreshed option" where
  "refresh_rejected refresh arrival progress =
     (case sort_rejected (rejected_targets progress) [] [] of
        (left_out, to_refresh) \<Rightarrow>
          (case land (map (\<lambda>i. (i, to_refresh ! i, refresh (to_refresh ! i))) arrival) [] of
             None \<Rightarrow> None
           | Some landed \<Rightarrow>
               (case sort_refreshed (sort_key fst landed) [] left_out of
                  (rows, left_out) \<Rightarrow>
                    Some \<lparr>re_batch_id = bp_batch_id progress, re_action = bp_action progress,
                          re_rows = rows, re_left_out = left_out\<rparr>)))"

end
