(* ===== verification/Ui_Retry_Contract.thy ===== *)
theory Ui_Retry_Contract
  imports Ui_Retry "HOL-Library.Multiset"
begin

text \<open>
  What a sync and a retry promise: a sync is polled for a bounded time and hands over a row only
  once its completion was recorded; a retry is the same whatever order its answers land in, and
  every rejected target is either queued again or named with why it is not.
\<close>

section \<open>One sync\<close>

text \<open>A gateway that keeps the answers to the status polls made through it.\<close>

type_synonym status_answer = "fault + pr_state option"

definition recording :: "('g, 'm) sync_gateway_scheme \<Rightarrow> ('g \<times> status_answer list) sync_gateway" where
  "recording G =
     \<lparr>sy_request = (\<lambda>(g, log). case sy_request G g of (r, g') \<Rightarrow> (r, (g', log))),
      sy_status = (\<lambda>(g, log). case sy_status G g of (r, g') \<Rightarrow> (r, (g', log @ [r]))),
      sy_projection = (\<lambda>(g, log). case sy_projection G g of (r, g') \<Rightarrow> (r, (g', log))),
      sy_tick = (\<lambda>(g, log). (sy_tick G g, log))\<rparr>"

text \<open>What the answers kept say of a sync's end.\<close>

definition sync_end :: "string \<Rightarrow> nat \<Rightarrow> status_answer list \<Rightarrow> sync_failure + pr_record option \<Rightarrow> bool" where
  "sync_end completion_id polls log r \<longleftrightarrow> length log \<le> polls \<and>
     (case r of
        Inr (Some _) \<Rightarrow> (\<exists>before state. log = before @ [Inr state] \<and> sync_id_completed state completion_id)
      | Inr None \<Rightarrow> True
      | Inl f \<Rightarrow> failure_signed_out f \<or> length log = polls)"

lemma sync_end_cons: "sync_end i n log r \<Longrightarrow> sync_end i (Suc n) (a # log) r"
  by (auto simp: sync_end_def split: sum.splits option.splits intro: exI [of _ "a # _"])

lemma sync_polls_recorded:
  "\<exists>r g' more. sync_polls (recording G) i n fault (g, log) = (r, (g', log @ more)) \<and>
     sync_polls G i n fault g = (r, g') \<and> (fault \<noteq> Some SignedOutFault \<longrightarrow> sync_end i n more r)"
proof (induction n arbitrary: fault g log)
  case 0
  show ?case
    by (intro exI [of _ "Inl (case fault of None \<Rightarrow> TimedOut | Some f \<Rightarrow> Unconfirmed f)"] exI [of _ g]
        exI [of _ "[]"]) (auto simp: sync_end_def split: option.splits)
next
  case (Suc n)
  obtain a g2 where status: "sy_status G (sy_tick G g) = (a, g2)" by fastforce
  obtain b g3 where row: "sy_projection G g2 = (b, g3)" by fastforce
  have go_on: ?case
    if rec: "sync_polls (recording G) i (Suc n) fault (g, log) = sync_polls (recording G) i n fault' (g', log @ [a])"
      "sync_polls G i (Suc n) fault g = sync_polls G i n fault' g'" and waits: "fault' \<noteq> Some SignedOutFault"
    for fault' g'
  proof -
    obtain r h more where "sync_polls (recording G) i n fault' (g', log @ [a]) = (r, (h, (log @ [a]) @ more))"
      "sync_polls G i n fault' g' = (r, h)" "sync_end i n more r"
      using Suc.IH [of fault' g' "log @ [a]"] waits by blast
    then show ?thesis using rec sync_end_cons [of i n more r a]
      by (intro exI [of _ r] exI [of _ h] exI [of _ "a # more"]) simp
  qed
  have stop: ?case
    if "sync_polls (recording G) i (Suc n) fault (g, log) = (r, (g', log @ [a]))"
      and "sync_polls G i (Suc n) fault g = (r, g')" and "sync_end i (Suc n) [a] r" for r g'
    using that by blast
  show ?case
  proof (cases a)
    case (Inl f)
    show ?thesis
    proof (cases "f = SignedOutFault")
      case True
      with Inl status show ?thesis
        by (intro stop [of "Inl (Unconfirmed f)" g2]) (auto simp: recording_def sync_end_def)
    next
      case False
      with Inl status show ?thesis by (intro go_on [of "Some f" g2]) (auto simp: recording_def)
    qed
  next
    case (Inr state)
    show ?thesis
    proof (cases b)
      case row_fault: (Inl f)
      show ?thesis
      proof (cases "f = SignedOutFault")
        case True
        with Inr row_fault status row show ?thesis
          by (intro stop [of "Inl (Unconfirmed f)" g3]) (auto simp: recording_def sync_end_def)
      next
        case False
        with Inr row_fault status row show ?thesis
          by (intro go_on [of "Some f" g3]) (auto simp: recording_def)
      qed
    next
      case found: (Inr found)
      show ?thesis
      proof (cases "sync_id_completed state i \<or> found = None")
        case True
        with Inr found status row show ?thesis
          by (intro stop [of "Inr found" g3]) (auto simp: recording_def sync_end_def split: option.splits)
      next
        case False
        with Inr found status row show ?thesis
          by (intro go_on [of None g3]) (auto simp: recording_def)
      qed
    qed
  qed
qed

text \<open>
  C30: A sync is polled at most sixty times; it hands over the row only once the last poll's
  answer holds the completion id the request was given, it fails only when the request did, when
  the credentials were refused, or when all sixty polls are spent, and the page hears that it was
  queued exactly when Restate took it.
\<close>

theorem syncs_are_bounded:
  "\<exists>r g' log. sync_pr (recording G) on_queued ((g, []), p) =
       (r, (g', log), if isl (fst (sy_request G g)) then p else on_queued p) \<and>
     fst (sync_pr G on_queued (g, p)) = r \<and>
     (case fst (sy_request G g) of
        Inl f \<Rightarrow> r = Inl (NotQueued f) \<and> log = []
      | Inr completion_id \<Rightarrow> length log \<le> 60 \<and>
          (case r of
             Inr (Some _) \<Rightarrow> (\<exists>before state. log = before @ [Inr state] \<and> sync_id_completed state completion_id)
           | Inr None \<Rightarrow> True
           | Inl f \<Rightarrow> failure_signed_out f \<or> length log = 60))"
proof -
  obtain a g1 where request: "sy_request G g = (a, g1)" by fastforce
  show ?thesis
  proof (cases a)
    case (Inl f)
    with request show ?thesis by (auto simp: sync_pr_def recording_def)
  next
    case (Inr completion_id)
    from sync_polls_recorded [of G completion_id 60 None g1 "[]"] obtain r g' more where
      "sync_polls (recording G) completion_id 60 None (g1, []) = (r, (g', more))"
      "sync_polls G completion_id 60 None g1 = (r, g')" "sync_end completion_id 60 more r" by auto
    moreover have "sy_request (recording G) (g, []) = (Inr completion_id, (g1, []))"
      using request Inr by (simp add: recording_def)
    ultimately show ?thesis using request Inr
      by (intro exI [of _ r] exI [of _ g'] exI [of _ more])
        (simp add: sync_pr_def SYNC_POLLS_def sync_end_def)
  qed
qed

section \<open>A retry\<close>

definition to_retry :: "batch_progress \<Rightarrow> pr_target list" where
  "to_retry progress = map fst (filter (\<lambda>(_, reason). worth_retrying reason) (rejected_targets progress))"

definition given_up :: "batch_progress \<Rightarrow> left_out list" where
  "given_up progress =
     map (\<lambda>(target, reason). if reason = NotFound then no_longer_open target
          else \<lparr>lo_target = target, lo_why = WouldBeRejectedAgain reason\<rparr>)
       (filter (\<lambda>(_, reason). \<not> worth_retrying reason) (rejected_targets progress))"

lemma sort_rejected_run:
  "sort_rejected rs left retry =
    (left @ map (\<lambda>(target, reason). if reason = NotFound then no_longer_open target
          else \<lparr>lo_target = target, lo_why = WouldBeRejectedAgain reason\<rparr>)
       (filter (\<lambda>(_, reason). \<not> worth_retrying reason) rs),
     retry @ map fst (filter (\<lambda>(_, reason). worth_retrying reason) rs))"
  by (induction rs arbitrary: left retry) auto

definition refused_answer :: "refresh_answer \<Rightarrow> bool" where
  "refused_answer a = (case a of Inl f \<Rightarrow> failure_signed_out f | Inr _ \<Rightarrow> False)"

lemma land_run:
  "land xs landed = (if \<exists>x\<in>set xs. refused_answer (snd (snd x)) then None else Some (landed @ xs))"
proof (induction xs arbitrary: landed)
  case Nil
  then show ?case by simp
next
  case (Cons x xs)
  obtain i t a where "x = (i, t, a)" by (cases x)
  with Cons show ?case by (cases a) (auto simp: refused_answer_def)
qed

definition row_of_answer :: "refresh_answer \<Rightarrow> pr_record option" where
  "row_of_answer a = (case a of Inr row \<Rightarrow> row | Inl _ \<Rightarrow> None)"

definition why_left :: "refresh_answer \<Rightarrow> left_out_reason" where
  "why_left a = (case a of Inl f \<Rightarrow> CouldNotRefresh (display_sync_failure f) | Inr _ \<Rightarrow> NoLongerOpen)"

lemma sort_refreshed_run:
  "sort_refreshed xs rows left =
    (rows @ List.map_filter (\<lambda>(_, a). row_of_answer a) (map snd xs),
     left @ map (\<lambda>(target, a). \<lparr>lo_target = target, lo_why = why_left a\<rparr>)
       (filter (\<lambda>(_, a). row_of_answer a = None) (map snd xs)))"
  by (induction xs arbitrary: rows left)
    (auto simp: row_of_answer_def why_left_def no_longer_open_def map_filter_simps split: sum.splits option.splits)

lemma sort_indexed: "sort_key fst (map (\<lambda>i. (i, h i)) is) = map (\<lambda>i. (i, h i)) (sort is)"
proof (induction "is")
  case Nil
  then show ?case by simp
next
  case (Cons i js)
  have "insort_key fst (i, h i) (map (\<lambda>i. (i, h i)) ks) = map (\<lambda>i. (i, h i)) (insort i ks)" for ks
    by (induction ks) auto
  with Cons show ?case by simp
qed

lemma sort_arrival: "mset arrival = mset [0..<n] \<Longrightarrow> sort arrival = [0..<n]"
  by (rule properties_for_sort) auto

text \<open>
  C25: Whatever order the answers land in, a retry is given up exactly when one of them refused
  the credentials, and otherwise queues the row of every rejected target that is worth retrying
  and still there, in the batch's order, and names each of the others with its reason, so that no
  rejected target is dropped or counted twice.
\<close>

theorem retry_accounts_for_rejections:
  assumes "mset arrival = mset [0..<length (to_retry progress)]"
  shows "refresh_rejected refresh arrival progress =
    (if \<exists>target\<in>set (to_retry progress). refused_answer (refresh target) then None
     else Some \<lparr>re_batch_id = bp_batch_id progress, re_action = bp_action progress,
       re_rows = List.map_filter (\<lambda>target. row_of_answer (refresh target)) (to_retry progress),
       re_left_out = given_up progress @
         map (\<lambda>target. \<lparr>lo_target = target, lo_why = why_left (refresh target)\<rparr>)
           (filter (\<lambda>target. row_of_answer (refresh target) = None) (to_retry progress))\<rparr>) \<and>
    (\<forall>r. refresh_rejected refresh arrival progress = Some r \<longrightarrow>
       length (re_rows r) + length (re_left_out r) = length (rejected_targets progress))"
proof -
  let ?ts = "to_retry progress"
  let ?f = "\<lambda>i. (i, ?ts ! i, refresh (?ts ! i))"
  have ids: "set arrival = {0..<length ?ts}" using arg_cong [OF assms, of set_mset] by simp
  have sorted: "sort_key fst (map ?f arrival) = map ?f [0..<length ?ts]"
    by (simp only: sort_indexed sort_arrival [OF assms])
  have pairs: "map snd (map ?f [0..<length ?ts]) = map (\<lambda>t. (t, refresh t)) ?ts"
    by (rule nth_equalityI) auto
  have "(\<lambda>x. snd (snd x)) ` set (map ?f arrival) = refresh ` set ?ts"
    using ids by (force simp: in_set_conv_nth)
  then have refused: "(\<exists>x\<in>set (map ?f arrival). refused_answer (snd (snd x))) \<longleftrightarrow>
      (\<exists>target\<in>set ?ts. refused_answer (refresh target))" by (metis (no_types, lifting) image_iff)
  have rows: "List.map_filter (\<lambda>(_, a). row_of_answer a) (map (\<lambda>t. (t, refresh t)) ts) =
      List.map_filter (\<lambda>target. row_of_answer (refresh target)) ts" for ts
    by (induction ts) (auto simp: map_filter_simps split: option.splits)
  have left: "map (\<lambda>(target, a). \<lparr>lo_target = target, lo_why = why_left a\<rparr>)
        (filter (\<lambda>(_, a). row_of_answer a = None) (map (\<lambda>t. (t, refresh t)) ts)) =
      map (\<lambda>target. \<lparr>lo_target = target, lo_why = why_left (refresh target)\<rparr>)
        (filter (\<lambda>target. row_of_answer (refresh target) = None) ts)" for ts
    by (induction ts) simp_all
  have counts: "length (List.map_filter (\<lambda>target. row_of_answer (refresh target)) ts) +
      length (filter (\<lambda>target. row_of_answer (refresh target) = None) ts) = length ts" for ts
    by (induction ts) (auto simp: map_filter_simps split: option.splits)
  have all: "length (given_up progress) + length ?ts = length (rejected_targets progress)"
    using sum_length_filter_compl [of "\<lambda>(_, reason). worth_retrying reason" "rejected_targets progress"]
    by (simp add: given_up_def to_retry_def case_prod_beta')
  have sorted_out: "sort_rejected (rejected_targets progress) [] [] = (given_up progress, ?ts)"
    by (simp add: sort_rejected_run given_up_def to_retry_def)
  show ?thesis
  proof (cases "\<exists>target\<in>set ?ts. refused_answer (refresh target)")
    case True
    with refused sorted_out show ?thesis by (simp add: refresh_rejected_def land_run)
  next
    case False
    have "land (map ?f arrival) [] = Some (map ?f arrival)" using False refused by (simp add: land_run)
    then have "refresh_rejected refresh arrival progress =
        Some \<lparr>re_batch_id = bp_batch_id progress, re_action = bp_action progress,
          re_rows = List.map_filter (\<lambda>target. row_of_answer (refresh target)) ?ts,
          re_left_out = given_up progress @
            map (\<lambda>target. \<lparr>lo_target = target, lo_why = why_left (refresh target)\<rparr>)
              (filter (\<lambda>target. row_of_answer (refresh target) = None) ?ts)\<rparr>"
      unfolding refresh_rejected_def sorted_out prod.case
      by (simp only: option.case sorted sort_refreshed_run pairs rows left prod.case append_Nil)
    with False counts [of ?ts] all show ?thesis by (simp del: map_map)
  qed
qed

section \<open>Witness\<close>

definition half_rejected :: batch_progress where
  "half_rejected = (queued ''b'' BkMerge [])\<lparr>bp_completed := True, bp_targets :=
     [\<lparr>tp_target = pr_target.make 1 ''o'' ''r'' 7 ''a'' [] [], tp_state = PRejected NotMergeable\<rparr>,
      \<lparr>tp_target = pr_target.make 1 ''o'' ''r'' 8 ''a'' [] [], tp_state = PRejected NotFound\<rparr>,
      \<lparr>tp_target = pr_target.make 1 ''o'' ''r'' 9 ''a'' [] [], tp_state = PRejected (StaleSha ''a'' ''b'')\<rparr>]\<rparr>"

theorem retry_accounts_for_rejections_witness:
  "map_option (\<lambda>r. length (re_rows r) + length (re_left_out r))
     (refresh_rejected (\<lambda>_. Inr None) [1, 0] half_rejected) = Some 3"
proof -
  have "length (to_retry half_rejected) = 2" and three: "length (rejected_targets half_rejected) = 3"
    by (simp_all add: to_retry_def rejected_targets_def half_rejected_def map_filter_simps)
  then have "mset [1, 0] = mset [0..<length (to_retry half_rejected)]"
    by (simp add: numeral_2_eq_2)
  note facts = retry_accounts_for_rejections [OF this, of "\<lambda>_. Inr None"]
  from facts [THEN conjunct1] obtain r where r: "refresh_rejected (\<lambda>_. Inr None) [1, 0] half_rejected = Some r"
    by (simp add: refused_answer_def)
  from facts [THEN conjunct2] r three show ?thesis by simp
qed

end
