(* ===== verification/Ui_Format.thy ===== *)
theory Ui_Format
  imports Ui_State
begin

text \<open>
  The display helpers (\<^verbatim>\<open>apps/web/src/ui/format.rs\<close>): labels and classes, ages, and the instant
  in UTC, whose calendar is computed from the days since 1970 in 64-bit arithmetic.
\<close>

section \<open>Labels\<close>

fun status_label :: "check_status \<Rightarrow> string" where
  "status_label CkSuccess = ''Passing''"
| "status_label CkFailure = ''Failing''"
| "status_label CkPending = ''Pending''"
| "status_label CkNone = ''No checks''"

fun status_class :: "check_status \<Rightarrow> string" where
  "status_class CkSuccess = ''status-success''"
| "status_class CkFailure = ''status-failure''"
| "status_class CkPending = ''status-pending''"
| "status_class CkNone = ''status-none''"

fun update_class :: "update_type \<Rightarrow> string" where
  "update_class UtMajor = ''type-major''"
| "update_class UtMinor = ''type-minor''"
| "update_class UtPatch = ''type-patch''"
| "update_class UtUnknown = ''type-unknown''"

definition version_label :: "string option \<Rightarrow> string option \<Rightarrow> string" where
  "version_label from_version to_version =
     (case (from_version, to_version) of
        (Some a, Some b) \<Rightarrow> a @ '' -> '' @ b | _ \<Rightarrow> ''group update'')"

definition pull_requests_phrase :: "u64 \<Rightarrow> string" where
  "pull_requests_phrase count =
     (if count = 1 then ''1 pull request'' else show_u64 count @ '' pull requests'')"

definition repositories_phrase :: "nat \<Rightarrow> string" where
  "repositories_phrase count = (if count = 1 then ''1 repository'' else show_nat count @ '' repositories'')"

definition verdict_tally :: "u64 \<Rightarrow> u64 \<Rightarrow> u64 \<Rightarrow> string" where
  "verdict_tally succeeded rejected failed =
     show_u64 succeeded @ '' succeeded, '' @ show_u64 rejected @ '' rejected, '' @ show_u64 failed @ '' failed''"

datatype checkbox = Unchecked | Mixed | Checked

definition checkbox_of :: "nat \<Rightarrow> nat \<Rightarrow> checkbox" where
  "checkbox_of picked out_of =
     (if picked = 0 then Unchecked else if picked = out_of then Checked else Mixed)"

fun checkbox_class :: "checkbox \<Rightarrow> string" where
  "checkbox_class Unchecked = ''selection-box''"
| "checkbox_class Mixed = ''selection-box mixed''"
| "checkbox_class Checked = ''selection-box checked''"

fun checkbox_mark :: "checkbox \<Rightarrow> string" where
  "checkbox_mark Unchecked = []"
| "checkbox_mark Mixed = ''-''"
| "checkbox_mark Checked = ''x''"

section \<open>Times\<close>

definition relative_time :: "u64 \<Rightarrow> u64 \<Rightarrow> string" where
  "relative_time now timestamp =
     (let seconds = sat_sub now timestamp
      in if seconds \<le> 59 then ''now''
         else if seconds \<le> 3599 then show_u64 (seconds div 60) @ ''m''
         else if seconds \<le> 86399 then show_u64 (seconds div 3600) @ ''h''
         else if seconds \<le> 604799 then show_u64 (seconds div 86400) @ ''d''
         else show_u64 (seconds div 604800) @ ''w'')"

definition ago :: "u64 \<Rightarrow> u64 \<Rightarrow> string" where
  "ago now timestamp =
     (if relative_time now timestamp = ''now'' then ''moments ago'' else relative_time now timestamp @ '' ago'')"

definition civil_from_days :: "u64 \<Rightarrow> u64 \<times> u64 \<times> u64" where
  "civil_from_days days =
     (let shifted = days + 719468;
          era = shifted div 146097;
          day_of_era = shifted mod 146097;
          year_of_era =
            (day_of_era - day_of_era div 1460 + day_of_era div 36524 - day_of_era div 146096) div 365;
          day_of_year = day_of_era - (365 * year_of_era + year_of_era div 4 - year_of_era div 100);
          shifted_month = (5 * day_of_year + 2) div 153;
          day = day_of_year - (153 * shifted_month + 2) div 5 + 1;
          month = (if shifted_month < 10 then shifted_month + 3 else shifted_month - 9);
          year = year_of_era + era * 400 + (if month \<le> 2 then 1 else 0)
      in (year, month, day))"

text \<open>\<open>{:0width}\<close> of a number.\<close>

definition zero_padded :: "nat \<Rightarrow> u64 \<Rightarrow> string" where
  "zero_padded width n = replicate (width - length (show_u64 n)) (CHR ''0'') @ show_u64 n"

definition utc_timestamp :: "u64 \<Rightarrow> string" where
  "utc_timestamp timestamp =
     (let days = timestamp div 86400; seconds = timestamp mod 86400
      in case civil_from_days days of
           (year, month, day) \<Rightarrow>
             zero_padded 4 year @ ''-'' @ zero_padded 2 month @ ''-'' @ zero_padded 2 day @ ''T'' @
             zero_padded 2 (seconds div 3600) @ '':'' @ zero_padded 2 (seconds mod 3600 div 60) @ '':'' @
             zero_padded 2 (seconds mod 60) @ ''Z'')"

section \<open>The line and the links\<close>

fun connection_class :: "connection \<Rightarrow> string" where
  "connection_class Online = ''status-dot''"
| "connection_class Disconnected = ''status-dot offline''"
| "connection_class SignedOut = ''status-dot offline''"

fun connection_label :: "connection \<Rightarrow> string" where
  "connection_label Online = ''connected''"
| "connection_label Disconnected = ''disconnected''"
| "connection_label SignedOut = ''signed out''"

text \<open>\<open>rsplit_once\<close> with a text: what stands before its last occurrence.\<close>

definition before_last :: "string \<Rightarrow> string \<Rightarrow> string option" where
  "before_last s p = map_option (\<lambda>n. take (length s - (n + length p)) s) (str_find (rev s) (rev p))"

definition commit_url :: "string \<Rightarrow> string \<Rightarrow> string option" where
  "commit_url pull_request_url sha =
     map_option (\<lambda>repository. repository @ ''/commit/'' @ sha) (before_last pull_request_url ''/pull/'')"

end
