(* ===== verification/Ui_Active.thy ===== *)
theory Ui_Active
  imports Ui_Retry Ui_Format
begin

text \<open>
  The batch the dashboard follows (\<^verbatim>\<open>apps/web/src/ui/active_batch.rs\<close>): the ways a batch becomes
  the followed one, what is made of its answers, and what is said when the follow ends. The page
  is a record of effects on a state; the dashboard's own page, with its toasts, its follow and its
  tasks, is \<open>host\<close>. A task is known by its number; spawning one records what it runs.
\<close>

section \<open>The page as the follow sees it\<close>

datatype notice = Success string | Info string | Warning string | Error string

record 'p batch_effects =
  ef_announce :: "notice \<Rightarrow> 'p \<Rightarrow> 'p"
  ef_following :: "'p \<Rightarrow> followed option"
  ef_follow :: "followed \<Rightarrow> 'p \<Rightarrow> 'p"
  ef_stand_down :: "'p \<Rightarrow> 'p"
  ef_queue :: "pending_action \<Rightarrow> 'p \<Rightarrow> 'p"
  ef_deselect :: "pr_record list \<Rightarrow> 'p \<Rightarrow> 'p"
  ef_reload :: "'p \<Rightarrow> 'p"
  ef_signed_out :: "'p \<Rightarrow> 'p"

definition follows :: "'p batch_effects \<Rightarrow> string \<Rightarrow> 'p \<Rightarrow> bool" where
  "follows E batch_id p = (case ef_following E p of None \<Rightarrow> False | Some F \<Rightarrow> fo_batch_id F = batch_id)"

section \<open>What is said\<close>

definition pill :: "followed \<Rightarrow> u64 \<Rightarrow> string \<times> string" where
  "pill current now =
     (case fo_progress current of
        Some progress \<Rightarrow>
          (let count = display_bulk_action (bp_action progress) @ '': '' @ show_u64 (settled progress) @ ''/'' @
                 show_nat (length (bp_targets progress));
               dot = map char_of [32, 194, 183, 32 :: nat]
           in if bp_completed progress then (''progress-live complete'', count)
              else if follow_signed_out current then (''progress-live waiting'', count @ dot @ ''signed out'')
              else if stands_still current now
              then (''progress-live waiting'', count @ dot @ ''no progress '' @ relative_time now (fo_since current))
              else (''progress-live'', count))
      | None \<Rightarrow>
          if follow_signed_out current then (''progress-live waiting'', ''batch: signed out'')
          else
            (case listing_action (fo_listing current) of
               Some action \<Rightarrow> (''progress-live'', display_bulk_action action @ '': following...'')
             | None \<Rightarrow> (''progress-live'', ''batch: following...'')))"

definition unknown_notice :: "followed \<Rightarrow> string" where
  "unknown_notice F =
     (let batch_id = fo_batch_id F; seconds = show_u64 ATTACH_TIMEOUT
      in case fo_listing F of
           Unlisted \<Rightarrow>
             ''No batch '' @ batch_id @ '': the projection has no record of it, running or finished, and Restate has had no progress for it in '' @
             seconds @ '' seconds of asking. The link is stale, or from another deployment.''
         | Unreadable \<Rightarrow>
             ''Restate has no progress for batch '' @ batch_id @ '' after '' @ seconds @
             '' seconds, and the projection could not be read: it may never have run, or its workflow has been retired since. A finished batch is under Batches.''
         | _ \<Rightarrow>
             ''Restate has no progress for batch '' @ batch_id @ '' after '' @ seconds @
             '' seconds: it may never have run, or its workflow has been retired since. A finished batch is under Batches.'')"

definition not_submitted_notice :: "fault \<Rightarrow> string" where
  "not_submitted_notice f =
     (if f = SignedOutFault then ''Batch was not submitted: '' @ display_fault f
      else ''Batch was not submitted after '' @ show_nat SUBMIT_ATTEMPTS @ '' attempts: '' @ display_fault f)"

definition completion_notice :: "batch_progress \<Rightarrow> string option" where
  "completion_notice progress =
     (if bp_rejected progress = 0 \<and> bp_failed progress = 0 then None
      else Some (''Batch complete: '' @
        verdict_tally (bp_succeeded progress) (bp_rejected progress) (bp_failed progress) @
        ''. Open the batch for their reasons.''))"

section \<open>Following to the end\<close>

definition account_for :: "'p batch_effects \<Rightarrow> pending_action \<Rightarrow> batch_receipt \<Rightarrow> 'p \<Rightarrow> 'p" where
  "account_for E pending receipt p =
     (let p1 = ef_deselect E (pa_rows pending) p;
          left_out = map no_longer_open
            (filter (\<lambda>target. target_key target \<in> set (br_left_out receipt)) (pending_targets pending))
      in case left_out_notice ''the batch'' left_out of
           None \<Rightarrow> p1 | Some said \<Rightarrow> ef_announce E (Warning said) p1)"

definition conclude :: "'p batch_effects \<Rightarrow> batch_outcome \<Rightarrow> 'p \<Rightarrow> 'p" where
  "conclude E outcome p =
     (case outcome of
        BatchCompleted progress \<Rightarrow>
          ef_reload E (ef_announce E (case completion_notice progress of
              None \<Rightarrow> Success ''Batch complete'' | Some said \<Rightarrow> Warning said) p)
      | NotSubmitted f \<Rightarrow>
          (let p1 = ef_stand_down E (ef_announce E (Error (not_submitted_notice f)) p)
           in if f = SignedOutFault then ef_signed_out E p1 else p1)
      | UnknownBatch \<Rightarrow>
          (let said = (case ef_following E p of None \<Rightarrow> [] | Some F \<Rightarrow> unknown_notice F)
           in ef_stand_down E (ef_announce E (Warning said) p))
      | FollowSignedOut \<Rightarrow> ef_signed_out E p)"

definition run_to_end ::
    "('g, 'm) submit_gateway_scheme \<Rightarrow> 'p batch_effects \<Rightarrow> pending_action \<Rightarrow> followed \<Rightarrow> 'g \<times> 'p \<Rightarrow> ('g \<times> 'p) option" where
  "run_to_end G E pending F s =
     map_option (\<lambda>(outcome, g, p). (g, conclude E outcome p))
       (run_followed G (ef_follow E) (account_for E pending) F s)"

text \<open>Whether the batch was ever seen running is beside the page while it is followed.\<close>

definition follow_to_end ::
    "('g, 'm) attach_gateway_scheme \<Rightarrow> 'p batch_effects \<Rightarrow> followed \<Rightarrow> 'g \<times> 'p \<Rightarrow> ('g \<times> 'p) option" where
  "follow_to_end G E F = (\<lambda>(g, p).
     map_option (\<lambda>(outcome, g', (p', seen_running)).
         (g', if \<not> seen_running \<and> (\<exists>progress. outcome = BatchCompleted progress) then p'
              else conclude E outcome p'))
       (follow_batch G
          (\<lambda>update (q, seen). (ef_follow E update q, seen \<or> fo_heard update \<and> \<not> follow_completed update))
          F (g, (p, False))))"

definition queue_retry :: "'p batch_effects \<Rightarrow> string \<Rightarrow> refreshed option \<Rightarrow> 'p \<Rightarrow> 'p" where
  "queue_retry E batch_id refreshed p =
     (case refreshed of
        None \<Rightarrow> ef_signed_out E (ef_announce E (Error (''The retry was given up: '' @ SIGNED_OUT_MESSAGE)) p)
      | Some r \<Rightarrow>
          (let p1 = (case refreshed_notice r of None \<Rightarrow> p | Some said \<Rightarrow> ef_announce E (Warning said) p)
           in case refreshed_retry r of
                None \<Rightarrow> p1
              | Some retry \<Rightarrow>
                  if \<not> follows E batch_id p1
                  then ef_announce E (Info ''The retry stood down: another batch was queued while its targets were being refreshed.'') p1
                  else ef_queue E retry p1))"

section \<open>The dashboard's own page\<close>

datatype follow_task =
    SubmitTask string pending_action followed
  | AttachTask string followed

record host =
  ho_followed :: "followed option"
  ho_follower :: "nat option"
  ho_open :: bool
  ho_toasts :: "(notice \<times> bool) list"
  ho_state :: dashboard
  ho_tasks :: "follow_task list"
  ho_cancelled :: "nat list"
  ho_retrying :: bool
  ho_ids :: "nat \<Rightarrow> string"
  ho_minted :: nat
  ho_clock :: u64

definition take_over :: "followed \<Rightarrow> follow_task \<Rightarrow> host \<Rightarrow> host" where
  "take_over F follower h =
     (let h1 = (case ho_follower h of
            None \<Rightarrow> h | Some previous \<Rightarrow> h\<lparr>ho_follower := None, ho_cancelled := ho_cancelled h @ [previous]\<rparr>);
          h2 = h1\<lparr>ho_followed := Some F, ho_open := True\<rparr>
      in h2\<lparr>ho_tasks := ho_tasks h2 @ [follower], ho_follower := Some (length (ho_tasks h2))\<rparr>)"

definition queue_batch :: "pending_action \<Rightarrow> host \<Rightarrow> host" where
  "queue_batch pending h =
     (let batch_id = ho_ids h (ho_minted h);
          h1 = h\<lparr>ho_minted := ho_minted h + 1\<rparr>;
          F = followed_queued batch_id (pa_action pending) (pending_targets pending) (ho_clock h)
      in take_over F (SubmitTask batch_id pending F) h1)"

text \<open>What the task of a queued batch submits through.\<close>

definition task_submission ::
    "('g, 'm) web_world_scheme browser_line \<Rightarrow> ('g, 'v) server_state \<Rightarrow> string \<Rightarrow> pending_action \<Rightarrow> string \<Rightarrow>
     (dashboard \<times> ('g, 'm) web_world_scheme) submit_gateway" where
  "task_submission K S user pending batch_id =
     server_batch K S user batch_id (pa_action pending) (pending_targets pending) (pa_retried_from pending)"

text \<open>Success toasts go away on their own; every other is sticky.\<close>

definition announce_host :: "notice \<Rightarrow> host \<Rightarrow> host" where
  "announce_host n h = h\<lparr>ho_toasts := ho_toasts h @ [(n, case n of Success _ \<Rightarrow> False | _ \<Rightarrow> True)]\<rparr>"

definition host_effects :: "host batch_effects" where
  "host_effects =
     \<lparr>ef_announce = announce_host, ef_following = ho_followed,
      ef_follow = (\<lambda>F h. h\<lparr>ho_followed := Some F\<rparr>), ef_stand_down = (\<lambda>h. h\<lparr>ho_followed := None\<rparr>),
      ef_queue = queue_batch, ef_deselect = (\<lambda>rows h. h\<lparr>ho_state := deselect rows (ho_state h)\<rparr>),
      ef_reload = (\<lambda>h. h\<lparr>ho_state := reload (ho_state h)\<rparr>),
      ef_signed_out = (\<lambda>h. h\<lparr>ho_state := poll_missed SignedOut (ho_state h)\<rparr>)\<rparr>"

definition attach_batch :: "string \<Rightarrow> host \<Rightarrow> host" where
  "attach_batch batch_id h =
     (if follows host_effects batch_id h then h
      else
        let F = followed_attaching batch_id (ho_clock h)
        in take_over F (AttachTask batch_id F) h)"

text \<open>
  \<open>retry_rejected\<close>: held while the targets are being refreshed, then handed over; \<open>refreshed\<close> is
  what the refresh came to and \<open>h'\<close> the page as it had become meanwhile.
\<close>

definition begin_retry :: "host \<Rightarrow> host option" where
  "begin_retry h = (if ho_retrying h then None else Some (h\<lparr>ho_retrying := True\<rparr>))"

definition end_retry :: "batch_progress \<Rightarrow> refreshed option \<Rightarrow> host \<Rightarrow> host" where
  "end_retry finished refreshed h' =
     queue_retry host_effects (bp_batch_id finished) refreshed (h'\<lparr>ho_retrying := False\<rparr>)"

end
