(* ===== verification/Web_Contract.thy ===== *)
theory Web_Contract
  imports Web_Api Store_Contract
begin

text \<open>
  What the web server promises: a delivery is forwarded once under its delivery id or not at all,
  the dashboard is behind the configured credentials and its own origin, a submission is the
  partition of its keys by the projection, and a path names the object it was built for.
\<close>

section \<open>What one send leaves behind\<close>

definition took :: "'g web_network \<Rightarrow> web_request \<Rightarrow> 'g \<Rightarrow> bool" where
  "took net request remote =
     (case fst (net request remote) of Inl _ \<Rightarrow> False | Inr response \<Rightarrow> answered_well response)"

lemma ri_accept_sent:
  "ri_accept net request w = (r, w') \<Longrightarrow>
     wi_sent w' = wi_sent w @ [request] \<and> (r = Inr () \<longleftrightarrow> took net request (wi_remote w))"
  by (auto simp: ri_accept_def andthen_def transmit_def took_def split: prod.splits sum.splits if_splits)

definition sending :: "restate_ingress \<Rightarrow> string \<Rightarrow> web_input \<Rightarrow> string option \<Rightarrow> web_request" where
  "sending I path input key = (ri_post I ''send'' path)\<lparr>iq_body := Some input, iq_idempotency := key\<rparr>"

lemma ri_send_sent:
  assumes "ri_send net I path input key w = (r, w')"
  shows "wi_sent w' = wi_sent w @ [sending I path input key]"
    and "r = Inr () \<longleftrightarrow> took net (sending I path input key) (wi_remote w)"
proof -
  have "ri_send net I path input key = ri_accept net (sending I path input key)"
    by (cases key) (simp_all add: ri_send_def sending_def ri_post_def)
  with assms ri_accept_sent show "wi_sent w' = wi_sent w @ [sending I path input key]"
    and "r = Inr () \<longleftrightarrow> took net (sending I path input key) (wi_remote w)" by metis+
qed

section \<open>Deliveries\<close>

definition dispatching :: "restate_ingress \<Rightarrow> webhook_event \<Rightarrow> string \<Rightarrow> web_request" where
  "dispatching I event delivery_id =
     sending I (WEBHOOK_INGRESS @ ''/'' @ WEBHOOK_DISPATCH) (EventInput event) (Some delivery_id)"

definition meant_for :: "u64 \<Rightarrow> webhook_event \<Rightarrow> bool" where
  "meant_for configured event \<longleftrightarrow> we_installation_id event = None \<or> we_installation_id event = Some configured"

lemma dispatch_run:
  "route_webhook configured event = Inr route \<Longrightarrow>
     dispatch configured event sent = (Inr route, sent @ send_webhook_route route)"
  by (simp add: dispatch_def andthen_def)

text \<open>
  What GitHub's delivery carries, by the name of its event: what makes it one that can be routed,
  and the event it is reduced to.
\<close>

definition routed_kinds :: "string list" where
  "routed_kinds = [''pull_request'', ''check_run'', ''check_suite'', ''status'', ''installation'',
     ''installation_repositories'']"

definition delivery_reads :: "webhook_libs \<Rightarrow> envelope \<Rightarrow> bool" where
  "delivery_reads L en \<longleftrightarrow>
     (if en_kind en \<in> {''installation'', ''installation_repositories''} then en_installation_id en \<noteq> None
      else en_repository en \<noteq> None \<and>
        (en_kind en = ''pull_request'' \<and> (\<exists>x. wl_pull_request L en = Inr x) \<or>
         en_kind en = ''check_run'' \<and> (\<exists>x. wl_check_run L en = Inr x) \<or>
         en_kind en = ''check_suite'' \<and> (\<exists>x. wl_check_suite L en = Inr x) \<or>
         en_kind en = ''status'' \<and> (\<exists>x. wl_status L en = Inr x)))"

definition event_carries :: "webhook_libs \<Rightarrow> envelope \<Rightarrow> webhook_event \<Rightarrow> bool" where
  "event_carries L en event \<longleftrightarrow>
     we_event event = delivery_from (en_kind en) \<and> we_action event = en_action en \<and>
     we_installation_id event = en_installation_id en \<and>
     we_repository_id event = map_option dr_id (en_repository en) \<and>
     we_owner event = map_option dr_owner (en_repository en) \<and>
     we_repo event = map_option dr_name (en_repository en) \<and>
     (let fields = (we_number event, we_sha event, we_pull_requests event) in
      if en_kind en = ''pull_request''
      then \<exists>number sha. wl_pull_request L en = Inr (number, sha) \<and> fields = (Some number, Some sha, [])
      else if en_kind en = ''check_run''
      then \<exists>sha numbers. wl_check_run L en = Inr (sha, numbers) \<and> fields = (None, Some sha, numbers)
      else if en_kind en = ''check_suite''
      then \<exists>sha numbers. wl_check_suite L en = Inr (sha, numbers) \<and> fields = (None, Some sha, numbers)
      else if en_kind en = ''status''
      then \<exists>sha. wl_status L en = Inr sha \<and> fields = (None, Some sha, [])
      else fields = (None, None, []))"

lemma delivery_named:
  "delivery_from s = DkPullRequest \<longleftrightarrow> s = ''pull_request''"
  "delivery_from s = DkCheckRun \<longleftrightarrow> s = ''check_run''"
  "delivery_from s = DkCheckSuite \<longleftrightarrow> s = ''check_suite''"
  "delivery_from s = DkStatus \<longleftrightarrow> s = ''status''"
  "delivery_from s = DkInstallation \<longleftrightarrow> s = ''installation''"
  "delivery_from s = DkInstallationRepositories \<longleftrightarrow> s = ''installation_repositories''"
  by (auto simp: delivery_from_def delivery_routed_def split: if_splits)

text \<open>A kind's name read back as the kind, so that no two names are compared.\<close>

lemmas kind_names = delivery_named [symmetric]

lemmas decision_defs = routed_kinds_def delivery_reads_def event_carries_def route_delivery_def parse_payload_def
  repository_required_def forwarded_def

text \<open>The edge's decision, by what the delivery carries.\<close>

lemma route_delivery_iff:
  "if en_kind en \<notin> set routed_kinds then route_delivery L en = Inr Acknowledge
   else if delivery_reads L en then \<exists>event. route_delivery L en = Inr (Forward event) \<and> event_carries L en event
   else \<exists>e. route_delivery L en = Inl e"
proof (cases "delivery_from (en_kind en)")
  case DkPullRequest
  then show ?thesis
    by (cases "wl_pull_request L en"; cases "en_repository en")
      (auto simp: decision_defs kind_names)
next
  case DkCheckRun
  then show ?thesis
    by (cases "wl_check_run L en"; cases "en_repository en")
      (auto simp: decision_defs kind_names)
next
  case DkCheckSuite
  then show ?thesis
    by (cases "wl_check_suite L en"; cases "en_repository en")
      (auto simp: decision_defs kind_names)
next
  case DkStatus
  then show ?thesis
    by (cases "wl_status L en"; cases "en_repository en")
      (auto simp: decision_defs kind_names)
next
  case DkInstallation
  then show ?thesis
    by (cases "en_installation_id en") (auto simp: decision_defs kind_names)
next
  case DkInstallationRepositories
  then show ?thesis
    by (cases "en_installation_id en") (auto simp: decision_defs kind_names)
next
  case (DkOther k)
  then show ?thesis by (simp add: routed_kinds_def route_delivery_def kind_names)
qed

text \<open>What the edge forwards carries every field the dispatcher reads for its kind.\<close>

lemma carried_routes:
  assumes "event_carries L en event" and "en_kind en \<in> set routed_kinds" and "delivery_reads L en"
    and "meant_for configured event"
  shows "\<exists>route. route_webhook configured event = Inr route"
proof -
  have kind: "we_event event = delivery_from (en_kind en)" using assms(1) by (simp add: event_carries_def)
  have "\<exists>route. route_kind event = Inr route"
  proof (cases "delivery_from (en_kind en)")
    case (DkOther k)
    with assms(2) show ?thesis by (simp add: routed_kinds_def kind_names)
  qed (use assms kind in \<open>auto simp: event_carries_def delivery_reads_def kind_names route_kind_def
      route_pull_request_def route_sha_def route_installation_def split: if_splits option.splits\<close>)
  with assms(4) show ?thesis by (auto simp: route_webhook_def meant_for_def)
qed

lemma unrouted_ignored:
  assumes "en_kind en \<notin> set routed_kinds" and "we_event event = delivery_from (en_kind en)"
    and "meant_for configured event"
  shows "route_webhook configured event = Inr RouteIgnore"
proof -
  obtain other where "delivery_from (en_kind en) = DkOther other"
    using assms(1) by (cases "delivery_from (en_kind en)") (simp_all add: routed_kinds_def kind_names)
  with assms(2,3) show ?thesis by (auto simp: route_webhook_def route_kind_def meant_for_def)
qed

text \<open>
  C26: A delivery whose signature is refused sends nothing. A verified one of a kind that is not
  routed is answered 204 without a word to Restate, and the dispatcher would have ignored it. One
  of a routed kind that can be read (a repository and the fields of its event, or an installation
  for the installation events) is sent once to the dispatcher under its delivery id, with the
  fields it carried, answered 200 exactly when Restate took it, and never refused by the dispatcher
  of the installation it names. One that cannot be read is answered 400 with nothing sent.
\<close>

theorem deliveries_forwarded_once:
  fixes w :: "('g, web_input, 'm) wire_scheme"
  assumes "github_webhook L R I secret request w = (reply, w')"
  shows "case wl_from_signed L secret (hi_headers request) (hi_body request) of
      Inl status \<Rightarrow> w' = w \<and> hr_status reply = status
    | Inr en \<Rightarrow>
        if en_kind en \<notin> set routed_kinds then w' = w \<and> hr_status reply = 204 \<and>
          (\<forall>configured event. we_event event = delivery_from (en_kind en) \<longrightarrow> meant_for configured event \<longrightarrow>
             route_webhook configured event = Inr RouteIgnore)
        else if delivery_reads L en then
          \<exists>event. event_carries L en event \<and>
            wi_sent w' = wi_sent w @ [dispatching I event (en_delivery_id en)] \<and>
            hr_status reply =
              (if took (rl_net R) (dispatching I event (en_delivery_id en)) (wi_remote w) then 200 else 502) \<and>
            (\<forall>configured sent. meant_for configured event \<longrightarrow>
               (\<exists>route. dispatch configured event sent = (Inr route, sent @ send_webhook_route route)))
        else w' = w \<and> hr_status reply = 400"
proof (cases "wl_from_signed L secret (hi_headers request) (hi_body request)")
  case (Inl status)
  with assms show ?thesis by (auto simp: github_webhook_def plain_reply_def)
next
  case verified: (Inr en)
  note decided = route_delivery_iff [of en L]
  consider "en_kind en \<notin> set routed_kinds" | "en_kind en \<in> set routed_kinds" "\<not> delivery_reads L en"
    | "en_kind en \<in> set routed_kinds" "delivery_reads L en" by blast
  then show ?thesis
  proof cases
    case 1
    with assms verified decided unrouted_ignored [of en] show ?thesis
      by (auto simp: github_webhook_def plain_reply_def)
  next
    case 2
    with assms verified decided show ?thesis by (auto simp: github_webhook_def plain_reply_def)
  next
    case 3
    with decided obtain event where event: "route_delivery L en = Inr (Forward event)" "event_carries L en event"
      by auto
    obtain r w1 where sent: "dispatch_webhook R I event (en_delivery_id en) w = (r, w1)"
      by (cases "dispatch_webhook R I event (en_delivery_id en) w")
    then have one: "wi_sent w1 = wi_sent w @ [dispatching I event (en_delivery_id en)]"
      "r = Inr () \<longleftrightarrow> took (rl_net R) (dispatching I event (en_delivery_id en)) (wi_remote w)"
      unfolding dispatch_webhook_def dispatching_def by (rule ri_send_sent)+
    have "w' = w1 \<and> hr_status reply = (if r = Inr () then 200 else 502)"
      using assms verified event(1) sent by (cases r) (auto simp: github_webhook_def plain_reply_def)
    moreover have "\<forall>configured sent. meant_for configured event \<longrightarrow>
        (\<exists>route. dispatch configured event sent = (Inr route, sent @ send_webhook_route route))"
      using carried_routes [OF event(2) 3] dispatch_run by blast
    ultimately show ?thesis using one event(2) verified 3 by auto
  qed
qed

text \<open>
  A pull request delivery reaches the object its repository and number name: a close as a
  close without a fence, an action that changes the pull request as a sync under the names the
  delivery carried, and any other action not at all.
\<close>

theorem deliveries_address_their_object:
  assumes "delivery_from (en_kind en) = DkPullRequest" and "wl_pull_request L en = Inr (number, sha)"
    and "en_repository en = Some r" and "en_installation_id en \<in> {None, Some configured}"
  shows "\<exists>event. route_delivery L en = Inr (Forward event) \<and>
    snd (dispatch configured event sent) = sent @
      (if en_action en = Some ''closed''
       then [InvokeClosed (display_pr_key (PrKey (dr_id r) number)) \<lparr>cr_synced_before = None\<rparr>]
       else if pull_request_action_requests_sync (en_action en)
       then [InvokeSync (display_pr_key (PrKey (dr_id r) number))
         \<lparr>sr_repository_id = dr_id r, sr_owner = dr_owner r, sr_repo = dr_name r, sr_number = number,
          sr_bypass_debounce = False, sr_completion_id = None\<rparr>]
       else [])"
proof -
  let ?event = "\<lparr>we_event = DkPullRequest, we_action = en_action en,
    we_installation_id = en_installation_id en, we_repository_id = Some (dr_id r),
    we_owner = Some (dr_owner r), we_repo = Some (dr_name r), we_number = Some number,
    we_sha = Some sha, we_pull_requests = []\<rparr>"
  have "route_delivery L en = Inr (Forward ?event)"
    using assms by (simp add: route_delivery_def parse_payload_def repository_required_def forwarded_def)
  moreover obtain route where route: "route_webhook configured ?event = Inr route"
    "route_kind ?event = Inr route"
    using assms(4) by (auto simp: route_webhook_def route_kind_def route_pull_request_def)
  ultimately show ?thesis
    using dispatch_run [OF route(1), of sent]
    by (auto simp: route_kind_def route_pull_request_def close_pull_request_def request_key_def
        split: if_splits)
qed

section \<open>The dashboard's edge\<close>

lemma strip_prefix_iff: "strip_prefix s p = Some rest \<longleftrightarrow> s = p @ rest"
  unfolding strip_prefix_def starts_with_def by (metis append_eq_conv_conj option.inject option.distinct(1))

lemma split_once_iff: "split_once s d = Some (a, b) \<longleftrightarrow> s = a @ d # b \<and> d \<notin> set a"
  using split_once_append split_once_Some by metis

text \<open>The header carries the configured name and password, as basic authentication spells them.\<close>

definition signs_in :: "edge_libs \<Rightarrow> credentials \<Rightarrow> http_incoming \<Rightarrow> bool" where
  "signs_in L c request \<longleftrightarrow>
     (\<exists>value encoded. hi_headers request ''authorization'' = Some value \<and>
        el_to_str L value = Some (''Basic '' @ encoded) \<and>
        el_base64 L encoded = Some (cn_username c @ CHR '':'' # cn_password c) \<and>
        CHR '':'' \<notin> set (cn_username c) \<and>
        from_utf8 (cn_username c @ CHR '':'' # cn_password c) \<noteq> None)"

lemma from_utf8_iff: "from_utf8 b = Some s \<longleftrightarrow> b = s \<and> from_utf8 s \<noteq> None"
  by (auto simp: from_utf8_def split: if_splits)

lemma authenticated_iff:
  assumes "\<And>a b. el_ct_eq L a b \<longleftrightarrow> a = b"
  shows "authenticated_dashboard_user L (hi_headers request) (cn_username c) (cn_password c) = Some user \<longleftrightarrow>
    signs_in L c request \<and> user = cn_username c" (is "?A \<longleftrightarrow> ?B")
proof -
  have "?A \<longleftrightarrow> (\<exists>value text encoded decoded credentials pass.
      hi_headers request ''authorization'' = Some value \<and> el_to_str L value = Some text \<and>
      strip_prefix text ''Basic '' = Some encoded \<and> el_base64 L encoded = Some decoded \<and>
      from_utf8 decoded = Some credentials \<and> split_once credentials (CHR '':'') = Some (user, pass) \<and>
      user = cn_username c \<and> pass = cn_password c)"
    unfolding authenticated_dashboard_user_def Let_def assms
    by (auto simp: Option.bind_eq_Some_conv split: prod.splits if_splits)
  also have "\<dots> \<longleftrightarrow> ?B"
    unfolding signs_in_def strip_prefix_iff split_once_iff from_utf8_iff [of _ "_ @ _"]
    by (smt (verit) from_utf8_iff)
  finally show ?thesis .
qed

text \<open>
  The methods that only read, the host a request was sent to, and what a browser says of a request
  the dashboard's own page made: its fetch metadata names the same origin or no page at all, or,
  where it sends none, it names no origin or one whose authority is the host's.
\<close>

definition only_reads :: "http_incoming \<Rightarrow> bool" where
  "only_reads request \<longleftrightarrow>
     hi_verb request = ''GET'' \<or> hi_verb request = ''HEAD'' \<or> hi_verb request = ''OPTIONS''"

definition sent_to :: "edge_libs \<Rightarrow> http_incoming \<Rightarrow> string \<Rightarrow> bool" where
  "sent_to L request host \<longleftrightarrow>
     (\<exists>v. hi_headers request ''host'' = Some v \<and> el_to_str L v = Some host) \<or>
     (\<forall>v. hi_headers request ''host'' = Some v \<longrightarrow> el_to_str L v = None) \<and> hi_authority request = Some host"

definition from_own_site :: "edge_libs \<Rightarrow> http_incoming \<Rightarrow> bool" where
  "from_own_site L request \<longleftrightarrow>
     hi_headers request ''sec-fetch-site'' = Some ''same-origin'' \<or>
     hi_headers request ''sec-fetch-site'' = Some ''none'' \<or>
     hi_headers request ''sec-fetch-site'' = None \<and>
       (hi_headers request ''origin'' = None \<or>
        (\<exists>value text scheme authority host. hi_headers request ''origin'' = Some value \<and>
           el_to_str L value = Some text \<and> split_once_str text ''://'' = Some (scheme, authority) \<and>
           sent_to L request host \<and> eq_ignore_ascii_case authority host))"

lemma cross_site_iff: "cross_site L request \<longleftrightarrow> \<not> only_reads request \<and> \<not> from_own_site L request"
proof (cases "only_reads request")
  case True
  then show ?thesis by (simp add: cross_site_def only_reads_def)
next
  case False
  then have verb: "hi_verb request \<notin> set [''GET'', ''HEAD'', ''OPTIONS'']" by (simp add: only_reads_def)
  have host: "sent_to L request h \<longleftrightarrow>
      (case Option.bind (hi_headers request ''host'') (el_to_str L) of
         None \<Rightarrow> hi_authority request | Some h \<Rightarrow> Some h) = Some h" for h
    by (cases "hi_headers request ''host''") (auto simp: sent_to_def split: option.splits)
  show ?thesis
  proof (cases "hi_headers request ''sec-fetch-site''")
    case (Some site)
    with False verb show ?thesis by (simp add: cross_site_def from_own_site_def)
  next
    case None
    then show ?thesis
      using False verb unfolding cross_site_def from_own_site_def host
      by (cases "hi_headers request ''origin''")
        (auto simp: Let_def Option.bind_eq_Some_conv split: option.splits)
  qed
qed

text \<open>
  C27: Every path but the webhook's answers only a request that carries the configured
  credentials, anyone else being challenged with a 401. With them, a GET, HEAD or OPTIONS is
  answered wherever it comes from, since a link from another site must open the dashboard; a
  request of any other method is answered only from the dashboard's own site, as the browser names
  it, and refused with a 403 otherwise. A refused request runs nothing, and what does run runs as
  the configured user.
\<close>

theorem dashboard_is_guarded:
  assumes "\<And>a b. el_ct_eq L a b \<longleftrightarrow> a = b" and "hi_path request \<noteq> ''/api/webhooks/github''"
  shows "if signs_in L c request
    then if only_reads request \<or> from_own_site L request
      then web_router L c webhook app request w = app (cn_username c) request w
      else snd (web_router L c webhook app request w) = w \<and> hr_status (fst (web_router L c webhook app request w)) = 403
    else snd (web_router L c webhook app request w) = w \<and>
      hr_status (fst (web_router L c webhook app request w)) = 401 \<and>
      hr_challenge (fst (web_router L c webhook app request w)) \<noteq> None"
proof (cases "authenticated_dashboard_user L (hi_headers request) (cn_username c) (cn_password c)")
  case None
  then have "\<not> signs_in L c request"
    using authenticated_iff [OF assms(1), where c = c and request = request and user = "cn_username c"] by simp
  with None assms(2) show ?thesis by (simp add: web_router_def require_dashboard_auth_def)
next
  case (Some user)
  then have "signs_in L c request \<and> user = cn_username c" using authenticated_iff [OF assms(1)] by blast
  with Some assms(2) show ?thesis
    by (simp add: web_router_def require_dashboard_auth_def refuse_cross_site_def plain_reply_def cross_site_iff)
qed

section \<open>Submissions\<close>

definition store_answers :: "('g, 'm) web_world_scheme \<Rightarrow> bool" where
  "store_answers w \<longleftrightarrow> (case ww_faults w of Some _ # _ \<Rightarrow> False | _ \<Rightarrow> True)"

lemma read_model_run:
  "store_answers w \<Longrightarrow> read (ww_db w) = Inr a \<Longrightarrow>
     read_model read w = (Inr a, w\<lparr>ww_faults := tl (ww_faults w), ww_reads := ww_reads w + 1\<rparr>)"
  by (auto simp: read_model_def read_model_at_def store_answers_def Let_def split: list.splits option.splits)

text \<open>A stored pull request whose repository is another installation's.\<close>

definition foreign :: "db \<Rightarrow> u64 \<Rightarrow> pr_key \<Rightarrow> bool" where
  "foreign d i key \<longleftrightarrow> pr_table d key \<noteq> None \<and>
     map_option rr_installation_id (repo_table d (pk_repository key)) \<noteq> Some i"

lemma held_projected:
  "prs_ok d \<Longrightarrow> held_to_the_installation key (projected d i key) =
     (if foreign d i key then Inl (InvalidRequest (IrForeignInstallation key)) else Inr (pr_table d key))"
  by (auto simp: projected_cases foreign_def split: option.splits)

lemma collect_held:
  assumes "prs_ok d"
  shows "collect_results (map (\<lambda>key. held_to_the_installation key (projected d i key)) keys) =
    (case find (foreign d i) keys of
       Some key \<Rightarrow> Inl (InvalidRequest (IrForeignInstallation key))
     | None \<Rightarrow> Inr (map (pr_table d) keys))"
  by (induction keys) (auto simp: held_projected [OF assms] split: option.splits)

lemma projected_prs_run:
  assumes "db_ok (ww_db w)" and "store_answers w"
  shows "projected_prs S keys w =
    ((case find (foreign (ww_db w) (sv_installation S)) keys of
        Some key \<Rightarrow> Inl (InvalidRequest (IrForeignInstallation key))
      | None \<Rightarrow> Inr (map (pr_table (ww_db w)) keys)),
     w\<lparr>ww_faults := tl (ww_faults w), ww_reads := ww_reads w + 1\<rparr>)"
proof -
  have ok: "prs_ok (ww_db w)" using assms(1) by (rule db_ok_parts)
  have "map (\<lambda>(answer, key). held_to_the_installation key answer)
      (zip (map (projected (ww_db w) i) keys) keys) =
    map (\<lambda>key. held_to_the_installation key (projected (ww_db w) i key)) keys" for i
    by (induction keys) auto
  then show ?thesis
    using read_model_run [where read = "get_prs (sv_installation S) keys", OF assms(2) get_prs_projected [OF ok]]
    by (simp add: projected_prs_def andthen_def collect_held [OF ok])
qed

lemma resolve_targets_run:
  "resolve_targets (map (\<lambda>t. (t, f t)) targets) resolved left_out =
    (resolved @ map (\<lambda>t. resolved_target t (the (f t))) (filter (\<lambda>t. f t \<noteq> None) targets),
     left_out @ map submitted_key (filter (\<lambda>t. f t = None) targets))"
proof (induction targets arbitrary: resolved left_out)
  case Nil
  then show ?case by simp
next
  case (Cons t ts)
  then show ?case by (cases "f t") auto
qed

definition still_listed :: "db \<Rightarrow> submitted_target list \<Rightarrow> pr_target list" where
  "still_listed d targets =
     map (\<lambda>t. resolved_target t (the (pr_table d (submitted_key t))))
       (filter (\<lambda>t. pr_table d (submitted_key t) \<noteq> None) targets)"

lemma still_listed_keys:
  assumes "prs_ok d"
  shows "map target_key (still_listed d targets) =
    filter (\<lambda>key. pr_table d key \<noteq> None) (map submitted_key targets)"
proof (induction targets)
  case Nil
  then show ?case by (simp add: still_listed_def)
next
  case (Cons t ts)
  have "target_key (resolved_target t pr) = submitted_key t" if "pr_table d (submitted_key t) = Some pr" for pr
    using pr_table_key [OF assms that] by (simp add: target_key_def resolved_target_def record_key_def)
  with Cons show ?case by (auto simp: still_listed_def)
qed

lemma andthen_lift: "andthen (lift r) f w = (case r of Inl e \<Rightarrow> (Inl e, w) | Inr a \<Rightarrow> f a w)"
  by (simp add: andthen_def split: sum.splits)

definition batch_path :: "string \<Rightarrow> string" where
  "batch_path batch_id = BULK_ACTION @ ''/'' @ batch_id @ ''/'' @ BULK_ACTION_RUN"

lemma submit_batch_run:
  fixes w :: "('g, 'm) web_world_scheme" and S :: "('g, 'v) server_state"
  assumes "db_ok (ww_db w)" and "store_answers w"
    and "validate_batch (sv_uuid S) batch_id retried_from (map submitted_key targets) = Inr ()"
  shows "submit_batch_in S user batch_id action targets retried_from w =
    (let w1 = w\<lparr>ww_faults := tl (ww_faults w), ww_reads := ww_reads w + 1\<rparr>;
         listed = still_listed (ww_db w) targets
     in case find (foreign (ww_db w) (sv_installation S)) (map submitted_key targets) of
       Some key \<Rightarrow> (Inl (InvalidRequest (IrForeignInstallation key)), w1)
     | None \<Rightarrow>
         if listed = [] then (Inl (InvalidRequest (IrNothingLeftToRun (length targets))), w1)
         else andthen (asking_restate (run_batch (sv_restate S) (sv_ingress S) batch_id
                \<lparr>bq_action = action, bq_targets = listed, bq_user_id = user, bq_retried_from = retried_from\<rparr>))
              (\<lambda>_. ok \<lparr>br_left_out = map submitted_key
                 (filter (\<lambda>t. pr_table (ww_db w) (submitted_key t) = None) targets)\<rparr>) w1)"
proof -
  have zipped: "zip targets (map (pr_table (ww_db w)) (map submitted_key targets)) =
      map (\<lambda>t. (t, pr_table (ww_db w) (submitted_key t))) targets"
    by (induction targets) auto
  show ?thesis
  proof (cases "find (foreign (ww_db w) (sv_installation S)) (map submitted_key targets)")
    case (Some key)
    with assms(3) show ?thesis
      by (simp add: submit_batch_in_def Let_def andthen_lift andthen_def [of "projected_prs _ _"]
          projected_prs_run [OF assms(1,2)])
  next
    case None
    with assms(3) show ?thesis
      by (simp add: submit_batch_in_def Let_def andthen_lift andthen_def [of "projected_prs _ _"]
          projected_prs_run [OF assms(1,2)] zipped resolve_targets_run still_listed_def
          del: map_map)
  qed
qed

lemma still_listed_validates:
  assumes "validate_batch uuid batch_id retried_from (map submitted_key targets) = Inr ()"
    and "still_listed d targets \<noteq> []"
    and "map target_key (still_listed d targets) =
      filter (\<lambda>key. pr_table d key \<noteq> None) (map submitted_key targets)"
  shows "validate_request uuid \<lparr>bq_action = action, bq_targets = still_listed d targets,
    bq_user_id = user, bq_retried_from = retried_from\<rparr> batch_id = Inr ()"
proof -
  let ?keys = "map target_key (still_listed d targets)"
  have "distinct ?keys" using assms(1) unfolding assms(3) validate_batch_Inr_iff by simp
  moreover have "length ?keys \<le> 100"
    unfolding assms(3) using assms(1) length_filter_le [of _ "map submitted_key targets"]
    by (meson le_trans validate_batch_Inr_iff)
  ultimately show ?thesis
    using assms(1,2) by (simp add: validate_request_def validate_batch_Inr_iff)
qed

text \<open>The batch a submission sends, and the request that carries it.\<close>

definition batch_request :: "bulk_action_kind \<Rightarrow> db \<Rightarrow> submitted_target list \<Rightarrow> string \<Rightarrow> string option \<Rightarrow> bulk_request" where
  "batch_request action d targets user retried_from =
     \<lparr>bq_action = action, bq_targets = still_listed d targets, bq_user_id = user,
      bq_retried_from = retried_from\<rparr>"

definition batch_sending :: "('g, 'v) server_state \<Rightarrow> string \<Rightarrow> bulk_request \<Rightarrow> web_request" where
  "batch_sending S batch_id request =
     sending (sv_ingress S) (batch_path batch_id) (BatchInput request) (Some batch_id)"

lemma submit_batch_sends:
  fixes w :: "('g, 'm) web_world_scheme" and S :: "('g, 'v) server_state"
  assumes "db_ok (ww_db w)" and "store_answers w"
    and "validate_batch (sv_uuid S) batch_id retried_from (map submitted_key targets) = Inr ()"
    and "submit_batch_in S user batch_id action targets retried_from w = (r, w')"
    and "find (foreign (ww_db w) (sv_installation S)) (map submitted_key targets) = None"
    and "still_listed (ww_db w) targets \<noteq> []"
  shows "ww_db w' = ww_db w"
    and "wi_sent w' = wi_sent w @ [batch_sending S batch_id (batch_request action (ww_db w) targets user retried_from)]"
    and "if took (rl_net (sv_restate S))
          (batch_sending S batch_id (batch_request action (ww_db w) targets user retried_from)) (wi_remote w)
      then r = Inr \<lparr>br_left_out = filter (\<lambda>key. pr_table (ww_db w) key = None) (map submitted_key targets)\<rparr>
      else \<exists>cause. r = Inl (Unavailable Restate cause)"
proof -
  let ?request = "batch_request action (ww_db w) targets user retried_from"
  let ?w1 = "w\<lparr>ww_faults := tl (ww_faults w), ww_reads := ww_reads w + 1\<rparr>"
  obtain x w2 where run: "run_batch (sv_restate S) (sv_ingress S) batch_id ?request ?w1 = (x, w2)"
    by fastforce
  then have one: "wi_sent w2 = wi_sent ?w1 @ [batch_sending S batch_id ?request]"
    "x = Inr () \<longleftrightarrow> took (rl_net (sv_restate S)) (batch_sending S batch_id ?request) (wi_remote ?w1)"
    unfolding run_batch_def batch_path_def batch_sending_def by (rule ri_send_sent)+
  have db: "ww_db w2 = ww_db w"
    using run by (auto simp: run_batch_def ri_send_def ri_accept_def andthen_def transmit_def Let_def
        split: prod.splits sum.splits if_splits option.splits)
  have out: "(r, w') = andthen (asking_restate (run_batch (sv_restate S) (sv_ingress S) batch_id ?request))
      (\<lambda>_. ok \<lparr>br_left_out = map submitted_key
         (filter (\<lambda>t. pr_table (ww_db w) (submitted_key t) = None) targets)\<rparr>) ?w1"
    using submit_batch_run [OF assms(1-3)] assms(4-6) by (simp add: Let_def batch_request_def)
  show "ww_db w' = ww_db w"
    and "wi_sent w' = wi_sent w @ [batch_sending S batch_id ?request]"
    and "if took (rl_net (sv_restate S)) (batch_sending S batch_id ?request) (wi_remote w)
      then r = Inr \<lparr>br_left_out = filter (\<lambda>key. pr_table (ww_db w) key = None) (map submitted_key targets)\<rparr>
      else \<exists>cause. r = Inl (Unavailable Restate cause)"
    using out one run db
    by (cases x; auto simp: andthen_def asking_restate_def api_error_of_ingress_def Let_def filter_map o_def)+
qed

text \<open>
  C5: A submission held to the batch rules is answered by the projection whole: a key of another
  installation refuses it, naming the first such key, with nothing sent; with no target left
  nothing is sent; otherwise one batch is sent, under its id, over the targets still listed with
  the heads the browser saw, the receipt names the others, and the workflow that takes the batch
  accepts what was sent.
\<close>

theorem submission_is_partitioned:
  fixes w :: "('g, 'm) web_world_scheme" and S :: "('g, 'v) server_state"
  assumes "db_ok (ww_db w)" and "store_answers w"
    and "validate_batch (sv_uuid S) batch_id retried_from (map submitted_key targets) = Inr ()"
    and "submit_batch_in S user batch_id action targets retried_from w = (r, w')"
  shows "ww_db w' = ww_db w \<and>
    (case find (foreign (ww_db w) (sv_installation S)) (map submitted_key targets) of
       Some key \<Rightarrow> wi_sent w' = wi_sent w \<and> r = Inl (InvalidRequest (IrForeignInstallation key))
     | None \<Rightarrow>
        (let request = batch_request action (ww_db w) targets user retried_from
         in map target_key (bq_targets request) =
              filter (\<lambda>key. pr_table (ww_db w) key \<noteq> None) (map submitted_key targets) \<and>
            (if bq_targets request = []
             then wi_sent w' = wi_sent w \<and> r = Inl (InvalidRequest (IrNothingLeftToRun (length targets)))
             else wi_sent w' = wi_sent w @ [batch_sending S batch_id request] \<and>
               validate_request (sv_uuid S) request batch_id = Inr () \<and>
               (if took (rl_net (sv_restate S)) (batch_sending S batch_id request) (wi_remote w)
                then r = Inr \<lparr>br_left_out =
                  filter (\<lambda>key. pr_table (ww_db w) key = None) (map submitted_key targets)\<rparr>
                else \<exists>cause. r = Inl (Unavailable Restate cause)))))"
proof (cases "find (foreign (ww_db w) (sv_installation S)) (map submitted_key targets)")
  case (Some key)
  with assms show ?thesis using submit_batch_run [OF assms(1-3)] by (auto simp: Let_def)
next
  case None
  have ok: "prs_ok (ww_db w)" using assms(1) by (rule db_ok_parts)
  note keys = still_listed_keys [OF ok, of targets]
  show ?thesis
  proof (cases "still_listed (ww_db w) targets = []")
    case True
    with None assms(4) keys show ?thesis
      using submit_batch_run [OF assms(1-3)] by (auto simp: Let_def batch_request_def)
  next
    case False
    from still_listed_validates [OF assms(3) False keys]
    have "validate_request (sv_uuid S) (batch_request action (ww_db w) targets user retried_from) batch_id = Inr ()"
      by (simp add: batch_request_def)
    with None False keys submit_batch_sends [OF assms None False] show ?thesis
      by (simp add: batch_request_def Let_def)
  qed
qed

text \<open>
  A refresh asked for one pull request of this installation is sent once, under a fresh
  completion id, and the service passes it to the object of that very pull request, past the
  debounce and carrying the id the browser waits for.
\<close>

theorem refresh_reaches_its_object:
  fixes w :: "('g, 'm) web_world_scheme" and S :: "('g, 'v) server_state"
  assumes "db_ok (ww_db w)" and "store_answers w"
    and "pr_table (ww_db w) key = Some pr" and "\<not> foreign (ww_db w) (sv_installation S) key"
    and "request_pr_sync_in S key w = (r, w')"
  shows "\<exists>request. wi_sent w' = wi_sent w @
      [sending (sv_ingress S) (DASHBOARD_INGRESS @ ''/'' @ DASHBOARD_SYNC_PULL_REQUEST)
         (ManualSyncInput request) None] \<and>
    (\<forall>id. r = Inr id \<longrightarrow> id = ms_completion_id request) \<and>
    snd (dashboard_sync_pull_request request sent) = sent @
      [InvokeSync (display_pr_key key)
        \<lparr>sr_repository_id = pk_repository key, sr_owner = pr_owner pr, sr_repo = pr_repo pr,
         sr_number = pk_number key, sr_bypass_debounce = True,
         sr_completion_id = Some (ww_ids w (ww_minted w))\<rparr>]"
proof -
  have ok: "prs_ok (ww_db w)" using assms(1) by (rule db_ok_parts)
  have key: "pr_repository_id pr = pk_repository key" "pr_number pr = pk_number key"
    using pr_table_key [OF ok assms(3)] by (auto simp: record_key_def)
  let ?w1 = "w\<lparr>ww_faults := tl (ww_faults w), ww_reads := ww_reads w + 1\<rparr>"
  let ?request = "\<lparr>ms_repository_id = pr_repository_id pr, ms_owner = pr_owner pr, ms_repo = pr_repo pr,
    ms_number = pr_number pr, ms_completion_id = ww_ids w (ww_minted w)\<rparr>"
  let ?w2 = "?w1\<lparr>ww_minted := ww_minted w + 1\<rparr>"
  have "get_projected (sv_installation S) key (ww_db w) = Inr (PjRow pr)"
    using assms(3,4) by (simp add: get_projected_def get_prs_projected [OF ok] projected_cases [OF ok] foreign_def)
  from read_model_run [where read = "get_projected (sv_installation S) key", OF assms(2) this]
  have row: "projected_pr S key w = (Inr (Some pr), ?w1)" by (simp add: projected_pr_def andthen_def)
  obtain x w3 where sent: "sync_pull_request (sv_restate S) (sv_ingress S) ?request ?w2 = (x, w3)"
    by fastforce
  then have "wi_sent w3 = wi_sent w @ [sending (sv_ingress S)
      (DASHBOARD_INGRESS @ ''/'' @ DASHBOARD_SYNC_PULL_REQUEST) (ManualSyncInput ?request) None]"
    unfolding sync_pull_request_def by (drule_tac ri_send_sent(1)) simp
  moreover have "w' = w3 \<and> (\<forall>id. r = Inr id \<longrightarrow> id = ww_ids w (ww_minted w))"
    using assms(5) sent
    by (cases x) (auto simp: request_pr_sync_in_def andthen_def row new_batch_id_def asking_restate_def)
  ultimately show ?thesis
    by (intro exI [of _ ?request])
      (simp add: dashboard_sync_pull_request_def manual_sync_def request_key_def key Let_def)
qed

section \<open>Paths and the two clients\<close>

text \<open>
  The path built for an object keyed by any text is three segments, the middle one free of
  the separators of a URL, and a server that decodes that segment has the key again; a pull
  request's path is the one its printed key gives.
\<close>

theorem object_paths_round_trip:
  "keyed_handler_path service key handler = service @ ''/'' @ encode_object_key key @ ''/'' @ handler \<and>
   percent_decode (encode_object_key key) = Some key \<and>
   set (encode_object_key key) \<inter> set ''/#?&= '' = {} \<and>
   pr_status_path r n = keyed_handler_path PULL_REQUEST (display_pr_key (PrKey r n)) PULL_REQUEST_STATUS"
proof -
  have "\<not> unreserved c \<and> c \<noteq> CHR ''%''" if "c \<in> set ''/#?&= ''" for c
    using that by (auto simp: unreserved_def byte_def)
  then have "set (encode_object_key key) \<inter> set ''/#?&= '' = {}" using encoded_chars by blast
  then show ?thesis
    by (simp only: keyed_handler_path_def [symmetric] percent_decode_encoded pr_status_path_keyed)
qed

text \<open>
  The web server's own client makes the requests the library's client makes, and reads the
  answers as it does: a send with an input and one without, a call, and a call whose object may
  be unknown.
\<close>

theorem web_client_is_the_librarys:
  "ri_send net I path input key = ingress_send net (as_library I) path input key \<and>
   ri_send_empty net I path = ingress_send_empty net (as_library I) path \<and>
   ri_call net J decode I path = ingress_call net J decode (as_library I) path \<and>
   ri_batch_progress R I batch_id w =
     (case ingress_call_optional (rl_net R) (rl_json R) (rl_progress R) (as_library I)
         (BULK_ACTION @ ''/'' @ batch_id @ ''/'' @ BULK_ACTION_PROGRESS) w of
        (Inr found, w') \<Rightarrow> (Inr (Option.bind found id), w') | (Inl e, w') \<Rightarrow> (Inl e, w'))"
  unfolding ri_batch_progress_def ingress_call_optional_def
  by (auto simp: ri_send_library ri_send_empty_library ri_call_library
      split: prod.splits sum.splits ingress_error.splits)

section \<open>Witnesses\<close>

definition taking_network :: "unit web_network" where
  "taking_network = (\<lambda>_ g. (Inr \<lparr>is_status = 202, is_text = Inr []\<rparr>, g))"

definition taking_libs :: "(unit, unit) restate_libs" where
  "taking_libs = \<lparr>rl_net = taking_network, rl_json = \<lparr>jr_parse = \<lambda>_. Inr (), jr_output = \<lambda>_. None\<rparr>,
     rl_capabilities = \<lambda>_. Inl [], rl_progress = \<lambda>_. Inr None, rl_state = \<lambda>_. Inr None\<rparr>"

definition local_restate :: restate_ingress where
  "local_restate = \<lparr>ri_base = ''http://r'', ri_token = None\<rparr>"

definition idle_wire :: "(unit, web_input) wire" where
  "idle_wire = \<lparr>wi_remote = (), wi_sent = []\<rparr>"

definition closed_delivery :: envelope where
  "closed_delivery = \<lparr>en_kind = ''pull_request'', en_delivery_id = ''d1'', en_action = Some ''closed'',
     en_installation_id = Some 5, en_repository = Some \<lparr>dr_id = 1, dr_owner = ''acme'', dr_name = ''web''\<rparr>,
     en_payload = []\<rparr>"

definition signed_libs :: webhook_libs where
  "signed_libs = \<lparr>wl_from_signed = \<lambda>secret _ body. if secret = body then Inr closed_delivery else Inl 401,
     wl_pull_request = \<lambda>_. Inr (7, ''abc''), wl_check_run = \<lambda>_. Inl [], wl_check_suite = \<lambda>_. Inl [],
     wl_status = \<lambda>_. Inl []\<rparr>"

definition delivery_post :: "string \<Rightarrow> http_incoming" where
  "delivery_post body = \<lparr>hi_verb = ''POST'', hi_path = ''/api/webhooks/github'', hi_authority = None,
     hi_headers = \<lambda>_. None, hi_body = body\<rparr>"

theorem deliveries_forwarded_once_witness:
  "snd (github_webhook signed_libs taking_libs local_restate ''s'' (delivery_post ''t'') idle_wire) = idle_wire \<and>
   hr_status (fst (github_webhook signed_libs taking_libs local_restate ''s'' (delivery_post ''t'') idle_wire)) = 401 \<and>
   length (wi_sent (snd (github_webhook signed_libs taking_libs local_restate ''s'' (delivery_post ''s'') idle_wire))) = 1"
proof -
  have refused: "wl_from_signed signed_libs ''s'' (hi_headers (delivery_post ''t'')) (hi_body (delivery_post ''t'')) = Inl 401"
    and taken: "wl_from_signed signed_libs ''s'' (hi_headers (delivery_post ''s'')) (hi_body (delivery_post ''s''))
      = Inr closed_delivery"
    by (simp_all add: signed_libs_def delivery_post_def)
  have kind: "en_kind closed_delivery \<in> set routed_kinds" and read: "delivery_reads signed_libs closed_delivery"
    by (simp_all add: closed_delivery_def routed_kinds_def delivery_reads_def signed_libs_def)
  show ?thesis
    using deliveries_forwarded_once [OF prod.collapse [symmetric], of signed_libs taking_libs local_restate
        "''s''" "delivery_post ''t''" idle_wire]
      deliveries_forwarded_once [OF prod.collapse [symmetric], of signed_libs taking_libs local_restate
        "''s''" "delivery_post ''s''" idle_wire]
    unfolding refused taken by (auto simp: kind read idle_wire_def)
qed

theorem deliveries_address_their_object_witness:
  "\<exists>event. route_delivery signed_libs closed_delivery = Inr (Forward event) \<and>
     snd (dispatch 5 event []) = [InvokeClosed (display_pr_key (PrKey 1 7)) \<lparr>cr_synced_before = None\<rparr>]"
proof -
  have "delivery_from (en_kind closed_delivery) = DkPullRequest"
    "wl_pull_request signed_libs closed_delivery = Inr (7, ''abc'')"
    "en_repository closed_delivery = Some \<lparr>dr_id = 1, dr_owner = ''acme'', dr_name = ''web''\<rparr>"
    "en_installation_id closed_delivery \<in> {None, Some 5}"
    by (simp_all add: closed_delivery_def signed_libs_def delivery_from_def delivery_routed_def)
  from deliveries_address_their_object [OF this, of "[]"] show ?thesis
    by (simp add: closed_delivery_def)
qed

definition plain_edge :: edge_libs where
  "plain_edge = \<lparr>el_to_str = Some, el_base64 = Some, el_ct_eq = (=)\<rparr>"

definition dashboard_get :: http_incoming where
  "dashboard_get = \<lparr>hi_verb = ''GET'', hi_path = ''/'', hi_authority = None,
     hi_headers = (\<lambda>_. None)(''authorization'' := Some ''Basic u:p''), hi_body = []\<rparr>"

definition foreign_post :: http_incoming where
  "foreign_post = dashboard_get\<lparr>hi_verb := ''POST'',
     hi_headers := (hi_headers dashboard_get)(''sec-fetch-site'' := Some ''cross-site'')\<rparr>"

theorem dashboard_is_guarded_witness:
  "web_router plain_edge \<lparr>cn_username = ''u'', cn_password = ''p''\<rparr>
     (\<lambda>_ w. (plain_reply 200 [], w))
     (\<lambda>user _ w. (plain_reply 200 user, w)) dashboard_get () = (plain_reply 200 ''u'', ()) \<and>
   hr_status (fst (web_router plain_edge \<lparr>cn_username = ''u'', cn_password = ''q''\<rparr>
     (\<lambda>_ w. (plain_reply 200 [], w))
     (\<lambda>user _ w. (plain_reply 200 user, w)) dashboard_get ())) = 401 \<and>
   hr_status (fst (web_router plain_edge \<lparr>cn_username = ''u'', cn_password = ''p''\<rparr>
     (\<lambda>_ w. (plain_reply 200 [], w))
     (\<lambda>user _ w. (plain_reply 200 user, w)) foreign_post ())) = 403"
proof -
  have law: "el_ct_eq plain_edge a b \<longleftrightarrow> a = b" for a b by (simp add: plain_edge_def)
  have path: "hi_path dashboard_get \<noteq> ''/api/webhooks/github''" "hi_path foreign_post \<noteq> ''/api/webhooks/github''"
    by (simp_all add: dashboard_get_def foreign_post_def)
  have yes: "signs_in plain_edge \<lparr>cn_username = ''u'', cn_password = ''p''\<rparr> dashboard_get"
    "signs_in plain_edge \<lparr>cn_username = ''u'', cn_password = ''p''\<rparr> foreign_post"
    and no: "\<not> signs_in plain_edge \<lparr>cn_username = ''u'', cn_password = ''q''\<rparr> dashboard_get"
    by (simp_all add: signs_in_def plain_edge_def dashboard_get_def foreign_post_def from_utf8_def byte_def)
  have safe: "only_reads dashboard_get" "\<not> (only_reads foreign_post \<or> from_own_site plain_edge foreign_post)"
    by (simp_all add: only_reads_def from_own_site_def dashboard_get_def foreign_post_def)
  let ?run = "\<lambda>pass. web_router plain_edge \<lparr>cn_username = ''u'', cn_password = pass\<rparr>
     (\<lambda>_ w. (plain_reply 200 [], w)) (\<lambda>user _ w. (plain_reply 200 user, w))"
  note guarded = dashboard_is_guarded [OF law, where webhook = "\<lambda>_ w. (plain_reply 200 [], w)"
      and app = "\<lambda>user _ w. (plain_reply 200 user, w)" and w = "()"]
  have "?run ''p'' dashboard_get () = (plain_reply 200 ''u'', ())"
    using guarded [OF path(1), where c = "\<lparr>cn_username = ''u'', cn_password = ''p''\<rparr>"] by (simp add: yes safe)
  moreover have "hr_status (fst (?run ''q'' dashboard_get ())) = 401"
    using guarded [OF path(1), where c = "\<lparr>cn_username = ''u'', cn_password = ''q''\<rparr>"] by (simp add: no)
  moreover have "hr_status (fst (?run ''p'' foreign_post ())) = 403"
    using guarded [OF path(2), where c = "\<lparr>cn_username = ''u'', cn_password = ''p''\<rparr>"]
    unfolding if_not_P [OF safe(2)] by (simp add: yes)
  ultimately show ?thesis by blast
qed

definition acme_web :: "unit web_world" where
  "acme_web = \<lparr>wi_remote = (), wi_sent = [], ww_db = acme_db, ww_faults = [], ww_times = \<lambda>_. 20,
     ww_reads = 0, ww_ids = \<lambda>_. ''id'', ww_minted = 0\<rparr>"

definition acme_server :: "(unit, unit) server_state" where
  "acme_server = \<lparr>sv_ingress = local_restate, sv_installation = 5, sv_restate = taking_libs,
     sv_encode = \<lambda>_. [], sv_decode = \<lambda>_. None, sv_uuid = \<lambda>_. Some 7\<rparr>"

definition two_submitted :: "submitted_target list" where
  "two_submitted = [\<lparr>st_repository_id = 1, st_number = 7, st_expected_sha = ''abc''\<rparr>,
     \<lparr>st_repository_id = 1, st_number = 8, st_expected_sha = ''def''\<rparr>]"

lemma acme_not_foreign: "\<not> foreign acme_db 5 (PrKey 1 7)" "\<not> foreign acme_db 5 (PrKey 1 8)"
  by (simp_all add: foreign_def acme_tables acme_repo_def)

theorem submission_is_partitioned_witness:
  "fst (submit_batch_in acme_server ''u'' ''b'' BkMerge two_submitted None acme_web) =
     Inr \<lparr>br_left_out = [PrKey 1 8]\<rparr> \<and>
   length (wi_sent (snd (submit_batch_in acme_server ''u'' ''b'' BkMerge two_submitted None acme_web))) = 1"
proof -
  have "db_ok (ww_db acme_web)" "store_answers acme_web"
    "validate_batch (sv_uuid acme_server) ''b'' None (map submitted_key two_submitted) = Inr ()"
    by (simp_all add: acme_web_def acme_ok store_answers_def acme_server_def two_submitted_def
        validate_batch_Inr_iff valid_batch_id_def submitted_key_def)
  from submission_is_partitioned [OF this prod.collapse [symmetric], of "''u''" BkMerge]
  show ?thesis
    by (simp add: acme_web_def acme_server_def two_submitted_def submitted_key_def acme_not_foreign
        still_listed_def batch_request_def acme_tables taking_libs_def taking_network_def took_def answered_well_def Let_def)
qed

theorem refresh_reaches_its_object_witness:
  "\<exists>request. length (wi_sent (snd (request_pr_sync_in acme_server (PrKey 1 7) acme_web))) = 1 \<and>
     snd (dashboard_sync_pull_request request []) = [InvokeSync (display_pr_key (PrKey 1 7))
       \<lparr>sr_repository_id = 1, sr_owner = pr_owner serde_pr, sr_repo = pr_repo serde_pr, sr_number = 7,
        sr_bypass_debounce = True, sr_completion_id = Some ''id''\<rparr>]"
proof -
  have "db_ok (ww_db acme_web)" "store_answers acme_web" "pr_table (ww_db acme_web) (PrKey 1 7) = Some serde_pr"
    "\<not> foreign (ww_db acme_web) (sv_installation acme_server) (PrKey 1 7)"
    by (simp_all add: acme_web_def acme_ok store_answers_def acme_server_def acme_not_foreign acme_tables)
  from refresh_reaches_its_object [OF this prod.collapse [symmetric], of "[]"] show ?thesis
    by (auto simp: acme_web_def)
qed

end
