(* ===== verification/Ui_Follow_Contract.thy ===== *)
theory Ui_Follow_Contract
  imports Ui_Follow Web_Contract
begin

text \<open>
  What following a batch promises: a submission is tried a bounded number of times, the follow's
  outcome is a function of the answers alone, a batch Restate is known to have is never given up,
  and the drawer lists the targets Restate was sent.
\<close>

section \<open>Submitting\<close>

text \<open>A gateway that counts the submissions made through it.\<close>

definition counting :: "('g, 'm) submit_gateway_scheme \<Rightarrow> (nat \<times> 'g) submit_gateway" where
  "counting G =
     \<lparr>bg_progress = (\<lambda>(n, g). case bg_progress G g of (r, g') \<Rightarrow> (r, (n, g'))),
      bg_tick = (\<lambda>(n, g). (n, bg_tick G g)), bg_now = (\<lambda>(n, g). bg_now G g),
      sg_submit = (\<lambda>(n, g). case sg_submit G g of (r, g') \<Rightarrow> (r, (n + 1, g')))\<rparr>"

lemma submit_from_counted:
  assumes "1 \<le> attempt" and "attempt \<le> 5"
  shows "\<exists>r n g'. submit_from (counting G) attempt (k, g) = (r, (n, g')) \<and>
    submit_from G attempt g = (r, g') \<and> k < n \<and> n + attempt \<le> k + 6 \<and>
    (\<forall>receipt. r = Inr (Accepted receipt) \<longrightarrow> attempt = 1 \<and> n = k + 1) \<and>
    (\<forall>f. r = Inl f \<longrightarrow> f = SignedOutFault \<or> n + attempt = k + 6)"
  using assms
proof (induction "5 - attempt" arbitrary: attempt k g rule: less_induct)
  case less
  obtain a g1 where submit: "sg_submit G g = (a, g1)" by fastforce
  obtain b g2 where ask: "bg_progress G g1 = (b, g2)" by fastforce
  show ?case
  proof (cases a)
    case (Inr receipt)
    with submit ask less.prems show ?thesis
      by (subst submit_from.simps, subst submit_from.simps [of G])
        (auto simp: counting_def split: sum.splits)
  next
    case (Inl error)
    show ?thesis
    proof (cases "error = SignedOutFault \<or> b = Inl SignedOutFault \<or> (\<exists>progress. b = Inr (Some progress)) \<or> attempt = 5")
      case True
      with submit ask Inl less.prems show ?thesis
        by (subst submit_from.simps, subst submit_from.simps [of G])
          (auto simp: counting_def SUBMIT_ATTEMPTS_def split: sum.splits option.splits)
    next
      case False
      with less.prems have small: "attempt < 5" by simp
      then have "\<exists>r n g'. submit_from (counting G) (attempt + 1) (k + 1, bg_tick G g2) = (r, (n, g')) \<and>
        submit_from G (attempt + 1) (bg_tick G g2) = (r, g') \<and> k + 1 < n \<and> n + (attempt + 1) \<le> k + 1 + 6 \<and>
        (\<forall>receipt. r = Inr (Accepted receipt) \<longrightarrow> attempt + 1 = 1 \<and> n = k + 1 + 1) \<and>
        (\<forall>f. r = Inl f \<longrightarrow> f = SignedOutFault \<or> n + (attempt + 1) = k + 1 + 6)"
        by (intro less.hyps) auto
      moreover have "submit_from (counting G) attempt (k, g) = submit_from (counting G) (attempt + 1) (k + 1, bg_tick G g2)"
        "submit_from G attempt g = submit_from G (attempt + 1) (bg_tick G g2)"
        using submit ask Inl False small
        by (subst submit_from.simps, auto simp: counting_def SUBMIT_ATTEMPTS_def split: sum.splits option.splits)+
      ultimately show ?thesis using less.prems(1) by auto
    qed
  qed
qed

text \<open>
  C20: A submission is tried at least once and at most five times, counting changes nothing about
  it, the server's receipt is only ever the first try's, and the batch is reported as not
  submitted only once five tries have failed or the credentials were refused.
\<close>

theorem submissions_are_bounded:
  "\<exists>r n g'. submit_from (counting G) 1 (0, g) = (r, (n, g')) \<and> submit_from G 1 g = (r, g') \<and>
     1 \<le> n \<and> n \<le> 5 \<and>
     (case r of
        Inr (Accepted _) \<Rightarrow> n = 1
      | Inr (Already _) \<Rightarrow> True
      | Inl f \<Rightarrow> f = SignedOutFault \<or> n = 5)"
proof -
  obtain r n g' where "submit_from (counting G) 1 (0, g) = (r, (n, g'))" "submit_from G 1 g = (r, g')"
    "0 < n" "n + 1 \<le> 6" "\<forall>receipt. r = Inr (Accepted receipt) \<longrightarrow> n = 1"
    "\<forall>f. r = Inl f \<longrightarrow> f = SignedOutFault \<or> n + 1 = 6"
    using submit_from_counted [of 1 G 0 g] by auto
  then show ?thesis
    by (intro exI [of _ r] exI [of _ n] exI [of _ g']) (auto split: sum.splits taken.splits)
qed

section \<open>Polling\<close>

text \<open>The answers a gateway gives to polls made one after the other.\<close>

fun polled :: "('g, 'm) batch_gateway_scheme \<Rightarrow> nat \<Rightarrow> 'g \<Rightarrow> 'g" where
  "polled G 0 g = g"
| "polled G (Suc n) g = polled G n (snd (bg_progress G (bg_tick G g)))"

type_synonym poll_answer = "fault + batch_progress option"

fun poll_answers :: "('g, 'm) batch_gateway_scheme \<Rightarrow> nat \<Rightarrow> 'g \<Rightarrow> poll_answer list" where
  "poll_answers G 0 g = []"
| "poll_answers G (Suc n) g =
     fst (bg_progress G (bg_tick G g)) # poll_answers G n (snd (bg_progress G (bg_tick G g)))"

text \<open>
  The contract: what each answer means to a follow that knows, or does not know, that Restate has
  the batch, after so many empty answers.
\<close>

fun weigh :: "bool \<Rightarrow> nat \<Rightarrow> poll_answer \<Rightarrow> batch_outcome + bool \<times> nat" where
  "weigh known e (Inr (Some p)) = (if bp_completed p then Inl (BatchCompleted p) else Inr (True, e))"
| "weigh known e (Inr None) =
     (if known then Inr (True, e) else if e + 1 = 30 then Inl UnknownBatch else Inr (False, e + 1))"
| "weigh known e (Inl f) = (if f = SignedOutFault then Inl FollowSignedOut else Inr (known, e))"

fun verdict_of :: "bool \<Rightarrow> nat \<Rightarrow> poll_answer list \<Rightarrow> batch_outcome option" where
  "verdict_of known e [] = None"
| "verdict_of known e (a # as) =
     (case weigh known e a of Inl outcome \<Rightarrow> Some outcome | Inr (known', e') \<Rightarrow> verdict_of known' e' as)"

lemma hear_completed: "follow_completed (snd (hear progress now F)) \<longleftrightarrow> bp_completed progress"
  and hear_progress: "fo_progress (snd (hear progress now F)) = Some progress"
  and hear_trouble: "fo_trouble (snd (hear progress now F)) = fo_trouble F"
  by (auto simp: hear_def follow_completed_def)

lemma answered_frame:
  "fo_progress (snd (answered t F)) = fo_progress F" "fo_trouble (snd (answered t F)) = t"
  by (auto simp: answered_def)

lemma poll_round_weighs:
  assumes "\<not> follow_completed F" and "unat e < 30"
  shows "case weigh known (unat e) (fst (bg_progress G (bg_tick G g))) of
      Inl outcome \<Rightarrow> \<exists>p'. poll_round G report (F, known, e, g, p) =
        Inl (outcome, snd (bg_progress G (bg_tick G g)), p')
    | Inr (known', e') \<Rightarrow> \<exists>F' p'. poll_round G report (F, known, e, g, p) =
        Inr (F', known', of_nat e', snd (bg_progress G (bg_tick G g)), p') \<and> \<not> follow_completed F' \<and> e' < 30"
proof -
  obtain a g' where ask: "bg_progress G (bg_tick G g) = (a, g')" by fastforce
  have e1: "unat (e + 1) = unat e + 1" using assms(2) by (simp add: unat_word_ariths)
  have limit: "e + 1 = ATTACH_LIMIT \<longleftrightarrow> unat e + 1 = 30"
    unfolding ATTACH_LIMIT_def word_unat_eq_iff using e1 by simp
  show ?thesis
  proof (cases a)
    case (Inl f)
    with ask assms answered_frame [of "Some f" F] show ?thesis
      by (auto simp: poll_round_def follow_signed_out_def follow_completed_def Let_def
          split: prod.splits option.splits)
  next
    case (Inr found)
    note tr = answered_frame [of None F]
    show ?thesis
    proof (cases found)
      case None
      with ask Inr assms tr limit e1 show ?thesis
        by (auto simp: poll_round_def follow_signed_out_def follow_completed_def Let_def
            split: prod.splits option.splits)
    next
      case (Some progress)
      obtain c F1 where F1: "answered None F = (c, F1)" by fastforce
      obtain n F2 where F2: "hear progress (bg_now G g') F1 = (n, F2)" by fastforce
      have "fo_trouble F2 = None" "fo_progress F2 = Some progress"
        using tr hear_trouble [of progress "bg_now G g'" F1] hear_progress [of progress "bg_now G g'" F1] F1 F2
        by simp_all
      with ask Inr Some assms(2) F1 F2 show ?thesis
        by (auto simp: poll_round_def follow_signed_out_def follow_completed_def Let_def)
    qed
  qed
qed

lemma poll_rounds_weigh:
  assumes "\<not> follow_completed F" and "unat e < 30"
  shows "(\<exists>s' o' g' p'. rounds (poll_round G report) n (F, known, e, g, p) = Some s' \<and>
      poll_round G report s' = Inl (o', g', p') \<and> outcome = o') \<longleftrightarrow>
    verdict_of known (unat e) (poll_answers G (Suc n) g) = Some outcome \<and>
    verdict_of known (unat e) (poll_answers G n g) = None"
  using assms
proof (induction n arbitrary: F known e g p)
  case 0
  then show ?case using poll_round_weighs [OF 0, where known = known and G = G and g = g and report = report and p = p]
    by (auto split: sum.splits)
next
  case (Suc n)
  note step = poll_round_weighs [OF Suc.prems, where known = known and G = G and g = g and report = report and p = p]
  let ?a = "fst (bg_progress G (bg_tick G g))" and ?g = "snd (bg_progress G (bg_tick G g))"
  show ?case
  proof (cases "weigh known (unat e) ?a")
    case (Inl o')
    with step show ?thesis by auto
  next
    case (Inr known_e)
    obtain known' e' where ke: "known_e = (known', e')" by fastforce
    with step Inr obtain F' p' where next_round: "poll_round G report (F, known, e, g, p) =
        Inr (F', known', of_nat e', ?g, p')" "\<not> follow_completed F'" "e' < 30" by auto
    then have "unat (of_nat e' :: u32) = e'" by (simp add: unat_of_nat)
    with Suc.IH [OF next_round(2), where e = "of_nat e'" and known = known' and g = ?g and p = p'] next_round Inr ke show ?thesis by simp
  qed
qed

lemma verdict_prefix:
  "verdict_of known e (poll_answers G n g) = Some outcome \<Longrightarrow> n \<le> m \<Longrightarrow>
     verdict_of known e (poll_answers G m g) = Some outcome"
proof (induction n arbitrary: known e g m)
  case 0
  then show ?case by simp
next
  case (Suc n)
  then obtain m' where "m = Suc m'" "n \<le> m'" by (cases m) auto
  with Suc show ?case by (auto split: sum.splits)
qed

lemma poll_batch_verdict:
  assumes "\<not> follow_completed F"
  shows "(\<exists>s'. poll_batch G report F known (g, p) = Some (outcome, s')) \<longleftrightarrow>
    (\<exists>n. verdict_of known 0 (poll_answers G n g) = Some outcome)"
proof -
  have zero: "unat (0 :: u32) < 30" by simp
  note weigh = poll_rounds_weigh [OF assms zero, where known = known and G = G and report = report
      and g = g and p = p and outcome = outcome]
  show ?thesis
  proof
    assume "\<exists>s'. poll_batch G report F known (g, p) = Some (outcome, s')"
    then obtain n s' g' p' where "rounds (poll_round G report) n (F, known, 0, g, p) = Some s'"
      "poll_round G report s' = Inl (outcome, g', p')" by (auto simp: poll_batch_def loop_iff)
    then have "verdict_of known (unat (0 :: u32)) (poll_answers G (Suc n) g) = Some outcome"
      using weigh [of n] by blast
    then show "\<exists>n. verdict_of known 0 (poll_answers G n g) = Some outcome"
      by (intro exI [of _ "Suc n"]) (simp only: unat_0)
  next
    assume "\<exists>n. verdict_of known 0 (poll_answers G n g) = Some outcome"
    then obtain n where least: "verdict_of known 0 (poll_answers G n g) = Some outcome"
      "\<forall>k<n. verdict_of known 0 (poll_answers G k g) \<noteq> Some outcome"
      using exists_least_iff [of "\<lambda>n. verdict_of known 0 (poll_answers G n g) = Some outcome"] by auto
    then obtain m where m: "n = Suc m" by (cases n) auto
    have "verdict_of known 0 (poll_answers G m g) = None"
      using verdict_prefix [of known 0 G m g _ n] least m by (cases "verdict_of known 0 (poll_answers G m g)") auto
    with least m weigh [of m] obtain s' g' p' where
      "rounds (poll_round G report) m (F, known, 0, g, p) = Some s'"
      "poll_round G report s' = Inl (outcome, g', p')" by auto
    from rounds_loop [OF this] show "\<exists>s'. poll_batch G report F known (g, p) = Some (outcome, s')"
      by (simp add: poll_batch_def)
  qed
qed

text \<open>
  C19: What a follow of a batch that is not yet complete comes to, and whether it ends at all, is
  what the answers to its polls say by the contract, whatever the page makes of the reports: it
  ends at the first answer that completes the batch or refuses the credentials, or at the
  thirtieth empty one while nothing has vouched for the batch, and runs on while there is none.
\<close>

theorem follow_refines_the_answers:
  assumes "\<not> follow_completed F"
  shows "map_option fst (poll_batch G report F known (g, p)) =
    (if \<exists>n outcome. verdict_of known 0 (poll_answers G n g) = Some outcome
     then verdict_of known 0 (poll_answers G (LEAST n. verdict_of known 0 (poll_answers G n g) \<noteq> None) g)
     else None)"
proof (cases "\<exists>n outcome. verdict_of known 0 (poll_answers G n g) = Some outcome")
  case True
  let ?n = "LEAST n. verdict_of known 0 (poll_answers G n g) \<noteq> None"
  have "verdict_of known 0 (poll_answers G ?n g) \<noteq> None" by (rule LeastI_ex) (use True in auto)
  then obtain outcome where "verdict_of known 0 (poll_answers G ?n g) = Some outcome" by auto
  with True poll_batch_verdict [OF assms, where G = G and g = g and p = p and known = known and report = report
      and outcome = outcome] show ?thesis by auto
next
  case False
  with poll_batch_verdict [OF assms, where G = G and g = g and p = p and known = known and report = report]
  show ?thesis by (cases "poll_batch G report F known (g, p)") auto
qed

lemma poll_round_known:
  "poll_round G report (F, True, e, s) = Inl (outcome, s') \<Longrightarrow> outcome \<noteq> UnknownBatch"
  "poll_round G report (F, True, e, s) = Inr (F', known, e', s'') \<Longrightarrow> known"
  by (cases s; auto simp: poll_round_def Let_def split: prod.splits sum.splits option.splits if_splits)+

lemma poll_known_never_unknown: "poll_batch G report F True s = Some (outcome, s') \<Longrightarrow> outcome \<noteq> UnknownBatch"
proof -
  assume run: "poll_batch G report F True s = Some (outcome, s')"
  obtain g p where s: "s = (g, p)" by (cases s)
  have "\<exists>st. fst (snd st) \<and> poll_round G report st = Inl (outcome, s')"
    using run unfolding poll_batch_def s prod.case
    by (rule loop_keeps) (auto dest: poll_round_known(2))
  then show ?thesis using poll_round_known(1) by (metis prod.collapse)
qed

lemma weigh_known: "weigh True e a \<noteq> Inl UnknownBatch" "weigh True e a = Inr (known, e') \<Longrightarrow> known"
  by (cases "(True, e, a)" rule: weigh.cases; auto split: if_splits)+

lemma verdict_known: "verdict_of True e as \<noteq> Some UnknownBatch"
proof (induction as arbitrary: e)
  case Nil
  then show ?case by simp
next
  case (Cons a as)
  then show ?case using weigh_known [of e a] by (cases "weigh True e a") auto
qed

lemma weigh_unknown:
  "weigh False e a = Inl UnknownBatch \<longleftrightarrow> a = Inr None \<and> e + 1 = 30"
  "weigh False e a = Inr (False, e') \<Longrightarrow>
     a \<in> insert (Inr None) (Inl ` (- {SignedOutFault})) \<and> e' = (if a = Inr None then e + 1 else e)"
  by (cases "(False, e, a)" rule: weigh.cases; auto split: if_splits)+

lemma take_poll_answers: "k \<le> n \<Longrightarrow> take k (poll_answers G n g) = poll_answers G k g"
proof (induction n arbitrary: k g)
  case 0
  then show ?case by simp
next
  case (Suc n)
  then show ?case by (cases k) auto
qed

lemma length_poll_answers [simp]: "length (poll_answers G n g) = n"
  by (induction n arbitrary: g) auto

lemma unknown_answers:
  "verdict_of False e as = Some UnknownBatch \<Longrightarrow> e < 30 \<Longrightarrow>
    \<exists>n\<le>length as. e + count_list (take n as) (Inr None) = 30 \<and>
      set (take n as) \<subseteq> insert (Inr None) (Inl ` (- {SignedOutFault}))"
proof (induction as arbitrary: e)
  case Nil
  then show ?case by simp
next
  case (Cons a as)
  show ?case
  proof (cases "weigh False e a")
    case (Inl outcome)
    with Cons.prems weigh_unknown(1) [of e a] show ?thesis by (intro exI [of _ 1]) auto
  next
    case (Inr known_e)
    obtain known e' where ke: "known_e = (known, e')" by fastforce
    with Inr Cons.prems(1) have rest: "verdict_of known e' as = Some UnknownBatch" by simp
    then have "\<not> known" using verdict_known [of e' as] by (cases known) auto
    with Inr ke weigh_unknown(2) [of e a e'] weigh_unknown(1) [of e a] Cons.prems(2)
    have a: "a \<in> insert (Inr None) (Inl ` (- {SignedOutFault}))" "e' = (if a = Inr None then e + 1 else e)" "e' < 30"
      by auto
    from Cons.IH [of e'] rest \<open>\<not> known\<close> a(3) obtain n where "n \<le> length as"
      "e' + count_list (take n as) (Inr None) = 30"
      "set (take n as) \<subseteq> insert (Inr None) (Inl ` (- {SignedOutFault}))" by auto
    with a show ?thesis by (intro exI [of _ "Suc n"]) auto
  qed
qed

lemma run_followed_known: "run_followed G report on_accepted F s \<noteq> Some (UnknownBatch, s')"
proof
  assume run: "run_followed G report on_accepted F s = Some (UnknownBatch, s')"
  obtain g p where s: "s = (g, p)" by (cases s)
  obtain r g1 where r: "submit_from G 1 g = (r, g1)" by fastforce
  show False
  proof (cases r)
    case (Inl f)
    with run s r show False by (simp add: run_followed_cases)
  next
    case (Inr taken)
    have "\<exists>F' s2. run_followed G report on_accepted F s = poll_batch G report F' True s2 \<or>
        (\<exists>q s3. run_followed G report on_accepted F s = Some (BatchCompleted q, s3))"
    proof (cases taken)
      case (Accepted receipt)
      with s r Inr show ?thesis by (simp add: run_followed_cases Let_def) blast
    next
      case (Already progress)
      obtain F1 p1 where "(case progress of None \<Rightarrow> (F, p) | Some q \<Rightarrow>
          (case hear q (bg_now G g1) F of (news, F1) \<Rightarrow> (F1, if news then report F1 p else p))) = (F1, p1)"
        by fastforce
      with s r Inr Already show ?thesis
        by (cases "fo_progress F1") (auto simp: run_followed_cases Let_def)
    qed
    with run poll_known_never_unknown [of G report] show False by fastforce
  qed
qed

lemma poll_unknown:
  "poll_batch A report F False (g, p) = Some (UnknownBatch, t) \<Longrightarrow> \<not> follow_completed F \<Longrightarrow>
     \<exists>n. verdict_of False 0 (poll_answers A n g) = Some UnknownBatch"
  using poll_batch_verdict [where G = A and known = False and outcome = UnknownBatch and g = g and p = p
      and report = report and F = F] by blast

lemma follow_batch_unknown:
  assumes "follow_batch A report F (g, p) = Some (UnknownBatch, t)" and "\<not> follow_completed F"
  shows "(case fst (ag_projected A g) of Inr found \<Rightarrow> found = None | Inl f \<Rightarrow> f \<noteq> SignedOutFault) \<and>
    (\<exists>n. verdict_of False 0 (poll_answers A n (snd (ag_projected A g))) = Some UnknownBatch)"
proof -
  obtain a g1 where a: "ag_projected A g = (a, g1)" by fastforce
  have same: "follow_completed (F\<lparr>fo_listing := l\<rparr>) \<longleftrightarrow> follow_completed F"
    "follow_completed (snd (answered tr (F\<lparr>fo_listing := l\<rparr>))) \<longleftrightarrow> follow_completed F" for l tr
    by (auto simp: follow_completed_def answered_frame)
  consider f where "a = Inl f" | "a = Inr None" | b where "a = Inr (Some (BatchRunning b))"
    | r where "a = Inr (Some (BatchFinished r))"
    by (metis option.exhaust projected_batch.exhaust sum.exhaust)
  then show ?thesis
  proof cases
    case 1
    with assms(1) a have "f \<noteq> SignedOutFault"
      by (auto simp: follow_batch_def Let_def follow_signed_out_def answered_frame)
    with 1 assms(1) a obtain p1 where "poll_batch A report (snd (answered (Some f) (F\<lparr>fo_listing := Unreadable\<rparr>))) False (g1, p1) =
        Some (UnknownBatch, t)"
      by (auto simp: follow_batch_def Let_def follow_signed_out_def answered_frame)
    from poll_unknown [OF this] same assms(2) 1 a \<open>f \<noteq> SignedOutFault\<close> show ?thesis by simp
  next
    case 2
    with assms(1) a obtain p1 where "poll_batch A report (F\<lparr>fo_listing := Unlisted\<rparr>) False (g1, p1) = Some (UnknownBatch, t)"
      by (auto simp: follow_batch_def Let_def)
    from poll_unknown [OF this] same assms(2) 2 a show ?thesis by simp
  next
    case 3
    with assms(1) a show ?thesis
      by (auto simp: follow_batch_def Let_def dest: poll_known_never_unknown)
  next
    case 4
    with assms(1) a show ?thesis by (simp add: follow_batch_def Let_def)
  qed
qed

text \<open>
  C21: A batch is given up as unknown only where nothing vouched for it: never one this page
  submitted, and one known by its id only when the read of the projection found nothing of it, or
  failed without refusing the credentials, and Restate has answered thirty times that it has
  nothing, with no progress in between; unanswered polls count for nothing. One the projection
  answered for, running or recorded, is never unknown.
\<close>

theorem unknown_batch_was_unvouched:
  "run_followed G report on_accepted F s \<noteq> Some (UnknownBatch, s') \<and>
   (follow_batch A report F (g, p) = Some (UnknownBatch, t) \<longrightarrow> \<not> follow_completed F \<longrightarrow>
      (case fst (ag_projected A g) of Inr found \<Rightarrow> found = None | Inl f \<Rightarrow> f \<noteq> SignedOutFault) \<and>
      (\<exists>n. count_list (poll_answers A n (snd (ag_projected A g))) (Inr None) = 30 \<and>
         set (poll_answers A n (snd (ag_projected A g))) \<subseteq> insert (Inr None) (Inl ` (- {SignedOutFault}))))"
proof -
  have counted: "\<exists>n. count_list (poll_answers A n g1) (Inr None) = 30 \<and>
      set (poll_answers A n g1) \<subseteq> insert (Inr None) (Inl ` (- {SignedOutFault}))"
    if "verdict_of False 0 (poll_answers A m g1) = Some UnknownBatch" for m g1
  proof -
    from unknown_answers [OF that] obtain n where "n \<le> m"
      "count_list (take n (poll_answers A m g1)) (Inr None) = 30"
      "set (take n (poll_answers A m g1)) \<subseteq> insert (Inr None) (Inl ` (- {SignedOutFault}))" by auto
    then show ?thesis unfolding take_poll_answers [OF \<open>n \<le> m\<close>] by blast
  qed
  have "run_followed G report on_accepted F s \<noteq> Some (UnknownBatch, s')" by (rule run_followed_known)
  then show ?thesis using follow_batch_unknown [of A report F g p t] counted by metis
qed

section \<open>What the drawer lists\<close>

lemma filter_not_left_out:
  "filter (\<lambda>key. key \<notin> set (filter (\<lambda>k. \<not> P k) keys)) keys = filter P keys"
  by (rule filter_cong) auto

lemma leave_out_keys:
  assumes "fo_progress F = Some progress" and "\<not> fo_heard F"
  shows "\<exists>left. fo_progress (leave_out keys F) = Some left \<and>
    map item_key (bp_targets left) = filter (\<lambda>key. key \<notin> set keys) (map item_key (bp_targets progress))"
  using assms by (simp add: leave_out_def filter_map o_def)

text \<open>
  Once the first submission is accepted, the targets the drawer lists, the page's own
  snapshot less what the receipt leaves out, are exactly the targets of the batch Restate was
  sent, in order.
\<close>

theorem drawer_lists_what_runs:
  fixes w :: "('g, 'm) web_world_scheme" and S :: "('g, 'v) server_state"
  assumes "db_ok (ww_db w)" and "store_answers w"
    and "submit_batch_in S user batch_id action (map submit_target targets) retried_from w = (Inr receipt, w')"
  shows "\<exists>request listed. wi_sent w' = wi_sent w @ [batch_sending S batch_id request] \<and>
    fo_progress (leave_out (br_left_out receipt) (followed_queued batch_id action targets now)) = Some listed \<and>
    map item_key (bp_targets listed) = map target_key (bq_targets request)"
proof -
  let ?ts = "map submit_target targets" and ?F = "followed_queued batch_id action targets now"
  have keys: "map submitted_key ?ts = map target_key targets" by simp
  have valid: "validate_batch (sv_uuid S) batch_id retried_from (map submitted_key ?ts) = Inr ()"
    using assms(3) by (auto simp: submit_batch_in_def Let_def andthen_lift split: sum.splits)
  note run = submit_batch_run [OF assms(1,2) valid, of user action]
  have none: "find (foreign (ww_db w) (sv_installation S)) (map submitted_key ?ts) = None"
    using run assms(3) by (cases "find (foreign (ww_db w) (sv_installation S)) (map submitted_key ?ts)")
      (auto simp: Let_def)
  have some: "still_listed (ww_db w) ?ts \<noteq> []"
    using run assms(3) none by (auto simp: Let_def)
  note sends = submit_batch_sends [OF assms(1,2) valid assms(3) none some]
  have receipt: "br_left_out receipt = filter (\<lambda>key. pr_table (ww_db w) key = None) (map target_key targets)"
    using sends(3) unfolding keys by (auto split: if_splits)
  have "fo_progress ?F = Some (queued batch_id action targets)" "\<not> fo_heard ?F"
    by (simp_all add: followed_queued_def)
  from leave_out_keys [OF this, of "br_left_out receipt"] obtain listed where
    "fo_progress (leave_out (br_left_out receipt) ?F) = Some listed"
    "map item_key (bp_targets listed) = filter (\<lambda>key. key \<notin> set (br_left_out receipt)) (map target_key targets)"
    by (auto simp: queued_def item_key_def o_def)
  moreover have "map target_key (bq_targets (batch_request action (ww_db w) ?ts user retried_from)) =
      filter (\<lambda>key. pr_table (ww_db w) key \<noteq> None) (map target_key targets)"
    using still_listed_keys [OF db_ok_parts [OF assms(1)], of ?ts] unfolding keys by (simp add: batch_request_def)
  moreover have "filter (\<lambda>key. key \<notin> set (br_left_out receipt)) (map target_key targets) =
      filter (\<lambda>key. pr_table (ww_db w) key \<noteq> None) (map target_key targets)"
    unfolding receipt by (rule filter_cong) auto
  ultimately show ?thesis using sends(2) by metis
qed

section \<open>Witnesses\<close>

definition silent_follow :: "unit attach_gateway" where
  "silent_follow = \<lparr>bg_progress = (\<lambda>g. (Inr None, g)), bg_tick = id, bg_now = (\<lambda>_. 0),
     ag_projected = (\<lambda>g. (Inr None, g))\<rparr>"

definition done_progress :: batch_progress where
  "done_progress = (queued ''b'' BkMerge [])\<lparr>bp_completed := True\<rparr>"

definition finished_follow :: "unit attach_gateway" where
  "finished_follow = silent_follow\<lparr>bg_progress := (\<lambda>g. (Inr (Some done_progress), g))\<rparr>"

lemma attaching_open: "\<not> follow_completed (followed_attaching b now)"
  by (simp add: follow_completed_def followed_attaching_def)

theorem follow_refines_the_answers_witness:
  "map_option fst (poll_batch finished_follow (\<lambda>_ _. ()) (followed_attaching ''b'' 0) False ((), ())) =
     Some (BatchCompleted done_progress)"
proof -
  have none: "verdict_of False 0 (poll_answers finished_follow 0 ()) = None"
    and one: "verdict_of False 0 (poll_answers finished_follow 1 ()) = Some (BatchCompleted done_progress)"
    by (simp_all add: finished_follow_def silent_follow_def done_progress_def)
  have least: "(LEAST n. verdict_of False 0 (poll_answers finished_follow n ()) \<noteq> None) = 1"
  proof (rule Least_equality)
    show "verdict_of False 0 (poll_answers finished_follow 1 ()) \<noteq> None" using one by simp
    show "1 \<le> n" if "verdict_of False 0 (poll_answers finished_follow n ()) \<noteq> None" for n
      using that none by (cases n) auto
  qed
  have "\<exists>n outcome. verdict_of False 0 (poll_answers finished_follow n ()) = Some outcome" using one by blast
  then show ?thesis
    by (subst follow_refines_the_answers [OF attaching_open]) (simp only: least one if_True)
qed

theorem unknown_batch_was_unvouched_witness:
  "\<exists>n. count_list (poll_answers silent_follow n (snd (ag_projected silent_follow ()))) (Inr None) = 30"
proof -
  have "verdict_of False 0 (poll_answers silent_follow 30 ()) = Some UnknownBatch" by code_simp
  then have "\<exists>n. verdict_of False 0 (poll_answers silent_follow n ()) = Some UnknownBatch" by blast
  moreover have "\<not> follow_completed ((followed_attaching ''b'' 0)\<lparr>fo_listing := Unlisted\<rparr>)"
    by (simp add: follow_completed_def followed_attaching_def)
  ultimately have "\<exists>t. poll_batch silent_follow (\<lambda>_ _. ())
      ((followed_attaching ''b'' 0)\<lparr>fo_listing := Unlisted\<rparr>) False ((), ()) = Some (UnknownBatch, t)"
    by (subst poll_batch_verdict)
  then obtain t where "poll_batch silent_follow (\<lambda>_ _. ())
      ((followed_attaching ''b'' 0)\<lparr>fo_listing := Unlisted\<rparr>) False ((), ()) = Some (UnknownBatch, t)" ..
  then have "follow_batch silent_follow (\<lambda>_ _. ()) (followed_attaching ''b'' 0) ((), ()) = Some (UnknownBatch, t)"
    by (simp add: follow_batch_def silent_follow_def Let_def)
  with unknown_batch_was_unvouched [where A = silent_follow and F = "followed_attaching ''b'' 0"
      and report = "\<lambda>_ _. ()" and g = "()" and p = "()" and t = t] attaching_open
  show ?thesis by blast
qed

definition two_rows :: "pr_target list" where
  "two_rows = [pr_target_of serde_pr, (pr_target_of serde_pr)\<lparr>tg_number := 8\<rparr>]"

theorem drawer_lists_what_runs_witness:
  "\<exists>receipt listed request.
     fst (submit_batch_in acme_server ''u'' ''b'' BkMerge (map submit_target two_rows) None acme_web) = Inr receipt \<and>
     fo_progress (leave_out (br_left_out receipt) (followed_queued ''b'' BkMerge two_rows 0)) = Some listed \<and>
     map item_key (bp_targets listed) = map target_key (bq_targets (request :: bulk_request))"
proof -
  have known: "db_ok (ww_db acme_web)" "store_answers acme_web"
    by (simp_all add: acme_web_def acme_ok store_answers_def)
  let ?ts = "map submit_target two_rows"
  have "map submitted_key ?ts = [PrKey 1 7, PrKey 1 8]"
    by (simp add: two_rows_def pr_target_of_def serde_pr_def target_key_def)
  then have keys: "submitted_key (submit_target (pr_target_of serde_pr)) = PrKey 1 7"
    "submitted_key (submit_target ((pr_target_of serde_pr)\<lparr>tg_number := 8\<rparr>)) = PrKey 1 8"
    by (simp_all add: two_rows_def)
  have valid: "validate_batch (sv_uuid acme_server) ''b'' None (map submitted_key ?ts) = Inr ()"
    by (simp only: \<open>map submitted_key ?ts = _\<close>)
      (simp add: acme_server_def validate_batch_Inr_iff valid_batch_id_def)
  obtain r w' where run: "submit_batch_in acme_server ''u'' ''b'' BkMerge ?ts None acme_web = (r, w')" by fastforce
  have none: "find (foreign (ww_db acme_web) (sv_installation acme_server)) (map submitted_key ?ts) = None"
    unfolding \<open>map submitted_key ?ts = _\<close> by (simp add: acme_web_def acme_server_def acme_not_foreign)
  have some: "still_listed (ww_db acme_web) ?ts \<noteq> []"
    using keys by (simp add: still_listed_def two_rows_def acme_web_def acme_tables)
  have "took (rl_net (sv_restate acme_server)) request (wi_remote acme_web)" for request
    by (simp add: took_def acme_server_def taking_libs_def taking_network_def answered_well_def)
  with submit_batch_sends(3) [OF known valid run none some] obtain receipt where r: "r = Inr receipt" by auto
  with run have sent: "submit_batch_in acme_server ''u'' ''b'' BkMerge ?ts None acme_web = (Inr receipt, w')" by simp
  from drawer_lists_what_runs [OF known sent, of 0] obtain request listed where
    "fo_progress (leave_out (br_left_out receipt) (followed_queued ''b'' BkMerge two_rows 0)) = Some listed"
    "map item_key (bp_targets listed) = map target_key (bq_targets (request :: bulk_request))" by blast
  moreover have "fst (submit_batch_in acme_server ''u'' ''b'' BkMerge ?ts None acme_web) = Inr receipt"
    using sent by simp
  ultimately show ?thesis by blast
qed

end
