(* ===== verification/Ui_Active_Contract.thy ===== *)
theory Ui_Active_Contract
  imports Ui_Active Ui_Follow_Contract
begin

text \<open>
  What the page makes of a followed batch: the locale \<open>batch_page\<close> is what the follow relies on
  of any page, its picked rows and its follow; the dashboard's own page provides it.
\<close>

section \<open>The page's contract\<close>

locale batch_page =
  fixes E :: "'p batch_effects" and picked :: "'p \<Rightarrow> string \<Rightarrow> bool"
  assumes following_follow: "ef_following E (ef_follow E F p) = Some F"
    and following_stand_down: "ef_following E (ef_stand_down E p) = None"
    and following_announce: "ef_following E (ef_announce E n p) = ef_following E p"
    and following_deselect: "ef_following E (ef_deselect E rows p) = ef_following E p"
    and following_reload: "ef_following E (ef_reload E p) = ef_following E p"
    and following_signed_out: "ef_following E (ef_signed_out E p) = ef_following E p"
    and picked_follow: "picked (ef_follow E F p) = picked p"
    and picked_stand_down: "picked (ef_stand_down E p) = picked p"
    and picked_announce: "picked (ef_announce E n p) = picked p"
    and picked_reload: "picked (ef_reload E p) = picked p"
    and picked_signed_out: "picked (ef_signed_out E p) = picked p"
    and picked_deselect: "picked (ef_deselect E rows p) i \<longleftrightarrow> picked p i \<and> i \<notin> pr_id ` set rows"
begin

lemmas following = following_follow following_stand_down following_announce following_deselect
  following_reload following_signed_out

lemmas picks = picked_follow picked_stand_down picked_announce picked_reload picked_signed_out

lemma conclude_picked: "picked (conclude E outcome p) = picked p"
  by (auto simp: conclude_def picks Let_def split: batch_outcome.splits)

lemma conclude_following:
  "ef_following E (conclude E outcome p) =
     (case outcome of NotSubmitted _ \<Rightarrow> None | UnknownBatch \<Rightarrow> None | _ \<Rightarrow> ef_following E p)"
  by (auto simp: conclude_def following Let_def split: batch_outcome.splits)

lemma account_picked:
  "picked (account_for E pending receipt p) i \<longleftrightarrow> picked p i \<and> i \<notin> pr_id ` set (pa_rows pending)"
  by (auto simp: account_for_def picks picked_deselect Let_def split: option.splits)

end

text \<open>The page only changes by the reports of the follow, and by the receipt once.\<close>

lemma poll_page_keeps:
  assumes "poll_batch G report F known (g, p) = Some (outcome, g', p')"
    and "I p" and "\<And>F p. I p \<Longrightarrow> I (report F p)"
  shows "I p'"
proof -
  have "\<exists>st. I (snd (snd (snd (snd st)))) \<and> poll_round G report st = Inl (outcome, g', p')"
    using assms(1) unfolding poll_batch_def prod.case
    by (rule loop_keeps)
      (use assms(2,3) in \<open>auto simp: poll_round_def Let_def split: prod.splits sum.splits option.splits if_splits\<close>)
  then obtain st where "I (snd (snd (snd (snd st))))" "poll_round G report st = Inl (outcome, g', p')" by blast
  then show ?thesis
    using assms(3)
    by (cases st) (auto simp: poll_round_def Let_def split: prod.splits sum.splits option.splits if_splits)
qed

lemma run_followed_page:
  assumes "run_followed G report on_accepted F (g, p) = Some (outcome, g', p')"
    and "I p" and "\<And>F p. I p \<Longrightarrow> I (report F p)" and "\<And>F p. J p \<Longrightarrow> J (report F p)"
    and "\<And>receipt p. I p \<Longrightarrow> J (on_accepted receipt p)"
  shows "case fst (submit_from G 1 g) of
      Inl f \<Rightarrow> outcome = NotSubmitted f \<and> p' = p
    | Inr _ \<Rightarrow> J p'"
proof -
  obtain r g1 where r: "submit_from G 1 g = (r, g1)" by fastforce
  show ?thesis
  proof (cases r)
    case (Inl f)
    with assms(1) r show ?thesis by (simp add: run_followed_cases)
  next
    case (Inr taken)
    have "J p'"
    proof (cases taken)
      case (Accepted receipt)
      with assms(1) r Inr obtain F1 p1 where "I p1"
        "poll_batch G report F1 True (g1, on_accepted receipt p1) = Some (outcome, g', p')"
        using assms(2,3) by (auto simp: run_followed_cases Let_def split: if_splits)
      with poll_page_keeps [of G report F1 True g1 "on_accepted receipt p1" outcome g' p' J] assms(4,5)
      show ?thesis by blast
    next
      case (Already progress)
      obtain F1 p1 where heard: "(case progress of None \<Rightarrow> (F, p) | Some q \<Rightarrow>
          (case hear q (bg_now G g1) F of (news, F1) \<Rightarrow> (F1, if news then report F1 p else p))) = (F1, p1)"
        by fastforce
      then have "I p1" using assms(2,3) by (auto split: option.splits prod.splits if_splits)
      then have "J (on_accepted receipt p1)" for receipt using assms(5) by blast
      with assms(1) r Inr Already heard
        poll_page_keeps [of G report F1 True g1 "on_accepted _ p1" outcome g' p' J] assms(4)
      show ?thesis by (auto simp: run_followed_cases Let_def split: option.splits if_splits)
    qed
    with r Inr show ?thesis by simp
  qed
qed

section \<open>The dashboard's page\<close>

lemma contains_remove: "bt_contains k (bt_remove j m) \<longleftrightarrow> bt_contains k m \<and> k \<noteq> j"
  by (auto simp: bt_contains_def bt_remove_def)

lemma contains_removes:
  "bt_contains k (fold (\<lambda>row. bt_remove (pr_id row)) rows m) \<longleftrightarrow> bt_contains k m \<and> k \<notin> pr_id ` set rows"
  by (induction rows arbitrary: m) (auto simp: contains_remove)

lemma deselect_selected: "is_selected (deselect rows d) i \<longleftrightarrow> is_selected d i \<and> i \<notin> pr_id ` set rows"
  by (auto simp: deselect_def is_selected_def contains_removes)

lemma reload_selected [simp]: "is_selected (reload d) = is_selected d" "is_selected (poll_missed l d) = is_selected d"
  by (simp_all add: reload_def poll_missed_def set_connection_def is_selected_def fun_eq_iff)

interpretation dashboard_page: batch_page host_effects "\<lambda>h. is_selected (ho_state h)"
  by unfold_locales (simp_all add: host_effects_def announce_host_def deselect_selected)

text \<open>The follow one poll at a time, and the page it is polled from.\<close>

definition polls_to ::
    "('g, 'm) batch_gateway_scheme \<Rightarrow> (followed \<Rightarrow> 'p \<Rightarrow> 'p) \<Rightarrow> ('g, 'p) poll_state \<Rightarrow> ('g, 'p) poll_state \<Rightarrow> bool" where
  "polls_to G report st st' \<longleftrightarrow> poll_round G report st = Inr st'"

definition polled_page :: "('g, 'p) poll_state \<Rightarrow> 'p" where
  "polled_page = (\<lambda>(F, known, empty_polls, g, p). p)"

lemma polls_keep_page:
  assumes "(polls_to G report)\<^sup>*\<^sup>* st st'" "J (polled_page st)" "\<And>F p. J p \<Longrightarrow> J (report F p)"
  shows "J (polled_page st')"
  using assms(1,2)
proof (induction rule: rtranclp_induct)
  case (step y z)
  then have "J (polled_page y)" by blast
  with step(2) assms(3) show ?case
    by (cases y) (auto simp: polls_to_def polled_page_def poll_round_def Let_def
        split: prod.splits sum.splits option.splits if_splits)
qed

lemma start_page:
  assumes "submit_from G 1 g = (Inr taken, g1)"
    and "I p" and "\<And>F p. I p \<Longrightarrow> I (report F p)" and "\<And>receipt p. I p \<Longrightarrow> J (on_accepted receipt p)"
  shows "case followed_start G report on_accepted F (g, p) of
      Inl (outcome, g', p') \<Rightarrow> J p' | Inr st \<Rightarrow> J (polled_page st)"
proof (cases taken)
  case (Accepted receipt)
  with assms show ?thesis by (simp add: followed_start_def Let_def polled_page_def)
next
  case (Already progress)
  obtain F1 p1 where heard: "(case progress of None \<Rightarrow> (F, p) | Some q \<Rightarrow>
      (case hear q (bg_now G g1) F of (news, F1) \<Rightarrow> (F1, if news then report F1 p else p))) = (F1, p1)"
    by fastforce
  then have "I p1" using assms(2,3) by (auto split: option.splits prod.splits if_splits)
  with assms(1,4) Already heard show ?thesis
    by (cases "fo_progress F1") (simp_all add: followed_start_def Let_def polled_page_def)
qed

text \<open>
  C23: The rows a batch is queued with leave the selection exactly when Restate has the batch, and
  at once: on the page the follow goes on from when the submission was taken they are deselected
  and nothing else is, and so it stays at every poll of a follow still running, for as long as it
  runs, and at its end. A submission Restate never took leaves the selection as it was, is
  reported in a notice that stays, takes the follow down, and signs the page out where the
  credentials were what was refused.
\<close>

theorem selection_leaves_with_the_batch:
  fixes h :: host and g :: 'g and G :: "('g, 'm) submit_gateway_scheme" and pending F
  defines "begun \<equiv> followed_start G (ef_follow host_effects) (account_for host_effects pending) F (g, h)"
    and "gone \<equiv> \<lambda>h'. \<forall>i. is_selected (ho_state h') i \<longleftrightarrow>
      is_selected (ho_state h) i \<and> i \<notin> pr_id ` set (pa_rows pending)"
  shows "case fst (submit_from G 1 g) of
      Inl f \<Rightarrow> (\<exists>g' h'. run_to_end G host_effects pending F (g, h) = Some (g', h') \<and>
        (\<forall>i. is_selected (ho_state h') i \<longleftrightarrow> is_selected (ho_state h) i) \<and> ho_followed h' = None \<and>
        ho_toasts h' = ho_toasts h @ [(Error (not_submitted_notice f), True)] \<and>
        (signed_out (ho_state h') \<longleftrightarrow> signed_out (ho_state h) \<or> f = SignedOutFault))
    | Inr _ \<Rightarrow>
        (case begun of Inl (outcome, g', p) \<Rightarrow> gone p
          | Inr st \<Rightarrow> \<forall>st'. (polls_to G (ef_follow host_effects))\<^sup>*\<^sup>* st st' \<longrightarrow> gone (polled_page st')) \<and>
        (\<forall>g' h'. run_to_end G host_effects pending F (g, h) = Some (g', h') \<longrightarrow> gone h')"
proof -
  let ?I = "\<lambda>p. is_selected (ho_state p) = is_selected (ho_state h)"
  note report = dashboard_page.picked_follow
  obtain r g1 where sub: "submit_from G 1 g = (r, g1)" by fastforce
  show ?thesis
  proof (cases r)
    case (Inl f)
    with sub have "run_to_end G host_effects pending F (g, h) = Some (g1, conclude host_effects (NotSubmitted f) h)"
      by (simp add: run_to_end_def run_followed_cases)
    then show ?thesis
      using sub Inl dashboard_page.conclude_picked [of "NotSubmitted f" h]
      by (auto simp: conclude_def host_effects_def announce_host_def signed_out_def poll_missed_def
          set_connection_def Let_def)
  next
    case (Inr taken)
    have ended: "gone h'" if ended: "run_to_end G host_effects pending F (g, h) = Some (g', h')" for g' h'
    proof -
      from ended obtain outcome p' where run: "run_followed G (ef_follow host_effects) (account_for host_effects pending) F (g, h) =
          Some (outcome, g', p')" and h': "h' = conclude host_effects outcome p'"
        by (auto simp: run_to_end_def)
      have "case fst (submit_from G 1 g) of Inl f \<Rightarrow> outcome = NotSubmitted f \<and> p' = h | Inr _ \<Rightarrow> gone p'"
        by (rule run_followed_page [OF run, of ?I]) (simp_all add: report dashboard_page.account_picked gone_def)
      then show ?thesis using sub Inr by (simp add: h' gone_def dashboard_page.conclude_picked)
    qed
    have begun: "case begun of Inl (outcome, g', p') \<Rightarrow> gone p' | Inr st \<Rightarrow> gone (polled_page st)"
      unfolding begun_def
      by (rule start_page [OF sub [unfolded Inr], of ?I]) (simp_all add: report dashboard_page.account_picked gone_def)
    have kept: "gone (polled_page st')" if "(polls_to G (ef_follow host_effects))\<^sup>*\<^sup>* st st'" "gone (polled_page st)" for st st'
      by (rule polls_keep_page [where J = gone, OF that]) (simp add: gone_def report)
    from begun have "case begun of Inl (outcome, g', p) \<Rightarrow> gone p
      | Inr st \<Rightarrow> \<forall>st'. (polls_to G (ef_follow host_effects))\<^sup>*\<^sup>* st st' \<longrightarrow> gone (polled_page st')"
      using kept by (cases begun) auto
    with ended sub Inr show ?thesis by simp
  qed
qed

section \<open>Opening a finished batch\<close>

definition clear_line :: "('w, 'm) browser_line_scheme \<Rightarrow> bool" where
  "clear_line K \<longleftrightarrow> (\<forall>w. bl_out K w = (None, w) \<and> bl_return K w = (None, w))"

lemma ask_server_clear:
  assumes "clear_line K" and "\<not> signed_out d" and "body w = (Inr a, w')"
  shows "ask_server K body (d, w) = (Inr a, (d, w'))"
  using assms by (simp add: ask_server_def guarded_def over_line_def server_function_def clear_line_def signed_out_def)

text \<open>
  C24: A link to a batch whose workflow recorded its end opens on the progress the batch ended
  with: nothing is asked of Restate, nothing is announced, nothing is reloaded and the selection
  stands, since the batch was announced when it finished.
\<close>

theorem finished_batch_opens_as_it_ended:
  fixes w :: "('g, 'm) web_world_scheme" and S :: "('g, 'v) server_state"
  assumes "clear_line K" and "\<not> signed_out d" and "store_answers w"
    and "completed_record progress (sv_installation S) by retried started ended = Some r" and "bp_completed progress"
    and "valid_batch_id (sv_uuid S) (bc_batch_id r)"
    and "db_ok d0" and "batch_fits r" and "\<not> recorded d0 (bc_batch_id r)"
    and "record_batch r d0 = (Inr (), ww_db w)"
  shows "\<exists>w' h'. follow_to_end (server_follow K S (bp_batch_id progress)) host_effects
        (followed_attaching (bp_batch_id progress) now) ((d, w), h) = Some ((d, w'), h') \<and>
    wi_sent w' = wi_sent w \<and>
    (\<exists>F. ho_followed h' = Some F \<and> fo_batch_id F = bp_batch_id progress \<and> fo_progress F = Some progress) \<and>
    ho_toasts h' = ho_toasts h \<and> ho_state h' = ho_state h"
proof -
  let ?b = "bp_batch_id progress"
  have b: "bc_batch_id r = ?b" "bc_installation_id r = sv_installation S"
    using assms(4) by (auto simp: completed_record_def)
  have stored: "get_batch (sv_installation S) ?b (ww_db w) = Inr (Some (BatchFinished r))"
    using get_batch_recorded [OF assms(7,8,9,10)] b by simp
  let ?w = "w\<lparr>ww_faults := tl (ww_faults w), ww_reads := ww_reads w + 1\<rparr>"
  have "load_batch_projection_in S ?b w = (Inr (Some (BatchFinished r)), ?w)"
    using read_model_run [where read = "get_batch (sv_installation S) ?b", OF assms(3) stored] assms(6) b
    by (simp add: load_batch_projection_in_def minted_here_def andthen_lift)
  from ask_server_clear [where body = "load_batch_projection_in S ?b", OF assms(1,2) this]
  have "ag_projected (server_follow K S ?b) (d, w) = (Inr (Some (BatchFinished r)), (d, ?w))"
    by (simp add: server_follow_def)
  moreover have "progress_of_record r = progress" by (rule progress_of_completed_record [OF assms(4,5)])
  ultimately show ?thesis using assms(5)
    by (simp add: follow_to_end_def follow_batch_def Let_def host_effects_def hear_def followed_attaching_def
        follow_completed_def)
qed

section \<open>One batch at a time\<close>

datatype host_move =
    MoveQueue pending_action
  | MoveAttach string
  | MoveRetry batch_progress "refreshed option"
  | MoveReport followed
  | MoveConclude batch_outcome

fun make_move :: "host_move \<Rightarrow> host \<Rightarrow> host" where
  "make_move (MoveQueue pending) h = queue_batch pending h"
| "make_move (MoveAttach batch_id) h = attach_batch batch_id h"
| "make_move (MoveRetry finished refreshed) h = end_retry finished refreshed h"
| "make_move (MoveReport F) h = ef_follow host_effects F h"
| "make_move (MoveConclude outcome) h = conclude host_effects outcome h"

definition one_follow :: "host \<Rightarrow> bool" where
  "one_follow h \<longleftrightarrow> distinct (ho_cancelled h) \<and>
     (case ho_follower h of
        None \<Rightarrow> ho_tasks h = []
      | Some k \<Rightarrow> Suc k = length (ho_tasks h)) \<and>
     set (ho_cancelled h) = {k. Suc k < length (ho_tasks h)}"

lemma one_follow_take_over: "one_follow h \<Longrightarrow> one_follow (take_over F t h)"
proof (cases "ho_follower h")
  case None
  then show "one_follow h \<Longrightarrow> ?thesis" by (auto simp: one_follow_def take_over_def)
next
  case (Some k)
  then show "one_follow h \<Longrightarrow> ?thesis"
    by (auto simp: one_follow_def take_over_def)
qed

lemma one_follow_frame [simp]:
  "one_follow (h\<lparr>ho_followed := a\<rparr>) = one_follow h" "one_follow (h\<lparr>ho_toasts := b\<rparr>) = one_follow h"
  "one_follow (h\<lparr>ho_state := c\<rparr>) = one_follow h" "one_follow (h\<lparr>ho_retrying := e\<rparr>) = one_follow h"
  "one_follow (h\<lparr>ho_minted := m\<rparr>) = one_follow h"
  by (simp_all add: one_follow_def split: option.split)

lemma one_follow_queue: "one_follow h \<Longrightarrow> one_follow (queue_batch pending h)"
  by (simp add: queue_batch_def Let_def one_follow_take_over)

lemma one_follow_move: "one_follow h \<Longrightarrow> one_follow (make_move m h)"
proof (cases m)
  case (MoveRetry finished refreshed)
  then show "one_follow h \<Longrightarrow> ?thesis"
    by (auto simp: end_retry_def queue_retry_def host_effects_def announce_host_def Let_def one_follow_queue
        split: option.splits)
next
  case (MoveConclude outcome)
  then show "one_follow h \<Longrightarrow> ?thesis"
    by (auto simp: conclude_def host_effects_def announce_host_def Let_def split: batch_outcome.splits option.splits)
next
  case (MoveAttach batch_id)
  then show "one_follow h \<Longrightarrow> ?thesis" by (auto simp: attach_batch_def Let_def one_follow_take_over)
qed (auto simp: one_follow_queue host_effects_def)

text \<open>
  C29: However the page's follows begin and end, whatever is queued, attached, retried, reported
  or concluded in whatever order, every follow but the latest has been cancelled, each once, and
  the latest is the one the host knows.
\<close>

theorem one_batch_is_followed:
  assumes "ho_tasks h = []" and "ho_follower h = None" and "ho_cancelled h = []"
  shows "let h' = fold make_move moves h
    in distinct (ho_cancelled h') \<and> card ({..<length (ho_tasks h')} - set (ho_cancelled h')) \<le> 1 \<and>
      {..<length (ho_tasks h')} - set (ho_cancelled h') = set_option (ho_follower h')"
proof -
  have "one_follow h" using assms by (simp add: one_follow_def)
  then have one: "one_follow (fold make_move moves h)"
    by (induction moves arbitrary: h) (simp_all add: one_follow_move)
  then have left: "{..<length (ho_tasks (fold make_move moves h))} - set (ho_cancelled (fold make_move moves h)) =
      set_option (ho_follower (fold make_move moves h))"
    by (auto simp: one_follow_def split: option.splits)
  moreover have "card (set_option x) \<le> 1" for x :: "nat option" by (cases x) auto
  ultimately show ?thesis using one by (simp add: Let_def one_follow_def)
qed

section \<open>Witnesses\<close>

definition idle_host :: host where
  "idle_host = \<lparr>ho_followed = None, ho_follower = None, ho_open = False, ho_toasts = [],
     ho_state = \<lparr>dv_filter = default_filter, dv_cursor = None, dv_selected = no_selection, dv_page = Loading,
       dv_summary = Loading, dv_capabilities = Loading, dv_now = 0, dv_syncing = False,
       dv_connection = Online, dv_refreshed_at = None, dv_reloads = 0\<rparr>,
     ho_tasks = [], ho_cancelled = [], ho_retrying = False, ho_ids = (\<lambda>_. ''b''), ho_minted = 0, ho_clock = 0\<rparr>"

theorem one_batch_is_followed_witness:
  "let h' = fold make_move [MoveAttach ''a'', MoveAttach ''c''] idle_host
   in card ({..<length (ho_tasks h')} - set (ho_cancelled h')) \<le> 1"
proof -
  have "ho_tasks idle_host = []" "ho_follower idle_host = None" "ho_cancelled idle_host = []"
    by (simp_all add: idle_host_def)
  from one_batch_is_followed [OF this, of "[MoveAttach ''a'', MoveAttach ''c'']"] show ?thesis
    unfolding Let_def by blast
qed

definition plain_line :: "(unit web_world) browser_line" where
  "plain_line = \<lparr>bl_out = (\<lambda>w. (None, w)), bl_return = (\<lambda>w. (None, w)), bl_wait = id, bl_clock = (\<lambda>_. 0)\<rparr>"

theorem finished_batch_opens_as_it_ended_witness:
  "\<exists>w' h' F. follow_to_end (server_follow plain_line acme_server ''b'') host_effects (followed_attaching ''b'' 0)
      ((ho_state idle_host, acme_web\<lparr>ww_db := snd (record_batch bump_batch empty_db)\<rparr>), idle_host) =
      Some ((ho_state idle_host, w'), h') \<and>
    ho_followed h' = Some F \<and> fo_progress F = Some (progress_of_record bump_batch) \<and> ho_toasts h' = []"
proof -
  let ?w = "acme_web\<lparr>ww_db := snd (record_batch bump_batch empty_db)\<rparr>" and ?p = "progress_of_record bump_batch"
  have fit: "batch_fits bump_batch" unfolding batch_fits_def by (simp add: bump_batch_def fits_def)
  have "clear_line plain_line" "\<not> signed_out (ho_state idle_host)" "store_answers ?w" "bp_completed ?p"
    "valid_batch_id (sv_uuid acme_server) (bc_batch_id bump_batch)" "\<not> recorded empty_db (bc_batch_id bump_batch)"
    by (simp_all add: clear_line_def plain_line_def signed_out_def idle_host_def store_answers_def acme_web_def
        progress_of_record_def valid_batch_id_def acme_server_def recorded_def empty_db_def)
  moreover have "completed_record ?p (sv_installation acme_server) ''u'' None 1 2 = Some bump_batch"
    by (simp add: completed_record_def progress_of_record_def bump_batch_def acme_server_def target_record_def
        progress_of_target_def)
  moreover have "record_batch bump_batch empty_db = (Inr (), ww_db ?w)"
    using record_batch_total [OF fit, of empty_db] by auto
  ultimately show ?thesis
    using finished_batch_opens_as_it_ended [of plain_line "ho_state idle_host" ?w ?p acme_server "''u''" None 1 2
        bump_batch empty_db 0 idle_host] db_ok_empty fit
    by (fastforce simp: progress_of_record_def bump_batch_def idle_host_def)
qed

definition refusing_submit :: "unit submit_gateway" where
  "refusing_submit = \<lparr>bg_progress = (\<lambda>g. (Inr None, g)), bg_tick = id, bg_now = (\<lambda>_. 0),
     sg_submit = (\<lambda>g. (Inl SignedOutFault, g))\<rparr>"

text \<open>A Restate that takes the batch and never says more, and a page with two rows picked.\<close>

definition taking_submit :: "unit submit_gateway" where
  "taking_submit = \<lparr>bg_progress = (\<lambda>g. (Inr None, g)), bg_tick = id, bg_now = (\<lambda>_. 0),
     sg_submit = (\<lambda>g. (Inr \<lparr>br_left_out = []\<rparr>, g))\<rparr>"

definition picked_host :: host where
  "picked_host = idle_host\<lparr>ho_state := (ho_state idle_host)\<lparr>dv_selected :=
     \<lparr>sl_rows = [(pr_id serde_pr, serde_pr), (''other'', serde_pr)], sl_capped_from = None\<rparr>\<rparr>\<rparr>"

definition merge_serde :: pending_action where
  "merge_serde = \<lparr>pa_action = BkMerge, pa_rows = [serde_pr], pa_retried_from = None\<rparr>"

theorem selection_leaves_with_the_batch_witness:
  "(\<exists>h'. run_to_end refusing_submit host_effects merge_serde (followed_queued ''b'' BkMerge [] 0) ((), picked_host) =
      Some ((), h') \<and> ho_followed h' = None \<and> signed_out (ho_state h') \<and> is_selected (ho_state h') (pr_id serde_pr)) \<and>
   (\<exists>st. followed_start taking_submit (ef_follow host_effects) (account_for host_effects merge_serde)
      (followed_queued ''b'' BkMerge [] 0) ((), picked_host) = Inr st \<and>
      \<not> is_selected (ho_state (polled_page st)) (pr_id serde_pr) \<and>
      is_selected (ho_state (polled_page st)) ''other'')"
    (is "?refused \<and> ?taken")
proof
  let ?F = "followed_queued ''b'' BkMerge [] 0"
  have picked: "is_selected (ho_state picked_host) (pr_id serde_pr)" "is_selected (ho_state picked_host) ''other''"
    by (simp_all add: picked_host_def is_selected_def bt_contains_def)
  have refused: "submit_from refusing_submit 1 () = (Inl SignedOutFault, ())"
    by (subst submit_from.simps) (simp add: refusing_submit_def)
  from selection_leaves_with_the_batch [where G = refusing_submit and pending = merge_serde and F = ?F
      and g = "()" and h = picked_host, unfolded refused fst_conv sum.case] picked
  show ?refused by auto
  have taken: "submit_from taking_submit 1 () = (Inr (Accepted \<lparr>br_left_out = []\<rparr>), ())"
    by (subst submit_from.simps) (simp add: taking_submit_def)
  then obtain st where begun: "followed_start taking_submit (ef_follow host_effects)
      (account_for host_effects merge_serde) ?F ((), picked_host) = Inr st"
    by (simp add: followed_start_def)
  have "''other'' \<noteq> pr_id serde_pr" by (simp add: serde_pr_def)
  moreover note selection_leaves_with_the_batch [where G = taking_submit and pending = merge_serde and F = ?F
      and g = "()" and h = picked_host, unfolded taken fst_conv begun sum.case, THEN conjunct1,
      THEN spec [of _ st], THEN mp, OF rtranclp.rtrancl_refl]
  then have "is_selected (ho_state (polled_page st)) i \<longleftrightarrow> is_selected (ho_state picked_host) i \<and> i \<noteq> pr_id serde_pr" for i
    unfolding merge_serde_def by simp
  ultimately have "\<not> is_selected (ho_state (polled_page st)) (pr_id serde_pr) \<and> is_selected (ho_state (polled_page st)) ''other''"
    using picked by simp
  with begun show ?taken by blast
qed

end
