(* ===== verification/Ui_Url.thy ===== *)
theory Ui_Url
  imports Ui_State
begin

text \<open>
  The state the URL carries (\<^verbatim>\<open>apps/web/src/ui/url_state.rs\<close>) and the two effects that keep the
  URL and the dashboard in step (\<^verbatim>\<open>ui/url_sync.rs\<close>). The spelling of a query string is another
  crate's: \<open>parse\<close> and \<open>serialize\<close> are parameters, with the spelling of a page cursor and the
  version of a UUID.
\<close>

record url_libs =
  ul_parse :: "string \<Rightarrow> (string \<times> string) list"
  ul_serialize :: "(string \<times> string) list \<Rightarrow> string"
  ul_cursor :: "string \<Rightarrow> page_cursor option"
  ul_uuid :: "string \<Rightarrow> nat option"

record url_state =
  us_filter :: pr_filter
  us_cursor :: "string option"
  us_pr :: "pr_key option"
  us_batch :: "string option"

definition default_url :: url_state where
  "default_url = \<lparr>us_filter = default_filter, us_cursor = None, us_pr = None, us_batch = None\<rparr>"

definition push_unique :: "'a list \<Rightarrow> 'a option \<Rightarrow> 'a list" where
  "push_unique values value =
     (case value of None \<Rightarrow> values | Some v \<Rightarrow> if v \<in> set values then values else values @ [v])"

definition parsed :: "string + 'a \<Rightarrow> 'a option" where
  "parsed r = (case r of Inl _ \<Rightarrow> None | Inr a \<Rightarrow> Some a)"

text \<open>One parameter, as the loop of \<open>from_route\<close> takes it in.\<close>

definition read_param :: "url_libs \<Rightarrow> string \<times> string \<Rightarrow> url_state \<Rightarrow> url_state" where
  "read_param L = (\<lambda>(name, value) s.
     let f = us_filter s;
         text = (if value = [] then None else Some value);
         trimmed_text = (if trim value = [] then None else Some value)
     in if name = ''view'' then s\<lparr>us_filter := f\<lparr>pf_needs_attention := (value = ''attention'')\<rparr>\<rparr>
        else if name = ''q'' then s\<lparr>us_filter := f\<lparr>pf_query := trimmed_text\<rparr>\<rparr>
        else if name = ''repo'' then s\<lparr>us_filter := f\<lparr>pf_repos := push_unique (pf_repos f) text\<rparr>\<rparr>
        else if name = ''type''
        then s\<lparr>us_filter := f\<lparr>pf_update_types := push_unique (pf_update_types f) (parsed (parse_update_type value))\<rparr>\<rparr>
        else if name = ''check''
        then s\<lparr>us_filter := f\<lparr>pf_check_statuses := push_unique (pf_check_statuses f) (parsed (parse_check_status value))\<rparr>\<rparr>
        else if name = ''label'' then s\<lparr>us_filter := f\<lparr>pf_labels := push_unique (pf_labels f) text\<rparr>\<rparr>
        else if name = ''dep'' then s\<lparr>us_filter := f\<lparr>pf_dependency := trimmed_text\<rparr>\<rparr>
        else if name = ''after'' then s\<lparr>us_cursor := (if ul_cursor L value = None then None else Some value)\<rparr>
        else if name = ''pr'' then s\<lparr>us_pr := parsed (parse_pr_key value)\<rparr>
        else if name = ''batch'' then s\<lparr>us_batch := (if valid_batch_id (ul_uuid L) value then Some value else None)\<rparr>
        else s)"

definition query_of :: "string \<Rightarrow> string" where
  "query_of route =
     (let before_fragment = (case split_once route (CHR ''#'') of None \<Rightarrow> route | Some (a, _) \<Rightarrow> a)
      in case split_once before_fragment (CHR ''?'') of None \<Rightarrow> [] | Some (_, query) \<Rightarrow> query)"

definition from_route :: "url_libs \<Rightarrow> string \<Rightarrow> url_state" where
  "from_route L route = fold (read_param L) (ul_parse L (query_of route)) default_url"

definition optional_pair :: "string \<Rightarrow> string option \<Rightarrow> (string \<times> string) list" where
  "optional_pair name value = (case value of None \<Rightarrow> [] | Some v \<Rightarrow> [(name, v)])"

definition route_pairs :: "url_state \<Rightarrow> (string \<times> string) list" where
  "route_pairs s =
     (if pf_needs_attention (us_filter s) then [(''view'', ''attention'')] else []) @
     optional_pair ''q'' (pf_query (us_filter s)) @
     map (\<lambda>repo. (''repo'', repo)) (pf_repos (us_filter s)) @
     map (\<lambda>t. (''type'', display_update_type t)) (pf_update_types (us_filter s)) @
     map (\<lambda>c. (''check'', display_check_status c)) (pf_check_statuses (us_filter s)) @
     map (\<lambda>label. (''label'', label)) (pf_labels (us_filter s)) @
     optional_pair ''dep'' (pf_dependency (us_filter s)) @
     optional_pair ''after'' (us_cursor s) @
     optional_pair ''pr'' (map_option display_pr_key (us_pr s)) @
     optional_pair ''batch'' (us_batch s)"

definition to_route :: "url_libs \<Rightarrow> url_state \<Rightarrow> string" where
  "to_route L s =
     (let query = ul_serialize L (route_pairs s) in if query = [] then ''/'' else ''/?'' @ query)"

section \<open>Moves in the history\<close>

datatype history_move = Stay | Replace | Push

definition refines_search_of :: "url_state \<Rightarrow> url_state \<Rightarrow> bool" where
  "refines_search_of s previous =
     (if pf_query (us_filter s) = None \<or> pf_query (us_filter previous) = None then False
      else s\<lparr>us_filter := (us_filter s)\<lparr>pf_query := pf_query (us_filter previous)\<rparr>\<rparr> = previous)"

definition same_view_as :: "url_state \<Rightarrow> url_state \<Rightarrow> bool" where
  "same_view_as s other \<longleftrightarrow> s\<lparr>us_batch := us_batch other\<rparr> = other"

definition history_move :: "url_libs \<Rightarrow> url_state \<Rightarrow> string \<Rightarrow> bool \<Rightarrow> history_move" where
  "history_move L s current_route gave_up =
     (let previous = from_route L current_route
      in if s = previous then (if to_route L s = current_route then Stay else Replace)
         else if gave_up \<or> refines_search_of s previous \<or> same_view_as s previous then Replace
         else Push)"

section \<open>Keeping in step\<close>

text \<open>
  The drawer's pull request: being read, open on a row, or gone from the projection since. The browser's history is the entries
  behind the current one, and the current one.
\<close>

datatype open_pr = OpenLoading pr_key | OpenLoaded pr_record | OpenGone pr_record

fun open_key :: "open_pr \<Rightarrow> pr_key" where
  "open_key (OpenLoading key) = key"
| "open_key (OpenLoaded row) = record_key row"
| "open_key (OpenGone row) = record_key row"

record url_page =
  up_state :: dashboard
  up_detail :: "open_pr option"
  up_batch :: "string option"
  up_opened :: bool
  up_was_loading :: bool
  up_behind :: "string list"
  up_route :: string

text \<open>The dashboard follows the browser; \<open>onbatch\<close> is asked to follow the URL's batch, once.\<close>

definition follow_browser :: "url_libs \<Rightarrow> (string \<Rightarrow> url_page \<Rightarrow> url_page) \<Rightarrow> url_page \<Rightarrow> url_page" where
  "follow_browser L onbatch p =
     (let next_state = from_route L (up_route p);
          p1 = p\<lparr>up_state := navigate (us_filter next_state) (us_cursor next_state) (up_state p)\<rparr>;
          p2 = (if map_option open_key (up_detail p1) \<noteq> us_pr next_state
                then p1\<lparr>up_detail := map_option OpenLoading (us_pr next_state)\<rparr> else p1)
      in case us_batch next_state of
           None \<Rightarrow> p2
         | Some batch \<Rightarrow> if up_opened p2 then p2 else onbatch batch (p2\<lparr>up_opened := True\<rparr>))"

definition shown_url :: "url_page \<Rightarrow> url_state" where
  "shown_url p =
     \<lparr>us_filter = dv_filter (up_state p), us_cursor = dv_cursor (up_state p),
      us_pr = map_option open_key (up_detail p), us_batch = up_batch p\<rparr>"

text \<open>The browser follows the dashboard.\<close>

definition follow_dashboard :: "url_libs \<Rightarrow> url_page \<Rightarrow> url_page" where
  "follow_dashboard L p =
     (let loading = (case up_detail p of Some (OpenLoading _) \<Rightarrow> True | _ \<Rightarrow> False);
          next_state = shown_url p;
          gave_up = (up_was_loading p \<and> us_pr next_state = None);
          p1 = p\<lparr>up_was_loading := loading\<rparr>
      in case history_move L next_state (up_route p) gave_up of
           Stay \<Rightarrow> p1
         | Replace \<Rightarrow> p1\<lparr>up_route := to_route L next_state\<rparr>
         | Push \<Rightarrow> p1\<lparr>up_behind := up_behind p @ [up_route p], up_route := to_route L next_state\<rparr>)"

end
