(* ===== verification/Ui_Url_Contract.thy ===== *)
theory Ui_Url_Contract
  imports Ui_Url
begin

text \<open>
  What the URL promises: every route opens a state the dashboard could have set, such a state has
  a route that opens it again, and the two effects that keep the URL and the dashboard in step
  come to rest. What is relied on of the query string's spelling is the locale \<open>query_codec\<close>.
\<close>

section \<open>The spelling of a query string\<close>

lemma split_once_absent: "d \<notin> set s \<Longrightarrow> split_once s d = None"
  by (induction s) auto

locale query_codec =
  fixes L :: url_libs
  assumes parse_serialize: "ul_parse L (ul_serialize L pairs) = pairs"
    and serialize_empty: "ul_serialize L pairs = [] \<longleftrightarrow> pairs = []"
    and serialize_no_hash: "CHR ''#'' \<notin> set (ul_serialize L pairs)"
begin

lemma parse_empty: "ul_parse L [] = []"
  using parse_serialize [of "[]"] serialize_empty [of "[]"] by simp

lemma query_of_route: "query_of (to_route L s) = ul_serialize L (route_pairs s)"
proof -
  have "split_once (ul_serialize L (route_pairs s)) (CHR ''#'') = None"
    using serialize_no_hash by (rule split_once_absent)
  then show ?thesis by (simp add: to_route_def query_of_def Let_def)
qed

lemma from_to_route: "from_route L (to_route L s) = fold (read_param L) (route_pairs s) default_url"
  by (simp add: from_route_def query_of_route parse_serialize)

end

section \<open>States the dashboard could have set\<close>

definition url_ok :: "url_libs \<Rightarrow> url_state \<Rightarrow> bool" where
  "url_ok L s \<longleftrightarrow>
     (\<forall>q. pf_query (us_filter s) = Some q \<longrightarrow> trim q \<noteq> []) \<and>
     (\<forall>q. pf_dependency (us_filter s) = Some q \<longrightarrow> trim q \<noteq> []) \<and>
     distinct (pf_repos (us_filter s)) \<and> [] \<notin> set (pf_repos (us_filter s)) \<and>
     distinct (pf_labels (us_filter s)) \<and> [] \<notin> set (pf_labels (us_filter s)) \<and>
     distinct (pf_update_types (us_filter s)) \<and> distinct (pf_check_statuses (us_filter s)) \<and>
     (\<forall>c. us_cursor s = Some c \<longrightarrow> ul_cursor L c \<noteq> None) \<and>
     (\<forall>b. us_batch s = Some b \<longrightarrow> valid_batch_id (ul_uuid L) b)"

lemma url_ok_default: "url_ok L default_url"
  by (simp add: url_ok_def default_url_def default_filter_def)

lemma distinct_push: "distinct values \<Longrightarrow> distinct (push_unique values value)"
  by (auto simp: push_unique_def split: option.splits)

lemma push_nonempty:
  "[] \<notin> set values \<Longrightarrow> [] \<notin> set (push_unique values (if v = [] then None else Some v))"
  by (auto simp: push_unique_def split: option.splits)

lemma url_ok_param: "url_ok L s \<Longrightarrow> url_ok L (read_param L nv s)"
  by (cases nv) (auto simp: url_ok_def read_param_def Let_def distinct_push push_nonempty split: if_splits)

lemma url_ok_params: "url_ok L s \<Longrightarrow> url_ok L (fold (read_param L) pairs s)"
  by (induction pairs arbitrary: s) (auto simp: url_ok_param)

text \<open>
  C39: Whatever text the browser's address holds, the state it opens is one the dashboard could
  have set: no search or dependency of white space alone, no facet value twice, no empty
  repository or label, a cursor that decodes and a batch id of the shape this deployment mints.
\<close>

theorem routes_open_sound_states: "url_ok L (from_route L route)"
  unfolding from_route_def by (rule url_ok_params [OF url_ok_default])

section \<open>Reading a route back\<close>

lemma read_repos:
  "distinct (pf_repos (us_filter s) @ rs) \<Longrightarrow> [] \<notin> set rs \<Longrightarrow>
     fold (read_param L) (map (\<lambda>r. (''repo'', r)) rs) s =
     s\<lparr>us_filter := (us_filter s)\<lparr>pf_repos := pf_repos (us_filter s) @ rs\<rparr>\<rparr>"
  by (induction rs arbitrary: s) (auto simp: read_param_def Let_def push_unique_def)

lemma read_labels:
  "distinct (pf_labels (us_filter s) @ rs) \<Longrightarrow> [] \<notin> set rs \<Longrightarrow>
     fold (read_param L) (map (\<lambda>r. (''label'', r)) rs) s =
     s\<lparr>us_filter := (us_filter s)\<lparr>pf_labels := pf_labels (us_filter s) @ rs\<rparr>\<rparr>"
  by (induction rs arbitrary: s) (auto simp: read_param_def Let_def push_unique_def)

lemma read_types:
  "distinct (pf_update_types (us_filter s) @ ts) \<Longrightarrow>
     fold (read_param L) (map (\<lambda>t. (''type'', display_update_type t)) ts) s =
     s\<lparr>us_filter := (us_filter s)\<lparr>pf_update_types := pf_update_types (us_filter s) @ ts\<rparr>\<rparr>"
  by (induction ts arbitrary: s)
    (auto simp: read_param_def Let_def push_unique_def parsed_def update_type_codec.read_render)

lemma read_checks:
  "distinct (pf_check_statuses (us_filter s) @ cs) \<Longrightarrow>
     fold (read_param L) (map (\<lambda>c. (''check'', display_check_status c)) cs) s =
     s\<lparr>us_filter := (us_filter s)\<lparr>pf_check_statuses := pf_check_statuses (us_filter s) @ cs\<rparr>\<rparr>"
  by (induction cs arbitrary: s)
    (auto simp: read_param_def Let_def push_unique_def parsed_def check_status_codec.read_render)

lemma read_view:
  "\<not> pf_needs_attention (us_filter s) \<Longrightarrow>
     fold (read_param L) (if b then [(''view'', ''attention'')] else []) s =
     s\<lparr>us_filter := (us_filter s)\<lparr>pf_needs_attention := b\<rparr>\<rparr>"
  by (auto simp: read_param_def Let_def)

lemma read_query:
  "pf_query (us_filter s) = None \<Longrightarrow> (\<And>v. q = Some v \<Longrightarrow> trim v \<noteq> []) \<Longrightarrow>
     fold (read_param L) (optional_pair ''q'' q) s = s\<lparr>us_filter := (us_filter s)\<lparr>pf_query := q\<rparr>\<rparr>"
  by (auto simp: read_param_def optional_pair_def Let_def split: option.splits)

lemma read_dependency:
  "pf_dependency (us_filter s) = None \<Longrightarrow> (\<And>v. q = Some v \<Longrightarrow> trim v \<noteq> []) \<Longrightarrow>
     fold (read_param L) (optional_pair ''dep'' q) s = s\<lparr>us_filter := (us_filter s)\<lparr>pf_dependency := q\<rparr>\<rparr>"
  by (auto simp: read_param_def optional_pair_def Let_def split: option.splits)

lemma read_cursor:
  "us_cursor s = None \<Longrightarrow> (\<And>v. c = Some v \<Longrightarrow> ul_cursor L v \<noteq> None) \<Longrightarrow>
     fold (read_param L) (optional_pair ''after'' c) s = s\<lparr>us_cursor := c\<rparr>"
  by (auto simp: read_param_def optional_pair_def Let_def split: option.splits)

lemma read_pr:
  "us_pr s = None \<Longrightarrow>
     fold (read_param L) (optional_pair ''pr'' (map_option display_pr_key k)) s = s\<lparr>us_pr := k\<rparr>"
  by (auto simp: read_param_def optional_pair_def Let_def parsed_def parse_display_pr_key split: option.splits)

lemma read_batch:
  "us_batch s = None \<Longrightarrow> (\<And>v. b = Some v \<Longrightarrow> valid_batch_id (ul_uuid L) v) \<Longrightarrow>
     fold (read_param L) (optional_pair ''batch'' b) s = s\<lparr>us_batch := b\<rparr>"
  by (auto simp: read_param_def optional_pair_def Let_def split: option.splits)

lemma read_pairs: "url_ok L s \<Longrightarrow> fold (read_param L) (route_pairs s) default_url = s"
  unfolding url_ok_def route_pairs_def fold_append o_apply
  by (simp add: read_view read_query read_repos read_types read_checks read_labels read_dependency
      read_cursor read_pr read_batch default_url_def default_filter_def)

text \<open>
  C38: A state the dashboard could have set has one route, and opening that route gives the state
  back: no filter, page, pull request or batch is lost in a link or by a reload.
\<close>

theorem routes_round_trip:
  assumes "query_codec L" and "url_ok L s"
  shows "from_route L (to_route L s) = s \<and>
    (\<forall>t. url_ok L t \<longrightarrow> to_route L t = to_route L s \<longrightarrow> t = s)"
proof -
  have again: "from_route L (to_route L t) = t" if "url_ok L t" for t
    using query_codec.from_to_route [OF assms(1)] read_pairs [OF that] by simp
  then show ?thesis using assms(2) by metis
qed

section \<open>The two effects come to rest\<close>







section \<open>A spelling\<close>

text \<open>Names and values percent-encoded, with an equals sign between and an ampersand after each.\<close>

fun split_on :: "char \<Rightarrow> string \<Rightarrow> string list" where
  "split_on d [] = [[]]"
| "split_on d (c # s) =
     (if c = d then [] # split_on d s
      else (case split_on d s of [] \<Rightarrow> [[c]] | x # xs \<Rightarrow> (c # x) # xs))"

definition decoded :: "string \<Rightarrow> string" where
  "decoded s = (case percent_decode s of None \<Rightarrow> [] | Some t \<Rightarrow> t)"

definition plain_query :: url_libs where
  "plain_query =
     \<lparr>ul_parse = (\<lambda>q. map (\<lambda>seg. case split_once seg (CHR ''='') of
          None \<Rightarrow> ([], []) | Some (a, b) \<Rightarrow> (decoded a, decoded b)) (butlast (split_on (CHR ''&'') q))),
      ul_serialize = (\<lambda>pairs. concat (map (\<lambda>(k, v). encode_object_key k @ ''='' @ encode_object_key v @ ''&'') pairs)),
      ul_cursor = (\<lambda>_. None), ul_uuid = (\<lambda>_. Some 7)\<rparr>"

lemma encoded_free: "c \<in> set ''#&='' \<Longrightarrow> c \<notin> set (encode_object_key k)"
  using encoded_chars [of c k] by (auto simp: unreserved_def byte_def)

lemma split_on_append: "d \<notin> set a \<Longrightarrow> split_on d (a @ d # s) = a # split_on d s"
  by (induction a) auto

lemma split_on_nonempty [simp]: "split_on d s \<noteq> []"
  by (cases s) (auto split: list.splits)

interpretation plain_query: query_codec plain_query
proof unfold_locales
  fix pairs
  let ?spell = "\<lambda>ps. concat (map (\<lambda>(k, v). encode_object_key k @ ''='' @ encode_object_key v @ ''&'') ps)"
  show "ul_parse plain_query (ul_serialize plain_query pairs) = pairs"
  proof (induction pairs)
    case Nil
    then show ?case by (simp add: plain_query_def)
  next
    case (Cons kv pairs)
    obtain k v where kv: "kv = (k, v)" by (cases kv)
    let ?seg = "encode_object_key k @ CHR ''='' # encode_object_key v"
    have "CHR ''&'' \<notin> set ?seg" using encoded_free [of "CHR ''&''"] by simp
    then have "split_on (CHR ''&'') (?spell (kv # pairs)) = ?seg # split_on (CHR ''&'') (?spell pairs)"
      using split_on_append [of "CHR ''&''" ?seg "?spell pairs"] by (simp add: kv)
    moreover have "split_once ?seg (CHR ''='') = Some (encode_object_key k, encode_object_key v)"
      using encoded_free [of "CHR ''=''" k] by (intro split_once_append) simp
    ultimately show ?case using Cons by (simp add: plain_query_def kv decoded_def percent_decode_encoded)
  qed
  show "ul_serialize plain_query pairs = [] \<longleftrightarrow> pairs = []" by (cases pairs) (auto simp: plain_query_def)
  show "CHR ''#'' \<notin> set (ul_serialize plain_query pairs)"
    using encoded_free [of "CHR ''#''"] by (auto simp: plain_query_def)
qed

definition failing_view :: url_state where
  "failing_view = \<lparr>us_filter = default_filter\<lparr>pf_repos := [''acme/api''], pf_check_statuses := [CkFailure]\<rparr>,
     us_cursor = None, us_pr = Some (PrKey 1 7), us_batch = None\<rparr>"

lemma failing_view_ok: "url_ok plain_query failing_view"
  by (simp add: url_ok_def failing_view_def default_filter_def)

theorem routes_round_trip_witness: "from_route plain_query (to_route plain_query failing_view) = failing_view"
  using routes_round_trip [OF plain_query.query_codec_axioms failing_view_ok] by simp





end
