(* ===== verification/Ui_State_Contract.thy ===== *)
theory Ui_State_Contract
  imports Ui_State "HOL-Library.Multiset"
begin

text \<open>
  What the dashboard's selection promises, whatever is done to it: its rows are keyed by their
  ids, each once and in order, and what it submits is a batch the batch rules accept.
\<close>

section \<open>Ordered maps\<close>

text \<open>What the selection relies on of a map by keys.\<close>

locale keyed_map =
  fixes contains :: "'k \<Rightarrow> 'm \<Rightarrow> bool" and insert_at :: "'k \<Rightarrow> 'v \<Rightarrow> 'm \<Rightarrow> 'm" and remove :: "'k \<Rightarrow> 'm \<Rightarrow> 'm"
    and inv_ok :: "'m \<Rightarrow> bool"
  assumes contains_insert: "inv_ok m \<Longrightarrow> contains j (insert_at k v m) \<longleftrightarrow> j = k \<or> contains j m"
    and contains_removed: "inv_ok m \<Longrightarrow> contains j (remove k m) \<longleftrightarrow> j \<noteq> k \<and> contains j m"
    and insert_ok: "inv_ok m \<Longrightarrow> inv_ok (insert_at k v m)"
    and remove_ok: "inv_ok m \<Longrightarrow> inv_ok (remove k m)"
begin

lemma inserts_ok: "inv_ok m \<Longrightarrow> inv_ok (fold (\<lambda>x. insert_at (key x) (val x)) xs m)"
  by (induction xs arbitrary: m) (simp_all add: insert_ok)

lemma removes_ok: "inv_ok m \<Longrightarrow> inv_ok (fold (\<lambda>x. remove (key x)) xs m)"
  by (induction xs arbitrary: m) (simp_all add: remove_ok)

lemma contains_inserts:
  "inv_ok m \<Longrightarrow> contains j (fold (\<lambda>x. insert_at (key x) (val x)) xs m) \<longleftrightarrow> j \<in> key ` set xs \<or> contains j m"
  by (induction xs arbitrary: m) (auto simp: contains_insert insert_ok)

end

lemma set_bt_insert: "fst ` set (bt_insert k v m) = insert k (fst ` set m)"
  by (induction k v m rule: bt_insert.induct) auto

lemma bt_insert_entries: "set (bt_insert k v m) \<subseteq> insert (k, v) (set m)"
  by (induction k v m rule: bt_insert.induct) auto

lemma bt_ordered_Cons: "bt_ordered ((l, u) # m) \<longleftrightarrow> (\<forall>x\<in>fst ` set m. l < x) \<and> bt_ordered m"
  by (simp add: bt_ordered_def)

lemma bt_ordered_insert: "bt_ordered m \<Longrightarrow> bt_ordered (bt_insert k v m)"
proof (induction k v m rule: bt_insert.induct)
  case (1 k v)
  show ?case by (simp add: bt_ordered_def)
next
  case (2 k v l u m)
  consider "k < l" | "k = l" | "l < k" using less_linear by blast
  then show ?case
  proof cases
    case 1
    with "2.prems" show ?thesis by (auto simp: bt_ordered_Cons intro: less_trans)
  next
    case 2
    with "2.prems" show ?thesis by (simp add: bt_ordered_Cons)
  next
    case 3
    then have "\<not> k < l" "k \<noteq> l" by auto
    with 3 "2.prems" "2.IH" show ?thesis by (simp add: bt_ordered_Cons set_bt_insert)
  qed
qed

lemma bt_ordered_remove: "bt_ordered m \<Longrightarrow> bt_ordered (bt_remove k m)"
  unfolding bt_ordered_def bt_remove_def sorted_wrt_map by (rule sorted_wrt_filter)

interpretation btree: keyed_map bt_contains bt_insert bt_remove bt_ordered
  by unfold_locales
    (auto simp: bt_contains_def set_bt_insert bt_remove_def bt_ordered_insert bt_ordered_remove [unfolded bt_remove_def])

section \<open>Moves of the dashboard\<close>

datatype dash_move =
    ChangeFilter "pr_filter \<Rightarrow> pr_filter"
  | Navigate pr_filter "string option"
  | LoadNext string
  | ShowPage "dashboard_page remote"
  | ToggleRow pr_record
  | ToggleVisible
  | SelectMatching pr_filter dashboard_page
  | Deselect "pr_record list"
  | AskReload
  | NoteLine connection

fun dash_step :: "dash_move \<Rightarrow> dashboard \<Rightarrow> dashboard" where
  "dash_step (ChangeFilter change) d = update_filter change d"
| "dash_step (Navigate f cursor) d = navigate f cursor d"
| "dash_step (LoadNext cursor) d = load_next cursor d"
| "dash_step (ShowPage page) d = d\<lparr>dv_page := page\<rparr>"
| "dash_step (ToggleRow row) d = toggle_selected row d"
| "dash_step ToggleVisible d = toggle_visible d"
| "dash_step (SelectMatching f matching) d = select_matching f matching d"
| "dash_step (Deselect rows) d = deselect rows d"
| "dash_step AskReload d = reload d"
| "dash_step (NoteLine line) d = poll_missed line d"

text \<open>Rows as the read model gives them: their id is their printed key.\<close>

definition keyed_row :: "pr_record \<Rightarrow> bool" where
  "keyed_row row \<longleftrightarrow> pr_id row = display_pr_key (record_key row)"

definition page_rows_of :: "dashboard_page remote \<Rightarrow> pr_record set" where
  "page_rows_of page = (case page of Loaded p \<Rightarrow> set (dp_rows p) | _ \<Rightarrow> {})"

fun rows_of_move :: "dash_move \<Rightarrow> pr_record set" where
  "rows_of_move (ShowPage page) = page_rows_of page"
| "rows_of_move (ToggleRow row) = {row}"
| "rows_of_move (SelectMatching _ matching) = set (dp_rows matching)"
| "rows_of_move _ = {}"

definition rows_ok :: "(string, pr_record) btree \<Rightarrow> bool" where
  "rows_ok m \<longleftrightarrow> bt_ordered m \<and> (\<forall>(k, row)\<in>set m. k = pr_id row \<and> keyed_row row)"

definition dash_ok :: "dashboard \<Rightarrow> bool" where
  "dash_ok d \<longleftrightarrow> rows_ok (sl_rows (dv_selected d)) \<and> (\<forall>row\<in>page_rows_of (dv_page d). keyed_row row)"

lemma rows_ok_insert: "rows_ok m \<Longrightarrow> keyed_row row \<Longrightarrow> rows_ok (bt_insert (pr_id row) row m)"
  using bt_insert_entries [of "pr_id row" row m] by (fastforce simp: rows_ok_def bt_ordered_insert)

lemma rows_ok_remove: "rows_ok m \<Longrightarrow> rows_ok (bt_remove k m)"
  by (auto simp: rows_ok_def bt_ordered_remove) (auto simp: bt_remove_def)

lemma rows_ok_inserts:
  "rows_ok m \<Longrightarrow> \<forall>row\<in>set rows. keyed_row row \<Longrightarrow> rows_ok (fold (\<lambda>row. bt_insert (pr_id row) row) rows m)"
  by (induction rows arbitrary: m) (auto simp: rows_ok_insert)

lemma rows_ok_removes: "rows_ok m \<Longrightarrow> rows_ok (fold (\<lambda>row. bt_remove (pr_id row)) rows m)"
  by (induction rows arbitrary: m) (auto simp: rows_ok_remove)

lemma rows_ok_none [simp]: "rows_ok []"
  by (simp add: rows_ok_def bt_ordered_def)

lemma collect_rows: "bt_collect (map (\<lambda>row. (pr_id row, row)) rows) = fold (\<lambda>row. bt_insert (pr_id row) row) rows []"
  by (simp add: bt_collect_def fold_map o_def)

lemma dash_ok_clear: "dash_ok d \<Longrightarrow> dash_ok (clear_selection d)"
  by (simp add: dash_ok_def clear_selection_def no_selection_def)

lemma dash_ok_frame [simp]:
  "dash_ok (d\<lparr>dv_filter := f\<rparr>) = dash_ok d" "dash_ok (d\<lparr>dv_cursor := c\<rparr>) = dash_ok d"
  "dash_ok (d\<lparr>dv_reloads := n\<rparr>) = dash_ok d" "dash_ok (d\<lparr>dv_connection := l\<rparr>) = dash_ok d"
  by (simp_all add: dash_ok_def)

lemma dash_ok_step:
  assumes "dash_ok d" and "\<forall>row\<in>rows_of_move m. keyed_row row"
  shows "dash_ok (dash_step m d)"
proof (cases m)
  case (SelectMatching f matching)
  with assms show ?thesis
    by (auto simp: select_matching_def Let_def dash_ok_def collect_rows rows_ok_inserts)
next
  case ToggleVisible
  show ?thesis
  proof (cases "dv_page d")
    case (Loaded page)
    then have "\<forall>row\<in>set (dp_rows page). keyed_row row" using assms(1) by (simp add: dash_ok_def page_rows_of_def)
    with ToggleVisible Loaded assms(1) show ?thesis
      by (cases "all_visible_selected d")
        (simp_all add: toggle_visible_def Let_def dash_ok_def rows_ok_inserts rows_ok_removes)
  qed (use ToggleVisible assms(1) in \<open>simp_all add: toggle_visible_def Let_def\<close>)
next
  case (ToggleRow row)
  with assms show ?thesis
    by (auto simp: toggle_selected_def Let_def dash_ok_def rows_ok_insert rows_ok_remove)
next
  case (Deselect rows)
  with assms show ?thesis by (auto simp: deselect_def dash_ok_def rows_ok_removes)
next
  case (ShowPage page)
  with assms show ?thesis by (simp add: dash_ok_def)
qed (use assms in \<open>auto simp: update_filter_def navigate_def load_next_def reload_def poll_missed_def
    set_connection_def Let_def dash_ok_clear\<close>)

lemma dash_ok_steps: "dash_ok d \<Longrightarrow> \<forall>m\<in>set moves. \<forall>row\<in>rows_of_move m. keyed_row row \<Longrightarrow> dash_ok (fold dash_step moves d)"
  by (induction moves arbitrary: d) (auto simp: dash_ok_step)

section \<open>What is submitted\<close>

lemma as_shown_keyed:
  assumes "dash_ok d" and "keyed_row row"
  shows "pr_id (as_shown d row) = pr_id row \<and> keyed_row (as_shown d row)"
proof (cases "dv_page d")
  case (Loaded page)
  show ?thesis
  proof (cases "find (\<lambda>r. pr_id r = pr_id row) (dp_rows page)")
    case None
    with Loaded assms show ?thesis by (simp add: as_shown_def)
  next
    case (Some r)
    then have "r \<in> set (dp_rows page)" "pr_id r = pr_id row" by (auto simp: find_Some_iff)
    with Loaded assms Some show ?thesis by (auto simp: as_shown_def dash_ok_def page_rows_of_def)
  qed
qed (use assms in \<open>simp_all add: as_shown_def\<close>)

lemma shown_ids:
  assumes "dash_ok d"
  shows "map (\<lambda>(_, row). pr_id (as_shown d row)) (sl_rows (dv_selected d)) = map fst (sl_rows (dv_selected d))"
  using assms as_shown_keyed [OF assms] by (auto simp: dash_ok_def rows_ok_def)

lemma ordered_distinct: "bt_ordered m \<Longrightarrow> distinct (map fst m)"
  unfolding bt_ordered_def using strict_sorted_iff by blast

lemma selected_rows_set: "set (selected_rows d) = (\<lambda>(_, row). as_shown d row) ` set (sl_rows (dv_selected d))"
  by (simp add: selected_rows_def)

lemma selected_rows_ids:
  assumes "dash_ok d"
  shows "distinct (map pr_id (selected_rows d))"
proof -
  let ?rows = "map (\<lambda>(_, row). as_shown d row) (sl_rows (dv_selected d))"
  have "mset (selected_rows d) = mset ?rows" by (simp add: selected_rows_def del: rev_map)
  then have "mset (map pr_id (selected_rows d)) = mset (map pr_id ?rows)" by (simp only: mset_map)
  moreover have "map pr_id ?rows = map fst (sl_rows (dv_selected d))"
    using shown_ids [OF assms] by (simp add: case_prod_beta' o_def)
  moreover have "distinct (map fst (sl_rows (dv_selected d)))"
    using assms by (auto intro: ordered_distinct simp: dash_ok_def rows_ok_def)
  ultimately show ?thesis by (metis mset_eq_imp_distinct_iff)
qed

lemma pending_keys: "map target_key (map pr_target_of rows) = map record_key rows"
  by (simp add: target_key_def pr_target_of_def record_key_def)

lemma distinct_keys:
  assumes "\<forall>row\<in>set rows. keyed_row row" and "distinct (map pr_id rows)"
  shows "distinct (map record_key rows)"
proof -
  have "map pr_id rows = map display_pr_key (map record_key rows)"
    using assms(1) by (simp add: keyed_row_def)
  with assms(2) show ?thesis using distinct_map by metis
qed

lemma selected_rows_sorted: "sorted_wrt (\<lambda>a b. shown_rank b \<le> shown_rank a) (selected_rows d)"
proof -
  have "sorted (map shown_rank (sort_key shown_rank xs))" for xs by simp
  then show ?thesis
    unfolding selected_rows_def sorted_wrt_rev by (simp add: sorted_map)
qed

text \<open>
  C22: Whatever is done to the page, by filters, paging, toggles, select-all and the refresh, the
  rows a bulk action is asked for are the rows selected, each once, as the page in force shows
  them, newest update first; and as a batch they pass the batch rules exactly when there are
  between one and a hundred of them.
\<close>

theorem selection_submits_a_valid_batch:
  assumes "dv_selected d = no_selection" and "dv_page d = Loading"
    and "\<forall>m\<in>set moves. \<forall>row\<in>rows_of_move m. keyed_row row" and "valid_batch_id uuid batch_id"
  shows "let d' = fold dash_step moves d; rows = selected_rows d'
    in length rows = selected_count d' \<and> pr_id ` set rows = {i. is_selected d' i} \<and>
      sorted_wrt (\<lambda>a b. shown_rank b \<le> shown_rank a) rows \<and>
      (validate_batch uuid batch_id None (map target_key (map pr_target_of rows)) = Inr () \<longleftrightarrow>
        1 \<le> selected_count d' \<and> selected_count d' \<le> 100)"
proof -
  let ?d = "fold dash_step moves d"
  let ?rows = "selected_rows ?d"
  have ok: "dash_ok ?d"
    using assms(1-3) by (intro dash_ok_steps) (auto simp: dash_ok_def no_selection_def page_rows_of_def)
  have len: "length ?rows = selected_count ?d" by (simp add: selected_rows_def selected_count_def)
  have "pr_id ` set ?rows = set (map (\<lambda>(_, row). pr_id (as_shown ?d row)) (sl_rows (dv_selected ?d)))"
    by (auto simp: selected_rows_set image_iff)
  then have ids: "pr_id ` set ?rows = {i. is_selected ?d i}"
    unfolding shown_ids [OF ok] by (auto simp: is_selected_def bt_contains_def)
  have "\<forall>row\<in>set ?rows. keyed_row row"
    using ok as_shown_keyed [OF ok] by (auto simp: selected_rows_set dash_ok_def rows_ok_def)
  then have "distinct (map record_key ?rows)" using distinct_keys selected_rows_ids [OF ok] by blast
  then have "validate_batch uuid batch_id None (map target_key (map pr_target_of ?rows)) = Inr () \<longleftrightarrow>
      1 \<le> selected_count ?d \<and> selected_count ?d \<le> 100"
    unfolding pending_keys validate_batch_Inr_iff using assms(4) len by auto
  with len ids selected_rows_sorted show ?thesis by (simp add: Let_def)
qed

definition one_row :: pr_record where
  "one_row = \<lparr>pr_id = ''1#7'', pr_repository_id = 1, pr_owner = ''acme'', pr_repo = ''api'',
     pr_number = 7, pr_title = ''Bump serde'', pr_html_url = ''https://x'', pr_dependency = None,
     pr_from_version = None, pr_to_version = None, pr_dependencies = [], pr_update_type = UtMinor,
     pr_head_sha = ''abc'', pr_check_status = CkSuccess, pr_mergeable = MgClean, pr_labels = [],
     pr_created_at = 8, pr_updated_at = 9, pr_synced_at = 10\<rparr>"

definition fresh_page :: dashboard where
  "fresh_page = \<lparr>dv_filter = default_filter, dv_cursor = None, dv_selected = no_selection, dv_page = Loading,
     dv_summary = Loading, dv_capabilities = Loading, dv_now = 0, dv_syncing = False,
     dv_connection = Online, dv_refreshed_at = None, dv_reloads = 0\<rparr>"

theorem selection_submits_a_valid_batch_witness:
  "validate_batch (\<lambda>_. Some 7) ''b'' None
     (map target_key (map pr_target_of (selected_rows (fold dash_step [ToggleRow one_row] fresh_page)))) = Inr ()"
proof -
  have "display_pr_key (PrKey 1 7) = ''1#7''" by code_simp
  then have "\<forall>m\<in>set [ToggleRow one_row]. \<forall>row\<in>rows_of_move m. keyed_row row"
    by (simp add: keyed_row_def one_row_def record_key_def)
  moreover have "dv_selected fresh_page = no_selection" "dv_page fresh_page = Loading" by (simp_all add: fresh_page_def)
  moreover have "valid_batch_id (\<lambda>_. Some 7) ''b''" by (simp add: valid_batch_id_def)
  moreover have "selected_count (fold dash_step [ToggleRow one_row] fresh_page) = 1"
    by (simp add: selected_count_def toggle_selected_def Let_def fresh_page_def no_selection_def bt_contains_def)
  ultimately show ?thesis
    using selection_submits_a_valid_batch [of fresh_page "[ToggleRow one_row]" "\<lambda>_. Some 7" "''b''"]
    unfolding Let_def by auto
qed

end
