(* ===== verification/Migrations.thy ===== *)
theory Migrations
  imports Store_Rows
begin

text \<open>
  The versioned schema migrations (\<^verbatim>\<open>crates/store/src/migrations.rs\<close>): the registry, the run that
  applies what a database has not seen, and processes that run it side by side. What a file of SQL
  does to the schema is a parameter that acts on a schema of its own. Every call to the database may
  fail, with or without having taken effect.
\<close>

section \<open>The registry\<close>

record migration =
  mg_version :: u32
  mg_name :: string
  mg_sql :: string

text \<open>A file stands for the text of it that is embedded.\<close>

definition MIGRATIONS :: "migration list" where
  "MIGRATIONS =
     [\<lparr>mg_version = 1, mg_name = ''initial'', mg_sql = ''0001_initial.sql''\<rparr>,
      \<lparr>mg_version = 2, mg_name = ''pull_request_constraints'', mg_sql = ''0002_pull_request_constraints.sql''\<rparr>,
      \<lparr>mg_version = 3, mg_name = ''repository_merge_method'', mg_sql = ''0003_repository_merge_method.sql''\<rparr>,
      \<lparr>mg_version = 4, mg_name = ''projection_revision'', mg_sql = ''0004_projection_revision.sql''\<rparr>,
      \<lparr>mg_version = 5, mg_name = ''batches'', mg_sql = ''0005_batches.sql''\<rparr>,
      \<lparr>mg_version = 6, mg_name = ''drop_owner_filter_index'', mg_sql = ''0006_drop_owner_filter_index.sql''\<rparr>,
      \<lparr>mg_version = 7, mg_name = ''pull_request_revision'', mg_sql = ''0007_pull_request_revision.sql''\<rparr>,
      \<lparr>mg_version = 8, mg_name = ''pull_request_retirements'', mg_sql = ''0008_pull_request_retirements.sql''\<rparr>,
      \<lparr>mg_version = 9, mg_name = ''running_batches'', mg_sql = ''0009_running_batches.sql''\<rparr>,
      \<lparr>mg_version = 10, mg_name = ''batch_provenance'', mg_sql = ''0010_batch_provenance.sql''\<rparr>,
      \<lparr>mg_version = 11, mg_name = ''batch_installation'', mg_sql = ''0011_batch_installation.sql''\<rparr>]"

section \<open>The database\<close>

record schema_row =
  sm_version :: int
  sm_name :: string
  sm_applied_at :: int

text \<open>
  The schema, the table of applied versions once there is one, and the faults the calls to come
  meet: the error, and whether the call took effect all the same.
\<close>

record 'd migrating =
  mi_schema :: 'd
  mi_rows :: "schema_row list option"
  mi_faults :: "(store_error \<times> bool) option list"

type_synonym ('d, 'a) mig_op = "('d migrating, store_error, 'a) eff"
type_synonym 'd sql_runner = "string \<Rightarrow> 'd \<Rightarrow> store_error + 'd"

definition without_fault :: "'d migrating \<Rightarrow> 'd migrating" where
  "without_fault w = w\<lparr>mi_faults := tl (mi_faults w)\<rparr>"

definition db_call :: "('d migrating \<Rightarrow> (store_error + 'a) \<times> 'd migrating) \<Rightarrow> ('d, 'a) mig_op" where
  "db_call statement w =
     (let w0 = without_fault w
      in case mi_faults w of
           Some (e, took) # _ \<Rightarrow> (Inl e, if took then snd (statement w0) else w0)
         | _ \<Rightarrow> statement w0)"

text \<open>\<open>CREATE TABLE IF NOT EXISTS\<close>.\<close>

definition create_schema_migrations :: "('d, unit) mig_op" where
  "create_schema_migrations =
     db_call (\<lambda>w. (Inr (), w\<lparr>mi_rows := (case mi_rows w of None \<Rightarrow> Some [] | Some rows \<Rightarrow> Some rows)\<rparr>))"

definition row_version :: "schema_row \<Rightarrow> store_error + u32" where
  "row_version row =
     (if 0 \<le> sm_version row \<and> sm_version row < 2 ^ 32 then Inr (word_of_int (sm_version row))
      else Inl StIntegerOverflow)"

definition recorded_versions :: "('d, u32 list) mig_op" where
  "recorded_versions =
     db_call (\<lambda>w. (case mi_rows w of
         None \<Rightarrow> Inl (StDatabase (OtherDatabaseError ''no such table: schema_migrations''))
       | Some rows \<Rightarrow> collect_results (map row_version rows), w))"

definition execute_batch :: "'d sql_runner \<Rightarrow> string \<Rightarrow> ('d, unit) mig_op" where
  "execute_batch run sql =
     db_call (\<lambda>w. case run sql (mi_schema w) of
         Inl e \<Rightarrow> (Inl e, w) | Inr d \<Rightarrow> (Inr (), w\<lparr>mi_schema := d\<rparr>))"

definition insert_version :: "migration \<Rightarrow> int \<Rightarrow> ('d, unit) mig_op" where
  "insert_version m at =
     db_call (\<lambda>w. (Inr (), w\<lparr>mi_rows := map_option (\<lambda>rows. rows @
        [\<lparr>sm_version = uint (mg_version m), sm_name = mg_name m, sm_applied_at = at\<rparr>]) (mi_rows w)\<rparr>))"

section \<open>Applying\<close>

text \<open>Leaving a transaction without committing it.\<close>

definition rolled_back :: "'d migrating \<Rightarrow> 'd migrating \<Rightarrow> 'd migrating" where
  "rolled_back before w = w\<lparr>mi_schema := mi_schema before, mi_rows := mi_rows before\<rparr>"

text \<open>What happens inside the transaction: whether there is something to commit.\<close>

definition migrate_body :: "'d sql_runner \<Rightarrow> u64 \<Rightarrow> migration \<Rightarrow> ('d, bool) mig_op" where
  "migrate_body run now m =
     andthen (db_call (\<lambda>w. (Inr (), w))) (\<lambda>_.
     andthen recorded_versions (\<lambda>versions.
       if mg_version m \<in> set versions then ok False
       else
         andthen (execute_batch run (mg_sql m)) (\<lambda>_.
         andthen (lift (integer now)) (\<lambda>at.
         andthen (insert_version m at) (\<lambda>_. ok True)))))"

text \<open>One migration in its transaction: whether this call applied it.\<close>

definition migrate_one :: "'d sql_runner \<Rightarrow> u64 \<Rightarrow> migration \<Rightarrow> ('d, bool) mig_op" where
  "migrate_one run now m w =
     (case migrate_body run now m w of
        (Inl e, w1) \<Rightarrow> (Inl e, rolled_back w w1)
      | (Inr False, w1) \<Rightarrow> andthen (db_call (\<lambda>w. (Inr (), w))) (\<lambda>_. ok False) (rolled_back w w1)
      | (Inr True, w1) \<Rightarrow>
          (case mi_faults w1 of
             Some (e, took) # _ \<Rightarrow> (Inl e, without_fault (if took then w1 else rolled_back w w1))
           | _ \<Rightarrow> (Inr True, without_fault w1)))"

text \<open>\<open>now\<close> is the clock when a version is recorded.\<close>

fun apply_each ::
    "'d sql_runner \<Rightarrow> (u32 \<Rightarrow> u64) \<Rightarrow> migration list \<Rightarrow> u32 list \<Rightarrow> ('d, u32 list) mig_op" where
  "apply_each run now [] applied = ok applied"
| "apply_each run now (m # pending) applied =
     andthen (migrate_one run (now (mg_version m)) m) (\<lambda>fresh_one.
       apply_each run now pending (if fresh_one then applied @ [mg_version m] else applied))"

definition not_recorded :: "u32 list \<Rightarrow> migration list \<Rightarrow> migration list" where
  "not_recorded recorded migrations = filter (\<lambda>m. mg_version m \<notin> set recorded) migrations"

definition apply_registered ::
    "'d sql_runner \<Rightarrow> (u32 \<Rightarrow> u64) \<Rightarrow> migration list \<Rightarrow> ('d, u32 list) mig_op" where
  "apply_registered run now migrations =
     andthen create_schema_migrations (\<lambda>_.
     andthen recorded_versions (\<lambda>recorded.
       apply_each run now (not_recorded recorded migrations) []))"

definition apply_migrations :: "'d sql_runner \<Rightarrow> (u32 \<Rightarrow> u64) \<Rightarrow> ('d, u32 list) mig_op" where
  "apply_migrations run now = apply_registered run now MIGRATIONS"

section \<open>Processes side by side\<close>

text \<open>
  A process between two of its calls: a transaction holds the write lock from its first call on,
  so the database sees it as one step. A process that has ended reports what it applied.
\<close>

datatype migrator =
    Created
  | Reading
  | Applying "migration list" "u32 list"
  | Ended "store_error + u32 list" "u32 list"

fun applied_by :: "migrator \<Rightarrow> u32 list" where
  "applied_by (Applying _ applied) = applied"
| "applied_by (Ended _ applied) = applied"
| "applied_by _ = []"

fun migrator_step ::
    "'d sql_runner \<Rightarrow> (u32 \<Rightarrow> u64) \<Rightarrow> migration list \<Rightarrow> migrator \<Rightarrow> 'd migrating \<Rightarrow> migrator \<times> 'd migrating" where
  "migrator_step run now migrations Created w =
     (case create_schema_migrations w of (Inl e, w') \<Rightarrow> (Ended (Inl e) [], w') | (Inr _, w') \<Rightarrow> (Reading, w'))"
| "migrator_step run now migrations Reading w =
     (case recorded_versions w of
        (Inl e, w') \<Rightarrow> (Ended (Inl e) [], w')
      | (Inr recorded, w') \<Rightarrow> (Applying (not_recorded recorded migrations) [], w'))"
| "migrator_step run now migrations (Applying [] applied) w = (Ended (Inr applied) applied, w)"
| "migrator_step run now migrations (Applying (m # pending) applied) w =
     (case migrate_one run (now (mg_version m)) m w of
        (Inl e, w') \<Rightarrow> (Ended (Inl e) applied, w')
      | (Inr fresh_one, w') \<Rightarrow>
          (Applying pending (if fresh_one then applied @ [mg_version m] else applied), w'))"
| "migrator_step run now migrations (Ended r applied) w = (Ended r applied, w)"

text \<open>
  Any process may take its next step, one may be started or killed at any time, and the faults to
  come are anything.
\<close>

inductive migrating_step ::
    "'d sql_runner \<Rightarrow> (u32 \<Rightarrow> u64) \<Rightarrow> migration list \<Rightarrow> 'd migrating \<times> migrator list \<Rightarrow>
     'd migrating \<times> migrator list \<Rightarrow> bool"
  for run now migrations where
  Steps: "i < length ps \<Longrightarrow> migrator_step run now migrations (ps ! i) w = (p, w') \<Longrightarrow>
     migrating_step run now migrations (w, ps) (w', ps[i := p])"
| Starts: "migrating_step run now migrations (w, ps) (w, ps @ [Created])"
| Dies: "i < length ps \<Longrightarrow>
     migrating_step run now migrations (w, ps) (w, ps[i := Ended (Inl e) (applied_by (ps ! i))])"
| Faults: "migrating_step run now migrations (w, ps) (w\<lparr>mi_faults := faults\<rparr>, ps)"

end
