(* ===== verification/Migrations_Contract.thy ===== *)
theory Migrations_Contract
  imports Migrations "HOL-Library.Multiset"
begin

text \<open>
  What the migrations promise: however many processes run them, and whatever fails, the database
  is always at one of the registered versions, having applied each migration up to it once and in
  order.
\<close>

section \<open>The version a database is at\<close>

fun migrated :: "'d sql_runner \<Rightarrow> migration list \<Rightarrow> 'd \<Rightarrow> store_error + 'd" where
  "migrated run [] d = Inr d"
| "migrated run (m # ms) d = bind_result (run (mg_sql m) d) (migrated run ms)"

definition versions_of :: "migration list \<Rightarrow> int list" where
  "versions_of ms = map (\<lambda>m. uint (mg_version m)) ms"

text \<open>The first \<open>k\<close> migrations of the registry, and no other, applied to \<open>d\<close> and recorded.\<close>

definition at_version :: "'d sql_runner \<Rightarrow> migration list \<Rightarrow> 'd \<Rightarrow> nat \<Rightarrow> ('d, 'm) migrating_scheme \<Rightarrow> bool" where
  "at_version run ms d k w \<longleftrightarrow>
     k \<le> length ms \<and> migrated run (take k ms) d = Inr (mi_schema w) \<and>
     (case mi_rows w of None \<Rightarrow> k = 0 | Some rows \<Rightarrow> map sm_version rows = versions_of (take k ms))"

definition has_table :: "('d, 'm) migrating_scheme \<Rightarrow> bool" where
  "has_table w \<longleftrightarrow> mi_rows w \<noteq> None"

lemma migrated_append: "migrated run (xs @ ys) d = bind_result (migrated run xs d) (migrated run ys)"
  by (induction xs arbitrary: d) (auto simp: bind_result_def split: sum.splits)

lemma at_version_faults [simp]:
  "at_version run ms d k (w\<lparr>mi_faults := faults\<rparr>) = at_version run ms d k w"
  "has_table (w\<lparr>mi_faults := faults\<rparr>) = has_table w"
  by (simp_all add: at_version_def has_table_def)

lemma at_version_without [simp]:
  "at_version run ms d k (without_fault w) = at_version run ms d k w"
  "has_table (without_fault w) = has_table w"
  by (simp_all add: without_fault_def)

lemma rolled_back_simps [simp]:
  "at_version run ms d k (rolled_back w w') = at_version run ms d k w"
  "has_table (rolled_back w w') = has_table w"
  by (simp_all add: at_version_def has_table_def rolled_back_def)

text \<open>A statement that only reads leaves the version as it was, whatever the fault.\<close>

lemma db_call_frame:
  assumes "\<And>u. mi_schema (snd (statement u)) = mi_schema u" and "\<And>u. mi_rows (snd (statement u)) = mi_rows u"
  shows "at_version run ms d k (snd (db_call statement w)) = at_version run ms d k w"
    and "has_table (snd (db_call statement w)) = has_table w"
    and "mi_schema (snd (db_call statement w)) = mi_schema w"
    and "mi_rows (snd (db_call statement w)) = mi_rows w"
  using assms
  by (auto simp: db_call_def Let_def at_version_def has_table_def without_fault_def split: list.splits option.splits)

lemma row_versions:
  assumes "map sm_version rows = versions_of ms"
  shows "collect_results (map row_version rows) = Inr (map mg_version ms)"
  using assms
proof (induction rows arbitrary: ms)
  case Nil
  then show ?case by (simp add: versions_of_def)
next
  case (Cons row rows)
  then obtain m ms' where ms: "ms = m # ms'" "sm_version row = uint (mg_version m)"
      "map sm_version rows = versions_of ms'"
    by (cases ms) (auto simp: versions_of_def)
  have "uint (mg_version m) < 2 ^ 32" using uint_lt2p [of "mg_version m"] by simp
  with ms Cons.IH [OF ms(3)] show ?case by (simp add: row_version_def bind_result_def)
qed

lemma recorded_versions_at:
  assumes "at_version run ms d k w" and "has_table w" and "recorded_versions w = (Inr vs, w')"
  shows "vs = map mg_version (take k ms)"
  using assms row_versions
  by (fastforce simp: recorded_versions_def db_call_def Let_def at_version_def has_table_def without_fault_def
      split: list.splits option.splits)

lemma recorded_versions_frame:
  assumes "recorded_versions w = (r, w')"
  shows "at_version run ms d k w' = at_version run ms d k w" and "has_table w' = has_table w"
    and "mi_schema w' = mi_schema w" and "mi_rows w' = mi_rows w"
  using db_call_frame [where w = w and statement = "\<lambda>w. (case mi_rows w of
         None \<Rightarrow> Inl (StDatabase (OtherDatabaseError ''no such table: schema_migrations''))
       | Some rows \<Rightarrow> collect_results (map row_version rows), w)"] assms
  by (simp_all add: recorded_versions_def [symmetric] prod_eq_iff)

section \<open>One migration\<close>

lemma take_next: "i < length ms \<Longrightarrow> take (Suc i) ms = take i ms @ [ms ! i]"
  by (rule take_Suc_conv_app_nth)

text \<open>Executed and recorded, the next migration takes the database one version further.\<close>

lemma at_next_version:
  assumes "at_version run ms d k w" and "k < length ms" and "run (mg_sql (ms ! k)) (mi_schema w) = Inr e"
    and "mi_schema w' = e"
    and "mi_rows w' = Some (rows @ [\<lparr>sm_version = uint (mg_version (ms ! k)), sm_name = name, sm_applied_at = at\<rparr>])"
    and "mi_rows w = Some rows"
  shows "at_version run ms d (Suc k) w'"
  using assms by (simp add: at_version_def take_next migrated_append versions_of_def)

text \<open>What a transaction on the migration at \<open>i\<close> leaves of a database that is past those before it.\<close>

definition moved_on :: "nat \<Rightarrow> nat \<Rightarrow> nat \<Rightarrow> store_error + bool \<Rightarrow> bool" where
  "moved_on i k k' r \<longleftrightarrow>
     (case r of
        Inl _ \<Rightarrow> k' = k \<or> i = k \<and> k' = Suc k
      | Inr fresh_one \<Rightarrow> k' = (if fresh_one then Suc k else k) \<and> fresh_one = (i = k))"

lemma already_recorded:
  assumes "distinct (map mg_version ms)" and "i < length ms" and "k \<le> length ms"
  shows "mg_version (ms ! i) \<in> set (map mg_version (take k ms)) \<longleftrightarrow> i < k"
proof -
  have "mg_version (ms ! i) \<in> set (map mg_version (take k ms)) \<longleftrightarrow>
      (\<exists>j<k. mg_version (ms ! j) = mg_version (ms ! i))"
    using assms(3) by (simp add: in_set_conv_nth [of _ "map mg_version (take k ms)"] min_def cong: conj_cong del: set_map)
  also have "\<dots> \<longleftrightarrow> i < k"
    using assms by (metis length_map nth_eq_iff_index_eq nth_map order_less_le_trans)
  finally show ?thesis .
qed

lemma db_call_Inr: "db_call statement w = (Inr a, w') \<Longrightarrow> statement (without_fault w) = (Inr a, w')"
  by (auto simp: db_call_def Let_def split: list.splits option.splits if_splits)

lemma without_fault_fields [simp]: "mi_schema (without_fault w) = mi_schema w" "mi_rows (without_fault w) = mi_rows w"
  by (simp_all add: without_fault_def)

lemma migrate_body_at:
  assumes "distinct (map mg_version ms)" and at: "at_version run ms d k w" and "has_table w"
    and "i \<le> k" and "i < length ms" and "migrate_body run now (ms ! i) w = (Inr fresh_one, w')"
  shows "fresh_one = (i = k) \<and> has_table w' \<and> at_version run ms d (if fresh_one then Suc k else k) w'"
proof -
  let ?m = "ms ! i"
  from assms(6) obtain u w1 vs w2 where begun: "db_call (\<lambda>w. (Inr (), w)) w = (Inr u, w1)"
      and read: "recorded_versions w1 = (Inr vs, w2)"
      and rest: "(if mg_version ?m \<in> set vs then ok False
         else andthen (execute_batch run (mg_sql ?m)) (\<lambda>_. andthen (lift (integer now)) (\<lambda>at.
           andthen (insert_version ?m at) (\<lambda>_. ok True)))) w2 = (Inr fresh_one, w')"
    unfolding migrate_body_def andthen_Inr_iff by blast
  have w1: "w1 = without_fault w" using db_call_Inr [OF begun] by simp
  with at assms(3) have at1: "at_version run ms d k w1" "has_table w1" by simp_all
  note frame = recorded_versions_frame [OF read]
  have at2: "at_version run ms d k w2" "has_table w2" using frame(1,2) at1 by auto
  have "k \<le> length ms" using at by (simp add: at_version_def)
  then have known: "mg_version ?m \<in> set vs \<longleftrightarrow> i < k"
    using recorded_versions_at [OF at1 read] already_recorded [OF assms(1,5)] by simp
  show ?thesis
  proof (cases "i < k")
    case True
    with known rest at2 show ?thesis by simp
  next
    case False
    with assms(4) have ik: "i = k" by simp
    from False known rest obtain w3 at' where ran: "execute_batch run (mg_sql ?m) w2 = (Inr (), w3)"
        and ins: "insert_version ?m at' w3 = (Inr (), w')" and fresh: "fresh_one"
      by (auto simp: andthen_Inr_iff)
    from db_call_Inr [OF ran [unfolded execute_batch_def]] obtain e where
        e: "run (mg_sql ?m) (mi_schema w2) = Inr e" and w3: "w3 = (without_fault w2)\<lparr>mi_schema := e\<rparr>"
      by (auto split: sum.splits)
    from at2(2) obtain rows where rows: "mi_rows w2 = Some rows" by (auto simp: has_table_def)
    from db_call_Inr [OF ins [unfolded insert_version_def]] w3 rows
    have w': "mi_schema w' = e" "mi_rows w' = Some (rows @
        [\<lparr>sm_version = uint (mg_version ?m), sm_name = mg_name ?m, sm_applied_at = at'\<rparr>])"
      by auto
    have "at_version run ms d (Suc k) w'"
      using at_next_version [OF at2(1) _ e [unfolded ik] w'(1) w'(2) [unfolded ik] rows] assms(5) ik by simp
    with fresh ik w' show ?thesis by (simp add: has_table_def)
  qed
qed

lemma migrate_one_at:
  assumes "distinct (map mg_version ms)" and "at_version run ms d k w" and "has_table w"
    and "i \<le> k" and "i < length ms" and "migrate_one run now (ms ! i) w = (r, w')"
  shows "\<exists>k'. at_version run ms d k' w' \<and> has_table w' \<and> moved_on i k k' r"
proof (cases "migrate_body run now (ms ! i) w")
  case (Pair b w1)
  show ?thesis
  proof (cases b)
    case (Inl e)
    with Pair assms(2,3,6) show ?thesis by (intro exI [of _ k]) (auto simp: migrate_one_def moved_on_def)
  next
    case (Inr fresh_one)
    note body = migrate_body_at [OF assms(1-5) Pair [unfolded Inr]]
    show ?thesis
    proof (cases fresh_one)
      case True
      with body have at1: "at_version run ms d (Suc k) w1" "has_table w1" "i = k" by auto
      show ?thesis
      proof (cases "\<exists>e rest. mi_faults w1 = Some (e, False) # rest")
        case True
        with Pair Inr \<open>fresh_one\<close> assms(2,3,6) show ?thesis
          by (intro exI [of _ k]) (auto simp: migrate_one_def moved_on_def)
      next
        case False
        with Pair Inr \<open>fresh_one\<close> at1 assms(6) show ?thesis
          by (intro exI [of _ "Suc k"])
            (auto simp: migrate_one_def moved_on_def split: list.splits option.splits if_splits)
      qed
    next
      case False
      with body have "i \<noteq> k" by simp
      have w': "w' = snd (db_call (\<lambda>w. (Inr (), w)) (rolled_back w w1))" and r: "isl r \<or> r = Inr False"
        using Pair Inr False assms(6)
        by (auto simp: migrate_one_def andthen_def split: prod.splits sum.splits)
      have "at_version run ms d k w'" "has_table w'"
        unfolding w' using assms(2,3) by (simp_all add: db_call_frame)
      with r \<open>i \<noteq> k\<close> show ?thesis by (intro exI [of _ k]) (auto simp: moved_on_def split: sum.splits)
    qed
  qed
qed

section \<open>Processes side by side\<close>

text \<open>
  A process that has read the versions has the rest of the registry before it, from a place the
  database has reached; one that ended well saw the whole of it applied.
\<close>

fun migrator_ok :: "migration list \<Rightarrow> nat \<Rightarrow> bool \<Rightarrow> migrator \<Rightarrow> bool" where
  "migrator_ok ms k table Created = True"
| "migrator_ok ms k table Reading = table"
| "migrator_ok ms k table (Applying pending _) = (table \<and> (\<exists>i\<le>k. pending = drop i ms))"
| "migrator_ok ms k table (Ended r applied) =
     (case r of Inl _ \<Rightarrow> True | Inr a \<Rightarrow> k = length ms \<and> a = applied)"

definition migrating_ok ::
    "'d sql_runner \<Rightarrow> migration list \<Rightarrow> 'd \<Rightarrow> nat \<Rightarrow> 'd migrating \<times> migrator list \<Rightarrow> bool" where
  "migrating_ok run ms d start = (\<lambda>(w, ps). \<exists>k\<ge>start. at_version run ms d k w \<and>
     (\<forall>p\<in>set ps. migrator_ok ms k (has_table w) p) \<and>
     distinct (concat (map applied_by ps)) \<and>
     set (concat (map applied_by ps)) \<subseteq> mg_version ` set (drop start (take k ms)))"

lemma migrator_ok_later: "migrator_ok ms k table p \<Longrightarrow> k \<le> k' \<Longrightarrow> k' \<le> length ms \<Longrightarrow> (table \<Longrightarrow> table') \<Longrightarrow> migrator_ok ms k' table' p"
  by (cases "(ms, k, table, p)" rule: migrator_ok.cases) (auto split: sum.splits intro: order_trans)

lemma not_recorded_taken:
  assumes "distinct (map mg_version ms)"
  shows "not_recorded (map mg_version (take k ms)) ms = drop k ms"
proof -
  have "distinct (map mg_version (take k ms) @ map mg_version (drop k ms))"
    using assms by (metis append_take_drop_id map_append)
  then have apart: "\<forall>m\<in>set (drop k ms). mg_version m \<notin> mg_version ` set (take k ms)" by auto
  have "filter (\<lambda>m. mg_version m \<notin> mg_version ` set (take k ms)) (take k ms @ drop k ms) = drop k ms"
    unfolding filter_append using apart by (simp add: filter_empty_conv filter_id_conv del: append_take_drop_id)
  then show ?thesis by (simp add: not_recorded_def)
qed

lemma create_at:
  assumes "at_version run ms d k w" and "create_schema_migrations w = (r, w')"
  shows "at_version run ms d k w'" and "has_table w \<Longrightarrow> has_table w'" and "r = Inr () \<Longrightarrow> has_table w'"
  using assms
  by (auto simp: create_schema_migrations_def db_call_def Let_def at_version_def has_table_def without_fault_def
      versions_of_def split: list.splits option.splits if_splits)

text \<open>One step of a process: at most the next version is applied, and only then it reports one more.\<close>

definition reported :: "migration list \<Rightarrow> nat \<Rightarrow> nat \<Rightarrow> migrator \<Rightarrow> migrator \<Rightarrow> bool" where
  "reported ms k k' p p' \<longleftrightarrow>
     applied_by p' = applied_by p \<or> k < length ms \<and> k' = Suc k \<and> applied_by p' = applied_by p @ [mg_version (ms ! k)]"

lemma migrator_step_at:
  assumes "distinct (map mg_version ms)" and at: "at_version run ms d k w" and "migrator_ok ms k (has_table w) p"
    and step: "migrator_step run now ms p w = (p', w')"
  shows "\<exists>k'\<ge>k. at_version run ms d k' w' \<and> (has_table w \<longrightarrow> has_table w') \<and>
    migrator_ok ms k' (has_table w') p' \<and> reported ms k k' p p'"
proof (cases p)
  case Created
  obtain r v where c: "create_schema_migrations w = (r, v)" by force
  with step Created create_at [OF at c] show ?thesis
    by (intro exI [of _ k]) (auto simp: reported_def split: sum.splits)
next
  case Reading
  obtain r v where c: "recorded_versions w = (r, v)" by force
  note frame = recorded_versions_frame [OF c]
  have table: "has_table w" using assms(3) Reading by simp
  show ?thesis
  proof (cases r)
    case (Inl e)
    with step Reading c at frame(1,2) table show ?thesis
      by (intro exI [of _ k]) (auto simp: reported_def)
  next
    case (Inr vs)
    then have "not_recorded vs ms = drop k ms"
      using recorded_versions_at [OF at table] c not_recorded_taken [OF assms(1)] by simp
    with Inr step Reading c at frame(1,2) table show ?thesis
      by (intro exI [of _ k]) (auto simp: reported_def)
  qed
next
  case (Applying pending applied)
  with assms(3) obtain i where i: "i \<le> k" "pending = drop i ms" and table: "has_table w" by auto
  show ?thesis
  proof (cases "i < length ms")
    case False
    moreover have "k \<le> length ms" using at by (simp add: at_version_def)
    ultimately have "pending = []" "k = length ms" using i by auto
    with Applying step at table show ?thesis
      by (intro exI [of _ k]) (auto simp: reported_def)
  next
    case True
    then have pending: "pending = ms ! i # drop (Suc i) ms" using i(2) by (simp add: Cons_nth_drop_Suc)
    obtain r v where one: "migrate_one run (now (mg_version (ms ! i))) (ms ! i) w = (r, v)" by force
    from migrate_one_at [OF assms(1) at table i(1) True one] obtain k' where
        k': "at_version run ms d k' v" "has_table v" "moved_on i k k' r" by blast
    show ?thesis
    proof (cases r)
      case (Inl e)
      with step Applying pending one k' show ?thesis
        by (intro exI [of _ k']) (auto simp: reported_def moved_on_def)
    next
      case (Inr fresh_one)
      with k'(3) have "k' = (if fresh_one then Suc k else k)" "fresh_one = (i = k)" by (auto simp: moved_on_def)
      moreover from this i(1) have "Suc i \<le> k'" by auto
      ultimately show ?thesis using Inr step Applying pending one k' True
        by (intro exI [of _ k']) (auto simp: reported_def)
    qed
  qed
next
  case (Ended r applied)
  with step at assms(3) show ?thesis by (intro exI [of _ k]) (auto simp: reported_def)
qed

lemma set_slice: "set (drop a (take k xs)) = {xs ! j | j. a \<le> j \<and> j < k \<and> j < length xs}"
proof (intro equalityI subsetI)
  fix x assume "x \<in> set (drop a (take k xs))"
  then obtain j where j: "j < length (drop a (take k xs))" "x = drop a (take k xs) ! j" by (metis in_set_conv_nth)
  from j(1) have "a + j < length (take k xs)" by (simp only: length_drop less_diff_conv add.commute)
  then have "a + j < k" "a + j < length xs" "x = xs ! (a + j)" using j(2) by auto
  then show "x \<in> {xs ! j | j. a \<le> j \<and> j < k \<and> j < length xs}" by auto
next
  fix x assume "x \<in> {xs ! j | j. a \<le> j \<and> j < k \<and> j < length xs}"
  then obtain j where "a \<le> j" "j < k" "j < length xs" "x = xs ! j" by blast
  then have "drop a (take k xs) ! (j - a) = x" "j - a < length (drop a (take k xs))" by auto
  then show "x \<in> set (drop a (take k xs))" by (metis nth_mem)
qed

lemma concat_update:
  assumes "i < length ps" and "f p' = f (ps ! i) @ news"
  shows "mset (concat (map f (ps[i := p']))) = mset (concat (map f ps)) + mset news"
proof -
  have "mset (concat (map f ps)) = mset (concat (map f (take i ps @ ps ! i # drop (Suc i) ps)))"
    using assms(1) by (simp add: id_take_nth_drop [symmetric])
  then show ?thesis using assms by (simp add: upd_conv_take_nth_drop)
qed

lemma same_reports:
  assumes "mset (concat (map f ps')) = mset xs"
  shows "distinct (concat (map f ps')) = distinct xs" and "set (concat (map f ps')) = set xs"
  using assms by (metis distinct_count_atmost_1 set_mset_mset, metis set_mset_mset)

lemma migrating_okI:
  assumes "start \<le> k" "at_version run ms d k w" "\<forall>p\<in>set ps. migrator_ok ms k (has_table w) p"
    "distinct (concat (map applied_by ps))"
    "set (concat (map applied_by ps)) \<subseteq> mg_version ` set (drop start (take k ms))"
  shows "migrating_ok run ms d start (w, ps)"
  unfolding migrating_ok_def prod.case using assms by blast

lemma migrating_okE:
  assumes "migrating_ok run ms d start (w, ps)"
  obtains k where "start \<le> k" "at_version run ms d k w" "\<forall>p\<in>set ps. migrator_ok ms k (has_table w) p"
    "distinct (concat (map applied_by ps))"
    "set (concat (map applied_by ps)) \<subseteq> mg_version ` set (drop start (take k ms))"
  using assms unfolding migrating_ok_def prod.case by blast

lemma migrating_steps_ok:
  assumes "distinct (map mg_version ms)" and "migrating_step run now ms s s'" and "migrating_ok run ms d start s"
  shows "migrating_ok run ms d start s'"
  using assms(2,3)
proof (induction rule: migrating_step.induct)
  case (Steps i ps w p' w')
  from Steps(3) obtain k where k: "start \<le> k" "at_version run ms d k w"
    and all: "\<forall>p\<in>set ps. migrator_ok ms k (has_table w) p" and dist: "distinct (concat (map applied_by ps))"
    and sub: "set (concat (map applied_by ps)) \<subseteq> mg_version ` set (drop start (take k ms))"
    by (rule migrating_okE)
  from all Steps(1) have "migrator_ok ms k (has_table w) (ps ! i)" by simp
  from migrator_step_at [OF assms(1) k(2) this Steps(2)] obtain k' where
      k': "k \<le> k'" "at_version run ms d k' w'" "has_table w \<longrightarrow> has_table w'"
        "migrator_ok ms k' (has_table w') p'" "reported ms k k' (ps ! i) p'"
    by blast
  have len: "k' \<le> length ms" using k'(2) by (simp add: at_version_def)
  have ok: "\<forall>p\<in>set (ps[i := p']). migrator_ok ms k' (has_table w') p"
    using all k'(1,3,4) len migrator_ok_later set_update_subset_insert [of ps i p'] by blast
  have grown: "mg_version ` set (drop start (take k ms)) \<subseteq> mg_version ` set (drop start (take k' ms))"
    using k'(1) by (intro image_mono) (auto simp: set_slice)
  have start: "start \<le> k'" using k(1) k'(1) by simp
  show ?case
  proof (cases "applied_by p' = applied_by (ps ! i)")
    case True
    with concat_update [OF Steps(1), of applied_by p' "[]"]
    have "mset (concat (map applied_by (ps[i := p']))) = mset (concat (map applied_by ps))" by simp
    note same = same_reports [OF this]
    show ?thesis
      by (rule migrating_okI [OF start k'(2) ok]) (use same dist sub grown in simp_all)
  next
    case False
    with k'(5) have later: "k < length ms" "k' = Suc k"
      and said: "applied_by p' = applied_by (ps ! i) @ [mg_version (ms ! k)]"
      by (auto simp: reported_def)
    let ?all = "mg_version (ms ! k) # concat (map applied_by ps)"
    have "mset (concat (map applied_by (ps[i := p']))) = mset ?all"
      using concat_update [where f = applied_by, OF Steps(1) said] by simp
    note same = same_reports [OF this]
    have "mg_version (ms ! k) \<notin> set (map mg_version (take k ms))"
      using already_recorded [OF assms(1) later(1), of k] later(1) by simp
    then have all_new: "distinct ?all" using sub dist by (auto dest: in_set_dropD)
    have "mg_version (ms ! k) \<in> mg_version ` set (drop start (take k' ms))"
      using k(1) later by (auto simp: set_slice intro!: imageI)
    then have within: "set (concat (map applied_by (ps[i := p']))) \<subseteq> mg_version ` set (drop start (take k' ms))"
      unfolding same(2) list.set(2) using sub grown by blast
    show ?thesis by (rule migrating_okI [OF start k'(2) ok iffD2 [OF same(1) all_new] within])
  qed
next
  case (Starts w ps)
  then show ?case by (auto simp: migrating_ok_def)
next
  case (Dies i ps w e)
  let ?p = "Ended (Inl e) (applied_by (ps ! i))"
  have "mset (concat (map applied_by (ps[i := ?p]))) = mset (concat (map applied_by ps))"
    using concat_update [OF Dies(1), of applied_by ?p "[]"] by simp
  note same = same_reports [OF this]
  from Dies(2) obtain k where k: "start \<le> k" "at_version run ms d k w"
    "\<forall>p\<in>set ps. migrator_ok ms k (has_table w) p" "distinct (concat (map applied_by ps))"
    "set (concat (map applied_by ps)) \<subseteq> mg_version ` set (drop start (take k ms))"
    by (rule migrating_okE)
  have "\<forall>p\<in>set (ps[i := ?p]). migrator_ok ms k (has_table w) p"
    using k(3) set_update_subset_insert [of ps i ?p] by auto
  then show ?case by (rule migrating_okI [OF k(1,2)]) (use same k(4,5) in simp_all)
next
  case (Faults w ps faults)
  then show ?case by (simp add: migrating_ok_def)
qed

section \<open>A run that meets no fault\<close>

lemma calm_call [simp]: "mi_faults w = [] \<Longrightarrow> db_call statement w = statement w"
  by (cases w) (simp add: db_call_def Let_def without_fault_def)

lemma calm_versions:
  assumes "at_version run ms d k w" and "has_table w" and "mi_faults w = []"
  shows "recorded_versions w = (Inr (map mg_version (take k ms)), w)"
  using assms row_versions by (auto simp: recorded_versions_def at_version_def has_table_def)

lemma migrated_prefix:
  assumes "migrated run ms d = Inr d'" and "at_version run ms d k w" and "k < length ms"
  obtains e where "run (mg_sql (ms ! k)) (mi_schema w) = Inr e"
proof -
  have "ms = take k ms @ ms ! k # drop (Suc k) ms" using assms(3) by (rule id_take_nth_drop)
  then have "bind_result (migrated run (take k ms) d) (migrated run (ms ! k # drop (Suc k) ms)) = Inr d'"
    using assms(1) by (metis migrated_append)
  then show ?thesis using assms(2) that
    by (cases "run (mg_sql (ms ! k)) (mi_schema w)") (auto simp: at_version_def)
qed

lemma migrate_one_calm:
  assumes "distinct (map mg_version ms)" and "at_version run ms d k w" and "has_table w" and "mi_faults w = []"
    and "k < length ms" and "run (mg_sql (ms ! k)) (mi_schema w) = Inr e" and "integer now = Inr t"
  shows "\<exists>w'. migrate_one run now (ms ! k) w = (Inr True, w') \<and> mi_faults w' = [] \<and> has_table w' \<and>
    at_version run ms d (Suc k) w'"
proof -
  have unseen: "mg_version (ms ! k) \<notin> set (map mg_version (take k ms))"
    using already_recorded [OF assms(1,5), of k] assms(5) by simp
  obtain w1 where w1: "migrate_body run now (ms ! k) w = (Inr True, w1)" "mi_faults w1 = []"
    using assms(4,6,7) calm_versions [OF assms(2,3,4)] unseen
    by (auto simp: migrate_body_def andthen_def execute_batch_def insert_version_def)
  then have one: "migrate_one run now (ms ! k) w = (Inr True, w1)"
    by (simp add: migrate_one_def without_fault_def)
  with migrate_one_at [OF assms(1,2,3) order_refl assms(5)] w1(2) show ?thesis
    by (fastforce simp: moved_on_def)
qed

lemma apply_each_calm:
  assumes "distinct (map mg_version ms)" and "migrated run ms d = Inr d'" and "\<And>v. \<exists>t. integer (now v) = Inr t"
    and "at_version run ms d k w" and "has_table w" and "mi_faults w = []"
  shows "\<exists>w'. apply_each run now (drop k ms) applied w = (Inr (applied @ map mg_version (drop k ms)), w') \<and>
    mi_faults w' = [] \<and> at_version run ms d (length ms) w'"
  using assms(4-6)
proof (induction "length ms - k" arbitrary: k w applied)
  case 0
  then have "k = length ms" by (simp add: at_version_def)
  with 0 show ?case by simp
next
  case (Suc n)
  then have k: "k < length ms" by simp
  obtain e where "run (mg_sql (ms ! k)) (mi_schema w) = Inr e"
    using migrated_prefix [OF assms(2) Suc.prems(1) k] .
  moreover obtain t where "integer (now (mg_version (ms ! k))) = Inr t" using assms(3) by blast
  ultimately obtain w1 where w1: "migrate_one run (now (mg_version (ms ! k))) (ms ! k) w = (Inr True, w1)"
      "mi_faults w1 = []" "has_table w1" "at_version run ms d (Suc k) w1"
    using migrate_one_calm [OF assms(1) Suc.prems k] by blast
  have "n = length ms - Suc k" using Suc.hyps(2) by simp
  from Suc.hyps(1) [OF this w1(4,3,2), of "applied @ [mg_version (ms ! k)]"] w1(1) k show ?case
    by (simp add: Cons_nth_drop_Suc [symmetric])
qed

section \<open>Properties\<close>

lemma MIGRATIONS_length [simp]: "length MIGRATIONS = 11"
  by (simp add: MIGRATIONS_def)

lemma MIGRATIONS_versions: "map mg_version MIGRATIONS = [1, 2, 3, 4, 5, 6, 7, 8, 9, 10, 11]"
  by (simp add: MIGRATIONS_def)

lemma MIGRATIONS_distinct: "distinct (map mg_version MIGRATIONS)"
  unfolding MIGRATIONS_versions by simp

lemma migrating_run_ok:
  assumes "(migrating_step run now ms)\<^sup>*\<^sup>* s s'" and "distinct (map mg_version ms)" and "migrating_ok run ms d start s"
  shows "migrating_ok run ms d start s'"
  using assms by (induction rule: rtranclp_induct) (auto intro: migrating_steps_ok)

text \<open>
  C34: however many processes are started against one database, however their calls interleave, fail,
  take effect with their answer lost, or stop half-way, the database is at one of the eleven
  versions: the migrations from where it began up to that one have been executed once each, in
  order, and recorded. No two processes report the same migration as theirs, and once one ends
  well the database is at the last version.
\<close>

theorem migrations_apply_once:
  assumes "at_version run MIGRATIONS d start w" and "(migrating_step run now MIGRATIONS)\<^sup>*\<^sup>* (w, []) (w', ps)"
  shows "\<exists>k\<ge>start. at_version run MIGRATIONS d k w' \<and> distinct (concat (map applied_by ps)) \<and>
    set (concat (map applied_by ps)) \<subseteq> mg_version ` set (drop start (take k MIGRATIONS)) \<and>
    ((\<exists>r applied. Ended (Inr r) applied \<in> set ps) \<longrightarrow> k = 11)"
proof -
  have "migrating_ok run MIGRATIONS d start (w, [])" using assms(1) by (auto simp: migrating_ok_def)
  from migrating_run_ok [OF assms(2) MIGRATIONS_distinct this] obtain k where
      k: "start \<le> k" "at_version run MIGRATIONS d k w'"
        "\<forall>p\<in>set ps. migrator_ok MIGRATIONS k (has_table w') p" "distinct (concat (map applied_by ps))"
        "set (concat (map applied_by ps)) \<subseteq> mg_version ` set (drop start (take k MIGRATIONS))"
    by (rule migrating_okE)
  moreover have "k = 11" if "Ended (Inr r) applied \<in> set ps" for r applied using that k(3) by fastforce
  ultimately show ?thesis by blast
qed

text \<open>
  a run that meets no fault brings a database at any version to the last one, reporting exactly
  the migrations it was short of, in order; a database that is current is left as it was.
\<close>

theorem migrations_complete:
  assumes "at_version run MIGRATIONS d start w" and "mi_faults w = []"
    and "migrated run MIGRATIONS d = Inr d'" and "\<And>v. unat (now v) < 2 ^ 63"
  shows "\<exists>w'. apply_migrations run now w = (Inr (map mg_version (drop start MIGRATIONS)), w') \<and>
    at_version run MIGRATIONS d 11 w' \<and> mi_schema w' = d' \<and>
    (start = 11 \<longrightarrow> w' = w)"
proof -
  have clock: "\<exists>t. integer (now v) = Inr t" for v using assms(4) by (simp add: integer_def)
  let ?w1 = "w\<lparr>mi_rows := (case mi_rows w of None \<Rightarrow> Some [] | Some rows \<Rightarrow> Some rows)\<rparr>"
  have made: "create_schema_migrations w = (Inr (), ?w1)" using assms(2) by (simp add: create_schema_migrations_def)
  note at1 = create_at(1) [OF assms(1) made] create_at(3) [OF assms(1) made refl]
  have calm1: "mi_faults ?w1 = []" using assms(2) by simp
  note read = calm_versions [OF at1 calm1]
  from apply_each_calm [where now = now, OF MIGRATIONS_distinct assms(3) clock at1 calm1, of "[]"] obtain w' where
      w': "apply_each run now (drop start MIGRATIONS) [] ?w1 = (Inr (map mg_version (drop start MIGRATIONS)), w')"
        "at_version run MIGRATIONS d 11 w'" by auto
  have run: "apply_migrations run now w = (Inr (map mg_version (drop start MIGRATIONS)), w')"
    unfolding apply_migrations_def apply_registered_def andthen_def made
    by (simp only: prod.case sum.case read not_recorded_taken [OF MIGRATIONS_distinct] w'(1))
  have schema: "mi_schema w' = d'" using w'(2) assms(3) by (simp add: at_version_def)
  have "w' = w" if "start = 11"
  proof -
    have "mi_rows w \<noteq> None" using assms(1) that by (auto simp: at_version_def split: option.splits)
    with w'(1) that show ?thesis by auto
  qed
  with run w'(2) schema show ?thesis by blast
qed


text \<open>A schema that lists the files executed on it.\<close>

definition listing_run :: "string list sql_runner" where
  "listing_run sql d = Inr (d @ [sql])"

definition new_database :: "string list migrating" where
  "new_database = \<lparr>mi_schema = [], mi_rows = None, mi_faults = []\<rparr>"

lemma migrated_listing: "migrated listing_run ms d = Inr (d @ map mg_sql ms)"
  by (induction ms arbitrary: d) (simp_all add: listing_run_def)

theorem migrations_complete_witness:
  "fst (apply_migrations listing_run (\<lambda>_. 100) new_database) = Inr [1, 2, 3, 4, 5, 6, 7, 8, 9, 10, 11]"
proof -
  have "at_version listing_run MIGRATIONS [] 0 new_database" by (simp add: at_version_def new_database_def)
  moreover have "mi_faults new_database = []" by (simp add: new_database_def)
  moreover have "unat (100 :: u64) < 2 ^ 63" by simp
  ultimately obtain w' where
      "apply_migrations listing_run (\<lambda>_. 100) new_database = (Inr (map mg_version (drop 0 MIGRATIONS)), w')"
    using migrations_complete [where now = "\<lambda>_. 100", OF _ _ migrated_listing] by blast
  then show ?thesis by (simp add: MIGRATIONS_versions)
qed

theorem migrations_apply_once_witness:
  "\<exists>k w' ps. (migrating_step listing_run (\<lambda>_. 100) MIGRATIONS)\<^sup>*\<^sup>* (new_database, []) (w', ps) \<and>
     length ps = 2 \<and> at_version listing_run MIGRATIONS [] k w'"
proof -
  have at: "at_version listing_run MIGRATIONS [] 0 new_database" by (simp add: at_version_def new_database_def)
  have run: "(migrating_step listing_run (\<lambda>_. 100) MIGRATIONS)\<^sup>*\<^sup>* (new_database, []) (new_database, [Created, Created])"
    using Starts [of listing_run "\<lambda>_. 100" MIGRATIONS new_database "[]"]
      Starts [of listing_run "\<lambda>_. 100" MIGRATIONS new_database "[Created]"] by auto
  from migrations_apply_once [OF at run] obtain k where "at_version listing_run MIGRATIONS [] k new_database" by blast
  with run show ?thesis by (intro exI [of _ k] exI [of _ new_database] exI [of _ "[Created, Created]"]) simp
qed

end
