(* ===== verification/Ui_Calendar.thy ===== *)
theory Ui_Calendar
  imports Ui_Format
begin

text \<open>
  The date arithmetic of \<^verbatim>\<open>ui/format.rs\<close> against the calendar itself: counting days one by one from
  the first of January 1970 by the Gregorian rule gives the date that \<open>civil_from_days\<close> computes.
\<close>

section \<open>The calendar\<close>

definition leap_year :: "nat \<Rightarrow> bool" where
  "leap_year y \<longleftrightarrow> 4 dvd y \<and> (\<not> 100 dvd y \<or> 400 dvd y)"

definition days_in :: "nat \<Rightarrow> nat \<Rightarrow> nat" where
  "days_in y m = (if m = 2 then (if leap_year y then 29 else 28) else if m \<in> {4, 6, 9, 11} then 30 else 31)"

fun next_day :: "nat \<times> nat \<times> nat \<Rightarrow> nat \<times> nat \<times> nat" where
  "next_day (y, m, d) =
     (if d < days_in y m then (y, m, d + 1) else if m < 12 then (y, m + 1, 1) else (y + 1, 1, 1))"

section \<open>Years that begin in March\<close>

text \<open>The year \<open>y\<close> that begins on the first of March ends with the February of the next.\<close>

definition march_days :: "nat \<Rightarrow> nat" where
  "march_days y = (if leap_year (y + 1) then 366 else 365)"

definition march_date :: "nat \<Rightarrow> nat \<Rightarrow> nat \<times> nat \<times> nat" where
  "march_date y r =
     (let k = (5 * r + 2) div 153;
          d = r - (153 * k + 2) div 5 + 1;
          m = (if k < 10 then k + 3 else k - 9)
      in (y + (if m \<le> 2 then 1 else 0), m, d))"

text \<open>The day the \<open>k\<close>-th month of such a year begins on.\<close>

definition month_start :: "nat \<Rightarrow> nat" where
  "month_start k = (153 * k + 2) div 5"

lemma month_slot: "(5 * r + 2) div 153 = k \<longleftrightarrow> month_start k \<le> r \<and> r < month_start (Suc k)"
proof -
  have starts: "month_start j \<le> r \<longleftrightarrow> 153 * j < 5 * r + 3" for j
  proof -
    have "month_start j \<le> r \<longleftrightarrow> (153 * j + 2) div 5 < Suc r" by (simp only: month_start_def less_Suc_eq_le)
    also have "\<dots> \<longleftrightarrow> 153 * j + 2 < Suc r * 5" by (rule div_less_iff_less_mult) simp
    also have "\<dots> \<longleftrightarrow> 153 * j < 5 * r + 3" unfolding mult_Suc by (rule iffI) linarith+
    finally show ?thesis .
  qed
  have lo: "k \<le> (5 * r + 2) div 153 \<longleftrightarrow> k * 153 \<le> 5 * r + 2" by (rule less_eq_div_iff_mult_less_eq) simp
  have hi: "(5 * r + 2) div 153 < Suc k \<longleftrightarrow> 5 * r + 2 < Suc k * 153" by (rule div_less_iff_less_mult) simp
  have "(5 * r + 2) div 153 = k \<longleftrightarrow> k \<le> (5 * r + 2) div 153 \<and> (5 * r + 2) div 153 < Suc k" by linarith
  also have "\<dots> \<longleftrightarrow> 153 * k < 5 * r + 3 \<and> \<not> 153 * Suc k < 5 * r + 3"
    unfolding lo hi mult_Suc mult_Suc_right by (rule iffI) linarith+
  finally show ?thesis unfolding starts [symmetric] not_le .
qed

definition month_name :: "nat \<Rightarrow> nat" where
  "month_name k = (if k < 10 then k + 3 else k - 9)"

lemma march_date_slot:
  assumes "month_start k \<le> r" and "r < month_start (Suc k)"
  shows "march_date y r = (y + (if 10 \<le> k \<and> k < 12 then 1 else 0), month_name k, r - month_start k + 1)"
proof -
  have slot: "(5 * r + 2) div 153 = k" using assms unfolding month_slot by blast
  show ?thesis unfolding march_date_def Let_def slot by (auto simp: month_start_def month_name_def)
qed

lemma month_length:
  assumes "k < 11"
  shows "month_start (Suc k) = month_start k + days_in (y + (if 10 \<le> k \<and> k < 12 then 1 else 0)) (month_name k)"
proof -
  have "k = 0 \<or> k = 1 \<or> k = 2 \<or> k = 3 \<or> k = 4 \<or> k = 5 \<or> k = 6 \<or> k = 7 \<or> k = 8 \<or> k = 9 \<or> k = 10"
    using assms by presburger
  then show ?thesis by (elim disjE) (simp_all add: month_start_def days_in_def month_name_def)
qed

lemma march_step:
  assumes "r + 1 < march_days y"
  shows "next_day (march_date y r) = march_date y (r + 1)"
proof -
  define k where "k = (5 * r + 2) div 153"
  then have slot: "month_start k \<le> r" "r < month_start (Suc k)" using month_slot [of r k] by auto
  have r: "r < 365" using assms by (simp add: march_days_def split: if_splits)
  then have "k < 12" unfolding k_def by auto
  let ?y = "y + (if 10 \<le> k \<and> k < 12 then 1 else 0)"
  show ?thesis
  proof (cases "k = 11")
    case True
    have ends: "month_start 11 = 337" "month_start 12 = 367" by (simp_all add: month_start_def)
    have "march_date y (r + 1) = (y + 1, 2, r + 1 - 337 + 1)"
      using march_date_slot [of 11 "r + 1" y] slot r True ends by (simp add: month_name_def)
    moreover have "march_date y r = (y + 1, 2, r - 337 + 1)"
      using march_date_slot [OF slot, of y] True ends by (simp add: month_name_def)
    ultimately show ?thesis using assms slot True ends
      by (auto simp: days_in_def march_days_def split: if_splits)
  next
    case False
    with \<open>k < 12\<close> have k: "k < 11" by simp
    note len = month_length [OF k, of y]
    show ?thesis
    proof (cases "r + 1 < month_start (Suc k)")
      case True
      with slot len show ?thesis
        by (simp add: march_date_slot [OF slot] march_date_slot [of k "Suc r"] Suc_diff_le)
    next
      case False
      with slot have at: "r + 1 = month_start (Suc k)" by simp
      have later: "month_start (Suc k) < month_start (Suc (Suc k))" by (simp add: month_start_def)
      have first: "march_date y (r + 1) =
          (y + (if 10 \<le> Suc k \<and> Suc k < 12 then 1 else 0), month_name (Suc k), 1)"
        using march_date_slot [of "Suc k" "r + 1" y] at later by simp
      have "next_day (march_date y r) =
          (if month_name k < 12 then (?y, month_name k + 1, 1) else (?y + 1, 1, 1))"
        using slot len at by (simp add: march_date_slot [OF slot])
      also have "\<dots> = (y + (if 10 \<le> Suc k \<and> Suc k < 12 then 1 else 0), month_name (Suc k), 1)"
        using k by (auto simp: month_name_def)
      finally show ?thesis using first by simp
    qed
  qed
qed

lemma march_turn:
  assumes "r + 1 = march_days y"
  shows "next_day (march_date y r) = march_date (y + 1) 0"
proof -
  have ends: "month_start 11 = 337" "month_start 12 = 367" "month_start 0 = 0" "month_start 1 = 31"
    by (simp_all add: month_start_def)
  have "march_date y r = (y + 1, 2, r - 337 + 1)"
    using march_date_slot [of 11 r y] assms ends by (auto simp: month_name_def march_days_def split: if_splits)
  moreover have "march_date (y + 1) 0 = (y + 1, 3, 1)"
    using march_date_slot [of 0 0 "y + 1"] ends by (simp add: month_name_def)
  ultimately show ?thesis using assms by (auto simp: days_in_def march_days_def split: if_splits)
qed

section \<open>Eras of four hundred years\<close>

lemma leap_year_period: "leap_year (y + 400 * e) = leap_year y"
proof -
  have "(4::nat) dvd 400 * e" "(100::nat) dvd 400 * e" "(400::nat) dvd 400 * e" by (simp_all add: dvd_mult2)
  then show ?thesis unfolding leap_year_def by (simp only: dvd_add_left_iff)
qed

lemma march_days_period: "march_days (q + 400 * e) = march_days q"
  using leap_year_period [of "q + 1" e] by (simp add: march_days_def add.commute add.left_commute)

text \<open>The days of an era before its year \<open>q\<close>.\<close>

definition days_before :: "nat \<Rightarrow> nat" where
  "days_before q = 365 * q + q div 4 - q div 100"

lemma days_before_le: "q \<le> k \<Longrightarrow> days_before q \<le> 365 * k + k div 4"
  using div_le_mono [of q k 4] unfolding days_before_def by linarith

lemma days_before_next:
  assumes "q < 399"
  shows "days_before (q + 1) = days_before q + march_days q"
proof -
  have four: "(q + 1) div 4 = q div 4 + (if 4 dvd q + 1 then 1 else 0)"
    by (simp add: div_Suc dvd_eq_mod_eq_0)
  have hundred: "(q + 1) div 100 = q div 100 + (if 100 dvd q + 1 then 1 else 0)"
    by (simp add: div_Suc dvd_eq_mod_eq_0)
  have "\<not> 400 dvd q + 1" using assms dvd_imp_le [of 400 "q + 1"] by auto
  moreover have "100 dvd q + 1 \<longrightarrow> 4 dvd q + 1" using dvd_trans [of 4 100 "q + 1"] by simp
  moreover have "q div 100 \<le> q" "q div 4 \<le> q" by simp_all
  ultimately show ?thesis
    unfolding days_before_def four hundred march_days_def leap_year_def
    by (cases "4 dvd q + 1"; cases "100 dvd q + 1") simp_all
qed

lemma era_ends: "days_before 399 + march_days 399 = 146097"
  by (simp add: days_before_def march_days_def leap_year_def)

text \<open>Every day of an era is a day of one of its years.\<close>

lemma era_day:
  "n < 146097 \<Longrightarrow> \<exists>q r. q < 400 \<and> r < march_days q \<and> n = days_before q + r"
proof (induction n)
  case 0
  show ?case by (intro exI [of _ 0]) (simp add: days_before_def march_days_def)
next
  case (Suc n)
  then obtain q r where qr: "q < 400" "r < march_days q" "n = days_before q + r" by auto
  show ?case
  proof (cases "r + 1 < march_days q")
    case True
    with qr show ?thesis by (intro exI [of _ q] exI [of _ "r + 1"]) simp
  next
    case False
    with qr have turn: "Suc n = days_before q + march_days q" by simp
    have "q \<noteq> 399" using turn era_ends Suc.prems by auto
    with qr(1) have "q < 399" by simp
    with turn days_before_next [OF this] show ?thesis
      by (intro exI [of _ "q + 1"] exI [of _ 0]) (simp add: march_days_def)
  qed
qed

text \<open>The year of an era is read off the day by one division, corrected by the leap days before.\<close>

lemma year_of_era_day:
  assumes "q < 400" and "r < march_days q"
  defines "n \<equiv> days_before q + r"
  shows "(n - n div 1460 + n div 36524 - n div 146096) div 365 = q"
proof -
  define c s where "c = q div 100" and "s = q mod 100"
  define a b where "a = s div 4" and "b = s mod 4"
  have q: "q = 100 * c + s" and s: "s = 4 * a + b" by (simp_all add: c_def s_def a_def b_def)
  have bounds: "c \<le> 3" "a \<le> 24" "b \<le> 3" "s < 100" using assms(1) by (auto simp: c_def s_def a_def b_def)
  have four: "4 dvd q + 1 \<Longrightarrow> b = 3"
  proof -
    assume "4 dvd q + 1"
    then have "(4 * (25 * c + a) + (b + 1)) mod 4 = 0" unfolding q s by (simp add: dvd_eq_mod_eq_0 algebra_simps)
    then have "(b + 1) mod 4 = 0" by (simp only: mod_mult_self4)
    then show "b = 3" using bounds(3) by (cases "b = 3") simp_all
  qed
  have hundred: "100 dvd q + 1" if "s = 99" unfolding q that by (simp add: algebra_simps)
  have four_hundred: "400 dvd q + 1 \<Longrightarrow> c = 3"
    using bounds assms(1) dvd_imp_le [of 400 "q + 1"] q by auto
  have r: "r \<le> 365" "r = 365 \<Longrightarrow> b = 3 \<and> (s \<noteq> 99 \<or> c = 3)"
    using assms(2) four hundred four_hundred unfolding march_days_def leap_year_def by (auto split: if_splits)
  have quarter: "q div 4 = 25 * c + a"
    using bounds unfolding q s by simp
  define t where "t = 24 * c + a + 365 * b + r"
  have n: "n = 36524 * c + 1461 * a + 365 * b + r"
    unfolding n_def days_before_def quarter c_def [symmetric] using bounds by (simp add: q s)
  have n1460: "n = (25 * c + a) * 1460 + t" by (simp add: n t_def)
  define \<delta> :: nat where "\<delta> = (if 1460 \<le> t then 1 else 0)"
  have "t < 2920" using bounds r(1) by (simp add: t_def)
  then have "t div 1460 = \<delta>" by (auto simp: \<delta>_def div_nat_eqI)
  then have d1: "n div 1460 = 25 * c + a + \<delta>" unfolding n1460 by simp
  define w where "w = 1461 * a + 365 * b + r"
  define \<epsilon> :: nat where "\<epsilon> = (if w = 36524 then 1 else 0)"
  have nw: "n = 36524 * c + w" by (simp add: n w_def)
  have w: "w \<le> 36524" using bounds r(1) by (simp add: w_def)
  have "c = 3" if "w = 36524"
  proof -
    have "r = 365" "a = 24" using that bounds(2,3) r(1) unfolding w_def by linarith+
    with r(2) s show ?thesis by simp
  qed
  then have era: "n div 36524 = c + \<epsilon>" "n div 146096 = \<epsilon>"
    unfolding nw using w bounds(1) by (auto simp: \<epsilon>_def div_nat_eqI)
  have small: "\<delta> \<le> r" "r - \<delta> < 365"
  proof -
    show "\<delta> \<le> r" using bounds unfolding \<delta>_def t_def by auto
    show "r - \<delta> < 365"
    proof (cases "r = 365")
      case True
      with r(2) have "\<delta> = 1" by (simp add: \<delta>_def t_def)
      with True show ?thesis by simp
    next
      case False
      with r(1) show ?thesis by linarith
    qed
  qed
  have "n - n div 1460 + n div 36524 - n div 146096 = q * 365 + (r - \<delta>)"
    unfolding d1 era using small(1) by (simp add: n q s)
  then show ?thesis using small(2) by simp
qed

section \<open>The date of a day\<close>

text \<open>The code's computation over the natural numbers, and the date of the day it stands for.\<close>

definition civil_nat :: "nat \<Rightarrow> nat \<times> nat \<times> nat" where
  "civil_nat shifted =
     (let n = shifted mod 146097;
          q = (n - n div 1460 + n div 36524 - n div 146096) div 365
      in march_date (q + shifted div 146097 * 400) (n - days_before q))"

lemma civil_nat_day:
  assumes "q < 400" and "r < march_days q" and "n = days_before q + r" and "n < 146097"
  shows "civil_nat (146097 * e + n) = march_date (q + 400 * e) r"
  using year_of_era_day [OF assms(1,2)] assms(3,4) by (simp add: civil_nat_def Let_def mult.commute)

lemma civil_nat_next: "civil_nat (Suc shifted) = next_day (civil_nat shifted)"
proof -
  define e n where "e = shifted div 146097" and "n = shifted mod 146097"
  have shifted: "shifted = 146097 * e + n" and n: "n < 146097" by (simp_all add: e_def n_def)
  from era_day [OF n] obtain q r where qr: "q < 400" "r < march_days q" "n = days_before q + r" by blast
  have now: "civil_nat shifted = march_date (q + 400 * e) r"
    unfolding shifted by (rule civil_nat_day [OF qr n])
  consider "r + 1 < march_days q" | "r + 1 = march_days q" "q < 399" | "r + 1 = march_days q" "q = 399"
    using qr by linarith
  then show ?thesis
  proof cases
    case 1
    have "days_before q + (r + 1) < 146097"
    proof (cases "q = 399")
      case True
      from 1 era_ends show ?thesis unfolding True by linarith
    next
      case False
      with qr(1) have "q \<le> 398" by simp
      then have "days_before q \<le> 365 * 398 + 398 div 4" by (rule days_before_le)
      moreover have "march_days q \<le> 366" by (simp add: march_days_def)
      ultimately show ?thesis using 1 by simp
    qed
    from civil_nat_day [OF qr(1) 1 refl this] have "civil_nat (Suc shifted) = march_date (q + 400 * e) (r + 1)"
      by (simp add: shifted qr(3))
    with now march_step [of r "q + 400 * e"] 1 march_days_period [of q e] show ?thesis by simp
  next
    case 2
    then have next_year: "n + 1 = days_before (q + 1) + 0" using days_before_next [OF 2(2)] qr(3) by simp
    have "n + 1 < 146097"
    proof (rule ccontr)
      assume "\<not> n + 1 < 146097"
      with n have "n + 1 = 146097" by simp
      moreover have "days_before (q + 1) \<le> 365 * 399 + 399 div 4" using 2(2) by (intro days_before_le) simp
      ultimately show False using next_year by simp
    qed
    moreover have "0 < march_days (q + 1)" by (simp add: march_days_def)
    ultimately have "civil_nat (146097 * e + (n + 1)) = march_date (q + 1 + 400 * e) 0"
      using civil_nat_day [of "q + 1" 0 "n + 1" e] next_year 2(2) by simp
    with now march_turn [of r "q + 400 * e"] 2(1) march_days_period [of q e] show ?thesis
      by (simp add: shifted)
  next
    case 3
    then have "n + 1 = 146097" using era_ends qr(3) by simp
    then have later: "Suc shifted = 146097 * (e + 1) + 0" using shifted by simp
    have "civil_nat (Suc shifted) = march_date (0 + 400 * (e + 1)) 0"
      unfolding later by (rule civil_nat_day) (simp_all add: march_days_def days_before_def)
    with now march_turn [of r "q + 400 * e"] 3 march_days_period [of q e] show ?thesis by simp
  qed
qed

lemma civil_nat_epoch: "civil_nat 719468 = (1970, 1, 1)"
  by (simp add: civil_nat_def march_date_def days_before_def)

lemma civil_nat_calendar: "civil_nat (719468 + n) = (next_day ^^ n) (1970, 1, 1)"
proof (induction n)
  case 0
  then show ?case by (simp add: civil_nat_epoch)
next
  case (Suc n)
  then show ?case using civil_nat_next [of "719468 + n"] by (simp only: add_Suc_right funpow.simps comp_apply)
qed

section \<open>The code's words\<close>

lemma u64_add: "unat a + unat b < 2 ^ 64 \<Longrightarrow> unat (a + b :: u64) = unat a + unat b"
  by (simp add: unat_word_ariths)

lemma u64_mult: "unat a * unat b < 2 ^ 64 \<Longrightarrow> unat (a * b :: u64) = unat a * unat b"
  by (simp add: unat_word_ariths)

lemma u64_sub: "unat b \<le> unat a \<Longrightarrow> unat (a - b :: u64) = unat a - unat b"
  by (simp add: unat_sub word_le_nat_alt)

text \<open>No sum, product or difference of the code wraps, for any day a timestamp can name.\<close>

lemma civil_from_days_nat:
  assumes "unat days < 2 ^ 62"
  shows "(case civil_from_days days of (y, m, d) \<Rightarrow> (unat y, unat m, unat d)) = civil_nat (719468 + unat days)"
proof -
  define shifted doe era where "shifted = days + 719468" and "doe = shifted mod 146097" and "era = shifted div 146097"
  define N n e where "N = unat days + 719468" and "n = N mod 146097" and "e = N div 146097"
  have "unat shifted = N" using assms unfolding shifted_def N_def by (subst u64_add) simp_all
  then have n: "unat doe = n" and e: "unat era = e"
    by (simp_all add: doe_def era_def n_def e_def unat_mod_distrib unat_div_distrib)
  have small: "n < 146097" by (simp add: n_def)
  have "e * 146097 \<le> N" by (simp add: e_def)
  then have era_small: "e * 400 < 2 ^ 63" using assms by (simp add: N_def)
  from era_day [OF small] obtain q r where qr: "q < 400" "r < march_days q" "n = days_before q + r" by blast
  have r: "r < 366" using qr(2) by (simp add: march_days_def split: if_splits)
  define k where "k = (5 * r + 2) div 153"
  have k: "k < 12" "(153 * k + 2) div 5 \<le> r"
    using r month_slot [of r k] by (simp_all add: k_def month_start_def)
  have lower: "n div 1460 \<le> n" "n div 146096 \<le> n - n div 1460 + n div 36524"
    using div_le_mono2 [of 36524 146096 n] by simp_all
  define yoe where "yoe = (doe - doe div 1460 + doe div 36524 - doe div 146096) div 365"
  have "unat (doe - doe div 1460) = n - n div 1460"
    using lower(1) by (subst u64_sub) (simp_all add: n unat_div_distrib)
  then have "unat (doe - doe div 1460 + doe div 36524) = n - n div 1460 + n div 36524"
    using small by (subst u64_add) (simp_all add: n unat_div_distrib)
  then have "unat (doe - doe div 1460 + doe div 36524 - doe div 146096) =
      n - n div 1460 + n div 36524 - n div 146096"
    using lower(2) by (subst u64_sub) (simp_all add: n unat_div_distrib)
  then have yoe: "unat yoe = q"
    using year_of_era_day [OF qr(1,2)] qr(3) by (simp add: yoe_def unat_div_distrib)
  have "unat (365 * yoe + yoe div 4) = 365 * q + q div 4"
    using qr(1) by (simp add: u64_add u64_mult yoe unat_div_distrib)
  then have before: "unat (365 * yoe + yoe div 4 - yoe div 100) = days_before q"
    by (subst u64_sub) (simp_all add: yoe unat_div_distrib days_before_def)
  define doy where "doy = doe - (365 * yoe + yoe div 4 - yoe div 100)"
  have doy: "unat doy = r" unfolding doy_def using before qr(3) by (subst u64_sub) (simp_all add: n)
  define mp where "mp = (5 * doy + 2) div 153"
  have mp: "unat mp = k"
    using r by (simp add: mp_def unat_div_distrib u64_add u64_mult doy k_def)
  have "unat ((153 * mp + 2) div 5) = (153 * k + 2) div 5"
    using k(1) by (simp add: unat_div_distrib u64_add u64_mult mp)
  then have "unat (doy - (153 * mp + 2) div 5) = r - (153 * k + 2) div 5"
    using k(2) by (subst u64_sub) (simp_all add: doy)
  then have day: "unat (doy - (153 * mp + 2) div 5 + 1) = r - (153 * k + 2) div 5 + 1"
    using r by (subst u64_add) simp_all
  define month where "month = (if mp < 10 then mp + 3 else mp - 9)"
  have month: "unat month = (if k < 10 then k + 3 else k - 9)"
    using k(1) by (simp add: month_def word_less_nat_alt mp u64_add u64_sub)
  have months: "month \<le> 2 \<longleftrightarrow> (if k < 10 then k + 3 else k - 9) \<le> 2"
    unfolding month [symmetric] by (simp add: word_le_nat_alt)
  have "unat (yoe + era * 400) = q + e * 400"
    using qr(1) era_small by (simp add: u64_add u64_mult yoe e)
  then have year: "unat (yoe + era * 400 + (if month \<le> 2 then 1 else 0)) =
      q + e * 400 + (if (if k < 10 then k + 3 else k - 9) \<le> 2 then 1 else 0)"
    using qr(1) era_small months by (auto simp: u64_add)
  have code: "civil_from_days days =
      (yoe + era * 400 + (if month \<le> 2 then 1 else 0), month, doy - (153 * mp + 2) div 5 + 1)"
    by (simp add: civil_from_days_def Let_def shifted_def doe_def era_def yoe_def doy_def mp_def month_def)
  have "civil_nat N = march_date (q + e * 400) r"
    using civil_nat_day [OF qr small, of e] by (simp add: n_def e_def mult.commute)
  also have "\<dots> = (q + e * 400 + (if (if k < 10 then k + 3 else k - 9) \<le> 2 then 1 else 0),
      (if k < 10 then k + 3 else k - 9), r - (153 * k + 2) div 5 + 1)"
    by (simp add: march_date_def Let_def k_def)
  finally show ?thesis unfolding code prod.case year month day by (simp add: N_def add.commute)
qed

lemma u64_of_nat: "unat a = n \<Longrightarrow> (a :: u64) = of_nat n"
  by auto

lemma timestamp_days: "unat (t div 86400 :: u64) < 2 ^ 62"
proof -
  have "unat t < 2 ^ 64" using unsigned_less [of t] by simp
  then have "unat t div 86400 < 2 ^ 62" by (simp add: div_less_iff_less_mult)
  then show ?thesis by (simp add: unat_div_distrib)
qed

text \<open>
  C37: for every timestamp there is, the text is the Gregorian date reached by counting its whole
  days one by one from the first of January 1970, with the time of day that is left.
\<close>

theorem utc_timestamp_counts_the_days:
  "case (next_day ^^ (unat t div 86400)) (1970, 1, 1) of (y, m, d) \<Rightarrow>
     utc_timestamp t =
       zero_padded 4 (of_nat y) @ ''-'' @ zero_padded 2 (of_nat m) @ ''-'' @ zero_padded 2 (of_nat d) @ ''T'' @
       zero_padded 2 (of_nat (unat t mod 86400 div 3600)) @ '':'' @
       zero_padded 2 (of_nat (unat t mod 3600 div 60)) @ '':'' @ zero_padded 2 (of_nat (unat t mod 60)) @ ''Z''"
proof -
  let ?s = "t mod 86400"
  have s: "unat ?s = unat t mod 86400" by (simp add: unat_mod_distrib)
  have "unat (?s div 3600) = unat t mod 86400 div 3600" by (simp add: unat_div_distrib s)
  then have hours: "?s div 3600 = of_nat (unat t mod 86400 div 3600)" by (rule u64_of_nat)
  have "unat (?s mod 3600 div 60) = unat t mod 3600 div 60"
    by (simp add: unat_div_distrib unat_mod_distrib mod_mod_cancel)
  then have minutes: "?s mod 3600 div 60 = of_nat (unat t mod 3600 div 60)" by (rule u64_of_nat)
  have "unat (?s mod 60) = unat t mod 60" by (simp add: unat_mod_distrib mod_mod_cancel)
  then have seconds: "?s mod 60 = of_nat (unat t mod 60)" by (rule u64_of_nat)
  obtain y m d where date: "civil_from_days (t div 86400) = (y, m, d)" by (metis prod_cases3)
  have "(unat y, unat m, unat d) = (next_day ^^ (unat t div 86400)) (1970, 1, 1)"
    using civil_from_days_nat [OF timestamp_days, of t] date
    by (simp add: civil_nat_calendar unat_div_distrib del: next_day.simps)
  then have counted: "(next_day ^^ (unat t div 86400)) (1970, 1, 1) = (unat y, unat m, unat d)" by simp
  show ?thesis unfolding counted utc_timestamp_def Let_def date prod.case hours minutes seconds by simp
qed

end
