(* ===== verification/Ui_Repo_Tree.thy ===== *)
theory Ui_Repo_Tree
  imports Ui_State Ui_Format
begin

text \<open>
  The sidebar's repository tree (\<^verbatim>\<open>apps/web/src/ui/repo_tree.rs\<close>): the repositories of the facet
  grouped by owner, searched, with a checkbox for each owner. What the checkbox does is
  \<open>select_repos\<close> over the scope of its group. Lower-casing a search beyond ASCII is a parameter.
\<close>

section \<open>The tree\<close>

record repo_item =
  ri_repository_id :: u64
  ri_full_name :: string
  ri_name :: string
  ri_count :: u64
  ri_selected :: bool

record owner_group =
  og_owner :: string
  og_repositories :: "repo_item list"
  og_scope :: "string list"
  og_selected :: nat
  og_hidden_selected :: nat

definition new_owner_group :: "string \<Rightarrow> owner_group" where
  "new_owner_group owner =
     \<lparr>og_owner = owner, og_repositories = [], og_scope = [], og_selected = 0, og_hidden_selected = 0\<rparr>"

definition group_checkbox :: "owner_group \<Rightarrow> checkbox" where
  "group_checkbox g = checkbox_of (og_selected g) (length (og_scope g))"

definition group_meta :: "owner_group \<Rightarrow> string" where
  "group_meta g =
     (let total = sum_list (map ri_count (og_repositories g));
          shown = length (og_repositories g);
          dot = map char_of [32, 194, 183, 32 :: nat];
          meta =
            (if 0 < og_selected g
             then show_nat (og_selected g) @ ''/'' @ show_nat (length (og_scope g)) @ dot @ show_u64 total
             else show_nat shown @ '' '' @ (if shown = 1 then ''repo'' else ''repos'') @ dot @ show_u64 total)
      in if 0 < og_hidden_selected g
         then meta @ '' +'' @ show_nat (og_hidden_selected g) @ '' hidden'' else meta)"

definition facet_name :: "repo_facet \<Rightarrow> string" where
  "facet_name facet = rr_owner (rf_repository facet) @ ''/'' @ rr_repo (rf_repository facet)"

text \<open>What a facet is under the search and the selection: shown or not, in its owner's scope or not.\<close>

record tree_view =
  tv_query :: string
  tv_lower :: "string \<Rightarrow> string"
  tv_selected :: "string list"

definition tree_query :: "tree_view \<Rightarrow> string" where
  "tree_query v = tv_lower v (trim (tv_query v))"

definition facet_shown :: "tree_view \<Rightarrow> repo_facet \<Rightarrow> bool" where
  "facet_shown v facet \<longleftrightarrow>
     (tree_query v = [] \<or> str_contains (tv_lower v (facet_name facet)) (tree_query v)) \<and>
     (0 < rf_count facet \<or> facet_name facet \<in> set (tv_selected v))"

definition facet_in_scope :: "tree_view \<Rightarrow> repo_facet \<Rightarrow> bool" where
  "facet_in_scope v facet \<longleftrightarrow> (if tree_query v \<noteq> [] then facet_shown v facet else True)"

definition facet_item :: "tree_view \<Rightarrow> repo_facet \<Rightarrow> repo_item" where
  "facet_item v facet =
     \<lparr>ri_repository_id = rr_repository_id (rf_repository facet), ri_full_name = facet_name facet,
      ri_name = rr_repo (rf_repository facet), ri_count = rf_count facet,
      ri_selected = (facet_name facet \<in> set (tv_selected v))\<rparr>"

text \<open>A facet taken into its owner's group.\<close>

definition take_facet :: "tree_view \<Rightarrow> repo_facet \<Rightarrow> owner_group \<Rightarrow> owner_group" where
  "take_facet v facet g =
     (let is_selected = (facet_name facet \<in> set (tv_selected v));
          g1 = (if facet_in_scope v facet
                then g\<lparr>og_scope := og_scope g @ [facet_name facet],
                       og_selected := og_selected g + (if is_selected then 1 else 0)\<rparr>
                else if is_selected then g\<lparr>og_hidden_selected := og_hidden_selected g + 1\<rparr>
                else g)
      in if facet_shown v facet
         then g1\<lparr>og_repositories := og_repositories g1 @ [facet_item v facet]\<rparr> else g1)"

text \<open>The first group of the facet's owner takes it, a new one at the end when there is none.\<close>

fun place_facet :: "tree_view \<Rightarrow> repo_facet \<Rightarrow> owner_group list \<Rightarrow> owner_group list" where
  "place_facet v facet [] = [take_facet v facet (new_owner_group (rr_owner (rf_repository facet)))]"
| "place_facet v facet (g # groups) =
     (if eq_ignore_ascii_case (og_owner g) (rr_owner (rf_repository facet))
      then take_facet v facet g # groups else g # place_facet v facet groups)"

definition owner_groups :: "tree_view \<Rightarrow> repo_facet list \<Rightarrow> owner_group list" where
  "owner_groups v facets =
     filter (\<lambda>g. og_repositories g \<noteq> []) (fold (place_facet v) facets [])"

text \<open>What a click on an owner's checkbox does to the filter.\<close>

definition click_owner :: "owner_group \<Rightarrow> dashboard \<Rightarrow> dashboard" where
  "click_owner g = select_repos (og_scope g) (group_checkbox g \<noteq> Checked)"

text \<open>An owner's repositories are folded away, but not under a search.\<close>

definition owner_open :: "tree_view \<Rightarrow> string set \<Rightarrow> owner_group \<Rightarrow> bool" where
  "owner_open v collapsed g \<longleftrightarrow> trim (tv_query v) \<noteq> [] \<or> og_owner g \<notin> collapsed"

definition fold_owner :: "owner_group \<Rightarrow> string set \<Rightarrow> string set" where
  "fold_owner g collapsed =
     (if og_owner g \<in> collapsed then collapsed - {og_owner g} else insert (og_owner g) collapsed)"

section \<open>The groups, owner by owner\<close>

text \<open>What the tree says of one owner, read off the facets of that owner alone.\<close>

definition facet_owner :: "repo_facet \<Rightarrow> string" where
  "facet_owner facet = to_ascii_lowercase (rr_owner (rf_repository facet))"

definition group_of :: "tree_view \<Rightarrow> string \<Rightarrow> repo_facet list \<Rightarrow> owner_group" where
  "group_of v owner facets =
     (let inside = map facet_name (filter (facet_in_scope v) facets);
          outside = map facet_name (filter (\<lambda>f. \<not> facet_in_scope v f) facets)
      in \<lparr>og_owner = owner, og_repositories = map (facet_item v) (filter (facet_shown v) facets),
          og_scope = inside,
          og_selected = length (filter (\<lambda>n. n \<in> set (tv_selected v)) inside),
          og_hidden_selected = length (filter (\<lambda>n. n \<in> set (tv_selected v)) outside)\<rparr>)"

definition named_owners :: "repo_facet list \<Rightarrow> string list" where
  "named_owners facets = map (\<lambda>f. rr_owner (rf_repository f)) facets"

text \<open>The first spelling of each owner, in order.\<close>

fun first_spellings :: "string list \<Rightarrow> string list" where
  "first_spellings [] = []"
| "first_spellings (s # rest) =
     s # filter (\<lambda>r. \<not> eq_ignore_ascii_case s r) (first_spellings rest)"

definition facets_of :: "string \<Rightarrow> repo_facet list \<Rightarrow> repo_facet list" where
  "facets_of owner facets = filter (\<lambda>f. eq_ignore_ascii_case owner (rr_owner (rf_repository f))) facets"

lemma take_facet_group: "take_facet v f (group_of v owner fs) = group_of v owner (fs @ [f])"
  by (simp add: take_facet_def group_of_def Let_def)

lemma take_new: "take_facet v f (new_owner_group owner) = group_of v owner [f]"
proof -
  have "new_owner_group owner = group_of v owner []" by (simp add: new_owner_group_def group_of_def)
  then show ?thesis by (simp only: take_facet_group append_Nil)
qed

lemma same_owner_trans: "eq_ignore_ascii_case a b \<Longrightarrow> eq_ignore_ascii_case a c = eq_ignore_ascii_case b c"
  by (simp add: eq_ignore_ascii_case_def)

lemma same_owner_sym: "eq_ignore_ascii_case a b = eq_ignore_ascii_case b a"
  by (auto simp: eq_ignore_ascii_case_def)

lemma first_spellings_new:
  "first_spellings (xs @ [s]) =
     (if \<exists>r\<in>set (first_spellings xs). eq_ignore_ascii_case r s then first_spellings xs
      else first_spellings xs @ [s])"
proof (induction xs)
  case Nil
  show ?case by simp
next
  case (Cons a xs)
  have hidden: "(\<exists>r\<in>set (first_spellings (a # xs)). eq_ignore_ascii_case r s) \<longleftrightarrow>
      eq_ignore_ascii_case a s \<or> (\<exists>r\<in>set (first_spellings xs). eq_ignore_ascii_case r s)"
    by (auto simp: eq_ignore_ascii_case_def)
  show ?case unfolding hidden using Cons.IH by (auto simp: eq_ignore_ascii_case_def)
qed

lemma first_spellings_cover: "x \<in> set xs \<Longrightarrow> \<exists>r\<in>set (first_spellings xs). eq_ignore_ascii_case r x"
proof (induction xs)
  case Nil
  then show ?case by simp
next
  case (Cons a xs)
  show ?case
  proof (cases "eq_ignore_ascii_case a x")
    case True
    then show ?thesis by simp
  next
    case False
    then have "x \<in> set xs" using Cons.prems by (auto simp: eq_ignore_ascii_case_def)
    with Cons.IH obtain r where r: "r \<in> set (first_spellings xs)" "eq_ignore_ascii_case r x" by blast
    with False have "\<not> eq_ignore_ascii_case a r" using same_owner_trans by blast
    with r show ?thesis by auto
  qed
qed

lemma first_spellings_apart: "sorted_wrt (\<lambda>a b. \<not> eq_ignore_ascii_case a b) (first_spellings xs)"
  by (induction xs) (auto simp: sorted_wrt_filter)

lemma place_unknown:
  "\<forall>o'\<in>set os. \<not> eq_ignore_ascii_case o' (rr_owner (rf_repository f)) \<Longrightarrow>
     place_facet v f (map (\<lambda>o'. group_of v o' (F o')) os) =
     map (\<lambda>o'. group_of v o' (F o')) os @ [group_of v (rr_owner (rf_repository f)) [f]]"
  by (induction os) (simp_all add: take_new, simp add: group_of_def)

lemma place_known:
  assumes "sorted_wrt (\<lambda>a b. \<not> eq_ignore_ascii_case a b) os"
    and "\<exists>o'\<in>set os. eq_ignore_ascii_case o' (rr_owner (rf_repository f))"
  shows "place_facet v f (map (\<lambda>o'. group_of v o' (F o')) os) =
    map (\<lambda>o'. group_of v o' (F o' @ (if eq_ignore_ascii_case o' (rr_owner (rf_repository f)) then [f] else []))) os"
  using assms
proof (induction os)
  case Nil
  then show ?case by simp
next
  case (Cons a os)
  show ?case
  proof (cases "eq_ignore_ascii_case a (rr_owner (rf_repository f))")
    case True
    with Cons.prems(1) have "\<forall>o'\<in>set os. \<not> eq_ignore_ascii_case o' (rr_owner (rf_repository f))"
      by (auto simp: eq_ignore_ascii_case_def)
    with True show ?thesis by (simp add: take_facet_group) (simp add: group_of_def)
  next
    case False
    with Cons show ?thesis by (simp add: group_of_def)
  qed
qed

lemma placed_groups:
  "fold (place_facet v) facets [] =
     map (\<lambda>o'. group_of v o' (facets_of o' facets)) (first_spellings (named_owners facets))"
proof (induction facets rule: rev_induct)
  case Nil
  show ?case by (simp add: named_owners_def)
next
  case (snoc f facets)
  let ?s = "rr_owner (rf_repository f)" and ?os = "first_spellings (named_owners facets)"
  have grown: "facets_of o' (facets @ [f]) = facets_of o' facets @ (if eq_ignore_ascii_case o' ?s then [f] else [])"
    for o' by (simp add: facets_of_def)
  have names: "named_owners (facets @ [f]) = named_owners facets @ [?s]" by (simp add: named_owners_def)
  show ?case
  proof (cases "\<exists>r\<in>set ?os. eq_ignore_ascii_case r ?s")
    case True
    then show ?thesis
      unfolding names first_spellings_new grown
      using snoc place_known [OF first_spellings_apart True, of v "\<lambda>o'. facets_of o' facets"] by simp
  next
    case False
    then have apart: "\<forall>o'\<in>set ?os. \<not> eq_ignore_ascii_case o' ?s" by blast
    have "facets_of ?s facets = []"
    proof (rule ccontr)
      assume "facets_of ?s facets \<noteq> []"
      then obtain g where g: "g \<in> set facets" "eq_ignore_ascii_case ?s (rr_owner (rf_repository g))"
        by (auto simp: facets_of_def filter_empty_conv)
      then have "rr_owner (rf_repository g) \<in> set (named_owners facets)" by (simp add: named_owners_def)
      from first_spellings_cover [OF this] g(2) False show False
        using same_owner_sym same_owner_trans by blast
    qed
    moreover have "map (\<lambda>o'. group_of v o' (facets_of o' facets @ (if eq_ignore_ascii_case o' ?s then [f] else []))) ?os =
        map (\<lambda>o'. group_of v o' (facets_of o' facets)) ?os"
      using apart by simp
    ultimately show ?thesis
      unfolding names first_spellings_new grown
      using False snoc place_unknown [OF apart, of v "\<lambda>o'. facets_of o' facets"]
      by (simp add: eq_ignore_ascii_case_def)
  qed
qed

text \<open>The tree is the first spelling of each owner with what its own repositories say.\<close>

lemma owner_groups_by_owner:
  "owner_groups v facets =
     filter (\<lambda>g. og_repositories g \<noteq> [])
       (map (\<lambda>o'. group_of v o' (facets_of o' facets)) (first_spellings (named_owners facets)))"
  by (simp add: owner_groups_def placed_groups)

section \<open>The owner's checkbox\<close>

lemma select_each_on: "set (select_each rs True sel) = set sel \<union> set rs"
  by (induction rs arbitrary: sel) auto

lemma select_each_off:
  "distinct sel \<Longrightarrow> set (select_each rs False sel) = set sel - set rs \<and> distinct (select_each rs False sel)"
  by (induction rs arbitrary: sel) auto

lemma in_owner_groups:
  "g \<in> set (owner_groups v facets) \<longleftrightarrow>
     (\<exists>owner\<in>set (first_spellings (named_owners facets)).
        g = group_of v owner (facets_of owner facets) \<and> og_repositories g \<noteq> [])"
  by (auto simp: owner_groups_by_owner)

lemma shown_in_scope: "facet_shown v f \<Longrightarrow> facet_in_scope v f"
  by (simp add: facet_in_scope_def)

lemma group_of_fields:
  "og_owner (group_of v owner fs) = owner"
  "og_scope (group_of v owner fs) = map facet_name (filter (facet_in_scope v) fs)"
  "og_repositories (group_of v owner fs) = map (facet_item v) (filter (facet_shown v) fs)"
  "og_selected (group_of v owner fs) =
     length (filter (\<lambda>n. n \<in> set (tv_selected v)) (og_scope (group_of v owner fs)))"
  by (simp_all add: group_of_def Let_def)

lemma scope_exists: "og_repositories (group_of v owner fs) \<noteq> [] \<Longrightarrow> og_scope (group_of v owner fs) \<noteq> []"
  using shown_in_scope by (fastforce simp: group_of_fields filter_empty_conv)

lemma checkbox_all: "xs \<noteq> [] \<Longrightarrow> checkbox_of (length (filter P xs)) (length xs) = Checked \<longleftrightarrow> (\<forall>x\<in>set xs. P x)"
proof (cases "\<forall>x\<in>set xs. P x")
  case True
  assume "xs \<noteq> []"
  with True show ?thesis by (simp add: checkbox_of_def)
next
  case False
  then obtain x where "x \<in> set xs" "\<not> P x" by blast
  then have "length (filter P xs) < length xs" by (rule length_filter_less)
  with False show ?thesis by (simp add: checkbox_of_def)
qed

lemma all_selected: "og_scope (group_of v owner fs) \<noteq> [] \<Longrightarrow>
    group_checkbox (group_of v owner fs) = Checked \<longleftrightarrow> set (og_scope (group_of v owner fs)) \<subseteq> set (tv_selected v)"
  unfolding group_checkbox_def group_of_fields(4) by (subst checkbox_all) auto

definition selecting :: "string list \<Rightarrow> tree_view \<Rightarrow> tree_view" where
  "selecting repos v = v\<lparr>tv_selected := repos\<rparr>"

lemma selecting_query [simp]: "tree_query (selecting repos v) = tree_query v" "tv_selected (selecting repos v) = repos"
  "tv_lower (selecting repos v) = tv_lower v"
  by (simp_all add: selecting_def tree_query_def)

lemma same_scope:
  assumes "distinct (map facet_name facets)" and "set fs \<subseteq> set facets"
    and "sel = select_each (map facet_name (filter (facet_in_scope v) fs)) True (tv_selected v)"
  shows "filter (facet_in_scope (selecting sel v)) fs = filter (facet_in_scope v) fs"
proof (rule filter_cong [OF refl])
  fix f assume f: "f \<in> set fs"
  have sel: "set sel = set (tv_selected v) \<union> facet_name ` set (filter (facet_in_scope v) fs)"
    unfolding assms(3) select_each_on by simp
  have "facet_in_scope v f" if "facet_name f \<in> facet_name ` set (filter (facet_in_scope v) fs)"
  proof -
    from that obtain h where h: "h \<in> set fs" "facet_in_scope v h" "facet_name f = facet_name h" by auto
    have "inj_on facet_name (set facets)" using assms(1) by (simp add: distinct_map)
    with h f assms(2) have "f = h" by (meson inj_onD subsetD)
    with h show ?thesis by simp
  qed
  then show "facet_in_scope (selecting sel v) f = facet_in_scope v f"
    unfolding facet_in_scope_def facet_shown_def selecting_query sel by (auto simp: facet_in_scope_def facet_shown_def)
qed

lemma clicked_repos:
  assumes "pf_repos (dv_filter d) = tv_selected v"
  shows "pf_repos (dv_filter (click_owner g d)) =
    select_each (og_scope g) (group_checkbox g \<noteq> Checked) (tv_selected v)"
  unfolding click_owner_def select_repos_def update_filter_def clear_selection_def using assms by simp

lemma box_deselects:
  assumes "g = group_of v owner (facets_of owner facets)"
    and "set sel = set (tv_selected v) - set (og_scope g)"
    and "g' \<in> set (owner_groups (selecting sel v) facets)" and "og_owner g' = og_owner g"
  shows "group_checkbox g' = Unchecked"
proof -
  let ?fs = "facets_of owner facets"
  from assms(1,3,4) have g': "g' = group_of (selecting sel v) owner ?fs"
    by (auto simp: in_owner_groups group_of_fields(1))
  have "n \<notin> set sel" if "n \<in> set (og_scope g')" for n
  proof
    assume n: "n \<in> set sel"
    from that obtain h where h: "h \<in> set ?fs" "n = facet_name h" "facet_in_scope (selecting sel v) h"
      by (auto simp: g' group_of_fields)
    from n assms(2) have "n \<in> set (tv_selected v)" by simp
    with h have "facet_in_scope v h" by (auto simp: facet_in_scope_def facet_shown_def split: if_splits)
    with h have "n \<in> set (og_scope g)" by (auto simp: assms(1) group_of_fields)
    with n assms(2) show False by simp
  qed
  then have "og_selected g' = 0" unfolding g' group_of_fields(4) by (auto simp: filter_empty_conv)
  then show ?thesis by (simp add: group_checkbox_def checkbox_of_def)
qed

lemma box_selects:
  assumes "distinct (map facet_name facets)" and "owner \<in> set (first_spellings (named_owners facets))"
    and g: "g = group_of v owner (facets_of owner facets)" and shown: "og_repositories g \<noteq> []"
    and sel: "sel = select_each (og_scope g) True (tv_selected v)"
  shows "\<exists>g'\<in>set (owner_groups (selecting sel v) facets).
    og_owner g' = og_owner g \<and> og_scope g' = og_scope g \<and> group_checkbox g' = Checked"
proof -
  let ?fs = "facets_of owner facets" and ?g = "group_of (selecting sel v) owner (facets_of owner facets)"
  have fs: "set ?fs \<subseteq> set facets" by (auto simp: facets_of_def)
  have on: "set sel = set (tv_selected v) \<union> set (og_scope g)" by (simp add: sel select_each_on)
  have scope: "og_scope ?g = og_scope g"
    using same_scope [OF assms(1) fs, of sel v] sel unfolding g group_of_fields by simp
  from g shown obtain h where "h \<in> set ?fs" "facet_shown v h" by (auto simp: group_of_fields filter_empty_conv)
  moreover from this have "facet_shown (selecting sel v) h" using on by (auto simp: facet_shown_def)
  ultimately have "og_repositories ?g \<noteq> []" by (auto simp: group_of_fields filter_empty_conv)
  with assms(2) have "?g \<in> set (owner_groups (selecting sel v) facets)" by (auto simp: in_owner_groups)
  moreover have "group_checkbox ?g = Checked"
    using all_selected [of "selecting sel v" owner ?fs] scope scope_exists [of v owner ?fs] g shown on by simp
  ultimately show ?thesis using scope g by (auto simp: group_of_fields(1) intro!: bexI [of _ ?g])
qed

text \<open>
  The repositories an owner's box is to speak for: every one of the owner's without a search, and
  under one those whose \<open>owner/repo\<close> contains it, without regard to case, and which have pull
  requests or are selected.
\<close>

definition speaks_for :: "tree_view \<Rightarrow> string \<Rightarrow> repo_facet list \<Rightarrow> string set" where
  "speaks_for v owner facets =
     (let searched = tv_lower v (trim (tv_query v));
          owned = {f \<in> set facets. eq_ignore_ascii_case owner (rr_owner (rf_repository f))}
      in if searched = [] then facet_name ` owned
         else facet_name ` {f \<in> owned. str_contains (tv_lower v (facet_name f)) searched \<and>
                                       (rf_count f \<noteq> 0 \<or> facet_name f \<in> set (tv_selected v))})"

lemma scope_speaks_for: "set (og_scope (group_of v owner (facets_of owner facets))) = speaks_for v owner facets"
  by (auto simp: group_of_fields speaks_for_def Let_def facets_of_def facet_in_scope_def facet_shown_def
      tree_query_def word_greater_zero_iff)

lemma none_selected:
  "og_scope (group_of v owner fs) \<noteq> [] \<Longrightarrow> group_checkbox (group_of v owner fs) = Unchecked \<longleftrightarrow>
     set (og_scope (group_of v owner fs)) \<inter> set (tv_selected v) = {}"
proof -
  assume some: "og_scope (group_of v owner fs) \<noteq> []"
  then have "group_checkbox (group_of v owner fs) = Unchecked \<longleftrightarrow> og_selected (group_of v owner fs) = 0"
    by (auto simp: group_checkbox_def checkbox_of_def)
  then show ?thesis unfolding group_of_fields(4) by (auto simp: filter_empty_conv)
qed

text \<open>
  C36: An owner's box does what it shows. It speaks for every repository of the owner, and under a
  search only for those the search finds and the tree shows; it is checked when all of them are
  selected and unchecked when none is. A box that is not checked selects all of them and no other,
  and is checked afterwards, over the same ones; a checked one deselects them and no other, and is
  unchecked wherever the owner is still listed. The repositories of the facet are assumed to differ
  in name, as the store keeps them, and the selection to name none twice.
\<close>

theorem owner_box_does_what_it_shows:
  assumes "distinct (map facet_name facets)" and "distinct (tv_selected v)" and "g \<in> set (owner_groups v facets)"
    and "dv_filter d = f" and "pf_repos f = tv_selected v"
  defines "after \<equiv> pf_repos (dv_filter (click_owner g d))" and "mine \<equiv> speaks_for v (og_owner g) facets"
  shows "set (og_scope g) = mine \<and> (group_checkbox g = Checked \<longleftrightarrow> mine \<subseteq> set (tv_selected v)) \<and>
    (group_checkbox g = Unchecked \<longleftrightarrow> mine \<inter> set (tv_selected v) = {}) \<and>
    (if mine \<subseteq> set (tv_selected v)
     then set after = set (tv_selected v) - mine \<and>
       (\<forall>g'\<in>set (owner_groups (selecting after v) facets).
          og_owner g' = og_owner g \<longrightarrow> group_checkbox g' = Unchecked)
     else set after = set (tv_selected v) \<union> mine \<and>
       (\<exists>g'\<in>set (owner_groups (selecting after v) facets).
          og_owner g' = og_owner g \<and> og_scope g' = og_scope g \<and> group_checkbox g' = Checked))"
proof -
  from assms(3) obtain owner where owner: "owner \<in> set (first_spellings (named_owners facets))"
      "g = group_of v owner (facets_of owner facets)" "og_repositories g \<noteq> []"
    by (auto simp: in_owner_groups)
  have mine: "set (og_scope g) = mine"
    unfolding mine_def owner(2) scope_speaks_for by (simp add: group_of_fields)
  have some: "og_scope g \<noteq> []" using owner(2,3) by (simp add: scope_exists)
  have checked: "group_checkbox g = Checked \<longleftrightarrow> mine \<subseteq> set (tv_selected v)"
    and none_checked: "group_checkbox g = Unchecked \<longleftrightarrow> mine \<inter> set (tv_selected v) = {}"
    using all_selected none_selected some mine unfolding owner(2) by simp_all
  have after: "after = select_each (og_scope g) (group_checkbox g \<noteq> Checked) (tv_selected v)"
    unfolding after_def using assms(4,5) by (intro clicked_repos) simp
  show ?thesis
  proof (cases "group_checkbox g = Checked")
    case True
    with after assms(2) mine have off: "set after = set (tv_selected v) - set (og_scope g)"
      using select_each_off by simp
    then show ?thesis using True mine checked none_checked box_deselects [OF owner(2) off] by simp
  next
    case False
    with after have on: "after = select_each (og_scope g) True (tv_selected v)" by simp
    then show ?thesis
      using False mine checked none_checked box_selects [OF assms(1) owner on] by (simp add: select_each_on)
  qed
qed

definition api_facet :: repo_facet where
  "api_facet = \<lparr>rf_repository = \<lparr>rr_repository_id = 1, rr_installation_id = 5, rr_owner = ''acme'', rr_repo = ''api'',
     rr_merge_method = None, rr_synced_at = 0\<rparr>, rf_count = 1\<rparr>"

definition plain_tree :: tree_view where
  "plain_tree = \<lparr>tv_query = [], tv_lower = to_ascii_lowercase, tv_selected = []\<rparr>"

definition tree_page :: dashboard where
  "tree_page = \<lparr>dv_filter = default_filter, dv_cursor = None, dv_selected = no_selection, dv_page = Loading,
     dv_summary = Loading, dv_capabilities = Loading, dv_now = 0, dv_syncing = False,
     dv_connection = Online, dv_refreshed_at = None, dv_reloads = 0\<rparr>"

definition acme_group :: owner_group where
  "acme_group = group_of plain_tree ''acme'' [api_facet]"

theorem owner_box_does_what_it_shows_witness:
  "set (pf_repos (dv_filter (click_owner acme_group tree_page))) = {''acme/api''}"
proof -
  have "facets_of ''acme'' [api_facet] = [api_facet]"
    by (simp add: facets_of_def api_facet_def eq_ignore_ascii_case_def)
  moreover have shown: "facet_shown plain_tree api_facet" "facet_in_scope plain_tree api_facet"
    by (simp_all add: facet_in_scope_def facet_shown_def tree_query_def plain_tree_def api_facet_def
        to_ascii_lowercase_def trim_def trim_start.simps [of "[]"] trim_end.simps [of "[]"])
  ultimately have mem: "acme_group \<in> set (owner_groups plain_tree [api_facet])"
    by (simp add: in_owner_groups named_owners_def acme_group_def group_of_fields)
      (simp add: api_facet_def)
  have scope: "og_scope acme_group = [''acme/api'']"
    using shown by (simp add: acme_group_def group_of_fields) (simp add: facet_name_def api_facet_def)
  have box: "group_checkbox acme_group \<noteq> Checked"
    using all_selected [of plain_tree "''acme''" "[api_facet]"] scope
    by (simp add: acme_group_def plain_tree_def)
  have "distinct (map facet_name [api_facet])" "distinct (tv_selected plain_tree)"
    "pf_repos (dv_filter tree_page) = tv_selected plain_tree"
    by (simp_all add: plain_tree_def tree_page_def default_filter_def)
  from owner_box_does_what_it_shows [OF this(1,2) mem refl this(3)] box scope show ?thesis
    by (simp add: plain_tree_def)
qed

end
