(* ===== verification/Ui_Drawer.thy ===== *)
theory Ui_Drawer
  imports Ui_Url Ui_Retry Ui_Format
begin

text \<open>
  The drawers beside the table: the open pull request as pages and answers come in
  (\<^verbatim>\<open>apps/web/src/ui/detail_drawer.rs\<close>), and what is said of a followed batch
  (\<^verbatim>\<open>ui/progress_drawer.rs\<close>). Their markup is not modelled; the decisions behind it are.
\<close>

section \<open>The open pull request\<close>

fun open_row :: "open_pr \<Rightarrow> pr_record option" where
  "open_row (OpenLoading _) = None"
| "open_row (OpenLoaded row) = Some row"
| "open_row (OpenGone row) = Some row"

datatype page_word = AsIs | Replaced pr_record | Unknown pr_record

definition follow_page :: "open_pr \<Rightarrow> dashboard_page \<Rightarrow> page_word" where
  "follow_page opened page =
     (case open_row opened of
        None \<Rightarrow> AsIs
      | Some shown \<Rightarrow>
          (case (find (\<lambda>row. pr_id row = pr_id shown) (dp_rows page), opened) of
             (Some row, OpenLoaded _) \<Rightarrow> if row = shown then AsIs else Replaced row
           | (Some row, _) \<Rightarrow> Replaced row
           | (None, OpenLoaded row) \<Rightarrow> Unknown row
           | (None, _) \<Rightarrow> AsIs))"

datatype settlement = Stands | Becomes "open_pr option"

definition settle_drawer :: "open_pr option \<Rightarrow> open_pr \<Rightarrow> fault + pr_record option \<Rightarrow> settlement" where
  "settle_drawer opened asked answer =
     (if opened \<noteq> Some asked then Stands
      else
        (case (open_row asked, answer) of
           (None, Inr row) \<Rightarrow> Becomes (map_option OpenLoaded row)
         | (None, Inl _) \<Rightarrow> Becomes None
         | (Some held, Inr (Some row)) \<Rightarrow> if row \<noteq> held then Becomes (Some (OpenLoaded row)) else Stands
         | (Some held, Inr None) \<Rightarrow> Becomes (Some (OpenGone held))
         | (Some _, Inl _) \<Rightarrow> Stands))"

definition read_row ::
    "('g, 'm) web_world_scheme browser_line \<Rightarrow> ('g, 'v) server_state \<Rightarrow> pr_key \<Rightarrow>
     (dashboard \<times> ('g, 'm) web_world_scheme, fault, pr_record option) eff" where
  "read_row K S key = ask_server K (load_pr_projection_in S key)"

text \<open>
  The drawer with its reads in flight, each with what it was asked for. \<open>OpenDetail\<close> reads a row
  when the drawer opens on a key alone and when a page does not show the row it has.
\<close>

record detail =
  de_open :: "open_pr option"
  de_reads :: "open_pr list"

definition open_detail :: "open_pr \<Rightarrow> detail \<Rightarrow> detail" where
  "open_detail opened t =
     t\<lparr>de_open := Some opened,
       de_reads := (case opened of OpenLoading _ \<Rightarrow> de_reads t @ [opened] | _ \<Rightarrow> de_reads t)\<rparr>"

definition close_detail :: "detail \<Rightarrow> detail" where
  "close_detail t = t\<lparr>de_open := None\<rparr>"

definition page_lands :: "dashboard_page \<Rightarrow> detail \<Rightarrow> detail" where
  "page_lands page t =
     (case de_open t of
        None \<Rightarrow> t
      | Some opened \<Rightarrow>
          (case follow_page opened page of
             AsIs \<Rightarrow> t
           | Replaced row \<Rightarrow> t\<lparr>de_open := Some (OpenLoaded row)\<rparr>
           | Unknown held \<Rightarrow> t\<lparr>de_reads := de_reads t @ [OpenLoaded held]\<rparr>))"

definition drop_at :: "nat \<Rightarrow> 'a list \<Rightarrow> 'a list" where
  "drop_at i xs = take i xs @ drop (Suc i) xs"

definition answer_lands :: "nat \<Rightarrow> fault + pr_record option \<Rightarrow> detail \<Rightarrow> detail" where
  "answer_lands i answer t =
     (if i < length (de_reads t)
      then (let t' = t\<lparr>de_reads := drop_at i (de_reads t)\<rparr>
            in case settle_drawer (de_open t) (de_reads t ! i) answer of
                 Stands \<Rightarrow> t' | Becomes opened \<Rightarrow> t'\<lparr>de_open := opened\<rparr>)
      else t)"

fun sync_message :: "sync_failure \<Rightarrow> string" where
  "sync_message (NotQueued f) = ''Could not queue sync: '' @ display_sync_failure (NotQueued f)"
| "sync_message failure =
     ''Sync was queued, but completion could not be confirmed: '' @ display_sync_failure failure"

datatype durable_status = DurableLoading | DurableFailed string | DurableGone | DurablePresent pr_state

definition durable_from_resource :: "(fault + pr_state option) option \<Rightarrow> durable_status" where
  "durable_from_resource resource =
     (case from_faulted resource of
        Loading \<Rightarrow> DurableLoading
      | Failed e \<Rightarrow> DurableFailed e
      | Loaded None \<Rightarrow> DurableGone
      | Loaded (Some state) \<Rightarrow> DurablePresent state)"

section \<open>What is said of a followed batch\<close>

definition progress_percentage :: "batch_progress \<Rightarrow> u64" where
  "progress_percentage progress =
     (let total = length (bp_targets progress)
      in if total = 0 then 100 else settled progress * 100 div of_nat total)"

definition finding_note :: "followed \<Rightarrow> u64 \<Rightarrow> string" where
  "finding_note F now =
     (case fo_listing F of
        Unasked \<Rightarrow> ''Looking the batch up...''
      | Unreadable \<Rightarrow> ''The projection could not be read. Asking Restate where the batch stands...''
      | Unlisted \<Rightarrow>
          ''The projection has no batch by this id, running or finished; one just queued may not be listed yet. Asking Restate where it stands...''
      | ListedRunning b \<Rightarrow>
          ''Listed as running: '' @ display_bulk_action (rb_action b) @ '' over '' @
          pull_requests_phrase (rb_target_count b) @ '', by '' @ rb_requested_by b @ '', started '' @
          ago now (rb_started_at b) @ ''. Asking Restate where it stands...'')"

definition waiting_note :: "followed \<Rightarrow> u64 \<Rightarrow> string option" where
  "waiting_note F now =
     (if \<not> stands_still F now then None
      else
        let standing = relative_time now (fo_since F)
        in Some
          (if fo_heard F
           then ''No progress for '' @ standing @ ''. Whether a call is being retried or the service is down, the dashboard cannot tell; one call may take hours inside its budgets, and the batch is durable in Restate for all of them.''
           else ''Waiting on Restate to start the batch, '' @ standing @ '' after it took it: its service may be down or deploying, and the batch starts when it is back.''))"

definition trouble_note :: "followed \<Rightarrow> string option" where
  "trouble_note F =
     map_option (\<lambda>trouble.
       display_fault trouble @
       (if follow_signed_out F
        then (if fo_progress F \<noteq> None
              then ''. The batch carries on in Restate; the dashboard has stopped asking after it, and picks it up again once the page is reloaded.''
              else ''. The dashboard has stopped asking where the batch stands, and asks again once the page is reloaded.'')
        else (if fo_progress F \<noteq> None
              then ''. The batch carries on in Restate; the dashboard keeps asking after it.''
              else []))) (fo_trouble F)"

fun progress_class :: "progress_state \<Rightarrow> string" where
  "progress_class Queued = ''state-queued''"
| "progress_class Running = ''state-running''"
| "progress_class (PSucceeded _ _) = ''state-succeeded''"
| "progress_class (PRejected _) = ''state-rejected''"
| "progress_class (PFailed _) = ''state-failed''"

fun progress_detail :: "progress_state \<Rightarrow> string" where
  "progress_detail Queued = ''queued''"
| "progress_detail Running = ''running''"
| "progress_detail (PSucceeded detail _) = detail"
| "progress_detail (PRejected reason) = display_reject reason"
| "progress_detail (PFailed detail) = detail"

section \<open>Whose answer it is\<close>

text \<open>
  Everything that happens to the drawer: the user opens a pull request or closes it, a page lands, an
  answer to one of the reads in flight lands, whichever and whenever.
\<close>

datatype drawer_move =
    Opens open_pr
  | Closes
  | PageLands dashboard_page
  | AnswerLands nat "fault + pr_record option"

fun drawer_step :: "drawer_move \<Rightarrow> detail \<Rightarrow> detail" where
  "drawer_step (Opens opened) t = open_detail opened t"
| "drawer_step Closes t = close_detail t"
| "drawer_step (PageLands page) t = page_lands page t"
| "drawer_step (AnswerLands i answer) t = answer_lands i answer t"

text \<open>A row as the read model has it is named by its key; an answer is for the key asked.\<close>

definition row_named :: "pr_record \<Rightarrow> bool" where
  "row_named row \<longleftrightarrow> pr_id row = display_pr_key (record_key row)"

definition named :: "open_pr \<Rightarrow> bool" where
  "named opened \<longleftrightarrow> (case open_row opened of None \<Rightarrow> True | Some row \<Rightarrow> row_named row)"

fun move_named :: "detail \<Rightarrow> drawer_move \<Rightarrow> bool" where
  "move_named t (Opens opened) = (named opened \<and> (\<forall>row. opened \<noteq> OpenGone row))"
| "move_named t Closes = True"
| "move_named t (PageLands page) = (\<forall>row\<in>set (dp_rows page). row_named row)"
| "move_named t (AnswerLands i answer) =
     (case answer of
        Inr (Some row) \<Rightarrow> row_named row \<and> (i < length (de_reads t) \<longrightarrow> record_key row = open_key (de_reads t ! i))
      | _ \<Rightarrow> True)"

fun moves_named :: "detail \<Rightarrow> drawer_move list \<Rightarrow> bool" where
  "moves_named t [] = True"
| "moves_named t (m # ms) = (move_named t m \<and> moves_named (drawer_step m t) ms)"

text \<open>The key the user last opened, if the drawer was not closed since.\<close>

fun chosen :: "drawer_move \<Rightarrow> pr_key option \<Rightarrow> pr_key option" where
  "chosen (Opens opened) k = Some (open_key opened)"
| "chosen Closes k = None"
| "chosen _ k = k"

text \<open>The rows answered as absent: what was asked in a read that came back with nothing.\<close>

definition absent_at :: "detail \<Rightarrow> drawer_move \<Rightarrow> open_pr set" where
  "absent_at t m =
     (case m of
        AnswerLands i answer \<Rightarrow> if answer = Inr None \<and> i < length (de_reads t) then {de_reads t ! i} else {}
      | _ \<Rightarrow> {})"

fun absent_after :: "detail \<Rightarrow> drawer_move list \<Rightarrow> open_pr set" where
  "absent_after t [] = {}"
| "absent_after t (m # ms) = absent_at t m \<union> absent_after (drawer_step m t) ms"

definition detail_ok :: "pr_key option \<Rightarrow> open_pr set \<Rightarrow> detail \<Rightarrow> bool" where
  "detail_ok k absent t \<longleftrightarrow>
     (case de_open t of
        None \<Rightarrow> True
      | Some opened \<Rightarrow> named opened \<and> k = Some (open_key opened) \<and>
          (\<forall>row. opened = OpenGone row \<longrightarrow> OpenLoaded row \<in> absent)) \<and>
     (\<forall>asked\<in>set (de_reads t). named asked \<and> (\<forall>row. asked \<noteq> OpenGone row))"

lemma open_row_key: "open_row opened = Some row \<Longrightarrow> open_key opened = record_key row"
  by (cases opened) auto

lemma named_simps [simp]: "named (OpenLoading k)" "named (OpenLoaded row) = row_named row" "named (OpenGone row) = row_named row"
  by (simp_all add: named_def)

lemma same_id_key: "row_named a \<Longrightarrow> row_named b \<Longrightarrow> pr_id a = pr_id b \<Longrightarrow> record_key a = record_key b"
  by (metis row_named_def display_pr_key_inj)

lemma follow_page_cases:
  assumes "\<forall>row\<in>set (dp_rows page). row_named row" and "named opened"
  shows "case follow_page opened page of
      AsIs \<Rightarrow> True
    | Replaced row \<Rightarrow> row_named row \<and> record_key row = open_key opened
    | Unknown held \<Rightarrow> opened = OpenLoaded held"
proof -
  have found: "row_named row \<and> record_key row = record_key shown"
    if "find (\<lambda>row. pr_id row = pr_id shown) (dp_rows page) = Some row" "row_named shown" for row shown
  proof -
    from that(1) have "row \<in> set (dp_rows page)" "pr_id row = pr_id shown" by (auto simp: find_Some_iff)
    with assms(1) that(2) show ?thesis using same_id_key by blast
  qed
  show ?thesis
    using assms(2)
    by (cases opened) (auto simp: follow_page_def split: option.splits dest!: found)
qed

lemma settle_drawer_cases:
  assumes "settle_drawer opened asked answer = Becomes nxt"
  shows "opened = Some asked \<and>
    (case answer of
       Inl _ \<Rightarrow> nxt = None
     | Inr (Some row) \<Rightarrow> nxt = Some (OpenLoaded row)
     | Inr None \<Rightarrow> nxt = map_option OpenGone (open_row asked))"
  using assms by (auto simp: settle_drawer_def split: if_splits option.splits sum.splits)

lemma drop_at_subset: "set (drop_at i xs) \<subseteq> set xs"
  by (auto simp: drop_at_def dest: in_set_takeD in_set_dropD)

lemma detail_ok_reads:
  "detail_ok k absent t \<Longrightarrow> set reads \<subseteq> set (de_reads t) \<Longrightarrow> detail_ok k absent (t\<lparr>de_reads := reads\<rparr>)"
  by (auto simp: detail_ok_def)

lemma detail_ok_more: "detail_ok k absent t \<Longrightarrow> absent \<subseteq> absent' \<Longrightarrow> detail_ok k absent' t"
  by (auto simp: detail_ok_def split: option.splits)

lemma detail_step:
  assumes "detail_ok k absent t" and "move_named t m"
  shows "detail_ok (chosen m k) (absent \<union> absent_at t m) (drawer_step m t)"
proof (cases m)
  case (Opens opened)
  with assms show ?thesis
    by (auto simp: open_detail_def detail_ok_def absent_at_def split: open_pr.splits)
next
  case Closes
  with assms show ?thesis by (auto simp: close_detail_def detail_ok_def absent_at_def)
next
  case (PageLands page)
  show ?thesis
  proof (cases "de_open t")
    case None
    with PageLands assms show ?thesis by (simp add: page_lands_def absent_at_def)
  next
    case (Some opened)
    with assms(1) have ok: "named opened" "k = Some (open_key opened)" by (auto simp: detail_ok_def)
    from assms(2) PageLands have "\<forall>row\<in>set (dp_rows page). row_named row" by simp
    note word = follow_page_cases [OF this ok(1)]
    show ?thesis
      using word PageLands Some assms(1) ok
      by (cases "follow_page opened page") (auto simp: page_lands_def absent_at_def detail_ok_def)
  qed
next
  case (AnswerLands i answer)
  show ?thesis
  proof (cases "i < length (de_reads t)")
    case False
    with AnswerLands assms show ?thesis by (simp add: answer_lands_def absent_at_def)
  next
    case True
    let ?asked = "de_reads t ! i" and ?t = "t\<lparr>de_reads := drop_at i (de_reads t)\<rparr>"
    have t: "detail_ok k absent ?t" using detail_ok_reads [OF assms(1) drop_at_subset] .
    have asked: "named ?asked" "\<forall>row. ?asked \<noteq> OpenGone row" using assms(1) True by (auto simp: detail_ok_def)
    show ?thesis
    proof (cases "settle_drawer (de_open t) ?asked answer")
      case Stands
      with AnswerLands True detail_ok_more [OF t] show ?thesis by (simp add: answer_lands_def)
    next
      case (Becomes nxt)
      note said = settle_drawer_cases [OF this]
      from said assms(1) have k: "k = Some (open_key ?asked)" by (auto simp: detail_ok_def)
      have "drawer_step m t = ?t\<lparr>de_open := nxt\<rparr>" using AnswerLands True Becomes by (simp add: answer_lands_def)
      moreover have "case nxt of
          None \<Rightarrow> True
        | Some opened \<Rightarrow> named opened \<and> k = Some (open_key opened) \<and>
            (\<forall>row. opened = OpenGone row \<longrightarrow> OpenLoaded row \<in> absent \<union> absent_at t m)"
      proof (cases answer)
        case (Inl f)
        with said show ?thesis by simp
      next
        case (Inr found)
        show ?thesis
        proof (cases found)
          case None
          with Inr said asked k AnswerLands True show ?thesis
            by (cases ?asked) (auto simp: absent_at_def)
        next
          case (Some row)
          with Inr assms(2) AnswerLands True have "row_named row" "record_key row = open_key ?asked" by auto
          with Some Inr said k show ?thesis by simp
        qed
      qed
      moreover have "chosen m k = k" using AnswerLands by simp
      ultimately show ?thesis using t by (simp add: detail_ok_def)
    qed
  qed
qed

lemma detail_run:
  "detail_ok k absent t \<Longrightarrow> moves_named t moves \<Longrightarrow>
     detail_ok (fold chosen moves k) (absent \<union> absent_after t moves) (fold drawer_step moves t)"
proof (induction moves arbitrary: k absent t)
  case Nil
  then show ?case by simp
next
  case (Cons m moves)
  from Cons.IH [OF detail_step [OF Cons.prems(1)]] Cons.prems(2) show ?case by (simp add: Un_assoc)
qed

definition closed_detail :: detail where
  "closed_detail = \<lparr>de_open = None, de_reads = []\<rparr>"

text \<open>
  C35: whatever pages and answers land, in whatever order and however late, an open drawer is on the
  pull request the user opened last, and it says the pull request is gone only once a read made
  of the very row it shows was answered with none.
\<close>

theorem drawer_keeps_its_pull_request:
  assumes "moves_named closed_detail moves" and "de_open (fold drawer_step moves closed_detail) = Some opened"
  shows "fold chosen moves None = Some (open_key opened) \<and>
    (\<forall>row. opened = OpenGone row \<longrightarrow> OpenLoaded row \<in> absent_after closed_detail moves)"
proof -
  have "detail_ok None {} closed_detail" by (simp add: detail_ok_def closed_detail_def)
  from detail_run [OF this assms(1)] assms(2) show ?thesis by (auto simp: detail_ok_def)
qed

theorem drawer_keeps_its_pull_request_witness:
  "fold chosen [Opens (OpenLoading (PrKey 1 7)), AnswerLands 0 (Inr None), Opens (OpenLoading (PrKey 1 8))] None =
     Some (PrKey 1 8)"
  using drawer_keeps_its_pull_request [of "[Opens (OpenLoading (PrKey 1 7)), AnswerLands 0 (Inr None),
      Opens (OpenLoading (PrKey 1 8))]" "OpenLoading (PrKey 1 8)"]
  by (simp add: closed_detail_def open_detail_def answer_lands_def drop_at_def settle_drawer_def)

end
