(* ===== verification/Ui_Panels.thy ===== *)
theory Ui_Panels
  imports Ui_State Ui_Format
begin

text \<open>
  What the confirmation of a bulk action says of it (\<^verbatim>\<open>apps/web/src/ui/confirm_modal.rs\<close>), what the
  action bar offers (\<^verbatim>\<open>ui/action_bar.rs\<close>), how the list of batches links retries and pages
  (\<^verbatim>\<open>ui/recent_batches.rs\<close>), and the banner over the page (\<^verbatim>\<open>ui/status_bar.rs\<close>). The markup is not
  modelled; the decisions behind it are.
\<close>

section \<open>Confirming\<close>

definition not_green_count :: "pr_record list \<Rightarrow> nat" where
  "not_green_count rows = length (filter (\<lambda>row. \<not> is_green (pr_check_status row)) rows)"

definition not_green_phrase :: "nat \<Rightarrow> string" where
  "not_green_phrase count =
     (if count = 1 then ''1 of these is not green.'' else show_nat count @ '' of these are not green.'')"

text \<open>The walk over the rows, with the repositories seen.\<close>

fun overrides_from ::
    "repo_record list \<Rightarrow> pr_record list \<Rightarrow> u64 set \<Rightarrow> (string \<times> merge_method) list \<Rightarrow> (string \<times> merge_method) list" where
  "overrides_from repositories [] seen overrides = overrides"
| "overrides_from repositories (row # rows) seen overrides =
     (if pr_repository_id row \<in> seen then overrides_from repositories rows seen overrides
      else
        overrides_from repositories rows (insert (pr_repository_id row) seen)
          (case Option.bind (find (\<lambda>r. rr_repository_id r = pr_repository_id row) repositories) rr_merge_method of
             None \<Rightarrow> overrides
           | Some m \<Rightarrow> overrides @ [(pr_owner row @ ''/'' @ pr_repo row, m)]))"

definition merge_method_overrides :: "pr_record list \<Rightarrow> repo_record list \<Rightarrow> (string \<times> merge_method) list" where
  "merge_method_overrides rows repositories = overrides_from repositories rows {} []"

definition confirm_withheld :: "pending_action \<Rightarrow> repo_record list remote \<Rightarrow> bool" where
  "confirm_withheld pending repositories \<longleftrightarrow> pa_action pending = BkMerge \<and> loaded repositories = None"

text \<open>The repositories the confirmation consults, off the summary.\<close>

definition confirm_repositories :: "dashboard \<Rightarrow> repo_record list remote" where
  "confirm_repositories d =
     remote_map (\<lambda>summary. map rf_repository (fc_repositories (ds_facets summary))) (dv_summary d)"

section \<open>The action bar\<close>

definition over_limit :: "dashboard \<Rightarrow> nat" where
  "over_limit d = selected_count d - MAX_BATCH_TARGETS"

definition action_note :: "dashboard \<Rightarrow> string option" where
  "action_note d =
     (if 0 < over_limit d
      then Some (''a batch takes at most '' @ show_nat MAX_BATCH_TARGETS @ '' pull requests; deselect '' @
        show_nat (over_limit d))
      else map_option (\<lambda>all. ''the first '' @ show_nat (selected_count d) @ '' of '' @ show_u64 all @
        '' matching; a batch takes at most '' @ show_nat MAX_BATCH_TARGETS) (sl_capped_from (dv_selected d)))"

text \<open>Whether the bar is there and offers the action, and what it requests.\<close>

definition bar_offers :: "dashboard \<Rightarrow> bulk_action_kind \<Rightarrow> bool" where
  "bar_offers d action \<longleftrightarrow>
     selected_count d \<noteq> 0 \<and> over_limit d = 0 \<and> (action = BkRebase \<longrightarrow> rebase_withheld d = None)"

definition bar_request :: "dashboard \<Rightarrow> bulk_action_kind \<Rightarrow> pending_action" where
  "bar_request d action = \<lparr>pa_action = action, pa_rows = selected_rows d, pa_retried_from = None\<rparr>"

section \<open>The batches\<close>

definition BATCH_PAGE :: u32 where "BATCH_PAGE = 20"

definition may_have_older :: "u32 \<Rightarrow> batch_list remote \<Rightarrow> bool" where
  "may_have_older limit status \<longleftrightarrow>
     limit < MAX_RECENT_BATCHES \<and>
     (case loaded status of None \<Rightarrow> False | Some batches \<Rightarrow> unat limit \<le> length (bl_finished batches))"

definition show_older :: "u32 \<Rightarrow> u32" where
  "show_older limit = min (limit + BATCH_PAGE) MAX_RECENT_BATCHES"

definition add_retry :: "string option \<times> string \<Rightarrow> (string \<rightharpoonup> string list) \<Rightarrow> (string \<rightharpoonup> string list)" where
  "add_retry link retried_as =
     (case link of
        (None, _) \<Rightarrow> retried_as
      | (Some retried, retry) \<Rightarrow>
          retried_as(retried \<mapsto> (case retried_as retried of None \<Rightarrow> [] | Some rs \<Rightarrow> rs) @ [retry]))"

definition retry_links :: "batch_list \<Rightarrow> (string option \<times> string) list" where
  "retry_links batches =
     map (\<lambda>b. (rb_retried_from b, rb_batch_id b)) (bl_running batches) @
     map (\<lambda>b. (bc_retried_from b, bc_batch_id b)) (bl_finished batches)"

definition retries_by_batch :: "batch_list \<Rightarrow> (string \<rightharpoonup> string list)" where
  "retries_by_batch batches = fold add_retry (retry_links batches) Map.empty"

section \<open>The banner\<close>

definition connection_banner :: "dashboard \<Rightarrow> string option" where
  "connection_banner d =
     (case dv_connection d of
        Online \<Rightarrow> None
      | Disconnected \<Rightarrow>
          Some (''Disconnected from the read model. '' @
            (case dv_refreshed_at d of
               Some refreshed \<Rightarrow> ''Last successful refresh '' @ ago (dv_now d) refreshed @ ''; the rows may be out of date.''
             | None \<Rightarrow> ''No refresh has succeeded since the page opened.''))
      | SignedOut \<Rightarrow> Some ''You are no longer signed in. Reload the page to sign in again.'')"

definition last_event :: "dashboard \<Rightarrow> string" where
  "last_event d =
     (case Option.bind (loaded (dv_summary d)) ds_last_synced_at of
        Some synced \<Rightarrow> ''last event '' @ relative_time (dv_now d) synced
      | None \<Rightarrow> ''waiting for first reconciliation'')"

section \<open>What they come to\<close>

text \<open>Each repository that resolved another method is named once, at its first row.\<close>

fun first_rows :: "pr_record list \<Rightarrow> u64 set \<Rightarrow> pr_record list" where
  "first_rows [] seen = []"
| "first_rows (row # rows) seen =
     (if pr_repository_id row \<in> seen then first_rows rows seen
      else row # first_rows rows (insert (pr_repository_id row) seen))"

lemma overrides_from_rows:
  "overrides_from repositories rows seen overrides = overrides @
     List.map_filter (\<lambda>row. map_option (\<lambda>m. (pr_owner row @ ''/'' @ pr_repo row, m))
       (Option.bind (find (\<lambda>r. rr_repository_id r = pr_repository_id row) repositories) rr_merge_method))
       (first_rows rows seen)"
  by (induction rows arbitrary: seen overrides) (auto simp: map_filter_simps split: option.splits)

lemma first_rows_once:
  "distinct (map pr_repository_id (first_rows rows seen)) \<and>
   pr_repository_id ` set (first_rows rows seen) = pr_repository_id ` set rows - seen"
  by (induction rows arbitrary: seen) auto

text \<open>A batch is linked to exactly the batches of the list that name it as retried, in the order of the list.\<close>

lemma add_retries:
  "(case fold add_retry links m b of None \<Rightarrow> [] | Some rs \<Rightarrow> rs) =
     (case m b of None \<Rightarrow> [] | Some rs \<Rightarrow> rs) @ map snd (filter (\<lambda>(retried, _). retried = Some b) links)"
  by (induction links arbitrary: m) (auto simp: add_retry_def split: option.splits)

lemma retries_are_links:
  "(case retries_by_batch batches b of None \<Rightarrow> [] | Some rs \<Rightarrow> rs) =
     map snd (filter (\<lambda>(retried, _). retried = Some b) (retry_links batches))"
  by (simp add: retries_by_batch_def add_retries)

text \<open>The limit climbs to the most the server answers and stops there.\<close>

lemma show_older_bounded: "show_older limit \<le> MAX_RECENT_BATCHES"
  by (simp add: show_older_def)

lemma older_offers_stop: "\<not> may_have_older MAX_RECENT_BATCHES status"
  by (simp add: may_have_older_def)

text \<open>A bar that offers an action requests a batch of a size the rules allow.\<close>

lemma bar_offers_a_batch:
  "bar_offers d action \<Longrightarrow> 1 \<le> length (pa_rows (bar_request d action)) \<and> length (pa_rows (bar_request d action)) \<le> MAX_BATCH_TARGETS"
  by (auto simp: bar_offers_def bar_request_def over_limit_def selected_rows_def selected_count_def Suc_le_eq)

end
