(* ===== verification/Ui_Controls.thy ===== *)
theory Ui_Controls
  imports Ui_State Ui_Format
begin

text \<open>
  The controls beside and above the table: the search box with its debounce
  (\<^verbatim>\<open>apps/web/src/ui/search_box.rs\<close>), the chips of the filters in force (\<^verbatim>\<open>ui/filters.rs\<close>), the
  facets of the sidebar (\<^verbatim>\<open>ui/sidebar.rs\<close>), and what a row of the table shows (\<^verbatim>\<open>ui/pr_row.rs\<close>).
  The markup is not modelled; what the controls do to the filter and what they show of it is.
\<close>

section \<open>The search box\<close>

text \<open>The draft in the box, and the value its timer is to apply while one runs.\<close>

record search_box =
  se_draft :: string
  se_pending :: "string option"

definition committed_query :: "dashboard \<Rightarrow> string" where
  "committed_query d = (case pf_query (dv_filter d) of None \<Rightarrow> [] | Some q \<Rightarrow> q)"

definition open_search :: "dashboard \<Rightarrow> search_box" where
  "open_search d = \<lparr>se_draft = committed_query d, se_pending = None\<rparr>"

definition typed :: "string \<Rightarrow> search_box \<Rightarrow> search_box" where
  "typed value box = box\<lparr>se_draft := value, se_pending := Some value\<rparr>"

text \<open>
  The box's effect: it runs when the query in force has changed, drops an edit still waiting and
  shows the query. \<open>before\<close> is the query it last showed.
\<close>

definition follow_committed :: "string \<Rightarrow> search_box \<times> dashboard \<Rightarrow> search_box \<times> dashboard" where
  "follow_committed before = (\<lambda>(box, d).
     (if committed_query d \<noteq> before
      then \<lparr>se_draft = committed_query d, se_pending = None\<rparr> else box, d))"

definition query_of_draft :: "string \<Rightarrow> string option" where
  "query_of_draft value = (if trim value \<noteq> [] then Some value else None)"

text \<open>What the timer does once typing has paused.\<close>

definition apply_draft :: "string \<Rightarrow> search_box \<times> dashboard \<Rightarrow> search_box \<times> dashboard" where
  "apply_draft value = (\<lambda>(box, d).
     (box\<lparr>se_pending := None\<rparr>,
      if pf_query (dv_filter d) \<noteq> query_of_draft value
      then update_filter (\<lambda>f. f\<lparr>pf_query := query_of_draft value\<rparr>) d else d))"

text \<open>
  Everything that happens to the box: the user types, typing pauses for the debounce, or something
  else on the page changes the dashboard.
\<close>

datatype search_move =
    Types string
  | Pauses
  | Changes "dashboard \<Rightarrow> dashboard"

fun search_step :: "search_move \<Rightarrow> search_box \<times> dashboard \<Rightarrow> search_box \<times> dashboard" where
  "search_step (Types value) (box, d) = (typed value box, d)"
| "search_step Pauses (box, d) =
     (case se_pending box of
        None \<Rightarrow> (box, d)
      | Some value \<Rightarrow> follow_committed (committed_query d) (apply_draft value (box, d)))"
| "search_step (Changes change) (box, d) = follow_committed (committed_query d) (box, change d)"

section \<open>The chips of the filters in force\<close>

datatype filter_chip =
    AttentionChip
  | CheckChip check_status
  | TypeChip update_type
  | RepoChip string
  | LabelChip string
  | DependencyChip string

definition active_chips :: "pr_filter \<Rightarrow> filter_chip list" where
  "active_chips f =
     (if pf_needs_attention f then [AttentionChip] else []) @
     map CheckChip (pf_check_statuses f) @
     map TypeChip (pf_update_types f) @
     map RepoChip (pf_repos f) @
     map LabelChip (pf_labels f) @
     (case pf_dependency f of None \<Rightarrow> [] | Some dependency \<Rightarrow> [DependencyChip dependency])"

fun click_chip :: "filter_chip \<Rightarrow> dashboard \<Rightarrow> dashboard" where
  "click_chip AttentionChip = update_filter (\<lambda>f. f\<lparr>pf_needs_attention := False\<rparr>)"
| "click_chip (CheckChip status) = toggle_filter pf_check_statuses_update status"
| "click_chip (TypeChip update_type) = toggle_filter pf_update_types_update update_type"
| "click_chip (RepoChip repo) = toggle_filter pf_repos_update repo"
| "click_chip (LabelChip label) = toggle_filter pf_labels_update label"
| "click_chip (DependencyChip _) = update_filter (\<lambda>f. f\<lparr>pf_dependency := None\<rparr>)"

fun chip_kind :: "filter_chip \<Rightarrow> string" where
  "chip_kind AttentionChip = ''view''"
| "chip_kind (CheckChip _) = ''checks''"
| "chip_kind (TypeChip _) = ''type''"
| "chip_kind (RepoChip _) = ''repo''"
| "chip_kind (LabelChip _) = ''label''"
| "chip_kind (DependencyChip _) = ''dependency''"

fun chip_label :: "filter_chip \<Rightarrow> string" where
  "chip_label AttentionChip = ''needs attention''"
| "chip_label (CheckChip status) = display_check_status status"
| "chip_label (TypeChip update_type) = display_update_type update_type"
| "chip_label (RepoChip repo) = repo"
| "chip_label (LabelChip label) = label"
| "chip_label (DependencyChip dependency) = dependency"

definition filter_count :: "pr_filter \<Rightarrow> nat" where
  "filter_count f =
     (if pf_query f \<noteq> None then 1 else 0) + length (pf_repos f) + length (pf_update_types f) +
     length (pf_check_statuses f) + length (pf_labels f) +
     (if pf_dependency f \<noteq> None then 1 else 0) + (if pf_needs_attention f then 1 else 0)"

section \<open>The sidebar\<close>

record facet_button =
  fb_label :: string
  fb_count :: u64
  fb_active :: bool
  fb_tone :: string

definition check_buttons :: "facet_counts \<Rightarrow> pr_filter \<Rightarrow> facet_button list" where
  "check_buttons facets f =
     map (\<lambda>status. \<lparr>fb_label = status_label status, fb_count = check_count facets status,
       fb_active = (status \<in> set (pf_check_statuses f)), fb_tone = status_class status\<rparr>) CHECK_STATUSES"

definition type_buttons :: "facet_counts \<Rightarrow> pr_filter \<Rightarrow> facet_button list" where
  "type_buttons facets f =
     map (\<lambda>update_type. \<lparr>fb_label = display_update_type update_type, fb_count = update_type_count facets update_type,
       fb_active = (update_type \<in> set (pf_update_types f)), fb_tone = update_class update_type\<rparr>) UPDATE_TYPES"

definition LABEL_FACET_LIMIT :: nat where "LABEL_FACET_LIMIT = 8"

definition label_buttons :: "facet_counts \<Rightarrow> pr_filter \<Rightarrow> (string \<times> u64 \<times> bool) list" where
  "label_buttons facets f =
     map (\<lambda>facet. (lf_label facet, lf_count facet, lf_label facet \<in> set (pf_labels f)))
       (take LABEL_FACET_LIMIT (fc_labels facets))"

text \<open>What stands below the search: a way to ask again is offered to a page that is signed in.\<close>

datatype sidebar_body =
    FacetsFailed string bool
  | FacetsLoading
  | FacetsShown facet_counts

definition sidebar_body_of :: "dashboard \<Rightarrow> sidebar_body" where
  "sidebar_body_of d =
     (case dv_summary d of
        Failed e \<Rightarrow> FacetsFailed e (\<not> signed_out d)
      | Loading \<Rightarrow> FacetsLoading
      | Loaded summary \<Rightarrow> FacetsShown (ds_facets summary))"

section \<open>A row of the table\<close>

definition ROW_LABEL_LIMIT :: nat where "ROW_LABEL_LIMIT = 2"

definition row_class :: "bool \<Rightarrow> bool \<Rightarrow> string" where
  "row_class checked stale =
     ''pr-grid pr-row'' @ (if checked then '' selected'' else []) @ (if stale then '' stale'' else [])"

text \<open>The labels shown, and how many more there are when some are folded away.\<close>

definition row_labels :: "pr_record \<Rightarrow> string list \<times> nat option" where
  "row_labels row =
     (take ROW_LABEL_LIMIT (pr_labels row),
      if ROW_LABEL_LIMIT < length (pr_labels row) then Some (length (pr_labels row) - ROW_LABEL_LIMIT) else None)"

datatype dependency_cell = OneDependency string | ManyDependencies nat

definition dependency_cell_of :: "pr_record \<Rightarrow> dependency_cell" where
  "dependency_cell_of row =
     (case pr_dependency row of
        Some name \<Rightarrow> OneDependency name
      | None \<Rightarrow> ManyDependencies (length (pr_dependencies row)))"

definition filter_dependency :: "string \<Rightarrow> dashboard \<Rightarrow> dashboard" where
  "filter_dependency name = update_filter (\<lambda>f. f\<lparr>pf_dependency := Some name\<rparr>)"

section \<open>The table\<close>

datatype table_body =
    RowsFailed string bool
  | RowsLoading
  | NoRows bool
  | RowsShown "(pr_record \<times> bool) list"

definition table_body_of :: "dashboard \<Rightarrow> table_body" where
  "table_body_of d =
     (case dv_page d of
        Failed e \<Rightarrow> RowsFailed e (\<not> signed_out d)
      | Loading \<Rightarrow> RowsLoading
      | Loaded page \<Rightarrow>
          if dp_rows page = [] then NoRows (0 < filter_count (dv_filter d))
          else RowsShown (map (\<lambda>row. (row, is_selected d (pr_id row))) (dp_rows page)))"

definition page_rows_shown :: "dashboard \<Rightarrow> pr_record list" where
  "page_rows_shown d = (case loaded (dv_page d) of None \<Rightarrow> [] | Some page \<Rightarrow> dp_rows page)"

definition header_box :: "dashboard \<Rightarrow> checkbox" where
  "header_box d = checkbox_of (visible_selected_count d) (length (page_rows_shown d))"

definition load_more :: "dashboard \<Rightarrow> (dashboard \<Rightarrow> dashboard) option" where
  "load_more d = map_option load_next (Option.bind (loaded (dv_page d)) dp_next_cursor)"

section \<open>What the controls come to\<close>

lemma update_filter_filter [simp]: "dv_filter (update_filter change d) = change (dv_filter d)"
  by (simp add: update_filter_def clear_selection_def)

lemma update_filter_restarts [simp]: "dv_cursor (update_filter change d) = None" "dv_selected (update_filter change d) = no_selection"
  by (simp_all add: update_filter_def clear_selection_def)

lemma remove1_append_in: "x \<in> set xs \<Longrightarrow> remove1 x (xs @ ys) = remove1 x xs @ ys"
  and remove1_append_out: "x \<notin> set xs \<Longrightarrow> remove1 x (xs @ ys) = xs @ remove1 x ys"
  by (simp_all add: remove1_append)

lemma remove1_map_chip: "inj f \<Longrightarrow> remove1 (f x) (map f xs) = map f (remove1 x xs)"
  by (induction xs) (auto simp: inj_eq)

lemma chips_inj: "inj CheckChip" "inj TypeChip" "inj RepoChip" "inj LabelChip"
  by (simp_all add: inj_def)

lemmas chip_parts = active_chips_def toggle_filter_def toggle_value_def remove1_append remove1_map_chip chips_inj

text \<open>A chip stands for one filter in force: clicking it takes that one off and no other.\<close>

lemma click_chip_removes:
  assumes "chip \<in> set (active_chips (dv_filter d))"
  shows "active_chips (dv_filter (click_chip chip d)) = remove1 chip (active_chips (dv_filter d))"
    and "pf_query (dv_filter (click_chip chip d)) = pf_query (dv_filter d)"
proof -
  have "active_chips (dv_filter (click_chip chip d)) = remove1 chip (active_chips (dv_filter d)) \<and>
      pf_query (dv_filter (click_chip chip d)) = pf_query (dv_filter d)"
    by (insert assms, cases chip; cases "pf_needs_attention (dv_filter d)"; cases "pf_dependency (dv_filter d)";
        auto simp: chip_parts image_iff)
  then show "active_chips (dv_filter (click_chip chip d)) = remove1 chip (active_chips (dv_filter d))"
    and "pf_query (dv_filter (click_chip chip d)) = pf_query (dv_filter d)" by simp_all
qed

lemma filter_count_chips:
  "filter_count f = length (active_chips f) + (if pf_query f = None then 0 else 1)"
  by (simp add: filter_count_def active_chips_def split: option.split)

lemma click_chip_counts:
  assumes "chip \<in> set (active_chips (dv_filter d))"
  shows "filter_count (dv_filter d) = Suc (filter_count (dv_filter (click_chip chip d)))"
proof -
  have "active_chips (dv_filter d) \<noteq> []" using assms by auto
  then show ?thesis
    using click_chip_removes [OF assms] assms by (simp add: filter_count_chips length_remove1)
qed

lemma filter_count_0: "filter_count f = 0 \<longleftrightarrow> f = default_filter"
  by (cases f) (auto simp: filter_count_def default_filter_def split: if_splits)

lemma clear_filters_counts: "filter_count (dv_filter (clear_filters d)) = 0"
  by (simp add: filter_count_0 clear_filters_def)

text \<open>A facet button that is clicked turns over, and every other of its facet stays as it is.\<close>

lemma toggle_value_set:
  "distinct values \<Longrightarrow> set (toggle_value value values) =
     (if value \<in> set values then set values - {value} else insert value (set values))"
  by (simp add: toggle_value_def set_remove1_eq)

lemma check_button_turns:
  assumes "distinct (pf_check_statuses (dv_filter d))"
  shows "map fb_active (check_buttons facets (dv_filter (toggle_filter pf_check_statuses_update status d))) =
    map (\<lambda>s. if s = status then \<not> (status \<in> set (pf_check_statuses (dv_filter d)))
             else s \<in> set (pf_check_statuses (dv_filter d))) CHECK_STATUSES"
  using assms by (auto simp: check_buttons_def toggle_filter_def toggle_value_set)

subsection \<open>The search box at rest\<close>

text \<open>
  A box with no edit waiting shows the query in force, blanks for none; an edit that waits is the
  draft itself.
\<close>

definition search_ok :: "search_box \<times> dashboard \<Rightarrow> bool" where
  "search_ok = (\<lambda>(box, d).
     case se_pending box of
       None \<Rightarrow> se_draft box = committed_query d \<or> committed_query d = [] \<and> trim (se_draft box) = []
     | Some value \<Rightarrow> se_draft box = value)"

lemma search_ok_open: "search_ok (open_search d, d)"
  by (simp add: search_ok_def open_search_def)

lemma search_ok_followed:
  "search_ok (box, d) \<Longrightarrow> search_ok (follow_committed (committed_query d) (box, d'))"
  by (auto simp: search_ok_def follow_committed_def split: option.splits)

lemma search_step_pauses:
  assumes "se_pending box = Some value" and "se_draft box = value"
  shows "case search_step Pauses (box, d) of (box', d') \<Rightarrow>
    se_pending box' = None \<and> pf_query (dv_filter d') = query_of_draft value \<and>
    (se_draft box' = committed_query d' \<or> committed_query d' = [] \<and> trim (se_draft box') = [])"
  using assms
  by (auto simp: follow_committed_def apply_draft_def query_of_draft_def committed_query_def split: if_splits option.splits)

lemma search_ok_step: "search_ok s \<Longrightarrow> search_ok (search_step m s)"
proof (cases s)
  case (Pair box d)
  assume ok: "search_ok s"
  show ?thesis
  proof (cases m)
    case (Types keyed)
    with Pair show ?thesis by (simp add: search_ok_def typed_def)
  next
    case Pauses
    show ?thesis
    proof (cases "se_pending box")
      case None
      with ok Pair Pauses show ?thesis by simp
    next
      case (Some waiting)
      with ok Pair have "se_draft box = waiting" by (simp add: search_ok_def)
      from search_step_pauses [OF Some this, of d] show ?thesis
        unfolding Pauses Pair by (auto simp: search_ok_def simp del: search_step.simps)
    qed
  next
    case (Changes change)
    with ok Pair show ?thesis by (simp add: search_ok_followed)
  qed
qed

lemma search_ok_run: "search_ok s \<Longrightarrow> search_ok (fold search_step moves s)"
  by (induction moves arbitrary: s) (simp_all add: search_ok_step)

text \<open>A query changed from elsewhere drops the edit that waits, so a clear is not undone by it.\<close>

lemma clear_is_not_undone:
  assumes "committed_query (change d) \<noteq> committed_query d"
  shows "search_step Pauses (search_step (Changes change) (box, d)) =
    (\<lparr>se_draft = committed_query (change d), se_pending = None\<rparr>, change d)"
  using assms by (simp add: follow_committed_def)

text \<open>
  Whatever is typed and changed, once typing pauses the query in force is what the box shows, and
  the box keeps showing the query in force from then on.
\<close>

theorem search_box_settles:
  assumes "fold search_step moves (open_search d0, d0) = (box, d)"
  shows "search_ok (box, d)"
    and "search_step Pauses (box, d) = (box', d') \<Longrightarrow>
      se_pending box' = None \<and> (se_pending box \<noteq> None \<longrightarrow> pf_query (dv_filter d') = query_of_draft (se_draft box))"
proof -
  show ok: "search_ok (box, d)"
    using search_ok_run [OF search_ok_open [of d0], of moves] assms by simp
  assume step: "search_step Pauses (box, d) = (box', d')"
  show "se_pending box' = None \<and> (se_pending box \<noteq> None \<longrightarrow> pf_query (dv_filter d') = query_of_draft (se_draft box))"
  proof (cases "se_pending box")
    case None
    with step show ?thesis by simp
  next
    case (Some waiting)
    with ok have "se_draft box = waiting" by (simp add: search_ok_def)
    with search_step_pauses [OF Some this, of d] step Some show ?thesis by auto
  qed
qed

subsection \<open>The table\<close>

text \<open>The header's box is checked exactly when a click on it is to clear the page.\<close>

lemma header_box_checked: "header_box d = Checked \<longleftrightarrow> all_visible_selected d"
  by (auto simp: header_box_def checkbox_of_def all_visible_selected_def page_rows_shown_def visible_selected_count_def
      split: option.splits if_splits)

text \<open>Every label of a row is either shown or counted.\<close>

lemma row_labels_account:
  "case row_labels row of (shown, folded) \<Rightarrow>
     length shown + (case folded of None \<Rightarrow> 0 | Some n \<Rightarrow> n) = length (pr_labels row) \<and> folded \<noteq> Some 0"
  by (auto simp: row_labels_def min_def)

end
