(* ===== verification/Restate_Ext.thy ===== *)
theory Restate_Ext
  imports Restate_World Ingress_Client Loops
begin

text \<open>
  The plumbing a durable service keeps around its handlers (\<^verbatim>\<open>crates/restate-ext/src\<close>): the kinds
  of journaled step (\<^verbatim>\<open>step.rs\<close>), the line a handler logs of how it ended (\<^verbatim>\<open>handler.rs\<close>), a payload
  that tolerates an absent body (\<^verbatim>\<open>payload.rs\<close>), settings in whole seconds (\<^verbatim>\<open>config.rs\<close>), and the
  invocation sent until Restate accepts it (\<^verbatim>\<open>bootstrap.rs\<close>). JSON, how the SDK renders a failure and
  the words of a parse error are parameters; the wall time a line carries is not modelled.
\<close>

section \<open>Kinds of step\<close>

datatype failure_class = FcRetryable | FcTerminal

datatype step_kind = KindOrdinary | KindBrief | KindLastChance

datatype retryable_step_error = TransientStep string | RetriedRegardless string

fun display_step_error :: "retryable_step_error \<Rightarrow> string" where
  "display_step_error (TransientStep m) = ''transient failure: '' @ m"
| "display_step_error (RetriedRegardless m) = ''step met a terminal-class failure; retrying regardless: '' @ m"

definition step_retry_policy :: "step_kind \<Rightarrow> retry_policy" where
  "step_retry_policy kind =
     (let backoff = \<lparr>rp_initial_delay_ms = 100, rp_factor = 2, rp_max_delay_ms = 5000, rp_max_duration_ms = None\<rparr>
      in case kind of
           KindOrdinary \<Rightarrow> backoff\<lparr>rp_max_duration_ms := Some (5 * 60 * 1000)\<rparr>
         | KindBrief \<Rightarrow> backoff\<lparr>rp_max_duration_ms := Some (15 * 1000)\<rparr>
         | KindLastChance \<Rightarrow> backoff)"

text \<open>An error by its class and its text.\<close>

definition read_step_failure :: "step_kind \<Rightarrow> failure_class \<Rightarrow> string \<Rightarrow> handler_error" where
  "read_step_failure kind class text =
     (case (kind, class) of
        (_, FcRetryable) \<Rightarrow> Retryable (display_step_error (TransientStep text))
      | (KindLastChance, FcTerminal) \<Rightarrow> Retryable (display_step_error (RetriedRegardless text))
      | (_, FcTerminal) \<Rightarrow> Terminal text)"

text \<open>How many attempts the budget of a kind allows after the first is \<open>attempts\<close>.\<close>

definition run_step ::
    "(step_kind \<Rightarrow> nat) \<Rightarrow> step_kind \<Rightarrow> ('e \<Rightarrow> failure_class \<times> string) \<Rightarrow> ('w, 'e, 'a) eff \<Rightarrow> ('w, 'a) handler" where
  "run_step attempts kind read step =
     or_terminal (restate_run (attempts kind) (\<lambda>w.
       case step w of
         (Inl e, w') \<Rightarrow> (Inl (read_step_failure kind (fst (read e)) (snd (read e))), w')
       | (Inr a, w') \<Rightarrow> (Inr a, w')))"

section \<open>How a handler reports\<close>

datatype log_level = Debug | Info | Warn

record log_line =
  ll_level :: log_level
  ll_handler :: string
  ll_key :: string
  ll_outcome :: string
  ll_cause :: "string option"

definition unit_outcome :: "unit \<Rightarrow> string" where
  "unit_outcome _ = ''ok''"

definition string_outcome :: "string \<Rightarrow> string" where
  "string_outcome s = s"

definition option_outcome :: "'a option \<Rightarrow> string" where
  "option_outcome value = (case value of Some _ \<Rightarrow> ''found'' | None \<Rightarrow> ''absent'')"

definition failure_line :: "(handler_error \<Rightarrow> string) \<Rightarrow> string \<Rightarrow> string \<Rightarrow> handler_error \<Rightarrow> log_line" where
  "failure_line render handler key e =
     \<lparr>ll_level = Warn, ll_handler = handler, ll_key = key, ll_outcome = ''failed'', ll_cause = Some (render e)\<rparr>"

definition logged_at ::
    "log_level \<Rightarrow> (handler_error \<Rightarrow> string) \<Rightarrow> string \<Rightarrow> string \<Rightarrow> ('a \<Rightarrow> string) \<Rightarrow> ('w, 'a) handler \<Rightarrow>
     ('w \<times> log_line list, 'a) handler" where
  "logged_at level render handler key outcome attempt = (\<lambda>(w, lines).
     case attempt w of
       (result, w') \<Rightarrow>
         (result, w', lines @
            [case result of
               Inr v \<Rightarrow> \<lparr>ll_level = level, ll_handler = handler, ll_key = key, ll_outcome = outcome v, ll_cause = None\<rparr>
             | Inl e \<Rightarrow> failure_line render handler key e]))"

definition traced ::
    "(handler_error \<Rightarrow> string) \<Rightarrow> string \<Rightarrow> string \<Rightarrow> ('a \<Rightarrow> string) \<Rightarrow> ('w, 'a) handler \<Rightarrow>
     ('w \<times> log_line list, 'a) handler" where
  "traced = logged_at Info"

definition traced_read ::
    "(handler_error \<Rightarrow> string) \<Rightarrow> string \<Rightarrow> string \<Rightarrow> ('a \<Rightarrow> string) \<Rightarrow> ('w, 'a) handler \<Rightarrow>
     ('w \<times> log_line list, 'a) handler" where
  "traced_read = logged_at Debug"

section \<open>An optional payload\<close>

text \<open>\<open>to_vec\<close> and \<open>from_slice\<close> are the JSON codec of the inner value or \<open>null\<close>.\<close>

definition optional_serialize :: "('a option \<Rightarrow> string + string) \<Rightarrow> 'a option \<Rightarrow> string + string" where
  "optional_serialize to_vec payload = to_vec payload"

definition optional_deserialize :: "(string \<Rightarrow> string + 'a option) \<Rightarrow> string \<Rightarrow> string + 'a option" where
  "optional_deserialize from_slice bytes = (if bytes = [] then Inr None else from_slice bytes)"

record input_metadata =
  im_accept :: string
  im_required :: bool

definition optional_metadata :: input_metadata where
  "optional_metadata = \<lparr>im_accept = ''*/*'', im_required = False\<rparr>"

section \<open>Settings\<close>

text \<open>A variable of the environment; what is not UTF-8 is read lossily.\<close>

datatype env_var = NotPresent | NotUnicode string | Present string

text \<open>\<open>env::var(name).ok()\<close>.\<close>

definition env_text :: "(string \<Rightarrow> env_var) \<Rightarrow> string \<Rightarrow> string option" where
  "env_text env name = (case env name of Present text \<Rightarrow> Some text | _ \<Rightarrow> None)"

record setting_warning =
  sw_variable :: string
  sw_value :: string
  sw_default :: u64

definition resolve_seconds :: "string \<Rightarrow> string option \<Rightarrow> u64 \<Rightarrow> u64 \<times> setting_warning list" where
  "resolve_seconds name raw fallback =
     (case raw of
        None \<Rightarrow> (fallback, [])
      | Some text \<Rightarrow>
          if text = [] then (fallback, [])
          else (case parse_u64 text of
                  Some seconds \<Rightarrow> (seconds, [])
                | None \<Rightarrow> (fallback, [\<lparr>sw_variable = name, sw_value = text, sw_default = fallback\<rparr>])))"

definition seconds_from_env :: "(string \<Rightarrow> env_var) \<Rightarrow> string \<Rightarrow> u64 \<Rightarrow> u64 \<times> setting_warning list" where
  "seconds_from_env env name fallback =
     resolve_seconds name
       (case env name of NotPresent \<Rightarrow> None | NotUnicode lossy \<Rightarrow> Some lossy | Present text \<Rightarrow> Some text) fallback"

section \<open>Sending until accepted\<close>

text \<open>The state of the loop: the wire, and how often it has slept.\<close>

definition accept_round ::
    "('g, 'b) network \<Rightarrow> ingress_client \<Rightarrow> string \<Rightarrow> ('g, 'b, 'm) wire_scheme \<times> nat \<Rightarrow>
     (('g, 'b, 'm) wire_scheme \<times> nat) + (('g, 'b, 'm) wire_scheme \<times> nat)" where
  "accept_round net C path = (\<lambda>(w, slept).
     case ingress_send_empty net C path w of
       (Inr _, w') \<Rightarrow> Inl (w', slept)
     | (Inl _, w') \<Rightarrow> Inr (w', Suc slept))"

definition send_until_accepted ::
    "('g, 'b) network \<Rightarrow> ingress_client \<Rightarrow> string \<Rightarrow> ('g, 'b, 'm) wire_scheme \<Rightarrow>
     (('g, 'b, 'm) wire_scheme \<times> nat) option" where
  "send_until_accepted net C path w = loop (accept_round net C path) (w, 0)"

section \<open>What they come to\<close>

text \<open>The store's kinds of step are these, read over the store's own classes.\<close>

fun step_kind_of :: "store_step_kind \<Rightarrow> step_kind" where
  "step_kind_of SkOrdinary = KindOrdinary"
| "step_kind_of SkBrief = KindBrief"
| "step_kind_of SkLastChance = KindLastChance"

fun failure_class_of :: "store_error_class \<Rightarrow> failure_class" where
  "failure_class_of ScRetryable = FcRetryable"
| "failure_class_of ScTerminal = FcTerminal"

definition retried :: "handler_error \<Rightarrow> bool" where
  "retried e \<longleftrightarrow> (case e of Retryable _ \<Rightarrow> True | Terminal _ \<Rightarrow> False)"

lemma store_policy_is_step_policy: "store_retry_policy kind = step_retry_policy (step_kind_of kind)"
  by (cases kind) (simp_all add: store_retry_policy_def step_retry_policy_def)

lemma store_reads_as_step:
  "retried (read_failure kind e) =
     retried (read_step_failure (step_kind_of kind) (failure_class_of (store_class e)) (display_store_error e))"
  by (cases kind; cases "store_class e")
    (simp_all add: read_failure_def read_step_failure_def retried_def retry_later_def)

text \<open>Only the kind whose budget ends gives up on the callee's word.\<close>

lemma gives_up_with_a_budget:
  "\<not> retried (read_step_failure kind class text) \<longleftrightarrow> class = FcTerminal \<and> rp_max_duration_ms (step_retry_policy kind) \<noteq> None"
  by (cases kind; cases "class") (simp_all add: read_step_failure_def retried_def step_retry_policy_def)

text \<open>The line is added and nothing else: neither the result nor the world is changed by it.\<close>

lemma logged_same:
  "logged_at level render handler key outcome attempt (w, lines) = (r, w', lines') \<longleftrightarrow>
     attempt w = (r, w') \<and>
     lines' = lines @ [case r of
         Inr v \<Rightarrow> \<lparr>ll_level = level, ll_handler = handler, ll_key = key, ll_outcome = outcome v, ll_cause = None\<rparr>
       | Inl e \<Rightarrow> failure_line render handler key e]"
  by (auto simp: logged_at_def split: prod.splits)

lemma logged_one_line:
  "logged_at level render handler key outcome attempt (w, lines) = (r, w', lines') \<Longrightarrow>
     \<exists>line. lines' = lines @ [line] \<and> ll_handler line = handler \<and> ll_key line = key \<and>
       (ll_level line = Warn \<longleftrightarrow> (\<exists>e. r = Inl e)) \<or> level = Warn"
  by (auto simp: logged_same failure_line_def split: sum.splits)

text \<open>A payload reads back, and no body at all is no payload.\<close>

lemma optional_round_trip:
  assumes "to_vec payload = Inr bytes" and "bytes \<noteq> []" and "from_slice bytes = Inr payload"
  shows "optional_serialize to_vec payload = Inr bytes \<and> optional_deserialize from_slice bytes = Inr payload"
  using assms by (simp add: optional_serialize_def optional_deserialize_def)

text \<open>A setting falls back silently only when it is unset or empty.\<close>

lemma resolve_seconds_cases:
  "case resolve_seconds name raw fallback of (seconds, warnings) \<Rightarrow>
     (seconds = fallback \<or> (\<exists>text. raw = Some text \<and> parse_u64 text = Some seconds)) \<and>
     (warnings \<noteq> [] \<longleftrightarrow> (\<exists>text. raw = Some text \<and> text \<noteq> [] \<and> parse_u64 text = None))"
  by (auto simp: resolve_seconds_def split: option.splits)

text \<open>
  The invocation is sent until it is accepted: every earlier send was not, and the loop slept once
  after each of them.
\<close>

fun sends_refused ::
    "('g, 'b) network \<Rightarrow> ingress_client \<Rightarrow> string \<Rightarrow> nat \<Rightarrow> ('g, 'b, 'm) wire_scheme \<Rightarrow> ('g, 'b, 'm) wire_scheme \<Rightarrow> bool" where
  "sends_refused net C path 0 w w' \<longleftrightarrow> w' = w"
| "sends_refused net C path (Suc n) w w' \<longleftrightarrow>
     (case ingress_send_empty net C path w of (r, w1) \<Rightarrow> (\<exists>e. r = Inl e) \<and> sends_refused net C path n w1 w')"

lemma accept_rounds:
  "rounds (accept_round net C path) n (w, slept) = Some (w', slept') \<longleftrightarrow>
     sends_refused net C path n w w' \<and> slept' = slept + n"
proof (induction n arbitrary: w slept)
  case 0
  show ?case by auto
next
  case (Suc n)
  obtain r w1 where "ingress_send_empty net C path w = (r, w1)" by fastforce
  then show ?case using Suc.IH [of w1 "Suc slept"] by (cases r) (auto simp: accept_round_def)
qed

lemma accept_round_Inl:
  "accept_round net C path (w1, m) = Inl (w', n) \<longleftrightarrow> ingress_send_empty net C path w1 = (Inr (), w') \<and> m = n"
  by (auto simp: accept_round_def split: prod.splits sum.splits)

lemma send_until_accepted_iff:
  "send_until_accepted net C path w = Some (w', n) \<longleftrightarrow>
     (\<exists>w1. sends_refused net C path n w w1 \<and> ingress_send_empty net C path w1 = (Inr (), w'))"
proof -
  have "send_until_accepted net C path w = Some (w', n) \<longleftrightarrow>
      (\<exists>k s. rounds (accept_round net C path) k (w, 0) = Some s \<and> accept_round net C path s = Inl (w', n))"
    by (simp add: send_until_accepted_def loop_iff)
  also have "\<dots> \<longleftrightarrow> (\<exists>w1. sends_refused net C path n w w1 \<and> ingress_send_empty net C path w1 = (Inr (), w'))"
    by (auto simp: accept_rounds accept_round_Inl)
  finally show ?thesis .
qed

end
