(* ===== verification/Startup.thy ===== *)
theory Startup
  imports Restate_Ext Ingress Installation_Sync
begin

text \<open>
  The service's own startup (\<^verbatim>\<open>apps/restate-service/src/main.rs\<close>): its settings from the environment,
  what it says it can do, and the request that arms the installation scheduler, sent until Restate
  accepts it. Against Restate as it may be met while it comes up, the scheduler ends up with exactly
  one tick, however many of the requests took effect.
\<close>

section \<open>Settings\<close>

definition DEFAULT_DEBOUNCE_SECONDS :: u64 where "DEFAULT_DEBOUNCE_SECONDS = 20"
definition DEFAULT_RECONCILE_SECONDS :: u64 where "DEFAULT_RECONCILE_SECONDS = 60 * 60"

text \<open>\<open>env_seconds\<close> of the service reads a variable as \<open>seconds_from_env\<close> does.\<close>

definition env_seconds :: "(string \<Rightarrow> env_var) \<Rightarrow> string \<Rightarrow> u64 \<Rightarrow> u64 \<times> setting_warning list" where
  "env_seconds = seconds_from_env"

definition service_timing :: "(string \<Rightarrow> env_var) \<Rightarrow> (u64 \<times> u64) \<times> setting_warning list" where
  "service_timing env =
     (let (debounce, w1) = env_seconds env ''SYNC_DEBOUNCE_SECONDS'' DEFAULT_DEBOUNCE_SECONDS;
          (interval, w2) = env_seconds env ''RECONCILE_INTERVAL_SECONDS'' DEFAULT_RECONCILE_SECONDS
      in ((debounce, interval), w1 @ w2))"

definition announce_capabilities :: "capabilities \<Rightarrow> string" where
  "announce_capabilities capabilities =
     (if cap_rebase_enabled capabilities
      then ''rebase enabled: @dependabot commands are posted as the configured user''
      else ''rebase disabled: GITHUB_USER_PAT is not set, so @dependabot commands are rejected; merge and update branch run as the App'')"

section \<open>Arming the scheduler\<close>

definition env_filled :: "(string \<Rightarrow> env_var) \<Rightarrow> string \<Rightarrow> string option" where
  "env_filled env name = (case env_text env name of Some text \<Rightarrow> if text = [] then None else Some text | None \<Rightarrow> None)"

definition startup_ingress :: "(string \<Rightarrow> env_var) \<Rightarrow> string" where
  "startup_ingress env =
     trim_end_matches (\<lambda>c. c = CHR ''/'')
       (case env_text env ''RESTATE_INGRESS_URL'' of None \<Rightarrow> ''http://127.0.0.1:8080'' | Some url \<Rightarrow> url)"

definition startup_api_key :: "(string \<Rightarrow> env_var) \<Rightarrow> string option" where
  "startup_api_key env =
     (case env_filled env ''RESTATE_AUTH_TOKEN'' of
        Some token \<Rightarrow> Some token | None \<Rightarrow> env_filled env ''RESTATE_API_KEY'')"

definition scheduler_start_request :: "string \<Rightarrow> string option \<Rightarrow> 'b ingress_request" where
  "scheduler_start_request url api_key =
     \<lparr>iq_url = url, iq_bearer = api_key, iq_idempotency = None, iq_body = None\<rparr>"

text \<open>One turn of the loop: a sleep of two seconds, then the request.\<close>

definition startup_round ::
    "('g, 'b) network \<Rightarrow> 'b ingress_request \<Rightarrow> ('g, 'b, 'm) wire_scheme \<times> nat \<Rightarrow>
     (('g, 'b, 'm) wire_scheme \<times> nat) + (('g, 'b, 'm) wire_scheme \<times> nat)" where
  "startup_round net request = (\<lambda>(w, slept).
     case transmit net request w of
       (Inr response, w') \<Rightarrow> if answered_well response then Inl (w', Suc slept) else Inr (w', Suc slept)
     | (Inl _, w') \<Rightarrow> Inr (w', Suc slept))"

text \<open>\<open>build\<close> stands for the HTTP client's builder; without a client nothing is sent.\<close>

definition start_scheduler ::
    "(string \<Rightarrow> env_var) \<Rightarrow> (nat \<Rightarrow> nat \<Rightarrow> string + unit) \<Rightarrow> ('g, 'b) network \<Rightarrow> ('g, 'b, 'm) wire_scheme \<Rightarrow>
     (('g, 'b, 'm) wire_scheme \<times> nat) option" where
  "start_scheduler env build net w =
     (case build 5 15 of
        Inl _ \<Rightarrow> Some (w, 0)
      | Inr _ \<Rightarrow>
          loop (startup_round net
            (scheduler_start_request (startup_ingress env @ ''/restate/send/SchedulerIngress/start'') (startup_api_key env)))
            (w, 0))"

section \<open>Restate as it comes up\<close>

text \<open>
  What a request meets: the ticks Restate delivers to the scheduler before it, whether it reaches
  \<open>SchedulerIngress\<close>, and what comes back of it, which may be nothing though it did.
\<close>

record meeting =
  mt_ticks :: "scheduler_tick list"
  mt_reaches :: bool
  mt_answer :: "string + ingress_response"

record arming =
  ar_chain :: chain
  ar_met :: nat

type_synonym sweeping = "unit \<Rightarrow> handler_error + nat"

definition deliver_tick :: "sweeping \<Rightarrow> scheduler_tick \<Rightarrow> chain \<Rightarrow> chain" where
  "deliver_tick sweep t c =
     (if t \<in> set (ch_ticks c)
      then fst (snd (run_scheduler_tick (chain_effects sweep) (ch_state c) t
        (c\<lparr>ch_ticks := remove1 t (ch_ticks c)\<rparr>, ())))
      else c)"

text \<open>What \<open>SchedulerIngress\<close> sends reaches the installation's object.\<close>

definition deliver_start :: "sweeping \<Rightarrow> u64 \<Rightarrow> invocation \<Rightarrow> chain \<Rightarrow> chain" where
  "deliver_start sweep installation_id invoked c =
     (if invoked = InvokeInstallation (show_u64 installation_id) LaStart
      then fst (snd (run_start (chain_effects sweep) (ch_state c) (c, ()))) else c)"

definition starts_scheduler :: "'b ingress_request \<Rightarrow> bool" where
  "starts_scheduler request \<longleftrightarrow>
     strip_suffix (iq_url request) ''/restate/send/SchedulerIngress/start'' \<noteq> None \<and> iq_body request = None"

definition restate_coming_up ::
    "sweeping \<Rightarrow> u64 \<Rightarrow> (nat \<Rightarrow> meeting) \<Rightarrow> (arming, 'b) network" where
  "restate_coming_up sweep installation_id script request a =
     (let m = script (ar_met a);
          c1 = fold (deliver_tick sweep) (mt_ticks m) (ar_chain a);
          c2 = (if mt_reaches m \<and> starts_scheduler request
                then fold (deliver_start sweep installation_id) (snd (scheduler_start installation_id [])) c1 else c1)
      in (mt_answer m, \<lparr>ar_chain = c2, ar_met = Suc (ar_met a)\<rparr>))"

definition meeting_accepts :: "meeting \<Rightarrow> bool" where
  "meeting_accepts m \<longleftrightarrow> (case mt_answer m of Inl _ \<Rightarrow> False | Inr response \<Rightarrow> answered_well response)"

text \<open>Restate answers that it accepted only what it has.\<close>

definition honest :: "(nat \<Rightarrow> meeting) \<Rightarrow> bool" where
  "honest script \<longleftrightarrow> (\<forall>n. meeting_accepts (script n) \<longrightarrow> mt_reaches (script n))"

section \<open>The chain while Restate comes up\<close>

text \<open>The chain is sound, and unless it is armed already there is a generation left to arm it with.\<close>

definition can_arm :: "chain \<Rightarrow> bool" where
  "can_arm c \<longleftrightarrow> chain_ok c \<and> (sc_tick_pending (ch_state c) \<or> checked_add (sc_generation (ch_state c)) 1 \<noteq> None)"

definition is_armed :: "chain \<Rightarrow> bool" where
  "is_armed c \<longleftrightarrow> chain_ok c \<and> sc_tick_pending (ch_state c)"

lemma is_armed_ticks:
  "is_armed c \<Longrightarrow> sc_started (ch_state c) \<and> count_list (ch_ticks c) (Some (sc_generation (ch_state c))) = 1"
  by (auto simp: is_armed_def chain_ok_def live_ticks_def)

lemma armed_can_arm: "is_armed c \<Longrightarrow> can_arm c"
  by (simp add: is_armed_def can_arm_def)

lemma run_start_chain:
  "fst (snd (run_start (chain_effects sweep) st (c, w))) =
     (case scheduler_start_transition st of
        Inr (Some nxt) \<Rightarrow> c\<lparr>ch_state := nxt, ch_ticks := ch_ticks c @ [Some (sc_generation nxt)]\<rparr> | _ \<Rightarrow> c)"
  by (simp add: run_start_def andthen_def chain_effects_def lift_def put_def ok_def split: sum.split option.split)

lemma run_tick_chain:
  "fst (snd (run_scheduler_tick (chain_effects sweep) st t (c, w))) =
     (case scheduler_tick_transition st t of
        Inr (Some nxt) \<Rightarrow> c\<lparr>ch_state := nxt, ch_ticks := ch_ticks c @ [Some (sc_generation nxt)]\<rparr> | _ \<Rightarrow> c)"
  by (auto simp: run_scheduler_tick_def andthen_def chain_effects_def lift_def put_def ok_def
      split: sum.split option.split prod.splits)

lemma start_keeps_ok: "chain_ok c \<Longrightarrow> chain_ok (fst (snd (run_start (chain_effects sweep) (ch_state c) (c, ()))))"
  using chain_step_ok [OF chain_step.starts [of sweep c "()"]] by simp

lemma deliver_tick_ok: "chain_ok c \<Longrightarrow> chain_ok (deliver_tick sweep t c)"
  using chain_step_ok [OF chain_step.ticks [of t c sweep "()"]] by (simp add: deliver_tick_def)

text \<open>A start arms the chain whatever it finds.\<close>

lemma start_arms:
  assumes "can_arm c"
  shows "is_armed (fst (snd (run_start (chain_effects sweep) (ch_state c) (c, ()))))"
proof -
  let ?st = "ch_state c"
  have ok: "chain_ok c" using assms by (simp add: can_arm_def)
  have "sc_tick_pending (ch_state (fst (snd (run_start (chain_effects sweep) ?st (c, ())))))"
  proof (cases "sc_started ?st \<and> sc_tick_pending ?st")
    case True
    then show ?thesis by (simp add: run_start_chain scheduler_start_transition_def)
  next
    case False
    with ok have "\<not> sc_tick_pending ?st" by (auto simp: chain_ok_def)
    with assms obtain g where "checked_add (sc_generation ?st) 1 = Some g" by (auto simp: can_arm_def)
    with False show ?thesis
      by (auto simp: run_start_chain scheduler_start_transition_def next_scheduler_generation_def bind_result_def)
  qed
  with start_keeps_ok [OF ok] show ?thesis by (simp add: is_armed_def)
qed

lemma deliver_tick_state:
  "ch_state (deliver_tick sweep t c) = ch_state c \<or> sc_tick_pending (ch_state (deliver_tick sweep t c))"
  by (auto simp: deliver_tick_def run_tick_chain scheduler_tick_transition_def bind_result_def
      split: sum.split option.split if_splits)

lemma deliver_ticks_can_arm: "can_arm c \<Longrightarrow> can_arm (fold (deliver_tick sweep) ts c)"
proof (induction ts arbitrary: c)
  case Nil
  then show ?case by simp
next
  case (Cons t ts)
  have "can_arm (deliver_tick sweep t c)"
    using Cons.prems deliver_tick_ok [of c sweep t] deliver_tick_state [of sweep t c] by (auto simp: can_arm_def)
  from Cons.IH [OF this] show ?case by simp
qed

lemma strip_suffix_append: "strip_suffix (s @ p) p = Some s"
  by (simp add: strip_suffix_def strip_prefix_def starts_with_def)

lemma startup_starts:
  "starts_scheduler (scheduler_start_request (base @ ''/restate/send/SchedulerIngress/start'') key)"
  by (simp add: starts_scheduler_def scheduler_start_request_def strip_suffix_append)

text \<open>One request: the chain can still be armed, and is once the request has got through.\<close>

lemma meets:
  assumes "can_arm (ar_chain a)" and "starts_scheduler request"
  shows "can_arm (ar_chain (snd (restate_coming_up sweep i script request a)))"
    and "mt_reaches (script (ar_met a)) \<Longrightarrow> is_armed (ar_chain (snd (restate_coming_up sweep i script request a)))"
proof -
  let ?m = "script (ar_met a)"
  let ?c = "fold (deliver_tick sweep) (mt_ticks ?m) (ar_chain a)"
  have c: "can_arm ?c" using deliver_ticks_can_arm [OF assms(1)] .
  have sent: "snd (scheduler_start i []) = [InvokeInstallation (show_u64 i) LaStart]"
    by (simp add: scheduler_start_def put_def)
  have armed: "is_armed (ar_chain (snd (restate_coming_up sweep i script request a)))" if "mt_reaches ?m"
    using start_arms [OF c, of sweep] that assms(2)
    by (simp add: restate_coming_up_def Let_def sent deliver_start_def)
  then show "mt_reaches ?m \<Longrightarrow> is_armed (ar_chain (snd (restate_coming_up sweep i script request a)))" .
  show "can_arm (ar_chain (snd (restate_coming_up sweep i script request a)))"
    using armed armed_can_arm c by (cases "mt_reaches ?m") (auto simp: restate_coming_up_def Let_def)
qed

lemma coming_up_met: "ar_met (snd (restate_coming_up sweep i script request a)) = Suc (ar_met a)"
  and coming_up_answer: "fst (restate_coming_up sweep i script request a) = mt_answer (script (ar_met a))"
  by (simp_all add: restate_coming_up_def Let_def)

section \<open>Startup arms the scheduler\<close>

lemma startup_round_meets:
  assumes "can_arm (ar_chain (wi_remote w))" and "starts_scheduler request"
  obtains w' where
    "startup_round (restate_coming_up sweep i script) request (w, n) =
       (if meeting_accepts (script (ar_met (wi_remote w))) then Inl (w', Suc n) else Inr (w', Suc n))"
    and "can_arm (ar_chain (wi_remote w'))" and "ar_met (wi_remote w') = Suc (ar_met (wi_remote w))"
    and "wi_sent w' = wi_sent w @ [request]"
    and "mt_reaches (script (ar_met (wi_remote w))) \<Longrightarrow> is_armed (ar_chain (wi_remote w'))"
proof -
  let ?a = "snd (restate_coming_up sweep i script request (wi_remote w))"
  let ?w = "w\<lparr>wi_remote := ?a, wi_sent := wi_sent w @ [request]\<rparr>"
  have "transmit (restate_coming_up sweep i script) request w =
      (case mt_answer (script (ar_met (wi_remote w))) of Inl e \<Rightarrow> Inl (IeTransport e) | Inr response \<Rightarrow> Inr response, ?w)"
    using coming_up_answer [of sweep i script request "wi_remote w"]
    by (simp add: transmit_def split_def)
  then have "startup_round (restate_coming_up sweep i script) request (w, n) =
      (if meeting_accepts (script (ar_met (wi_remote w))) then Inl (?w, Suc n) else Inr (?w, Suc n))"
    by (simp add: startup_round_def meeting_accepts_def split: sum.split)
  from that [OF this] meets [OF assms, where sweep = sweep and i = i and script = script] coming_up_met [of sweep i script request "wi_remote w"]
  show thesis by simp
qed

lemma startup_rounds:
  assumes "can_arm (ar_chain (wi_remote w))" and "starts_scheduler request"
    and "\<forall>k<n. \<not> meeting_accepts (script (ar_met (wi_remote w) + k))"
  shows "\<exists>w'. rounds (startup_round (restate_coming_up sweep i script) request) n (w, s) = Some (w', s + n) \<and>
    can_arm (ar_chain (wi_remote w')) \<and> ar_met (wi_remote w') = ar_met (wi_remote w) + n \<and>
    wi_sent w' = wi_sent w @ replicate n request"
  using assms(1,3)
proof (induction n arbitrary: w s)
  case 0
  then show ?case by simp
next
  case (Suc n)
  obtain w1 where w1: "startup_round (restate_coming_up sweep i script) request (w, s) =
       (if meeting_accepts (script (ar_met (wi_remote w))) then Inl (w1, Suc s) else Inr (w1, Suc s))"
    "can_arm (ar_chain (wi_remote w1))" "ar_met (wi_remote w1) = Suc (ar_met (wi_remote w))"
    "wi_sent w1 = wi_sent w @ [request]"
    using startup_round_meets [OF Suc.prems(1) assms(2)] by metis
  have "\<not> meeting_accepts (script (ar_met (wi_remote w)))" using Suc.prems(2) [rule_format, of 0] by simp
  moreover have "\<forall>k<n. \<not> meeting_accepts (script (ar_met (wi_remote w1) + k))"
  proof (intro allI impI)
    fix k assume "k < n"
    then show "\<not> meeting_accepts (script (ar_met (wi_remote w1) + k))"
      using Suc.prems(2) [rule_format, of "Suc k"] by (simp add: w1(3))
  qed
  ultimately show ?case
    using w1 Suc.IH [OF w1(2), of "Suc s"] by (simp add: replicate_append_same)
qed

definition restate_to_meet :: "chain \<Rightarrow> (arming, 'b) wire" where
  "restate_to_meet c = \<lparr>wi_remote = \<lparr>ar_chain = c, ar_met = 0\<rparr>, wi_sent = []\<rparr>"

text \<open>
  C31: whatever Restate does with the requests while it comes up, delivering ticks in between, the
  startup sends the request until the first that is accepted and no more, and then the scheduler is
  started with exactly one tick outstanding, however many of the requests took effect. It goes on
  for ever exactly when none is accepted.
\<close>

theorem startup_arms_the_scheduler:
  fixes script :: "nat \<Rightarrow> meeting"
  assumes "honest script" and "can_arm c" and "build 5 15 = Inr ()"
  shows "case start_scheduler env build (restate_coming_up sweep i script) (restate_to_meet c :: (arming, 'b) wire) of
      None \<Rightarrow> \<nexists>n. meeting_accepts (script n)
    | Some (w, slept) \<Rightarrow>
        meeting_accepts (script (slept - 1)) \<and> (\<forall>k < slept - 1. \<not> meeting_accepts (script k)) \<and>
        length (wi_sent w) = slept \<and> sc_started (ch_state (ar_chain (wi_remote w))) \<and>
        count_list (ch_ticks (ar_chain (wi_remote w)))
          (Some (sc_generation (ch_state (ar_chain (wi_remote w))))) = 1"
proof -
  let ?request = "scheduler_start_request (startup_ingress env @ ''/restate/send/SchedulerIngress/start'')
    (startup_api_key env) :: 'b ingress_request"
  let ?step = "startup_round (restate_coming_up sweep i script) ?request"
  let ?w = "restate_to_meet c :: (arming, 'b) wire"
  have start: "start_scheduler env build (restate_coming_up sweep i script) ?w = loop ?step (?w, 0)"
    using assms(3) by (simp add: start_scheduler_def)
  have can: "can_arm (ar_chain (wi_remote ?w))" and met: "ar_met (wi_remote ?w) = 0" "wi_sent ?w = []"
    using assms(2) by (simp_all add: restate_to_meet_def)
  note request = startup_starts [of "startup_ingress env" "startup_api_key env"]
  show ?thesis
  proof (cases "\<exists>n. meeting_accepts (script n)")
    case False
    have "loop ?step (?w, 0) \<noteq> Some r" for r
    proof
      assume "loop ?step (?w, 0) = Some r"
      then obtain n s where s: "rounds ?step n (?w, 0) = Some s" "?step s = Inl r" by (auto simp: loop_iff)
      obtain w' where w': "s = (w', n)" "can_arm (ar_chain (wi_remote w'))"
        using startup_rounds [OF can request, of n script sweep i 0] False s(1) by auto
      obtain w1 where "?step (w', n) = Inr (w1, Suc n)"
        using startup_round_meets [OF w'(2) request, of sweep i script n] False by metis
      with s(2) w'(1) show False by simp
    qed
    then have "loop ?step (?w, 0) = None" by fastforce
    with False show ?thesis by (simp only: start option.case) blast
  next
    case True
    define n where "n = (LEAST n. meeting_accepts (script n))"
    have n: "meeting_accepts (script n)" "\<forall>k<n. \<not> meeting_accepts (script k)"
      using True LeastI_ex [of "\<lambda>n. meeting_accepts (script n)"] not_less_Least by (auto simp: n_def)
    obtain w' where w': "rounds ?step n (?w, 0) = Some (w', n)" "can_arm (ar_chain (wi_remote w'))"
        "ar_met (wi_remote w') = n" "wi_sent w' = replicate n ?request"
      using startup_rounds [OF can request, of n script sweep i 0] n(2) met by auto
    obtain w1 where w1: "?step (w', n) = Inl (w1, Suc n)" "wi_sent w1 = wi_sent w' @ [?request]"
        "is_armed (ar_chain (wi_remote w1))"
      using startup_round_meets [OF w'(2) request, of sweep i script n] n(1) w'(3) assms(1)
      unfolding honest_def by metis
    have "loop ?step (?w, 0) = Some (w1, Suc n)" using rounds_loop [OF w'(1) w1(1)] .
    then show ?thesis using start n w1 w'(4) is_armed_ticks [OF w1(3)] by simp
  qed
qed

text \<open>A first request that takes effect with its answer lost, and a second that is accepted.\<close>

definition lost_then_accepted :: "nat \<Rightarrow> meeting" where
  "lost_then_accepted n =
     (if n = 0 then \<lparr>mt_ticks = [], mt_reaches = True, mt_answer = Inl ''connection reset''\<rparr>
      else \<lparr>mt_ticks = [None], mt_reaches = True, mt_answer = Inr \<lparr>is_status = 202, is_text = Inr []\<rparr>\<rparr>)"

definition fresh_chain :: chain where
  "fresh_chain = \<lparr>ch_state = default_scheduler, ch_ticks = [None]\<rparr>"

theorem startup_arms_the_scheduler_witness:
  "\<exists>w slept. start_scheduler (\<lambda>_. NotPresent) (\<lambda>_ _. Inr ()) (restate_coming_up (\<lambda>_. Inr 0) 5 lost_then_accepted)
     (restate_to_meet fresh_chain :: (arming, unit) wire) = Some (w, slept) \<and> slept \<noteq> 1 \<and>
     sc_started (ch_state (ar_chain (wi_remote w)))"
proof -
  have no: "\<not> meeting_accepts (lost_then_accepted 0)" and yes: "meeting_accepts (lost_then_accepted 1)"
    by (simp_all add: meeting_accepts_def lost_then_accepted_def answered_well_def)
  have "honest lost_then_accepted" by (simp add: honest_def lost_then_accepted_def)
  moreover have "can_arm fresh_chain"
    by (simp add: can_arm_def fresh_chain_def chain_ok_initial checked_add_def default_scheduler_def)
      (simp add: chain_ok_def live_ticks_def)
  ultimately have "case start_scheduler (\<lambda>_. NotPresent) (\<lambda>_ _. Inr ())
      (restate_coming_up (\<lambda>_. Inr 0) 5 lost_then_accepted) (restate_to_meet fresh_chain :: (arming, unit) wire) of
      None \<Rightarrow> \<nexists>n. meeting_accepts (lost_then_accepted n)
    | Some (w, slept) \<Rightarrow>
        meeting_accepts (lost_then_accepted (slept - 1)) \<and> (\<forall>k < slept - 1. \<not> meeting_accepts (lost_then_accepted k)) \<and>
        length (wi_sent w) = slept \<and> sc_started (ch_state (ar_chain (wi_remote w))) \<and>
        count_list (ch_ticks (ar_chain (wi_remote w))) (Some (sc_generation (ch_state (ar_chain (wi_remote w))))) = 1"
    by (rule startup_arms_the_scheduler) simp
  with no yes show ?thesis by (cases "start_scheduler (\<lambda>_. NotPresent) (\<lambda>_ _. Inr ())
      (restate_coming_up (\<lambda>_. Inr 0) 5 lost_then_accepted) (restate_to_meet fresh_chain :: (arming, unit) wire)") auto
qed

end
