(* ===== verification/Service_Log.thy ===== *)
theory Service_Log
  imports Restate_Ext Bulk_Action Installation_Sync Ingress
begin

text \<open>
  The handlers as Restate registers them: each runs its operation and logs one line of how it
  ended (\<^verbatim>\<open>apps/restate-service/src/handler.rs\<close> and the objects' \<open>#[handler]\<close> methods). How the SDK
  renders a failure is a parameter; the wall time a line carries is not modelled.
\<close>

section \<open>Outcomes\<close>

text \<open>The service's own \<open>traced\<close> and \<open>traced_read\<close> do what those of the library do.\<close>

definition service_traced ::
    "(handler_error \<Rightarrow> string) \<Rightarrow> string \<Rightarrow> string \<Rightarrow> ('a \<Rightarrow> string) \<Rightarrow> ('w, 'a) handler \<Rightarrow>
     ('w \<times> log_line list, 'a) handler" where
  "service_traced = logged_at Info"

definition service_traced_read ::
    "(handler_error \<Rightarrow> string) \<Rightarrow> string \<Rightarrow> string \<Rightarrow> ('a \<Rightarrow> string) \<Rightarrow> ('w, 'a) handler \<Rightarrow>
     ('w \<times> log_line list, 'a) handler" where
  "service_traced_read = logged_at Debug"

fun action_outcome_text :: "action_outcome \<Rightarrow> string" where
  "action_outcome_text (Succeeded _ _) = ''succeeded''"
| "action_outcome_text (Rejected reason) = ''rejected: '' @ display_reject reason"

fun closed_outcome_text :: "closed_outcome \<Rightarrow> string" where
  "closed_outcome_text Retired = ''retired''"
| "closed_outcome_text Kept = ''kept; synced since the sweep began''"

fun sync_outcome_text :: "sync_outcome \<Rightarrow> string" where
  "sync_outcome_text SyDebounced = ''debounced''"
| "sync_outcome_text (SySynced head_sha) = ''synced at '' @ short_sha head_sha"
| "sync_outcome_text SyDeleted = ''deleted; no longer an open Dependabot pull request''"

fun start_outcome_text :: "start_outcome \<Rightarrow> string" where
  "start_outcome_text AlreadyArmed = ''already armed''"
| "start_outcome_text (Armed generation) = ''armed generation '' @ show_u64 generation"

fun tick_outcome_text :: "tick_outcome \<Rightarrow> string" where
  "tick_outcome_text Dropped = ''dropped''"
| "tick_outcome_text (Swept repositories) = ''swept '' @ show_nat repositories @ '' repositories''"

section \<open>The handlers\<close>

definition without_outcome :: "('w, 'a) handler \<Rightarrow> ('w, unit) handler" where
  "without_outcome m = andthen m (\<lambda>_. ok ())"

definition phrased :: "('w, 'a) handler \<Rightarrow> ('a \<Rightarrow> string) \<Rightarrow> ('w, string) handler" where
  "phrased m say = andthen m (\<lambda>v. ok (say v))"

definition pull_request_sync ::
    "(handler_error \<Rightarrow> string) \<Rightarrow> 'w pr_effects \<Rightarrow> sync_request \<Rightarrow> u64 \<Rightarrow> ('w \<times> log_line list, unit) handler" where
  "pull_request_sync render E request debounce =
     without_outcome (service_traced render ''PullRequest/sync'' (fe_key E) sync_outcome_text (run_sync E request debounce))"

definition pull_request_closed ::
    "(handler_error \<Rightarrow> string) \<Rightarrow> 'w pr_effects \<Rightarrow> closed_request \<Rightarrow> ('w \<times> log_line list, unit) handler" where
  "pull_request_closed render E request =
     without_outcome (service_traced render ''PullRequest/closed'' (fe_key E) closed_outcome_text (run_closed E request))"

definition pull_request_merge ::
    "(handler_error \<Rightarrow> string) \<Rightarrow> 'w pr_effects \<Rightarrow> merge_request \<Rightarrow> ('w \<times> log_line list, action_outcome) handler" where
  "pull_request_merge render E request =
     service_traced render ''PullRequest/merge'' (fe_key E) action_outcome_text (run_merge E request)"

definition pull_request_command ::
    "(handler_error \<Rightarrow> string) \<Rightarrow> 'w pr_effects \<Rightarrow> command_request \<Rightarrow> ('w \<times> log_line list, action_outcome) handler" where
  "pull_request_command render E request =
     service_traced render ''PullRequest/command'' (fe_key E) action_outcome_text (run_command E request)"

definition pull_request_update_branch ::
    "(handler_error \<Rightarrow> string) \<Rightarrow> 'w pr_effects \<Rightarrow> update_branch_request \<Rightarrow>
     ('w \<times> log_line list, action_outcome) handler" where
  "pull_request_update_branch render E request =
     service_traced render ''PullRequest/update_branch'' (fe_key E) action_outcome_text (run_update_branch E request)"

definition pull_request_read_status ::
    "(handler_error \<Rightarrow> string) \<Rightarrow> 'w pr_effects \<Rightarrow> ('w \<times> log_line list, pr_state option) handler" where
  "pull_request_read_status render E =
     service_traced_read render ''PullRequest/status'' (fe_key E) option_outcome (fe_state E)"

definition repo_reconcile ::
    "(handler_error \<Rightarrow> string) \<Rightarrow> string \<Rightarrow> 'w reconcile_effects \<Rightarrow> 'w retirement_effects \<Rightarrow>
     ('w \<times> log_line list, unit) handler" where
  "repo_reconcile render key E R =
     without_outcome (service_traced render ''RepoSync/reconcile'' key string_outcome
       (phrased (run_repo_reconcile E R) (\<lambda>n. ''synced '' @ show_nat n @ '' pull requests'')))"

definition repo_sync_sha ::
    "(handler_error \<Rightarrow> string) \<Rightarrow> string \<Rightarrow> 'w reconcile_effects \<Rightarrow> sync_sha_request \<Rightarrow>
     ('w \<times> log_line list, unit) handler" where
  "repo_sync_sha render key E request =
     without_outcome (service_traced render ''RepoSync/sync_sha'' key string_outcome
       (phrased (run_sync_sha E request)
         (\<lambda>told. ''fanned out to '' @ show_nat told @ '' pull requests at '' @ short_sha (ss_sha request))))"

definition installation_start ::
    "(handler_error \<Rightarrow> string) \<Rightarrow> string \<Rightarrow> 'w tick_effects \<Rightarrow> scheduler_state \<Rightarrow>
     ('w \<times> log_line list, unit) handler" where
  "installation_start render key T st =
     without_outcome (service_traced render ''InstallationSync/start'' key start_outcome_text (run_start T st))"

definition installation_tick ::
    "(handler_error \<Rightarrow> string) \<Rightarrow> string \<Rightarrow> 'w tick_effects \<Rightarrow> scheduler_state \<Rightarrow> scheduler_tick \<Rightarrow>
     ('w \<times> log_line list, unit) handler" where
  "installation_tick render key T st incoming =
     without_outcome (service_traced render ''InstallationSync/tick'' key tick_outcome_text
       (run_scheduler_tick T st incoming))"

definition installation_sync_now ::
    "(handler_error \<Rightarrow> string) \<Rightarrow> string \<Rightarrow> 'w sync_effects \<Rightarrow> 'w retirement_effects \<Rightarrow>
     ('w \<times> log_line list, unit) handler" where
  "installation_sync_now render key E R =
     without_outcome (service_traced render ''InstallationSync/sync_now'' key string_outcome
       (phrased (run_installation_sync E R) (\<lambda>n. ''fanned out to '' @ show_nat n @ '' repositories'')))"

definition installation_pause ::
    "(handler_error \<Rightarrow> string) \<Rightarrow> string \<Rightarrow> 'w tick_effects \<Rightarrow> scheduler_state \<Rightarrow>
     ('w \<times> log_line list, unit) handler" where
  "installation_pause render key T st =
     service_traced render ''InstallationSync/pause'' key unit_outcome (run_pause T st)"

definition installation_purge ::
    "(handler_error \<Rightarrow> string) \<Rightarrow> string \<Rightarrow> 'w tick_effects \<Rightarrow> 'w sync_effects \<Rightarrow> 'w retirement_effects \<Rightarrow>
     scheduler_state \<Rightarrow> ('w \<times> log_line list, unit) handler" where
  "installation_purge render key T E R st =
     without_outcome (service_traced render ''InstallationSync/purge'' key string_outcome
       (phrased (run_purge T E R key st) (\<lambda>n. ''retired '' @ show_nat n @ '' pull requests'')))"

definition bulk_action_run ::
    "(handler_error \<Rightarrow> string) \<Rightarrow> (string \<Rightarrow> nat option) \<Rightarrow> 'w bulk_effects \<Rightarrow> u64 \<Rightarrow> bulk_request \<Rightarrow>
     (batch_progress \<Rightarrow> 'w \<Rightarrow> 'w) \<Rightarrow> ('w \<times> log_line list, batch_progress) handler" where
  "bulk_action_run render uuid_version E installation_id request publish =
     service_traced render ''BulkAction/run'' (be_batch_id E) progress_outcome
       (run_workflow uuid_version E installation_id request publish)"

definition webhook_dispatch ::
    "(handler_error \<Rightarrow> string) \<Rightarrow> u64 \<Rightarrow> webhook_event \<Rightarrow> (invocation list \<times> log_line list, unit) handler" where
  "webhook_dispatch render installation_id event =
     (let delivery = delivery_as_str (we_event event) @ ''.'' @
            (case we_action event of None \<Rightarrow> ''-'' | Some action \<Rightarrow> action)
      in without_outcome (service_traced render ''WebhookIngress/dispatch'' delivery route_outcome
           (dispatch installation_id event)))"

section \<open>A handler is its operation and one line\<close>

text \<open>
  Registering an operation adds the line and changes nothing else: the handler leaves the world as
  the operation does and ends as it does, and the line says which.
\<close>

lemma without_outcome_eq:
  "without_outcome m s = (case m s of (r, s') \<Rightarrow> (case r of Inl e \<Rightarrow> Inl e | Inr _ \<Rightarrow> Inr (), s'))"
  by (auto simp: without_outcome_def andthen_def ok_def split: prod.split sum.split)

lemma phrased_eq:
  "phrased m say s = (case m s of (r, s') \<Rightarrow> (case r of Inl e \<Rightarrow> Inl e | Inr v \<Rightarrow> Inr (say v), s'))"
  by (auto simp: phrased_def andthen_def ok_def split: prod.split sum.split)

lemmas handler_defs =
  pull_request_sync_def pull_request_closed_def pull_request_merge_def pull_request_command_def
  pull_request_update_branch_def pull_request_read_status_def repo_reconcile_def repo_sync_sha_def
  installation_start_def installation_tick_def installation_sync_now_def installation_pause_def
  installation_purge_def bulk_action_run_def service_traced_def service_traced_read_def

lemma sync_handler_line:
  "run_sync E request debounce w = (r, w') \<Longrightarrow>
     pull_request_sync render E request debounce (w, lines) =
       (map_sum id (\<lambda>_. ()) r, w', lines @
         [case r of
            Inr v \<Rightarrow> \<lparr>ll_level = Info, ll_handler = ''PullRequest/sync'', ll_key = fe_key E,
              ll_outcome = sync_outcome_text v, ll_cause = None\<rparr>
          | Inl e \<Rightarrow> failure_line render ''PullRequest/sync'' (fe_key E) e])"
  by (cases r) (simp_all add: handler_defs without_outcome_eq logged_at_def)

text \<open>The line of a closed report tells what became of the pull request.\<close>

lemma closed_line_tells:
  assumes "pull_request_closed render E request (w, lines) = (Inr (), w', lines')"
  shows "\<exists>v. run_closed E request w = (Inr v, w') \<and> ll_outcome (last lines') = closed_outcome_text v \<and>
    (ll_outcome (last lines') = ''retired'' \<longleftrightarrow> v = Retired)"
proof -
  obtain r w1 where run: "run_closed E request w = (r, w1)" by fastforce
  with assms obtain v where "r = Inr v" "w1 = w'" "ll_outcome (last lines') = closed_outcome_text v"
    by (cases r) (auto simp: handler_defs without_outcome_eq logged_at_def)
  with run show ?thesis by (cases v) auto
qed

text \<open>A start logs a generation exactly when it armed the chain with it.\<close>

lemma start_line_tells:
  assumes "installation_start render key T st (w, lines) = (Inr (), w', lines')"
  shows "\<exists>v. run_start T st w = (Inr v, w') \<and> lines' = lines @
    [\<lparr>ll_level = Info, ll_handler = ''InstallationSync/start'', ll_key = key,
      ll_outcome = start_outcome_text v, ll_cause = None\<rparr>]"
proof -
  obtain r w1 where run: "run_start T st w = (r, w1)" by fastforce
  with assms show ?thesis by (cases r) (auto simp: handler_defs without_outcome_eq logged_at_def)
qed

end
