(* ===== verification/Ui_Dashboard.thy ===== *)
theory Ui_Dashboard
  imports Ui_Drawer Ui_Panels Ui_Controls
begin

text \<open>
  The page that holds the parts together (\<^verbatim>\<open>apps/web/src/ui/dashboard.rs\<close>) and what its buttons ask
  of the server: selecting all that matches (\<^verbatim>\<open>ui/pr_table.rs\<close>), the sweep (\<^verbatim>\<open>ui/top_bar.rs\<close>) and the
  sync of the open pull request (\<^verbatim>\<open>ui/detail_drawer.rs\<close>). A call and its answer are two steps, since
  the page goes on in between. Toasts are kept in order.
\<close>

section \<open>Toasts\<close>

datatype toast = InfoToast string | SuccessToast string | StickyError string

section \<open>What is asked of the server\<close>

definition ask_matching ::
    "('g, 'm) web_world_scheme browser_line \<Rightarrow> ('g, 'v) server_state \<Rightarrow> pr_filter \<Rightarrow>
     (dashboard \<times> ('g, 'm) web_world_scheme, fault, dashboard_page) eff" where
  "ask_matching K S f = ask_server K (load_matching_in S f)"

definition ask_sweep ::
    "('g, 'm) web_world_scheme browser_line \<Rightarrow> ('g, 'v) server_state \<Rightarrow>
     (dashboard \<times> ('g, 'm) web_world_scheme, fault, unit) eff" where
  "ask_sweep K S = ask_server K (request_sync_in S)"

section \<open>Selecting all that matches\<close>

text \<open>The page's chrome: whether a selection is waiting on the read model, and the toasts.\<close>

record chrome =
  cr_selecting :: bool
  cr_toasts :: "toast list"

text \<open>The click remembers the filter in force, which the answer is for.\<close>

definition matching_pressed :: "dashboard \<times> chrome \<Rightarrow> pr_filter \<times> (dashboard \<times> chrome)" where
  "matching_pressed = (\<lambda>(d, c). (dv_filter d, (d, c\<lparr>cr_selecting := True\<rparr>)))"

definition matching_answered :: "pr_filter \<Rightarrow> fault + dashboard_page \<Rightarrow> dashboard \<times> chrome \<Rightarrow> dashboard \<times> chrome" where
  "matching_answered f answer = (\<lambda>(d, c).
     case answer of
       Inr rows \<Rightarrow> (select_matching f rows d, c\<lparr>cr_selecting := False\<rparr>)
     | Inl fault \<Rightarrow>
         (d, c\<lparr>cr_selecting := False,
               cr_toasts := cr_toasts c @
                 [StickyError (''Could not select the matching pull requests: '' @ display_fault fault)]\<rparr>))"

section \<open>The sweep\<close>

definition sweep_pressed :: "dashboard \<Rightarrow> dashboard" where
  "sweep_pressed d = begin_sync d"

definition sweep_answered :: "fault + unit \<Rightarrow> dashboard \<times> chrome \<Rightarrow> dashboard \<times> chrome" where
  "sweep_answered answer = (\<lambda>(d, c).
     case answer of
       Inr _ \<Rightarrow> (d, c\<lparr>cr_toasts := cr_toasts c @ [InfoToast ''Reconciliation queued'']\<rparr>)
     | Inl fault \<Rightarrow>
         (end_sync d, c\<lparr>cr_toasts := cr_toasts c @ [StickyError (''Sync failed: '' @ display_fault fault)]\<rparr>))"

text \<open>The view switch.\<close>

definition show_view :: "bool \<Rightarrow> dashboard \<Rightarrow> dashboard" where
  "show_view only_attention = update_filter (\<lambda>f. f\<lparr>pf_needs_attention := only_attention\<rparr>)"

section \<open>The drawer's buttons\<close>

record drawer_sync =
  dy_syncing :: bool
  dy_queued :: bool

definition at_rest :: drawer_sync where
  "at_rest = \<lparr>dy_syncing = False, dy_queued = False\<rparr>"

definition sync_withheld :: "bool \<Rightarrow> drawer_sync \<Rightarrow> bool" where
  "sync_withheld gone s \<longleftrightarrow> gone \<or> dy_syncing s \<or> dy_queued s"

definition sync_label :: "drawer_sync \<Rightarrow> string" where
  "sync_label s = (if dy_syncing s then ''Queueing...'' else if dy_queued s then ''Syncing...'' else ''Sync'')"

definition sync_accepted :: "drawer_sync \<Rightarrow> drawer_sync" where
  "sync_accepted s = s\<lparr>dy_syncing := False, dy_queued := True\<rparr>"

text \<open>The sync from the click on: its result in words, and the button as it is left.\<close>

definition run_drawer_sync ::
    "('g, 'm) sync_gateway_scheme \<Rightarrow> 'g \<times> drawer_sync \<Rightarrow> (string + pr_record option) \<times> 'g \<times> drawer_sync" where
  "run_drawer_sync G = (\<lambda>(g, s).
     case sync_pr G sync_accepted (g, s\<lparr>dy_syncing := True\<rparr>) of
       (r, g', s') \<Rightarrow>
         (case r of Inl failure \<Rightarrow> Inl (sync_message failure) | Inr row \<Rightarrow> Inr row,
          g', s'\<lparr>dy_syncing := False, dy_queued := False\<rparr>))"

definition drawer_offers :: "bool \<Rightarrow> string option \<Rightarrow> bulk_action_kind \<Rightarrow> bool" where
  "drawer_offers gone withheld action \<longleftrightarrow> \<not> gone \<and> (action = BkRebase \<longrightarrow> withheld = None)"

definition drawer_request :: "pr_record \<Rightarrow> bulk_action_kind \<Rightarrow> pending_action" where
  "drawer_request row action = \<lparr>pa_action = action, pa_rows = [row], pa_retried_from = None\<rparr>"

text \<open>What the page makes of a sync that ended.\<close>

definition drawer_synced ::
    "string + pr_record option \<Rightarrow> detail \<times> dashboard \<times> chrome \<Rightarrow> detail \<times> dashboard \<times> chrome" where
  "drawer_synced result = (\<lambda>(t, d, c).
     case result of
       Inr (Some row) \<Rightarrow>
         (open_detail (OpenLoaded row) t, reload d,
          c\<lparr>cr_toasts := cr_toasts c @ [SuccessToast ''Pull request synced'']\<rparr>)
     | Inr None \<Rightarrow>
         (close_detail t, reload d,
          c\<lparr>cr_toasts := cr_toasts c @ [InfoToast ''Pull request is no longer open'']\<rparr>)
     | Inl e \<Rightarrow> (t, d, c\<lparr>cr_toasts := cr_toasts c @ [StickyError e]\<rparr>))"

section \<open>The page's reads\<close>

text \<open>The last answer of each read; an answer stands while the next is in flight.\<close>

record page_answers =
  pa_page :: "(fault + dashboard_page) option"
  pa_summary :: "(fault + dashboard_summary) option"
  pa_user :: "(fault + string) option"
  pa_capabilities :: "(fault + capabilities) option"

datatype page_read = ReadPage | ReadSummary | ReadUser | ReadCapabilities

definition refused_read :: "(fault + 'a) option \<Rightarrow> bool" where
  "refused_read answer \<longleftrightarrow> (\<exists>f. answer = Some (Inl f))"

text \<open>What a reload asks again: the name and the capabilities only if they were refused.\<close>

definition reload_reads :: "page_answers \<Rightarrow> page_read list" where
  "reload_reads a =
     [ReadPage, ReadSummary] @
     (if refused_read (pa_user a) then [ReadUser] else []) @
     (if refused_read (pa_capabilities a) then [ReadCapabilities] else [])"

text \<open>What a change of the state asks again: the rows follow the filter and the cursor, the facets the filter alone.\<close>

definition changed_reads :: "dashboard \<Rightarrow> dashboard \<Rightarrow> page_read list" where
  "changed_reads d d' =
     (if dv_filter d' \<noteq> dv_filter d \<or> dv_cursor d' \<noteq> dv_cursor d then [ReadPage] else []) @
     (if dv_filter d' \<noteq> dv_filter d then [ReadSummary] else [])"

definition page_asked :: "dashboard \<Rightarrow> pr_filter \<times> page" where
  "page_asked d = (dv_filter d, default_page\<lparr>pg_after := dv_cursor d\<rparr>)"

definition ask_page ::
    "('g, 'm) web_world_scheme browser_line \<Rightarrow> ('g, 'v) server_state \<Rightarrow> dashboard \<Rightarrow>
     (dashboard \<times> ('g, 'm) web_world_scheme, fault, dashboard_page) eff" where
  "ask_page K S d = (case page_asked d of (f, p) \<Rightarrow> ask_server K (load_dashboard_in S f p))"

definition ask_summary ::
    "('g, 'm) web_world_scheme browser_line \<Rightarrow> ('g, 'v) server_state \<Rightarrow> dashboard \<Rightarrow>
     (dashboard \<times> ('g, 'm) web_world_scheme, fault, dashboard_summary) eff" where
  "ask_summary K S d = ask_server K (load_summary_in S (dv_filter d))"

definition show_answers :: "page_answers \<Rightarrow> dashboard \<Rightarrow> dashboard" where
  "show_answers a d =
     d\<lparr>dv_page := from_faulted (pa_page a), dv_summary := from_faulted (pa_summary a),
       dv_capabilities := from_faulted (pa_capabilities a)\<rparr>"

definition user_shown :: "page_answers \<Rightarrow> string option" where
  "user_shown a = (case pa_user a of Some (Inr user) \<Rightarrow> Some user | _ \<Rightarrow> None)"

section \<open>What they come to\<close>

text \<open>An answer for a filter that was left since selects nothing, and every answer frees the button.\<close>

lemma stale_matching_ignored:
  "dv_filter d \<noteq> f \<Longrightarrow> fst (matching_answered f answer (d, c)) = d"
  by (cases answer) (simp_all add: matching_answered_def select_matching_def)

lemma matching_answered_frees: "\<not> cr_selecting (snd (matching_answered f answer s))"
  by (cases s; cases answer) (simp_all add: matching_answered_def)

text \<open>A sweep that was not taken stops the glyph at once; one that was leaves it to the refresh.\<close>

lemma sweep_glyph:
  "dv_syncing (fst (sweep_answered answer (sweep_pressed d, c))) \<longleftrightarrow> (\<exists>u. answer = Inr u)"
  by (cases answer) (simp_all add: sweep_answered_def sweep_pressed_def begin_sync_def end_sync_def)

text \<open>However a sync ends, the drawer's button is back.\<close>

lemma drawer_sync_rests: "snd (snd (run_drawer_sync G (g, s))) = at_rest"
proof -
  obtain r g' s' where "sync_pr G sync_accepted (g, s\<lparr>dy_syncing := True\<rparr>) = (r, g', s')" by (metis prod_cases3)
  then show ?thesis by (cases s') (simp add: run_drawer_sync_def at_rest_def)
qed

lemma drawer_sync_result:
  "sync_pr G sync_accepted (g, s\<lparr>dy_syncing := True\<rparr>) = (r, g', s') \<Longrightarrow>
     run_drawer_sync G (g, s) = (case r of Inl failure \<Rightarrow> Inl (sync_message failure) | Inr row \<Rightarrow> Inr row, g', at_rest)"
  by (cases s') (simp add: run_drawer_sync_def at_rest_def)

text \<open>Nothing but a sync is withheld while one runs, and a drawer on a pull request that is gone offers nothing.\<close>

lemma gone_offers_nothing: "\<not> drawer_offers True withheld action" "sync_withheld True s"
  by (simp_all add: drawer_offers_def sync_withheld_def)

text \<open>Loading the next page leaves the facets as they are.\<close>

lemma load_next_keeps_facets: "ReadSummary \<notin> set (changed_reads d (load_next cursor d))"
  by (simp add: changed_reads_def load_next_def)

lemma reload_reads_rows: "ReadPage \<in> set (reload_reads a)" "ReadSummary \<in> set (reload_reads a)"
  by (simp_all add: reload_reads_def)

lemma named_once: "pa_user a = Some (Inr user) \<Longrightarrow> ReadUser \<notin> set (reload_reads a)"
  by (simp add: reload_reads_def refused_read_def)

end
