(* ===== verification/Ui_Dashboard_Contract.thy ===== *)
theory Ui_Dashboard_Contract
  imports Ui_Dashboard Ui_Active_Contract Ui_State_Contract
begin

text \<open>
  Selecting all that matches, from the click in the browser through the server and the store to the
  selection and the action bar.
\<close>

lemma collect_ordered: "bt_ordered (bt_collect (map (\<lambda>row. (pr_id row, row)) rows))"
  unfolding collect_rows by (rule btree.inserts_ok) (simp add: bt_ordered_def)

lemma collect_contains: "bt_contains i (bt_collect (map (\<lambda>row. (pr_id row, row)) rows)) \<longleftrightarrow> i \<in> pr_id ` set rows"
  unfolding collect_rows
  by (subst btree.contains_inserts) (auto simp: bt_ordered_def bt_contains_def)

lemma collect_length:
  assumes "distinct (map pr_id rows)"
  shows "length (bt_collect (map (\<lambda>row. (pr_id row, row)) rows)) = length rows"
proof -
  let ?m = "bt_collect (map (\<lambda>row. (pr_id row, row)) rows)"
  have "set (map fst ?m) = pr_id ` set rows"
    using collect_contains [of _ rows] by (auto simp: bt_contains_def)
  then have "length (map fst ?m) = card (pr_id ` set rows)"
    using distinct_card [OF ordered_distinct [OF collect_ordered [of rows]]] by simp
  also have "\<dots> = length rows" using distinct_card [OF assms] by simp
  finally show ?thesis by simp
qed

lemma matching_ids_distinct:
  assumes ok: "prs_ok d"
  shows "distinct (map pr_id (map record_of_row (matching_rows d f now i)))"
proof -
  have "map pr_id (map record_of_row (matching_rows d f now i)) = map w_id (matching_rows d f now i)"
    unfolding map_map by (rule map_cong [OF refl]) (simp add: written_record_of_row(2) [OF matching_written [OF ok]])
  moreover have "distinct (map w_id (matching_rows d f now i))"
  proof -
    have "distinct (map w_id (filter (\<lambda>p. row_matches d f now p \<and> owned_by d i p) (db_prs d)))"
      using ok by (simp add: prs_ok_def distinct_map_filter)
    then show ?thesis
      unfolding matching_rows_def newest_first_def by (simp add: rev_map [symmetric] distinct_map)
  qed
  ultimately show ?thesis by (simp only:)
qed

lemma matching_page:
  assumes "prs_ok d" and "readable_filter f now i"
  shows "list_prs encode decode now i f \<lparr>pg_limit = of_nat MAX_BATCH_TARGETS, pg_after = None\<rparr> d =
    Inr (page_of encode 100 (matching_rows d f now i) (length (matching_rows d f now i)))"
proof -
  have "normalized_limit \<lparr>pg_limit = of_nat MAX_BATCH_TARGETS, pg_after = None\<rparr> = 100"
    by (simp add: normalized_limit_def clamp_def MAX_BATCH_TARGETS_def MAX_PAGE_SIZE_def)
  then show ?thesis
    using list_prs_page [OF assms, of decode "\<lparr>pg_limit = of_nat MAX_BATCH_TARGETS, pg_after = None\<rparr>" None]
    by (simp add: decode_after_def rows_after_def)
qed

lemma read_model_at_run:
  "store_answers w \<Longrightarrow> read (ww_times w (ww_reads w)) (ww_db w) = Inr a \<Longrightarrow>
     read_model_at read w = (Inr a, w\<lparr>ww_faults := tl (ww_faults w), ww_reads := ww_reads w + 1\<rparr>)"
  by (auto simp: read_model_at_def store_answers_def Let_def split: list.splits option.splits)

lemma u64_of_nat_less: "n < 2 ^ 64 \<Longrightarrow> m \<le> n \<Longrightarrow> (of_nat m < (of_nat n :: u64)) \<longleftrightarrow> m < n"
  by (simp add: word_less_nat_alt unat_of_nat take_bit_nat_eq_self)

text \<open>
  C32: "Select all matching" selects what matches: on a line that carries the call and a store that
  answers, the rows selected are the first hundred, newest first, of exactly the pull requests of
  the installation that the filter matches. When there are more the bar says of how many; and
  unless there are none, the bar offers every action for a batch of them, a rebase only when the
  dashboard does not withhold rebases for want of a user token.
\<close>

theorem select_all_selects_the_newest:
  fixes w :: "('g, 'm) web_world_scheme" and S :: "('g, 'v) server_state"
  assumes "clear_line K" and "\<not> signed_out d" and "store_answers w" and "db_ok (ww_db w)"
    and "fits (sv_installation S)" and "length (db_prs (ww_db w)) < 2 ^ 64"
    and "pf_needs_attention (dv_filter d) \<longrightarrow> fits (stale_before (ww_times w (ww_reads w)))"
  shows "\<exists>matching answer w'.
    ask_matching K S (dv_filter d) (d, w) = (Inr answer, (d, w')) \<and> ww_db w' = ww_db w \<and>
    set matching = {pr \<in> ran (pr_table (ww_db w)).
      pr_matches (repo_table (ww_db w)) (dv_filter d) (ww_times w (ww_reads w)) (sv_installation S) pr} \<and>
    sorted_wrt newer matching \<and>
    (case matching_answered (dv_filter d) (Inr answer) (d, c) of (d', _) \<Rightarrow>
       {i. is_selected d' i} = pr_id ` set (take 100 matching) \<and>
       selected_count d' = min 100 (length matching) \<and>
       sl_capped_from (dv_selected d') =
         (if 100 < length matching then Some (of_nat (length matching)) else None) \<and>
       (\<forall>action. bar_offers d' action \<longleftrightarrow>
          matching \<noteq> [] \<and> (action = BkRebase \<longrightarrow> rebase_withheld d = None)))"
proof -
  let ?f = "dv_filter d" and ?now = "ww_times w (ww_reads w)" and ?db = "ww_db w" and ?i = "sv_installation S"
  define rows where "rows = map record_of_row (matching_rows ?db ?f ?now ?i)"
  have ok: "prs_ok ?db" using assms(4) by (rule db_ok_parts)
  let ?answer = "page_of (sv_encode S) 100 (matching_rows ?db ?f ?now ?i) (length (matching_rows ?db ?f ?now ?i))"
  let ?w = "w\<lparr>ww_faults := tl (ww_faults w), ww_reads := ww_reads w + 1\<rparr>"
  have "load_matching_in S ?f w = (Inr ?answer, ?w)"
    unfolding load_matching_in_def Let_def
    by (rule read_model_at_run [OF assms(3)], rule matching_page [OF ok]) (use assms in \<open>simp add: readable_filter_def\<close>)
  then have ask: "ask_matching K S ?f (d, w) = (Inr ?answer, (d, ?w))"
    unfolding ask_matching_def by (rule ask_server_clear [OF assms(1,2)])
  have answer: "dp_rows ?answer = take 100 rows" "dp_total ?answer = of_nat (length rows)"
    by (simp_all add: page_of_def rows_def take_map)
  have small: "length rows < 2 ^ 64"
    using assms(6) le_less_trans [OF matching_length] by (simp add: rows_def)
  have capped: "of_nat (length (take 100 rows)) < (of_nat (length rows) :: u64) \<longleftrightarrow> 100 < length rows"
    using u64_of_nat_less [OF small, of "length (take 100 rows)"] by auto
  have d': "fst (matching_answered ?f (Inr ?answer) (d, c)) =
      d\<lparr>dv_selected := \<lparr>sl_rows = bt_collect (map (\<lambda>row. (pr_id row, row)) (take 100 rows)),
        sl_capped_from = (if 100 < length rows then Some (of_nat (length rows)) else None)\<rparr>\<rparr>"
    using capped by (simp only: matching_answered_def split sum.case select_matching_def answer) (simp add: Let_def)
  have "distinct (map pr_id (take 100 rows))"
    using matching_ids_distinct [OF ok] by (simp add: rows_def take_map [symmetric])
  note once = this
  have len: "length (bt_collect (map (\<lambda>row. (pr_id row, row)) (take 100 rows))) = min 100 (length rows)"
    using collect_length [OF once] by (simp add: min.commute)
  have "set rows = {pr \<in> ran (pr_table ?db). pr_matches (repo_table ?db) ?f ?now ?i pr}"
    unfolding rows_def by (rule matching_records [OF ok])
  moreover have "sorted_wrt newer rows" unfolding rows_def by (rule matching_sorted [OF ok])
  moreover have "case matching_answered ?f (Inr ?answer) (d, c) of (d', _) \<Rightarrow>
       {i. is_selected d' i} = pr_id ` set (take 100 rows) \<and>
       selected_count d' = min 100 (length rows) \<and>
       sl_capped_from (dv_selected d') = (if 100 < length rows then Some (of_nat (length rows)) else None) \<and>
       (\<forall>action. bar_offers d' action \<longleftrightarrow> rows \<noteq> [] \<and> (action = BkRebase \<longrightarrow> rebase_withheld d = None))"
  proof -
    let ?d = "fst (matching_answered ?f (Inr ?answer) (d, c))"
    have n: "selected_count ?d = min 100 (length rows)" using len by (simp add: d' selected_count_def)
    moreover have "min 100 (length rows) \<noteq> 0 \<longleftrightarrow> rows \<noteq> []" by (cases rows) simp_all
    moreover have "rebase_withheld ?d = rebase_withheld d" by (simp add: d' rebase_withheld_def)
    ultimately have "\<forall>action. bar_offers ?d action \<longleftrightarrow>
        rows \<noteq> [] \<and> (action = BkRebase \<longrightarrow> rebase_withheld d = None)"
      by (simp add: bar_offers_def over_limit_def MAX_BATCH_TARGETS_def)
    moreover have "{i. is_selected ?d i} = pr_id ` set (take 100 rows)"
      unfolding d' is_selected_def by (simp add: collect_contains)
    moreover have "sl_capped_from (dv_selected ?d) = (if 100 < length rows then Some (of_nat (length rows)) else None)"
      unfolding d' by simp
    ultimately show ?thesis using n by (simp only: split_def simp_thms)
  qed
  ultimately show ?thesis using ask by (intro exI [of _ rows] exI [of _ ?answer] exI [of _ ?w]) simp
qed

lemma acme_few: "length (db_prs acme_db) < 2 ^ 64"
  by (simp add: acme_rows)

theorem select_all_selects_the_newest_witness:
  "\<exists>answer w'. ask_matching plain_line acme_server default_filter (ho_state idle_host, acme_web) =
     (Inr answer, (ho_state idle_host, w')) \<and>
     bar_offers (fst (matching_answered default_filter (Inr answer)
       (ho_state idle_host, \<lparr>cr_selecting = True, cr_toasts = []\<rparr>))) BkMerge"
proof -
  have "clear_line plain_line" "\<not> signed_out (ho_state idle_host)" "store_answers acme_web" "db_ok (ww_db acme_web)"
    "fits (sv_installation acme_server)" "length (db_prs (ww_db acme_web)) < 2 ^ 64"
    using acme_few
    by (simp_all add: clear_line_def plain_line_def signed_out_def idle_host_def store_answers_def acme_web_def acme_ok
        acme_server_def acme_numbers)
  moreover have f: "dv_filter (ho_state idle_host) = default_filter" by (simp add: idle_host_def)
  moreover have "pf_needs_attention default_filter \<longrightarrow> fits (stale_before (ww_times acme_web (ww_reads acme_web)))"
    by (simp add: default_filter_def)
  ultimately obtain matching answer w' where
      ask: "ask_matching plain_line acme_server default_filter (ho_state idle_host, acme_web) =
        (Inr answer, (ho_state idle_host, w'))"
      and rows: "set matching = {pr \<in> ran (pr_table acme_db). pr_matches (repo_table acme_db) default_filter 20 5 pr}"
      and bar: "bar_offers (fst (matching_answered default_filter (Inr answer)
        (ho_state idle_host, \<lparr>cr_selecting = True, cr_toasts = []\<rparr>))) BkMerge \<longleftrightarrow> matching \<noteq> []"
    using select_all_selects_the_newest [of plain_line "ho_state idle_host" acme_web acme_server
        "\<lparr>cr_selecting = True, cr_toasts = []\<rparr>"]
    unfolding f by (auto simp: acme_web_def acme_server_def split_def)
  have "serde_pr \<in> set matching"
    unfolding rows by (simp add: acme_tables pr_matches_def default_filter_def not_blank_def acme_repo_def serde_pr_def)
  with ask bar show ?thesis by auto
qed

end
