(* ===== verification/Store_Open.thy ===== *)
theory Store_Open
  imports Migrations_Contract Restate_Ext
begin

text \<open>
  Opening the projection (\<^verbatim>\<open>crates/store/src/lib.rs\<close>, \<open>StoreConfig\<close> and \<open>LibSqlPrStore::connect\<close>):
  where the database is, the connection as every other operation finds it, and the migrations run
  before anything else. The file system, the libSQL builders and the SQL of a migration are
  parameters.
\<close>

section \<open>Where the database is\<close>

record store_config =
  so_url :: string
  so_auth_token :: string

definition store_config_from_env :: "(string \<Rightarrow> env_var) \<Rightarrow> store_config" where
  "store_config_from_env env =
     \<lparr>so_url = (case env_text env ''LIBSQL_URL'' of None \<Rightarrow> ''data/dependaboard.db'' | Some url \<Rightarrow> url),
      so_auth_token = (case env_text env ''LIBSQL_AUTH_TOKEN'' of None \<Rightarrow> [] | Some token \<Rightarrow> token)\<rparr>"

text \<open>A path is UTF-8 here, so it is its own lossy text.\<close>

definition store_config_local :: "string \<Rightarrow> store_config" where
  "store_config_local path = \<lparr>so_url = path, so_auth_token = []\<rparr>"

definition remote_url :: "string \<Rightarrow> bool" where
  "remote_url url \<longleftrightarrow>
     starts_with url ''libsql://'' \<or> starts_with url ''https://'' \<or> starts_with url ''http://''"

text \<open>
  \<open>Path::parent\<close>: trailing separators and \<open>.\<close> components do not count, and a root or nothing at
  all has no parent. \<open>trim_rev\<close> reads the path from its end.
\<close>

fun trim_rev :: "string \<Rightarrow> string" where
  "trim_rev [] = []"
| "trim_rev [c] = [c]"
| "trim_rev (c # d # s) =
     (if c = CHR ''/'' \<or> c = CHR ''.'' \<and> d = CHR ''/'' then trim_rev (d # s) else c # d # s)"

definition path_parent :: "string \<Rightarrow> string option" where
  "path_parent path =
     (let trimmed = trim_rev (rev path)
      in if trimmed = [] \<or> trimmed = ''/'' then None
         else Some (rev (trim_rev (dropWhile (\<lambda>c. c \<noteq> CHR ''/'') trimmed))))"

section \<open>Connecting\<close>

text \<open>
  What the process has of the outside: the directories made, and the database behind the
  connection with what was set on it.
\<close>

record 'd connecting =
  og_db :: "'d migrating"
  og_dirs :: "string list"
  og_busy_timeout :: "nat option"
  og_foreign_keys :: bool

record 'd opener =
  op_make_dirs :: "string \<Rightarrow> 'd connecting \<Rightarrow> (store_error + unit) \<times> 'd connecting"
  op_build_remote :: "string \<Rightarrow> string \<Rightarrow> store_error + unit"
  op_build_local :: "string \<Rightarrow> store_error + unit"
  op_connect :: "store_error + unit"

definition open_database :: "'d opener \<Rightarrow> store_config \<Rightarrow> ('d connecting, store_error, unit) eff" where
  "open_database B config =
     (if remote_url (so_url config) then lift (op_build_remote B (so_url config) (so_auth_token config))
      else
        andthen (case path_parent (so_url config) of
            None \<Rightarrow> ok ()
          | Some parent \<Rightarrow> if parent = [] then ok () else op_make_dirs B parent)
          (\<lambda>_. lift (op_build_local B (so_url config))))"

text \<open>A call to the database of the connection.\<close>

definition on_database :: "('d, 'a) mig_op \<Rightarrow> ('d connecting, store_error, 'a) eff" where
  "on_database call w = (case call (og_db w) of (r, d) \<Rightarrow> (r, w\<lparr>og_db := d\<rparr>))"

definition enable_foreign_keys :: "('d connecting, store_error, unit) eff" where
  "enable_foreign_keys =
     andthen (on_database (db_call (\<lambda>d. (Inr (), d)))) (\<lambda>_. put (\<lambda>w. w\<lparr>og_foreign_keys := True\<rparr>))"

definition migrate_store ::
    "'d sql_runner \<Rightarrow> (u32 \<Rightarrow> u64) \<Rightarrow> ('d connecting, store_error, unit) eff" where
  "migrate_store run now = andthen (on_database (apply_migrations run now)) (\<lambda>_. ok ())"

definition connect_store ::
    "'d opener \<Rightarrow> 'd sql_runner \<Rightarrow> (u32 \<Rightarrow> u64) \<Rightarrow> store_config \<Rightarrow> ('d connecting, store_error, unit) eff" where
  "connect_store B run now config =
     andthen (open_database B config) (\<lambda>_.
     andthen (lift (op_connect B)) (\<lambda>_.
     andthen (put (\<lambda>w. w\<lparr>og_busy_timeout := Some 5\<rparr>)) (\<lambda>_.
     andthen enable_foreign_keys (\<lambda>_.
       migrate_store run now))))"

text \<open>The default database is made under its directory; one beside the process needs none.\<close>

lemma path_parents:
  "path_parent ''data/dependaboard.db'' = Some ''data''" "path_parent ''x.db'' = Some []"
  "path_parent ''/x.db'' = Some ''/''" "path_parent ''a//b/.'' = Some ''a''" "path_parent ''/'' = None"
  by (simp_all add: path_parent_def)

section \<open>A run of the migrations is a process of the machine\<close>

definition alone :: "'d sql_runner \<Rightarrow> (u32 \<Rightarrow> u64) \<Rightarrow> migration list \<Rightarrow> migrator \<times> 'd migrating \<Rightarrow> migrator \<times> 'd migrating" where
  "alone run now ms = (\<lambda>(p, w). migrator_step run now ms p w)"

inductive runs_alone ::
    "'d sql_runner \<Rightarrow> (u32 \<Rightarrow> u64) \<Rightarrow> migration list \<Rightarrow> migrator \<times> 'd migrating \<Rightarrow> migrator \<times> 'd migrating \<Rightarrow> bool"
  for run now ms where
  Here: "runs_alone run now ms s s"
| Onwards: "runs_alone run now ms (alone run now ms s) s' \<Longrightarrow> runs_alone run now ms s s'"

lemma applying_runs:
  "apply_each run now pending applied w = (r, w') \<Longrightarrow>
     \<exists>seen. runs_alone run now ms (Applying pending applied, w) (Ended r seen, w')"
proof (induction pending arbitrary: applied w)
  case Nil
  then have "alone run now ms (Applying [] applied, w) = (Ended r applied, w')" by (auto simp: alone_def ok_def)
  then show ?case by (metis Here Onwards)
next
  case (Cons m pending)
  obtain q w1 where one: "migrate_one run (now (mg_version m)) m w = (q, w1)" by fastforce
  show ?case
  proof (cases q)
    case (Inl e)
    with one Cons.prems have "alone run now ms (Applying (m # pending) applied, w) = (Ended r applied, w')"
      by (auto simp: alone_def andthen_def)
    then show ?thesis by (metis Here Onwards)
  next
    case (Inr fresh_one)
    let ?applied = "if fresh_one then applied @ [mg_version m] else applied"
    have "apply_each run now pending ?applied w1 = (r, w')" using one Inr Cons.prems by (simp add: andthen_def)
    from Cons.IH [OF this] obtain seen where "runs_alone run now ms (Applying pending ?applied, w1) (Ended r seen, w')"
      by blast
    moreover have "alone run now ms (Applying (m # pending) applied, w) = (Applying pending ?applied, w1)"
      using one Inr by (simp add: alone_def)
    ultimately show ?thesis by (metis Onwards)
  qed
qed

lemma applying_is_a_process:
  assumes "apply_registered run now ms w = (r, w')"
  shows "\<exists>seen. runs_alone run now ms (Created, w) (Ended r seen, w')"
proof -
  obtain c w1 where create: "create_schema_migrations w = (c, w1)" by fastforce
  show ?thesis
  proof (cases c)
    case (Inl e)
    with create assms have "alone run now ms (Created, w) = (Ended r [], w')"
      by (auto simp: alone_def apply_registered_def andthen_def)
    then show ?thesis by (metis Here Onwards)
  next
    case (Inr u)
    obtain v w2 where read: "recorded_versions w1 = (v, w2)" by fastforce
    have created: "alone run now ms (Created, w) = (Reading, w1)" using create Inr by (simp add: alone_def)
    show ?thesis
    proof (cases v)
      case (Inl e)
      with create read Inr assms have "alone run now ms (Reading, w1) = (Ended r [], w')"
        by (auto simp: alone_def apply_registered_def andthen_def)
      with created show ?thesis by (metis Here Onwards)
    next
      case (Inr recorded)
      with create read \<open>c = Inr u\<close> assms
      have "apply_each run now (not_recorded recorded ms) [] w2 = (r, w')"
        by (simp add: apply_registered_def andthen_def)
      from applying_runs [OF this, of ms] obtain seen
        where "runs_alone run now ms (Applying (not_recorded recorded ms) [], w2) (Ended r seen, w')" by blast
      moreover have "alone run now ms (Reading, w1) = (Applying (not_recorded recorded ms) [], w2)"
        using read Inr by (simp add: alone_def)
      ultimately show ?thesis using created by (metis Onwards)
    qed
  qed
qed

lemma alone_among:
  "runs_alone run now ms s s' \<Longrightarrow>
     (migrating_step run now ms)\<^sup>*\<^sup>* (snd s, [fst s]) (snd s', [fst s'])"
proof (induction rule: runs_alone.induct)
  case (Here s)
  show ?case by simp
next
  case (Onwards s s')
  obtain p w where s: "s = (p, w)" by fastforce
  have "migrating_step run now ms (w, [p]) (snd (alone run now ms s), [fst (alone run now ms s)])"
    using Steps [of 0 "[p]" run now ms w "fst (alone run now ms s)" "snd (alone run now ms s)"]
    by (simp add: s alone_def)
  with Onwards.IH show ?case by (metis (no_types, lifting) converse_rtranclp_into_rtranclp fst_conv s snd_conv)
qed

text \<open>A run that ends well leaves the database at the last version, wherever it began.\<close>

lemma applied_reaches_the_last:
  assumes "apply_migrations run now w = (Inr applied, w')" and "at_version run MIGRATIONS d start w"
  shows "at_version run MIGRATIONS d 11 w'"
proof -
  obtain seen where "runs_alone run now MIGRATIONS (Created, w) (Ended (Inr applied) seen, w')"
    using applying_is_a_process [of run now MIGRATIONS w "Inr applied" w'] assms(1)
    by (auto simp: apply_migrations_def)
  from alone_among [OF this] have steps:
    "(migrating_step run now MIGRATIONS)\<^sup>*\<^sup>* (w, [Created]) (w', [Ended (Inr applied) seen])" by simp
  have "migrating_ok run MIGRATIONS d start (w, [Created])" using assms(2) by (auto simp: migrating_ok_def)
  from migrating_run_ok [OF steps MIGRATIONS_distinct this] obtain k where
      "at_version run MIGRATIONS d k w'" "\<forall>p\<in>set [Ended (Inr applied) seen]. migrator_ok MIGRATIONS k (has_table w') p"
    by (rule migrating_okE)
  then show ?thesis by simp
qed

lemma on_database_Inr:
  "on_database call w = (Inr a, w') \<longleftrightarrow> (\<exists>d. call (og_db w) = (Inr a, d) \<and> w' = w\<lparr>og_db := d\<rparr>)"
  by (auto simp: on_database_def split: prod.splits)

text \<open>
  A store that opens is one the rest of the store's model can be about: foreign keys are enforced,
  a busy database is waited for, and its schema is the last version's.
\<close>

lemma opened_store_is_ready:
  assumes "connect_store B run now config w = (Inr (), w')" and "at_version run MIGRATIONS d start (og_db w)"
    and "\<And>parent w0. og_db (snd (op_make_dirs B parent w0)) = og_db w0"
  shows "og_foreign_keys w' \<and> og_busy_timeout w' = Some 5 \<and> at_version run MIGRATIONS d 11 (og_db w')"
proof -
  have kept: "og_db (snd (open_database B config w)) = og_db w"
    using assms(3) by (auto simp: open_database_def andthen_def lift_def ok_def split: prod.splits sum.splits option.splits)
      (metis snd_conv)+
  from assms(1) obtain w1 where w1: "open_database B config w = (Inr (), w1)"
    and rest: "andthen enable_foreign_keys (\<lambda>_. migrate_store run now) (w1\<lparr>og_busy_timeout := Some 5\<rparr>) = (Inr (), w')"
    by (auto simp: connect_store_def andthen_Inr_iff lift_Inr put_def)
  from rest obtain w2 where w2: "enable_foreign_keys (w1\<lparr>og_busy_timeout := Some 5\<rparr>) = (Inr (), w2)"
    and migrated: "migrate_store run now w2 = (Inr (), w')" by (auto simp: andthen_Inr_iff)
  from w2 have set: "og_foreign_keys w2" "og_busy_timeout w2 = Some 5"
      "og_db w2 = without_fault (og_db w1)"
    by (auto simp: enable_foreign_keys_def andthen_Inr_iff on_database_Inr put_def dest!: db_call_Inr)
  from migrated obtain applied db where a: "apply_migrations run now (og_db w2) = (Inr applied, db)" "w' = w2\<lparr>og_db := db\<rparr>"
    by (auto simp: migrate_store_def andthen_Inr_iff on_database_Inr ok_def)
  have "at_version run MIGRATIONS d start (og_db w2)" using assms(2) kept w1 set(3) by simp
  from applied_reaches_the_last [OF a(1) this] a(2) set show ?thesis by simp
qed

end
