(* ===== verification/Ui_Dialog.thy ===== *)
theory Ui_Dialog
  imports Prelude
begin

text \<open>
  The alert dialog of the dashboard (\<^verbatim>\<open>apps/web/src/components/alert_dialog/component.rs\<close>): while one is
  open everything outside it is marked \<open>inert\<close>, tagged with the ids of the dialogs that cover it, and
  a dialog that closes, changes its id or leaves the page takes back what it marked and nothing else.
  The script's runs are modelled one after the other, in the order they are started.
\<close>

section \<open>The page\<close>

text \<open>
  The page's body is a tree of elements, each known by its node; \<open>pg_by\<close> is the attribute
  \<open>data-inert-by\<close>.
\<close>

datatype 'n element = Element (node_of: 'n) (children_of: "'n element list")

record 'n web_page =
  pg_body :: "'n element"
  pg_id :: "'n \<Rightarrow> string"
  pg_inert :: "'n \<Rightarrow> bool"
  pg_by :: "'n \<Rightarrow> string option"

fun nodes :: "'n element \<Rightarrow> 'n list" where
  "nodes (Element n es) = n # concat (map nodes es)"

text \<open>The elements from the first one to the first in document order that is asked for.\<close>

fun way_to :: "('n \<Rightarrow> bool) \<Rightarrow> 'n element \<Rightarrow> 'n element list option"
  and way_among :: "('n \<Rightarrow> bool) \<Rightarrow> 'n element list \<Rightarrow> 'n element list option" where
  "way_to P (Element n es) =
     (if P n then Some [Element n es] else map_option (\<lambda>way. Element n es # way) (way_among P es))"
| "way_among P [] = None"
| "way_among P (e # es) = (case way_to P e of Some way \<Rightarrow> Some way | None \<Rightarrow> way_among P es)"

definition way_to_id :: "string \<Rightarrow> 'n web_page \<Rightarrow> 'n element list option" where
  "way_to_id i p = way_to (\<lambda>n. i \<noteq> [] \<and> pg_id p n = i) (pg_body p)"

section \<open>The script\<close>

fun split_spaces :: "string \<Rightarrow> string list" where
  "split_spaces [] = [[]]"
| "split_spaces (c # cs) =
     (if c = CHR '' '' then [] # split_spaces cs
      else (case split_spaces cs of [] \<Rightarrow> [[c]] | w # ws \<Rightarrow> (c # w) # ws))"

definition tag_ids :: "string \<Rightarrow> string list" where
  "tag_ids t = filter (\<lambda>w. w \<noteq> []) (split_spaces t)"

fun tag_list :: "string option \<Rightarrow> string list" where
  "tag_list None = []"
| "tag_list (Some t) = tag_ids t"

definition marks :: "'n web_page \<Rightarrow> 'n \<Rightarrow> string list" where
  "marks p n = tag_list (pg_by p n)"

definition unwind_element :: "string \<Rightarrow> 'n \<Rightarrow> 'n web_page \<Rightarrow> 'n web_page" where
  "unwind_element i n p =
     (if i \<notin> set (marks p n) then p
      else
        let rest = filter (\<lambda>other. other \<noteq> i) (marks p n)
        in if rest \<noteq> [] then p\<lparr>pg_by := (pg_by p)(n := Some (join '' '' rest))\<rparr>
           else p\<lparr>pg_by := (pg_by p)(n := None), pg_inert := (pg_inert p)(n := False)\<rparr>)"

definition mark_element :: "string \<Rightarrow> 'n \<Rightarrow> 'n web_page \<Rightarrow> 'n web_page" where
  "mark_element i n p =
     (if pg_inert p n \<and> pg_by p n = None then p
      else
        let ids = (if i \<in> set (marks p n) then marks p n else marks p n @ [i])
        in p\<lparr>pg_by := (pg_by p)(n := Some (join '' '' ids)), pg_inert := (pg_inert p)(n := True)\<rparr>)"

text \<open>The climb from the dialog to the body, over the elements on the way, the dialog first.\<close>

fun climb :: "string \<Rightarrow> 'n element list \<Rightarrow> 'n web_page \<Rightarrow> 'n web_page" where
  "climb i (e # parent # up) p =
     climb i (parent # up)
       (fold (mark_element i) (filter (\<lambda>sibling. sibling \<noteq> node_of e) (map node_of (children_of parent))) p)"
| "climb i _ p = p"

definition set_inert :: "string \<Rightarrow> bool \<Rightarrow> 'n web_page \<Rightarrow> 'n web_page" where
  "set_inert i mark p =
     (let p1 = fold (unwind_element i) (nodes (pg_body p)) p
      in if mark then (case way_to_id i p1 of None \<Rightarrow> p1 | Some way \<Rightarrow> climb i (rev way) p1) else p1)"

section \<open>The dialog\<close>

record dialog =
  dg_id :: "string option"
  dg_generated :: string
  dg_open :: "bool option"
  dg_uncontrolled :: bool
  dg_marked :: "string option"

definition generated_dialog_id :: "nat \<Rightarrow> string" where
  "generated_dialog_id n = ''daisyui-alert-dialog-'' @ show_nat n"

definition dialog_id :: "dialog \<Rightarrow> string" where
  "dialog_id d = (case dg_id d of None \<Rightarrow> dg_generated d | Some i \<Rightarrow> i)"

definition dialog_open :: "dialog \<Rightarrow> bool" where
  "dialog_open d = (case dg_open d of None \<Rightarrow> dg_uncontrolled d | Some shown \<Rightarrow> shown)"

definition inert_effect :: "dialog \<times> 'n web_page \<Rightarrow> dialog \<times> 'n web_page" where
  "inert_effect = (\<lambda>(d, p).
     let i = dialog_id d;
         p1 = (case dg_marked d of
                 Some previous \<Rightarrow> if previous \<noteq> i then set_inert previous False p else p
               | None \<Rightarrow> p)
     in (d\<lparr>dg_marked := Some i\<rparr>, set_inert i (dialog_open d) p1))"

definition dialog_dropped :: "dialog \<Rightarrow> 'n web_page \<Rightarrow> 'n web_page" where
  "dialog_dropped d p = (case dg_marked d of Some i \<Rightarrow> set_inert i False p | None \<Rightarrow> p)"

definition dialog_changed :: "bool \<Rightarrow> dialog \<Rightarrow> dialog" where
  "dialog_changed shown d = d\<lparr>dg_uncontrolled := shown\<rparr>"

definition dialog_state :: "dialog \<Rightarrow> string" where
  "dialog_state d = (if dialog_open d then ''modal-open'' else [])"

end
