(* ===== verification/Ui_Dialog_Contract.thy ===== *)
theory Ui_Dialog_Contract
  imports Ui_Dialog
begin

text \<open>
  What the alert dialogs promise of the page around them: an open one covers everything outside
  itself, and whatever dialogs open, close, change their ids and leave, in whatever order, an element
  is inert exactly when the application made it so or an open dialog covers it.
\<close>

section \<open>Tags\<close>

definition dialog_name :: "string \<Rightarrow> bool" where
  "dialog_name i \<longleftrightarrow> i \<noteq> [] \<and> CHR '' '' \<notin> set i"

lemma split_spaces_word: "CHR '' '' \<notin> set w \<Longrightarrow> split_spaces w = [w]"
  by (induction w) auto

lemma split_spaces_cons: "CHR '' '' \<notin> set w \<Longrightarrow> split_spaces (w @ CHR '' '' # rest) = w # split_spaces rest"
  by (induction w) auto

lemma tag_ids_join: "ids \<noteq> [] \<Longrightarrow> list_all dialog_name ids \<Longrightarrow> tag_ids (join '' '' ids) = ids"
proof -
  assume ids: "ids \<noteq> []" "list_all dialog_name ids"
  then have "split_spaces (join '' '' ids) = ids"
    by (induction "'' ''" ids rule: join.induct) (auto simp: dialog_name_def split_spaces_word split_spaces_cons)
  with ids show ?thesis by (simp add: tag_ids_def list_all_iff dialog_name_def filter_id_conv)
qed

lemma split_spaces_names: "w \<in> set (split_spaces t) \<Longrightarrow> CHR '' '' \<notin> set w"
  by (induction t arbitrary: w) (auto split: if_splits list.splits)

lemma tag_list_named: "list_all dialog_name (tag_list t)"
  by (cases t) (auto simp: tag_ids_def list_all_iff dialog_name_def dest: split_spaces_names)

lemma tag_list_join [simp]: "ids \<noteq> [] \<Longrightarrow> list_all dialog_name ids \<Longrightarrow> tag_list (Some (join '' '' ids)) = ids"
  by (simp add: tag_ids_join)

lemma named_filter [simp]: "list_all dialog_name (filter P (tag_list t))"
  using tag_list_named [of t] by (auto simp: list_all_iff)

section \<open>One element\<close>

text \<open>
  The invariant of the page: \<open>own\<close> are the elements the application made inert, which carry no tag;
  any other is inert exactly while it is tagged.
\<close>

definition page_ok :: "('n \<Rightarrow> bool) \<Rightarrow> 'n web_page \<Rightarrow> bool" where
  "page_ok own p \<longleftrightarrow> (\<forall>n. (pg_inert p n \<longleftrightarrow> own n \<or> pg_by p n \<noteq> None) \<and>
     (tag_list (pg_by p n) = [] \<longrightarrow> pg_by p n = None) \<and> (own n \<longrightarrow> pg_by p n = None))"

lemma unwind_element_marks:
  "marks (unwind_element i n p) m = (if m = n then filter (\<lambda>other. other \<noteq> i) (marks p m) else marks p m)"
proof -
  have "filter (\<lambda>other. other \<noteq> i) (marks p n) = marks p n" if "i \<notin> set (marks p n)"
    using that by (auto simp: filter_id_conv)
  then show ?thesis by (simp add: unwind_element_def Let_def marks_def del: tag_list.simps(2))
qed

lemma unwind_element_ok: "page_ok own p \<Longrightarrow> page_ok own (unwind_element i n p)"
  unfolding page_ok_def unwind_element_def Let_def marks_def
  by (auto simp del: tag_list.simps(2))

lemma tag_list_marked:
  "dialog_name i \<Longrightarrow>
   tag_list (Some (join '' '' (if i \<in> set (tag_list t) then tag_list t else tag_list t @ [i]))) =
     (if i \<in> set (tag_list t) then tag_list t else tag_list t @ [i])"
  using tag_list_named [of t] by (intro tag_list_join) auto

lemma mark_element_marks:
  assumes "dialog_name i"
  shows "marks (mark_element i n p) m =
    (if m = n \<and> \<not> (pg_inert p n \<and> pg_by p n = None) \<and> i \<notin> set (marks p n) then marks p m @ [i] else marks p m)"
  unfolding mark_element_def Let_def marks_def
  using tag_list_marked [OF assms, of "pg_by p n"] by (simp del: tag_list.simps(2) split: if_splits)

lemma mark_element_ok:
  assumes "dialog_name i" and "page_ok own p"
  shows "page_ok own (mark_element i n p)"
proof (cases "pg_inert p n \<and> pg_by p n = None")
  case False
  define ids where "ids = (if i \<in> set (tag_list (pg_by p n)) then tag_list (pg_by p n) else tag_list (pg_by p n) @ [i])"
  have "tag_list (Some (join '' '' ids)) = ids" "ids \<noteq> []"
    unfolding ids_def using tag_list_marked [OF assms(1)] by auto
  then show ?thesis
    using assms(2) False
    unfolding page_ok_def mark_element_def Let_def marks_def ids_def [symmetric]
    by (simp del: tag_list.simps(2)) (metis option.distinct(1))
qed (use assms(2) in \<open>simp add: mark_element_def\<close>)

lemma element_frame [simp]:
  "pg_body (unwind_element i n p) = pg_body p" "pg_id (unwind_element i n p) = pg_id p"
  "pg_body (mark_element i n p) = pg_body p" "pg_id (mark_element i n p) = pg_id p"
  by (simp_all add: unwind_element_def mark_element_def Let_def)

section \<open>A walk over elements\<close>

lemma unwind_frame [simp]:
  "pg_body (fold (unwind_element i) ns p) = pg_body p" "pg_id (fold (unwind_element i) ns p) = pg_id p"
  by (induction ns arbitrary: p) auto

lemma unwind_ok: "page_ok own p \<Longrightarrow> page_ok own (fold (unwind_element i) ns p)"
  by (induction ns arbitrary: p) (auto intro: unwind_element_ok)

lemma unwind_marks:
  "marks (fold (unwind_element i) ns p) m =
     (if m \<in> set ns then filter (\<lambda>other. other \<noteq> i) (marks p m) else marks p m)"
  by (induction ns arbitrary: p) (auto simp: unwind_element_marks)

lemma mark_frame [simp]:
  "pg_body (fold (mark_element i) ns p) = pg_body p" "pg_id (fold (mark_element i) ns p) = pg_id p"
  by (induction ns arbitrary: p) auto

lemma mark_ok: "dialog_name i \<Longrightarrow> page_ok own p \<Longrightarrow> page_ok own (fold (mark_element i) ns p)"
  by (induction ns arbitrary: p) (auto intro: mark_element_ok)

lemma mark_marks:
  assumes "dialog_name i" and "page_ok own p"
  shows "marks (fold (mark_element i) ns p) m =
    (if m \<in> set ns \<and> \<not> own m \<and> i \<notin> set (marks p m) then marks p m @ [i] else marks p m)"
  using assms(2)
proof (induction ns arbitrary: p)
  case (Cons n ns)
  have "pg_inert p n \<and> pg_by p n = None \<longleftrightarrow> own n" using Cons.prems by (auto simp: page_ok_def)
  then show ?case using Cons.IH [OF mark_element_ok [OF assms(1) Cons.prems]]
    by (auto simp: mark_element_marks [OF assms(1)])
qed simp

text \<open>The climb marks the elements beside the way.\<close>

fun climbed :: "'n element list \<Rightarrow> 'n list" where
  "climbed (e # parent # up) =
     filter (\<lambda>sibling. sibling \<noteq> node_of e) (map node_of (children_of parent)) @ climbed (parent # up)"
| "climbed _ = []"

lemma climb_fold: "climb i up p = fold (mark_element i) (climbed up) p"
  by (induction i up p rule: climb.induct) auto

section \<open>What lies beside the way\<close>

lemma climbed_snoc:
  "climbed (up @ [e, parent]) =
     climbed (up @ [e]) @ filter (\<lambda>sibling. sibling \<noteq> node_of e) (map node_of (children_of parent))"
  by (induction up rule: climbed.induct) auto

lemma climbed_way:
  "climbed (rev (parent # e # way)) =
     climbed (rev (e # way)) @ filter (\<lambda>sibling. sibling \<noteq> node_of e) (map node_of (children_of parent))"
  using climbed_snoc [of "rev way" e parent] by simp

fun elements :: "'n element \<Rightarrow> 'n element list" where
  "elements (Element n es) = Element n es # concat (map elements es)"

lemma element_in_elements: "e \<in> set (elements e)"
  by (cases e) simp

lemma apart_nodes:
  "distinct (concat (map nodes es)) \<Longrightarrow> s \<in> set es \<Longrightarrow> e \<in> set es \<Longrightarrow> s \<noteq> e \<Longrightarrow>
   set (nodes s) \<inter> set (nodes e) = {}"
  by (induction es) auto

lemma node_in_nodes: "node_of e \<in> set (nodes e)"
  by (cases e) simp

lemma way_shape:
  "way_to P e = Some way \<Longrightarrow> \<exists>rest. way = e # rest"
  "way_among P es = Some way \<Longrightarrow> \<exists>e rest. e \<in> set es \<and> way = e # rest \<and> way_to P e = Some way"
  by (induction P e and P es arbitrary: way and way rule: way_to_way_among.induct)
    (auto split: if_splits option.splits)

text \<open>
  The way ends at the element asked for. Every element of the tree is in that element, on the way to
  it, or in one that lies beside the way; and what lies beside the way is neither.
\<close>

lemma way_covers:
  "way_to P e = Some way \<Longrightarrow> distinct (nodes e) \<Longrightarrow>
     P (node_of (last way)) \<and> set (nodes (last way)) \<subseteq> set (nodes e) \<and> node_of ` set way \<subseteq> set (nodes e) \<and>
     (\<forall>n\<in>set (nodes e) - set (nodes (last way)) - node_of ` set way.
        \<exists>s\<in>set (elements e). node_of s \<in> set (climbed (rev way)) \<and> n \<in> set (nodes s)) \<and>
     (\<forall>m\<in>set (climbed (rev way)). m \<in> set (nodes e) \<and> m \<notin> set (nodes (last way)) \<and> m \<notin> node_of ` set way)"
  "way_among P es = Some way \<Longrightarrow> distinct (concat (map nodes es)) \<Longrightarrow> \<exists>e\<in>set es. way_to P e = Some way \<and>
     P (node_of (last way)) \<and> set (nodes (last way)) \<subseteq> set (nodes e) \<and> node_of ` set way \<subseteq> set (nodes e) \<and>
     (\<forall>n\<in>set (nodes e) - set (nodes (last way)) - node_of ` set way.
        \<exists>s\<in>set (elements e). node_of s \<in> set (climbed (rev way)) \<and> n \<in> set (nodes s)) \<and>
     (\<forall>m\<in>set (climbed (rev way)). m \<in> set (nodes e) \<and> m \<notin> set (nodes (last way)) \<and> m \<notin> node_of ` set way)"
proof (induction P e and P es arbitrary: way and way rule: way_to_way_among.induct)
  case (1 P n es)
  show ?case
  proof (cases "P n")
    case True
    with 1(2) show ?thesis by auto
  next
    case False
    with 1(2) obtain below where below: "way_among P es = Some below" "way = Element n es # below" by auto
    have once: "distinct (concat (map nodes es))" "n \<notin> set (concat (map nodes es))" using 1(3) by auto
    from 1(1) [OF False below(1) once(1)] obtain e where e: "e \<in> set es" "way_to P e = Some below"
      and IH: "P (node_of (last below))" "set (nodes (last below)) \<subseteq> set (nodes e)"
        "node_of ` set below \<subseteq> set (nodes e)"
        "\<forall>n\<in>set (nodes e) - set (nodes (last below)) - node_of ` set below.
          \<exists>s\<in>set (elements e). node_of s \<in> set (climbed (rev below)) \<and> n \<in> set (nodes s)"
        "\<forall>m\<in>set (climbed (rev below)). m \<in> set (nodes e) \<and> m \<notin> set (nodes (last below)) \<and> m \<notin> node_of ` set below"
      by blast
    obtain rest where rest: "below = e # rest" using way_shape(1) [OF e(2)] by blast
    have climbed: "climbed (rev way) = climbed (rev below) @ filter (\<lambda>s. s \<noteq> node_of e) (map node_of es)"
      using climbed_way [of "Element n es" e rest] below(2) rest by simp
    have apart: "set (nodes s) \<inter> set (nodes e) = {}" if "s \<in> set es" "node_of s \<noteq> node_of e" for s
      using apart_nodes [OF once(1) that(1) e(1)] that(2) by blast
    have beside: "node_of s \<in> set (climbed (rev way))" if "s \<in> set es" "node_of s \<noteq> node_of e" for s
      using that by (auto simp: climbed)
    have all: "\<exists>s\<in>set (elements (Element n es)). node_of s \<in> set (climbed (rev way)) \<and> m \<in> set (nodes s)"
      if m: "m \<in> set (nodes (Element n es)) - set (nodes (last way)) - node_of ` set way" for m
    proof -
      obtain s where s: "s \<in> set es" "m \<in> set (nodes s)" using m below(2) by auto
      show ?thesis
      proof (cases "s = e")
        case True
        then have "m \<in> set (nodes e) - set (nodes (last below)) - node_of ` set below"
          using s(2) m below(2) rest by auto
        then obtain t where "t \<in> set (elements e)" "node_of t \<in> set (climbed (rev below))" "m \<in> set (nodes t)"
          using IH(4) by blast
        then show ?thesis using climbed e(1) by (intro bexI [of _ t]) auto
      next
        case False
        then have "node_of s \<noteq> node_of e"
          using apart_nodes [OF once(1) s(1) e(1) False] node_in_nodes [of s] node_in_nodes [of e] by auto
        with beside s show ?thesis using element_in_elements [of s] by (intro bexI [of _ s]) auto
      qed
    qed
    have none: "m \<in> set (nodes (Element n es)) \<and> m \<notin> set (nodes (last way)) \<and> m \<notin> node_of ` set way"
      if m: "m \<in> set (climbed (rev way))" for m
    proof (cases "m \<in> set (climbed (rev below))")
      case True
      then show ?thesis using IH(5) once(2) e(1) below(2) rest by auto
    next
      case False
      then obtain s where s: "s \<in> set es" "m = node_of s" "node_of s \<noteq> node_of e" using m climbed by auto
      then have "m \<notin> set (nodes e)" "m \<noteq> n" using apart node_in_nodes [of s] once(2) by auto
      then show ?thesis using IH(2,3) s(1,2) below(2) rest node_in_nodes [of s] by auto
    qed
    have inside: "set (nodes e) \<subseteq> set (nodes (Element n es))" using e(1) by auto
    have last: "last way = last below" using below(2) rest by simp
    have "P (node_of (last way))" "set (nodes (last way)) \<subseteq> set (nodes (Element n es))"
      using IH(1,2) inside by (auto simp: last)
    moreover have "node_of ` set way \<subseteq> set (nodes (Element n es))"
      using IH(3) inside below(2) by auto
    ultimately show ?thesis using all none by blast
  qed
next
  case (3 P e es)
  show ?case
  proof (cases "way_to P e")
    case None
    with 3(3,4) have "way_among P es = Some way" "distinct (concat (map nodes es))" by auto
    from 3(2) [OF None this] show ?thesis by auto
  next
    case (Some found)
    with 3(3,4) have "way_to P e = Some way" "distinct (nodes e)" by auto
    from this 3(1) [OF this] show ?thesis by auto
  qed
qed simp

section \<open>One run of the script\<close>

lemma set_inert_frame [simp]:
  "pg_body (set_inert i mark p) = pg_body p" "pg_id (set_inert i mark p) = pg_id p"
  by (simp_all add: set_inert_def Let_def climb_fold split: option.split)

lemma set_inert_ok: "page_ok own p \<Longrightarrow> (mark \<Longrightarrow> dialog_name i) \<Longrightarrow> page_ok own (set_inert i mark p)"
  by (auto simp: set_inert_def Let_def climb_fold intro: unwind_ok mark_ok split: option.split)

lemma way_to_id_frame [simp]: "way_to_id i (fold (unwind_element j) ns p) = way_to_id i p"
  by (simp add: way_to_id_def)

text \<open>A run takes the dialog's own marks back and, when it is open, leaves them beside its way.\<close>

lemma unmarked: "n \<in> set (nodes (pg_body p)) \<Longrightarrow> set (marks (set_inert i False p) n) = set (marks p n) - {i}"
  by (auto simp: set_inert_def unwind_marks)

lemma marked:
  assumes "dialog_name i" and "page_ok own p" and "n \<in> set (nodes (pg_body p))"
  shows "set (marks (set_inert i True p) n) = set (marks p n) - {i} \<union>
    (case way_to_id i p of None \<Rightarrow> {} | Some way \<Rightarrow> if n \<in> set (climbed (rev way)) \<and> \<not> own n then {i} else {})"
  using assms(3) mark_marks [OF assms(1) unwind_ok [OF assms(2)]]
  by (auto simp: set_inert_def Let_def climb_fold unwind_marks split: option.split)

lemma set_inert_marks:
  assumes "page_ok own p" and "mark \<Longrightarrow> dialog_name i" and "n \<in> set (nodes (pg_body p))"
    and "j \<in> set (marks (set_inert i mark p) n)"
  shows "j \<in> set (marks p n) \<and> j \<noteq> i \<or> j = i \<and> mark"
proof (cases mark)
  case True
  then show ?thesis using assms marked [OF _ assms(1,3), of i] by (auto split: option.splits if_splits)
next
  case False
  then show ?thesis using assms(4) unmarked [OF assms(3), of i] by auto
qed

section \<open>Dialogs that come and go\<close>

text \<open>
  The dialogs of the page by their numbers. A dialog is mounted, given other props, opened or closed
  by itself, and dropped; after each of the first three its effect runs. In between the application
  renders its elements anew: an element that was not on the page before comes without a tag.
\<close>

datatype 'n dialog_move =
  Mounts nat "string option" "bool option" bool
| Props nat "string option" "bool option"
| Changes nat bool
| Drops nat
| Renders "'n element" "'n \<Rightarrow> string"

type_synonym 'n dialogs = "(nat \<rightharpoonup> dialog) \<times> 'n web_page"

definition run_effect :: "nat \<Rightarrow> dialog \<Rightarrow> 'n dialogs \<Rightarrow> 'n dialogs" where
  "run_effect k d = (\<lambda>(D, p). case inert_effect (d, p) of (d', p') \<Rightarrow> (D(k \<mapsto> d'), p'))"

definition rendered :: "('n \<Rightarrow> bool) \<Rightarrow> 'n element \<Rightarrow> ('n \<Rightarrow> string) \<Rightarrow> 'n web_page \<Rightarrow> 'n web_page" where
  "rendered own body ids p =
     \<lparr>pg_body = body, pg_id = ids,
      pg_inert = (\<lambda>n. if n \<in> set (nodes (pg_body p)) then pg_inert p n else own n),
      pg_by = (\<lambda>n. if n \<in> set (nodes (pg_body p)) then pg_by p n else None)\<rparr>"

fun dialog_step :: "('n \<Rightarrow> bool) \<Rightarrow> 'n dialog_move \<Rightarrow> 'n dialogs \<Rightarrow> 'n dialogs" where
  "dialog_step own (Mounts k i shown default_open) (D, p) =
     (if D k \<noteq> None then (D, p)
      else run_effect k \<lparr>dg_id = i, dg_generated = generated_dialog_id k, dg_open = shown,
        dg_uncontrolled = default_open, dg_marked = None\<rparr> (D, p))"
| "dialog_step own (Props k i shown) (D, p) =
     (case D k of None \<Rightarrow> (D, p) | Some d \<Rightarrow> run_effect k (d\<lparr>dg_id := i, dg_open := shown\<rparr>) (D, p))"
| "dialog_step own (Changes k shown) (D, p) =
     (case D k of None \<Rightarrow> (D, p) | Some d \<Rightarrow> run_effect k (dialog_changed shown d) (D, p))"
| "dialog_step own (Drops k) (D, p) =
     (case D k of None \<Rightarrow> (D, p) | Some d \<Rightarrow> (D(k := None), dialog_dropped d p))"
| "dialog_step own (Renders body ids) (D, p) = (D, rendered own body ids p)"

definition plain_page :: "('n \<Rightarrow> bool) \<Rightarrow> 'n element \<Rightarrow> ('n \<Rightarrow> string) \<Rightarrow> 'n web_page" where
  "plain_page own body ids = \<lparr>pg_body = body, pg_id = ids, pg_inert = own, pg_by = (\<lambda>_. None)\<rparr>"

text \<open>Ids are words, and no element is in the page twice.\<close>

fun fair_move :: "'n dialog_move \<Rightarrow> bool" where
  "fair_move (Mounts k i shown default_open) = (case i of None \<Rightarrow> True | Some i \<Rightarrow> dialog_name i)"
| "fair_move (Props k i shown) = (case i of None \<Rightarrow> True | Some i \<Rightarrow> dialog_name i)"
| "fair_move (Renders body ids) = distinct (nodes body)"
| "fair_move _ = True"

definition fair_dialog :: "dialog \<Rightarrow> bool" where
  "fair_dialog d \<longleftrightarrow> dialog_name (dialog_id d) \<and> dialog_name (dg_generated d)"

definition dialogs_ok :: "('n \<Rightarrow> bool) \<Rightarrow> 'n dialogs \<Rightarrow> bool" where
  "dialogs_ok own = (\<lambda>(D, p). page_ok own p \<and> distinct (nodes (pg_body p)) \<and>
     (\<forall>k d. D k = Some d \<longrightarrow> fair_dialog d \<and> dg_marked d = Some (dialog_id d)) \<and>
     (\<forall>n\<in>set (nodes (pg_body p)). \<forall>i\<in>set (marks p n). \<exists>k d. D k = Some d \<and> dialog_open d \<and> dialog_id d = i))"

lemma dialog_marked [simp]:
  "dialog_id (d\<lparr>dg_marked := m\<rparr>) = dialog_id d" "dialog_open (d\<lparr>dg_marked := m\<rparr>) = dialog_open d"
  "fair_dialog (d\<lparr>dg_marked := m\<rparr>) = fair_dialog d"
  by (simp_all add: dialog_id_def dialog_open_def fair_dialog_def split: option.split)

lemma dialogs_held:
  "dialogs_ok own (D, p) \<Longrightarrow> n \<in> set (nodes (pg_body p)) \<Longrightarrow> j \<in> set (marks p n) \<Longrightarrow>
   \<exists>k d. D k = Some d \<and> dialog_open d \<and> dialog_id d = j"
  by (simp add: dialogs_ok_def)

text \<open>The effect of a dialog over the page: what it was tagged with before is gone.\<close>

lemma effect_keeps:
  assumes "dialogs_ok own (D, p)" and "fair_dialog d" and "dg_marked d = map_option dialog_id (D k)"
  shows "dialogs_ok own (run_effect k d (D, p))"
proof -
  let ?i = "dialog_id d"
  define p1 where "p1 = (case dg_marked d of
    Some previous \<Rightarrow> if previous \<noteq> ?i then set_inert previous False p else p | None \<Rightarrow> p)"
  define p2 where "p2 = set_inert ?i (dialog_open d) p1"
  have run: "run_effect k d (D, p) = (D(k \<mapsto> d\<lparr>dg_marked := Some ?i\<rparr>), p2)"
    by (simp add: run_effect_def inert_effect_def p1_def p2_def Let_def)
  have name: "dialog_name ?i" using assms(2) by (simp add: fair_dialog_def)
  have ok: "page_ok own p1" and body: "pg_body p1 = pg_body p" "pg_body p2 = pg_body p"
    using assms(1) by (auto simp: dialogs_ok_def p1_def p2_def intro: set_inert_ok split: option.split)
  have held: "\<exists>k' d'. (D(k \<mapsto> d\<lparr>dg_marked := Some ?i\<rparr>)) k' = Some d' \<and> dialog_open d' \<and> dialog_id d' = j"
    if n: "n \<in> set (nodes (pg_body p))" and j: "j \<in> set (marks p2 n)" for n j
  proof (cases "j = ?i \<and> dialog_open d")
    case True
    then show ?thesis by (intro exI [of _ k]) simp
  next
    case False
    then have j1: "j \<in> set (marks p1 n)" "j \<noteq> ?i"
      using set_inert_marks [OF ok name, of n j "dialog_open d"] n j body by (auto simp: p2_def)
    have "j \<in> set (marks p n) \<and> dg_marked d \<noteq> Some j"
      using j1 unmarked [OF n] by (auto simp: p1_def split: option.splits if_splits)
    then obtain k' d' where d': "D k' = Some d'" "dialog_open d'" "dialog_id d' = j" "dg_marked d \<noteq> Some j"
      using dialogs_held [OF assms(1) n] by blast
    with assms(3) have "k' \<noteq> k" by auto
    with d' show ?thesis by (intro exI [of _ k'] exI [of _ d']) simp
  qed
  have "page_ok own p2" unfolding p2_def using ok name by (intro set_inert_ok)
  with held show ?thesis
    using assms(1,2) body by (simp add: run dialogs_ok_def)
qed

lemma drop_keeps:
  assumes "dialogs_ok own (D, p)" and "D k = Some d"
  shows "dialogs_ok own (D(k := None), dialog_dropped d p)"
proof -
  have marked: "dg_marked d = Some (dialog_id d)" using assms by (auto simp: dialogs_ok_def)
  have held: "\<exists>k' d'. (D(k := None)) k' = Some d' \<and> dialog_open d' \<and> dialog_id d' = j"
    if n: "n \<in> set (nodes (pg_body p))" and j: "j \<in> set (marks (set_inert (dialog_id d) False p) n)" for n j
  proof -
    have "j \<in> set (marks p n)" "j \<noteq> dialog_id d" using j unmarked [OF n] by auto
    moreover obtain k' d' where d': "D k' = Some d'" "dialog_open d'" "dialog_id d' = j"
      using dialogs_held [OF assms(1) n calculation(1)] by blast
    ultimately have "k' \<noteq> k" using assms(2) by auto
    with d' show ?thesis by (intro exI [of _ k'] exI [of _ d']) simp
  qed
  with assms show ?thesis
    by (auto simp: dialogs_ok_def dialog_dropped_def marked intro: set_inert_ok split: if_splits)
qed

lemma render_keeps:
  assumes "dialogs_ok own (D, p)" and "distinct (nodes body)"
  shows "dialogs_ok own (D, rendered own body ids p)"
  using assms by (auto simp: dialogs_ok_def rendered_def page_ok_def marks_def)

lemma generated_named: "dialog_name (generated_dialog_id k)"
proof -
  have "CHR '' '' \<notin> set (show_nat k)" by (rule char_not_in_show_nat) (simp add: byte_def)
  then show ?thesis by (simp add: dialog_name_def generated_dialog_id_def)
qed

lemma step_keeps:
  assumes "dialogs_ok own (D, p)" and "fair_move m"
  shows "dialogs_ok own (dialog_step own m (D, p))"
proof -
  have held: "dialog_name (dg_generated d)" "dialog_name (dialog_id d)" "dg_marked d = map_option dialog_id (D k)"
    if "D k = Some d" for k d
    using assms(1) that by (simp_all add: dialogs_ok_def fair_dialog_def)
  note effect = effect_keeps [OF assms(1)]
  show ?thesis
  proof (cases m)
    case (Mounts k i shown default_open)
    have "fair_dialog \<lparr>dg_id = i, dg_generated = generated_dialog_id k, dg_open = shown,
        dg_uncontrolled = default_open, dg_marked = None\<rparr>"
      using assms(2) generated_named [of k] by (simp add: Mounts fair_dialog_def dialog_id_def split: option.splits)
    then show ?thesis using assms(1) by (simp add: Mounts effect)
  next
    case (Props k i shown)
    show ?thesis
    proof (cases "D k")
      case (Some d)
      have "fair_dialog (d\<lparr>dg_id := i, dg_open := shown\<rparr>)"
        using assms(2) held(1) [OF Some] by (simp add: Props fair_dialog_def dialog_id_def split: option.splits)
      moreover have "dg_marked (d\<lparr>dg_id := i, dg_open := shown\<rparr>) = map_option dialog_id (D k)"
        using held(3) [OF Some] by simp
      ultimately show ?thesis unfolding Props by (simp only: dialog_step.simps Some option.case) (rule effect, simp_all only: Some)
    qed (use assms(1) in \<open>simp add: Props\<close>)
  next
    case (Changes k shown)
    show ?thesis
    proof (cases "D k")
      case (Some d)
      have "fair_dialog (dialog_changed shown d)"
        using held(1,2) [OF Some] by (simp add: dialog_changed_def fair_dialog_def dialog_id_def split: option.splits)
      moreover have "dg_marked (dialog_changed shown d) = map_option dialog_id (D k)"
        using held(3) [OF Some] by (simp add: dialog_changed_def)
      ultimately show ?thesis unfolding Changes by (simp only: dialog_step.simps Some option.case) (rule effect, simp_all only: Some)
    qed (use assms(1) in \<open>simp add: Changes\<close>)
  next
    case (Drops k)
    then show ?thesis using assms(1) by (auto intro: drop_keeps split: option.split)
  next
    case (Renders body ids)
    then show ?thesis using assms by (simp add: render_keeps)
  qed
qed

lemma steps_keep:
  "dialogs_ok own s \<Longrightarrow> list_all fair_move moves \<Longrightarrow> dialogs_ok own (fold (dialog_step own) moves s)"
proof (induction moves arbitrary: s)
  case (Cons m moves)
  obtain D p where "s = (D, p)" by (cases s)
  then have "dialogs_ok own (dialog_step own m s)" using Cons.prems step_keeps [of own D p m] by simp
  then show ?case using Cons.IH Cons.prems(2) by simp
qed simp

section \<open>Properties\<close>

text \<open>What a dialog that is open covers once its effect ran.\<close>

lemma effect_covers:
  assumes "dialogs_ok own (D, p)" and "D k = Some d" and "dialog_open d"
    and "way_to_id (dialog_id d) p = Some way" and "inert_effect (d, p) = (d', p')"
  shows "(\<forall>n\<in>set (nodes (pg_body p)) - set (nodes (last way)) - node_of ` set way.
            \<exists>s\<in>set (elements (pg_body p)). n \<in> set (nodes s) \<and> pg_inert p' (node_of s)) \<and>
         (\<forall>n\<in>set (nodes (last way)) \<union> node_of ` set way. dialog_id d \<notin> set (marks p' n))"
proof -
  have d: "dialog_name (dialog_id d)" "dg_marked d = Some (dialog_id d)"
    and p: "page_ok own p" "distinct (nodes (pg_body p))"
    using assms(1,2) by (simp_all add: dialogs_ok_def fair_dialog_def)
  have p': "p' = set_inert (dialog_id d) True p"
    using assms(3,5) d(2) by (simp add: inert_effect_def Let_def)
  have ok: "page_ok own p'" unfolding p' using p(1) d(1) by (rule set_inert_ok)
  note covers = way_covers(1) [OF assms(4) [unfolded way_to_id_def] p(2)]
  note left = marked [OF d(1) p(1), unfolded assms(4) option.case, folded p']
  have "pg_inert p' m" if m: "m \<in> set (climbed (rev way))" for m
  proof -
    have "own m \<or> marks p' m \<noteq> []" using left [of m] m covers by auto
    then show ?thesis using ok by (auto simp: page_ok_def marks_def)
  qed
  moreover have "dialog_id d \<notin> set (marks p' n)" if "n \<in> set (nodes (last way)) \<union> node_of ` set way" for n
  proof -
    have "n \<in> set (nodes (pg_body p))" "n \<notin> set (climbed (rev way))" using that covers by auto
    then show ?thesis using left by auto
  qed
  ultimately show ?thesis using covers by (meson)
qed

text \<open>
  Whatever dialogs are mounted, given other ids, opened, closed and dropped, with the page rendered
  anew in between: an element is inert exactly when the application made it so or it is tagged, and
  every tag is the id of a dialog that is open, so a page without an open dialog is as the application
  left it. And once the effect of an open dialog that is on the page ran, every element of the page
  is inert or in one that is, but for those in the dialog and around it, which it does not tag.
\<close>

theorem alert_dialogs_cover_and_release:
  assumes "distinct (nodes body)" and "list_all fair_move moves"
  shows "case fold (dialog_step own) moves (Map.empty, plain_page own body ids) of (D, p) \<Rightarrow>
    (\<forall>n. pg_inert p n \<longleftrightarrow> own n \<or> marks p n \<noteq> []) \<and>
    (\<forall>n\<in>set (nodes (pg_body p)). \<forall>i\<in>set (marks p n). \<exists>k d. D k = Some d \<and> dialog_open d \<and> dialog_id d = i) \<and>
    (\<forall>k d way. D k = Some d \<and> dialog_open d \<and> way_to_id (dialog_id d) p = Some way \<longrightarrow>
       (case inert_effect (d, p) of (_, p') \<Rightarrow>
         (\<forall>n\<in>set (nodes (pg_body p)) - set (nodes (last way)) - node_of ` set way.
            \<exists>s\<in>set (elements (pg_body p)). n \<in> set (nodes s) \<and> pg_inert p' (node_of s)) \<and>
         (\<forall>n\<in>set (nodes (last way)) \<union> node_of ` set way. dialog_id d \<notin> set (marks p' n))))"
proof -
  obtain D p where fin: "fold (dialog_step own) moves (Map.empty, plain_page own body ids) = (D, p)"
    by (cases "fold (dialog_step own) moves (Map.empty, plain_page own body ids)")
  have "dialogs_ok own (Map.empty, plain_page own body ids)"
    using assms(1) by (simp add: dialogs_ok_def plain_page_def page_ok_def marks_def)
  then have ok: "dialogs_ok own (D, p)" using steps_keep [OF _ assms(2)] fin by metis
  have "pg_inert p n \<longleftrightarrow> own n \<or> marks p n \<noteq> []" for n
    using ok by (auto simp: dialogs_ok_def page_ok_def marks_def)
  moreover note dialogs_held [OF ok]
  moreover note effect_covers [OF ok]
  ultimately show ?thesis unfolding fin prod.case by (auto split: prod.split)
qed

text \<open>A confirmation that opens beside the page and closes again.\<close>

lemma confirmation_opens_and_closes:
  "map (\<lambda>moves. map (pg_inert (snd (fold (dialog_step (\<lambda>_. False)) moves
      (Map.empty, plain_page (\<lambda>_. False) (Element (0 :: nat) [Element 1 [], Element 2 []])
        (\<lambda>n. if n = 2 then ''confirm'' else []))))) [0, 1, 2])
     [[Mounts 0 (Some ''confirm'') None True], [Mounts 0 (Some ''confirm'') None True, Changes 0 False]] =
   [[False, True, False], [False, False, False]]"
  by code_simp

end
