(* ===== verification/Ui_Components.thy ===== *)
theory Ui_Components
  imports Main
begin

text \<open>
  The classes of the component library (\<^verbatim>\<open>apps/web/src/components\<close>): each axis of a component with the
  class of each of its values, what the elements put together of them, and the list of an axis's values,
  which holds each of them once.
\<close>

section \<open>Button\<close>

datatype button_color = BtnDefault | BtnNeutral | BtnPrimary | BtnSecondary | BtnAccent | BtnInfo | BtnSuccess | BtnWarning | BtnError

definition ALL_button_color :: "button_color list" where
  "ALL_button_color = [BtnDefault, BtnNeutral, BtnPrimary, BtnSecondary, BtnAccent, BtnInfo, BtnSuccess, BtnWarning, BtnError]"

fun button_color_class :: "button_color \<Rightarrow> string" where
  "button_color_class BtnDefault = []"
| "button_color_class BtnNeutral = ''btn-neutral''"
| "button_color_class BtnPrimary = ''btn-primary''"
| "button_color_class BtnSecondary = ''btn-secondary''"
| "button_color_class BtnAccent = ''btn-accent''"
| "button_color_class BtnInfo = ''btn-info''"
| "button_color_class BtnSuccess = ''btn-success''"
| "button_color_class BtnWarning = ''btn-warning''"
| "button_color_class BtnError = ''btn-error''"

datatype button_size = BtnSizeXs | BtnSizeSm | BtnSizeDefault | BtnSizeLg | BtnSizeXl

definition ALL_button_size :: "button_size list" where
  "ALL_button_size = [BtnSizeXs, BtnSizeSm, BtnSizeDefault, BtnSizeLg, BtnSizeXl]"

fun button_size_class :: "button_size \<Rightarrow> string" where
  "button_size_class BtnSizeXs = ''btn-xs''"
| "button_size_class BtnSizeSm = ''btn-sm''"
| "button_size_class BtnSizeDefault = []"
| "button_size_class BtnSizeLg = ''btn-lg''"
| "button_size_class BtnSizeXl = ''btn-xl''"

definition button_class :: "button_color \<Rightarrow> button_size \<Rightarrow> string" where
  "button_class color big = ''btn '' @ button_color_class color @ '' '' @ button_size_class big"

section \<open>Loading indicator\<close>

datatype loading_animation = AnimDefault | AnimDots | AnimRing | AnimBall | AnimBars | AnimInfinity

definition ALL_loading_animation :: "loading_animation list" where
  "ALL_loading_animation = [AnimDefault, AnimDots, AnimRing, AnimBall, AnimBars, AnimInfinity]"

fun loading_animation_class :: "loading_animation \<Rightarrow> string" where
  "loading_animation_class AnimDefault = []"
| "loading_animation_class AnimDots = ''loading-dots''"
| "loading_animation_class AnimRing = ''loading-ring''"
| "loading_animation_class AnimBall = ''loading-ball''"
| "loading_animation_class AnimBars = ''loading-bars''"
| "loading_animation_class AnimInfinity = ''loading-infinity''"

datatype loading_size = LoadingSizeXs | LoadingSizeSm | LoadingSizeDefault | LoadingSizeLg | LoadingSizeXl

definition ALL_loading_size :: "loading_size list" where
  "ALL_loading_size = [LoadingSizeXs, LoadingSizeSm, LoadingSizeDefault, LoadingSizeLg, LoadingSizeXl]"

fun loading_size_class :: "loading_size \<Rightarrow> string" where
  "loading_size_class LoadingSizeXs = ''loading-xs''"
| "loading_size_class LoadingSizeSm = ''loading-sm''"
| "loading_size_class LoadingSizeDefault = []"
| "loading_size_class LoadingSizeLg = ''loading-lg''"
| "loading_size_class LoadingSizeXl = ''loading-xl''"

definition loading_class :: "loading_animation \<Rightarrow> loading_size \<Rightarrow> string" where
  "loading_class animation big = ''loading '' @ loading_animation_class animation @ '' '' @ loading_size_class big"

section \<open>Alert dialog\<close>

datatype dialog_placement = PlacedDefault | PlacedTop | PlacedMiddle | PlacedBottom | PlacedStart | PlacedEnd

definition ALL_dialog_placement :: "dialog_placement list" where
  "ALL_dialog_placement = [PlacedDefault, PlacedTop, PlacedMiddle, PlacedBottom, PlacedStart, PlacedEnd]"

fun dialog_placement_class :: "dialog_placement \<Rightarrow> string" where
  "dialog_placement_class PlacedDefault = []"
| "dialog_placement_class PlacedTop = ''modal-top''"
| "dialog_placement_class PlacedMiddle = ''modal-middle''"
| "dialog_placement_class PlacedBottom = ''modal-bottom''"
| "dialog_placement_class PlacedStart = ''modal-start''"
| "dialog_placement_class PlacedEnd = ''modal-end''"

datatype dialog_button_color = DialogBtnDefault | DialogBtnNeutral | DialogBtnPrimary | DialogBtnSecondary | DialogBtnAccent | DialogBtnInfo | DialogBtnSuccess | DialogBtnWarning | DialogBtnError

definition ALL_dialog_button_color :: "dialog_button_color list" where
  "ALL_dialog_button_color = [DialogBtnDefault, DialogBtnNeutral, DialogBtnPrimary, DialogBtnSecondary, DialogBtnAccent, DialogBtnInfo, DialogBtnSuccess, DialogBtnWarning, DialogBtnError]"

fun dialog_button_class :: "dialog_button_color \<Rightarrow> string" where
  "dialog_button_class DialogBtnDefault = []"
| "dialog_button_class DialogBtnNeutral = ''btn-neutral''"
| "dialog_button_class DialogBtnPrimary = ''btn-primary''"
| "dialog_button_class DialogBtnSecondary = ''btn-secondary''"
| "dialog_button_class DialogBtnAccent = ''btn-accent''"
| "dialog_button_class DialogBtnInfo = ''btn-info''"
| "dialog_button_class DialogBtnSuccess = ''btn-success''"
| "dialog_button_class DialogBtnWarning = ''btn-warning''"
| "dialog_button_class DialogBtnError = ''btn-error''"

datatype dialog_title_appearance = TitledDefault | TitledNone

definition ALL_dialog_title_appearance :: "dialog_title_appearance list" where
  "ALL_dialog_title_appearance = [TitledDefault, TitledNone]"

fun dialog_title_class :: "dialog_title_appearance \<Rightarrow> string" where
  "dialog_title_class TitledDefault = ''text-lg font-bold''"
| "dialog_title_class TitledNone = []"

datatype dialog_description_appearance = DescribedDefault | DescribedNone

definition ALL_dialog_description_appearance :: "dialog_description_appearance list" where
  "ALL_dialog_description_appearance = [DescribedDefault, DescribedNone]"

fun dialog_description_class :: "dialog_description_appearance \<Rightarrow> string" where
  "dialog_description_class DescribedDefault = ''py-4''"
| "dialog_description_class DescribedNone = []"

text \<open>
  An attribute of an element: text, or a value of another kind. \<open>take_class\<close> takes the first class that
  is text out of the list.
\<close>

datatype attribute_value = TextValue string | OtherValue

type_synonym attribute = "string \<times> attribute_value"

fun take_class :: "attribute list \<Rightarrow> string \<times> attribute list" where
  "take_class [] = ([], [])"
| "take_class ((name, given) # attributes) =
     (case (name = ''class'', given) of
        (True, TextValue text) \<Rightarrow> (text, attributes)
      | _ \<Rightarrow> (case take_class attributes of (text, rest) \<Rightarrow> (text, (name, given) # rest)))"

section \<open>Toast\<close>

datatype toast_inline = InlineStart | InlineCenter | InlineEnd

definition ALL_toast_inline :: "toast_inline list" where
  "ALL_toast_inline = [InlineStart, InlineCenter, InlineEnd]"

fun toast_inline_class :: "toast_inline \<Rightarrow> string" where
  "toast_inline_class InlineStart = ''toast-start''"
| "toast_inline_class InlineCenter = ''toast-center''"
| "toast_inline_class InlineEnd = ''toast-end''"

datatype toast_block = BlockTop | BlockMiddle | BlockBottom

definition ALL_toast_block :: "toast_block list" where
  "ALL_toast_block = [BlockTop, BlockMiddle, BlockBottom]"

fun toast_block_class :: "toast_block \<Rightarrow> string" where
  "toast_block_class BlockTop = ''toast-top''"
| "toast_block_class BlockMiddle = ''toast-middle''"
| "toast_block_class BlockBottom = ''toast-bottom''"

datatype toast_color = ToastInfo | ToastSuccess | ToastWarning | ToastError

definition ALL_toast_color :: "toast_color list" where
  "ALL_toast_color = [ToastInfo, ToastSuccess, ToastWarning, ToastError]"

fun toast_color_class :: "toast_color \<Rightarrow> string" where
  "toast_color_class ToastInfo = ''alert-info''"
| "toast_color_class ToastSuccess = ''alert-success''"
| "toast_color_class ToastWarning = ''alert-warning''"
| "toast_color_class ToastError = ''alert-error''"

text \<open>The kinds a toast is dispatched as, which are the toast library's.\<close>

datatype toast_type = TypeInfo | TypeSuccess | TypeWarning | TypeError

fun toast_color_of :: "toast_type \<Rightarrow> toast_color" where
  "toast_color_of TypeInfo = ToastInfo"
| "toast_color_of TypeSuccess = ToastSuccess"
| "toast_color_of TypeWarning = ToastWarning"
| "toast_color_of TypeError = ToastError"

fun toast_type_of :: "toast_color \<Rightarrow> toast_type" where
  "toast_type_of ToastInfo = TypeInfo"
| "toast_type_of ToastSuccess = TypeSuccess"
| "toast_type_of ToastWarning = TypeWarning"
| "toast_type_of ToastError = TypeError"

datatype toast_list_appearance = ListedDefault | ListedNone

definition ALL_toast_list_appearance :: "toast_list_appearance list" where
  "ALL_toast_list_appearance = [ListedDefault, ListedNone]"

fun toast_list_class :: "toast_list_appearance \<Rightarrow> string" where
  "toast_list_class ListedDefault = ''[&>ol]:flex [&>ol]:flex-col [&>ol]:gap-2''"
| "toast_list_class ListedNone = []"

datatype toast_title_appearance = ToastTitledDefault | ToastTitledNone

definition ALL_toast_title_appearance :: "toast_title_appearance list" where
  "ALL_toast_title_appearance = [ToastTitledDefault, ToastTitledNone]"

fun toast_title_class :: "toast_title_appearance \<Rightarrow> string" where
  "toast_title_class ToastTitledDefault = ''font-semibold''"
| "toast_title_class ToastTitledNone = []"

datatype toast_description_appearance = ToastDescribedDefault | ToastDescribedNone

definition ALL_toast_description_appearance :: "toast_description_appearance list" where
  "ALL_toast_description_appearance = [ToastDescribedDefault, ToastDescribedNone]"

fun toast_description_class :: "toast_description_appearance \<Rightarrow> string" where
  "toast_description_class ToastDescribedDefault = ''text-xs''"
| "toast_description_class ToastDescribedNone = []"

definition toast_region_class :: "toast_inline \<Rightarrow> toast_block \<Rightarrow> toast_list_appearance \<Rightarrow> string" where
  "toast_region_class inline block appearance =
     ''toast '' @ toast_inline_class inline @ '' '' @ toast_block_class block @ '' '' @ toast_list_class appearance"

definition toast_class :: "toast_type \<Rightarrow> string" where
  "toast_class kind = ''alert '' @ toast_color_class (toast_color_of kind)"

section \<open>What they come to\<close>

text \<open>A kind of toast has a colour of its own.\<close>

lemma toast_color_codec: "toast_type_of (toast_color_of kind) = kind" "toast_color_of (toast_type_of color) = color"
  by (cases kind; simp) (cases color; simp)

text \<open>Each axis lists each of its values once, and no two of its values are drawn alike.\<close>

lemma axes_listed:
  "distinct ALL_button_color \<and> set ALL_button_color = UNIV"
  "distinct ALL_button_size \<and> set ALL_button_size = UNIV"
  "distinct ALL_loading_animation \<and> set ALL_loading_animation = UNIV"
  "distinct ALL_loading_size \<and> set ALL_loading_size = UNIV"
  "distinct ALL_dialog_placement \<and> set ALL_dialog_placement = UNIV"
  "distinct ALL_dialog_button_color \<and> set ALL_dialog_button_color = UNIV"
  "distinct ALL_dialog_title_appearance \<and> set ALL_dialog_title_appearance = UNIV"
  "distinct ALL_dialog_description_appearance \<and> set ALL_dialog_description_appearance = UNIV"
  "distinct ALL_toast_inline \<and> set ALL_toast_inline = UNIV"
  "distinct ALL_toast_block \<and> set ALL_toast_block = UNIV"
  "distinct ALL_toast_color \<and> set ALL_toast_color = UNIV"
  "distinct ALL_toast_list_appearance \<and> set ALL_toast_list_appearance = UNIV"
  "distinct ALL_toast_title_appearance \<and> set ALL_toast_title_appearance = UNIV"
  "distinct ALL_toast_description_appearance \<and> set ALL_toast_description_appearance = UNIV"
  subgoal using button_color.nchotomy by (auto simp: ALL_button_color_def)
  subgoal using button_size.nchotomy by (auto simp: ALL_button_size_def)
  subgoal using loading_animation.nchotomy by (auto simp: ALL_loading_animation_def)
  subgoal using loading_size.nchotomy by (auto simp: ALL_loading_size_def)
  subgoal using dialog_placement.nchotomy by (auto simp: ALL_dialog_placement_def)
  subgoal using dialog_button_color.nchotomy by (auto simp: ALL_dialog_button_color_def)
  subgoal using dialog_title_appearance.nchotomy by (auto simp: ALL_dialog_title_appearance_def)
  subgoal using dialog_description_appearance.nchotomy by (auto simp: ALL_dialog_description_appearance_def)
  subgoal using toast_inline.nchotomy by (auto simp: ALL_toast_inline_def)
  subgoal using toast_block.nchotomy by (auto simp: ALL_toast_block_def)
  subgoal using toast_color.nchotomy by (auto simp: ALL_toast_color_def)
  subgoal using toast_list_appearance.nchotomy by (auto simp: ALL_toast_list_appearance_def)
  subgoal using toast_title_appearance.nchotomy by (auto simp: ALL_toast_title_appearance_def)
  subgoal using toast_description_appearance.nchotomy by (auto simp: ALL_toast_description_appearance_def)
  done

lemma axes_told_apart:
  "inj button_color_class"
  "inj button_size_class"
  "inj loading_animation_class"
  "inj loading_size_class"
  "inj dialog_placement_class"
  "inj dialog_button_class"
  "inj dialog_title_class"
  "inj dialog_description_class"
  "inj toast_inline_class"
  "inj toast_block_class"
  "inj toast_color_class"
  "inj toast_list_class"
  "inj toast_title_class"
  "inj toast_description_class"
  subgoal by (rule injI) (auto elim!: button_color_class.elims)
  subgoal by (rule injI) (auto elim!: button_size_class.elims)
  subgoal by (rule injI) (auto elim!: loading_animation_class.elims)
  subgoal by (rule injI) (auto elim!: loading_size_class.elims)
  subgoal by (rule injI) (auto elim!: dialog_placement_class.elims)
  subgoal by (rule injI) (auto elim!: dialog_button_class.elims)
  subgoal by (rule injI) (auto elim!: dialog_title_class.elims)
  subgoal by (rule injI) (auto elim!: dialog_description_class.elims)
  subgoal by (rule injI) (auto elim!: toast_inline_class.elims)
  subgoal by (rule injI) (auto elim!: toast_block_class.elims)
  subgoal by (rule injI) (auto elim!: toast_color_class.elims)
  subgoal by (rule injI) (auto elim!: toast_list_class.elims)
  subgoal by (rule injI) (auto elim!: toast_title_class.elims)
  subgoal by (rule injI) (auto elim!: toast_description_class.elims)
  done

text \<open>What is taken is the class the list carried, and nothing else leaves the list.\<close>

lemma take_class_rest:
  "take_class attributes = (text, rest) \<Longrightarrow>
     (text = [] \<and> rest = attributes) \<or>
     (\<exists>before after. attributes = before @ (''class'', TextValue text) # after \<and> rest = before @ after \<and>
        (\<forall>t. (''class'', TextValue t) \<notin> set before))"
proof (induction attributes arbitrary: rest)
  case (Cons a attributes)
  obtain name given where a: "a = (name, given)" by (cases a)
  show ?case
  proof (cases "\<exists>t. a = (''class'', TextValue t)")
    case True
    with Cons.prems have "a = (''class'', TextValue text)" "rest = attributes" by auto
    then show ?thesis by (metis append_Nil empty_iff empty_set)
  next
    case False
    with Cons.prems a obtain left where left: "take_class attributes = (text, left)" "rest = a # left"
      by (auto split: prod.splits attribute_value.splits bool.splits)
    from Cons.IH [OF left(1)] show ?thesis
    proof
      assume "\<exists>before after. attributes = before @ (''class'', TextValue text) # after \<and> left = before @ after \<and>
        (\<forall>t. (''class'', TextValue t) \<notin> set before)"
      then obtain before after where "attributes = before @ (''class'', TextValue text) # after" "left = before @ after"
        "\<forall>t. (''class'', TextValue t) \<notin> set before" by blast
      with left(2) False show ?thesis by (intro disjI2 exI [of _ "a # before"] exI [of _ after]) auto
    qed (use left(2) in simp)
  qed
qed simp

end
