(* ===== verification/Ui_Panes.thy ===== *)
theory Ui_Panes
  imports Ui_Panels Ui_Drawer Ui_Retry
begin

text \<open>
  What the drawers and the confirmation put before the user, as texts and links: a batch being followed
  (\<^verbatim>\<open>apps/web/src/ui/progress_drawer.rs\<close>), the list of the batches (\<^verbatim>\<open>ui/recent_batches.rs\<close>), the
  confirmation of an action (\<^verbatim>\<open>ui/confirm_modal.rs\<close>) and an open pull request
  (\<^verbatim>\<open>ui/detail_drawer.rs\<close>). The elements and classes the texts stand in are left out.
\<close>

definition MIDDLE_DOT :: string where
  "MIDDLE_DOT = [CHR '' '', CHR 0xC2, CHR 0xB7, CHR '' '']"

section \<open>One target of a batch\<close>

record commit_ref =
  cm_short :: string
  cm_whole :: string
  cm_href :: "string option"

definition commit_ref_of :: "string \<Rightarrow> string \<Rightarrow> commit_ref" where
  "commit_ref_of sha pull_request_url =
     \<lparr>cm_short = short_sha sha, cm_whole = sha, cm_href = commit_url pull_request_url sha\<rparr>"

record verdict_row =
  trw_class :: string
  trw_reference :: string
  trw_href :: "string option"
  trw_title :: "string option"
  trw_detail :: string
  trw_commit :: "commit_ref option"

definition verdict_row_of :: "string \<Rightarrow> string \<Rightarrow> u64 \<Rightarrow> string \<Rightarrow> string \<Rightarrow> progress_state \<Rightarrow> verdict_row" where
  "verdict_row_of owner repo number title html_url st =
     \<lparr>trw_class = ''progress-state '' @ progress_class st,
      trw_reference = owner @ ''/'' @ repo @ ''#'' @ show_u64 number,
      trw_href = (if html_url = [] then None else Some html_url),
      trw_title = (if title = [] then None else Some title),
      trw_detail = progress_detail st,
      trw_commit = map_option (\<lambda>sha. commit_ref_of sha html_url) (state_merge_sha st)\<rparr>"

section \<open>A batch being followed\<close>

definition progress_rows :: "batch_progress \<Rightarrow> verdict_row list" where
  "progress_rows progress = map (\<lambda>t. let target = tp_target t
     in verdict_row_of (tg_owner target) (tg_repo target) (tg_number target) (tg_title target)
          (tg_html_url target) (tp_state t)) (bp_targets progress)"

record progress_view =
  pv_eyebrow :: string
  pv_title :: string
  pv_summary :: "(string \<times> string \<times> u64) option"
  pv_notes :: "string list"
  pv_rows :: "verdict_row list"
  pv_retry :: "(string \<times> bool) option"

definition the_list :: "'a option \<Rightarrow> 'a list" where
  "the_list x = (case x of None \<Rightarrow> [] | Some a \<Rightarrow> [a])"

text \<open>The label of the retry button, and whether it is disabled.\<close>

definition retry_button :: "batch_progress \<Rightarrow> bool \<Rightarrow> (string \<times> bool) option" where
  "retry_button progress retrying =
     (if can_retry progress then Some (if retrying then ''Refreshing...'' else ''Retry rejected'', retrying) else None)"

definition progress_drawer :: "followed \<Rightarrow> u64 \<Rightarrow> bool \<Rightarrow> progress_view" where
  "progress_drawer F now retrying =
     (case fo_progress F of
        None \<Rightarrow>
          \<lparr>pv_eyebrow = ''Batch '' @ fo_batch_id F,
           pv_title = (case listing_action (fo_listing F) of
                         Some action \<Rightarrow> display_bulk_action action @ '' progress'' | None \<Rightarrow> ''Batch progress''),
           pv_summary = None,
           pv_notes = (if follow_signed_out F then [] else [finding_note F now]) @ the_list (trouble_note F),
           pv_rows = [], pv_retry = None\<rparr>
      | Some progress \<Rightarrow>
          \<lparr>pv_eyebrow = ''Batch '' @ bp_batch_id progress,
           pv_title = display_bulk_action (bp_action progress) @ '' progress'',
           pv_summary = Some
             (show_u64 (settled progress) @ ''/'' @ show_nat (length (bp_targets progress)),
              verdict_tally (bp_succeeded progress) (bp_rejected progress) (bp_failed progress),
              progress_percentage progress),
           pv_notes = the_list (waiting_note F now) @ the_list (trouble_note F),
           pv_rows = progress_rows progress, pv_retry = retry_button progress retrying\<rparr>)"

section \<open>The list of the batches\<close>

text \<open>A line of words and of links to batches.\<close>

datatype piece = Words string | BatchLink string

definition batch_link_href :: "string \<Rightarrow> string" where
  "batch_link_href batch_id = ''?batch='' @ batch_id"

fun links_between :: "string list \<Rightarrow> piece list" where
  "links_between [] = []"
| "links_between [i] = [BatchLink i]"
| "links_between (i # is) = BatchLink i # Words '', '' # links_between is"

definition lineage :: "string option \<Rightarrow> string list \<Rightarrow> piece list" where
  "lineage retried_from retried_as =
     (case retried_from of
        None \<Rightarrow> []
      | Some retried \<Rightarrow>
          [Words ''retries '', BatchLink retried] @ (if retried_as = [] then [] else [Words MIDDLE_DOT])) @
     (if retried_as = [] then [] else Words ''retried as '' # links_between retried_as)"

record batch_entry =
  ey_action :: string
  ey_tally :: string
  ey_meta :: string
  ey_age :: string
  ey_instant :: string
  ey_hover :: string
  ey_id :: string
  ey_lineage :: "piece list"
  ey_rows :: "verdict_row list"

definition running_entry :: "u64 \<Rightarrow> string list \<Rightarrow> running_batch \<Rightarrow> batch_entry" where
  "running_entry now retried_as b =
     (let started = utc_timestamp (rb_started_at b)
      in \<lparr>ey_action = display_bulk_action (rb_action b), ey_tally = ''running'',
          ey_meta = pull_requests_phrase (rb_target_count b) @ MIDDLE_DOT @ ''by '' @ rb_requested_by b @
            MIDDLE_DOT @ ''started '',
          ey_age = relative_time now (rb_started_at b), ey_instant = started,
          ey_hover = ''started '' @ started, ey_id = rb_batch_id b,
          ey_lineage = lineage (rb_retried_from b) retried_as, ey_rows = []\<rparr>)"

definition record_rows :: "batch_record \<Rightarrow> verdict_row list" where
  "record_rows b = map (\<lambda>t. verdict_row_of (bt_owner t) (bt_repo t) (bt_number t) (bt_title t) (bt_html_url t)
     (state_of_outcome (bt_outcome t))) (bc_targets b)"

definition finished_entry :: "u64 \<Rightarrow> string list \<Rightarrow> batch_record \<Rightarrow> batch_entry" where
  "finished_entry now retried_as b =
     (let finished = utc_timestamp (bc_completed_at b);
          times = ''started '' @ utc_timestamp (bc_started_at b) @ MIDDLE_DOT @ ''finished '' @ finished
      in \<lparr>ey_action = display_bulk_action (bc_action b),
          ey_tally = verdict_tally (bc_succeeded b) (bc_rejected b) (bc_failed b),
          ey_meta = pull_requests_phrase (of_nat (length (bc_targets b))) @ MIDDLE_DOT @ ''by '' @
            bc_requested_by b @ MIDDLE_DOT @ ''finished '',
          ey_age = relative_time now (bc_completed_at b), ey_instant = finished,
          ey_hover = times, ey_id = bc_batch_id b,
          ey_lineage = lineage (bc_retried_from b) retried_as, ey_rows = record_rows b\<rparr>)"

text \<open>The entries in turn; each takes the retries of its id off the map.\<close>

fun entries_from ::
    "('b \<Rightarrow> string) \<Rightarrow> (string list \<Rightarrow> 'b \<Rightarrow> batch_entry) \<Rightarrow> 'b list \<Rightarrow> (string \<rightharpoonup> string list) \<Rightarrow>
     batch_entry list \<times> (string \<rightharpoonup> string list)" where
  "entries_from id_of entry [] retried_as = ([], retried_as)"
| "entries_from id_of entry (b # bs) retried_as =
     (let mine = (case retried_as (id_of b) of None \<Rightarrow> [] | Some rs \<Rightarrow> rs);
          (others, left) = entries_from id_of entry bs (retried_as(id_of b := None))
      in (entry mine b # others, left))"

datatype batches_body = BatchesReading | BatchesUnread string | NoBatches | BatchEntries "batch_entry list" bool

definition recent_batch_list :: "batch_list remote \<Rightarrow> u64 \<Rightarrow> bool \<Rightarrow> batches_body" where
  "recent_batch_list batches now older =
     (case batches of
        Loading \<Rightarrow> BatchesReading
      | Failed e \<Rightarrow> BatchesUnread e
      | Loaded batches \<Rightarrow>
          if bl_running batches = [] \<and> bl_finished batches = [] then NoBatches
          else
            let (running, left) =
                  entries_from rb_batch_id (running_entry now) (bl_running batches) (retries_by_batch batches);
                (finished, _) = entries_from bc_batch_id (finished_entry now) (bl_finished batches) left
            in BatchEntries (running @ finished) older)"

text \<open>The copy of an id on offer: what was sent to the page, and what the button says.\<close>

definition copy_batch_id :: "(string \<Rightarrow> bool) \<Rightarrow> string \<Rightarrow> bool \<Rightarrow> bool" where
  "copy_batch_id send batch_id copied = (copied \<or> send batch_id)"

definition copy_label :: "bool \<Rightarrow> string" where
  "copy_label copied = (if copied then ''copied'' else ''copy'')"

section \<open>The confirmation\<close>

datatype method_notice =
  MethodsBeingRead
| MethodsUnread string
| MethodConfigured
| MethodsOverridden "(string \<times> string) list"

definition merge_method_notice :: "pr_record list \<Rightarrow> repo_record list remote \<Rightarrow> method_notice" where
  "merge_method_notice rows repositories =
     (case repositories of
        Loading \<Rightarrow> MethodsBeingRead
      | Failed e \<Rightarrow> MethodsUnread e
      | Loaded repositories \<Rightarrow>
          (let overrides = merge_method_overrides rows repositories
           in if overrides = [] then MethodConfigured
              else MethodsOverridden (map (\<lambda>(repository, m). (repository, display_merge_method m)) overrides)))"

datatype action_notice =
  MergeNotice "string option" method_notice
| RebaseNotice
| UpdateBranchNotice

record confirm_view =
  cv_title :: string
  cv_span :: string
  cv_notice :: action_notice
  cv_withheld :: bool
  cv_confirm :: string

definition confirm_modal :: "repo_record list remote \<Rightarrow> pending_action \<Rightarrow> confirm_view" where
  "confirm_modal repositories pending =
     (let action = pa_action pending; not_green = not_green_count (pa_rows pending)
      in \<lparr>cv_title = display_bulk_action action @ '' '' @
            pull_requests_phrase (of_nat (length (pa_rows pending))) @ ''?'',
          cv_span = ''Across '' @ repositories_phrase (repository_count (pa_rows pending)) @ ''.'',
          cv_notice =
            (case action of
               BkMerge \<Rightarrow> MergeNotice (if 0 < not_green then Some (not_green_phrase not_green) else None)
                 (merge_method_notice (pa_rows pending) repositories)
             | BkRebase \<Rightarrow> RebaseNotice
             | BkUpdateBranch \<Rightarrow> UpdateBranchNotice),
          cv_withheld = confirm_withheld pending repositories,
          cv_confirm = ''Queue '' @ display_bulk_action action\<rparr>)"

text \<open>The dialog is open while an action is pending; both of its buttons close it first.\<close>

definition confirm_open :: "pending_action option \<Rightarrow> bool" where
  "confirm_open pending \<longleftrightarrow> pending \<noteq> None"

section \<open>An open pull request\<close>

datatype durable_view =
  DurableReading
| DurableUnread string
| DurableAbsent
| DurableShown string string "(string \<times> string \<times> string) list"

text \<open>The last sync, whether another is due, and the log, newest first.\<close>

definition durable_state_view :: "u64 \<Rightarrow> durable_status \<Rightarrow> durable_view" where
  "durable_state_view now status =
     (case status of
        DurableLoading \<Rightarrow> DurableReading
      | DurableFailed e \<Rightarrow> DurableUnread e
      | DurableGone \<Rightarrow> DurableAbsent
      | DurablePresent st \<Rightarrow>
          DurableShown
            (case ps_last_synced_at st of Some synced \<Rightarrow> relative_time now synced | None \<Rightarrow> ''not yet'')
            (if ps_sync_pending st then ''pending'' else ''idle'')
            (map (\<lambda>entry. (al_action entry, relative_time now (al_at entry), al_detail entry)) (rev (ps_history st))))"

record detail_view =
  dw_reference :: string
  dw_href :: string
  dw_title :: string
  dw_gone :: bool
  dw_update :: "string \<times> string"
  dw_check :: "string \<times> string"
  dw_mergeable :: string
  dw_stale :: bool
  dw_head :: string
  dw_updated :: string
  dw_projected :: string
  dw_dependencies :: "(string \<times> string \<times> string \<times> string) list"
  dw_labels :: "string list"

definition detail_drawer :: "pr_record \<Rightarrow> bool \<Rightarrow> u64 \<Rightarrow> detail_view" where
  "detail_drawer row gone now =
     \<lparr>dw_reference = pr_owner row @ ''/'' @ pr_repo row @ ''#'' @ show_u64 (pr_number row),
      dw_href = pr_html_url row, dw_title = pr_title row, dw_gone = gone,
      dw_update = (update_class (pr_update_type row), display_update_type (pr_update_type row)),
      dw_check = (status_class (pr_check_status row), status_label (pr_check_status row)),
      dw_mergeable = display_mergeable (pr_mergeable row), dw_stale = is_stale row now,
      dw_head = pr_head_sha row, dw_updated = relative_time now (pr_updated_at row),
      dw_projected = relative_time now (pr_synced_at row),
      dw_dependencies = map (\<lambda>d. (du_name d, version_label (du_from_version d) (du_to_version d),
        update_class (du_update_type d), display_update_type (du_update_type d))) (pr_dependencies row),
      dw_labels = pr_labels row\<rparr>"

section \<open>What they agree on\<close>

text \<open>
  A finished batch shows in the list as the drawer that followed it to its end showed it: the same
  rows in the same order and the same tally.
\<close>

lemma record_rows_progress: "record_rows r = progress_rows (progress_of_record r)"
  by (simp add: record_rows_def progress_rows_def progress_of_record_def progress_of_target_def)

lemma finished_entry_as_followed:
  assumes "completed_record p installation_id by_user from started ended = Some r" and "bp_completed p"
    and "fo_progress F = Some p"
  shows "ey_rows (finished_entry now retried_as r) = pv_rows (progress_drawer F now retrying) \<and>
    map_option (fst \<circ> snd) (pv_summary (progress_drawer F now retrying)) = Some (ey_tally (finished_entry now retried_as r))"
proof -
  have p: "progress_of_record r = p" by (rule progress_of_completed_record [OF assms(1,2)])
  then have "bc_succeeded r = bp_succeeded p" "bc_rejected r = bp_rejected p" "bc_failed r = bp_failed p"
    by (auto simp: progress_of_record_def)
  with p show ?thesis using assms(3)
    by (simp add: finished_entry_def progress_drawer_def record_rows_progress Let_def)
qed

text \<open>
  In a list without an id twice each entry stands with exactly the batches of the list that retry it.
\<close>

lemma entries_from_retries:
  "distinct (map id_of bs) \<Longrightarrow> entries_from id_of entry bs m =
     (map (\<lambda>b. entry (case m (id_of b) of None \<Rightarrow> [] | Some rs \<Rightarrow> rs) b) bs, m |` (- set (map id_of bs)))"
proof (induction bs arbitrary: m)
  case (Cons b bs)
  have "map (\<lambda>c. entry (case (m(id_of b := None)) (id_of c) of None \<Rightarrow> [] | Some rs \<Rightarrow> rs) c) bs =
      map (\<lambda>c. entry (case m (id_of c) of None \<Rightarrow> [] | Some rs \<Rightarrow> rs) c) bs"
    using Cons.prems by (intro map_cong) (auto simp: image_iff)
  moreover have "m(id_of b := None) |` (- set (map id_of bs)) = m |` (- set (map id_of (b # bs)))"
    by (auto simp: restrict_map_def)
  ultimately have "entries_from id_of entry bs (m(id_of b := None)) =
      (map (\<lambda>c. entry (case m (id_of c) of None \<Rightarrow> [] | Some rs \<Rightarrow> rs) c) bs, m |` (- set (map id_of (b # bs))))"
    using Cons.prems Cons.IH [of "m(id_of b := None)"] by (simp only: list.map distinct.simps simp_thms)
  then show ?case by (simp only: entries_from.simps Let_def prod.case list.map)
qed (simp add: restrict_map_def)

lemma batches_linked:
  assumes "distinct (map rb_batch_id (bl_running batches) @ map bc_batch_id (bl_finished batches))"
    and "recent_batch_list (Loaded batches) now older = BatchEntries entries older'"
  defines "retries i \<equiv> map snd (filter (\<lambda>(retried, _). retried = Some i) (retry_links batches))"
  shows "entries = map (\<lambda>b. running_entry now (retries (rb_batch_id b)) b) (bl_running batches) @
    map (\<lambda>b. finished_entry now (retries (bc_batch_id b)) b) (bl_finished batches)"
proof -
  have once: "distinct (map rb_batch_id (bl_running batches))" "distinct (map bc_batch_id (bl_finished batches))"
    and apart: "\<forall>b\<in>set (bl_finished batches). bc_batch_id b \<notin> set (map rb_batch_id (bl_running batches))"
    using assms(1) by auto
  let ?m = "retries_by_batch batches"
  let ?left = "?m |` (- set (map rb_batch_id (bl_running batches)))"
  have retries: "(case ?m i of None \<Rightarrow> [] | Some rs \<Rightarrow> rs) = retries i" for i
    by (simp add: retries_def retries_are_links)
  have "map (\<lambda>b. finished_entry now (case ?left (bc_batch_id b) of None \<Rightarrow> [] | Some rs \<Rightarrow> rs) b) (bl_finished batches) =
      map (\<lambda>b. finished_entry now (retries (bc_batch_id b)) b) (bl_finished batches)"
    using apart by (intro map_cong) (auto simp: retries [symmetric])
  then show ?thesis
    using assms(2) unfolding recent_batch_list_def remote.case Let_def
    by (simp only: entries_from_retries [OF once(1)] entries_from_retries [OF once(2)] prod.case retries
      split: if_splits) simp_all
qed

text \<open>The links of a line of retries are the batch it retries and the batches that retry it.\<close>

lemma links_between_ids: "List.map_filter (\<lambda>p. case p of BatchLink i \<Rightarrow> Some i | _ \<Rightarrow> None) (links_between is) = is"
  by (induction "is" rule: links_between.induct) (simp_all add: map_filter_simps)

lemma lineage_ids:
  "List.map_filter (\<lambda>p. case p of BatchLink i \<Rightarrow> Some i | _ \<Rightarrow> None) (lineage retried_from retried_as) =
     the_list retried_from @ retried_as"
  by (simp add: lineage_def the_list_def map_filter_simps links_between_ids split: option.split)

text \<open>A merge is withheld exactly while the dialog cannot name the methods it would use.\<close>

lemma withheld_until_named:
  "cv_withheld (confirm_modal repositories pending) \<longleftrightarrow>
     (\<exists>not_green notice. cv_notice (confirm_modal repositories pending) = MergeNotice not_green notice \<and>
        (notice = MethodsBeingRead \<or> (\<exists>e. notice = MethodsUnread e)))"
  by (auto simp: confirm_modal_def confirm_withheld_def merge_method_notice_def Let_def
    split: remote.splits bulk_action_kind.splits if_splits)

end
