(* ===== verification/Github_Queries.thy ===== *)
theory Github_Queries
  imports Github_Client
begin

text \<open>
  The texts of the GraphQL queries (\<^verbatim>\<open>crates/github/src/graphql.rs\<close>), which the requests of
  \<open>Github_Client\<close> name, and what a text has to be for GitHub to answer it: its braces match and it
  uses the variables it declares, which are among those its call sends.
\<close>

section \<open>The texts\<close>

text \<open>Lines, each after a new line.\<close>

definition text_lines :: "string list \<Rightarrow> string" where
  "text_lines ls = concat (map (\<lambda>l. CHR 0x0A # l) ls)"

definition COMMIT_SELECTION :: string where
  "COMMIT_SELECTION = text_lines [
     ''        oid'',
     ''        message'',
     ''        statusCheckRollup {'',
     ''          contexts(first: 100) {'',
     ''            pageInfo { hasNextPage endCursor }'',
     ''            nodes {'',
     ''              __typename'',
     ''              ... on CheckRun { status conclusion }'',
     ''              ... on StatusContext { state }'',
     ''            }'',
     ''          }'',
     ''        }'',
     ''        checkSuites(first: 100) {'',
     ''          pageInfo { hasNextPage endCursor }'',
     ''          nodes { status conclusion }'',
     ''        }''] @ [CHR 0x0A]"

definition snapshot_query :: string where
  "snapshot_query =
     text_lines [
     ''query PullRequestSnapshot($owner: String!, $repo: String!, $number: Int!) {'',
     ''  rateLimit { cost remaining }'',
     ''  repository(owner: $owner, name: $repo) {'',
     ''    pullRequest(number: $number) {'',
     ''      title'',
     ''      url'',
     ''      state'',
     ''      author { __typename login }'',
     ''      createdAt'',
     ''      updatedAt'',
     ''      mergeStateStatus'',
     ''      headRefOid'',
     ''      labels(first: 100) { nodes { name } }'',
     ''      commits(last: 1) {'',
     ''        nodes {'',
     ''          commit {''] @
     COMMIT_SELECTION @ text_lines [
     ''          }'',
     ''        }'',
     ''      }'',
     ''    }'',
     ''  }'',
     ''}''] @ [CHR 0x0A]"

definition head_commit_query :: string where
  "head_commit_query =
     text_lines [
     ''query HeadCommit($owner: String!, $repo: String!, $sha: GitObjectID!) {'',
     ''  repository(owner: $owner, name: $repo) {'',
     ''    object(oid: $sha) {'',
     ''      ... on Commit {''] @
     COMMIT_SELECTION @ text_lines [
     ''      }'',
     ''    }'',
     ''  }'',
     ''}''] @ [CHR 0x0A]"

definition CHECK_CONTEXTS_PAGE_QUERY :: string where
  "CHECK_CONTEXTS_PAGE_QUERY = text_lines [
     ''query CheckContextsPage($owner: String!, $repo: String!, $sha: GitObjectID!, $after: String!) {'',
     ''  repository(owner: $owner, name: $repo) {'',
     ''    object(oid: $sha) {'',
     ''      ... on Commit {'',
     ''        statusCheckRollup {'',
     ''          contexts(first: 100, after: $after) {'',
     ''            pageInfo { hasNextPage endCursor }'',
     ''            nodes {'',
     ''              __typename'',
     ''              ... on CheckRun { status conclusion }'',
     ''              ... on StatusContext { state }'',
     ''            }'',
     ''          }'',
     ''        }'',
     ''      }'',
     ''    }'',
     ''  }'',
     ''}''] @ [CHR 0x0A]"

definition CHECK_SUITES_PAGE_QUERY :: string where
  "CHECK_SUITES_PAGE_QUERY = text_lines [
     ''query CheckSuitesPage($owner: String!, $repo: String!, $sha: GitObjectID!, $after: String!) {'',
     ''  repository(owner: $owner, name: $repo) {'',
     ''    object(oid: $sha) {'',
     ''      ... on Commit {'',
     ''        checkSuites(first: 100, after: $after) {'',
     ''          pageInfo { hasNextPage endCursor }'',
     ''          nodes { status conclusion }'',
     ''        }'',
     ''      }'',
     ''    }'',
     ''  }'',
     ''}''] @ [CHR 0x0A]"

fun query_text :: "graphql_query \<Rightarrow> string" where
  "query_text SnapshotQuery = snapshot_query"
| "query_text HeadCommitQuery = head_commit_query"
| "query_text CheckContextsPageQuery = CHECK_CONTEXTS_PAGE_QUERY"
| "query_text CheckSuitesPageQuery = CHECK_SUITES_PAGE_QUERY"

section \<open>Reading a text\<close>

definition name_char :: "char \<Rightarrow> bool" where
  "name_char c \<longleftrightarrow> c \<notin> {CHR '':'', CHR '','', CHR '')'', CHR '' '', CHR 0x0A}"

text \<open>The names after a dollar sign; a declaration follows its name with a colon, a use does not.\<close>

fun dollar_names :: "string \<Rightarrow> (string \<times> bool) list" where
  "dollar_names [] = []"
| "dollar_names (c # cs) =
     (if c = CHR ''$'' then
        (let name = takeWhile name_char cs; rest = dropWhile name_char cs
         in (name, case rest of [] \<Rightarrow> False | d # _ \<Rightarrow> d = CHR '':'') # dollar_names cs)
      else dollar_names cs)"

definition declared_variables :: "string \<Rightarrow> string list" where
  "declared_variables text = map fst (filter snd (dollar_names text))"

definition used_variables :: "string \<Rightarrow> string list" where
  "used_variables text = map fst (filter (\<lambda>(_, declares). \<not> declares) (dollar_names text))"

text \<open>The brackets open and close in pairs: what is awaited after a text, of what was before it.\<close>

fun brackets :: "string \<Rightarrow> char list \<Rightarrow> char list option" where
  "brackets [] awaited = Some awaited"
| "brackets (c # cs) awaited =
     (if c = CHR ''{'' then brackets cs (CHR ''}'' # awaited)
      else if c = CHR ''('' then brackets cs (CHR '')'' # awaited)
      else if c = CHR ''}'' \<or> c = CHR '')'' then
        (case awaited of [] \<Rightarrow> None | a # others \<Rightarrow> if a = c then brackets cs others else None)
      else brackets cs awaited)"

text \<open>Both are read a line at a time.\<close>

lemma brackets_append: "brackets (a @ b) awaited = Option.bind (brackets a awaited) (brackets b)"
  by (induction a arbitrary: awaited) (auto split: list.split)

fun lines_brackets :: "string list \<Rightarrow> char list \<Rightarrow> char list option" where
  "lines_brackets [] awaited = Some awaited"
| "lines_brackets (l # ls) awaited = Option.bind (brackets l awaited) (lines_brackets ls)"

lemma brackets_lines: "brackets (text_lines ls) = lines_brackets ls"
proof
  show "brackets (text_lines ls) awaited = lines_brackets ls awaited" for awaited
  proof (induction ls arbitrary: awaited)
    case (Cons l ls)
    have "text_lines (l # ls) = CHR 0x0A # l @ text_lines ls" by (simp add: text_lines_def)
    with Cons show ?case by (simp add: brackets_append) (cases "brackets l awaited"; simp)
  qed (simp add: text_lines_def)
qed

lemma dollar_names_line:
  "dollar_names (a @ CHR 0x0A # b) = dollar_names a @ dollar_names b"
proof (induction a)
  case (Cons c a)
  have "takeWhile name_char (a @ CHR 0x0A # b) = takeWhile name_char a"
    by (induction a) (auto simp: name_char_def)
  moreover have "(case dropWhile name_char (a @ CHR 0x0A # b) of [] \<Rightarrow> False | d # _ \<Rightarrow> d = CHR '':'') =
      (case dropWhile name_char a of [] \<Rightarrow> False | d # _ \<Rightarrow> d = CHR '':'')"
    by (induction a) (auto simp: name_char_def)
  ultimately show ?case using Cons by (simp add: Let_def)
qed simp

lemma dollar_names_lines: "dollar_names (a @ text_lines ls) = dollar_names a @ concat (map dollar_names ls)"
proof (induction ls arbitrary: a)
  case (Cons l ls)
  have "a @ text_lines (l # ls) = (a @ CHR 0x0A # l) @ text_lines ls" by (simp add: text_lines_def)
  then show ?case using Cons [of "a @ CHR 0x0A # l"] by (simp add: dollar_names_line)
qed (simp add: text_lines_def)

text \<open>A text is its lines: the names of a text are those of its lines.\<close>

lemma one_text:
  "text_lines a @ [CHR 0x0A] = text_lines (a @ [[]])"
  "text_lines a @ text_lines b = text_lines (a @ b)"
  "text_lines a @ text_lines b @ c = text_lines (a @ b) @ c"
  "text_lines a @ CHR 0x0A # c = text_lines (a @ [[]]) @ c"
  by (simp_all add: text_lines_def)

lemma dollar_names_text: "dollar_names (text_lines ls) = concat (map dollar_names ls)"
  using dollar_names_lines [of "[]" ls] by simp

lemma no_dollar: "CHR ''$'' \<notin> set a \<Longrightarrow> dollar_names a = []"
  by (induction a) auto

section \<open>What the texts are\<close>

lemmas texts = snapshot_query_def head_commit_query_def CHECK_CONTEXTS_PAGE_QUERY_def
  CHECK_SUITES_PAGE_QUERY_def COMMIT_SELECTION_def

lemma queries_match: "brackets (query_text q) [] = Some []"
  by (cases q) (simp_all add: texts brackets_append brackets_lines)

lemma query_names:
  "dollar_names (query_text q) =
     (let declared = map (\<lambda>name. (name, True)); used = map (\<lambda>name. (name, False))
      in case q of
        SnapshotQuery \<Rightarrow> declared [''owner'', ''repo'', ''number''] @ used [''owner'', ''repo'', ''number'']
      | HeadCommitQuery \<Rightarrow> declared [''owner'', ''repo'', ''sha''] @ used [''owner'', ''repo'', ''sha'']
      | _ \<Rightarrow> declared [''owner'', ''repo'', ''sha'', ''after''] @ used [''owner'', ''repo'', ''sha'', ''after''])"
  by (cases q) (simp_all add: texts one_text dollar_names_text name_char_def)

text \<open>The variables a text declares are those its call sends, and it uses each of them.\<close>

lemma query_variables:
  "declared_variables (query_text q) =
     (case q of
        SnapshotQuery \<Rightarrow> [''owner'', ''repo'', ''number'']
      | HeadCommitQuery \<Rightarrow> [''owner'', ''repo'', ''sha'']
      | _ \<Rightarrow> [''owner'', ''repo'', ''sha'', ''after''])"
  unfolding declared_variables_def query_names by (cases q) simp_all

lemma queries_use_what_they_declare:
  "used_variables (query_text q) = declared_variables (query_text q)"
  unfolding declared_variables_def used_variables_def query_names by (cases q) simp_all

end
