(* ===== verification/Processes.thy ===== *)
theory Processes
  imports Startup Store_Open Web_Edge Github_Client
begin

text \<open>
  The two processes as they start (\<^verbatim>\<open>apps/restate-service/src/main.rs\<close>, \<^verbatim>\<open>apps/web/src/main.rs\<close>) and as
  they are asked to stop (\<^verbatim>\<open>crates/restate-ext/src/shutdown.rs\<close>): what each reads of its environment
  and what ends it before it serves. Started in one environment they serve one installation, and the
  user the dashboard signs in is the one the service has a token for, when it offers what needs one.
\<close>

section \<open>The service\<close>

datatype startup_error =
  SeStore store_error
| SeGithub github_error
| SeAddress string
| SeListen string

text \<open>
  What a start meets: files, the reading of a key, the store, the reading of an address, the listener.
\<close>

record service_libs =
  vl_read_file :: "string \<Rightarrow> string + string"
  vl_read_key :: "string \<Rightarrow> string + unit"
  vl_connect :: "store_config \<Rightarrow> store_error + unit"
  vl_address :: "string \<Rightarrow> string + string"
  vl_listen :: "string \<Rightarrow> string + unit"

definition failing_as :: "('e \<Rightarrow> 'f) \<Rightarrow> 'e + 'a \<Rightarrow> 'f + 'a" where
  "failing_as f r = (case r of Inl e \<Rightarrow> Inl (f e) | Inr a \<Rightarrow> Inr a)"

text \<open>The service once it serves: what its objects were given, and what it said when it started.\<close>

record running_service =
  rv_client :: github_client
  rv_debounce :: u64
  rv_interval :: u64
  rv_installation_id :: u64
  rv_capabilities :: capabilities
  rv_address :: string
  rv_warnings :: "setting_warning list"
  rv_announced :: string

definition start_service :: "service_libs \<Rightarrow> (string \<Rightarrow> env_var) \<Rightarrow> startup_error + running_service" where
  "start_service L env =
     bind_result (failing_as SeStore (vl_connect L (store_config_from_env env))) (\<lambda>_.
     bind_result (failing_as SeGithub (config_from_lookup (vl_read_file L) (env_text env))) (\<lambda>config.
     bind_result (failing_as SeGithub (new_client (vl_read_key L) config)) (\<lambda>client.
       let ((debounce, interval), warnings) = service_timing env;
           capabilities = \<lparr>cap_rebase_enabled = gk_user_commands client\<rparr>
       in
         bind_result (failing_as SeAddress (vl_address L
             (case env_text env ''RESTATE_SERVICE_ADDRESS'' of None \<Rightarrow> ''127.0.0.1:9080'' | Some a \<Rightarrow> a))) (\<lambda>address.
         bind_result (failing_as SeListen (vl_listen L address)) (\<lambda>_.
           Inr \<lparr>rv_client = client, rv_debounce = debounce, rv_interval = interval,
                rv_installation_id = gc_installation_id (gk_config client),
                rv_capabilities = capabilities, rv_address = address, rv_warnings = warnings,
                rv_announced = announce_capabilities capabilities\<rparr>)))))"

section \<open>The web server\<close>

text \<open>Every failure of its start ends the process with a message; the error printed after it is left out.\<close>

record web_starts =
  ws_client :: "restate_config \<Rightarrow> string + unit"
  ws_connect :: "store_config \<Rightarrow> store_error + unit"
  ws_listen :: "string + unit"

definition start_web :: "web_starts \<Rightarrow> (string \<Rightarrow> env_var) \<Rightarrow> string + web_config" where
  "start_web S env =
     bind_result (failing_as display_config_error (parse_config (env_text env))) (\<lambda>config.
     bind_result (failing_as (\<lambda>_. ''Restate ingress client should build'') (ws_client S (wc_restate config))) (\<lambda>_.
     bind_result (failing_as (\<lambda>_. ''read-model store should connect'') (ws_connect S (store_config_from_env env))) (\<lambda>_.
     bind_result (failing_as (\<lambda>_. ''web listener should bind'') (ws_listen S)) (\<lambda>_.
       Inr config))))"

section \<open>Being asked to stop\<close>

text \<open>A signal: it cannot be listened for, it comes at some time, or it never comes.\<close>

datatype listening = CannotListen string | ComesAt nat | NeverComes

fun arrival :: "listening \<Rightarrow> nat option" where
  "arrival (ComesAt t) = Some t"
| "arrival _ = None"

text \<open>The first of the two; \<open>tie\<close> says which is taken of two that come at once.\<close>

definition shutdown_signal :: "bool \<Rightarrow> listening \<Rightarrow> listening \<Rightarrow> string option" where
  "shutdown_signal tie interrupt terminate =
     (case (arrival interrupt, arrival terminate) of
        (None, None) \<Rightarrow> None
      | (Some _, None) \<Rightarrow> Some ''SIGINT''
      | (None, Some _) \<Rightarrow> Some ''SIGTERM''
      | (Some i, Some t) \<Rightarrow> Some (if i < t \<or> (i = t \<and> tie) then ''SIGINT'' else ''SIGTERM''))"

lemma shutdown_waits:
  "shutdown_signal tie interrupt terminate = None \<longleftrightarrow> arrival interrupt = None \<and> arrival terminate = None"
  by (auto simp: shutdown_signal_def split: option.splits)

section \<open>The two together\<close>

lemma failing_as_Inr: "failing_as f r = Inr a \<longleftrightarrow> r = Inr a"
  by (simp add: failing_as_def split: sum.split)

lemmas starts = bind_result_Inr failing_as_Inr

lemma started_config:
  assumes "config_from_lookup read_file lookup = Inr config"
  shows "parse_u64_var lookup ''GITHUB_INSTALLATION_ID'' = Inr (gc_installation_id config) \<and>
    gc_dashboard_user config = (case lookup ''DASHBOARD_USERNAME'' of None \<Rightarrow> ''dependaboard'' | Some u \<Rightarrow> u) \<and>
    trim (gc_dashboard_user config) \<noteq> []"
  using assms by (auto simp: config_from_lookup_def starts Let_def split: if_splits)

lemma required_Inr: "required lookup name = Inr v \<longleftrightarrow> present lookup name = Some v"
  by (simp add: required_def split: option.split)

lemma present_Some: "present lookup name = Some v \<Longrightarrow> lookup name = Some v"
  by (simp add: present_def split: option.splits if_splits)

lemma started_web:
  assumes "parse_config lookup = Inr config"
  shows "(\<exists>v. lookup ''GITHUB_INSTALLATION_ID'' = Some v \<and> parse_u64 v = Some (wc_installation_id config)) \<and>
    cn_username (wc_credentials config) = or_text (present lookup ''DASHBOARD_USERNAME'') ''dependaboard'' \<and>
    rc_base (wc_restate config) = trim_end_matches (\<lambda>c. c = CHR ''/'')
      (or_text (present lookup ''RESTATE_INGRESS_URL'') ''http://127.0.0.1:8080'')"
proof -
  obtain v i where v: "present lookup ''GITHUB_INSTALLATION_ID'' = Some v"
    "(case parse_u64 v of None \<Rightarrow> Inl (CeNotAnInteger ''GITHUB_INSTALLATION_ID'') | Some i \<Rightarrow> Inr i) = Inr i"
    and config: "wc_installation_id config = i"
      "cn_username (wc_credentials config) = or_text (present lookup ''DASHBOARD_USERNAME'') ''dependaboard''"
      "rc_base (wc_restate config) = trim_end_matches (\<lambda>c. c = CHR ''/'')
        (or_text (present lookup ''RESTATE_INGRESS_URL'') ''http://127.0.0.1:8080'')"
    using assms unfolding parse_config_def starts required_Inr by auto
  have "parse_u64 v = Some i" using v(2) by (cases "parse_u64 v") simp_all
  with present_Some [OF v(1)] config show ?thesis by simp
qed

text \<open>
  Started in one environment, the two serve one installation; a rebase is on offer exactly when the
  service has a token for the user the dashboard signs in; and unless its address is set and blank,
  the service arms its scheduler at the ingress the web server sends to.
\<close>

theorem processes_agree:
  assumes "start_service L env = Inr s" and "start_web S env = Inr c"
  shows "rv_installation_id s = wc_installation_id c \<and>
    (cap_rebase_enabled (rv_capabilities s) \<longleftrightarrow>
       (\<exists>token. gk_user_token (rv_client s) (cn_username (wc_credentials c)) = Inr token)) \<and>
    (\<forall>url. env_text env ''RESTATE_INGRESS_URL'' = Some url \<longrightarrow> trim url \<noteq> [] \<longrightarrow>
       startup_ingress env = rc_base (wc_restate c))"
proof -
  obtain debounce interval warnings where timing: "service_timing env = ((debounce, interval), warnings)"
    by (metis surj_pair)
  obtain config where config: "config_from_lookup (vl_read_file L) (env_text env) = Inr config"
    and client: "new_client (vl_read_key L) config = Inr (rv_client s)"
    and s: "rv_installation_id s = gc_installation_id (gk_config (rv_client s))"
      "cap_rebase_enabled (rv_capabilities s) = gk_user_commands (rv_client s)"
    using assms(1) by (auto simp: start_service_def starts Let_def timing)
  have c: "parse_config (env_text env) = Inr c" using assms(2) by (auto simp: start_web_def starts)
  have built: "rv_client s = \<lparr>gk_config = config,
      gk_user_token = user_token \<lparr>tk_user = gc_dashboard_user config, tk_token = gc_user_pat config\<rparr>,
      gk_user_commands = (gc_user_pat config \<noteq> None)\<rparr>"
    using client unfolding new_client_def build_client_def
    by (cases "vl_read_key L (gc_private_key config)") simp_all
  note service = started_config [OF config] and web = started_web [OF c]
  have "gc_installation_id config = wc_installation_id c"
    using service web by (auto simp: parse_u64_var_def split: option.splits)
  moreover have "cn_username (wc_credentials c) = gc_dashboard_user config"
    using service web by (auto simp: or_text_def present_def split: option.splits)
  moreover have "startup_ingress env = rc_base (wc_restate c)"
    if "env_text env ''RESTATE_INGRESS_URL'' = Some url" "trim url \<noteq> []" for url
    using web that by (simp add: startup_ingress_def or_text_def present_def)
  ultimately show ?thesis
    by (auto simp: s built user_token_def split: option.split)
qed

end
