(* ===== verification/Spec2Isabelle.thy ===== *)
theory Spec2Isabelle
  imports Merge_Rounds Sync_Contract Bulk_Contract Github_Contract Repo_Contract Ui_Live Ui_Retry_Contract Ui_Active_Contract Ui_Url_Contract Ui_State_Contract Migrations_Contract Ui_Calendar Ui_Repo_Tree Ui_Drawer Ui_Panels Ui_Controls Startup Service_Log Ui_Dashboard_Contract Store_Open Ui_Dialog_Contract Ui_Components Ui_Panes Github_Queries Processes
begin

text \<open>
  A verification development for dependaboard: a dashboard over the Dependabot pull requests of
  the GitHub App's installations. Three parts work together. The \<^emph>\<open>Restate service\<close>
  (\<^verbatim>\<open>src/apps/restate-service\<close>) hosts durable objects, one per pull request, per repository and
  per installation, and a workflow per batch; they read GitHub through \<^verbatim>\<open>src/crates/github\<close> and
  write what they learn to a SQLite \<^emph>\<open>projection\<close> (\<^verbatim>\<open>src/crates/store\<close>). The \<^emph>\<open>web server\<close>
  (\<^verbatim>\<open>src/apps/web/src/server\<close>, \<^verbatim>\<open>api.rs\<close>) takes GitHub's webhooks and the dashboard's
  requests, reads the projection and sends to Restate's ingress. The \<^emph>\<open>dashboard\<close>
  (\<^verbatim>\<open>src/apps/web/src/ui\<close>) runs in the browser. \<^verbatim>\<open>src/crates/core\<close> is the vocabulary of all
  three, \<^verbatim>\<open>src/crates/restate-ext\<close> the plumbing around the SDK.

  A theory that models a part carries its records, datatypes and operations under the names of the
  source; the theory of the same part ending in \<open>_Contract\<close> or \<open>_Laws\<close> holds what it promises.
\<close>

section \<open>Which theory models which file\<close>

text \<open>
  Shared:
  \<^item> \<open>Prelude\<close>: \<open>u64\<close> and \<open>u16\<close> as words, with the checked, saturating and wrapping operations the
    code calls; strings as UTF-8 byte lists; decimal printing and parsing; the effect combinators
    \<open>ok\<close>, \<open>fail\<close>, \<open>andthen\<close>, \<open>put\<close>, \<open>lift\<close> (a handler is a function from a world to an error or an
    answer, and the world after it). \<open>Text\<close>: trimming, searching and replacing in strings.
    \<open>Loops\<close>: loops that may not end.

  The vocabulary, \<^verbatim>\<open>crates/core/src/lib.rs\<close>:
  \<^item> \<open>Core_Types\<close>: keys, the enumerations with their printed forms, pull request records, filters,
    pages, facets, webhook events. \<open>Core_Batch\<close>: batch requests and the rules they are held to,
    progress and its operations, batch records. \<open>Core_Pr_State\<close>: the durable state of a pull request
    object and its two bounded windows.

  The GitHub client, \<^verbatim>\<open>crates/github/src\<close>:
  \<^item> \<open>Github_Errors\<close> (\<^verbatim>\<open>error.rs\<close>, \<^verbatim>\<open>auth.rs\<close>), \<open>Github_Wire\<close> (\<^verbatim>\<open>rest.rs\<close>, \<^verbatim>\<open>graphql.rs\<close>,
    \<^verbatim>\<open>dependabot_metadata.rs\<close>), \<open>Github_Queries\<close> (the query texts of \<^verbatim>\<open>graphql.rs\<close>), \<open>Github_Client\<close> (\<^verbatim>\<open>lib.rs\<close>, \<^verbatim>\<open>auth.rs\<close>: configuration, token cache,
    requests, the operations), \<open>Github_Contract\<close>.

  The projection, \<^verbatim>\<open>crates/store/src\<close>:
  \<^item> \<open>Store_Rows\<close> (\<^verbatim>\<open>error.rs\<close>, the rows and their conversions), \<open>Store\<close> (\<^verbatim>\<open>lib.rs\<close>,
    \<^verbatim>\<open>reconcile.rs\<close>, \<^verbatim>\<open>batches.rs\<close>: the tables as lists of rows, one function per write),
    \<open>Store_Filter\<close> (\<^verbatim>\<open>filter.rs\<close>, \<^verbatim>\<open>scope.rs\<close>: the SQL clause as a term with its numbered
    parameters, and its meaning on a row), \<open>Store_Read\<close> (\<^verbatim>\<open>lib.rs\<close>, \<^verbatim>\<open>facets.rs\<close>,
    \<^verbatim>\<open>batches.rs\<close>), \<open>Migrations\<close> (\<^verbatim>\<open>migrations.rs\<close>), \<open>Store_Open\<close> (\<^verbatim>\<open>lib.rs\<close>: settings,
    opening), with \<open>Store_Laws\<close>, \<open>Store_Read_Laws\<close>, \<open>Store_Contract\<close>, \<open>Migrations_Contract\<close>.

  The service, \<^verbatim>\<open>apps/restate-service/src\<close>, and \<^verbatim>\<open>crates/restate-ext/src\<close>:
  \<^item> \<open>Restate_World\<close> (\<^verbatim>\<open>store.rs\<close>, \<^verbatim>\<open>clock.rs\<close>, \<^verbatim>\<open>handler.rs\<close>: the world of a handler and its
    journaled steps), \<open>Github_Step\<close> (\<^verbatim>\<open>github.rs\<close>; \<open>Github_Answers\<close> is the relation of a step's
    result to what GitHub answered), \<open>Restate_Ext\<close> (the step kinds, the log line of a
    handler, the optional payload, the settings, the startup send), \<open>Ingress_Client\<close> (\<^verbatim>\<open>ingress.rs\<close>
    of the library).
  \<^item> \<open>Pull_Request\<close> and \<open>Pull_Request_Object\<close> (\<^verbatim>\<open>pull_request.rs\<close>): the handlers of the object, then
    the object as the service runs it, whose calls come one at a time and whose timers fire;
    \<open>Retirement\<close> (\<^verbatim>\<open>retirement.rs\<close>), \<open>Repo_Sync\<close> (\<^verbatim>\<open>repo_sync.rs\<close>), \<open>Installation_Sync\<close>
    (\<^verbatim>\<open>installation_sync.rs\<close>: the sweep and the scheduler's chain of ticks), \<open>Merge_Rounds\<close> and
    \<open>Bulk_Action\<close> (\<^verbatim>\<open>bulk_action.rs\<close>), \<open>Ingress\<close> (\<^verbatim>\<open>ingress.rs\<close>, \<^verbatim>\<open>dashboard.rs\<close>), \<open>Service_Log\<close> (the
    registered handlers with the line each logs), \<open>Startup\<close> (\<^verbatim>\<open>main.rs\<close>: arming the scheduler); promises in
    \<open>Pull_Request_Contract\<close>, \<open>Repo_Contract\<close>, \<open>Sync_Contract\<close>, \<open>Bulk_Contract\<close>.

  The web server, \<^verbatim>\<open>apps/web/src\<close>:
  \<^item> \<open>Web_Client\<close> (\<^verbatim>\<open>server/restate.rs\<close>), \<open>Web_Edge\<close> (\<^verbatim>\<open>server/config.rs\<close>, \<^verbatim>\<open>auth.rs\<close>, \<^verbatim>\<open>router.rs\<close>,
    \<^verbatim>\<open>webhook.rs\<close>), \<open>Web_Api\<close> (\<^verbatim>\<open>api.rs\<close>: the bodies of the server functions), \<open>Web_Contract\<close>.

  Both processes: \<open>Processes\<close> (the \<^verbatim>\<open>main.rs\<close> of each and \<^verbatim>\<open>shutdown.rs\<close> of \<^verbatim>\<open>crates/restate-ext\<close>).

  The dashboard, \<^verbatim>\<open>apps/web/src/ui\<close>:
  \<^item> \<open>Ui_State\<close> (\<^verbatim>\<open>dashboard_state.rs\<close>, \<^verbatim>\<open>mod.rs\<close>: the signals are the fields of \<open>dashboard\<close>),
    \<open>Ui_Live\<close> (\<^verbatim>\<open>live.rs\<close>), \<open>Ui_Follow\<close> (\<^verbatim>\<open>batch.rs\<close>), \<open>Ui_Retry\<close> (\<^verbatim>\<open>pr_sync.rs\<close>, \<^verbatim>\<open>retry.rs\<close>),
    \<open>Ui_Active\<close> (\<^verbatim>\<open>active_batch.rs\<close>), \<open>Ui_Url\<close> (\<^verbatim>\<open>url_state.rs\<close>, \<^verbatim>\<open>url_sync.rs\<close>), \<open>Ui_Format\<close> and
    \<open>Ui_Calendar\<close> (\<^verbatim>\<open>format.rs\<close>), \<open>Ui_Repo_Tree\<close> (\<^verbatim>\<open>repo_tree.rs\<close>), \<open>Ui_Drawer\<close>
    (\<^verbatim>\<open>detail_drawer.rs\<close>, \<^verbatim>\<open>progress_drawer.rs\<close>), \<open>Ui_Panels\<close> (\<^verbatim>\<open>confirm_modal.rs\<close>,
    \<^verbatim>\<open>action_bar.rs\<close>, \<^verbatim>\<open>recent_batches.rs\<close>, \<^verbatim>\<open>status_bar.rs\<close>), \<open>Ui_Controls\<close>
    (\<^verbatim>\<open>search_box.rs\<close>, \<^verbatim>\<open>filters.rs\<close>, \<^verbatim>\<open>sidebar.rs\<close>, \<^verbatim>\<open>pr_row.rs\<close>, \<^verbatim>\<open>pr_table.rs\<close>), \<open>Ui_Dashboard\<close>
    (\<^verbatim>\<open>dashboard.rs\<close> and the buttons of \<^verbatim>\<open>pr_table.rs\<close>, \<^verbatim>\<open>top_bar.rs\<close>, \<^verbatim>\<open>detail_drawer.rs\<close>), \<open>Ui_Panes\<close>
    (the texts of the drawers and of the confirmation); promises in the theories ending in \<open>_Contract\<close>.
  \<^item> \<open>Ui_Components\<close> (\<^verbatim>\<open>components/*\<close>: the axes and their classes) and \<open>Ui_Dialog\<close>
    (\<^verbatim>\<open>components/alert_dialog/component.rs\<close>: the marking of the page outside an open dialog).
\<close>

section \<open>State, effects and interfaces\<close>

text \<open>
  A struct is a record, an enum a datatype, a virtual object's handler a function from the object's
  state (or from a world that holds it) to a result and the state after it; every error of the
  source is a value of a sum type. The operations a handler calls are the fields of a record of
  effects (\<open>pr_effects\<close>, \<open>bulk_effects\<close>, \<open>sync_effects\<close> and others), so that a handler is stated once,
  and the service's own instance (\<open>restate_pr\<close>, \<open>restate_bulk\<close>, \<open>restate_sync\<close>, \<open>restate_reconcile\<close>,
  \<open>restate_retirements\<close>) runs it over the database, GitHub and the timers. A database is \<open>db\<close>, its
  tables as lists of rows; a failing statement is a fault taken from a list that is part of the
  world, so the theorems hold for every pattern of failures.

  Where one component relies on another, the contract is a locale, interpreted on the model's own
  definitions:
  \<^item> \<open>token_codec\<close> and \<open>strict_token_codec\<close> (printed forms that read back): the keys and enumerations;
  \<^item> \<open>pull_request_object\<close> (state, timers and row of an object): \<open>restate_pr\<close>;
  \<^item> \<open>retirement_outbox\<close> (a queue read and acknowledged by id): \<open>restate_retirements\<close>;
  \<^item> \<open>bulk_calls\<close> (rounds of calls and the progress published between them): \<open>restate_bulk\<close>;
  \<^item> \<open>verified_writer\<close> (what is read before a write leaves GitHub alone): the two mutations on a pull
    request and on its comments;
  \<^item> \<open>keyed_map\<close> (the ordered map that holds the selection): the \<open>BTreeMap\<close> operations of \<open>Ui_State\<close>;
  \<^item> \<open>batch_page\<close> (what following a batch needs of the page): \<open>host_effects\<close>;
  \<^item> \<open>query_codec\<close> (the spelling of a query string reads back), which is Dioxus's and so is
    interpreted on a plain encoder that serves the witnesses.
\<close>

section \<open>What is shown\<close>

text \<open>
  \<^item> The vocabulary: printed forms read back; a pull request's windows stay bounded.
  \<^item> GitHub: no write before the pull request was read open, Dependabot's and at the approved head; a
    snapshot counts the checks of every page; a listing is all of its pages or refused.
  \<^item> The store: the invariant \<open>db_ok\<close> under every write and fault, and the keys, references and
    readability of all tables, the batches' among them; the SQL clause means what the
    filter means; a walk over the pages lists every match once; the counts of every facet are those of the list; a recorded batch
    reads back; migrations apply at most once across racing processes.
  \<^item> The objects: the guards of the mutations, what a sync settles and how it follows from
    GitHub's answer, the trailing sync that is never lost while the host clock does not run behind
    the object's last sync (and the run that loses one when it is set back), the fence of a close; a reconcile and a sweep refine replacing the projection by GitHub's
    listing; exactly one tick while the scheduler is started, from the startup's first request on.
  \<^item> Batches: merge rounds, the limits on what is in flight, a verdict for every target, survival of
    every failure, and the list of running batches.
  \<^item> The web: webhooks forwarded once, the dashboard guarded, a submission partitioned by the
    projection, select all matching from the click to the selection.
  \<^item> The dashboard: the selection is a valid batch, one batch is followed at a time and its outcome is
    a function of the answers, retries account for every rejection, the drawer stays on its pull
    request, routes read back and come to rest, the owner boxes do what they show, the printed date is
    the calendar's, the search box settles, a finished batch reads in the list as it did when it was
    followed, and the dialogs cover the page while they are open and give it back as it was.
  \<^item> The processes: started in one environment they serve one installation, and a rebase is on offer
    exactly when the service has a token for the user the dashboard signs in.
\<close>

section \<open>Bounds and loops\<close>

text \<open>
  A journaled step is retried a number of times given by \<open>budgets\<close>, a parameter: the SDK measures its
  budget in time, and the theorems hold for every number. The listing and comment pages of GitHub
  take fuel, one unit per page; the lemmas of \<open>Github_Contract\<close> under
  \<open>lists_repositories\<close>, \<open>lists_pulls\<close> and \<open>follows\<close> show that any fuel above the number of GitHub's pages
  ends with the result. The code's own bounds are kept as
  they are: \<open>SUBMIT_ATTEMPTS\<close> submissions, \<open>SYNC_POLLS\<close> polls of a sync, \<open>ATTACH_LIMIT\<close> empty polls of
  an unvouched batch, \<open>MAX_CONCURRENT\<close> targets in flight, 100 rows of a page and targets of a batch.
  A loop of the code without a bound (polling a batch, a follow, arming the scheduler) is \<open>loop\<close> of
  \<open>Loops\<close>, where \<open>None\<close> says that it goes on for ever; its theorems say exactly when it does. The
  other recursions are structural or have a termination proof.
\<close>

section \<open>What is a parameter\<close>

text \<open>
  Code that is not of this repository is an argument of the definitions: the network (a function from
  a request and its own state to an answer), JSON and YAML decoding, base64, UUIDs, RFC 3339 and
  semantic versions, signing and signature verification, constant-time comparison, the query string
  codec, what a file of SQL does to the schema, the clock. The laws assumed of them (a cursor's encoding
  reads back, the query string does) are named hypotheses with a witness on a concrete instance. SQL
  statements are modelled by their effect on the rows, Restate by what its documentation says of it:
  an object's calls run one at a time, a journaled step runs until it answers or its budget ends, a
  delayed call fires once.
\<close>

section \<open>Not modelled\<close>

text \<open>
  The markup of the Dioxus components (the elements, classes and event wiring of what the source
  writes in \<open>rsx!\<close>; the texts and the decisions are modelled), and with it \<^verbatim>\<open>ui/side_panel.rs\<close>, which
  holds nothing else; the wrappers that the macros of the SDK and of the server functions generate,
  and the binding of the services to an endpoint; \<^verbatim>\<open>telemetry.rs\<close>, which sets up tracing; and the tests
  with their support modules. None of these keeps state of the program or takes a decision of its own.
  Elapsed times of log lines are left out.
\<close>

end
